(* ===== verification/Prelude.thy ===== *)
theory Prelude
  imports Main "HOL-Library.Word"
begin

text \<open>
  The vocabulary every component shares: the error codes of \<open>libpkg/pkg.h.in\<close>, the
  C string and character functions the sources call (a C string is the list of its bytes up to
  the terminating NUL, a pointer into it is the suffix that starts there), and the insertion
  ordered hash tables of \<open>external/uthash/uthash.h\<close> as association lists, with the
  interface \<open>ordered_hash\<close> that the components use.
\<close>

section \<open>Error codes\<close>

datatype epkg =
    EPKG_OK | EPKG_END | EPKG_WARN | EPKG_FATAL | EPKG_REQUIRED | EPKG_INSTALLED
  | EPKG_DEPENDENCY | EPKG_LOCKED | EPKG_ENODB | EPKG_UPTODATE | EPKG_UNKNOWN
  | EPKG_REPOSCHEMA | EPKG_ENOACCESS | EPKG_INSECURE | EPKG_CONFLICT | EPKG_AGAIN

section \<open>C characters\<close>

text \<open>The C locale: bytes from 128 on belong to no class.\<close>

definition byte :: "char \<Rightarrow> int" where
  "byte c = of_char c"

definition isdigit :: "char \<Rightarrow> bool" where
  "isdigit c \<longleftrightarrow> 48 \<le> byte c \<and> byte c \<le> 57"

definition isupper :: "char \<Rightarrow> bool" where
  "isupper c \<longleftrightarrow> 65 \<le> byte c \<and> byte c \<le> 90"

definition islower :: "char \<Rightarrow> bool" where
  "islower c \<longleftrightarrow> 97 \<le> byte c \<and> byte c \<le> 122"

definition isalpha :: "char \<Rightarrow> bool" where
  "isalpha c \<longleftrightarrow> isupper c \<or> islower c"

definition isspace :: "char \<Rightarrow> bool" where
  "isspace c \<longleftrightarrow> byte c = 32 \<or> (9 \<le> byte c \<and> byte c \<le> 13)"

definition tolower :: "char \<Rightarrow> char" where
  "tolower c = (if isupper c then char_of (byte c + 32) else c)"

named_theorems ctype_defs \<open>definitions of the character classes\<close>

lemmas [ctype_defs] = byte_def isdigit_def isupper_def islower_def isalpha_def isspace_def
  tolower_def

lemma byte_of_nat: "byte c = int (of_char c)"
  unfolding byte_def by (rule of_nat_of_char [symmetric])

lemma byte_less_256 [simp]: "byte c < 256" and byte_nonneg [simp]: "0 \<le> byte c"
  by (simp_all add: byte_of_nat)

lemma byte_inject [simp]: "byte c = byte d \<longleftrightarrow> c = d"
  by (simp add: byte_of_nat)

lemma byte_tolower: "byte (tolower c) = (if isupper c then byte c + 32 else byte c)"
  by (auto simp: tolower_def isupper_def byte_def)

lemma tolower_idem [simp]: "tolower (tolower c) = tolower c"
  by (auto simp: tolower_def isupper_def byte_def)

lemma tolower_isdigit [simp]: "isdigit (tolower c) = isdigit c"
  by (auto simp: isdigit_def byte_tolower isupper_def)

lemma tolower_isalpha [simp]: "isalpha (tolower c) = isalpha c"
  by (auto simp: isalpha_def isupper_def islower_def byte_tolower)

lemma tolower_nonalpha [simp]: "\<not> isalpha c \<Longrightarrow> tolower c = c"
  by (auto simp: isalpha_def tolower_def)

lemma tolower_eq_nonalpha: "\<not> isalpha d \<Longrightarrow> tolower c = d \<longleftrightarrow> c = d"
proof
  assume d: "\<not> isalpha d" and eq: "tolower c = d"
  then have "\<not> isalpha c" by (metis tolower_isalpha)
  with eq show "c = d" by simp
qed simp

lemma isdigit_not_isalpha [simp]: "isdigit c \<Longrightarrow> \<not> isalpha c"
  by (auto simp: isdigit_def isalpha_def isupper_def islower_def)

section \<open>C strings\<close>

fun strchr :: "char \<Rightarrow> string \<Rightarrow> string option" where
  "strchr c [] = None"
| "strchr c (x # xs) = (if x = c then Some (x # xs) else strchr c xs)"

fun strrchr :: "char \<Rightarrow> string \<Rightarrow> string option" where
  "strrchr c [] = None"
| "strrchr c (x # xs) = (case strrchr c xs of
      Some r \<Rightarrow> Some r
    | None \<Rightarrow> if x = c then Some (x # xs) else None)"

text \<open>The sign of \<open>strcmp\<close>: bytes compared as unsigned characters.\<close>

fun strcmp :: "string \<Rightarrow> string \<Rightarrow> int" where
  "strcmp [] [] = 0"
| "strcmp [] (b # bs) = -1"
| "strcmp (a # as) [] = 1"
| "strcmp (a # as) (b # bs) =
     (if a = b then strcmp as bs else if byte a < byte b then -1 else 1)"

definition strncmp :: "string \<Rightarrow> string \<Rightarrow> nat \<Rightarrow> int" where
  "strncmp a b n = strcmp (take n a) (take n b)"

definition strcaseeq :: "string \<Rightarrow> string \<Rightarrow> bool" where
  \<comment> \<open>\<open>strcasecmp (a, b) == 0\<close>\<close>
  "strcaseeq a b \<longleftrightarrow> map tolower a = map tolower b"

definition strncaseeq :: "string \<Rightarrow> string \<Rightarrow> nat \<Rightarrow> bool" where
  \<comment> \<open>\<open>strncasecmp (a, b, n) == 0\<close>\<close>
  "strncaseeq a b n \<longleftrightarrow> strcaseeq (take n a) (take n b)"

text \<open>
  Numbers in base ten. \<open>unsigned long\<close> and \<open>long long\<close> are 64 bits wide (the LP64
  platforms the program is built for); \<open>strtoll\<close> saturates at \<open>LLONG_MAX\<close>,
  \<open>strtoul\<close> at \<open>ULONG_MAX\<close> and negates after a minus sign.
\<close>

definition digit_val :: "char \<Rightarrow> int" where
  "digit_val c = byte c - 48"

definition dec_value :: "string \<Rightarrow> int" where
  "dec_value s = foldl (\<lambda>a c. 10 * a + digit_val c) 0 (takeWhile isdigit s)"

definition LLONG_MAX :: int where
  "LLONG_MAX = 2 ^ 63 - 1"

definition strtoll_digits :: "string \<Rightarrow> int \<times> string" where
  \<comment> \<open>\<open>strtoll (s, &end, 10)\<close> where \<open>s\<close> starts with a digit\<close>
  "strtoll_digits s = (min (dec_value s) LLONG_MAX, dropWhile isdigit s)"

definition strtoul :: "string \<Rightarrow> 64 word" where
  "strtoul s =
     (let s1 = dropWhile isspace s;
          neg = (case s1 of c # r \<Rightarrow> c = CHR ''-'' | [] \<Rightarrow> False);
          s2 = (case s1 of c # r \<Rightarrow> if c = CHR ''-'' \<or> c = CHR ''+'' then r else s1 | [] \<Rightarrow> []);
          n = dec_value s2
      in if 2 ^ 64 - 1 < n then - 1 else if neg then - of_int n else of_int n)"

text \<open>Printing in base ten, \<open>%d\<close> of \<open>printf\<close> and its kin.\<close>

fun show_nat :: "nat \<Rightarrow> string" where
  "show_nat n = (if n < 10 then [char_of (48 + n)] else show_nat (n div 10) @ [char_of (48 + n mod 10)])"

declare show_nat.simps [simp del]

definition show_int :: "int \<Rightarrow> string" where
  "show_int n = (if n < 0 then ''-'' else []) @ show_nat (nat \<bar>n\<bar>)"

subsection \<open>Lemmas\<close>

lemma show_nat_digits: "show_nat n \<noteq> [] \<and> (\<forall>c \<in> set (show_nat n). isdigit c)"
proof (induction n rule: show_nat.induct)
  case (1 n)
  have d: "isdigit (char_of (48 + k))" if "k < 10" for k :: nat
    using that by (simp add: isdigit_def byte_of_nat)
  show ?case
  proof (cases "n < 10")
    case True
    then show ?thesis using d by (simp add: show_nat.simps [of n])
  next
    case False
    then show ?thesis using 1 d [of "n mod 10"] by (subst (1 2) show_nat.simps) auto
  qed
qed

lemma dec_value_show_nat: "dec_value (show_nat n) = int n"
proof (induction n rule: show_nat.induct)
  case (1 n)
  have v: "digit_val (char_of (48 + k)) = int k" if "k < 10" for k :: nat
    using that by (simp add: digit_val_def byte_of_nat)
  have all: "takeWhile isdigit (show_nat m) = show_nat m" for m
    using show_nat_digits by (simp add: takeWhile_eq_all_conv)
  show ?case
  proof (cases "n < 10")
    case True
    then show ?thesis unfolding dec_value_def all using v by (simp add: show_nat.simps [of n])
  next
    case False
    have "foldl (\<lambda>a c. 10 * a + digit_val c) 0 (show_nat (n div 10)) = int (n div 10)"
      using 1 False unfolding dec_value_def all by simp
    then have "foldl (\<lambda>a c. 10 * a + digit_val c) 0 (show_nat n) = 10 * int (n div 10) + int (n mod 10)"
      using False v [of "n mod 10"] by (subst show_nat.simps) simp
    also have "\<dots> = int n" by (simp flip: of_nat_mult of_nat_add add: zdiv_int zmod_int)
    finally show ?thesis unfolding dec_value_def all .
  qed
qed

lemma strchr_suffix: "strchr c s = Some r \<Longrightarrow> \<exists>p. s = p @ r \<and> c \<notin> set p \<and> hd r = c \<and> r \<noteq> []"
proof (induction s)
  case (Cons x xs)
  show ?case
  proof (cases "x = c")
    case False
    with Cons obtain p where "xs = p @ r" "c \<notin> set p" "hd r = c" "r \<noteq> []" by auto
    then have "x # xs = (x # p) @ r" "c \<notin> set (x # p)" using False by auto
    with \<open>hd r = c\<close> \<open>r \<noteq> []\<close> show ?thesis by blast
  qed (use Cons.prems in auto)
qed simp

lemma strchr_None: "strchr c s = None \<longleftrightarrow> c \<notin> set s"
  by (induction s) auto

lemma strrchr_None: "strrchr c s = None \<longleftrightarrow> c \<notin> set s"
  by (induction s) (auto split: option.splits)

lemma strrchr_SomeD:
  "strrchr c s = Some r \<Longrightarrow> \<exists>p t. s = p @ r \<and> r = c # t \<and> c \<notin> set t"
proof (induction s)
  case (Cons x xs)
  show ?case
  proof (cases "strrchr c xs")
    case None
    with Cons.prems have "x # xs = [] @ r \<and> r = c # xs \<and> c \<notin> set xs"
      by (auto simp: strrchr_None split: if_splits)
    then show ?thesis by blast
  next
    case (Some r')
    with Cons have "\<exists>p t. xs = p @ r \<and> r = c # t \<and> c \<notin> set t" by simp
    then obtain p t where "xs = p @ r" and t: "r = c # t" "c \<notin> set t" by blast
    then have "x # xs = (x # p) @ r" by simp
    with t show ?thesis by blast
  qed
qed simp

lemma strrchr_append: "c \<notin> set t \<Longrightarrow> strrchr c (p @ c # t) = Some (c # t)"
proof (induction p)
  case Nil
  then have "strrchr c t = None" by (simp add: strrchr_None)
  then show ?case by simp
qed simp

lemma strcmp_refl [simp]: "strcmp a a = 0"
  by (induction a) auto

lemma strcmp_eq_0 [simp]: "strcmp a b = 0 \<longleftrightarrow> a = b"
  by (induction a b rule: strcmp.induct) auto

lemma strcmp_antisym: "strcmp a b = - strcmp b a"
  by (induction a b rule: strcmp.induct) auto

lemma strcmp_range: "strcmp a b \<in> {-1, 0, 1}"
  by (induction a b rule: strcmp.induct) auto

lemma strcmp_trans: "strcmp a b \<le> 0 \<Longrightarrow> strcmp b c \<le> 0 \<Longrightarrow> strcmp a c \<le> 0"
proof (induction a b arbitrary: c rule: strcmp.induct)
  case (1 c)
  then show ?case by simp
next
  case (2 b bs c)
  then show ?case by (cases c) auto
next
  case (3 a as c)
  then show ?case by simp
next
  case (4 a as b bs c)
  then show ?case by (cases c) (auto split: if_splits)
qed

lemma strcaseeq_refl [simp]: "strcaseeq a a"
  by (simp add: strcaseeq_def)

lemma strcaseeq_sym: "strcaseeq a b \<Longrightarrow> strcaseeq b a"
  by (simp add: strcaseeq_def)

section \<open>Insertion ordered hash tables\<close>

text \<open>
  \<open>HASH_ITER\<close> walks a uthash table in the order of insertion, \<open>HASH_ADD\<close> appends to
  that order, \<open>HASH_FIND\<close> returns the element with the key and \<open>HASH_DEL\<close> unlinks
  it. An element is a C structure; \<open>hash_upd\<close> is an assignment to one of its fields through
  a pointer that \<open>HASH_FIND\<close> or \<open>HASH_ITER\<close> gave.
\<close>

type_synonym ('k, 'v) uthash = "('k \<times> 'v) list"

definition hash_find :: "'k \<Rightarrow> ('k, 'v) uthash \<Rightarrow> 'v option" where
  "hash_find k h = map_of h k"

definition hash_add :: "'k \<Rightarrow> 'v \<Rightarrow> ('k, 'v) uthash \<Rightarrow> ('k, 'v) uthash" where
  "hash_add k v h = h @ [(k, v)]"

definition hash_del :: "'k \<Rightarrow> ('k, 'v) uthash \<Rightarrow> ('k, 'v) uthash" where
  "hash_del k h = filter (\<lambda>e. fst e \<noteq> k) h"

definition hash_upd :: "'k \<Rightarrow> ('v \<Rightarrow> 'v) \<Rightarrow> ('k, 'v) uthash \<Rightarrow> ('k, 'v) uthash" where
  "hash_upd k f h = map (\<lambda>(k', v). (k', if k' = k then f v else v)) h"

definition hash_wf :: "('k, 'v) uthash \<Rightarrow> bool" where
  "hash_wf h \<longleftrightarrow> distinct (map fst h)"

text \<open>What the components rely on.\<close>

locale ordered_hash =
  fixes empty :: 'h
    and find :: "'k \<Rightarrow> 'h \<Rightarrow> 'v option"
    and add :: "'k \<Rightarrow> 'v \<Rightarrow> 'h \<Rightarrow> 'h"
    and del :: "'k \<Rightarrow> 'h \<Rightarrow> 'h"
    and iter :: "'h \<Rightarrow> ('k \<times> 'v) list"
  assumes iter_empty: "iter empty = []"
    and iter_add: "iter (add k v h) = iter h @ [(k, v)]"
    and iter_del: "iter (del k h) = filter (\<lambda>e. fst e \<noteq> k) (iter h)"
    and find_iter: "find k h = map_of (iter h) k"
begin

definition wf :: "'h \<Rightarrow> bool" where
  "wf h \<longleftrightarrow> distinct (map fst (iter h))"

lemma find_empty: "find k empty = None"
  by (simp add: find_iter iter_empty)

lemma wf_empty: "wf empty"
  by (simp add: wf_def iter_empty)

lemma find_None: "find k h = None \<longleftrightarrow> k \<notin> fst ` set (iter h)"
  by (simp add: find_iter map_of_eq_None_iff)

lemma find_SomeD: "find k h = Some v \<Longrightarrow> (k, v) \<in> set (iter h)"
  by (simp add: find_iter map_of_SomeD)

lemma find_Some: "wf h \<Longrightarrow> find k h = Some v \<longleftrightarrow> (k, v) \<in> set (iter h)"
  by (simp add: find_iter wf_def)

lemma wf_add: "wf h \<Longrightarrow> find k h = None \<Longrightarrow> wf (add k v h)"
  by (auto simp: wf_def iter_add find_None)

lemma wf_del: "wf h \<Longrightarrow> wf (del k h)"
  by (auto simp: wf_def iter_del distinct_map inj_on_def)

lemma find_add_same: "find k h = None \<Longrightarrow> find k (add k v h) = Some v"
  by (simp add: find_iter iter_add map_add_def)

lemma find_add_other: "k' \<noteq> k \<Longrightarrow> find k' (add k v h) = find k' h"
  by (simp add: find_iter iter_add map_add_def split: option.splits)

lemma find_del_same: "find k (del k h) = None"
  by (auto simp: find_None iter_del)

lemma find_del_other: "k' \<noteq> k \<Longrightarrow> find k' (del k h) = find k' h"
proof -
  assume "k' \<noteq> k"
  then have "map_of (filter (\<lambda>e. fst e \<noteq> k) es) k' = map_of es k'" for es :: "('k \<times> 'v) list"
    by (induction es) auto
  then show ?thesis by (simp add: find_iter iter_del)
qed

lemma wf_add_absent: "wf h \<Longrightarrow> wf (if find k h = None then add k v h else h)"
  by (simp add: wf_add)

lemma find_add_absent:
  "find k' (if find k h = None then add k v h else h) =
     (if k' = k \<and> find k h = None then Some v else find k' h)"
  by (simp add: find_add_same find_add_other)

end

interpretation uh: ordered_hash "[]" hash_find hash_add hash_del "\<lambda>h. h"
  by unfold_locales (simp_all add: hash_find_def hash_add_def hash_del_def)

lemma uh_wf [simp]: "uh.wf h = hash_wf h"
  by (simp add: uh.wf_def hash_wf_def)

lemmas hash_defs = hash_find_def hash_add_def hash_del_def hash_upd_def

lemma hash_upd_keys [simp]: "map fst (hash_upd k f h) = map fst h"
  by (induction h) (auto simp: hash_upd_def)

lemma hash_wf_upd [simp]: "hash_wf (hash_upd k f h) = hash_wf h"
  by (simp add: hash_wf_def)

lemma hash_find_upd:
  "hash_find k' (hash_upd k f h) =
     (if k' = k then map_option f (hash_find k h) else hash_find k' h)"
  by (induction h) (auto simp: hash_find_def hash_upd_def)

lemma hash_find_mem: "(k, v) \<in> set h \<Longrightarrow> hash_find k h \<noteq> None"
  by (metis hash_find_def map_of_eq_None_iff fst_conv image_eqI)

lemma hash_find_wf: "hash_wf h \<Longrightarrow> (k, v) \<in> set h \<Longrightarrow> hash_find k h = Some v"
  by (simp add: hash_find_def hash_wf_def)

section \<open>Runs that may crash or not end\<close>

text \<open>
  The result of a C function that can fail an assertion or dereference a null pointer
  (\<open>Crash\<close>) and that is modelled with a bound on the depth of its recursion (\<open>NoFuel\<close>
  when the bound was too small).
\<close>

datatype 'a run = Ret 'a | Crash | NoFuel

primrec run_bind :: "'a run \<Rightarrow> ('a \<Rightarrow> 'b run) \<Rightarrow> 'b run" where
  "run_bind (Ret x) f = f x"
| "run_bind Crash f = Crash"
| "run_bind NoFuel f = NoFuel"

text \<open>What holds of the value, if there is one; and the same for runs that must have enough fuel.\<close>

primrec run_all :: "('a \<Rightarrow> bool) \<Rightarrow> 'a run \<Rightarrow> bool" where
  "run_all P (Ret x) = P x"
| "run_all P Crash = True"
| "run_all P NoFuel = True"

primrec run_ends :: "('a \<Rightarrow> bool) \<Rightarrow> 'a run \<Rightarrow> bool" where
  "run_ends P (Ret x) = P x"
| "run_ends P Crash = True"
| "run_ends P NoFuel = False"

lemma run_all_bind: "run_all P m \<Longrightarrow> (\<And>x. P x \<Longrightarrow> run_all Q (f x)) \<Longrightarrow> run_all Q (run_bind m f)"
  by (cases m) simp_all

lemma run_ends_bind: "run_ends P m \<Longrightarrow> (\<And>x. P x \<Longrightarrow> run_ends Q (f x)) \<Longrightarrow> run_ends Q (run_bind m f)"
  by (cases m) simp_all

lemma run_all_mono: "run_all P m \<Longrightarrow> (\<And>x. P x \<Longrightarrow> Q x) \<Longrightarrow> run_all Q m"
  by (cases m) simp_all

lemma run_ends_mono: "run_ends P m \<Longrightarrow> (\<And>x. P x \<Longrightarrow> Q x) \<Longrightarrow> run_ends Q m"
  by (cases m) simp_all

lemma run_endsI: "run_ends P m \<Longrightarrow> m \<noteq> NoFuel"
  by (cases m) simp_all

primrec the_run :: "'a run \<Rightarrow> 'a option" where
  "the_run (Ret x) = Some x"
| "the_run Crash = None"
| "the_run NoFuel = None"

lemma the_run_Some: "the_run m = Some x \<longleftrightarrow> m = Ret x"
  by (cases m) simp_all

text \<open>The same for runs that must return; and a loop over a list that threads the state.\<close>

primrec run_returns :: "('a \<Rightarrow> bool) \<Rightarrow> 'a run \<Rightarrow> bool" where
  "run_returns P (Ret x) = P x"
| "run_returns P Crash = False"
| "run_returns P NoFuel = False"

lemma run_returns_bind:
  "run_returns P m \<Longrightarrow> (\<And>x. P x \<Longrightarrow> run_returns Q (f x)) \<Longrightarrow> run_returns Q (run_bind m f)"
  by (cases m) simp_all

lemma run_returns_mono: "run_returns P m \<Longrightarrow> (\<And>x. P x \<Longrightarrow> Q x) \<Longrightarrow> run_returns Q m"
  by (cases m) simp_all

lemma run_returnsD: "run_returns P m \<Longrightarrow> \<exists>x. m = Ret x \<and> P x"
  by (cases m) simp_all

fun run_fold :: "('a \<Rightarrow> 's \<Rightarrow> 's run) \<Rightarrow> 'a list \<Rightarrow> 's \<Rightarrow> 's run" where
  "run_fold f [] s = Ret s"
| "run_fold f (x # xs) s = run_bind (f x s) (run_fold f xs)"

lemma run_fold_returns:
  assumes "\<And>x s. x \<in> set xs \<Longrightarrow> I s \<Longrightarrow> run_returns (\<lambda>s'. R s s' \<and> Q x s') (f x s)"
    and "\<And>s. R s s" and "\<And>s t r. R s t \<Longrightarrow> R t r \<Longrightarrow> R s r"
    and "\<And>s t. I s \<Longrightarrow> R s t \<Longrightarrow> I t"
    and "\<And>x s t. x \<in> set xs \<Longrightarrow> Q x s \<Longrightarrow> I s \<Longrightarrow> R s t \<Longrightarrow> Q x t"
    and "I s"
  shows "run_returns (\<lambda>s'. R s s' \<and> (\<forall>x \<in> set xs. Q x s')) (run_fold f xs s)"
  using assms
proof (induction xs arbitrary: s)
  case (Cons x xs)
  have "run_returns (\<lambda>t. R s t \<and> Q x t) (f x s)" using Cons.prems(1,6) by simp
  then show ?case unfolding run_fold.simps
  proof (rule run_returns_bind)
    fix t assume t: "R s t \<and> Q x t"
    then have I: "I t" using Cons.prems(4,6) by blast
    have "run_returns (\<lambda>s'. R t s' \<and> (\<forall>x \<in> set xs. Q x s')) (run_fold f xs t)"
      by (rule Cons.IH [OF Cons.prems(1-5) I]) simp_all
    then show "run_returns (\<lambda>s'. R s s' \<and> (\<forall>x \<in> set (x # xs). Q x s')) (run_fold f xs t)"
    proof (rule run_returns_mono)
      fix r assume r: "R t r \<and> (\<forall>x \<in> set xs. Q x r)"
      then have "Q x r" using Cons.prems(5) [of x t r] t I by simp
      with r t Cons.prems(3) show "R s r \<and> (\<forall>x \<in> set (x # xs). Q x r)" by auto
    qed
  qed
qed simp

end
