(* ===== verification/Utlist.thy ===== *)
theory Utlist
  imports Prelude "HOL-Library.Multiset"
begin

text \<open>
  The list macros of \<open>external/uthash/utlist.h\<close>: \<open>LL_SORT\<close> and \<open>DL_SORT\<close>, a
  bottom-up merge sort over runs of doubling size, on the list of the elements. The interface
  \<open>three_way_cmp\<close> is what a comparison callback of the program promises; inside it the
  sort is shown to return a sorted permutation and the selection loops of the program to return
  a maximum.
\<close>

section \<open>The merge sort of utlist.h\<close>

fun ll_merge :: "('a \<Rightarrow> 'a \<Rightarrow> int) \<Rightarrow> 'a list \<Rightarrow> 'a list \<Rightarrow> 'a list" where
  "ll_merge cmp [] qs = qs"
| "ll_merge cmp (p # ps) [] = p # ps"
| "ll_merge cmp (p # ps) (q # qs) =
     (if cmp p q \<le> 0 then p # ll_merge cmp ps (q # qs) else q # ll_merge cmp (p # ps) qs)"

text \<open>One pass of the outer loop over runs of \<open>insize\<close> (which is at least 1).\<close>

function ll_pass :: "('a \<Rightarrow> 'a \<Rightarrow> int) \<Rightarrow> nat \<Rightarrow> 'a list \<Rightarrow> 'a list" where
  "ll_pass cmp insize xs =
     (if xs = [] \<or> insize = 0 then xs
      else ll_merge cmp (take insize xs) (take insize (drop insize xs))
           @ ll_pass cmp insize (drop (2 * insize) xs))"
  by pat_completeness auto
termination
  by (relation "measure (\<lambda>(cmp, n, xs). length xs)") auto

declare ll_pass.simps [simp del]

text \<open>
  The pass that makes at most one merge is the last one: the list then has at most
  \<open>2 * insize\<close> elements.
\<close>

function ll_sort_from :: "('a \<Rightarrow> 'a \<Rightarrow> int) \<Rightarrow> nat \<Rightarrow> 'a list \<Rightarrow> 'a list" where
  "ll_sort_from cmp insize xs =
     (let ys = ll_pass cmp insize xs
      in if length xs \<le> 2 * insize \<or> insize = 0 then ys
         else ll_sort_from cmp (2 * insize) ys)"
  by pat_completeness auto

lemma mset_ll_merge [simp]: "mset (ll_merge cmp ps qs) = mset ps + mset qs"
  by (induction cmp ps qs rule: ll_merge.induct) auto

lemma mset_ll_pass [simp]: "mset (ll_pass cmp insize xs) = mset xs"
proof (induction cmp insize xs rule: ll_pass.induct)
  case (1 cmp insize xs)
  show ?case
  proof (cases "xs = [] \<or> insize = 0")
    case False
    have "mset xs = mset (take insize xs) + mset (take insize (drop insize xs))
        + mset (drop (2 * insize) xs)"
      by (metis (no_types, lifting) add.assoc append_take_drop_id drop_drop mset_append mult_2)
    with False 1 show ?thesis by (simp add: ll_pass.simps [of cmp insize xs])
  qed (simp add: ll_pass.simps)
qed

lemma length_ll_pass [simp]: "length (ll_pass cmp insize xs) = length xs"
  by (metis mset_ll_pass size_mset)

termination ll_sort_from
  by (relation "measure (\<lambda>(cmp, n, xs). length xs - n)") auto

declare ll_sort_from.simps [simp del]

definition ll_sort :: "('a \<Rightarrow> 'a \<Rightarrow> int) \<Rightarrow> 'a list \<Rightarrow> 'a list" where
  "ll_sort cmp xs = (if xs = [] then [] else ll_sort_from cmp 1 xs)"

lemma mset_ll_sort_from [simp]: "mset (ll_sort_from cmp n xs) = mset xs"
  by (induction cmp n xs rule: ll_sort_from.induct)
     (subst ll_sort_from.simps, simp add: Let_def)

lemma mset_ll_sort [simp]: "mset (ll_sort cmp xs) = mset xs"
  by (simp add: ll_sort_def)

lemma set_ll_sort [simp]: "set (ll_sort cmp xs) = set xs"
  by (metis mset_ll_sort set_mset_mset)

lemma length_ll_sort [simp]: "length (ll_sort cmp xs) = length xs"
  by (metis mset_ll_sort size_mset)

lemma length_ll_merge: "length (ll_merge cmp ps qs) = length ps + length qs"
  by (metis mset_ll_merge size_mset size_union)

text \<open>Every run of \<open>n\<close> consecutive elements satisfies \<open>P\<close>.\<close>

function runs :: "('a list \<Rightarrow> bool) \<Rightarrow> nat \<Rightarrow> 'a list \<Rightarrow> bool" where
  "runs P n xs = (if xs = [] \<or> n = 0 then True else P (take n xs) \<and> runs P n (drop n xs))"
  by pat_completeness auto
termination
  by (relation "measure (\<lambda>(P, n, xs). length xs)") auto

declare runs.simps [simp del]

lemma runs_Nil [simp]: "runs P n []"
  by (simp add: runs.simps)

lemma runs_one: "(\<And>x. P [x]) \<Longrightarrow> runs P 1 xs"
  by (induction xs) (simp_all add: runs.simps [of P "Suc 0" "_ # _"])

lemma runs_append: "length ys = n \<Longrightarrow> P ys \<Longrightarrow> runs P n zs \<Longrightarrow> runs P n (ys @ zs)"
  by (simp add: runs.simps [of P n "ys @ zs"])

lemma runs_take: "runs P n xs \<Longrightarrow> 0 < n \<Longrightarrow> xs \<noteq> [] \<Longrightarrow> P (take n xs) \<and> runs P n (drop n xs)"
  by (simp add: runs.simps [of P n xs])

lemma runs_short: "length xs \<le> n \<Longrightarrow> 0 < n \<Longrightarrow> runs P n xs \<Longrightarrow> xs = [] \<or> P xs"
  by (simp add: runs.simps [of P n xs] split: if_splits)

lemma runs_single: "length xs \<le> n \<Longrightarrow> P xs \<Longrightarrow> runs P n xs"
  by (simp add: runs.simps [of P n xs])

section \<open>Comparison callbacks\<close>

locale three_way_cmp =
  fixes cmp :: "'a \<Rightarrow> 'a \<Rightarrow> int"
  assumes cmp_swap: "cmp a b \<le> 0 \<longleftrightarrow> 0 \<le> cmp b a"
    and cmp_trans: "cmp a b \<le> 0 \<Longrightarrow> cmp b c \<le> 0 \<Longrightarrow> cmp a c \<le> 0"
begin

lemma cmp_total: "cmp a b \<le> 0 \<or> cmp b a \<le> 0"
  using cmp_swap [of a b] by linarith

lemma cmp_refl: "cmp a a \<le> 0"
  using cmp_total [of a a] by simp

definition ordered :: "'a list \<Rightarrow> bool" where
  "ordered xs \<longleftrightarrow> sorted_wrt (\<lambda>a b. cmp a b \<le> 0) xs"

lemma set_merge: "set (ll_merge c ps qs) = set ps \<union> set qs"
  by (metis mset_ll_merge set_mset_mset set_mset_union)

lemma ordered_Cons [simp]:
  "ordered (x # xs) \<longleftrightarrow> (\<forall>y \<in> set xs. cmp x y \<le> 0) \<and> ordered xs"
  by (simp add: ordered_def)

lemma ordered_Nil [simp]: "ordered []"
  by (simp add: ordered_def)

lemma ordered_merge: "ordered ps \<Longrightarrow> ordered qs \<Longrightarrow> ordered (ll_merge cmp ps qs)"
proof (induction ps arbitrary: qs)
  case (Cons p ps)
  note IH = Cons.IH and op = Cons.prems(1)
  from \<open>ordered qs\<close> show ?case
  proof (induction qs)
    case (Cons q qs)
    show ?case
    proof (cases "cmp p q \<le> 0")
      case True
      then have "\<forall>x \<in> set (q # qs). cmp p x \<le> 0"
        using Cons.prems cmp_trans by auto
      with True IH op Cons.prems show ?thesis by (auto simp: set_merge)
    next
      case False
      then have "cmp q p \<le> 0" using cmp_total by blast
      then have "\<forall>x \<in> set (p # ps). cmp q x \<le> 0"
        using op cmp_trans by auto
      with False Cons show ?thesis by (auto simp: set_merge)
    qed
  qed (use op in simp)
qed simp

lemma runs_pass: "0 < n \<Longrightarrow> runs ordered n xs \<Longrightarrow> runs ordered (2 * n) (ll_pass cmp n xs)"
proof (induction xs rule: length_induct)
  case (1 xs)
  show ?case
  proof (cases "xs = []")
    case True
    then show ?thesis by (simp add: ll_pass.simps)
  next
    case False
    let ?m = "ll_merge cmp (take n xs) (take n (drop n xs))"
    have t: "ordered (take n xs)" and d: "runs ordered n (drop n xs)"
      using runs_take [OF "1.prems"(2,1) False] by auto
    have "ordered (take n (drop n xs)) \<and> runs ordered n (drop n (drop n xs))"
      using runs_take [OF d "1.prems"(1)] by (cases "drop n xs = []") simp_all
    then have o: "ordered ?m" and r: "runs ordered n (drop (2 * n) xs)"
      using t ordered_merge by (simp_all add: mult_2)
    have eq: "ll_pass cmp n xs = ?m @ ll_pass cmp n (drop (2 * n) xs)"
      using False "1.prems"(1) by (simp add: ll_pass.simps [of cmp n xs])
    have len: "length ?m = min (2 * n) (length xs)"
      by (simp add: length_ll_merge)
    have rest: "runs ordered (2 * n) (ll_pass cmp n (drop (2 * n) xs))"
      using "1.IH" False r "1.prems"(1) by simp
    show ?thesis
    proof (cases "2 * n \<le> length xs")
      case True
      with eq len o rest show ?thesis by (simp add: runs_append)
    next
      case short: False
      then have "ll_pass cmp n xs = ?m" using eq by (simp add: ll_pass.simps)
      with o short len show ?thesis by (simp add: runs_single)
    qed
  qed
qed

lemma ordered_sort_from: "0 < n \<Longrightarrow> runs ordered n xs \<Longrightarrow> ordered (ll_sort_from cmp n xs)"
proof (induction "length xs - n" arbitrary: n xs rule: less_induct)
  case less
  have rp: "runs ordered (2 * n) (ll_pass cmp n xs)"
    using less.prems by (rule runs_pass)
  show ?case
  proof (cases "length xs \<le> 2 * n")
    case True
    have "ordered (ll_pass cmp n xs)"
      using runs_short [OF _ _ rp] True less.prems(1) by auto
    with True show ?thesis by (simp add: ll_sort_from.simps [of cmp n xs] Let_def)
  next
    case False
    have "ordered (ll_sort_from cmp (2 * n) (ll_pass cmp n xs))"
      using less.hyps [of "ll_pass cmp n xs" "2 * n"] False less.prems(1) rp by simp
    with False less.prems(1) show ?thesis by (simp add: ll_sort_from.simps [of cmp n xs] Let_def)
  qed
qed

lemma ordered_sort: "ordered (ll_sort cmp xs)"
  using ordered_sort_from [of 1 xs] runs_one [of ordered xs] by (simp add: ll_sort_def)

lemma sort_head_least: "x \<in> set xs \<Longrightarrow> cmp (hd (ll_sort cmp xs)) x \<le> 0"
proof -
  assume x: "x \<in> set xs"
  then have "ll_sort cmp xs \<noteq> []" by (metis empty_iff empty_set set_ll_sort)
  then obtain y ys where s: "ll_sort cmp xs = y # ys" by (cases "ll_sort cmp xs") auto
  with ordered_sort [of xs] have "\<forall>z \<in> set ys. cmp y z \<le> 0" by simp
  with s x cmp_refl show ?thesis by (metis list.sel(1) set_ConsD set_ll_sort)
qed

text \<open>When only equal elements compare as equal, sorting is canonical.\<close>

lemma ordered_unique:
  assumes "\<And>a b. cmp a b = 0 \<Longrightarrow> a = b"
  shows "mset xs = mset ys \<Longrightarrow> ordered xs \<Longrightarrow> ordered ys \<Longrightarrow> xs = ys"
proof (induction xs arbitrary: ys)
  case (Cons x xs)
  then obtain y ys' where ys: "ys = y # ys'" by (cases ys) auto
  have m: "x \<in> set ys" "y \<in> set (x # xs)"
    using Cons.prems(1) ys by (metis list.set_intros(1) set_mset_mset)+
  have "cmp x y \<le> 0" "cmp y x \<le> 0"
    using m Cons.prems(2,3) ys cmp_refl by auto
  then have "cmp x y = 0" using cmp_swap [of y x] by simp
  then have "x = y" by (rule assms)
  with Cons ys show ?case by simp
qed simp

lemma cmp_eq_swap: "cmp a b = 0 \<longleftrightarrow> cmp b a = 0"
  using cmp_swap [of a b] cmp_swap [of b a] by linarith

lemma cmp_less_swap: "cmp a b < 0 \<longleftrightarrow> 0 < cmp b a"
  using cmp_swap [of b a] by linarith

lemma cmp_less_le_trans: "cmp a b < 0 \<Longrightarrow> cmp b c \<le> 0 \<Longrightarrow> cmp a c < 0"
  by (metis cmp_less_swap cmp_trans linorder_not_less order_less_imp_le)

lemma cmp_le_less_trans: "cmp a b \<le> 0 \<Longrightarrow> cmp b c < 0 \<Longrightarrow> cmp a c < 0"
  by (metis cmp_less_swap cmp_trans linorder_not_less order_less_imp_le)

lemma cmp_eq_trans: "cmp a b = 0 \<Longrightarrow> cmp b c = 0 \<Longrightarrow> cmp a c = 0"
  by (metis cmp_eq_swap cmp_swap cmp_trans order_antisym order_refl)

lemma cmp_eq_le: "cmp a b = 0 \<Longrightarrow> cmp a c \<le> 0 \<longleftrightarrow> cmp b c \<le> 0"
  by (metis cmp_eq_swap cmp_trans order_refl)

text \<open>
  The selection loop of the program: keep the first element, replace it by every later one
  that compares greater.
\<close>

lemma select_max:
  "foldl (\<lambda>s x. if cmp s x < 0 then x else s) s xs = m \<Longrightarrow>
     m \<in> set (s # xs) \<and> (\<forall>x \<in> set (s # xs). cmp x m \<le> 0)"
proof (induction xs arbitrary: s)
  case Nil
  then show ?case by (simp add: cmp_refl)
next
  case (Cons x xs)
  let ?s = "if cmp s x < 0 then x else s"
  from Cons.prems have "foldl (\<lambda>s x. if cmp s x < 0 then x else s) ?s xs = m" by simp
  from Cons.IH [OF this] have m: "m \<in> set (?s # xs)" "\<forall>y \<in> set (?s # xs). cmp y m \<le> 0"
    by blast+
  have "cmp s ?s \<le> 0 \<and> cmp x ?s \<le> 0"
    using cmp_swap [of x s] cmp_refl by auto
  moreover from m(2) have "cmp ?s m \<le> 0" by simp
  ultimately have "cmp s m \<le> 0" and "cmp x m \<le> 0" using cmp_trans by blast+
  with m show ?case by (auto split: if_splits)
qed

end

section \<open>Building comparisons\<close>

definition ord_cmp :: "'a::linorder \<Rightarrow> 'a \<Rightarrow> int" where
  "ord_cmp a b = (if a = b then 0 else if a < b then -1 else 1)"

definition then_cmp :: "int \<Rightarrow> int \<Rightarrow> int" where
  "then_cmp r s = (if r \<noteq> 0 then r else s)"

lemma then_le: "then_cmp r s \<le> 0 \<longleftrightarrow> r < 0 \<or> r = 0 \<and> s \<le> 0"
  by (auto simp: then_cmp_def)

lemma then_ge: "0 \<le> then_cmp r s \<longleftrightarrow> 0 < r \<or> r = 0 \<and> 0 \<le> s"
  by (auto simp: then_cmp_def)

lemma three_way_ord_cmp: "three_way_cmp ord_cmp"
  by unfold_locales (auto simp: ord_cmp_def split: if_splits)

lemma three_way_strcmp: "three_way_cmp strcmp"
proof
  show "strcmp a b \<le> 0 \<longleftrightarrow> 0 \<le> strcmp b a" for a b using strcmp_antisym [of a b] by simp
  show "strcmp a b \<le> 0 \<Longrightarrow> strcmp b c \<le> 0 \<Longrightarrow> strcmp a c \<le> 0" for a b c by (rule strcmp_trans)
qed

lemma three_way_key: "three_way_cmp c \<Longrightarrow> three_way_cmp (\<lambda>a b. c (f a) (f b))"
  by unfold_locales (simp add: three_way_cmp.cmp_swap, blast intro: three_way_cmp.cmp_trans)

lemma three_way_then:
  assumes c: "three_way_cmp c" and d: "three_way_cmp d"
  shows "three_way_cmp (\<lambda>a b. then_cmp (c a b) (d a b))"
proof
  fix x y z
  show "then_cmp (c x y) (d x y) \<le> 0 \<longleftrightarrow> 0 \<le> then_cmp (c y x) (d y x)"
    using three_way_cmp.cmp_less_swap [OF c, of x y] three_way_cmp.cmp_eq_swap [OF c, of x y]
      three_way_cmp.cmp_swap [OF d, of x y] by (simp add: then_le then_ge)
  assume "then_cmp (c x y) (d x y) \<le> 0" and "then_cmp (c y z) (d y z) \<le> 0"
  then show "then_cmp (c x z) (d x z) \<le> 0"
    using three_way_cmp.cmp_less_le_trans [OF c, of x y z]
      three_way_cmp.cmp_le_less_trans [OF c, of x y z] three_way_cmp.cmp_eq_trans [OF c, of x y z]
      three_way_cmp.cmp_trans [OF d, of x y z]
    by (auto simp: then_le)
qed

text \<open>Lexicographic comparison of two sequences that continue for ever with \<open>z\<close>.\<close>

fun pad_cmp :: "('a \<Rightarrow> 'a \<Rightarrow> int) \<Rightarrow> 'a \<Rightarrow> 'a list \<Rightarrow> 'a list \<Rightarrow> int" where
  "pad_cmp c z [] [] = 0"
| "pad_cmp c z (x # xs) [] = then_cmp (c x z) (pad_cmp c z xs [])"
| "pad_cmp c z [] (y # ys) = then_cmp (c z y) (pad_cmp c z [] ys)"
| "pad_cmp c z (x # xs) (y # ys) = then_cmp (c x y) (pad_cmp c z xs ys)"

definition hd_or :: "'a \<Rightarrow> 'a list \<Rightarrow> 'a" where
  "hd_or z xs = (case xs of [] \<Rightarrow> z | x # _ \<Rightarrow> x)"

lemma pad_cmp_step:
  "c z z = 0 \<Longrightarrow>
     pad_cmp c z xs ys = then_cmp (c (hd_or z xs) (hd_or z ys)) (pad_cmp c z (tl xs) (tl ys))"
  by (cases xs; cases ys) (auto simp: hd_or_def then_cmp_def)

lemma pad_cmp_refl: "(\<And>x. c x x = 0) \<Longrightarrow> pad_cmp c z xs xs = 0"
  by (induction xs) (auto simp: then_cmp_def)

context three_way_cmp
begin

lemma cmp_self: "cmp a a = 0"
  using cmp_swap [of a a] by linarith

lemma pad_swap: "pad_cmp cmp z xs ys \<le> 0 \<longleftrightarrow> 0 \<le> pad_cmp cmp z ys xs"
proof (induction "length xs + length ys" arbitrary: xs ys rule: less_induct)
  case less
  show ?case
  proof (cases "xs = [] \<and> ys = []")
    case False
    then have "length (tl xs) + length (tl ys) < length xs + length ys"
      by (cases xs; cases ys) auto
    from less [OF this] show ?thesis
      using cmp_less_swap [of "hd_or z xs" "hd_or z ys"] cmp_eq_swap [of "hd_or z xs" "hd_or z ys"]
      by (simp add: pad_cmp_step [of cmp z, OF cmp_self, of xs ys] pad_cmp_step [of cmp z, OF cmp_self, of ys xs]
          then_le then_ge)
  qed simp
qed

lemma pad_trans:
  "pad_cmp cmp z xs ys \<le> 0 \<Longrightarrow> pad_cmp cmp z ys zs \<le> 0 \<Longrightarrow> pad_cmp cmp z xs zs \<le> 0"
proof (induction "length xs + length ys + length zs" arbitrary: xs ys zs rule: less_induct)
  case less
  let ?x = "hd_or z xs" and ?y = "hd_or z ys" and ?w = "hd_or z zs"
  show ?case
  proof (cases "xs = [] \<and> ys = [] \<and> zs = []")
    case False
    then have "length (tl xs) + length (tl ys) + length (tl zs) < length xs + length ys + length zs"
      by (cases xs; cases ys; cases zs) auto
    note IH = less.hyps [OF this]
    have 1: "cmp ?x ?y < 0 \<or> cmp ?x ?y = 0 \<and> pad_cmp cmp z (tl xs) (tl ys) \<le> 0"
      using less.prems(1) by (simp add: pad_cmp_step [of cmp z, OF cmp_self, of xs ys] then_le)
    have 2: "cmp ?y ?w < 0 \<or> cmp ?y ?w = 0 \<and> pad_cmp cmp z (tl ys) (tl zs) \<le> 0"
      using less.prems(2) by (simp add: pad_cmp_step [of cmp z, OF cmp_self, of ys zs] then_le)
    have "cmp ?x ?w < 0 \<or> cmp ?x ?w = 0 \<and> pad_cmp cmp z (tl xs) (tl zs) \<le> 0"
      using 1 2 IH cmp_less_le_trans [of ?x ?y ?w] cmp_le_less_trans [of ?x ?y ?w]
        cmp_eq_trans [of ?x ?y ?w] by auto
    then show ?thesis by (simp add: pad_cmp_step [of cmp z, OF cmp_self, of xs zs] then_le)
  qed simp
qed

end

lemma three_way_pad: "three_way_cmp c \<Longrightarrow> three_way_cmp (pad_cmp c z)"
  by unfold_locales (rule three_way_cmp.pad_swap, assumption, blast intro: three_way_cmp.pad_trans)

end
