(* ===== verification/Version.thy ===== *)
theory Version
  imports Prelude Utlist
begin

text \<open>
  \<open>libpkg/pkg_version.c\<close>: the comparison of package versions. A pointer into a version
  string is the suffix that starts there; \<open>v < ve\<close> for two pointers into the same string is a
  comparison of the lengths of the suffixes. The second half gives the comparison its abstract
  meaning: a version is an epoch, a list of blocks (separated by plus signs) of components and a
  revision, compared lexicographically with missing components and blocks counting as zero.
\<close>

section \<open>Splitting a package name\<close>

text \<open>
  The results are the version part, the pointer behind its last character (\<open>endname\<close>), the
  epoch and the revision; \<open>None\<close> is the \<open>NULL\<close> that a \<open>NULL\<close> name gives.
\<close>

definition split_version :: "string option \<Rightarrow> (string \<times> string \<times> 64 word \<times> 64 word) option" where
  "split_version pkgname = (case pkgname of
      None \<Rightarrow> None
    | Some name \<Rightarrow>
       (let versionstr = (case strrchr CHR ''-'' name of Some ch \<Rightarrow> tl ch | None \<Rightarrow> name);
            rev = strrchr CHR ''_'' versionstr;
            revision = (case rev of Some ch \<Rightarrow> strtoul (tl ch) | None \<Rightarrow> 0);
            ep = strrchr CHR '','' (case rev of Some ch \<Rightarrow> tl ch | None \<Rightarrow> versionstr);
            epoch = (case ep of Some ch \<Rightarrow> strtoul (tl ch) | None \<Rightarrow> 0);
            endversionstr = (case rev of Some e \<Rightarrow> e
                             | None \<Rightarrow> (case ep of Some e \<Rightarrow> e | None \<Rightarrow> []))
        in Some (versionstr, endversionstr, epoch, revision)))"

section \<open>Components\<close>

record version_component =
  vc_n :: int
  vc_pl :: int
  vc_a :: int

definition stage :: "(string \<times> int) list" where
  "stage = [(''pl'', 0), (''alpha'', 1), (''beta'', 2), (''pre'', 16), (''rc'', 18)]"

definition peek :: "string \<Rightarrow> char" where
  \<comment> \<open>\<open>*pos\<close>, the terminating NUL at the end\<close>
  "peek s = (case s of [] \<Rightarrow> CHR 0x00 | c # _ \<Rightarrow> c)"

text \<open>The loop over the special suffixes: the first entry that matches.\<close>

definition find_stage :: "string \<Rightarrow> (string \<times> int) option" where
  "find_stage pos = find (\<lambda>(name, v). strncaseeq pos name (length name)
      \<and> \<not> isalpha (peek (drop (length name) pos))) stage"

text \<open>The version number: its value, \<open>hasstage\<close> and the position behind it.\<close>

definition component_number :: "string \<Rightarrow> int \<times> bool \<times> string" where
  "component_number pos =
     (if isdigit (peek pos) then (case strtoll_digits pos of (n, endptr) \<Rightarrow> (n, False, endptr))
      else if peek pos = CHR ''*'' then (-2, False, dropWhile (\<lambda>c. c \<noteq> CHR ''+'') (tl pos))
      else (-1, True, pos))"

text \<open>The letter: its value, \<open>haspatchlevel\<close> and the position behind it.\<close>

definition component_letter :: "bool \<Rightarrow> string \<Rightarrow> int \<times> bool \<times> string" where
  "component_letter hasstage pos =
     (if isalpha (peek pos) then
        (case (if isalpha (peek (tl pos)) then find_stage pos else None) of
           Some (name, value) \<Rightarrow>
             if hasstage then (value, True, drop (length name) pos) else (0, False, pos)
         | None \<Rightarrow> (byte (tolower (peek pos)) - 97 + 1, True, dropWhile isalpha pos))
      else (0, False, pos))"

definition component_patch :: "bool \<Rightarrow> string \<Rightarrow> int \<times> string" where
  "component_patch haspatchlevel pos =
     (if haspatchlevel then (if isdigit (peek pos) then strtoll_digits pos else (-1, pos))
      else (0, pos))"

definition is_separator :: "char \<Rightarrow> bool" where
  "is_separator c \<longleftrightarrow> \<not> isdigit c \<and> \<not> isalpha c \<and> c \<noteq> CHR ''+'' \<and> c \<noteq> CHR ''*''"

definition get_component :: "string \<Rightarrow> version_component \<times> string" where
  "get_component position =
     (let (n, hasstage, p1) = component_number position;
          (a, haspatchlevel, p2) = component_letter hasstage p1;
          (pl, p3) = component_patch haspatchlevel p2
      in (\<lparr>vc_n = n, vc_pl = pl, vc_a = a\<rparr>, dropWhile is_separator p3))"

definition zero_component :: version_component where
  "zero_component = \<lparr>vc_n = 0, vc_pl = 0, vc_a = 0\<rparr>"

subsection \<open>Every call advances\<close>

lemma peek_Nil [simp]: "peek [] = CHR 0x00"
  and peek_Cons [simp]: "peek (c # s) = c"
  by (simp_all add: peek_def)

lemma ctype_special [simp]: "\<not> isalpha CHR 0x00" "\<not> isdigit CHR 0x00"
  "\<not> isalpha CHR ''*''" "\<not> isdigit CHR ''*''" "\<not> isalpha CHR ''+''" "\<not> isdigit CHR ''+''"
  by (simp_all add: ctype_defs)

lemma length_component_number:
  "component_number pos = (n, st, r) \<Longrightarrow> length r \<le> length pos"
  by (cases pos) (auto simp: component_number_def strtoll_digits_def le_Suc_eq
      intro: length_dropWhile_le le_SucI split: if_splits)

lemma length_component_letter:
  "component_letter st pos = (a, hp, r) \<Longrightarrow> length r \<le> length pos"
  by (auto simp: component_letter_def split: if_splits option.splits
      intro: length_dropWhile_le)

lemma length_component_patch:
  "component_patch hp pos = (pl, r) \<Longrightarrow> length r \<le> length pos"
  by (auto simp: component_patch_def strtoll_digits_def split: if_splits
      intro: length_dropWhile_le)

text \<open>
  On a character that is neither the end nor a plus sign, one of the four parts consumes it: the
  number a digit or an asterisk, the letter part a letter (a missing number rules out the branch
  that inserts a dot), the last part a separator.
\<close>

lemma component_number_advances:
  assumes "component_number (c # s) = (n, st, r)"
  shows "length r \<le> length s \<or> r = c # s \<and> st \<and> \<not> isdigit c \<and> c \<noteq> CHR ''*''"
  using assms
  by (auto simp: component_number_def strtoll_digits_def intro: length_dropWhile_le split: if_splits)

lemma find_stage_name: "find_stage pos = Some (name, v) \<Longrightarrow> name \<noteq> []"
  by (auto simp: find_stage_def stage_def split: if_splits)

lemma get_component_advances:
  assumes "s \<noteq> []" and "peek s \<noteq> CHR ''+''"
  shows "length (snd (get_component s)) < length s"
proof -
  from assms obtain c t where s: "s = c # t" and c: "c \<noteq> CHR ''+''" by (cases s) auto
  obtain n st p1 where 1: "component_number s = (n, st, p1)" by (metis prod_cases3)
  obtain a hp p2 where 2: "component_letter st p1 = (a, hp, p2)" by (metis prod_cases3)
  obtain pl p3 where 3: "component_patch hp p2 = (pl, p3)" by fastforce
  have res: "snd (get_component s) = dropWhile is_separator p3"
    using 1 2 3 by (simp add: get_component_def)
  have le: "length (dropWhile is_separator p3) \<le> length p3" "length p3 \<le> length p2"
    "length p2 \<le> length p1"
    using length_component_patch [OF 3] length_component_letter [OF 2]
    by (simp_all add: length_dropWhile_le)
  show ?thesis
  proof (cases "length p1 \<le> length t")
    case True
    with le res s show ?thesis by simp
  next
    case False
    with component_number_advances [of c t] 1 s
    have p1: "p1 = s" and st: "st" and nd: "\<not> isdigit c" and ns: "c \<noteq> CHR ''*''" by auto
    show ?thesis
    proof (cases "isalpha c")
      case True
      have "length p2 \<le> length t"
        using 2 True p1 s st find_stage_name
        by (fastforce simp: component_letter_def length_dropWhile_le split: option.splits if_splits
            dest: neq_Nil_conv [THEN iffD1])
      with le res s show ?thesis by simp
    next
      case False
      then have "p2 = s" "\<not> hp" using 2 p1 s by (auto simp: component_letter_def)
      then have "p3 = s" using 3 by (simp add: component_patch_def)
      with res s False nd ns c show ?thesis
        by (simp add: is_separator_def le_imp_less_Suc length_dropWhile_le)
    qed
  qed
qed

section \<open>Comparing two versions\<close>

text \<open>
  One side of a round: whether the side is blocked (at its end or at a plus sign), the component
  that is compared and the position behind it. \<open>e\<close> is the length of the suffix at
  \<open>ve\<close>.
\<close>

definition next_component :: "nat \<Rightarrow> string \<Rightarrow> bool \<times> version_component \<times> string" where
  "next_component e v =
     (if e < length v \<and> peek v \<noteq> CHR ''+'' then (False, get_component v)
      else (True, zero_component, v))"

lemma next_component_length:
  "next_component e v = (b, vc, w) \<Longrightarrow> length w \<le> length v \<and> (\<not> b \<longrightarrow> length w < length v)"
  using get_component_advances [of v]
  by (cases "v = []") (auto simp: next_component_def split: if_splits)

text \<open>The loop over the components. It stops because every round moves one of the pointers.\<close>

function version_loop :: "nat \<Rightarrow> nat \<Rightarrow> string \<Rightarrow> string \<Rightarrow> int" where
  "version_loop e1 e2 v1 v2 =
     (if e1 < length v1 \<or> e2 < length v2 then
        (case next_component e1 v1 of (block_v1, vc1, w1) \<Rightarrow>
         case next_component e2 v2 of (block_v2, vc2, w2) \<Rightarrow>
           if block_v1 \<and> block_v2 then
             version_loop e1 e2 (if e1 < length v1 then tl v1 else v1)
               (if e2 < length v2 then tl v2 else v2)
           else if vc_n vc1 \<noteq> vc_n vc2 then (if vc_n vc1 < vc_n vc2 then -1 else 1)
           else if vc_a vc1 \<noteq> vc_a vc2 then (if vc_a vc1 < vc_a vc2 then -1 else 1)
           else if vc_pl vc1 \<noteq> vc_pl vc2 then (if vc_pl vc1 < vc_pl vc2 then -1 else 1)
           else version_loop e1 e2 w1 w2)
      else 0)"
  by pat_completeness auto
termination
  by (relation "measure (\<lambda>(e1, e2, v1, v2). length v1 + length v2)")
     (auto dest!: sym [of _ "next_component _ _"] next_component_length)

declare version_loop.simps [simp del]

text \<open>
  \<open>assert\<close> stops the program on a \<open>NULL\<close> argument, so the arguments are strings; the
  last branch is never taken.
\<close>

definition pkg_version_cmp :: "string \<Rightarrow> string \<Rightarrow> int" where
  "pkg_version_cmp pkg1 pkg2 =
     (case (split_version (Some pkg1), split_version (Some pkg2)) of
        (Some (v1, ve1, e1, r1), Some (v2, ve2, e2, r2)) \<Rightarrow>
          let result = (if e1 \<noteq> e2 then (if e1 < e2 then -1 else 1) else 0);
              result = (if result = 0 \<and>
                  (length v1 - length ve1 \<noteq> length v2 - length ve2
                   \<or> \<not> strncaseeq v1 v2 (length v1 - length ve1))
                then version_loop (length ve1) (length ve2) v1 v2 else result)
          in if result = 0 \<and> r1 \<noteq> r2 then (if r1 < r2 then -1 else 1) else result
      | _ \<Rightarrow> 0)"

section \<open>The text behind the version does not matter\<close>

text \<open>
  \<open>get_component\<close> is not told where the version ends. It reads past \<open>ve\<close> only to skip
  separators or the rest of an asterisk component, so the component does not depend on what
  follows.
\<close>

definition stops :: "string \<Rightarrow> bool" where
  "stops t \<longleftrightarrow> t = [] \<or> is_separator (hd t)"

lemma dropWhile_stop: "t = [] \<or> \<not> P (hd t) \<Longrightarrow> dropWhile P (q @ t) = dropWhile P q @ t"
  by (cases t) (auto simp: dropWhile_append)

lemma takeWhile_stop: "t = [] \<or> \<not> P (hd t) \<Longrightarrow> takeWhile P (q @ t) = takeWhile P q"
  by (induction q) (cases t, auto)

lemma stops_digit: "stops t \<Longrightarrow> t = [] \<or> \<not> isdigit (hd t)"
  and stops_alpha: "stops t \<Longrightarrow> t = [] \<or> \<not> isalpha (hd t)"
  by (auto simp: stops_def is_separator_def)

lemma strtoll_digits_append:
  "stops t \<Longrightarrow> strtoll_digits (q @ t) = (case strtoll_digits q of (n, r) \<Rightarrow> (n, r @ t))"
  by (simp add: strtoll_digits_def dec_value_def takeWhile_stop dropWhile_stop stops_digit)

lemma peek_append: "q \<noteq> [] \<Longrightarrow> peek (q @ t) = peek q"
  by (cases q) simp_all

lemma stops_peek: "stops t \<Longrightarrow> \<not> isalpha (peek t) \<and> \<not> isdigit (peek t)"
  by (cases t) (auto simp: stops_def is_separator_def)

lemma alpha_peek_append: "stops t \<Longrightarrow> isalpha (peek (q @ t)) = isalpha (peek q)"
  using stops_peek [of t] by (cases q) auto

lemma digit_peek_append: "stops t \<Longrightarrow> isdigit (peek (q @ t)) = isdigit (peek q)"
  using stops_peek [of t] by (cases q) auto

lemma strncaseeq_short:
  assumes "stops t" and "\<forall>c \<in> set name. isalpha c" and "strncaseeq (q @ t) name (length name)"
  shows "length name \<le> length q"
proof (rule ccontr)
  assume "\<not> length name \<le> length q"
  then have n: "length q < length name" by simp
  have eq: "map tolower (take (length name) (q @ t)) = map tolower name"
    using assms(3) by (simp add: strncaseeq_def strcaseeq_def)
  from arg_cong [OF eq, of length] have "length name \<le> length (q @ t)"
    by simp
  with n have t: "t \<noteq> []" and i: "length q < length (take (length name) (q @ t))" by auto
  then have "take (length name) (q @ t) ! length q = hd t"
    by (simp add: nth_append hd_conv_nth)
  with eq i n have "tolower (hd t) = tolower (name ! length q)"
    by (metis nth_map)
  moreover have "isalpha (name ! length q)" using assms(2) n by simp
  ultimately have "isalpha (hd t)" by (metis tolower_isalpha)
  with stops_alpha [OF assms(1)] t show False by simp
qed

lemma stage_alpha: "(name, v) \<in> set stage \<Longrightarrow> \<forall>c \<in> set name. isalpha c"
  by (auto simp: stage_def ctype_defs)

lemma find_cong_set: "(\<And>x. x \<in> set xs \<Longrightarrow> P x = Q x) \<Longrightarrow> find P xs = find Q xs"
  by (induction xs) auto

lemma stage_match_append:
  assumes t: "stops t" and a: "\<forall>c \<in> set name. isalpha c"
  shows "(strncaseeq (q @ t) name (length name) \<and> \<not> isalpha (peek (drop (length name) (q @ t)))) =
     (strncaseeq q name (length name) \<and> \<not> isalpha (peek (drop (length name) q)))"
proof (cases "length name \<le> length q")
  case True
  then show ?thesis using t by (simp add: strncaseeq_def alpha_peek_append)
next
  case False
  with strncaseeq_short [OF t a] strncaseeq_short [of "[]" name q] a
  show ?thesis by (auto simp: stops_def)
qed

lemma find_stage_append: "stops t \<Longrightarrow> find_stage (q @ t) = find_stage q"
  unfolding find_stage_def
  by (rule find_cong_set) (clarify, blast dest: stage_alpha stage_match_append [THEN iffD1]
      stage_match_append [THEN iffD2])

lemma find_stage_length:
  assumes "find_stage q = Some (name, v)" shows "length name \<le> length q"
proof -
  from assms have "(name, v) \<in> set stage" and "strncaseeq q name (length name)"
    by (auto simp: find_stage_def find_Some_iff in_set_conv_nth)
  with strncaseeq_short [of "[]" name q] show ?thesis by (auto simp: stops_def dest: stage_alpha)
qed

lemma component_letter_append:
  assumes t: "stops t" and c: "component_letter st q = (a, hp, r)"
  shows "component_letter st (q @ t) = (a, hp, r @ t)"
proof (cases "isalpha (peek q)")
  case True
  then have q: "q \<noteq> []" by auto
  then have tl: "tl (q @ t) = tl q @ t" by simp
  have fs: "find_stage q = Some (name, v) \<Longrightarrow> drop (length name) (q @ t) = drop (length name) q @ t"
    for name v by (drule find_stage_length) simp
  from True c q t show ?thesis
    by (auto simp: component_letter_def tl fs find_stage_append alpha_peek_append peek_append
        dropWhile_stop stops_alpha simp del: drop_append split: option.splits if_splits)
next
  case False
  with c t show ?thesis by (auto simp: component_letter_def alpha_peek_append)
qed

lemma component_patch_append:
  "stops t \<Longrightarrow> component_patch hp q = (pl, r) \<Longrightarrow> component_patch hp (q @ t) = (pl, r @ t)"
  by (auto simp: component_patch_def strtoll_digits_append digit_peek_append split: if_splits)

text \<open>
  The number part of a text followed by \<open>t\<close>: either the position moves along, or an asterisk
  component runs into \<open>t\<close>, as far as a plus sign.
\<close>

lemma component_number_append:
  assumes t: "stops t" and p: "p \<noteq> []" and n: "component_number p = (n, st, r)"
  shows "component_number (p @ t) = (n, st, r @ t) \<or>
    (\<not> st \<and> r = [] \<and> (\<exists>w. component_number (p @ t) = (n, st, w) \<and> length w \<le> length t
       \<and> (w = [] \<or> hd w = CHR ''+'')))"
proof (cases "isdigit (peek p) \<or> peek p \<noteq> CHR ''*''")
  case True
  with t p n have "component_number (p @ t) = (n, st, r @ t)"
    by (auto simp: component_number_def digit_peek_append peek_append strtoll_digits_append
        split: if_splits prod.splits)
  then show ?thesis by blast
next
  case False
  with p n have n: "n = -2" "\<not> st" and r: "r = dropWhile (\<lambda>c. c \<noteq> CHR ''+'') (tl p)"
    by (auto simp: component_number_def)
  from False p t have e: "component_number (p @ t) =
      (-2, False, dropWhile (\<lambda>c. c \<noteq> CHR ''+'') (tl p @ t))"
    by (simp add: component_number_def digit_peek_append peek_append)
  show ?thesis
  proof (cases "r = []")
    case True
    let ?w = "dropWhile (\<lambda>c. c \<noteq> CHR ''+'') t"
    from True r e have "component_number (p @ t) = (-2, False, ?w)"
      by (simp add: dropWhile_append)
    moreover have "?w = [] \<or> hd ?w = CHR ''+''"
      using hd_dropWhile [of "\<lambda>c. c \<noteq> CHR ''+''" t] by auto
    ultimately show ?thesis using n True length_dropWhile_le by auto
  next
    case False
    with r e n show ?thesis by (auto simp: dropWhile_append)
  qed
qed

lemma get_component_append:
  assumes t: "stops t" and p: "p \<noteq> []" and g: "get_component p = (c, r)"
  shows "\<exists>w. get_component (p @ t) = (c, w) \<and> (if r = [] then length w \<le> length t else w = r @ t)"
proof -
  obtain n st p1 where 1: "component_number p = (n, st, p1)" by (metis prod_cases3)
  obtain a hp p2 where 2: "component_letter st p1 = (a, hp, p2)" by (metis prod_cases3)
  obtain pl p3 where 3: "component_patch hp p2 = (pl, p3)" by fastforce
  have c: "c = \<lparr>vc_n = n, vc_pl = pl, vc_a = a\<rparr>" and r: "r = dropWhile is_separator p3"
    using g 1 2 3 by (auto simp: get_component_def)
  from component_number_append [OF t p 1] show ?thesis
  proof
    assume "component_number (p @ t) = (n, st, p1 @ t)"
    with component_letter_append [OF t 2] component_patch_append [OF t 3]
    have "get_component (p @ t) = (c, dropWhile is_separator (p3 @ t))"
      by (simp add: get_component_def c)
    with r show ?thesis by (auto simp: dropWhile_append length_dropWhile_le)
  next
    assume "\<not> st \<and> p1 = [] \<and> (\<exists>w. component_number (p @ t) = (n, st, w) \<and>
        length w \<le> length t \<and> (w = [] \<or> hd w = CHR ''+''))"
    then obtain w where e: "p1 = []" "component_number (p @ t) = (n, st, w)"
      and lw: "length w \<le> length t" and w: "w = [] \<or> hd w = CHR ''+''" by blast
    from w have "\<not> isalpha (peek w)" by (cases w) (auto simp: ctype_defs)
    with e 2 3 have "component_letter st w = (a, hp, w)" "component_patch hp w = (pl, w)" "p3 = []"
      by (auto simp: component_letter_def component_patch_def)
    with e c have "get_component (p @ t) = (c, dropWhile is_separator w)"
      by (simp add: get_component_def)
    moreover have "length (dropWhile is_separator w) \<le> length t"
      using lw length_dropWhile_le order_trans by blast
    ultimately show ?thesis using r \<open>p3 = []\<close> by simp
  qed
qed

section \<open>The meaning of a version\<close>

function comps :: "string \<Rightarrow> version_component list \<times> string" where
  "comps p = (if p = [] \<or> peek p = CHR ''+'' then ([], p)
     else (case comps (snd (get_component p)) of (cs, r) \<Rightarrow> (fst (get_component p) # cs, r)))"
  by pat_completeness auto
termination
  by (relation "measure length") (auto simp: get_component_advances)

declare comps.simps [simp del]

lemma comps_length: "length (snd (comps p)) \<le> length p"
proof (induction p rule: comps.induct)
  case (1 p)
  then show ?case
    using get_component_advances [of p]
    by (cases "p = [] \<or> peek p = CHR ''+''") (auto simp: comps.simps [of p] split: prod.splits)
qed

function blocks :: "string \<Rightarrow> version_component list list" where
  "blocks p = fst (comps p) # (if snd (comps p) = [] then [] else blocks (tl (snd (comps p))))"
  by pat_completeness auto
termination
  by (relation "measure length")
     (auto simp: comps_length le_less_trans [OF diff_le_self] intro: less_le_trans [OF _ comps_length])

declare blocks.simps [simp del]

definition component_cmp :: "version_component \<Rightarrow> version_component \<Rightarrow> int" where
  "component_cmp c d = then_cmp (ord_cmp (vc_n c) (vc_n d))
     (then_cmp (ord_cmp (vc_a c) (vc_a d)) (ord_cmp (vc_pl c) (vc_pl d)))"

abbreviation comps_cmp :: "version_component list \<Rightarrow> version_component list \<Rightarrow> int" where
  "comps_cmp \<equiv> pad_cmp component_cmp zero_component"

abbreviation blocks_cmp :: "version_component list list \<Rightarrow> version_component list list \<Rightarrow> int" where
  "blocks_cmp \<equiv> pad_cmp comps_cmp []"

interpretation component: three_way_cmp component_cmp
  unfolding component_cmp_def
  by (intro three_way_then three_way_key [OF three_way_ord_cmp])

interpretation comps: three_way_cmp comps_cmp
  by (rule three_way_pad) (rule component.three_way_cmp_axioms)

interpretation blocks: three_way_cmp blocks_cmp
  by (rule three_way_pad) (rule comps.three_way_cmp_axioms)

section \<open>The loop computes the lexicographic comparison\<close>

definition trunc :: "nat \<Rightarrow> string \<Rightarrow> string" where
  \<comment> \<open>the text from \<open>v\<close> to \<open>ve\<close>\<close>
  "trunc e v = take (length v - e) v"

definition tail_ok :: "nat \<Rightarrow> string \<Rightarrow> bool" where
  "tail_ok e v \<longleftrightarrow> (e < length v \<longrightarrow> stops (drop (length v - e) v))"

lemma trunc_Nil: "trunc e v = [] \<longleftrightarrow> length v \<le> e"
  by (auto simp: trunc_def)

lemma peek_trunc: "e < length v \<Longrightarrow> peek (trunc e v) = peek v"
  by (cases v) (auto simp: trunc_def take_Cons')

lemma trunc_append: "trunc e v @ drop (length v - e) v = v"
  by (simp add: trunc_def)

lemma trunc_tl: "e < length v \<Longrightarrow> trunc e (tl v) = tl (trunc e v)"
  by (cases v) (auto simp: trunc_def take_Cons' Suc_diff_le)

lemma tail_ok_tl: "tail_ok e v \<Longrightarrow> tail_ok e (tl v)"
  by (cases v) (auto simp: tail_ok_def Suc_diff_le)

lemma next_component_trunc:
  assumes "tail_ok e v" and "e < length v" and "peek v \<noteq> CHR ''+''"
  shows "fst (get_component v) = fst (get_component (trunc e v))"
    and "trunc e (snd (get_component v)) = snd (get_component (trunc e v))"
    and "tail_ok e (snd (get_component v))"
proof -
  let ?t = "drop (length v - e) v" and ?p = "trunc e v"
  have v: "?p @ ?t = v" by (rule trunc_append)
  have p: "?p \<noteq> []" and t: "stops ?t" and lt: "length ?t = e"
    using assms(1,2) by (simp_all add: tail_ok_def trunc_Nil)
  obtain c r where g: "get_component ?p = (c, r)" by fastforce
  from get_component_append [OF t p g] v obtain w where w: "get_component v = (c, w)"
    and r: "if r = [] then length w \<le> e else w = r @ ?t"
    using lt by metis
  from w g show "fst (get_component v) = fst (get_component ?p)" by simp
  have "trunc e w = r"
    using r lt by (cases "r = []") (auto simp: trunc_def)
  with w g show "trunc e (snd (get_component v)) = snd (get_component ?p)" by simp
  from r lt t have "tail_ok e w"
    by (cases "r = []") (auto simp: tail_ok_def)
  with w show "tail_ok e (snd (get_component v))" by simp
qed

lemma comps_end: "p = [] \<or> peek p = CHR ''+'' \<Longrightarrow> comps p = ([], p)"
  by (subst comps.simps) simp

lemma blocks_end: "p = [] \<or> peek p = CHR ''+'' \<Longrightarrow>
    blocks p = [] # (if p = [] then [] else blocks (tl p))"
proof -
  assume "p = [] \<or> peek p = CHR ''+''"
  then have "comps p = ([], p)" by (rule comps_end)
  then show ?thesis by (simp add: blocks.simps [of p])
qed

lemma blocks_nonempty [simp]: "blocks p \<noteq> []"
  by (simp add: blocks.simps [of p])

lemma blocks_component: "p \<noteq> [] \<Longrightarrow> peek p \<noteq> CHR ''+'' \<Longrightarrow>
    blocks p = (fst (get_component p) # hd (blocks (snd (get_component p))))
      # tl (blocks (snd (get_component p)))"
  by (simp add: blocks.simps [of p] comps.simps [of p] blocks.simps [of "snd (get_component p)"]
      split: prod.splits)

lemma blocks_cmp_hd_tl: "xs \<noteq> [] \<Longrightarrow> ys \<noteq> [] \<Longrightarrow>
    blocks_cmp xs ys = then_cmp (comps_cmp (hd xs) (hd ys)) (blocks_cmp (tl xs) (tl ys))"
  by (cases xs; cases ys) auto

lemma then_assoc: "then_cmp (then_cmp a b) c = then_cmp a (then_cmp b c)"
  by (simp add: then_cmp_def)

lemma then_zero [simp]: "then_cmp 0 r = r" "then_cmp r 0 = r"
  by (simp_all add: then_cmp_def)

lemma component_cmp_cases:
  "component_cmp c d =
     (if vc_n c \<noteq> vc_n d then (if vc_n c < vc_n d then -1 else 1)
      else if vc_a c \<noteq> vc_a d then (if vc_a c < vc_a d then -1 else 1)
      else if vc_pl c \<noteq> vc_pl d then (if vc_pl c < vc_pl d then -1 else 1) else 0)"
  by (simp add: component_cmp_def then_cmp_def ord_cmp_def)

text \<open>
  One side of a round in terms of the blocks that are left: a blocked side contributes a zero
  component and keeps its blocks, an unblocked one gives up its first component.
\<close>

lemma next_component_blocks:
  assumes "tail_ok e v" and "next_component e v = (b, c, w)"
  shows "tail_ok e w"
    and "b \<Longrightarrow> w = v \<and> c = zero_component \<and> hd (blocks (trunc e v)) = []"
    and "\<not> b \<Longrightarrow> blocks (trunc e v) = (c # hd (blocks (trunc e w))) # tl (blocks (trunc e w))"
proof -
  show "tail_ok e w" and
    "\<not> b \<Longrightarrow> blocks (trunc e v) = (c # hd (blocks (trunc e w))) # tl (blocks (trunc e w))"
    using assms next_component_trunc [of e v] blocks_component [of "trunc e v"]
    by (auto simp: next_component_def peek_trunc trunc_Nil split: if_splits)
  assume b
  with assms(2) have "w = v \<and> c = zero_component" and "length v \<le> e \<or> peek v = CHR ''+''"
    by (auto simp: next_component_def split: if_splits)
  then show "w = v \<and> c = zero_component \<and> hd (blocks (trunc e v)) = []"
    using blocks_end [of "trunc e v"] peek_trunc [of e v] trunc_Nil [of e v]
    by (cases "e < length v") auto
qed

lemma blocks_step:
  assumes "tail_ok e1 v1" "next_component e1 v1 = (b1, c1, w1)"
    and "tail_ok e2 v2" "next_component e2 v2 = (b2, c2, w2)" and "\<not> (b1 \<and> b2)"
  shows "blocks_cmp (blocks (trunc e1 v1)) (blocks (trunc e2 v2)) =
    then_cmp (component_cmp c1 c2) (blocks_cmp (blocks (trunc e1 w1)) (blocks (trunc e2 w2)))"
proof -
  note n1 = next_component_blocks [OF assms(1,2)] and n2 = next_component_blocks [OF assms(3,4)]
  let ?B1 = "blocks (trunc e1 v1)" and ?B2 = "blocks (trunc e2 v2)"
    and ?D1 = "blocks (trunc e1 w1)" and ?D2 = "blocks (trunc e2 w2)"
  have h1: "tl ?B1 = tl ?D1 \<and> (if b1 then c1 = zero_component \<and> hd ?B1 = [] \<and> hd ?D1 = []
      else hd ?B1 = c1 # hd ?D1)"
    using n1(2,3) by (cases b1) simp_all
  have h2: "tl ?B2 = tl ?D2 \<and> (if b2 then c2 = zero_component \<and> hd ?B2 = [] \<and> hd ?D2 = []
      else hd ?B2 = c2 # hd ?D2)"
    using n2(2,3) by (cases b2) simp_all
  have "comps_cmp (hd ?B1) (hd ?B2) = then_cmp (component_cmp c1 c2) (comps_cmp (hd ?D1) (hd ?D2))"
    using h1 h2 assms(5) by (cases b1; cases b2) simp_all
  then show ?thesis
    using h1 h2
    by (simp only: then_assoc blocks_cmp_hd_tl [OF blocks_nonempty blocks_nonempty])
qed

text \<open>A round in which both sides are blocked moves both over their plus signs.\<close>

lemma blocks_skip:
  assumes "next_component e v = (True, c, w)"
  shows "hd (blocks (trunc e v)) = [] \<and>
    blocks_cmp (tl (blocks (trunc e v))) ds =
      blocks_cmp (blocks (trunc e (if e < length v then tl v else v))) ds \<and>
    blocks_cmp ds (tl (blocks (trunc e v))) =
      blocks_cmp ds (blocks (trunc e (if e < length v then tl v else v)))"
proof (cases "e < length v")
  case True
  with assms have "peek (trunc e v) = CHR ''+''" "trunc e v \<noteq> []"
    by (auto simp: next_component_def peek_trunc trunc_Nil split: if_splits)
  with True blocks_end [of "trunc e v"] show ?thesis by (simp add: trunc_tl)
next
  case False
  have "comps [] = ([], [])" by (simp add: comps_end)
  then have "blocks [] = [[]]" by (simp add: blocks.simps [of "[]"])
  moreover have "blocks_cmp [[]] ds = blocks_cmp [] ds" "blocks_cmp ds [[]] = blocks_cmp ds []"
    by (cases ds; simp)+
  moreover have "trunc e v = []" using False by (simp add: trunc_Nil)
  ultimately show ?thesis using False by simp
qed

lemma version_loop_unblocked:
  assumes more: "e1 < length v1 \<or> e2 < length v2"
    and x1: "next_component e1 v1 = (b1, c1, w1)" and x2: "next_component e2 v2 = (b2, c2, w2)"
    and nb: "\<not> (b1 \<and> b2)"
  shows "version_loop e1 e2 v1 v2 = then_cmp (component_cmp c1 c2) (version_loop e1 e2 w1 w2)"
proof -
  have "version_loop e1 e2 v1 v2 =
     (if vc_n c1 \<noteq> vc_n c2 then (if vc_n c1 < vc_n c2 then -1 else 1)
      else if vc_a c1 \<noteq> vc_a c2 then (if vc_a c1 < vc_a c2 then -1 else 1)
      else if vc_pl c1 \<noteq> vc_pl c2 then (if vc_pl c1 < vc_pl c2 then -1 else 1)
      else version_loop e1 e2 w1 w2)"
    by (subst version_loop.simps) (simp only: more x1 x2 nb prod.case if_True if_False)
  then show ?thesis by (simp add: component_cmp_cases then_cmp_def)
qed

lemma version_loop_blocks:
  "tail_ok e1 v1 \<Longrightarrow> tail_ok e2 v2 \<Longrightarrow>
     version_loop e1 e2 v1 v2 = blocks_cmp (blocks (trunc e1 v1)) (blocks (trunc e2 v2))"
proof (induction e1 e2 v1 v2 rule: version_loop.induct)
  case (1 e1 e2 v1 v2)
  obtain b1 c1 w1 where x1: "next_component e1 v1 = (b1, c1, w1)" by (metis prod_cases3)
  obtain b2 c2 w2 where x2: "next_component e2 v2 = (b2, c2, w2)" by (metis prod_cases3)
  show ?case
  proof (cases "e1 < length v1 \<or> e2 < length v2")
    case False
    then have "trunc e1 v1 = []" "trunc e2 v2 = []" by (simp_all add: trunc_Nil)
    with False show ?thesis
      by (simp add: version_loop.simps [of e1 e2 v1 v2] pad_cmp_refl comps.cmp_self)
  next
    case more: True
    show ?thesis
    proof (cases "b1 \<and> b2")
      case True
      let ?v1 = "if e1 < length v1 then tl v1 else v1" and ?v2 = "if e2 < length v2 then tl v2 else v2"
      have "version_loop e1 e2 v1 v2 = version_loop e1 e2 ?v1 ?v2"
        using more True x1 x2 by (simp add: version_loop.simps [of e1 e2 v1 v2])
      also have "\<dots> = blocks_cmp (blocks (trunc e1 ?v1)) (blocks (trunc e2 ?v2))"
        using "1.IH"(1) [OF more x1 [symmetric] refl x2 [symmetric] refl] True "1.prems"
        by (simp add: tail_ok_tl)
      finally show ?thesis
        using x1 x2 True blocks_skip [of e1 v1] blocks_skip [of e2 v2]
        by (simp add: blocks_cmp_hd_tl [OF blocks_nonempty blocks_nonempty])
    next
      case False
      note step = blocks_step [OF "1.prems"(1) x1 "1.prems"(2) x2 False]
      have ok: "tail_ok e1 w1" "tail_ok e2 w2"
        using next_component_blocks(1) "1.prems" x1 x2 by blast+
      have "version_loop e1 e2 v1 v2 = then_cmp (component_cmp c1 c2) (version_loop e1 e2 w1 w2)"
        using version_loop_unblocked [OF more x1 x2 False] .
      moreover have "version_loop e1 e2 w1 w2 = blocks_cmp (blocks (trunc e1 w1)) (blocks (trunc e2 w2))"
        if "component_cmp c1 c2 = 0"
      proof -
        from that have "vc_n c1 = vc_n c2" "vc_a c1 = vc_a c2" "vc_pl c1 = vc_pl c2"
          by (auto simp: component_cmp_cases split: if_splits)
        with ok "1.IH"(2) [OF more x1 [symmetric] refl x2 [symmetric] refl False]
        show ?thesis by simp
      qed
      ultimately show ?thesis using step by (simp add: then_cmp_def)
    qed
  qed
qed

section \<open>Letter case does not matter\<close>

lemma dropWhile_map_lower: "(\<And>c. P (tolower c) = P c) \<Longrightarrow>
    dropWhile P (map tolower s) = map tolower (dropWhile P s)"
  by (induction s) auto

lemma takeWhile_digit_lower: "takeWhile isdigit (map tolower s) = takeWhile isdigit s"
  by (induction s) auto

lemma strtoll_digits_lower:
  "strtoll_digits (map tolower s) = (case strtoll_digits s of (n, r) \<Rightarrow> (n, map tolower r))"
  by (simp add: strtoll_digits_def dec_value_def takeWhile_digit_lower dropWhile_map_lower)

lemma tolower_special [simp]:
  "tolower c = CHR ''+'' \<longleftrightarrow> c = CHR ''+''" "tolower c = CHR ''*'' \<longleftrightarrow> c = CHR ''*''"
  by (simp_all add: tolower_eq_nonalpha)

lemma peek_lower: "peek (map tolower s) = tolower (peek s)"
  by (cases s) (simp_all add: ctype_defs)

lemma component_number_lower:
  "component_number (map tolower s) =
     (case component_number s of (n, st, r) \<Rightarrow> (n, st, map tolower r))"
  by (auto simp: component_number_def peek_lower strtoll_digits_lower dropWhile_map_lower
      simp flip: map_tl split: prod.splits)

lemma find_stage_lower: "find_stage (map tolower s) = find_stage s"
  unfolding find_stage_def
  by (rule find_cong_set)
     (auto simp: strncaseeq_def strcaseeq_def peek_lower take_map drop_map comp_def)

lemma component_letter_lower:
  "component_letter st (map tolower s) =
     (case component_letter st s of (a, hp, r) \<Rightarrow> (a, hp, map tolower r))"
  by (auto simp: component_letter_def peek_lower find_stage_lower dropWhile_map_lower drop_map
      simp flip: map_tl split: option.splits)

lemma component_patch_lower:
  "component_patch hp (map tolower s) =
     (case component_patch hp s of (pl, r) \<Rightarrow> (pl, map tolower r))"
  by (simp add: component_patch_def peek_lower strtoll_digits_lower split: prod.splits)

lemma is_separator_lower [simp]: "is_separator (tolower c) = is_separator c"
  by (simp add: is_separator_def)

lemma get_component_lower:
  "get_component (map tolower s) =
     (fst (get_component s), map tolower (snd (get_component s)))"
  by (simp add: get_component_def component_number_lower component_letter_lower
      component_patch_lower dropWhile_map_lower split: prod.splits)

lemma comps_lower: "comps (map tolower p) = (fst (comps p), map tolower (snd (comps p)))"
proof (induction p rule: comps.induct)
  case (1 p)
  show ?case
  proof (cases "p = [] \<or> peek p = CHR ''+''")
    case True
    then have "map tolower p = [] \<or> peek (map tolower p) = CHR ''+''" by (auto simp: peek_lower)
    with True show ?thesis by (simp add: comps_end del: map_is_Nil_conv)
  next
    case False
    with 1 show ?thesis
      by (simp add: comps.simps [of p] comps.simps [of "map tolower p"] peek_lower
          get_component_lower split: prod.splits)
  qed
qed

lemma blocks_lower: "blocks (map tolower p) = blocks p"
proof (induction p rule: blocks.induct)
  case (1 p)
  then show ?case
    by (simp add: blocks.simps [of p] blocks.simps [of "map tolower p"] comps_lower map_tl)
qed

section \<open>The abstract specification\<close>

record version_key =
  vk_epoch :: "64 word"
  vk_blocks :: "version_component list list"
  vk_revision :: "64 word"

definition version_key :: "string \<Rightarrow> version_key" where
  "version_key pkg = (case split_version (Some pkg) of
      Some (v, ve, e, r) \<Rightarrow>
        \<lparr>vk_epoch = e, vk_blocks = blocks (take (length v - length ve) v), vk_revision = r\<rparr>
    | None \<Rightarrow> \<lparr>vk_epoch = 0, vk_blocks = [], vk_revision = 0\<rparr>)"

text \<open>The epoch supersedes the version, which supersedes the revision.\<close>

definition version_key_cmp :: "version_key \<Rightarrow> version_key \<Rightarrow> int" where
  "version_key_cmp k l = then_cmp (ord_cmp (vk_epoch k) (vk_epoch l))
     (then_cmp (blocks_cmp (vk_blocks k) (vk_blocks l)) (ord_cmp (vk_revision k) (vk_revision l)))"

interpretation version_key: three_way_cmp version_key_cmp
  unfolding version_key_cmp_def
  by (intro three_way_then three_way_key [OF three_way_ord_cmp]
      three_way_key [OF blocks.three_way_cmp_axioms])

lemma split_version_tail:
  assumes "split_version (Some pkg) = Some (v, ve, e, r)"
  shows "\<exists>p. v = p @ ve \<and> stops ve"
proof -
  define u where "u = (case strrchr CHR ''-'' pkg of Some ch \<Rightarrow> tl ch | None \<Rightarrow> pkg)"
  have v: "v = u" and ve: "ve = (case strrchr CHR ''_'' u of Some e \<Rightarrow> e
      | None \<Rightarrow> (case strrchr CHR '','' u of Some e \<Rightarrow> e | None \<Rightarrow> []))"
    using assms by (auto simp: split_version_def u_def Let_def split: option.splits)
  have tail: "\<exists>p. s = p @ w \<and> stops w" if "strrchr c s = Some w" "is_separator c" for c s w
    using strrchr_SomeD [OF that(1)] that(2) by (auto simp: stops_def)
  show ?thesis
  proof (cases "strrchr CHR ''_'' u")
    case (Some w)
    with ve have "ve = w" by simp
    with tail [OF Some] v show ?thesis by (simp add: is_separator_def ctype_defs)
  next
    case None
    show ?thesis
    proof (cases "strrchr CHR '','' u")
      case (Some w)
      with None ve have "ve = w" by simp
      with tail [OF Some] v show ?thesis by (simp add: is_separator_def ctype_defs)
    next
      case none: None
      with None ve have "ve = []" by simp
      with v show ?thesis by (simp add: stops_def)
    qed
  qed
qed

lemma same_text:
  assumes "length p1 = length p2" and "strncaseeq (p1 @ t1) (p2 @ t2) (length p1)"
  shows "blocks p1 = blocks p2"
proof -
  from assms have "map tolower p1 = map tolower p2"
    by (simp add: strncaseeq_def strcaseeq_def)
  then show ?thesis by (metis blocks_lower)
qed

lemma pkg_version_cmp_key: "pkg_version_cmp a b = version_key_cmp (version_key a) (version_key b)"
proof -
  obtain v1 ve1 e1 r1 where s1: "split_version (Some a) = Some (v1, ve1, e1, r1)"
    by (simp add: split_version_def Let_def)
  obtain v2 ve2 e2 r2 where s2: "split_version (Some b) = Some (v2, ve2, e2, r2)"
    by (simp add: split_version_def Let_def)
  obtain p1 where p1: "v1 = p1 @ ve1" and t1: "stops ve1" using split_version_tail [OF s1] by blast
  obtain p2 where p2: "v2 = p2 @ ve2" and t2: "stops ve2" using split_version_tail [OF s2] by blast
  have loop: "version_loop (length ve1) (length ve2) v1 v2 = blocks_cmp (blocks p1) (blocks p2)"
    using p1 p2 t1 t2 by (simp add: version_loop_blocks tail_ok_def trunc_def)
  have short: "blocks_cmp (blocks p1) (blocks p2) = 0"
    if "length p1 = length p2" "strncaseeq v1 v2 (length p1)"
    using same_text [of p1 p2 ve1 ve2] that p1 p2 by (simp add: blocks.cmp_self)
  have "pkg_version_cmp a b = then_cmp (ord_cmp e1 e2)
      (then_cmp (blocks_cmp (blocks p1) (blocks p2)) (ord_cmp r1 r2))"
    using s1 s2 p1 p2 loop short
    by (auto simp: pkg_version_cmp_def Let_def then_cmp_def ord_cmp_def)
  then show ?thesis
    using s1 s2 p1 p2 by (simp add: version_key_cmp_def version_key_def)
qed

interpretation version: three_way_cmp pkg_version_cmp
  unfolding pkg_version_cmp_key
  by (rule three_way_key) (rule version_key.three_way_cmp_axioms)

section \<open>Properties of the comparison\<close>

lemma pad_cmp_neg:
  "(\<And>a b. c b a = - c a b) \<Longrightarrow> pad_cmp c z ys xs = - pad_cmp c z xs ys"
proof (induction c z xs ys rule: pad_cmp.induct)
  case (2 c z x xs)
  show ?case using 2(1) [OF 2(2)] 2(2) [of x z] by (simp add: then_cmp_def)
next
  case (3 c z y ys)
  show ?case using 3(1) [OF 3(2)] 3(2) [of z y] by (simp add: then_cmp_def)
next
  case (4 c z x xs y ys)
  show ?case using 4(1) [OF 4(2)] 4(2) [of x y] by (simp add: then_cmp_def)
qed simp

lemma pad_cmp_range: "(\<And>a b. c a b \<in> {-1, 0, 1}) \<Longrightarrow> pad_cmp c z xs ys \<in> {-1, 0, 1}"
  by (induction c z xs ys rule: pad_cmp.induct) (auto simp: then_cmp_def)

lemma ord_cmp_neg: "ord_cmp b a = - ord_cmp a b"
  and ord_cmp_range: "ord_cmp a b \<in> {-1, 0, 1}"
  by (auto simp: ord_cmp_def)

lemma component_cmp_neg: "component_cmp d c = - component_cmp c d"
  and component_cmp_range: "component_cmp c d \<in> {-1, 0, 1}"
  by (auto simp: component_cmp_cases)

lemma comps_cmp_neg: "comps_cmp ys xs = - comps_cmp xs ys"
  by (rule pad_cmp_neg) (rule component_cmp_neg)

lemma blocks_cmp_neg: "blocks_cmp ys xs = - blocks_cmp xs ys"
  by (rule pad_cmp_neg) (rule comps_cmp_neg)

lemma comps_cmp_range: "comps_cmp xs ys \<in> {-1, 0, 1}"
  by (rule pad_cmp_range) (rule component_cmp_range)

lemma blocks_cmp_range: "blocks_cmp xs ys \<in> {-1, 0, 1}"
  by (rule pad_cmp_range) (rule comps_cmp_range)

lemma then_cmp_neg: "then_cmp (- r) (- s) = - then_cmp r s"
  by (simp add: then_cmp_def)

lemma then_cmp_range: "r \<in> {-1, 0, 1} \<Longrightarrow> s \<in> {-1, 0, 1} \<Longrightarrow> then_cmp r s \<in> {-1, 0, 1}"
  by (auto simp: then_cmp_def)

lemma version_key_cmp_neg: "version_key_cmp l k = - version_key_cmp k l"
  unfolding version_key_cmp_def
  by (simp only: blocks_cmp_neg [of "vk_blocks l" "vk_blocks k"] then_cmp_neg
      ord_cmp_neg [of "vk_epoch l" "vk_epoch k"] ord_cmp_neg [of "vk_revision l" "vk_revision k"])

lemma version_key_cmp_range: "version_key_cmp k l \<in> {-1, 0, 1}"
  unfolding version_key_cmp_def by (intro then_cmp_range blocks_cmp_range ord_cmp_range)

lemma version_cmp_neg: "pkg_version_cmp b a = - pkg_version_cmp a b"
  by (simp only: pkg_version_cmp_key) (rule version_key_cmp_neg)

lemma version_cmp_range: "pkg_version_cmp a b \<in> {-1, 0, 1}"
  by (simp only: pkg_version_cmp_key version_key_cmp_range)

text \<open>
  C24: \<open>pkg_version_cmp\<close> computes the lexicographic comparison of (epoch, version, revision),
  where a version is its list of plus-separated blocks of (number, letter, patchlevel) components
  and missing blocks and components count as zero; in particular the shortcut that skips the
  parsing and the text behind the version never change the result.
\<close>

theorem version_cmp_refines:
  "pkg_version_cmp a b = version_key_cmp (version_key a) (version_key b)"
  by (rule pkg_version_cmp_key)

text \<open>
  the comparison is transitive, so the versions are totally preordered and "the most recent
  package" is well defined.
\<close>

theorem version_cmp_transitive:
  "pkg_version_cmp a b \<le> 0 \<Longrightarrow> pkg_version_cmp b c \<le> 0 \<Longrightarrow> pkg_version_cmp a c \<le> 0"
  by (rule version.cmp_trans)

theorem version_cmp_transitive_witness:
  "pkg_version_cmp ''a-1.0'' ''a-1.0_1'' \<le> 0 \<and> pkg_version_cmp ''a-1.0_1'' ''a-0.9,1'' \<le> 0
     \<and> pkg_version_cmp ''a-1.0'' ''a-0.9,1'' \<le> 0"
proof -
  have "pkg_version_cmp ''a-1.0'' ''a-1.0_1'' \<le> 0" by code_simp
  moreover have "pkg_version_cmp ''a-1.0_1'' ''a-0.9,1'' \<le> 0" by code_simp
  ultimately show ?thesis using version_cmp_transitive by blast
qed

text \<open>
  swapping the arguments negates the result, which is always -1, 0 or 1.
\<close>

theorem version_cmp_antisymmetric:
  "pkg_version_cmp b a = - pkg_version_cmp a b \<and> pkg_version_cmp a b \<in> {-1, 0, 1}"
  using version_cmp_neg version_cmp_range by blast

end
