(* ===== verification/Package.thy ===== *)
theory Package
  imports Prelude Utlist Version
begin

text \<open>
  The data model of \<open>libpkg\<close>: packages (\<open>struct pkg\<close> of
  \<open>libpkg/private/pkg.h\<close> with the fields the solver reads), the items of a solver universe,
  requests, jobs (\<open>libpkg/private/pkg_jobs.h\<close>), and the classification of a version change.

  A \<open>struct pkg_job_universe_item\<close> is allocated once and shared by pointer, so it lives in a
  store and is named by its address, the index in that store. Its \<open>next\<close> and \<open>prev\<close>
  pointers link the items of one uid into a chain; the chain is kept as the list of the addresses,
  in the table \<open>u_items\<close> under the uid, from the item that is hashed on.
\<close>

section \<open>Packages\<close>

datatype pkg_t = PKG_NONE | PKG_FILE | PKG_STREAM | PKG_REMOTE | PKG_INSTALLED | PKG_OLD_FILE

definition MAXPATHLEN :: nat where
  "MAXPATHLEN = 1024"

definition path_buf :: "string \<Rightarrow> string" where
  \<comment> \<open>\<open>snprintf\<close> and \<open>strlcpy\<close> into a buffer of \<open>MAXPATHLEN\<close> bytes\<close>
  "path_buf s = take (MAXPATHLEN - 1) s"

datatype pkg_load =
    PKG_LOAD_BASIC | PKG_LOAD_DEPS | PKG_LOAD_RDEPS | PKG_LOAD_FILES | PKG_LOAD_SCRIPTS | PKG_LOAD_OPTIONS | PKG_LOAD_MTREE
  | PKG_LOAD_DIRS | PKG_LOAD_CATEGORIES | PKG_LOAD_LICENSES | PKG_LOAD_USERS | PKG_LOAD_GROUPS | PKG_LOAD_SHLIBS_REQUIRED
  | PKG_LOAD_SHLIBS_PROVIDED | PKG_LOAD_ANNOTATIONS | PKG_LOAD_CONFLICTS | PKG_LOAD_PROVIDES

datatype match_t = MATCH_ALL | MATCH_EXACT | MATCH_GLOB | MATCH_REGEX | MATCH_CONDITION | MATCH_FTS

datatype pkg_conflict_type =
    PKG_CONFLICT_ALL | PKG_CONFLICT_REMOTE_LOCAL | PKG_CONFLICT_REMOTE_REMOTE
  | PKG_CONFLICT_LOCAL_LOCAL

record pkg_dep =
  dep_origin :: string
  dep_name :: string
  dep_version :: string
  dep_uid :: string
  dep_locked :: bool

record pkg_conflict =
  conf_uniqueid :: string
  conf_type :: pkg_conflict_type

record pkg_option =
  opt_key :: string
  opt_value :: string

text \<open>
  The string and boolean attributes that \<open>pkg_get\<close> reads are fields (\<open>None\<close> is
  \<open>NULL\<close>; the checksum of a remote package is never \<open>NULL\<close>, by the schema of the repositories);
  \<open>pkg_repository\<close> is the annotation \<open>repository\<close>. The hash tables of
  the package are lists in their iteration order.
\<close>

record pkg =
  pkg_type :: pkg_t
  pkg_uniqueid :: string
  pkg_name :: string
  pkg_origin :: string
  pkg_version :: string
  pkg_arch :: string
  pkg_digest :: "string option"
  pkg_reponame :: "string option"
  pkg_repository :: "string option"
  pkg_old_version :: "string option"
  pkg_reason :: "string option"
  pkg_automatic :: bool
  pkg_locked :: bool
  pkg_rowid :: int
  pkg_pkgsize :: int
  pkg_deps :: "pkg_dep list"
  pkg_rdeps :: "pkg_dep list"
  pkg_options :: "pkg_option list"
  pkg_conflicts :: "pkg_conflict list"
  pkg_provides :: "string list"
  pkg_shlibs_required :: "string list"
  pkg_shlibs_provided :: "string list"
  pkg_users :: "string list"
  pkg_groups :: "string list"
  pkg_cksum :: string
  pkg_repopath :: "string option"

text \<open>A package the witnesses of the other theories start from.\<close>

definition demo_pkg :: pkg where
  "demo_pkg = \<lparr>pkg_type = PKG_REMOTE, pkg_uniqueid = ''a'', pkg_name = ''a'', pkg_origin = ''x/a'',
     pkg_version = ''1.0'', pkg_arch = ''*'', pkg_digest = None, pkg_reponame = None,
     pkg_repository = None, pkg_old_version = None, pkg_reason = None, pkg_automatic = False,
     pkg_locked = False, pkg_rowid = 0, pkg_pkgsize = 0, pkg_deps = [], pkg_rdeps = [],
     pkg_options = [], pkg_conflicts = [], pkg_provides = [], pkg_shlibs_required = [],
     pkg_shlibs_provided = [], pkg_users = [], pkg_groups = [], pkg_cksum = [],
     pkg_repopath = None\<rparr>"

definition pkg_is_locked :: "pkg \<Rightarrow> bool" where
  "pkg_is_locked p = pkg_locked p"

definition is_installed :: "pkg \<Rightarrow> bool" where
  \<comment> \<open>\<open>pkg->type == PKG_INSTALLED\<close>\<close>
  "is_installed p \<longleftrightarrow> pkg_type p = PKG_INSTALLED"

section \<open>Version changes\<close>

datatype pkg_change_t = PKG_DOWNGRADE | PKG_REINSTALL | PKG_UPGRADE

definition pkg_version_change :: "pkg \<Rightarrow> pkg_change_t" where
  "pkg_version_change pkg = (case pkg_old_version pkg of
      None \<Rightarrow> PKG_REINSTALL
    | Some oldversion \<Rightarrow>
       (let r = pkg_version_cmp oldversion (pkg_version pkg)
        in if r = -1 then PKG_UPGRADE else if r = 1 then PKG_DOWNGRADE else PKG_REINSTALL))"

definition pkg_version_change_between :: "pkg \<Rightarrow> pkg option \<Rightarrow> pkg_change_t" where
  "pkg_version_change_between pkg1 pkg2 = (case pkg2 of
      None \<Rightarrow> PKG_REINSTALL
    | Some p2 \<Rightarrow>
       (let r = pkg_version_cmp (pkg_version p2) (pkg_version pkg1)
        in if r = -1 then PKG_UPGRADE else if r = 1 then PKG_DOWNGRADE else PKG_REINSTALL))"

lemma change_between_upgrade:
  "pkg_version_change_between p (Some q) = PKG_UPGRADE \<longleftrightarrow>
     pkg_version_cmp (pkg_version q) (pkg_version p) < 0"
  using version_cmp_range [of "pkg_version q" "pkg_version p"]
  by (auto simp: pkg_version_change_between_def Let_def)

section \<open>Universe, requests and jobs\<close>

type_synonym item_id = nat

record job_pattern =
  jp_pattern :: "string option"
  jp_path :: "string option"
  jp_match :: match_t
  jp_is_file :: bool

record universe_item =
  it_pkg :: pkg
  it_jp :: "job_pattern option"
  it_priority :: int

text \<open>A seen digest points to an item, a shared library to the items that provide it.\<close>

record pkg_jobs_universe =
  u_store :: "universe_item list"
  u_items :: "(string, item_id list) uthash"
  u_seen :: "(string, item_id) uthash"
  u_provides :: "(string, item_id list) uthash"
  u_uid_replaces :: "(string \<times> string) list"
  u_nitems :: nat

definition pkg_jobs_universe_new :: pkg_jobs_universe where
  "pkg_jobs_universe_new = \<lparr>u_store = [], u_items = [], u_seen = [], u_provides = [],
     u_uid_replaces = [], u_nitems = 0\<rparr>"

datatype pkg_jobs_t =
  PKG_JOBS_INSTALL | PKG_JOBS_DEINSTALL | PKG_JOBS_FETCH | PKG_JOBS_AUTOREMOVE | PKG_JOBS_UPGRADE

datatype pkg_solved_t =
    PKG_SOLVED_INSTALL | PKG_SOLVED_DELETE | PKG_SOLVED_UPGRADE | PKG_SOLVED_UPGRADE_REMOVE
  | PKG_SOLVED_FETCH

text \<open>The bits of \<open>pkg_flags\<close>.\<close>

record pkg_flags =
  flag_dry_run :: bool
  flag_force :: bool
  flag_recursive :: bool
  flag_automatic :: bool
  flag_with_deps :: bool
  flag_noscript :: bool
  flag_pkg_version_test :: bool
  flag_upgrades_for_installed :: bool
  flag_skip_install :: bool
  flag_force_missing :: bool
  flag_fetch_mirror :: bool

definition PKG_FLAG_NONE :: pkg_flags where
  "PKG_FLAG_NONE = \<lparr>flag_dry_run = False, flag_force = False, flag_recursive = False,
     flag_automatic = False, flag_with_deps = False, flag_noscript = False,
     flag_pkg_version_test = False, flag_upgrades_for_installed = False,
     flag_skip_install = False, flag_force_missing = False, flag_fetch_mirror = False\<rparr>"

text \<open>A request is hashed by the address of its item; its other field is \<open>skip\<close>.\<close>

type_synonym requests = "(item_id, bool) uthash"

record pkg_solved =
  s_item0 :: item_id
  s_item1 :: "item_id option"
  s_type :: pkg_solved_t
  s_already_deleted :: bool

record pkg_jobs =
  j_universe :: pkg_jobs_universe
  j_request_add :: requests
  j_request_delete :: requests
  j_jobs :: "pkg_solved list"
  j_type :: pkg_jobs_t
  j_flags :: pkg_flags
  j_solved :: int
  j_count :: int
  j_total :: int
  j_conflicts_registered :: int
  j_need_fetch :: bool
  j_reponame :: "string option"
  j_destdir :: "string option"
  j_patterns :: "job_pattern list"

definition pkg_jobs_new :: "pkg_jobs_t \<Rightarrow> pkg_jobs" where
  "pkg_jobs_new t = \<lparr>j_universe = pkg_jobs_universe_new, j_request_add = [],
     j_request_delete = [], j_jobs = [], j_type = t, j_flags = PKG_FLAG_NONE, j_solved = 0,
     j_count = 0, j_total = 0, j_conflicts_registered = 0, j_need_fetch = False,
     j_reponame = None, j_destdir = None, j_patterns = []\<rparr>"

definition IS_DELETE :: "pkg_jobs \<Rightarrow> bool" where
  "IS_DELETE j \<longleftrightarrow> j_type j = PKG_JOBS_DEINSTALL \<or> j_type j = PKG_JOBS_AUTOREMOVE"

section \<open>Items and chains\<close>

definition u_pkg :: "pkg_jobs_universe \<Rightarrow> item_id \<Rightarrow> pkg" where
  "u_pkg u i = it_pkg (u_store u ! i)"

definition u_priority :: "pkg_jobs_universe \<Rightarrow> item_id \<Rightarrow> int" where
  "u_priority u i = it_priority (u_store u ! i)"

definition u_upd_item ::
  "item_id \<Rightarrow> (universe_item \<Rightarrow> universe_item) \<Rightarrow> pkg_jobs_universe \<Rightarrow> pkg_jobs_universe" where
  \<comment> \<open>an assignment to fields of the item at address \<open>i\<close>\<close>
  "u_upd_item i f u = u\<lparr>u_store := (u_store u)[i := f (u_store u ! i)]\<rparr>"

definition u_upd_pkg :: "item_id \<Rightarrow> (pkg \<Rightarrow> pkg) \<Rightarrow> pkg_jobs_universe \<Rightarrow> pkg_jobs_universe" where
  "u_upd_pkg i f = u_upd_item i (\<lambda>it. it\<lparr>it_pkg := f (it_pkg it)\<rparr>)"

text \<open>The whole chain an item is linked into.\<close>

definition u_chain_of :: "pkg_jobs_universe \<Rightarrow> item_id \<Rightarrow> item_id list" where
  "u_chain_of u i = (case find (\<lambda>c. i \<in> set c) (map snd (u_items u)) of Some c \<Rightarrow> c | None \<Rightarrow> [i])"

text \<open>
  The well-formed universes: every address is allocated; the table of the uids has one entry per
  uid, and a chain is not empty; no item is linked twice; the counter counts the allocated items;
  the seen digests, the providers and the chains name allocated items. The table of the providers
  may hold a library twice (\<open>pkg_jobs_universe_process_shlibs\<close> can add it again in a nested
  call); \<open>hash_find\<close> then gives the entry that was added first.
\<close>

definition universe_wf :: "pkg_jobs_universe \<Rightarrow> bool" where
  "universe_wf u \<longleftrightarrow>
     hash_wf (u_items u) \<and> hash_wf (u_seen u)
     \<and> (\<forall>c \<in> snd ` set (u_items u). c \<noteq> [])
     \<and> distinct (concat (map snd (u_items u)))
     \<and> (\<forall>i \<in> set (concat (map snd (u_items u))). i < length (u_store u))
     \<and> (\<forall>i \<in> snd ` set (u_seen u). i < length (u_store u))
     \<and> (\<forall>c \<in> snd ` set (u_provides u). \<forall>i \<in> set c. i < length (u_store u))
     \<and> u_nitems u = length (u_store u)"

text \<open>
  The solver needs two more facts: the packages of a chain have the uid it is hashed on, and every
  allocated item is in a chain.
\<close>

definition universe_uids :: "pkg_jobs_universe \<Rightarrow> bool" where
  "universe_uids u \<longleftrightarrow> (\<forall>(uid, c) \<in> set (u_items u). \<forall>i \<in> set c. pkg_uniqueid (u_pkg u i) = uid)"

definition universe_linked :: "pkg_jobs_universe \<Rightarrow> bool" where
  "universe_linked u \<longleftrightarrow> length (concat (map snd (u_items u))) = u_nitems u"

definition universe_ok :: "pkg_jobs_universe \<Rightarrow> bool" where
  "universe_ok u \<longleftrightarrow> universe_wf u \<and> universe_uids u \<and> universe_linked u"

lemma universe_wf_new: "universe_wf pkg_jobs_universe_new"
  by (simp add: universe_wf_def pkg_jobs_universe_new_def hash_wf_def)

end
