(* ===== verification/Checksum.thy ===== *)
theory Checksum
  imports Package
begin

unbundle bit_operations_syntax

text \<open>
  The package digest of \<open>libpkg/pkg_checksum.c\<close>: the fields that identify a package are
  collected as (field, value) entries, sorted, hashed and printed as
  \<open>version$type$encoded hash\<close>. The SHA-256 function is a parameter, from the concatenation
  of the bytes passed to \<open>SHA256_Update\<close> to the 32 bytes of the hash. The allocations
  succeed. A hash byte is an \<open>unsigned char\<close>, \<open>8 word\<close>; the encoders compute in
  \<open>int\<close>.
\<close>

section \<open>Types of checksums\<close>

datatype pkg_checksum_type_t =
  PKG_HASH_TYPE_SHA256_BASE32 | PKG_HASH_TYPE_SHA256_HEX | PKG_HASH_TYPE_UNKNOWN

primrec checksum_type_num :: "pkg_checksum_type_t \<Rightarrow> nat" where
  "checksum_type_num PKG_HASH_TYPE_SHA256_BASE32 = 0"
| "checksum_type_num PKG_HASH_TYPE_SHA256_HEX = 1"
| "checksum_type_num PKG_HASH_TYPE_UNKNOWN = 2"

definition checksum_type_of :: "nat \<Rightarrow> pkg_checksum_type_t" where
  \<comment> \<open>the conversion of an integer to the enumeration, below \<open>PKG_HASH_TYPE_UNKNOWN\<close>\<close>
  "checksum_type_of n = (if n = 0 then PKG_HASH_TYPE_SHA256_BASE32
     else if n = 1 then PKG_HASH_TYPE_SHA256_HEX else PKG_HASH_TYPE_UNKNOWN)"

definition PKG_CHECKSUM_CUR_VERSION :: nat where
  "PKG_CHECKSUM_CUR_VERSION = 2"

definition PKG_CHECKSUM_SHA256_LEN :: nat where
  \<comment> \<open>\<open>SHA256_DIGEST_LENGTH * 2 + sizeof ("100") * 2 + 2\<close>\<close>
  "PKG_CHECKSUM_SHA256_LEN = 32 * 2 + 4 * 2 + 2"

text \<open>The table \<open>checksum_types\<close>: name and \<open>hlen\<close> (\<open>(size_t) -1\<close> for the last).\<close>

primrec pkg_checksum_type_to_string :: "pkg_checksum_type_t \<Rightarrow> string option" where
  "pkg_checksum_type_to_string PKG_HASH_TYPE_SHA256_BASE32 = Some ''sha256_base32''"
| "pkg_checksum_type_to_string PKG_HASH_TYPE_SHA256_HEX = Some ''sha256_hex''"
| "pkg_checksum_type_to_string PKG_HASH_TYPE_UNKNOWN = None"

primrec pkg_checksum_type_size :: "pkg_checksum_type_t \<Rightarrow> nat" where
  "pkg_checksum_type_size PKG_HASH_TYPE_SHA256_BASE32 = PKG_CHECKSUM_SHA256_LEN"
| "pkg_checksum_type_size PKG_HASH_TYPE_SHA256_HEX = PKG_CHECKSUM_SHA256_LEN"
| "pkg_checksum_type_size PKG_HASH_TYPE_UNKNOWN = 2 ^ 64 - 1"

definition pkg_checksum_type_from_string :: "string \<Rightarrow> pkg_checksum_type_t" where
  "pkg_checksum_type_from_string name =
     (case find (\<lambda>t. strcaseeq name (the (pkg_checksum_type_to_string t)))
             [PKG_HASH_TYPE_SHA256_BASE32, PKG_HASH_TYPE_SHA256_HEX] of
        Some t \<Rightarrow> t | None \<Rightarrow> PKG_HASH_TYPE_UNKNOWN)"

section \<open>Entries\<close>

record pkg_checksum_entry =
  ent_field :: string
  ent_value :: string

definition pkg_checksum_add_entry ::
  "string \<Rightarrow> string \<Rightarrow> pkg_checksum_entry list \<Rightarrow> pkg_checksum_entry list" where
  "pkg_checksum_add_entry key val entries = entries @ [\<lparr>ent_field = key, ent_value = val\<rparr>]"

definition pkg_checksum_entry_cmp :: "pkg_checksum_entry \<Rightarrow> pkg_checksum_entry \<Rightarrow> int" where
  "pkg_checksum_entry_cmp e1 e2 =
     (let r = strcmp (ent_field e1) (ent_field e2)
      in if r \<noteq> 0 then r else strcmp (ent_value e1) (ent_value e2))"

text \<open>
  One \<open>while\<close> loop of \<open>pkg_checksum_generate\<close> adds an entry for every element of a list
  of the package. The keys of the four scalar fields are the names of \<open>pkg_keys\<close>
  (\<open>libpkg/pkg.c\<close>); a valid package has all four.
\<close>

definition add_entries ::
  "('a \<Rightarrow> string) \<Rightarrow> ('a \<Rightarrow> string) \<Rightarrow> 'a list \<Rightarrow> pkg_checksum_entry list \<Rightarrow> pkg_checksum_entry list" where
  "add_entries key val xs entries =
     foldl (\<lambda>es x. pkg_checksum_add_entry (key x) (val x) es) entries xs"

definition pkg_checksum_entries :: "pkg \<Rightarrow> pkg_checksum_entry list" where
  "pkg_checksum_entries p =
     (let es = add_entries fst snd [(''name'', pkg_name p), (''origin'', pkg_origin p),
                 (''version'', pkg_version p), (''arch'', pkg_arch p)] [];
          es = add_entries opt_key opt_value (pkg_options p) es;
          es = add_entries (\<lambda>_. ''required_shlib'') id (pkg_shlibs_required p) es;
          es = add_entries (\<lambda>_. ''provided_shlib'') id (pkg_shlibs_provided p) es;
          es = add_entries (\<lambda>_. ''user'') id (pkg_users p) es;
          es = add_entries (\<lambda>_. ''group'') id (pkg_groups p) es
      in add_entries (\<lambda>_. ''depend'') dep_uid (pkg_deps p) es)"

section \<open>Hash and encodings\<close>

definition pkg_checksum_hash_sha256 ::
  "(string \<Rightarrow> 8 word list) \<Rightarrow> pkg_checksum_entry list \<Rightarrow> 8 word list" where
  "pkg_checksum_hash_sha256 sha256 entries =
     sha256 (concat (map (\<lambda>e. ent_field e @ ent_value e) entries))"

definition b32 :: string where
  "b32 = ''ybndrfg8ejkmcpqxot1uwisza345h769''"

definition b32_digit :: "int \<Rightarrow> char" where
  "b32_digit x = b32 ! nat x"

text \<open>
  The loop of \<open>pkg_checksum_encode_base32\<close> from index \<open>i\<close> on: \<open>remain\<close> holds the
  bits of the bytes before \<open>i\<close> that are not printed yet, \<open>-1\<close> when there are none.
\<close>

fun base32_loop :: "nat \<Rightarrow> int \<Rightarrow> 8 word list \<Rightarrow> string" where
  "base32_loop i remain [] = (if 0 \<le> remain then [b32_digit remain] else [])"
| "base32_loop i remain (b # bs) =
     (if i mod 5 = 0 then
        (let x = uint b
         in b32_digit (x AND 0x1F) # base32_loop (Suc i) (drop_bit 5 (uint b)) bs)
      else if i mod 5 = 1 then
        (let x = remain OR push_bit 3 (uint b)
         in b32_digit (x AND 0x1F) # b32_digit (drop_bit 5 x AND 0x1F)
            # base32_loop (Suc i) (drop_bit 10 x) bs)
      else if i mod 5 = 2 then
        (let x = remain OR push_bit 1 (uint b)
         in b32_digit (x AND 0x1F) # base32_loop (Suc i) (drop_bit 5 x) bs)
      else if i mod 5 = 3 then
        (let x = remain OR push_bit 4 (uint b)
         in b32_digit (x AND 0x1F) # b32_digit (drop_bit 5 x AND 0x1F)
            # base32_loop (Suc i) (drop_bit 10 x AND 0x3) bs)
      else
        (let x = remain OR push_bit 2 (uint b)
         in b32_digit (x AND 0x1F) # b32_digit (drop_bit 5 x AND 0x1F)
            # base32_loop (Suc i) (-1) bs))"

text \<open>The encoders return the bytes they print before the NUL, or \<open>None\<close> when they refuse.\<close>

definition pkg_checksum_encode_base32 :: "8 word list \<Rightarrow> nat \<Rightarrow> string option" where
  "pkg_checksum_encode_base32 inp outlen =
     (if outlen < length inp * 8 div 5 then None else Some (base32_loop 0 (-1) inp))"

definition hex_digit :: "int \<Rightarrow> char" where
  "hex_digit x = ''0123456789abcdef'' ! nat x"

definition hex_byte :: "8 word \<Rightarrow> string" where
  \<comment> \<open>\<open>"%02x"\<close>\<close>
  "hex_byte b = [hex_digit (uint b div 16), hex_digit (uint b mod 16)]"

definition pkg_checksum_encode_hex :: "8 word list \<Rightarrow> nat \<Rightarrow> string option" where
  "pkg_checksum_encode_hex inp outlen =
     (if outlen < length inp * 2 then None else Some (concat (map hex_byte inp)))"

primrec pkg_checksum_encode ::
  "pkg_checksum_type_t \<Rightarrow> 8 word list \<Rightarrow> nat \<Rightarrow> string option" where
  "pkg_checksum_encode PKG_HASH_TYPE_SHA256_BASE32 inp outlen = pkg_checksum_encode_base32 inp outlen"
| "pkg_checksum_encode PKG_HASH_TYPE_SHA256_HEX inp outlen = pkg_checksum_encode_hex inp outlen"
| "pkg_checksum_encode PKG_HASH_TYPE_UNKNOWN inp outlen = None"

section \<open>Generation and recognition\<close>

definition pkg_checksum_prefix :: "pkg_checksum_type_t \<Rightarrow> string" where
  \<comment> \<open>\<open>"%d%c%d%c"\<close> of the version, the separator, the type and the separator\<close>
  "pkg_checksum_prefix t = [char_of (48 + PKG_CHECKSUM_CUR_VERSION), CHR ''$'',
     char_of (48 + checksum_type_num t), CHR ''$'']"

text \<open>
  The bytes left in \<open>dest\<close>, or \<open>None\<close> for \<open>EPKG_FATAL\<close>. An encoder that refuses
  leaves the prefix.
\<close>

definition pkg_checksum_generate ::
  "(string \<Rightarrow> 8 word list) \<Rightarrow> pkg \<Rightarrow> nat \<Rightarrow> pkg_checksum_type_t \<Rightarrow> string option" where
  "pkg_checksum_generate sha256 p destlen t =
     (if t = PKG_HASH_TYPE_UNKNOWN \<or> destlen < pkg_checksum_type_size t then None
      else let entries = ll_sort pkg_checksum_entry_cmp (pkg_checksum_entries p);
               bdigest = pkg_checksum_hash_sha256 sha256 entries
           in if bdigest = [] then None
              else let dest = pkg_checksum_prefix t
                   in case pkg_checksum_encode t bdigest (destlen - length dest) of
                        None \<Rightarrow> Some dest
                      | Some text \<Rightarrow> Some (dest @ text))"

definition parsed_uint :: "string \<Rightarrow> 32 word" where
  \<comment> \<open>\<open>(unsigned int) strtoul (s, NULL, 10)\<close>\<close>
  "parsed_uint s = ucast (strtoul s)"

definition pkg_checksum_is_valid :: "string \<Rightarrow> nat \<Rightarrow> bool" where
  "pkg_checksum_is_valid cksum clen =
     (if clen < 4 then False
      else case strchr (CHR ''$'') cksum of
             None \<Rightarrow> False
           | Some sep \<Rightarrow>
              if parsed_uint cksum \<noteq> of_nat PKG_CHECKSUM_CUR_VERSION then False
              else case strchr (CHR ''$'') (tl sep) of
                     None \<Rightarrow> False
                   | Some sep2 \<Rightarrow>
                      parsed_uint (tl sep) < of_nat (checksum_type_num PKG_HASH_TYPE_UNKNOWN))"

definition pkg_checksum_get_type :: "string \<Rightarrow> nat \<Rightarrow> pkg_checksum_type_t" where
  "pkg_checksum_get_type cksum clen =
     (case strchr (CHR ''$'') cksum of
        Some sep \<Rightarrow>
          let val = parsed_uint (tl sep)
          in if val < of_nat (checksum_type_num PKG_HASH_TYPE_UNKNOWN)
             then checksum_type_of (unat val) else PKG_HASH_TYPE_UNKNOWN
      | None \<Rightarrow> PKG_HASH_TYPE_UNKNOWN)"

text \<open>
  \<open>pkg_checksum_calculate\<close>: the repository of the package, when it is known, chooses the
  format of the digest (\<open>repo_find\<close> gives the \<open>digest_format\<close> of its metadata). The
  result is the package with its digest; with a database the digest is stored there too.
\<close>

definition pkg_checksum_calculate ::
  "(string \<Rightarrow> 8 word list) \<Rightarrow> (string \<Rightarrow> pkg_checksum_type_t option) \<Rightarrow> pkg \<Rightarrow> pkg option" where
  "pkg_checksum_calculate sha256 repo_find p =
     (let t = (case pkg_reponame p of
                 None \<Rightarrow> PKG_HASH_TYPE_SHA256_BASE32
               | Some reponame \<Rightarrow> (case repo_find reponame of
                   None \<Rightarrow> PKG_HASH_TYPE_SHA256_BASE32 | Some f \<Rightarrow> f))
      in case pkg_checksum_generate sha256 p (pkg_checksum_type_size t) t of
           None \<Rightarrow> None
         | Some d \<Rightarrow> Some (p\<lparr>pkg_digest := Some d\<rparr>))"

section \<open>Base 32\<close>

text \<open>
  The encoding read as numbers: the hash is a number in base 256, least significant byte first, and
  the text its digits in base 32, least significant first, as many as cover its bits.
\<close>

primrec leval :: "8 word list \<Rightarrow> int" where
  "leval [] = 0"
| "leval (b # bs) = uint b + 256 * leval bs"

primrec digits32 :: "nat \<Rightarrow> int \<Rightarrow> int list" where
  "digits32 0 v = []"
| "digits32 (Suc n) v = v mod 32 # digits32 n (v div 32)"

lemma or_shift: "0 \<le> x \<Longrightarrow> x < 2 ^ n \<Longrightarrow> x OR push_bit n y = x + y * (2 ^ n :: int)"
proof -
  assume x: "0 \<le> x" "x < 2 ^ n"
  then have "x = take_bit n x" by (simp add: take_bit_int_eq_self)
  then have "\<not> bit x m \<or> \<not> bit (push_bit n y) m" for m
    by (metis bit_push_bit_iff bit_take_bit_iff not_le)
  from disjunctive_add [of x "push_bit n y", OF this] show ?thesis by (simp add: push_bit_eq_mult)
qed

lemma byte_bounds: "0 \<le> uint (b :: 8 word)" "uint b < 256"
  using uint_bounded [of b] by simp_all

lemma and_31: "x AND 31 = x mod (32::int)" and and_3: "x AND 3 = x mod (4::int)"
  using take_bit_eq_mask [of 5 x] take_bit_eq_mask [of 2 x]
  by (simp_all add: mask_eq_exp_minus_1 take_bit_eq_mod)

lemma leval_nonneg: "0 \<le> leval bs"
  by (induction bs) simp_all

lemma div_bound: "0 \<le> x \<Longrightarrow> x < m * k \<Longrightarrow> 0 < m \<Longrightarrow> 0 \<le> x div m \<and> x div m < (k :: int)"
proof -
  assume x: "0 \<le> x" "x < m * k" and m: "0 < m"
  have "m * (x div m) \<le> x" using m pos_mod_sign [of m x] mult_div_mod_eq [of m x] by linarith
  with x m show ?thesis by (meson le_less_trans mult_less_cancel_left_pos pos_imp_zdiv_nonneg_iff)
qed

lemma digits32_one:
  "map f (digits32 (Suc m) (x + 32 * y)) = f (x mod 32) # map f (digits32 m (x div 32 + y))"
  by (simp add: add.commute)

lemma digits32_two:
  "map f (digits32 (Suc (Suc m)) (x + 1024 * y)) =
     f (x mod 32) # f (x div 32 mod 32) # map f (digits32 m (x div 1024 + y))"
proof -
  have e: "x + 1024 * y = x + 32 * (32 * y)" by simp
  show ?thesis unfolding e digits32_one by (simp add: zdiv_zmult2_eq [of 32 x 32, simplified] add.commute)
qed

lemmas base32_step = Let_def and_31 and_3 drop_bit_eq_div

text \<open>The loop prints the digits of the bits it holds and of the bytes to come.\<close>

lemma base32_nil:
  assumes "i mod 5 = 0 \<and> r = -1 \<or> i mod 5 \<noteq> 0 \<and> 0 \<le> r \<and> r < 2 ^ (3 * i mod 5)"
  shows "base32_loop i r [] = map b32_digit (digits32 ((3 * i mod 5 + 4) div 5) (max 0 r))"
proof -
  have "i mod 5 \<in> {0,1,2,3,4}" by auto
  moreover have "3 * i mod 5 = 3 * (i mod 5) mod 5" by (simp add: mod_mult_right_eq)
  ultimately show ?thesis using assms by (auto simp: numeral_2_eq_2 max_def)
qed

lemma base32_loop_digits:
  "(i mod 5 = 0 \<and> r = -1 \<or> i mod 5 \<noteq> 0 \<and> 0 \<le> r \<and> r < 2 ^ (3 * i mod 5)) \<Longrightarrow>
   base32_loop i r bs =
     map b32_digit (digits32 ((3 * i mod 5 + 8 * length bs + 4) div 5)
       (max 0 r + 2 ^ (3 * i mod 5) * leval bs))"
proof (induction bs arbitrary: i r)
  case Nil
  then show ?case using base32_nil [of i r] by simp
next
  case (Cons b bs)
  let ?l = "8 * length bs + 4" and ?L = "leval bs"
  have cases: "i mod 5 \<in> {0,1,2,3,4}" by auto
  have m: "3 * i mod 5 = 3 * (i mod 5) mod 5" "3 * Suc i mod 5 = 3 * (Suc (i mod 5) mod 5) mod 5"
    "Suc i mod 5 = Suc (i mod 5) mod 5"
    by (metis mod_mult_right_eq, metis mod_mult_right_eq mod_Suc_eq, metis mod_Suc_eq)
  note b = byte_bounds [of b] and IH = Cons.IH [of "Suc i"]
  from cases show ?case
  proof (elim insertE emptyE)
    assume i: "i mod 5 = 0"
    then have k: "3 * i mod 5 = 0" "3 * Suc i mod 5 = 3" "Suc i mod 5 = 1"
      by (simp_all only: m) simp_all
    have v: "max 0 r + 2 ^ 0 * leval (b # bs) = uint b + 32 * (8 * ?L)"
      "(0 + 8 * length (b # bs) + 4) div 5 = Suc ((3 + ?l) div 5)"
      using Cons.prems by (simp_all add: i k)
    have q: "0 \<le> uint b div 32" "uint b div 32 < 8"
      using div_bound [of "uint b" 32 8] b by simp_all
    show ?thesis unfolding k v digits32_one
      using IH [of "uint b div 32", unfolded k] q by (simp add: i base32_step)
  next
    assume i: "i mod 5 = 1"
    then have k: "3 * i mod 5 = 3" "3 * Suc i mod 5 = 1" "Suc i mod 5 = 2"
      by (simp_all only: m) simp_all
    have r: "0 \<le> r" "r < 8" using Cons.prems by (simp_all add: i k)
    have x: "r OR push_bit 3 (uint b) = r + uint b * 8"
      using or_shift [of r 3 "uint b"] r by simp
    note x = x x [unfolded push_bit_eq_mult, simplified]
    have v: "max 0 r + 2 ^ 3 * leval (b # bs) = (r + uint b * 8) + 1024 * (2 * ?L)"
      "(3 + 8 * length (b # bs) + 4) div 5 = Suc (Suc ((1 + ?l) div 5))"
      using Cons.prems by (simp_all add: i k)
    have q: "0 \<le> (r + uint b * 8) div 1024" "(r + uint b * 8) div 1024 < 2"
      using div_bound [of "(r + uint b * 8)" 1024 2] b r by simp_all
    show ?thesis unfolding k v digits32_two
      using IH [of "(r + uint b * 8) div 1024", unfolded k] q by (simp add: i x base32_step)
  next
    assume i: "i mod 5 = 2"
    then have k: "3 * i mod 5 = 1" "3 * Suc i mod 5 = 4" "Suc i mod 5 = 3"
      by (simp_all only: m) simp_all
    have r: "0 \<le> r" "r < 2" using Cons.prems by (simp_all add: i k)
    have x: "r OR push_bit 1 (uint b) = r + uint b * 2"
      using or_shift [of r 1 "uint b"] r by simp
    note x = x x [unfolded push_bit_eq_mult, simplified]
    have v: "max 0 r + 2 ^ 1 * leval (b # bs) = (r + uint b * 2) + 32 * (16 * ?L)"
      "(1 + 8 * length (b # bs) + 4) div 5 = Suc ((4 + ?l) div 5)"
      using Cons.prems by (simp_all add: i k)
    have q: "0 \<le> (r + uint b * 2) div 32" "(r + uint b * 2) div 32 < 16"
      using div_bound [of "(r + uint b * 2)" 32 16] b r by simp_all
    show ?thesis unfolding k v digits32_one
      using IH [of "(r + uint b * 2) div 32", unfolded k] q by (simp add: i x base32_step)
  next
    assume i: "i mod 5 = 3"
    then have k: "3 * i mod 5 = 4" "3 * Suc i mod 5 = 2" "Suc i mod 5 = 4"
      by (simp_all only: m) simp_all
    have r: "0 \<le> r" "r < 16" using Cons.prems by (simp_all add: i k)
    have x: "r OR push_bit 4 (uint b) = r + uint b * 16"
      using or_shift [of r 4 "uint b"] r by simp
    note x = x x [unfolded push_bit_eq_mult, simplified]
    have v: "max 0 r + 2 ^ 4 * leval (b # bs) = (r + uint b * 16) + 1024 * (4 * ?L)"
      "(4 + 8 * length (b # bs) + 4) div 5 = Suc (Suc ((2 + ?l) div 5))"
      using Cons.prems by (simp_all add: i k)
    have q: "0 \<le> (r + uint b * 16) div 1024" "(r + uint b * 16) div 1024 < 4"
      using div_bound [of "(r + uint b * 16)" 1024 4] b r by simp_all
    show ?thesis unfolding k v digits32_two
      using IH [of "(r + uint b * 16) div 1024", unfolded k] q by (simp add: i x base32_step)
  next
    assume i: "i mod 5 = 4"
    then have k: "3 * i mod 5 = 2" "3 * Suc i mod 5 = 0" "Suc i mod 5 = 0"
      by (simp_all only: m) simp_all
    have r: "0 \<le> r" "r < 4" using Cons.prems by (simp_all add: i k)
    have x: "r OR push_bit 2 (uint b) = r + uint b * 4"
      using or_shift [of r 2 "uint b"] r by simp
    note x = x x [unfolded push_bit_eq_mult, simplified]
    have v: "max 0 r + 2 ^ 2 * leval (b # bs) = (r + uint b * 4) + 1024 * (1 * ?L)"
      "(2 + 8 * length (b # bs) + 4) div 5 = Suc (Suc ((0 + ?l) div 5))"
      using Cons.prems by (simp_all add: i k)
    have q: "0 \<le> (r + uint b * 4) div 1024" "(r + uint b * 4) div 1024 < 1"
      using div_bound [of "(r + uint b * 4)" 1024 1] b r by simp_all
    show ?thesis unfolding k v digits32_two
      using IH [of "-1", unfolded k] q by (simp add: i x base32_step)
  qed
qed


lemma digits32_inject:
  "digits32 n v = digits32 n w \<Longrightarrow> 0 \<le> v \<Longrightarrow> v < 32 ^ n \<Longrightarrow> 0 \<le> w \<Longrightarrow> w < 32 ^ n \<Longrightarrow> v = w"
proof (induction n arbitrary: v w)
  case (Suc n)
  then have "v div 32 = w div 32"
    using div_bound [of v 32 "32 ^ n"] div_bound [of w 32 "32 ^ n"] by simp
  moreover have "v mod 32 = w mod 32" using Suc.prems by simp
  ultimately show ?case by (metis mult_div_mod_eq)
qed simp

lemma leval_bound: "leval bs < 256 ^ length bs"
proof (induction bs)
  case (Cons b bs)
  then show ?case using byte_bounds [of b] by simp
qed simp

lemma leval_inject: "length xs = length ys \<Longrightarrow> leval xs = leval ys \<Longrightarrow> xs = ys"
proof (induction xs ys rule: list_induct2)
  case (Cons x xs y ys)
  have "(uint x + 256 * leval xs) mod 256 = uint x" "(uint y + 256 * leval ys) mod 256 = uint y"
    using byte_bounds [of x] byte_bounds [of y] by simp_all
  with Cons.prems have "uint x = uint y" by simp
  with Cons show ?case by (simp add: word_uint_eq_iff)
qed simp

lemma b32_digit_inject: "0 \<le> x \<Longrightarrow> x < 32 \<Longrightarrow> 0 \<le> y \<Longrightarrow> y < 32 \<Longrightarrow> b32_digit x = b32_digit y \<longleftrightarrow> x = y"
proof -
  assume b: "0 \<le> x" "x < 32" "0 \<le> y" "y < 32"
  have "distinct b32" "length b32 = 32" by (simp_all add: b32_def)
  with b show ?thesis by (simp add: b32_digit_def nth_eq_iff_index_eq eq_nat_nat_iff)
qed

lemma digits32_range: "d \<in> set (digits32 n v) \<Longrightarrow> 0 \<le> d \<and> d < 32"
  by (induction n arbitrary: v) auto

lemma length_digits32 [simp]: "length (digits32 n v) = n"
  by (induction n arbitrary: v) auto

lemma map_b32_digit_inject:
  "map b32_digit (digits32 n v) = map b32_digit (digits32 n w) \<longleftrightarrow> digits32 n v = digits32 n w"
  by (rule inj_on_map_eq_map, rule inj_onI) (metis Un_iff b32_digit_inject digits32_range)

lemma encode_base32_digits:
  "pkg_checksum_encode_base32 inp outlen =
     (if outlen < length inp * 8 div 5 then None
      else Some (map b32_digit (digits32 ((8 * length inp + 4) div 5) (leval inp))))"
  using base32_loop_digits [of 0 "-1" inp] by (simp add: pkg_checksum_encode_base32_def)

lemma base32_fits: "leval bs < 32 ^ ((8 * length bs + 4) div 5)"
proof -
  have "8 * length bs \<le> 5 * ((8 * length bs + 4) div 5)" by presburger
  then have "(2::int) ^ (8 * length bs) \<le> 2 ^ (5 * ((8 * length bs + 4) div 5))" by simp
  then show ?thesis using leval_bound [of bs] by (simp add: power_mult)
qed


section \<open>Sorting makes the digest canonical\<close>

lemma three_way_entry: "three_way_cmp pkg_checksum_entry_cmp"
proof -
  have e: "pkg_checksum_entry_cmp =
      (\<lambda>a b. then_cmp (strcmp (ent_field a) (ent_field b)) (strcmp (ent_value a) (ent_value b)))"
    by (simp add: fun_eq_iff pkg_checksum_entry_cmp_def then_cmp_def Let_def)
  show ?thesis unfolding e
    using three_way_key [OF three_way_strcmp, of ent_field] three_way_key [OF three_way_strcmp, of ent_value] by (rule three_way_then)
qed

interpretation entry: three_way_cmp pkg_checksum_entry_cmp
  by (rule three_way_entry)

lemma entry_cmp_0: "pkg_checksum_entry_cmp a b = 0 \<longleftrightarrow> a = b"
  by (auto simp: pkg_checksum_entry_cmp_def Let_def)

lemma ll_sort_entries_unique:
  "mset xs = mset ys \<Longrightarrow> ll_sort pkg_checksum_entry_cmp xs = ll_sort pkg_checksum_entry_cmp ys"
  by (rule entry.ordered_unique) (simp_all add: entry.ordered_sort entry_cmp_0)

lemma mset_add_entries:
  "mset (add_entries key val xs es) =
     mset es + mset (map (\<lambda>x. \<lparr>ent_field = key x, ent_value = val x\<rparr>) xs)"
  unfolding add_entries_def
  by (induction xs arbitrary: es) (simp_all add: pkg_checksum_add_entry_def)


section \<open>Properties\<close>

lemma length_base32: "pkg_checksum_encode_base32 inp outlen = Some s \<Longrightarrow> length s = (8 * length inp + 4) div 5"
  by (auto simp: encode_base32_digits split: if_splits)

lemma length_hex: "length (concat (map hex_byte inp)) = 2 * length inp"
  by (induction inp) (auto simp: hex_byte_def)

lemma hex_digit_inject: "0 \<le> x \<Longrightarrow> x < 16 \<Longrightarrow> 0 \<le> y \<Longrightarrow> y < 16 \<Longrightarrow> hex_digit x = hex_digit y \<longleftrightarrow> x = y"
proof -
  assume b: "0 \<le> x" "x < 16" "0 \<le> y" "y < 16"
  have "distinct ''0123456789abcdef''" by simp
  with b show ?thesis by (simp add: hex_digit_def nth_eq_iff_index_eq eq_nat_nat_iff)
qed

lemma hex_byte_inject: "hex_byte a = hex_byte b \<longleftrightarrow> a = b"
proof
  assume "hex_byte a = hex_byte b"
  then have "uint a div 16 = uint b div 16" "uint a mod 16 = uint b mod 16"
    using div_bound [of "uint a" 16 16] div_bound [of "uint b" 16 16] byte_bounds [of a] byte_bounds [of b]
    by (simp_all add: hex_byte_def hex_digit_inject)
  then show "a = b" by (metis mult_div_mod_eq word_uint_eq_iff)
qed simp

lemma hex_inject:
  "length xs = length ys \<Longrightarrow> concat (map hex_byte xs) = concat (map hex_byte ys) \<Longrightarrow> xs = ys"
proof (induction xs ys rule: list_induct2)
  case (Cons x xs y ys)
  then have "hex_byte x @ concat (map hex_byte xs) = hex_byte y @ concat (map hex_byte ys)" by simp
  then have "hex_byte x = hex_byte y \<and> concat (map hex_byte xs) = concat (map hex_byte ys)"
    by (simp add: hex_byte_def)
  with Cons.IH show ?case by (simp add: hex_byte_inject)
qed simp

lemma base32_inject:
  assumes "length xs = length ys"
    and "pkg_checksum_encode_base32 xs n = Some s" and "pkg_checksum_encode_base32 ys n = Some s"
  shows "xs = ys"
proof -
  from assms have "digits32 ((8 * length ys + 4) div 5) (leval xs) = digits32 ((8 * length ys + 4) div 5) (leval ys)"
    by (simp add: encode_base32_digits map_b32_digit_inject [symmetric] split: if_splits)
  then have "leval xs = leval ys"
    by (rule digits32_inject) (use assms(1) base32_fits [of xs] base32_fits [of ys] in \<open>simp_all add: leval_nonneg\<close>)
  with assms(1) show ?thesis by (rule leval_inject)
qed

lemma parsed_uint_digit:
  "parsed_uint (CHR ''2'' # CHR ''$'' # r) = 2" "parsed_uint (CHR ''0'' # CHR ''$'' # r) = 0"
  "parsed_uint (CHR ''1'' # CHR ''$'' # r) = 1"
  by (simp_all add: parsed_uint_def strtoul_def dec_value_def digit_val_def ctype_defs Let_def)

lemma checksum_prefixes:
  "pkg_checksum_prefix PKG_HASH_TYPE_SHA256_BASE32 = ''2$0$''"
  "pkg_checksum_prefix PKG_HASH_TYPE_SHA256_HEX = ''2$1$''"
  by code_simp+

lemma prefix_recognised:
  assumes "t \<noteq> PKG_HASH_TYPE_UNKNOWN" and "d = pkg_checksum_prefix t @ r"
  shows "pkg_checksum_is_valid d (length d) \<and> pkg_checksum_get_type d (length d) = t"
  using assms
  by (cases t) (simp_all add: pkg_checksum_is_valid_def pkg_checksum_get_type_def Let_def
      checksum_prefixes PKG_CHECKSUM_CUR_VERSION_def checksum_type_of_def parsed_uint_digit)

lemma encode_some:
  assumes "t \<noteq> PKG_HASH_TYPE_UNKNOWN" and "length bs = 32"
  shows "\<exists>s. pkg_checksum_encode t bs 70 = Some s \<and> length s \<le> 64"
  using assms by (cases t) (auto simp: encode_base32_digits pkg_checksum_encode_hex_def length_hex)


lemma generate_some:
  assumes "t \<noteq> PKG_HASH_TYPE_UNKNOWN" and "\<And>x. length (sha256 x) = 32"
  shows "\<exists>s. pkg_checksum_generate sha256 p PKG_CHECKSUM_SHA256_LEN t = Some (pkg_checksum_prefix t @ s)
    \<and> length s \<le> 64"
proof -
  let ?h = "pkg_checksum_hash_sha256 sha256 (ll_sort pkg_checksum_entry_cmp (pkg_checksum_entries p))"
  have h: "length ?h = 32" by (simp add: pkg_checksum_hash_sha256_def assms)
  then have "?h \<noteq> []" by auto
  moreover obtain s where "pkg_checksum_encode t ?h 70 = Some s" "length s \<le> 64"
    using encode_some [OF assms(1) h] by blast
  moreover have "length (pkg_checksum_prefix t) = 4" by (simp add: pkg_checksum_prefix_def)
  moreover have "pkg_checksum_type_size t = PKG_CHECKSUM_SHA256_LEN" using assms(1) by (cases t) simp_all
  ultimately show ?thesis
    using assms(1) by (simp add: pkg_checksum_generate_def Let_def PKG_CHECKSUM_SHA256_LEN_def)
qed

text \<open>
  C25: for a real hash function of 32 bytes, the digest of a package in either format is generated, fits with its
  NUL into the buffer of \<open>pkg_checksum_type_size\<close> bytes, is recognised as a valid checksum, and gives back its
  type.
\<close>

theorem checksum_roundtrip:
  assumes "t \<noteq> PKG_HASH_TYPE_UNKNOWN" and "\<And>x. length (sha256 x) = 32"
  shows "\<exists>d. pkg_checksum_generate sha256 p (pkg_checksum_type_size t) t = Some d
     \<and> length d + 1 \<le> pkg_checksum_type_size t
     \<and> pkg_checksum_is_valid d (length d) \<and> pkg_checksum_get_type d (length d) = t"
proof -
  have n: "pkg_checksum_type_size t = 74"
    using assms(1) by (cases t) (simp_all add: PKG_CHECKSUM_SHA256_LEN_def)
  obtain s where s: "pkg_checksum_generate sha256 p PKG_CHECKSUM_SHA256_LEN t = Some (pkg_checksum_prefix t @ s)"
    "length s \<le> 64"
    using generate_some [of t sha256 p] assms by blast
  moreover have "length (pkg_checksum_prefix t @ s) = 4 + length s" "32 * 2 + 4 * 2 + 2 = (74::nat)"
    by (simp_all add: pkg_checksum_prefix_def)
  moreover note prefix_recognised [OF assms(1) refl, of s]
  ultimately show ?thesis unfolding n PKG_CHECKSUM_SHA256_LEN_def
    by (intro exI [of _ "pkg_checksum_prefix t @ s"] conjI) (simp_all del: length_append)
qed

theorem checksum_roundtrip_witness:
  "\<exists>d. pkg_checksum_generate (\<lambda>_. replicate 32 7) demo_pkg 74 PKG_HASH_TYPE_SHA256_BASE32 = Some d
     \<and> length d + 1 \<le> 74
     \<and> pkg_checksum_is_valid d (length d)
     \<and> pkg_checksum_get_type d (length d) = PKG_HASH_TYPE_SHA256_BASE32"
  using checksum_roundtrip [of PKG_HASH_TYPE_SHA256_BASE32 "\<lambda>_. replicate 32 7" demo_pkg]
  by (simp add: PKG_CHECKSUM_SHA256_LEN_def)

text \<open>
  the digest does not depend on the order of the options, libraries, users, groups and dependencies of the
  package (the merge sort before hashing makes it canonical), nor on any other field.
\<close>

theorem checksum_canonical:
  assumes "pkg_name p = pkg_name q" "pkg_origin p = pkg_origin q" "pkg_version p = pkg_version q"
    "pkg_arch p = pkg_arch q"
    and "mset (pkg_options p) = mset (pkg_options q)"
    and "mset (pkg_shlibs_required p) = mset (pkg_shlibs_required q)"
    and "mset (pkg_shlibs_provided p) = mset (pkg_shlibs_provided q)"
    and "mset (pkg_users p) = mset (pkg_users q)" and "mset (pkg_groups p) = mset (pkg_groups q)"
    and "mset (map dep_uid (pkg_deps p)) = mset (map dep_uid (pkg_deps q))"
  shows "pkg_checksum_generate sha256 p n t = pkg_checksum_generate sha256 q n t"
proof -
  have d: "image_mset (\<lambda>x. \<lparr>ent_field = k, ent_value = dep_uid x\<rparr>) (mset (pkg_deps p)) =
      image_mset (\<lambda>x. \<lparr>ent_field = k, ent_value = dep_uid x\<rparr>) (mset (pkg_deps q))" for k
    using arg_cong [OF assms(10), of "image_mset (\<lambda>v. \<lparr>ent_field = k, ent_value = v\<rparr>)"]
    by (simp add: multiset.map_comp comp_def)
  have "mset (pkg_checksum_entries p) = mset (pkg_checksum_entries q)"
    by (simp only: pkg_checksum_entries_def Let_def mset_add_entries mset_map d assms)
  from ll_sort_entries_unique [OF this] show ?thesis by (simp only: pkg_checksum_generate_def)
qed

theorem checksum_canonical_witness:
  "pkg_checksum_generate (\<lambda>_. replicate 32 7) (demo_pkg\<lparr>pkg_users := [''u'', ''v'']\<rparr>) 74 PKG_HASH_TYPE_SHA256_HEX =
   pkg_checksum_generate (\<lambda>_. replicate 32 7) (demo_pkg\<lparr>pkg_users := [''v'', ''u'']\<rparr>) 74 PKG_HASH_TYPE_SHA256_HEX"
  by (rule checksum_canonical) (simp_all add: demo_pkg_def)

text \<open>
  both encodings are faithful: two different hashes of the same length never get the same
  text.
\<close>

theorem checksum_encode_injective:
  assumes "length xs = length ys" and "xs \<noteq> ys"
    and "pkg_checksum_encode t xs n = Some s"
  shows "pkg_checksum_encode t ys n \<noteq> Some s"
proof (cases t)
  case PKG_HASH_TYPE_SHA256_BASE32
  with assms base32_inject [of xs ys n s] show ?thesis by auto
next
  case PKG_HASH_TYPE_SHA256_HEX
  with assms hex_inject [of xs ys] show ?thesis
    by (simp add: pkg_checksum_encode_hex_def split: if_splits) metis
qed simp

theorem checksum_encode_injective_witness:
  "pkg_checksum_encode PKG_HASH_TYPE_SHA256_HEX [18, 52] 10 \<noteq> Some ''1235''"
  using checksum_encode_injective [of "[18, 53]" "[18, 52]" PKG_HASH_TYPE_SHA256_HEX 10 "''1235''"]
  by (simp add: pkg_checksum_encode_hex_def hex_byte_def hex_digit_def)

end
