(* ===== verification/Solver.thy ===== *)
theory Solver
  imports Package
begin

text \<open>
  The dependency solver of \<open>libpkg/pkg_solve.c\<close>: the universe of a job is translated to
  clauses over one boolean variable per package item ("installed after the job"), an external SAT
  solver decides them, and the assignment is translated back to jobs. The SAT solver is PicoSAT:
  its object is the record of what the program told it, and \<open>picosat_sat\<close> is a parameter from
  that record to the answer. A variable is named by its index in the array \<open>variables\<close>, and
  the chain of the variables of one uid is the list of their indices under the uid.
\<close>

section \<open>Variables, rules, problems\<close>

record pkg_solve_variable =
  v_unit :: item_id
  v_to_install :: bool
  v_top_level :: bool
  v_priority :: int
  v_digest :: "string option"
  v_uid :: string
  v_order :: int

record pkg_solve_item =
  si_nitems :: int
  si_var :: nat
  si_inverse :: int

record pkg_solve_rule =
  r_reason :: string
  r_items :: "pkg_solve_item list"

text \<open>What PicoSAT is told: clauses, assumptions, default phases and importance of literals.\<close>

record picosat =
  ps_clauses :: "int list list"
  ps_assumed :: "int list"
  ps_phases :: "(int \<times> int) list"
  ps_important :: "(int \<times> bool) list"

datatype picosat_result =
    PICOSAT_SATISFIABLE "int \<Rightarrow> int"
  | PICOSAT_UNSATISFIABLE "int list"

record pkg_solve_problem =
  p_rules_count :: nat
  p_rules :: "pkg_solve_rule list"
  p_by_uid :: "(string, nat list) uthash"
  p_vars :: "pkg_solve_variable list"
  p_sat :: picosat
  p_nvars :: nat

definition pkg_solve_item_new :: "nat \<Rightarrow> pkg_solve_item" where
  "pkg_solve_item_new var = \<lparr>si_nitems = 0, si_var = var, si_inverse = 1\<rparr>"

definition pkg_solve_rule_new :: "string \<Rightarrow> pkg_solve_rule" where
  "pkg_solve_rule_new reason = \<lparr>r_reason = reason, r_items = []\<rparr>"

definition pkg_solve_variable_set :: "pkg_jobs_universe \<Rightarrow> item_id \<Rightarrow> pkg_solve_variable \<Rightarrow> pkg_solve_variable" where
  "pkg_solve_variable_set u item var =
     var\<lparr>v_unit := item, v_digest := pkg_digest (u_pkg u item), v_uid := pkg_uniqueid (u_pkg u item)\<rparr>"

definition blank_variable :: pkg_solve_variable where
  \<comment> \<open>an element of the array that \<open>calloc\<close> gives\<close>
  "blank_variable = \<lparr>v_unit = 0, v_to_install = False, v_top_level = False, v_priority = 0,
     v_digest = None, v_uid = [], v_order = 0\<rparr>"

definition RULE_ITEM_PREPEND :: "pkg_solve_rule \<Rightarrow> pkg_solve_item \<Rightarrow> pkg_solve_rule" where
  "RULE_ITEM_PREPEND rule item =
     rule\<lparr>r_items := item\<lparr>si_nitems := (case r_items rule of [] \<Rightarrow> 1 | it # _ \<Rightarrow> si_nitems it + 1)\<rparr>
            # r_items rule\<rparr>"

definition rule_add :: "pkg_solve_rule \<Rightarrow> nat \<Rightarrow> int \<Rightarrow> pkg_solve_rule" where
  \<comment> \<open>a new item for the variable, its sign, and its insertion into the rule\<close>
  "rule_add rule var inverse' =
     RULE_ITEM_PREPEND rule ((pkg_solve_item_new var)\<lparr>si_inverse := inverse'\<rparr>)"

definition problem_add :: "pkg_solve_rule \<Rightarrow> pkg_solve_problem \<Rightarrow> pkg_solve_problem" where
  \<comment> \<open>\<open>LL_PREPEND (problem->rules, rule); problem->rules_count ++\<close>\<close>
  "problem_add rule p = p\<lparr>p_rules := rule # p_rules p, p_rules_count := p_rules_count p + 1\<rparr>"

section \<open>Rules\<close>

definition pkg_solve_handle_provide ::
  "pkg_jobs_universe \<Rightarrow> pkg_solve_problem \<Rightarrow> pkg_solve_rule \<times> int \<Rightarrow> item_id \<Rightarrow> pkg_solve_rule \<times> int" where
  "pkg_solve_handle_provide u p acc pr_un =
     (let un = hd (u_chain_of u pr_un);
          uid = pkg_uniqueid (u_pkg u un);
          var = (case hash_find uid (p_by_uid p) of None \<Rightarrow> [] | Some vs \<Rightarrow> vs)
      in foldl (\<lambda>(rule, cnt) curvar. (rule_add rule curvar 1, cnt + 1)) acc var)"

definition pkg_solve_add_depend_rule ::
  "nat \<Rightarrow> pkg_solve_problem \<Rightarrow> pkg_dep \<Rightarrow> pkg_solve_problem" where
  "pkg_solve_add_depend_rule var p dep =
     (case hash_find (dep_uid dep) (p_by_uid p) of
        None \<Rightarrow> p
      | Some depvar \<Rightarrow>
          let rule = rule_add (pkg_solve_rule_new ''dependency'') var (-1);
              rule = foldl (\<lambda>rule curvar. rule_add rule curvar 1) rule depvar
          in problem_add rule p)"

definition conflict_applies :: "pkg_conflict_type \<Rightarrow> pkg \<Rightarrow> pkg \<Rightarrow> bool" where
  \<comment> \<open>the pairs that the loop of \<open>pkg_solve_add_conflict_rule\<close> does not skip\<close>
  "conflict_applies t pkg cur =
     (if t = PKG_CONFLICT_REMOTE_LOCAL then
        (if is_installed pkg then \<not> is_installed cur else is_installed cur)
      else if t = PKG_CONFLICT_REMOTE_REMOTE then \<not> is_installed pkg \<and> \<not> is_installed cur
      else True)"

definition exclude :: "string \<Rightarrow> nat \<Rightarrow> nat \<Rightarrow> pkg_solve_problem \<Rightarrow> pkg_solve_problem" where
  \<comment> \<open>the rule \<open>(!A | !B)\<close>\<close>
  "exclude reason var curvar p =
     (let rule = rule_add (pkg_solve_rule_new reason) var (-1);
          rule = rule_add rule curvar (-1)
      in problem_add rule p)"

definition conflict_step ::
  "pkg_jobs_universe \<Rightarrow> pkg \<Rightarrow> nat \<Rightarrow> pkg_conflict_type \<Rightarrow> pkg_solve_problem \<Rightarrow> nat \<Rightarrow> pkg_solve_problem" where
  "conflict_step u pkg var t p curvar =
     (if \<not> conflict_applies t pkg (u_pkg u (v_unit (p_vars p ! curvar))) then p
      else exclude ''explicit conflict'' var curvar p)"

definition pkg_solve_add_conflict_rule ::
  "pkg_jobs_universe \<Rightarrow> pkg \<Rightarrow> nat \<Rightarrow> pkg_solve_problem \<Rightarrow> pkg_conflict \<Rightarrow> pkg_solve_problem" where
  "pkg_solve_add_conflict_rule u pkg var p conflict =
     (case hash_find (conf_uniqueid conflict) (p_by_uid p) of
        None \<Rightarrow> p
      | Some confvar \<Rightarrow> foldl (conflict_step u pkg var (conf_type conflict)) p confvar)"

definition pkg_solve_add_require_rule ::
  "pkg_jobs_universe \<Rightarrow> nat \<Rightarrow> pkg_solve_problem \<Rightarrow> string \<Rightarrow> pkg_solve_problem" where
  "pkg_solve_add_require_rule u var p shlib =
     (case hash_find shlib (u_provides u) of
        None \<Rightarrow> p
      | Some prhead \<Rightarrow>
          let rule = rule_add (pkg_solve_rule_new ''require'') var (-1);
              (rule, cnt) = foldl (pkg_solve_handle_provide u p) (rule, 1) prhead
          in if cnt > 1 then problem_add rule p else p)"

definition pkg_solve_add_unary_rule :: "nat \<Rightarrow> int \<Rightarrow> pkg_solve_problem \<Rightarrow> pkg_solve_problem" where
  "pkg_solve_add_unary_rule var inverse' p =
     p\<lparr>p_sat := (p_sat p)\<lparr>ps_assumed := ps_assumed (p_sat p) @ [v_order (p_vars p ! var) * inverse']\<rparr>,
       p_vars := (p_vars p)[var := (p_vars p ! var)\<lparr>v_top_level := True, v_to_install := inverse' > 0\<rparr>],
       p_rules_count := p_rules_count p + 1\<rparr>"

definition pkg_solve_add_chain_rule :: "nat \<Rightarrow> nat list \<Rightarrow> pkg_solve_problem \<Rightarrow> pkg_solve_problem" where
  \<comment> \<open>\<open>rest\<close> is the chain that starts at \<open>var->next\<close>\<close>
  "pkg_solve_add_chain_rule var rest p =
     foldl (\<lambda>p curvar. exclude ''upgrade chain'' var curvar p) p rest"

text \<open>
  The body of the loop over a chain of variables: the rules of the package of \<open>cur_var\<close>, the
  requests for it, and the rule of the chain; \<open>chain_added\<close> is the flag of the loop.
\<close>

definition package_rules :: "pkg_jobs_universe \<Rightarrow> nat \<Rightarrow> pkg_solve_problem \<Rightarrow> pkg_solve_problem" where
  "package_rules u cur_var p =
     (let pkg = u_pkg u (v_unit (p_vars p ! cur_var));
          p = foldl (pkg_solve_add_depend_rule cur_var) p (pkg_deps pkg);
          p = foldl (pkg_solve_add_conflict_rule u pkg cur_var) p (pkg_conflicts pkg)
      in if \<not> is_installed pkg
         then foldl (pkg_solve_add_require_rule u cur_var) p (pkg_shlibs_required pkg) else p)"

definition process_requests :: "pkg_jobs \<Rightarrow> nat \<Rightarrow> pkg_solve_problem \<Rightarrow> pkg_solve_problem" where
  "process_requests j cur_var p =
     (let unit = v_unit (p_vars p ! cur_var);
          p = (if hash_find unit (j_request_add j) \<noteq> None then pkg_solve_add_unary_rule cur_var 1 p else p)
      in if hash_find unit (j_request_delete j) \<noteq> None then pkg_solve_add_unary_rule cur_var (-1) p else p)"

definition process_variable ::
  "pkg_jobs \<Rightarrow> nat \<Rightarrow> nat list \<Rightarrow> pkg_solve_problem \<Rightarrow> bool \<Rightarrow> pkg_solve_problem \<times> bool" where
  "process_variable j cur_var rest p chain_added =
     (let p = process_requests j cur_var (package_rules (j_universe j) cur_var p)
      in if \<not> chain_added \<and> rest \<noteq> [] then (pkg_solve_add_chain_rule cur_var rest p, True)
         else (p, chain_added))"

fun process_chain :: "pkg_jobs \<Rightarrow> nat list \<Rightarrow> pkg_solve_problem \<Rightarrow> bool \<Rightarrow> pkg_solve_problem" where
  "process_chain j [] p chain_added = p"
| "process_chain j (cur_var # rest) p chain_added =
     (let (p, chain_added) = process_variable j cur_var rest p chain_added
      in process_chain j rest p chain_added)"

definition pkg_solve_process_universe_variable ::
  "pkg_jobs \<Rightarrow> nat list \<Rightarrow> pkg_solve_problem \<Rightarrow> pkg_solve_problem" where
  "pkg_solve_process_universe_variable j var p = process_chain j var p False"

section \<open>From jobs to clauses\<close>

text \<open>
  One chain of items gives one chain of variables; \<open>first\<close> is \<open>tvar\<close>, the uid of its first
  variable. \<open>None\<close> is the failed assertion that the array has room.
\<close>

fun add_variables ::
  "pkg_jobs_universe \<Rightarrow> item_id list \<Rightarrow> string option \<Rightarrow> pkg_solve_problem \<times> nat \<Rightarrow>
     (pkg_solve_problem \<times> nat) option" where
  "add_variables u [] tvar pn = Some pn"
| "add_variables u (ucur # rest) tvar (p, n) =
     (if \<not> n < p_nvars p then None
      else let var = pkg_solve_variable_set u ucur (p_vars p ! n);
               (tvar', by_uid) = (case tvar of
                   None \<Rightarrow> (Some (v_uid var), hash_add (v_uid var) [n] (p_by_uid p))
                 | Some uid \<Rightarrow> (Some uid, hash_upd uid (\<lambda>vs. vs @ [n]) (p_by_uid p)));
               p' = p\<lparr>p_vars := (p_vars p)[n := var\<lparr>v_order := int n + 1\<rparr>], p_by_uid := by_uid\<rparr>
           in add_variables u rest tvar' (p', n + 1))"

definition pkg_solve_add_variable ::
  "pkg_jobs_universe \<Rightarrow> item_id list \<Rightarrow> pkg_solve_problem \<times> nat \<Rightarrow> (pkg_solve_problem \<times> nat) option" where
  "pkg_solve_add_variable u un pn = add_variables u un None pn"

definition picosat_init :: picosat where
  "picosat_init = \<lparr>ps_clauses = [], ps_assumed = [], ps_phases = [], ps_important = []\<rparr>"

definition problem_new :: "nat \<Rightarrow> pkg_solve_problem" where
  "problem_new nitems = \<lparr>p_rules_count = 0, p_rules = [], p_by_uid = [],
     p_vars = replicate nitems blank_variable, p_sat = picosat_init, p_nvars = nitems\<rparr>"

fun add_all_variables ::
  "pkg_jobs_universe \<Rightarrow> (string \<times> item_id list) list \<Rightarrow> pkg_solve_problem \<times> nat \<Rightarrow>
     (pkg_solve_problem \<times> nat) option" where
  "add_all_variables u [] pn = Some pn"
| "add_all_variables u ((uid, un) # rest) pn =
     (case pkg_solve_add_variable u un pn of
        None \<Rightarrow> None | Some pn' \<Rightarrow> add_all_variables u rest pn')"

fun process_all_variables ::
  "pkg_jobs \<Rightarrow> (string \<times> item_id list) list \<Rightarrow> pkg_solve_problem \<Rightarrow> pkg_solve_problem option" where
  "process_all_variables j [] p = Some p"
| "process_all_variables j ((uid, un) # rest) p =
     (case hash_find (pkg_uniqueid (u_pkg (j_universe j) (hd un))) (p_by_uid p) of
        None \<Rightarrow> None
      | Some var \<Rightarrow> process_all_variables j rest (pkg_solve_process_universe_variable j var p))"

definition pkg_solve_jobs_to_sat :: "pkg_jobs \<Rightarrow> pkg_solve_problem option" where
  "pkg_solve_jobs_to_sat j =
     (let u = j_universe j
      in case add_all_variables u (u_items u) (problem_new (u_nitems u), 0) of
           None \<Rightarrow> None
         | Some (p, _) \<Rightarrow> process_all_variables j (u_items u) p)"

section \<open>Solving\<close>

definition clause_of :: "pkg_solve_problem \<Rightarrow> pkg_solve_rule \<Rightarrow> int list" where
  "clause_of p rule = map (\<lambda>it. v_order (p_vars p ! si_var it) * si_inverse it) (r_items rule)"

definition add_clauses :: "pkg_solve_problem \<Rightarrow> picosat \<Rightarrow> picosat" where
  "add_clauses p s = foldl (\<lambda>s rule. s\<lparr>ps_clauses := ps_clauses s @ [clause_of p rule]\<rparr>) s (p_rules p)"

definition initial_guess :: "pkg_jobs_universe \<Rightarrow> pkg_solve_problem \<Rightarrow> picosat \<Rightarrow> picosat" where
  "initial_guess u p s =
     foldl (\<lambda>s i.
         let var = p_vars p ! i; lit = int i + 1; inst = is_installed (u_pkg u (v_unit var))
         in if v_top_level var then s
            else s\<lparr>ps_phases := ps_phases s @ [(lit, if inst then 1 else -1)],
                   ps_important := ps_important s @ [(lit, inst)]\<rparr>) s [0..<p_nvars p]"

definition yesno_text :: "pkg_solve_variable \<Rightarrow> string" where
  "yesno_text var = ''cannot '' @ (if v_to_install var then ''install'' else ''remove'')
     @ '' package '' @ v_uid var @ '', remove it from request? [Y/n]: ''"

text \<open>
  The loop over the failed assumptions, a zero terminated array whose first element is read before
  the test. \<open>None\<close> is an access outside the array \<open>variables\<close>.
\<close>

fun drop_failed ::
  "(string \<Rightarrow> bool) \<Rightarrow> pkg_solve_problem \<Rightarrow> int list \<Rightarrow> pkg_jobs \<Rightarrow> (epkg \<times> pkg_jobs) option" where
  "drop_failed yesno p [] j = None"
| "drop_failed yesno p (f # failed) j =
     (if \<not> (1 \<le> f \<and> f \<le> int (p_nvars p)) then None
      else let var = p_vars p ! nat (f - 1)
           in if \<not> yesno (yesno_text var) then Some (EPKG_FATAL, j)
              else if hash_find (v_unit var) (if v_to_install var then j_request_add j else j_request_delete j) = None
                   then Some (EPKG_FATAL, j)
              else let j' = (if v_to_install var
                             then j\<lparr>j_request_add := hash_del (v_unit var) (j_request_add j)\<rparr>
                             else j\<lparr>j_request_delete := hash_del (v_unit var) (j_request_delete j)\<rparr>)
                   in if failed = [] then Some (EPKG_AGAIN, j') else drop_failed yesno p failed j')"

definition assign_vars :: "(int \<Rightarrow> int) \<Rightarrow> pkg_solve_problem \<Rightarrow> pkg_solve_problem" where
  "assign_vars deref p =
     p\<lparr>p_vars := map (\<lambda>i. (p_vars p ! i)\<lparr>v_to_install := deref (int i + 1) > 0\<rparr>) [0..<p_nvars p]\<rparr>"

definition pkg_solve_sat_problem ::
  "(picosat \<Rightarrow> picosat_result) \<Rightarrow> (string \<Rightarrow> bool) \<Rightarrow> pkg_jobs \<Rightarrow> pkg_solve_problem \<Rightarrow>
     (epkg \<times> pkg_solve_problem \<times> pkg_jobs) option" where
  "pkg_solve_sat_problem picosat_sat yesno j p =
     (let s = initial_guess (j_universe j) p (add_clauses p (p_sat p));
          p = p\<lparr>p_sat := s\<rparr>
      in case picosat_sat s of
           PICOSAT_UNSATISFIABLE failed \<Rightarrow>
             (case drop_failed yesno p failed j of None \<Rightarrow> None | Some (rc, j') \<Rightarrow> Some (rc, p, j'))
         | PICOSAT_SATISFIABLE deref \<Rightarrow> Some (EPKG_OK, assign_vars deref p, j))"

section \<open>From the assignment to jobs\<close>

definition is_add :: "pkg_jobs_universe \<Rightarrow> pkg_solve_variable \<Rightarrow> bool" where
  "is_add u v \<longleftrightarrow> v_to_install v \<and> \<not> is_installed (u_pkg u (v_unit v))"

definition is_del :: "pkg_jobs_universe \<Rightarrow> pkg_solve_variable \<Rightarrow> bool" where
  "is_del u v \<longleftrightarrow> \<not> v_to_install v \<and> is_installed (u_pkg u (v_unit v))"

text \<open>The first loop of \<open>pkg_solve_insert_res_job\<close>: \<open>(add_var, seen_add, del_var, seen_del)\<close>.\<close>

definition scan_chain ::
  "pkg_jobs_universe \<Rightarrow> pkg_solve_problem \<Rightarrow> nat list \<Rightarrow> nat option \<times> int \<times> nat option \<times> int" where
  "scan_chain u p var = foldl (\<lambda>(add_var, seen_add, del_var, seen_del) cur.
       if is_add u (p_vars p ! cur) then (Some cur, seen_add + 1, del_var, seen_del)
       else if is_del u (p_vars p ! cur) then (add_var, seen_add, Some cur, seen_del + 1)
       else (add_var, seen_add, del_var, seen_del)) (None, 0, None, 0) var"

definition solved_new :: "item_id \<Rightarrow> item_id option \<Rightarrow> pkg_solved_t \<Rightarrow> pkg_solved" where
  "solved_new i0 i1 t = \<lparr>s_item0 = i0, s_item1 = i1, s_type = t, s_already_deleted = False\<rparr>"

definition jobs_append :: "pkg_solved \<Rightarrow> pkg_jobs \<Rightarrow> pkg_jobs" where
  "jobs_append res j = j\<lparr>j_jobs := j_jobs j @ [res], j_count := j_count j + 1\<rparr>"

definition pkg_solve_insert_res_job :: "pkg_solve_problem \<Rightarrow> nat list \<Rightarrow> pkg_jobs \<Rightarrow> pkg_jobs" where
  "pkg_solve_insert_res_job p var j =
     (let u = j_universe j;
          unit = (\<lambda>v. v_unit (p_vars p ! v));
          (add_var, seen_add, del_var, seen_del) = scan_chain u p var
      in if seen_add > 1 then j
         else if seen_add \<noteq> 0 \<or> seen_del \<noteq> 0 then
           (let j = (if seen_add > 0 then
                       (if seen_del = 0 then
                          jobs_append (solved_new (unit (the add_var)) None
                            (if j_type j = PKG_JOBS_FETCH then PKG_SOLVED_FETCH else PKG_SOLVED_INSTALL)) j
                        else jobs_append (solved_new (unit (the add_var)) (Some (unit (the del_var)))
                               PKG_SOLVED_UPGRADE) j)
                     else j)
            in foldl (\<lambda>j cur.
                   if is_del u (p_vars p ! cur) then
                     (if seen_add > 0 \<and> Some cur = del_var then j
                      else jobs_append (solved_new (unit cur) None PKG_SOLVED_DELETE) j)
                   else j) j var)
         else j)"

definition pkg_solve_sat_to_jobs :: "pkg_solve_problem \<Rightarrow> pkg_jobs \<Rightarrow> pkg_jobs" where
  "pkg_solve_sat_to_jobs p j =
     foldl (\<lambda>j (uid, var). pkg_solve_insert_res_job p var j) j (p_by_uid p)"

section \<open>The meaning of the rules\<close>

text \<open>
  A set of items \<open>S\<close> stands for the packages that are installed afterwards. \<open>units\<close> gives
  the item of a variable.
\<close>

definition units :: "pkg_solve_problem \<Rightarrow> item_id list" where
  "units p = map v_unit (p_vars p)"

definition item_holds :: "item_id list \<Rightarrow> item_id set \<Rightarrow> pkg_solve_item \<Rightarrow> bool" where
  "item_holds us S it \<longleftrightarrow> (if si_inverse it > 0 then us ! si_var it \<in> S else us ! si_var it \<notin> S)"

definition rule_holds :: "item_id list \<Rightarrow> item_id set \<Rightarrow> pkg_solve_rule \<Rightarrow> bool" where
  "rule_holds us S r \<longleftrightarrow> (\<exists>it \<in> set (r_items r). item_holds us S it)"

definition rules_hold :: "item_id set \<Rightarrow> pkg_solve_problem \<Rightarrow> bool" where
  "rules_hold S p \<longleftrightarrow> (\<forall>r \<in> set (p_rules p). rule_holds (units p) S r)"

text \<open>What the rules never change: the items of the variables, their order and their chains.\<close>

definition same_vars :: "pkg_solve_problem \<Rightarrow> pkg_solve_problem \<Rightarrow> bool" where
  "same_vars p q \<longleftrightarrow> p_by_uid q = p_by_uid p \<and> units q = units p
     \<and> map v_order (p_vars q) = map v_order (p_vars p) \<and> p_nvars q = p_nvars p \<and> map v_uid (p_vars q) = map v_uid (p_vars p)"

lemma same_vars_refl [simp]: "same_vars p p"
  by (simp add: same_vars_def)

lemma same_vars_trans [trans]: "same_vars p q \<Longrightarrow> same_vars q r \<Longrightarrow> same_vars p r"
  by (simp add: same_vars_def)

lemma rule_holds_new [simp]: "\<not> rule_holds us S (pkg_solve_rule_new reason)"
  by (simp add: rule_holds_def pkg_solve_rule_new_def)

lemma rule_holds_add [simp]:
  "rule_holds us S (rule_add r v s) \<longleftrightarrow> (if s > 0 then us ! v \<in> S else us ! v \<notin> S) \<or> rule_holds us S r"
  by (simp add: rule_holds_def rule_add_def RULE_ITEM_PREPEND_def pkg_solve_item_new_def item_holds_def)

lemma rule_holds_foldl_add:
  "rule_holds us S (foldl (\<lambda>r v. rule_add r v 1) r vs) \<longleftrightarrow> rule_holds us S r \<or> (\<exists>v \<in> set vs. us ! v \<in> S)"
  by (induction vs arbitrary: r) auto

lemma units_problem_add [simp]: "units (problem_add r p) = units p"
  by (simp add: units_def problem_add_def)

lemma rules_hold_add [simp]: "rules_hold S (problem_add r p) \<longleftrightarrow> rule_holds (units p) S r \<and> rules_hold S p"
  by (auto simp: rules_hold_def units_problem_add) (auto simp: problem_add_def)

lemma same_vars_problem_add [simp]: "same_vars p (problem_add r q) \<longleftrightarrow> same_vars p q"
  by (simp add: same_vars_def) (simp add: problem_add_def)

text \<open>Folding an operation that adds one constraint per element adds them all.\<close>

lemma foldl_constraints:
  assumes "\<And>q x. x \<in> set xs \<Longrightarrow> same_vars p q \<Longrightarrow>
      same_vars q (f q x) \<and> (rules_hold S (f q x) \<longleftrightarrow> rules_hold S q \<and> C x)"
    and "same_vars p q"
  shows "same_vars q (foldl f q xs)
    \<and> (rules_hold S (foldl f q xs) \<longleftrightarrow> rules_hold S q \<and> (\<forall>x \<in> set xs. C x))"
  using assms
proof (induction xs arbitrary: q)
  case (Cons x xs)
  have s: "same_vars q (f q x)" and c: "rules_hold S (f q x) \<longleftrightarrow> rules_hold S q \<and> C x"
    using Cons.prems(1) [of x q] Cons.prems(2) by auto
  have p: "same_vars p (f q x)" using Cons.prems(2) s by (rule same_vars_trans)
  from Cons.IH [OF Cons.prems(1) this] s c show ?case by (auto intro: same_vars_trans)
qed simp

text \<open>The constraint of each kind of rule.\<close>

definition var_chain :: "pkg_solve_problem \<Rightarrow> string \<Rightarrow> nat list" where
  "var_chain p uid = (case hash_find uid (p_by_uid p) of None \<Rightarrow> [] | Some vs \<Rightarrow> vs)"

definition depend_ok :: "pkg_solve_problem \<Rightarrow> item_id set \<Rightarrow> nat \<Rightarrow> pkg_dep \<Rightarrow> bool" where
  "depend_ok p S v d \<longleftrightarrow> (units p ! v \<in> S \<longrightarrow> hash_find (dep_uid d) (p_by_uid p) \<noteq> None \<longrightarrow>
     (\<exists>w \<in> set (var_chain p (dep_uid d)). units p ! w \<in> S))"

lemma same_vars_units: "same_vars p q \<Longrightarrow> units q = units p"
  and same_vars_by_uid: "same_vars p q \<Longrightarrow> p_by_uid q = p_by_uid p"
  by (simp_all add: same_vars_def)

lemma add_depend_rule:
  assumes "same_vars p q"
  shows "same_vars q (pkg_solve_add_depend_rule v q d)
    \<and> (rules_hold S (pkg_solve_add_depend_rule v q d) \<longleftrightarrow> rules_hold S q \<and> depend_ok p S v d)"
  using assms
  by (auto simp: pkg_solve_add_depend_rule_def depend_ok_def var_chain_def Let_def rule_holds_foldl_add
      same_vars_units same_vars_by_uid split: option.splits)

definition conflict_ok ::
  "pkg_jobs_universe \<Rightarrow> pkg_solve_problem \<Rightarrow> item_id set \<Rightarrow> pkg \<Rightarrow> nat \<Rightarrow> pkg_conflict \<Rightarrow> bool" where
  "conflict_ok u p S pkg v c \<longleftrightarrow> (units p ! v \<in> S \<longrightarrow>
     (\<forall>w \<in> set (var_chain p (conf_uniqueid c)).
        conflict_applies (conf_type c) pkg (u_pkg u (units p ! w)) \<longrightarrow> units p ! w \<notin> S))"

definition vars_ok :: "pkg_solve_problem \<Rightarrow> bool" where
  "vars_ok p \<longleftrightarrow> length (p_vars p) = p_nvars p
     \<and> (\<forall>(uid, vs) \<in> set (p_by_uid p). \<forall>v \<in> set vs. v < p_nvars p)"

lemma same_vars_length: "same_vars p q \<Longrightarrow> length (p_vars q) = length (p_vars p)"
  unfolding same_vars_def by (metis length_map)

lemma unit_nth: "v < length (p_vars p) \<Longrightarrow> v_unit (p_vars p ! v) = units p ! v"
  by (simp add: units_def)

lemma var_chain_bound: "vars_ok p \<Longrightarrow> v \<in> set (var_chain p uid) \<Longrightarrow> v < length (p_vars p)"
  by (cases "hash_find uid (p_by_uid p)") (auto simp: vars_ok_def var_chain_def dest!: uh.find_SomeD)

lemma exclude_rule [simp]:
  "rules_hold S (exclude reason v w q) \<longleftrightarrow> rules_hold S q \<and> (units q ! v \<in> S \<longrightarrow> units q ! w \<notin> S)"
  "same_vars p (exclude reason v w q) \<longleftrightarrow> same_vars p q"
  by (auto simp: exclude_def Let_def)

lemma add_conflict_rule:
  assumes p: "vars_ok p" and q: "same_vars p q"
  shows "same_vars q (pkg_solve_add_conflict_rule u pkg v q c)
    \<and> (rules_hold S (pkg_solve_add_conflict_rule u pkg v q c) \<longleftrightarrow> rules_hold S q \<and> conflict_ok u p S pkg v c)"
proof -
  have "same_vars q (foldl (conflict_step u pkg v (conf_type c)) q (var_chain p (conf_uniqueid c)))
    \<and> (rules_hold S (foldl (conflict_step u pkg v (conf_type c)) q (var_chain p (conf_uniqueid c))) \<longleftrightarrow> rules_hold S q
      \<and> (\<forall>w \<in> set (var_chain p (conf_uniqueid c)).
           conflict_applies (conf_type c) pkg (u_pkg u (units p ! w)) \<longrightarrow> units p ! v \<in> S \<longrightarrow> units p ! w \<notin> S))"
    using var_chain_bound [OF p, of _ "conf_uniqueid c"] q
    by (intro foldl_constraints)
      (auto simp: conflict_step_def unit_nth same_vars_length same_vars_units)
  moreover have "pkg_solve_add_conflict_rule u pkg v q c =
      foldl (conflict_step u pkg v (conf_type c)) q (var_chain p (conf_uniqueid c))"
    by (simp add: pkg_solve_add_conflict_rule_def var_chain_def same_vars_by_uid [OF q] split: option.split)
  ultimately show ?thesis by (auto simp: conflict_ok_def)
qed

text \<open>A required library is provided by the chains of its providers.\<close>

definition provider_vars :: "pkg_jobs_universe \<Rightarrow> pkg_solve_problem \<Rightarrow> string \<Rightarrow> nat list" where
  "provider_vars u p lib = (case hash_find lib (u_provides u) of
      None \<Rightarrow> []
    | Some prs \<Rightarrow> concat (map (\<lambda>i. var_chain p (pkg_uniqueid (u_pkg u (hd (u_chain_of u i))))) prs))"

definition require_ok :: "pkg_jobs_universe \<Rightarrow> pkg_solve_problem \<Rightarrow> item_id set \<Rightarrow> nat \<Rightarrow> string \<Rightarrow> bool" where
  "require_ok u p S v lib \<longleftrightarrow> (units p ! v \<in> S \<longrightarrow> provider_vars u p lib \<noteq> [] \<longrightarrow>
     (\<exists>w \<in> set (provider_vars u p lib). units p ! w \<in> S))"

lemma foldl_pair_add:
  "foldl (\<lambda>(rule, cnt) curvar. (rule_add rule curvar 1, cnt + 1)) (r, n) vs =
     (foldl (\<lambda>r v. rule_add r v 1) r vs, n + int (length vs))"
  by (induction vs arbitrary: r n) auto

lemma handle_provides:
  "foldl (pkg_solve_handle_provide u p) (r, n) prs =
     (let vs = concat (map (\<lambda>i. var_chain p (pkg_uniqueid (u_pkg u (hd (u_chain_of u i))))) prs)
      in (foldl (\<lambda>r v. rule_add r v 1) r vs, n + int (length vs)))"
  by (induction prs arbitrary: r n)
    (simp_all add: pkg_solve_handle_provide_def var_chain_def [symmetric] foldl_pair_add Let_def add.assoc)

lemma add_require_rule:
  assumes q: "same_vars p q"
  shows "same_vars q (pkg_solve_add_require_rule u v q lib)
    \<and> (rules_hold S (pkg_solve_add_require_rule u v q lib) \<longleftrightarrow> rules_hold S q \<and> require_ok u p S v lib)"
proof (cases "hash_find lib (u_provides u)")
  case None
  then show ?thesis by (simp add: pkg_solve_add_require_rule_def require_ok_def provider_vars_def)
next
  case (Some prs)
  have c: "var_chain q = var_chain p" by (rule ext) (simp add: var_chain_def same_vars_by_uid [OF q])
  let ?vs = "provider_vars u p lib"
  have vs: "concat (map (\<lambda>i. var_chain p (pkg_uniqueid (u_pkg u (hd (u_chain_of u i))))) prs) = ?vs"
    by (simp add: provider_vars_def Some)
  have "pkg_solve_add_require_rule u v q lib =
      (if ?vs \<noteq> [] then problem_add (foldl (\<lambda>r v. rule_add r v 1)
         (rule_add (pkg_solve_rule_new ''require'') v (-1)) ?vs) q else q)"
    by (simp add: pkg_solve_add_require_rule_def Some handle_provides c vs Let_def)
  then show ?thesis
    by (auto simp: require_ok_def rule_holds_foldl_add same_vars_units [OF q])
qed

lemma add_unary_rule:
  assumes "v < length (p_vars q)"
  shows "same_vars q (pkg_solve_add_unary_rule v s q)"
    and "rules_hold S (pkg_solve_add_unary_rule v s q) \<longleftrightarrow> rules_hold S q"
    and "ps_assumed (p_sat (pkg_solve_add_unary_rule v s q)) = ps_assumed (p_sat q) @ [v_order (p_vars q ! v) * s]"
proof -
  have u: "units (pkg_solve_add_unary_rule v s q) = units q"
    using assms by (simp add: units_def pkg_solve_add_unary_rule_def list_eq_iff_nth_eq nth_list_update)
  have "map v_order (p_vars (pkg_solve_add_unary_rule v s q)) = map v_order (p_vars q)"
    using assms by (simp add: pkg_solve_add_unary_rule_def list_eq_iff_nth_eq nth_list_update)
  moreover have "map v_uid (p_vars (pkg_solve_add_unary_rule v s q)) = map v_uid (p_vars q)"
    using assms by (simp add: pkg_solve_add_unary_rule_def list_eq_iff_nth_eq nth_list_update)
  ultimately show "same_vars q (pkg_solve_add_unary_rule v s q)" using u
    by (simp add: same_vars_def) (simp add: pkg_solve_add_unary_rule_def)
  show "rules_hold S (pkg_solve_add_unary_rule v s q) \<longleftrightarrow> rules_hold S q"
    by (simp add: rules_hold_def u) (simp add: pkg_solve_add_unary_rule_def)
qed (simp add: pkg_solve_add_unary_rule_def)

lemma add_chain_rule:
  "same_vars p q \<Longrightarrow> same_vars q (pkg_solve_add_chain_rule v rest q)
    \<and> (rules_hold S (pkg_solve_add_chain_rule v rest q) \<longleftrightarrow> rules_hold S q
       \<and> (\<forall>w \<in> set rest. units p ! v \<in> S \<longrightarrow> units p ! w \<notin> S))"
  unfolding pkg_solve_add_chain_rule_def
  by (rule foldl_constraints) (auto simp: same_vars_units)

text \<open>The SAT object changes only with the requests.\<close>

lemma p_sat_foldl: "(\<And>q x. p_sat (f q x) = p_sat q) \<Longrightarrow> p_sat (foldl f q xs) = p_sat q"
  by (induction xs arbitrary: q) simp_all

lemma p_sat_problem_add [simp]: "p_sat (problem_add r q) = p_sat q"
  by (simp add: problem_add_def)

lemma p_sat_rules [simp]:
  "p_sat (pkg_solve_add_depend_rule v q d) = p_sat q"
  "p_sat (pkg_solve_add_conflict_rule u pkg v q c) = p_sat q"
  "p_sat (pkg_solve_add_require_rule u v q lib) = p_sat q"
  "p_sat (pkg_solve_add_chain_rule v rest q) = p_sat q"
  by (auto simp: pkg_solve_add_depend_rule_def pkg_solve_add_conflict_rule_def exclude_def conflict_step_def
      pkg_solve_add_require_rule_def pkg_solve_add_chain_rule_def Let_def p_sat_foldl split: option.split prod.split)

definition package_ok :: "pkg_jobs_universe \<Rightarrow> pkg_solve_problem \<Rightarrow> item_id set \<Rightarrow> nat \<Rightarrow> bool" where
  "package_ok u p S v \<longleftrightarrow>
     (let pkg = u_pkg u (units p ! v)
      in (\<forall>d \<in> set (pkg_deps pkg). depend_ok p S v d)
         \<and> (\<forall>c \<in> set (pkg_conflicts pkg). conflict_ok u p S pkg v c)
         \<and> (\<not> is_installed pkg \<longrightarrow> (\<forall>l \<in> set (pkg_shlibs_required pkg). require_ok u p S v l)))"

definition request_lits :: "pkg_jobs \<Rightarrow> pkg_solve_problem \<Rightarrow> nat \<Rightarrow> int list" where
  "request_lits j p v =
     (if hash_find (units p ! v) (j_request_add j) \<noteq> None then [v_order (p_vars p ! v)] else [])
     @ (if hash_find (units p ! v) (j_request_delete j) \<noteq> None then [- v_order (p_vars p ! v)] else [])"

lemma same_vars_order:
  "same_vars p q \<Longrightarrow> v < length (p_vars p) \<Longrightarrow> v_order (p_vars q ! v) = v_order (p_vars p ! v)"
  unfolding same_vars_def by (metis length_map nth_map)

lemma process_requests:
  assumes q: "same_vars p q" and v: "v < length (p_vars p)"
  shows "same_vars q (process_requests j v q)"
    and "rules_hold S (process_requests j v q) \<longleftrightarrow> rules_hold S q"
    and "ps_assumed (p_sat (process_requests j v q)) = ps_assumed (p_sat q) @ request_lits j p v"
    and "ps_clauses (p_sat (process_requests j v q)) = ps_clauses (p_sat q)"
proof -
  have vq: "v < length (p_vars q)" using v q by (simp add: same_vars_length)
  let ?r = "pkg_solve_add_unary_rule v 1 q"
  have r: "same_vars q ?r" using add_unary_rule(1) [OF vq] .
  then have vr: "v < length (p_vars ?r)" using vq by (simp add: same_vars_length)
  have o: "v_order (p_vars ?r ! v) = v_order (p_vars p ! v)" "v_order (p_vars q ! v) = v_order (p_vars p ! v)"
    using same_vars_order [OF r vq] same_vars_order [OF q v] by simp_all
  have un: "v_unit (p_vars q ! v) = units p ! v" using vq by (simp add: unit_nth same_vars_units [OF q])
  note unfolds = process_requests_def Let_def un
  show "same_vars q (process_requests j v q)"
    unfolding unfolds using r add_unary_rule(1) [OF vr] add_unary_rule(1) [OF vq] by (auto intro: same_vars_trans)
  show "rules_hold S (process_requests j v q) \<longleftrightarrow> rules_hold S q"
    unfolding unfolds using vq vr by (simp add: add_unary_rule)
  show "ps_assumed (p_sat (process_requests j v q)) = ps_assumed (p_sat q) @ request_lits j p v"
    unfolding unfolds using vq vr by (simp add: add_unary_rule o request_lits_def)
  show "ps_clauses (p_sat (process_requests j v q)) = ps_clauses (p_sat q)"
    by (simp add: process_requests_def pkg_solve_add_unary_rule_def Let_def)
qed

lemma package_rules:
  assumes p: "vars_ok p" and q: "same_vars p q" and v: "v < length (p_vars p)"
  shows "same_vars q (package_rules u v q)"
    and "rules_hold S (package_rules u v q) \<longleftrightarrow> rules_hold S q \<and> package_ok u p S v"
    and "p_sat (package_rules u v q) = p_sat q"
proof -
  let ?pkg = "u_pkg u (units p ! v)"
  have un: "v_unit (p_vars q ! v) = units p ! v"
    using v q by (simp add: unit_nth same_vars_length same_vars_units)
  let ?q1 = "foldl (pkg_solve_add_depend_rule v) q (pkg_deps ?pkg)"
  let ?q2 = "foldl (pkg_solve_add_conflict_rule u ?pkg v) ?q1 (pkg_conflicts ?pkg)"
  let ?q3 = "foldl (pkg_solve_add_require_rule u v) ?q2 (pkg_shlibs_required ?pkg)"
  have 1: "same_vars q ?q1 \<and> (rules_hold S ?q1 \<longleftrightarrow> rules_hold S q \<and> (\<forall>d \<in> set (pkg_deps ?pkg). depend_ok p S v d))"
    by (rule foldl_constraints [OF add_depend_rule q])
  then have p1: "same_vars p ?q1" using q same_vars_trans by blast
  have 2: "same_vars ?q1 ?q2 \<and> (rules_hold S ?q2 \<longleftrightarrow> rules_hold S ?q1
      \<and> (\<forall>c \<in> set (pkg_conflicts ?pkg). conflict_ok u p S ?pkg v c))"
    by (rule foldl_constraints [OF add_conflict_rule [OF p] p1])
  then have p2: "same_vars p ?q2" using p1 same_vars_trans by blast
  have 3: "same_vars ?q2 ?q3 \<and> (rules_hold S ?q3 \<longleftrightarrow> rules_hold S ?q2
      \<and> (\<forall>l \<in> set (pkg_shlibs_required ?pkg). require_ok u p S v l))"
    by (rule foldl_constraints [OF add_require_rule p2])
  have e: "package_rules u v q = (if \<not> is_installed ?pkg then ?q3 else ?q2)"
    by (simp add: package_rules_def un Let_def)
  show "same_vars q (package_rules u v q)"
    unfolding e using 1 2 3 by (auto intro: same_vars_trans)
  show "rules_hold S (package_rules u v q) \<longleftrightarrow> rules_hold S q \<and> package_ok u p S v"
    unfolding e package_ok_def Let_def using 1 2 3 by auto
  show "p_sat (package_rules u v q) = p_sat q"
    unfolding e by (simp add: p_sat_foldl)
qed

definition exclusive :: "pkg_solve_problem \<Rightarrow> item_id set \<Rightarrow> nat list \<Rightarrow> bool" where
  "exclusive p S vs \<longleftrightarrow> (case vs of [] \<Rightarrow> True | v # rest \<Rightarrow>
     units p ! v \<in> S \<longrightarrow> (\<forall>w \<in> set rest. units p ! w \<notin> S))"

definition steps_to ::
  "pkg_solve_problem \<Rightarrow> item_id set \<Rightarrow> pkg_solve_problem \<Rightarrow> bool \<Rightarrow> int list \<Rightarrow> bool" where
  \<comment> \<open>from \<open>q\<close> to \<open>r\<close>: the constraint \<open>C\<close> and the assumptions \<open>ls\<close> are added\<close>
  "steps_to q S r C ls \<longleftrightarrow> same_vars q r \<and> (rules_hold S r \<longleftrightarrow> rules_hold S q \<and> C)
     \<and> ps_assumed (p_sat r) = ps_assumed (p_sat q) @ ls
     \<and> ps_clauses (p_sat r) = ps_clauses (p_sat q)"

lemma steps_to_trans:
  "steps_to q S r C ls \<Longrightarrow> steps_to r S t D ms \<Longrightarrow> steps_to q S t (C \<and> D) (ls @ ms)"
  unfolding steps_to_def using same_vars_trans by auto

lemma process_variable:
  assumes "vars_ok p" "same_vars p q" "v < length (p_vars p)"
  shows "steps_to q S (fst (process_variable j v rest q added))
      (package_ok (j_universe j) p S v \<and> (\<not> added \<longrightarrow> exclusive p S (v # rest))) (request_lits j p v)"
    and "snd (process_variable j v rest q added) \<longleftrightarrow> added \<or> rest \<noteq> []"
proof -
  let ?a = "package_rules (j_universe j) v q"
  let ?r = "process_requests j v ?a"
  note pr = package_rules [OF assms, where u = "j_universe j"]
  have pa: "same_vars p ?a" using assms(2) pr(1) by (rule same_vars_trans)
  note rq = process_requests [OF pa assms(3), where j = j]
  have 1: "steps_to q S ?r (package_ok (j_universe j) p S v) (request_lits j p v)"
    unfolding steps_to_def using pr rq by (auto intro: same_vars_trans)
  have "same_vars p ?r" using pa rq(1) by (rule same_vars_trans)
  from add_chain_rule [OF this, of v rest S]
  have 2: "steps_to ?r S (pkg_solve_add_chain_rule v rest ?r) (exclusive p S (v # rest)) []"
    by (auto simp: steps_to_def exclusive_def)
  show "steps_to q S (fst (process_variable j v rest q added))
      (package_ok (j_universe j) p S v \<and> (\<not> added \<longrightarrow> exclusive p S (v # rest))) (request_lits j p v)"
    using 1 steps_to_trans [OF 1 2] by (auto simp: process_variable_def Let_def exclusive_def)
  show "snd (process_variable j v rest q added) \<longleftrightarrow> added \<or> rest \<noteq> []"
    by (simp add: process_variable_def Let_def)
qed

lemma process_chain:
  assumes p: "vars_ok p" and q: "same_vars p q" and vs: "set vs \<subseteq> {..<length (p_vars p)}"
  shows "steps_to q S (process_chain j vs q added)
      ((\<forall>v \<in> set vs. package_ok (j_universe j) p S v) \<and> (\<not> added \<longrightarrow> exclusive p S vs))
      (concat (map (request_lits j p) vs))"
  using q vs
proof (induction vs arbitrary: q added)
  case Nil
  then show ?case by (simp add: steps_to_def exclusive_def)
next
  case (Cons v vs)
  obtain r a where r: "process_variable j v vs q added = (r, a)" by fastforce
  have 1: "steps_to q S r (package_ok (j_universe j) p S v \<and> (\<not> added \<longrightarrow> exclusive p S (v # vs)))
      (request_lits j p v)" and a: "a \<longleftrightarrow> added \<or> vs \<noteq> []"
    using process_variable(1) [OF p Cons.prems(1), of v S j vs added]
      process_variable(2) [OF p Cons.prems(1), of v j vs added] Cons.prems(2) r by auto
  then have "same_vars p r" using Cons.prems(1) same_vars_trans by (auto simp: steps_to_def)
  then have 2: "steps_to r S (process_chain j vs r a)
      ((\<forall>v \<in> set vs. package_ok (j_universe j) p S v) \<and> (\<not> a \<longrightarrow> exclusive p S vs))
      (concat (map (request_lits j p) vs))"
    using Cons by simp
  have x: "\<not> a \<longrightarrow> exclusive p S vs" using a by (simp add: exclusive_def)
  show ?case using steps_to_trans [OF 1 2] x by (simp add: r steps_to_def) blast
qed

definition chain_ok :: "pkg_jobs \<Rightarrow> pkg_solve_problem \<Rightarrow> item_id set \<Rightarrow> item_id list \<Rightarrow> bool" where
  "chain_ok j p S un \<longleftrightarrow>
     (let vs = var_chain p (pkg_uniqueid (u_pkg (j_universe j) (hd un)))
      in (\<forall>v \<in> set vs. package_ok (j_universe j) p S v) \<and> exclusive p S vs)"

definition chain_lits :: "pkg_jobs \<Rightarrow> pkg_solve_problem \<Rightarrow> item_id list \<Rightarrow> int list" where
  "chain_lits j p un =
     concat (map (request_lits j p) (var_chain p (pkg_uniqueid (u_pkg (j_universe j) (hd un)))))"

lemma process_all_variables:
  assumes p: "vars_ok p"
    and found: "\<forall>un \<in> snd ` set items.
      hash_find (pkg_uniqueid (u_pkg (j_universe j) (hd un))) (p_by_uid p) \<noteq> None"
    and q: "same_vars p q"
  shows "\<exists>r. process_all_variables j items q = Some r \<and>
      steps_to q S r (\<forall>un \<in> snd ` set items. chain_ok j p S un) (concat (map (\<lambda>x. chain_lits j p (snd x)) items))"
  using found q
proof (induction items arbitrary: q)
  case Nil
  then show ?case by (simp add: steps_to_def)
next
  case (Cons x items)
  obtain uid un where x: "x = (uid, un)" by fastforce
  let ?uid = "pkg_uniqueid (u_pkg (j_universe j) (hd un))"
  obtain vs where vs: "hash_find ?uid (p_by_uid p) = Some vs" using Cons.prems(1) x by auto
  then have c: "var_chain p ?uid = vs" by (simp add: var_chain_def)
  let ?r = "process_chain j vs q False"
  have "set vs \<subseteq> {..<length (p_vars p)}" using var_chain_bound [OF p, of _ ?uid] c by auto
  from process_chain [OF p Cons.prems(2) this, of S j False]
  have 1: "steps_to q S ?r (chain_ok j p S un) (chain_lits j p un)"
    by (simp add: chain_ok_def chain_lits_def c)
  then have "same_vars p ?r" using Cons.prems(2) same_vars_trans by (auto simp: steps_to_def)
  with Cons.IH [OF _ this] Cons.prems(1)
  obtain r where r: "process_all_variables j items ?r = Some r" and
    2: "steps_to ?r S r (\<forall>un \<in> snd ` set items. chain_ok j p S un) (concat (map (\<lambda>x. chain_lits j p (snd x)) items))"
    by auto
  have "process_all_variables j (x # items) q = Some r"
    using r by (simp add: x vs same_vars_by_uid [OF Cons.prems(2)] pkg_solve_process_universe_variable_def)
  then show ?case using steps_to_trans [OF 1 2] by (simp add: x)
qed

section \<open>The variables of a universe\<close>

definition new_var :: "pkg_jobs_universe \<Rightarrow> item_id \<Rightarrow> nat \<Rightarrow> pkg_solve_variable" where
  "new_var u i n = (pkg_solve_variable_set u i blank_variable)\<lparr>v_order := int n + 1\<rparr>"

definition new_vars :: "pkg_jobs_universe \<Rightarrow> item_id list \<Rightarrow> pkg_solve_variable list" where
  "new_vars u xs = map (\<lambda>n. new_var u (xs ! n) n) [0..<length xs]"

text \<open>The problem when the items \<open>xs\<close> have their variables and \<open>k\<close> are still blank.\<close>

definition partial_problem ::
  "pkg_jobs_universe \<Rightarrow> nat \<Rightarrow> item_id list \<Rightarrow> nat \<Rightarrow> (string, nat list) uthash \<Rightarrow> pkg_solve_problem" where
  "partial_problem u N xs k B =
     (problem_new N)\<lparr>p_vars := new_vars u xs @ replicate k blank_variable, p_by_uid := B\<rparr>"

lemma length_new_vars [simp]: "length (new_vars u xs) = length xs"
  by (simp add: new_vars_def)

lemma new_vars_snoc: "new_vars u (xs @ [x]) = new_vars u xs @ [new_var u x (length xs)]"
  by (simp add: new_vars_def nth_append)

lemma hash_upd_last:
  "uid \<notin> fst ` set B \<Longrightarrow> hash_upd uid f (B @ [(uid, vs)]) = B @ [(uid, f vs)]"
  by (simp add: hash_upd_def, rule map_idI) force

lemma partial_step:
  assumes "length xs < N"
  shows "(p_vars (partial_problem u N xs (Suc k) B))[length xs := (pkg_solve_variable_set u x
       (p_vars (partial_problem u N xs (Suc k) B) ! length xs))\<lparr>v_order := int (length xs) + 1\<rparr>] =
     p_vars (partial_problem u N (xs @ [x]) k B)"
  by (simp add: partial_problem_def new_vars_snoc new_var_def nth_append list_update_append)

lemma partial_fields [simp]:
  "p_by_uid (partial_problem u N xs k B) = B" "p_nvars (partial_problem u N xs k B) = N"
  "(partial_problem u N xs k B)\<lparr>p_vars := p_vars (partial_problem u N ys l C), p_by_uid := D\<rparr> =
     partial_problem u N ys l D"
  by (simp_all add: partial_problem_def problem_new_def)

lemma add_variables_more:
  assumes "uid \<notin> fst ` set B"
  shows "N = length xs + length c + k \<Longrightarrow>
    add_variables u c (Some uid) (partial_problem u N xs (length c + k) (B @ [(uid, vs)]), length xs) =
      Some (partial_problem u N (xs @ c) k (B @ [(uid, vs @ [length xs..<length xs + length c])]),
        length xs + length c)"
proof (induction c arbitrary: xs vs)
  case Nil
  then show ?case by simp
next
  case (Cons x c)
  have "add_variables u (x # c) (Some uid)
      (partial_problem u N xs (length (x # c) + k) (B @ [(uid, vs)]), length xs) =
      add_variables u c (Some uid) (partial_problem u N (xs @ [x]) (length c + k)
        (B @ [(uid, vs @ [length xs])]), length (xs @ [x]))"
    using Cons.prems assms partial_step [of xs N u "length c + k" "B @ [(uid, vs)]" x]
    by (simp add: Let_def hash_upd_last)
  also have "\<dots> = Some (partial_problem u N ((xs @ [x]) @ c) k
      (B @ [(uid, (vs @ [length xs]) @ [length (xs @ [x])..<length (xs @ [x]) + length c])]),
        length (xs @ [x]) + length c)"
    using Cons.prems by (intro Cons.IH) simp
  finally show ?case using upt_conv_Cons [of "length xs" "length xs + length (x # c)"] by simp
qed

lemma add_variable:
  assumes "c \<noteq> []" and "N = length xs + length c + k" and "pkg_uniqueid (u_pkg u (hd c)) \<notin> fst ` set B"
  shows "pkg_solve_add_variable u c (partial_problem u N xs (length c + k) B, length xs) =
      Some (partial_problem u N (xs @ c) k
        (B @ [(pkg_uniqueid (u_pkg u (hd c)), [length xs..<length xs + length c])]), length xs + length c)"
proof -
  obtain x c' where c: "c = x # c'" using assms(1) by (cases c) auto
  have "pkg_solve_add_variable u c (partial_problem u N xs (length c + k) B, length xs) =
      add_variables u c' (Some (pkg_uniqueid (u_pkg u x)))
        (partial_problem u N (xs @ [x]) (length c' + k) (B @ [(pkg_uniqueid (u_pkg u x), [length xs])]), length (xs @ [x]))"
    using assms(2) partial_step [of xs N u "length c' + k" "B" x]
    by (simp add: c pkg_solve_add_variable_def Let_def hash_add_def pkg_solve_variable_set_def)
  also have "\<dots> = Some (partial_problem u N ((xs @ [x]) @ c') k (B @ [(pkg_uniqueid (u_pkg u x),
      [length xs] @ [length (xs @ [x])..<length (xs @ [x]) + length c'])]), length (xs @ [x]) + length c')"
    using assms(2,3) by (intro add_variables_more) (simp_all add: c)
  finally show ?thesis using upt_conv_Cons [of "length xs" "length xs + length c"] by (simp add: c)
qed

fun chain_table :: "pkg_jobs_universe \<Rightarrow> nat \<Rightarrow> item_id list list \<Rightarrow> (string, nat list) uthash" where
  "chain_table u n [] = []"
| "chain_table u n (c # cs) = (pkg_uniqueid (u_pkg u (hd c)), [n..<n + length c]) # chain_table u (n + length c) cs"

lemma add_all_variables:
  "\<forall>c \<in> snd ` set items. c \<noteq> [] \<Longrightarrow> N = length xs + length (concat (map snd items)) + k \<Longrightarrow>
   distinct (map fst B @ map (\<lambda>x. pkg_uniqueid (u_pkg u (hd (snd x)))) items) \<Longrightarrow>
   add_all_variables u items (partial_problem u N xs (length (concat (map snd items)) + k) B, length xs) =
     Some (partial_problem u N (xs @ concat (map snd items)) k (B @ chain_table u (length xs) (map snd items)),
       length xs + length (concat (map snd items)))"
proof (induction items arbitrary: xs B)
  case Nil
  then show ?case by simp
next
  case (Cons x items)
  obtain uid c where x: "x = (uid, c)" by fastforce
  let ?rest = "length (concat (map snd items)) + k"
  let ?B = "B @ [(pkg_uniqueid (u_pkg u (hd c)), [length xs..<length xs + length c])]"
  have 1: "pkg_solve_add_variable u c (partial_problem u N xs (length c + ?rest) B, length xs) =
      Some (partial_problem u N (xs @ c) ?rest ?B, length xs + length c)"
    using Cons.prems by (intro add_variable) (auto simp: x)
  have 2: "add_all_variables u items (partial_problem u N (xs @ c) ?rest ?B, length (xs @ c)) =
      Some (partial_problem u N ((xs @ c) @ concat (map snd items)) k
        (?B @ chain_table u (length (xs @ c)) (map snd items)), length (xs @ c) + length (concat (map snd items)))"
    using Cons.prems by (intro Cons.IH) (auto simp: x)
  show ?case using 1 2 by (simp add: x add.assoc)
qed

lemma nth_slice: "map ((!) (ys @ c @ zs)) [length ys..<length ys + length c] = c"
  by (rule nth_equalityI) (simp_all add: nth_append)

lemma chain_table_find:
  "\<forall>(uid, c) \<in> set items. c \<noteq> [] \<and> pkg_uniqueid (u_pkg u (hd c)) = uid \<Longrightarrow>
   (case hash_find k items of
      None \<Rightarrow> hash_find k (chain_table u (length ys) (map snd items)) = None
    | Some c \<Rightarrow> \<exists>vs. hash_find k (chain_table u (length ys) (map snd items)) = Some vs
        \<and> map ((!) (ys @ concat (map snd items))) vs = c)"
proof (induction items arbitrary: ys)
  case Nil
  then show ?case by (simp add: hash_find_def)
next
  case (Cons x items)
  obtain uid c where x: "x = (uid, c)" by fastforce
  have u: "pkg_uniqueid (u_pkg u (hd c)) = uid" using Cons.prems by (simp add: x)
  show ?case
  proof (cases "k = uid")
    case True
    then show ?thesis using nth_slice [of ys c "concat (map snd items)"] by (simp add: x u hash_find_def)
  next
    case False
    then show ?thesis using Cons.IH [of "ys @ c"] Cons.prems
      by (cases "map_of items k") (simp_all add: x u hash_find_def)
  qed
qed

lemma chain_table_bound:
  "(uid, vs) \<in> set (chain_table u n cs) \<Longrightarrow> v \<in> set vs \<Longrightarrow> v < n + length (concat cs)"
  by (induction u n cs rule: chain_table.induct) fastforce+

text \<open>The problem before the rules are added.\<close>

definition initial_problem :: "pkg_jobs_universe \<Rightarrow> pkg_solve_problem" where
  "initial_problem u = partial_problem u (u_nitems u) (concat (map snd (u_items u))) 0
     (chain_table u 0 (map snd (u_items u)))"

definition item_chain :: "pkg_jobs_universe \<Rightarrow> string \<Rightarrow> item_id list" where
  "item_chain u uid = (case hash_find uid (u_items u) of None \<Rightarrow> [] | Some c \<Rightarrow> c)"

lemma chains_nonempty: "universe_ok u \<Longrightarrow> (uid, c) \<in> set (u_items u) \<Longrightarrow> c \<noteq> []"
  by (force simp: universe_ok_def universe_wf_def)

lemma chains_uid:
  "universe_ok u \<Longrightarrow> (uid, c) \<in> set (u_items u) \<Longrightarrow> i \<in> set c \<Longrightarrow> pkg_uniqueid (u_pkg u i) = uid"
  by (force simp: universe_ok_def universe_uids_def)

lemma chains_head_uid: "universe_ok u \<Longrightarrow> (uid, c) \<in> set (u_items u) \<Longrightarrow> pkg_uniqueid (u_pkg u (hd c)) = uid"
  using chains_uid chains_nonempty hd_in_set by metis

lemma nitems_eq: "universe_ok u \<Longrightarrow> u_nitems u = length (concat (map snd (u_items u)))"
  by (simp add: universe_ok_def universe_linked_def)

lemma add_all_initial:
  assumes ok: "universe_ok u"
  shows "add_all_variables u (u_items u) (problem_new (u_nitems u), 0) = Some (initial_problem u, u_nitems u)"
proof -
  let ?n = "length (concat (map snd (u_items u)))"
  have e: "map (\<lambda>x. pkg_uniqueid (u_pkg u (hd (snd x)))) (u_items u) = map fst (u_items u)"
    using chains_head_uid [OF ok] by auto
  have "add_all_variables u (u_items u) (partial_problem u ?n [] (?n + 0) [], length ([] :: item_id list)) =
     Some (partial_problem u ?n ([] @ concat (map snd (u_items u))) 0 ([] @ chain_table u (length ([] :: item_id list)) (map snd (u_items u))),
       length ([] :: item_id list) + ?n)"
    using ok chains_nonempty [OF ok]
    by (intro add_all_variables) (auto simp: e universe_ok_def universe_wf_def hash_wf_def)
  moreover have "partial_problem u ?n [] (?n + 0) [] = problem_new ?n"
    by (simp add: partial_problem_def problem_new_def new_vars_def)
  ultimately show ?thesis by (simp add: nitems_eq [OF ok] initial_problem_def)
qed

lemma units_initial: "units (initial_problem u) = concat (map snd (u_items u))"
  by (simp add: units_def initial_problem_def partial_problem_def new_vars_def new_var_def
      pkg_solve_variable_set_def comp_def map_nth)

lemma initial_fields [simp]:
  "p_by_uid (initial_problem u) = chain_table u 0 (map snd (u_items u))"
  "p_nvars (initial_problem u) = u_nitems u" "p_rules (initial_problem u) = []"
  "p_sat (initial_problem u) = picosat_init"
  "length (p_vars (initial_problem u)) = length (concat (map snd (u_items u)))"
  by (simp_all add: initial_problem_def partial_problem_def problem_new_def)

lemma initial_uid: "map v_uid (p_vars (initial_problem u)) = map (\<lambda>i. pkg_uniqueid (u_pkg u i)) (concat (map snd (u_items u)))"
  by (rule nth_equalityI) (simp_all add: initial_problem_def partial_problem_def new_vars_def new_var_def pkg_solve_variable_set_def)

lemma initial_order:
  "v < length (concat (map snd (u_items u))) \<Longrightarrow> v_order (p_vars (initial_problem u) ! v) = int v + 1"
  by (simp add: initial_problem_def partial_problem_def new_vars_def new_var_def)

lemma vars_ok_initial: "universe_ok u \<Longrightarrow> vars_ok (initial_problem u)"
  unfolding vars_ok_def using chain_table_bound [of _ _ u 0 "map snd (u_items u)"]
  by (auto simp: nitems_eq)

lemma initial_chain:
  assumes ok: "universe_ok u"
  shows "map ((!) (units (initial_problem u))) (var_chain (initial_problem u) uid) = item_chain u uid"
    and "hash_find uid (p_by_uid (initial_problem u)) = None \<longleftrightarrow> hash_find uid (u_items u) = None"
proof -
  have "\<forall>(uid, c) \<in> set (u_items u). c \<noteq> [] \<and> pkg_uniqueid (u_pkg u (hd c)) = uid"
    using chains_nonempty [OF ok] chains_head_uid [OF ok] by auto
  from chain_table_find [OF this, of uid "[]"]
  show "map ((!) (units (initial_problem u))) (var_chain (initial_problem u) uid) = item_chain u uid"
    and "hash_find uid (p_by_uid (initial_problem u)) = None \<longleftrightarrow> hash_find uid (u_items u) = None"
    by (auto simp: var_chain_def item_chain_def units_initial split: option.splits)
qed

text \<open>The whole encoding, with its constraints still over variables.\<close>

lemma jobs_to_sat_steps:
  assumes ok: "universe_ok (j_universe j)"
  shows "\<exists>p. pkg_solve_jobs_to_sat j = Some p \<and> (\<forall>S. steps_to (initial_problem (j_universe j)) S p
      (\<forall>un \<in> snd ` set (u_items (j_universe j)). chain_ok j (initial_problem (j_universe j)) S un)
      (concat (map (\<lambda>x. chain_lits j (initial_problem (j_universe j)) (snd x)) (u_items (j_universe j)))))"
proof -
  let ?u = "j_universe j" and ?p = "initial_problem (j_universe j)"
  have "\<forall>un \<in> snd ` set (u_items ?u). hash_find (pkg_uniqueid (u_pkg ?u (hd un))) (p_by_uid ?p) \<noteq> None"
  proof
    fix un assume "un \<in> snd ` set (u_items ?u)"
    then obtain uid where un: "(uid, un) \<in> set (u_items ?u)" by auto
    then have "hash_find uid (u_items ?u) \<noteq> None" by (rule hash_find_mem)
    then show "hash_find (pkg_uniqueid (u_pkg ?u (hd un))) (p_by_uid ?p) \<noteq> None"
      by (simp only: chains_head_uid [OF ok un] initial_chain(2) [OF ok] not_False_eq_True)
  qed
  note all = process_all_variables [OF vars_ok_initial [OF ok] this same_vars_refl]
  have "pkg_solve_jobs_to_sat j = process_all_variables j (u_items ?u) ?p"
    by (simp add: pkg_solve_jobs_to_sat_def Let_def add_all_initial [OF ok])
  moreover obtain p where p: "process_all_variables j (u_items ?u) ?p = Some p" using all [of "{}"] by blast
  ultimately show ?thesis using all by simp
qed

section \<open>Literals\<close>

text \<open>Every item of every rule names a variable and has sign 1 or -1.\<close>

definition rule_ok :: "nat \<Rightarrow> pkg_solve_rule \<Rightarrow> bool" where
  "rule_ok n r \<longleftrightarrow> (\<forall>it \<in> set (r_items r). si_var it < n \<and> si_inverse it \<in> {1, -1})"

definition rules_ok :: "pkg_solve_problem \<Rightarrow> bool" where
  "rules_ok p \<longleftrightarrow> (\<forall>r \<in> set (p_rules p). rule_ok (p_nvars p) r)"

lemma foldl_inv: "I q \<Longrightarrow> (\<And>q x. x \<in> set xs \<Longrightarrow> I q \<Longrightarrow> I (f q x)) \<Longrightarrow> I (foldl f q xs)"
  by (induction xs arbitrary: q) simp_all

lemma rule_ok_simps [simp]:
  "rule_ok n (pkg_solve_rule_new reason)"
  "rule_ok n (rule_add r v s) \<longleftrightarrow> v < n \<and> s \<in> {1, -1} \<and> rule_ok n r"
  by (auto simp: rule_ok_def pkg_solve_rule_new_def rule_add_def RULE_ITEM_PREPEND_def pkg_solve_item_new_def)

lemma rule_ok_foldl: "rule_ok n r \<Longrightarrow> set vs \<subseteq> {..<n} \<Longrightarrow> rule_ok n (foldl (\<lambda>r v. rule_add r v 1) r vs)"
  by (rule foldl_inv) auto

lemma rules_ok_add [simp]: "rules_ok (problem_add r q) \<longleftrightarrow> rule_ok (p_nvars q) r \<and> rules_ok q"
  by (simp add: rules_ok_def problem_add_def)

text \<open>The problems an operation starts from.\<close>

definition well_ruled :: "pkg_solve_problem \<Rightarrow> bool" where
  "well_ruled q \<longleftrightarrow> vars_ok q \<and> rules_ok q"

lemma var_chain_lt: "well_ruled q \<Longrightarrow> set (var_chain q uid) \<subseteq> {..<p_nvars q}"
  using var_chain_bound [of q] by (auto simp: well_ruled_def vars_ok_def)

lemma nvars_problem_add [simp]: "p_nvars (problem_add r q) = p_nvars q"
  by (simp add: problem_add_def)

lemma well_ruled_add [simp]: "well_ruled (problem_add r q) \<longleftrightarrow> rule_ok (p_nvars q) r \<and> well_ruled q"
  by (auto simp: well_ruled_def vars_ok_def) (auto simp: problem_add_def)

lemma well_ruled_exclude [simp]:
  "v < p_nvars q \<Longrightarrow> w < p_nvars q \<Longrightarrow> well_ruled q \<Longrightarrow> well_ruled (exclude reason v w q)"
  "p_nvars (exclude reason v w q) = p_nvars q"
  by (simp_all add: exclude_def Let_def)

lemma well_ruled_depend:
  "well_ruled q \<Longrightarrow> v < p_nvars q \<Longrightarrow>
     well_ruled (pkg_solve_add_depend_rule v q d) \<and> p_nvars (pkg_solve_add_depend_rule v q d) = p_nvars q"
  using var_chain_lt [of q "dep_uid d"]
  by (auto simp: pkg_solve_add_depend_rule_def Let_def var_chain_def intro!: rule_ok_foldl split: option.split)

lemma well_ruled_conflict:
  assumes "well_ruled q" and "v < p_nvars q"
  shows "well_ruled (pkg_solve_add_conflict_rule u pkg v q c) \<and> p_nvars (pkg_solve_add_conflict_rule u pkg v q c) = p_nvars q"
proof (cases "hash_find (conf_uniqueid c) (p_by_uid q)")
  case (Some vs)
  then have "set vs \<subseteq> {..<p_nvars q}"
    using var_chain_lt [OF assms(1), of "conf_uniqueid c"] by (simp add: var_chain_def)
  then have "well_ruled (foldl (conflict_step u pkg v (conf_type c)) q vs)
      \<and> p_nvars (foldl (conflict_step u pkg v (conf_type c)) q vs) = p_nvars q"
    by (intro foldl_inv [of "\<lambda>r. well_ruled r \<and> p_nvars r = p_nvars q"])
      (use assms in \<open>auto simp: conflict_step_def\<close>)
  with Some show ?thesis by (simp add: pkg_solve_add_conflict_rule_def)
qed (use assms in \<open>simp add: pkg_solve_add_conflict_rule_def\<close>)

lemma well_ruled_require:
  assumes "well_ruled q" and "v < p_nvars q"
  shows "well_ruled (pkg_solve_add_require_rule u v q lib) \<and> p_nvars (pkg_solve_add_require_rule u v q lib) = p_nvars q"
proof (cases "hash_find lib (u_provides u)")
  case (Some prs)
  have "set (concat (map (\<lambda>i. var_chain q (pkg_uniqueid (u_pkg u (hd (u_chain_of u i))))) prs)) \<subseteq> {..<p_nvars q}"
    using var_chain_lt [OF assms(1)] by auto
  then show ?thesis using assms Some
    by (simp add: pkg_solve_add_require_rule_def handle_provides Let_def rule_ok_foldl)
qed (use assms in \<open>simp add: pkg_solve_add_require_rule_def\<close>)

lemma well_ruled_unary:
  "well_ruled q \<Longrightarrow> well_ruled (pkg_solve_add_unary_rule v s q) \<and> p_nvars (pkg_solve_add_unary_rule v s q) = p_nvars q"
  by (simp add: well_ruled_def vars_ok_def rules_ok_def pkg_solve_add_unary_rule_def)

lemma well_ruled_process_variable:
  assumes q: "well_ruled q" and v: "set (v # rest) \<subseteq> {..<p_nvars q}"
  shows "well_ruled (fst (process_variable j v rest q added))
     \<and> p_nvars (fst (process_variable j v rest q added)) = p_nvars q"
proof -
  let ?I = "\<lambda>r. well_ruled r \<and> p_nvars r = p_nvars q"
  have lt: "v < p_nvars q" using v by simp
  have 1: "?I (foldl (pkg_solve_add_depend_rule v) q ds)" for ds
    by (rule foldl_inv [of ?I]) (use q lt well_ruled_depend in auto)
  have 2: "?I (foldl (pkg_solve_add_conflict_rule u pkg v) r cs)" if "?I r" for u pkg r cs
    by (rule foldl_inv [of ?I]) (use that lt well_ruled_conflict in auto)
  have 3: "?I (foldl (pkg_solve_add_require_rule u v) r ls)" if "?I r" for u r ls
    by (rule foldl_inv [of ?I]) (use that lt well_ruled_require in auto)
  have p: "?I (package_rules (j_universe j) v q)"
    unfolding package_rules_def Let_def using 1 2 3 by (simp split: if_split)
  have r: "?I (process_requests j v r)" if "?I r" for r
    using that well_ruled_unary by (simp add: process_requests_def Let_def)
  have c: "?I (pkg_solve_add_chain_rule v rest r)" if "?I r" for r
    unfolding pkg_solve_add_chain_rule_def
    by (rule foldl_inv [of ?I]) (use that v in auto)
  show ?thesis using c [OF r [OF p]] r [OF p] by (simp add: process_variable_def Let_def)
qed

lemma well_ruled_process_chain:
  "well_ruled q \<Longrightarrow> set vs \<subseteq> {..<p_nvars q} \<Longrightarrow>
     well_ruled (process_chain j vs q added) \<and> p_nvars (process_chain j vs q added) = p_nvars q"
proof (induction j vs q added rule: process_chain.induct)
  case (2 j v rest q added)
  have "well_ruled (fst (process_variable j v rest q added))
     \<and> p_nvars (fst (process_variable j v rest q added)) = p_nvars q"
    using well_ruled_process_variable [OF 2(2), of v rest j added] 2(3) by simp
  then show ?case using 2 by (auto split: prod.splits)
qed simp

lemma well_ruled_process_all:
  "well_ruled q \<Longrightarrow> process_all_variables j items q = Some r \<Longrightarrow> well_ruled r"
proof (induction j items q rule: process_all_variables.induct)
  case (2 j uid un rest p)
  then show ?case
    using well_ruled_process_chain [of p "var_chain p (pkg_uniqueid (u_pkg (j_universe j) (hd un)))" j False]
      var_chain_lt [of p "pkg_uniqueid (u_pkg (j_universe j) (hd un))"]
    by (auto simp: pkg_solve_process_universe_variable_def var_chain_def split: option.splits)
qed simp

lemma well_ruled_initial: "universe_ok u \<Longrightarrow> well_ruled (initial_problem u)"
  by (simp add: well_ruled_def vars_ok_initial rules_ok_def)

section \<open>What a solution is\<close>

text \<open>
  The specification, over the items of the universe: \<open>S\<close> is the set of the items that are
  installed afterwards. A package needs one item of the chain of each dependency that is in the
  universe, no applicable item of the chain of a conflict, and, when it is not installed yet, one of
  the packages that provide each library it requires, if there are any; and the first item of a
  chain excludes the others.
\<close>

definition providers :: "pkg_jobs_universe \<Rightarrow> string \<Rightarrow> item_id list" where
  "providers u lib = (case hash_find lib (u_provides u) of
      None \<Rightarrow> [] | Some prs \<Rightarrow> concat (map (u_chain_of u) prs))"

definition some_in :: "item_id list \<Rightarrow> item_id set \<Rightarrow> bool" where
  "some_in c S \<longleftrightarrow> c = [] \<or> (\<exists>i \<in> set c. i \<in> S)"

definition item_ok :: "pkg_jobs_universe \<Rightarrow> item_id set \<Rightarrow> item_id \<Rightarrow> bool" where
  "item_ok u S i \<longleftrightarrow>
     (let pkg = u_pkg u i
      in (\<forall>d \<in> set (pkg_deps pkg). some_in (item_chain u (dep_uid d)) S)
         \<and> (\<forall>c \<in> set (pkg_conflicts pkg). \<forall>b \<in> set (item_chain u (conf_uniqueid c)).
              conflict_applies (conf_type c) pkg (u_pkg u b) \<longrightarrow> b \<notin> S)
         \<and> (\<not> is_installed pkg \<longrightarrow> (\<forall>l \<in> set (pkg_shlibs_required pkg). some_in (providers u l) S)))"

definition consistent :: "pkg_jobs_universe \<Rightarrow> item_id set \<Rightarrow> bool" where
  "consistent u S \<longleftrightarrow> (\<forall>c \<in> snd ` set (u_items u).
     (\<forall>i \<in> set c. i \<in> S \<longrightarrow> item_ok u S i) \<and> (hd c \<in> S \<longrightarrow> set (tl c) \<inter> S = {}))"

definition requested :: "pkg_jobs \<Rightarrow> item_id set \<Rightarrow> bool" where
  "requested j S \<longleftrightarrow> (\<forall>c \<in> snd ` set (u_items (j_universe j)). \<forall>i \<in> set c.
     (hash_find i (j_request_add j) \<noteq> None \<longrightarrow> i \<in> S)
     \<and> (hash_find i (j_request_delete j) \<noteq> None \<longrightarrow> i \<notin> S))"

lemma set_map_nth_eq: "map f vs = c \<Longrightarrow> (\<exists>v \<in> set vs. P (f v)) \<longleftrightarrow> (\<exists>i \<in> set c. P i)"
  "map f vs = c \<Longrightarrow> (\<forall>v \<in> set vs. P (f v)) \<longleftrightarrow> (\<forall>i \<in> set c. P i)"
  by auto

lemma find_chain:
  "distinct (concat cs) \<Longrightarrow> c \<in> set cs \<Longrightarrow> i \<in> set c \<Longrightarrow> find (\<lambda>c. i \<in> set c) cs = Some c"
  by (induction cs) auto

lemma chain_of_linked:
  "universe_wf u \<Longrightarrow> (uid, c) \<in> set (u_items u) \<Longrightarrow> i \<in> set c \<Longrightarrow> u_chain_of u i = c"
proof -
  assume "universe_wf u" and c: "(uid, c) \<in> set (u_items u)" and i: "i \<in> set c"
  then have "distinct (concat (map snd (u_items u)))" by (simp add: universe_wf_def)
  moreover have "c \<in> set (map snd (u_items u))" using c image_iff by fastforce
  ultimately have "find (\<lambda>c. i \<in> set c) (map snd (u_items u)) = Some c" using i by (rule find_chain)
  then show ?thesis by (simp add: u_chain_of_def)
qed

lemma all_linked:
  assumes ok: "universe_ok u" and i: "i < length (u_store u)"
  shows "\<exists>uid c. (uid, c) \<in> set (u_items u) \<and> i \<in> set c"
proof -
  let ?xs = "concat (map snd (u_items u))"
  have d: "distinct ?xs" and s: "set ?xs \<subseteq> {..<length (u_store u)}"
    and n: "length ?xs = length (u_store u)"
    using ok by (auto simp: universe_ok_def universe_wf_def universe_linked_def)
  have "card (set ?xs) = card {..<length (u_store u)}" using distinct_card [OF d] n by (simp only: card_lessThan)
  then have "set ?xs = {..<length (u_store u)}" using s card_subset_eq by blast
  with i have "i \<in> set ?xs" by simp
  then obtain x where "x \<in> set (u_items u)" "i \<in> set (snd x)" by auto
  then show ?thesis by (metis prod.collapse)
qed

lemma item_chain_of: "universe_ok u \<Longrightarrow> (uid, c) \<in> set (u_items u) \<Longrightarrow> item_chain u uid = c"
  using hash_find_wf [of "u_items u" uid c] by (simp add: item_chain_def universe_ok_def universe_wf_def)

lemma provider_chain:
  assumes ok: "universe_ok u" and i: "i < length (u_store u)"
  shows "item_chain u (pkg_uniqueid (u_pkg u (hd (u_chain_of u i)))) = u_chain_of u i"
proof -
  obtain uid c where c: "(uid, c) \<in> set (u_items u)" "i \<in> set c" using all_linked [OF ok i] by blast
  have "u_chain_of u i = c" using ok c by (simp add: universe_ok_def chain_of_linked)
  then show ?thesis using chains_head_uid [OF ok c(1)] item_chain_of [OF ok c(1)] by simp
qed

lemma provider_vars_items:
  assumes ok: "universe_ok u"
  shows "map ((!) (units (initial_problem u))) (provider_vars u (initial_problem u) lib) = providers u lib"
proof (cases "hash_find lib (u_provides u)")
  case (Some prs)
  then have "\<forall>i \<in> set prs. i < length (u_store u)"
    using ok uh.find_SomeD [OF Some] by (force simp: universe_ok_def universe_wf_def)
  then have "map ((!) (units (initial_problem u)))
      (var_chain (initial_problem u) (pkg_uniqueid (u_pkg u (hd (u_chain_of u i))))) = u_chain_of u i"
    if "i \<in> set prs" for i
    using that initial_chain(1) [OF ok] provider_chain [OF ok] by simp
  then show ?thesis
    by (simp add: provider_vars_def providers_def Some map_concat comp_def cong: map_cong)
qed (simp add: provider_vars_def providers_def)

lemma item_chain_None: "universe_ok u \<Longrightarrow> hash_find uid (u_items u) = None \<longleftrightarrow> item_chain u uid = []"
  using uh.find_SomeD [of uid "u_items u"] chains_nonempty [of u]
  by (cases "hash_find uid (u_items u)") (auto simp: item_chain_def)

lemma package_ok_item:
  assumes ok: "universe_ok u"
  shows "package_ok u (initial_problem u) S v \<longleftrightarrow>
    (units (initial_problem u) ! v \<in> S \<longrightarrow> item_ok u S (units (initial_problem u) ! v))"
proof -
  let ?p = "initial_problem u" and ?i = "units (initial_problem u) ! v"
  have d: "depend_ok ?p S v d \<longleftrightarrow> (?i \<in> S \<longrightarrow> some_in (item_chain u (dep_uid d)) S)" for d
    unfolding depend_ok_def some_in_def initial_chain(2) [OF ok] item_chain_None [OF ok]
    using set_map_nth_eq(1) [OF initial_chain(1) [OF ok, of "dep_uid d"], of "\<lambda>i. i \<in> S"] by blast
  have c: "conflict_ok u ?p S (u_pkg u ?i) v c \<longleftrightarrow> (?i \<in> S \<longrightarrow>
      (\<forall>b \<in> set (item_chain u (conf_uniqueid c)). conflict_applies (conf_type c) (u_pkg u ?i) (u_pkg u b) \<longrightarrow> b \<notin> S))" for c
    unfolding conflict_ok_def
    using set_map_nth_eq(2) [OF initial_chain(1) [OF ok, of "conf_uniqueid c"],
        of "\<lambda>b. conflict_applies (conf_type c) (u_pkg u ?i) (u_pkg u b) \<longrightarrow> b \<notin> S"] by blast
  have r: "require_ok u ?p S v l \<longleftrightarrow> (?i \<in> S \<longrightarrow> some_in (providers u l) S)" for l
    unfolding require_ok_def some_in_def
    using set_map_nth_eq(1) [OF provider_vars_items [OF ok, of l], of "\<lambda>i. i \<in> S"]
      provider_vars_items [OF ok, of l] by auto
  show ?thesis unfolding package_ok_def item_ok_def Let_def d c r by blast
qed

lemma chain_ok_items:
  assumes ok: "universe_ok (j_universe j)" and c: "(uid, c) \<in> set (u_items (j_universe j))"
  shows "chain_ok j (initial_problem (j_universe j)) S c \<longleftrightarrow>
    (\<forall>i \<in> set c. i \<in> S \<longrightarrow> item_ok (j_universe j) S i) \<and> (hd c \<in> S \<longrightarrow> set (tl c) \<inter> S = {})"
proof -
  let ?u = "j_universe j" and ?p = "initial_problem (j_universe j)"
  let ?vs = "var_chain ?p uid"
  have m: "map ((!) (units ?p)) ?vs = c"
    using initial_chain(1) [OF ok] item_chain_of [OF ok c] by simp
  then obtain v vs where v: "?vs = v # vs" using chains_nonempty [OF ok c] by (cases ?vs) auto
  have "exclusive ?p S ?vs \<longleftrightarrow> (hd c \<in> S \<longrightarrow> set (tl c) \<inter> S = {})"
    using m [symmetric] by (simp add: v exclusive_def disjoint_iff) blast
  then show ?thesis
    using set_map_nth_eq(2) [OF m, of "\<lambda>i. i \<in> S \<longrightarrow> item_ok ?u S i"]
    by (simp add: chain_ok_def chains_head_uid [OF ok c] package_ok_item [OF ok] Let_def)
qed

lemma jobs_to_sat_consistent:
  assumes ok: "universe_ok (j_universe j)" and p: "pkg_solve_jobs_to_sat j = Some p"
  shows "rules_hold S p \<longleftrightarrow> consistent (j_universe j) S"
    and "same_vars (initial_problem (j_universe j)) p"
proof -
  let ?u = "j_universe j"
  have s: "steps_to (initial_problem ?u) S p
      (\<forall>un \<in> snd ` set (u_items ?u). chain_ok j (initial_problem ?u) S un)
      (concat (map (\<lambda>x. chain_lits j (initial_problem ?u) (snd x)) (u_items ?u)))"
    using jobs_to_sat_steps [OF ok] p by auto
  then show "same_vars (initial_problem ?u) p" by (simp add: steps_to_def)
  have "rules_hold S (initial_problem ?u)" by (simp add: rules_hold_def)
  with s have "rules_hold S p \<longleftrightarrow> (\<forall>un \<in> snd ` set (u_items ?u). chain_ok j (initial_problem ?u) S un)"
    by (simp add: steps_to_def)
  also have "\<dots> \<longleftrightarrow> consistent ?u S"
    unfolding consistent_def by (rule ball_cong [OF refl]) (use chain_ok_items [OF ok] in fastforce)
  finally show "rules_hold S p \<longleftrightarrow> consistent ?u S" .
qed

section \<open>The SAT instance\<close>

text \<open>
  \<open>deref\<close> is an answer of \<open>picosat_deref\<close>: positive for a true variable. It chooses the
  items whose variables are true.
\<close>

definition lit_true :: "(int \<Rightarrow> int) \<Rightarrow> int \<Rightarrow> bool" where
  "lit_true deref l \<longleftrightarrow> (if l > 0 then deref l > 0 else \<not> deref (- l) > 0)"

definition sat_model :: "(int \<Rightarrow> int) \<Rightarrow> picosat \<Rightarrow> bool" where
  "sat_model deref s \<longleftrightarrow> (\<forall>c \<in> set (ps_clauses s). \<exists>l \<in> set c. lit_true deref l)
     \<and> (\<forall>l \<in> set (ps_assumed s). lit_true deref l)"

definition chosen :: "pkg_jobs_universe \<Rightarrow> (int \<Rightarrow> int) \<Rightarrow> item_id set" where
  "chosen u deref = {concat (map snd (u_items u)) ! v | v.
     v < length (concat (map snd (u_items u))) \<and> deref (int v + 1) > 0}"

definition sat_instance :: "pkg_jobs_universe \<Rightarrow> pkg_solve_problem \<Rightarrow> picosat" where
  "sat_instance u p = initial_guess u p (add_clauses p (p_sat p))"

lemma chosen_nth:
  assumes "universe_ok u" and "v < length (concat (map snd (u_items u)))"
  shows "concat (map snd (u_items u)) ! v \<in> chosen u deref \<longleftrightarrow> deref (int v + 1) > 0"
proof -
  have "distinct (concat (map snd (u_items u)))" using assms(1) by (simp add: universe_ok_def universe_wf_def)
  then show ?thesis using assms(2) by (auto simp: chosen_def nth_eq_iff_index_eq)
qed

lemma clauses_instance:
  "ps_clauses (sat_instance u p) = ps_clauses (p_sat p) @ map (clause_of p) (p_rules p)"
  "ps_assumed (sat_instance u p) = ps_assumed (p_sat p)"
proof -
  have a: "ps_clauses (foldl (\<lambda>s rule. s\<lparr>ps_clauses := ps_clauses s @ [clause_of p rule]\<rparr>) s rs) =
      ps_clauses s @ map (clause_of p) rs"
    "ps_assumed (foldl (\<lambda>s rule. s\<lparr>ps_clauses := ps_clauses s @ [clause_of p rule]\<rparr>) s rs) = ps_assumed s"
    for s rs by (induction rs arbitrary: s) simp_all
  have g: "ps_clauses (foldl f s is) = ps_clauses s \<and> ps_assumed (foldl f s is) = ps_assumed s"
    if "\<And>s i. ps_clauses (f s i) = ps_clauses s \<and> ps_assumed (f s i) = ps_assumed s"
    for f :: "picosat \<Rightarrow> nat \<Rightarrow> picosat" and s "is" using that by (induction "is" arbitrary: s) simp_all
  have "ps_clauses (initial_guess u p s) = ps_clauses s \<and> ps_assumed (initial_guess u p s) = ps_assumed s" for s
    unfolding initial_guess_def by (rule g) (simp add: Let_def)
  then show "ps_clauses (sat_instance u p) = ps_clauses (p_sat p) @ map (clause_of p) (p_rules p)"
    and "ps_assumed (sat_instance u p) = ps_assumed (p_sat p)"
    by (simp_all add: sat_instance_def add_clauses_def a)
qed

text \<open>What the encoding of a good universe looks like.\<close>

lemma jobs_to_sat_facts:
  assumes ok: "universe_ok (j_universe j)" and p: "pkg_solve_jobs_to_sat j = Some p"
  shows "well_ruled p" and "units p = concat (map snd (u_items (j_universe j)))"
    and "p_nvars p = length (units p)" and "length (p_vars p) = length (units p)"
    and "v < length (units p) \<Longrightarrow> v_order (p_vars p ! v) = int v + 1"
    and "p_by_uid p = chain_table (j_universe j) 0 (map snd (u_items (j_universe j)))"
    and "ps_clauses (p_sat p) = []"
    and "v < length (units p) \<Longrightarrow> v_uid (p_vars p ! v) = pkg_uniqueid (u_pkg (j_universe j) (units p ! v))"
proof -
  let ?u = "j_universe j"
  have "process_all_variables j (u_items ?u) (initial_problem ?u) = Some p"
    using p by (simp add: pkg_solve_jobs_to_sat_def Let_def add_all_initial [OF ok])
  with well_ruled_initial [OF ok] show "well_ruled p" by (rule well_ruled_process_all)
  have s: "same_vars (initial_problem ?u) p" using jobs_to_sat_consistent(2) [OF ok p] .
  then show u: "units p = concat (map snd (u_items ?u))" by (simp add: same_vars_units units_initial)
  show "p_nvars p = length (units p)" using s by (simp add: same_vars_def u nitems_eq [OF ok])
  show "length (p_vars p) = length (units p)" by (simp add: units_def)
  show "v < length (units p) \<Longrightarrow> v_order (p_vars p ! v) = int v + 1"
    using same_vars_order [OF s] initial_order by (simp add: u)
  show "p_by_uid p = chain_table ?u 0 (map snd (u_items ?u))" using same_vars_by_uid [OF s] by simp
  show "ps_clauses (p_sat p) = []"
    using jobs_to_sat_steps [OF ok] p by (auto simp: steps_to_def picosat_init_def)
  have "map v_uid (p_vars p) = map v_uid (p_vars (initial_problem ?u))" using s by (simp add: same_vars_def)
  also have "\<dots> = map (\<lambda>i. pkg_uniqueid (u_pkg ?u i)) (units p)" unfolding u by (rule initial_uid)
  finally have "map v_uid (p_vars p) = map (\<lambda>i. pkg_uniqueid (u_pkg ?u i)) (units p)" .
  then show "v < length (units p) \<Longrightarrow> v_uid (p_vars p ! v) = pkg_uniqueid (u_pkg ?u (units p ! v))"
    using \<open>length (p_vars p) = length (units p)\<close> by (metis nth_map)
qed

lemma clause_holds:
  assumes ok: "universe_ok (j_universe j)" and p: "pkg_solve_jobs_to_sat j = Some p"
    and r: "r \<in> set (p_rules p)"
  shows "(\<exists>l \<in> set (clause_of p r). lit_true deref l) \<longleftrightarrow> rule_holds (units p) (chosen (j_universe j) deref) r"
proof -
  note facts = jobs_to_sat_facts [OF ok p]
  have "lit_true deref (v_order (p_vars p ! si_var it) * si_inverse it) \<longleftrightarrow>
      item_holds (units p) (chosen (j_universe j) deref) it" if "it \<in> set (r_items r)" for it
  proof -
    have v: "si_var it < length (units p)" and i: "si_inverse it \<in> {1, -1}"
      using that r facts(1,3) by (auto simp: well_ruled_def rules_ok_def rule_ok_def)
    have "units p ! si_var it \<in> chosen (j_universe j) deref \<longleftrightarrow> deref (int (si_var it) + 1) > 0"
      using chosen_nth [OF ok, of "si_var it" deref] v by (simp only: facts(2))
    then show ?thesis using i facts(5) [OF v] by (auto simp: lit_true_def item_holds_def add.commute [of "1 :: int"])
  qed
  then show ?thesis by (simp add: clause_of_def rule_holds_def)
qed

lemma request_lits_hold:
  assumes ok: "universe_ok (j_universe j)" and v: "v < length (units (initial_problem (j_universe j)))"
  shows "(\<forall>l \<in> set (request_lits j (initial_problem (j_universe j)) v). lit_true deref l) \<longleftrightarrow>
    (let i = units (initial_problem (j_universe j)) ! v in
      (hash_find i (j_request_add j) \<noteq> None \<longrightarrow> i \<in> chosen (j_universe j) deref)
      \<and> (hash_find i (j_request_delete j) \<noteq> None \<longrightarrow> i \<notin> chosen (j_universe j) deref))"
  using v chosen_nth [OF ok, of v deref] initial_order [of v "j_universe j"]
  by (auto simp: request_lits_def lit_true_def units_initial Let_def add.commute [of "1 :: int"])

lemma assumed_hold:
  assumes ok: "universe_ok (j_universe j)" and p: "pkg_solve_jobs_to_sat j = Some p"
  shows "(\<forall>l \<in> set (ps_assumed (p_sat p)). lit_true deref l) \<longleftrightarrow> requested j (chosen (j_universe j) deref)"
proof -
  let ?u = "j_universe j" and ?p = "initial_problem (j_universe j)"
  let ?R = "\<lambda>i. (hash_find i (j_request_add j) \<noteq> None \<longrightarrow> i \<in> chosen ?u deref)
      \<and> (hash_find i (j_request_delete j) \<noteq> None \<longrightarrow> i \<notin> chosen ?u deref)"
  have a: "ps_assumed (p_sat p) = concat (map (\<lambda>x. chain_lits j ?p (snd x)) (u_items ?u))"
    using jobs_to_sat_steps [OF ok] p by (auto simp: steps_to_def picosat_init_def)
  have c: "(\<forall>l \<in> set (chain_lits j ?p c). lit_true deref l) \<longleftrightarrow> (\<forall>i \<in> set c. ?R i)"
    if "(uid, c) \<in> set (u_items ?u)" for uid c
  proof -
    have m: "map ((!) (units ?p)) (var_chain ?p uid) = c"
      using initial_chain(1) [OF ok] item_chain_of [OF ok that] by simp
    have "(\<forall>l \<in> set (chain_lits j ?p c). lit_true deref l) \<longleftrightarrow>
        (\<forall>v \<in> set (var_chain ?p uid). \<forall>l \<in> set (request_lits j ?p v). lit_true deref l)"
      by (simp add: chain_lits_def chains_head_uid [OF ok that])
    also have "\<dots> \<longleftrightarrow> (\<forall>v \<in> set (var_chain ?p uid). ?R (units ?p ! v))"
      using request_lits_hold [OF ok] var_chain_bound [OF vars_ok_initial [OF ok]]
      by (auto simp: units_initial Let_def)
    also have "\<dots> \<longleftrightarrow> (\<forall>i \<in> set c. ?R i)" by (rule set_map_nth_eq(2) [OF m])
    finally show ?thesis .
  qed
  show ?thesis unfolding a requested_def using c by fastforce
qed

lemma instance_model:
  assumes ok: "universe_ok (j_universe j)" and p: "pkg_solve_jobs_to_sat j = Some p"
  shows "sat_model deref (sat_instance (j_universe j) p) \<longleftrightarrow>
     consistent (j_universe j) (chosen (j_universe j) deref) \<and> requested j (chosen (j_universe j) deref)"
proof -
  let ?S = "chosen (j_universe j) deref"
  have "(\<forall>c \<in> set (ps_clauses (sat_instance (j_universe j) p)). \<exists>l \<in> set c. lit_true deref l) \<longleftrightarrow> rules_hold ?S p"
    using clause_holds [OF ok p, of _ deref] jobs_to_sat_facts(7) [OF ok p]
    by (simp add: clauses_instance rules_hold_def)
  with jobs_to_sat_consistent(1) [OF ok p, of ?S] assumed_hold [OF ok p, of deref] show ?thesis
    by (simp add: sat_model_def clauses_instance)
qed

section \<open>The jobs of an assignment\<close>

definition chain_jobs :: "pkg_jobs_t \<Rightarrow> pkg_jobs_universe \<Rightarrow> pkg_solve_problem \<Rightarrow> nat list \<Rightarrow> pkg_solved list" where
  "chain_jobs t u p var =
     (let adds = filter (\<lambda>v. is_add u (p_vars p ! v)) var;
          dels = filter (\<lambda>v. is_del u (p_vars p ! v)) var;
          unit = (\<lambda>v. v_unit (p_vars p ! v));
          delete = (\<lambda>v. solved_new (unit v) None PKG_SOLVED_DELETE)
      in case adds of
           [] \<Rightarrow> map delete dels
         | [a] \<Rightarrow>
             (if dels = [] then
                [solved_new (unit a) None (if t = PKG_JOBS_FETCH then PKG_SOLVED_FETCH else PKG_SOLVED_INSTALL)]
              else solved_new (unit a) (Some (unit (last dels))) PKG_SOLVED_UPGRADE
                # map delete (filter (\<lambda>v. v \<noteq> last dels) dels))
         | _ \<Rightarrow> [])"

definition last_opt :: "'a list \<Rightarrow> 'a option" where
  "last_opt xs = (if xs = [] then None else Some (last xs))"

lemma is_add_not_del: "is_add u v \<Longrightarrow> \<not> is_del u v"
  by (simp add: is_add_def is_del_def)

lemma scan_chain_eq:
  "scan_chain u p var =
     (let adds = filter (\<lambda>v. is_add u (p_vars p ! v)) var; dels = filter (\<lambda>v. is_del u (p_vars p ! v)) var
      in (last_opt adds, int (length adds), last_opt dels, int (length dels)))"
  unfolding scan_chain_def
  by (induction var rule: rev_induct) (auto simp: last_opt_def Let_def is_add_not_del)

definition jobs_add :: "pkg_solved list \<Rightarrow> pkg_jobs \<Rightarrow> pkg_jobs" where
  "jobs_add new j = j\<lparr>j_jobs := j_jobs j @ new, j_count := j_count j + int (length new)\<rparr>"

lemma jobs_add_simps [simp]:
  "jobs_add [] j = j" "jobs_append r j = jobs_add [r] j"
  "jobs_add ys (jobs_add xs j) = jobs_add (xs @ ys) j"
  "j_universe (jobs_add xs j) = j_universe j" "j_type (jobs_add xs j) = j_type j"
  by (simp_all add: jobs_add_def jobs_append_def)

lemma foldl_jobs_add:
  "foldl (\<lambda>j cur. if P cur then (if Q cur then j else jobs_append (f cur) j) else j) j xs =
     jobs_add (map f (filter (\<lambda>c. \<not> Q c) (filter P xs))) j"
proof (induction xs arbitrary: j)
  case (Cons x xs)
  show ?case by (simp only: list.simps foldl.simps Cons.IH) simp
qed simp

lemma insert_res_job_eq:
  "pkg_solve_insert_res_job p var j = jobs_add (chain_jobs (j_type j) (j_universe j) p var) j"
proof -
  let ?u = "j_universe j"
  let ?adds = "filter (\<lambda>v. is_add ?u (p_vars p ! v)) var" and ?dels = "filter (\<lambda>v. is_del ?u (p_vars p ! v)) var"
  consider "?adds = []" | a where "?adds = [a]" | a b cs where "?adds = a # b # cs"
    by (metis neq_Nil_conv)
  then show ?thesis
  proof cases
    case 1
    then show ?thesis
      by (auto simp: pkg_solve_insert_res_job_def scan_chain_eq Let_def chain_jobs_def last_opt_def foldl_jobs_add
          simp del: jobs_add_simps(2))
  next
    case 2
    then show ?thesis
      by (auto simp: pkg_solve_insert_res_job_def scan_chain_eq Let_def chain_jobs_def last_opt_def foldl_jobs_add)
  next
    case 3
    then show ?thesis by (simp add: pkg_solve_insert_res_job_def scan_chain_eq Let_def chain_jobs_def)
  qed
qed

lemma sat_to_jobs_eq:
  "pkg_solve_sat_to_jobs p j =
     jobs_add (concat (map (\<lambda>x. chain_jobs (j_type j) (j_universe j) p (snd x)) (p_by_uid p))) j"
proof -
  have "foldl (\<lambda>j (uid, var). pkg_solve_insert_res_job p var j) k xs =
      jobs_add (concat (map (\<lambda>x. chain_jobs (j_type k) (j_universe k) p (snd x)) xs)) k" for k xs
    by (induction xs arbitrary: k) (auto simp: insert_res_job_eq)
  then show ?thesis by (simp add: pkg_solve_sat_to_jobs_def)
qed

text \<open>The items that a list of jobs adds to the system and removes from it.\<close>

definition job_adds :: "pkg_solved \<Rightarrow> item_id set" where
  "job_adds r = (if s_type r = PKG_SOLVED_DELETE then {} else {s_item0 r})"

definition job_removes :: "pkg_solved \<Rightarrow> item_id set" where
  "job_removes r = (if s_type r = PKG_SOLVED_DELETE then {s_item0 r} else set_option (s_item1 r))"

lemma chain_jobs_effect:
  assumes "length (filter (\<lambda>v. is_add u (p_vars p ! v)) var) \<le> 1"
  shows "(\<Union>r \<in> set (chain_jobs t u p var). job_adds r) =
      {v_unit (p_vars p ! v) | v. v \<in> set var \<and> is_add u (p_vars p ! v)}"
    and "(\<Union>r \<in> set (chain_jobs t u p var). job_removes r) =
      {v_unit (p_vars p ! v) | v. v \<in> set var \<and> is_del u (p_vars p ! v)}"
proof -
  let ?adds = "filter (\<lambda>v. is_add u (p_vars p ! v)) var" and ?dels = "filter (\<lambda>v. is_del u (p_vars p ! v)) var"
  have a: "{v_unit (p_vars p ! v) | v. v \<in> set var \<and> is_add u (p_vars p ! v)} = (\<lambda>v. v_unit (p_vars p ! v)) ` set ?adds"
    and d: "{v_unit (p_vars p ! v) | v. v \<in> set var \<and> is_del u (p_vars p ! v)} = (\<lambda>v. v_unit (p_vars p ! v)) ` set ?dels"
    by auto
  have l: "?dels \<noteq> [] \<Longrightarrow> set ?dels = insert (last ?dels) (set (filter (\<lambda>v. v \<noteq> last ?dels) ?dels))"
    using last_in_set [of ?dels] by auto
  note defs = chain_jobs_def solved_new_def Let_def job_adds_def job_removes_def
  consider "?adds = []" | x where "?adds = [x]" using assms by (cases ?adds) auto
  then have "(\<Union>r \<in> set (chain_jobs t u p var). job_adds r) = (\<lambda>v. v_unit (p_vars p ! v)) ` set ?adds
    \<and> (\<Union>r \<in> set (chain_jobs t u p var). job_removes r) = (\<lambda>v. v_unit (p_vars p ! v)) ` set ?dels"
  proof cases
    case 1
    then show ?thesis by (auto simp: defs)
  next
    case 2
    show ?thesis
    proof (cases "?dels = []")
      case True
      with 2 show ?thesis by (simp add: defs)
    next
      case False
      show ?thesis unfolding l [OF False] using 2 False
        by (auto simp: defs simp del: filter_filter set_filter)
    qed
  qed
  then show "(\<Union>r \<in> set (chain_jobs t u p var). job_adds r) =
      {v_unit (p_vars p ! v) | v. v \<in> set var \<and> is_add u (p_vars p ! v)}"
    and "(\<Union>r \<in> set (chain_jobs t u p var). job_removes r) =
      {v_unit (p_vars p ! v) | v. v \<in> set var \<and> is_del u (p_vars p ! v)}"
    unfolding a d by auto
qed

section \<open>Properties\<close>

definition picosat_answers :: "(picosat \<Rightarrow> picosat_result) \<Rightarrow> picosat \<Rightarrow> bool" where
  \<comment> \<open>the documented behaviour of the SAT solver on one instance\<close>
  "picosat_answers f s \<longleftrightarrow> (case f s of
      PICOSAT_SATISFIABLE deref \<Rightarrow> sat_model deref s
    | PICOSAT_UNSATISFIABLE failed \<Rightarrow> (\<forall>deref. \<not> sat_model deref s) \<and> set failed \<subseteq> set (ps_assumed s))"

definition installed_after :: "pkg_solve_problem \<Rightarrow> item_id set" where
  "installed_after p = v_unit ` {v \<in> set (p_vars p). v_to_install v}"

definition linked_items :: "pkg_jobs_universe \<Rightarrow> item_id set" where
  "linked_items u = set (concat (map snd (u_items u)))"

lemma drop_failed_rc: "drop_failed yesno p failed j = Some (rc, j') \<Longrightarrow> rc \<in> {EPKG_FATAL, EPKG_AGAIN}"
proof (induction failed arbitrary: j)
  case (Cons f failed)
  then show ?case by (simp add: Let_def split: if_splits)
qed simp

lemma sat_problem_OK:
  assumes "pkg_solve_sat_problem picosat_sat yesno j p = Some (EPKG_OK, p', j')"
  obtains deref where "picosat_sat (sat_instance (j_universe j) p) = PICOSAT_SATISFIABLE deref"
    "p' = assign_vars deref (p\<lparr>p_sat := sat_instance (j_universe j) p\<rparr>)" "j' = j"
proof -
  let ?s = "sat_instance (j_universe j) p"
  show ?thesis
  proof (cases "picosat_sat ?s")
    case (PICOSAT_SATISFIABLE deref)
    with assms have "assign_vars deref (p\<lparr>p_sat := ?s\<rparr>) = p' \<and> j = j'"
      by (auto simp: pkg_solve_sat_problem_def sat_instance_def Let_def)
    then show ?thesis using that [OF PICOSAT_SATISFIABLE] by blast
  next
    case (PICOSAT_UNSATISFIABLE failed)
    with assms drop_failed_rc [of yesno "p\<lparr>p_sat := ?s\<rparr>" failed j] show ?thesis
      by (simp add: pkg_solve_sat_problem_def sat_instance_def Let_def split: option.splits prod.splits)
  qed
qed

lemma assigned_var:
  assumes ok: "universe_ok (j_universe j)" and p: "pkg_solve_jobs_to_sat j = Some p"
    and p': "p' = assign_vars deref (p\<lparr>p_sat := s\<rparr>)" and v: "v < length (units p)"
  shows "v_unit (p_vars p' ! v) = units p ! v"
    and "v_to_install (p_vars p' ! v) \<longleftrightarrow> units p ! v \<in> chosen (j_universe j) deref"
  using v jobs_to_sat_facts(2,3,4) [OF ok p] chosen_nth [OF ok, of v deref]
  by (simp_all add: p' assign_vars_def unit_nth)

lemma installed_after_chosen:
  assumes ok: "universe_ok (j_universe j)" and p: "pkg_solve_jobs_to_sat j = Some p"
    and p': "p' = assign_vars deref (p\<lparr>p_sat := s\<rparr>)"
  shows "installed_after p' = chosen (j_universe j) deref"
proof -
  note facts = jobs_to_sat_facts [OF ok p] and a = assigned_var [OF ok p p']
  have n: "length (p_vars p') = length (units p)" by (simp add: p' assign_vars_def facts(3))
  have "installed_after p' = {v_unit (p_vars p' ! v) | v. v < length (units p) \<and> v_to_install (p_vars p' ! v)}"
    by (force simp: installed_after_def in_set_conv_nth n)
  also have "\<dots> = {units p ! v | v. v < length (units p) \<and> units p ! v \<in> chosen (j_universe j) deref}"
    by (rule Collect_cong, rule ex_cong1) (use a in auto)
  also have "\<dots> = chosen (j_universe j) deref" unfolding chosen_def facts(2) by auto
  finally show ?thesis .
qed

lemma sat_step_sound:
  assumes "universe_ok (j_universe j)"
    and "pkg_solve_jobs_to_sat j = Some p"
    and "picosat_answers picosat_sat (sat_instance (j_universe j) p)"
    and "pkg_solve_sat_problem picosat_sat yesno j p = Some (EPKG_OK, p', j')"
  shows "consistent (j_universe j) (installed_after p') \<and> requested j (installed_after p')"
proof -
  obtain deref where d: "picosat_sat (sat_instance (j_universe j) p) = PICOSAT_SATISFIABLE deref"
    "p' = assign_vars deref (p\<lparr>p_sat := sat_instance (j_universe j) p\<rparr>)"
    using assms(4) by (rule sat_problem_OK)
  have "sat_model deref (sat_instance (j_universe j) p)" using assms(3) d(1) by (simp add: picosat_answers_def)
  then show ?thesis
    using instance_model [OF assms(1,2)] installed_after_chosen [OF assms(1,2) d(2)] by simp
qed

text \<open>
  C1: when the SAT solver reports a model of the clauses it was given, the packages that the assignment
  installs satisfy every dependency, conflict, library requirement and chain of the universe, and every
  request of the job.
\<close>

theorem solver_sound:
  assumes "universe_ok (j_universe j)"
    and "pkg_solve_jobs_to_sat j = Some p"
    and "picosat_answers picosat_sat (sat_instance (j_universe j) p)"
    and "pkg_solve_sat_problem picosat_sat yesno j p = Some (EPKG_OK, p', j')"
  shows "consistent (j_universe j) (installed_after p') \<and> requested j (installed_after p')"
  using assms by (rule sat_step_sound)

lemma chosen_all:
  assumes ok: "universe_ok u" and S: "S \<subseteq> linked_items u"
  shows "\<exists>deref. chosen u deref = S"
proof
  let ?xs = "concat (map snd (u_items u))"
  show "chosen u (\<lambda>k. if ?xs ! nat (k - 1) \<in> S then 1 else -1) = S" (is "chosen u ?d = S")
  proof (rule set_eqI)
    fix i
    show "i \<in> chosen u ?d \<longleftrightarrow> i \<in> S"
    proof
      assume "i \<in> S"
      then have "i \<in> set ?xs" using S by (auto simp: linked_items_def)
      then obtain v where "v < length ?xs" "i = ?xs ! v" by (metis in_set_conv_nth)
      with \<open>i \<in> S\<close> show "i \<in> chosen u ?d" using chosen_nth [OF ok, of v ?d] by simp
    qed (auto simp: chosen_def split: if_splits)
  qed
qed

lemma sat_step_complete:
  assumes "universe_ok (j_universe j)"
    and "pkg_solve_jobs_to_sat j = Some p"
    and "picosat_answers picosat_sat (sat_instance (j_universe j) p)"
    and "S \<subseteq> linked_items (j_universe j)" and "consistent (j_universe j) S" and "requested j S"
  shows "\<exists>p'. pkg_solve_sat_problem picosat_sat yesno j p = Some (EPKG_OK, p', j)"
proof -
  obtain d where "chosen (j_universe j) d = S" using chosen_all [OF assms(1,4)] by blast
  then have "sat_model d (sat_instance (j_universe j) p)"
    using instance_model [OF assms(1,2)] assms(5,6) by simp
  then have "\<exists>deref. picosat_sat (sat_instance (j_universe j) p) = PICOSAT_SATISFIABLE deref"
    using assms(3) by (auto simp: picosat_answers_def split: picosat_result.splits)
  then show ?thesis by (auto simp: pkg_solve_sat_problem_def sat_instance_def Let_def)
qed

text \<open>
  C2: the encoding loses no solution: when some set of the items of the universe is consistent and fulfils
  the requests, the solver step succeeds.
\<close>

theorem solver_complete:
  assumes "universe_ok (j_universe j)"
    and "pkg_solve_jobs_to_sat j = Some p"
    and "picosat_answers picosat_sat (sat_instance (j_universe j) p)"
    and "S \<subseteq> linked_items (j_universe j)" and "consistent (j_universe j) S" and "requested j S"
  shows "\<exists>p'. pkg_solve_sat_problem picosat_sat yesno j p = Some (EPKG_OK, p', j)"
  using assms by (rule sat_step_complete)

lemma jobs_to_sat_total: "universe_ok (j_universe j) \<Longrightarrow> \<exists>p. pkg_solve_jobs_to_sat j = Some p"
  using jobs_to_sat_steps by blast

text \<open>At most one package that is not installed yet is chosen from each chain.\<close>

definition one_candidate :: "pkg_jobs_universe \<Rightarrow> item_id set \<Rightarrow> bool" where
  "one_candidate u S \<longleftrightarrow> (\<forall>c \<in> snd ` set (u_items u).
     length (filter (\<lambda>i. i \<in> S \<and> \<not> is_installed (u_pkg u i)) c) \<le> 1)"

lemma jobs_chain:
  assumes ok: "universe_ok (j_universe j)" and p: "pkg_solve_jobs_to_sat j = Some p"
  shows "snd ` set (p_by_uid p) = (\<lambda>uid. var_chain p uid) ` fst ` set (u_items (j_universe j))"
    and "(uid, c) \<in> set (u_items (j_universe j)) \<Longrightarrow> map ((!) (units p)) (var_chain p uid) = c"
    and "v \<in> set (var_chain p uid) \<Longrightarrow> v < length (units p)"
proof -
  let ?u = "j_universe j" and ?p = "initial_problem (j_universe j)"
  have s: "same_vars ?p p" using jobs_to_sat_consistent(2) [OF ok p] .
  have vc: "var_chain p = var_chain ?p" by (rule ext) (simp add: var_chain_def same_vars_by_uid [OF s])
  show "(uid, c) \<in> set (u_items ?u) \<Longrightarrow> map ((!) (units p)) (var_chain p uid) = c"
    using initial_chain(1) [OF ok] item_chain_of [OF ok] by (simp add: vc same_vars_units [OF s])
  show "v \<in> set (var_chain p uid) \<Longrightarrow> v < length (units p)"
    using var_chain_lt [OF jobs_to_sat_facts(1) [OF ok p]] jobs_to_sat_facts(3) [OF ok p] by auto
  have t: "map fst (chain_table ?u n (map snd items)) = map fst items"
    if "\<forall>(uid, c) \<in> set items. pkg_uniqueid (u_pkg ?u (hd c)) = uid" for n items
    using that by (induction items arbitrary: n) auto
  have k: "map fst (p_by_uid p) = map fst (u_items ?u)"
    using t [of "u_items ?u"] chains_head_uid [OF ok] by (auto simp: same_vars_by_uid [OF s])
  have "hash_wf (p_by_uid p)" using ok by (simp add: hash_wf_def k universe_ok_def universe_wf_def)
  then have v: "var_chain p uid = vs" if "(uid, vs) \<in> set (p_by_uid p)" for uid vs
    using hash_find_wf [OF _ that] by (simp add: var_chain_def)
  have "snd ` set (p_by_uid p) = (\<lambda>x. var_chain p (fst x)) ` set (p_by_uid p)"
    using v by (force intro: image_cong)
  also have "\<dots> = var_chain p ` set (map fst (p_by_uid p))" by (simp add: image_image)
  finally show "snd ` set (p_by_uid p) = (\<lambda>uid. var_chain p uid) ` fst ` set (u_items ?u)" by (simp only: k set_map)
qed

lemma image_filter_eq:
  "(\<And>v. v \<in> A \<Longrightarrow> f v = g v \<and> (P v \<longleftrightarrow> Q (g v))) \<Longrightarrow> {f v | v. v \<in> A \<and> P v} = {i \<in> g ` A. Q i}"
  by (auto simp: image_iff) metis+

lemma chain_effect:
  assumes ok: "universe_ok (j_universe j)" and p: "pkg_solve_jobs_to_sat j = Some p"
    and p': "p' = assign_vars deref (p\<lparr>p_sat := s\<rparr>)"
    and one: "one_candidate (j_universe j) (installed_after p')"
    and c: "(uid, c) \<in> set (u_items (j_universe j))"
  shows "(\<Union>r \<in> set (chain_jobs t (j_universe j) p' (var_chain p uid)). job_adds r) =
      {i \<in> set c. i \<in> installed_after p' \<and> \<not> is_installed (u_pkg (j_universe j) i)}"
    and "(\<Union>r \<in> set (chain_jobs t (j_universe j) p' (var_chain p uid)). job_removes r) =
      {i \<in> set c. i \<notin> installed_after p' \<and> is_installed (u_pkg (j_universe j) i)}"
proof -
  let ?u = "j_universe j" and ?S = "installed_after p'" and ?vs = "var_chain p uid"
  note ch = jobs_chain [OF ok p] and S = installed_after_chosen [OF ok p p']
  have m: "map ((!) (units p)) ?vs = c" using ch(2) [OF c] .
  have unit: "v_unit (p_vars p' ! v) = units p ! v"
    and add: "is_add ?u (p_vars p' ! v) \<longleftrightarrow> units p ! v \<in> ?S \<and> \<not> is_installed (u_pkg ?u (units p ! v))"
    and del: "is_del ?u (p_vars p' ! v) \<longleftrightarrow> units p ! v \<notin> ?S \<and> is_installed (u_pkg ?u (units p ! v))"
    if "v \<in> set ?vs" for v
    using assigned_var [OF ok p p' ch(3) [OF that]] by (auto simp: is_add_def is_del_def S)
  have "map ((!) (units p)) (filter (\<lambda>v. is_add ?u (p_vars p' ! v)) ?vs) =
      filter (\<lambda>i. i \<in> ?S \<and> \<not> is_installed (u_pkg ?u i)) c"
    unfolding m [symmetric] filter_map comp_def using add by (metis (mono_tags, lifting) filter_cong)
  moreover have "length (filter (\<lambda>i. i \<in> ?S \<and> \<not> is_installed (u_pkg ?u i)) c) \<le> 1"
    using one c by (force simp: one_candidate_def)
  ultimately have "length (filter (\<lambda>v. is_add ?u (p_vars p' ! v)) ?vs) \<le> 1" by (metis length_map)
  note e = chain_jobs_effect [OF this, of t]
  show "(\<Union>r \<in> set (chain_jobs t ?u p' ?vs). job_adds r) = {i \<in> set c. i \<in> ?S \<and> \<not> is_installed (u_pkg ?u i)}"
    unfolding e(1) m [symmetric] set_map using unit add by (intro image_filter_eq) simp
  show "(\<Union>r \<in> set (chain_jobs t ?u p' ?vs). job_removes r) = {i \<in> set c. i \<notin> ?S \<and> is_installed (u_pkg ?u i)}"
    unfolding e(2) m [symmetric] set_map using unit del by (intro image_filter_eq) simp
qed

lemma sat_step_jobs:
  assumes "universe_ok (j_universe j)" and "j_jobs j = []"
    and "pkg_solve_jobs_to_sat j = Some p"
    and "pkg_solve_sat_problem picosat_sat yesno j p = Some (EPKG_OK, p', j')"
    and "one_candidate (j_universe j) (installed_after p')"
  shows "(\<Union>r \<in> set (j_jobs (pkg_solve_sat_to_jobs p' j')). job_adds r) =
      {i \<in> linked_items (j_universe j). i \<in> installed_after p' \<and> \<not> is_installed (u_pkg (j_universe j) i)}
    \<and> (\<Union>r \<in> set (j_jobs (pkg_solve_sat_to_jobs p' j')). job_removes r) =
      {i \<in> linked_items (j_universe j). i \<notin> installed_after p' \<and> is_installed (u_pkg (j_universe j) i)}
    \<and> j_count (pkg_solve_sat_to_jobs p' j') =
      j_count j + int (length (j_jobs (pkg_solve_sat_to_jobs p' j')))"
proof -
  let ?u = "j_universe j"
  obtain deref where p': "p' = assign_vars deref (p\<lparr>p_sat := sat_instance ?u p\<rparr>)" and j': "j' = j"
    using assms(4) by (rule sat_problem_OK)
  let ?js = "concat (map (\<lambda>x. chain_jobs (j_type j) ?u p' (snd x)) (p_by_uid p))"
  have js: "pkg_solve_sat_to_jobs p' j' = jobs_add ?js j"
    by (simp add: sat_to_jobs_eq j') (simp add: p' assign_vars_def)
  have "set ?js = (\<Union>vs \<in> snd ` set (p_by_uid p). set (chain_jobs (j_type j) ?u p' vs))" by simp
  also have "\<dots> = (\<Union>x \<in> set (u_items ?u). set (chain_jobs (j_type j) ?u p' (var_chain p (fst x))))"
    unfolding jobs_chain(1) [OF assms(1,3)] by simp
  finally have set_js: "set ?js = \<dots>" .
  note e = chain_effect [OF assms(1,3) p' assms(5), where t = "j_type j"]
  have "(\<Union>r \<in> set ?js. job_adds r) =
      (\<Union>x \<in> set (u_items ?u). {i \<in> set (snd x). i \<in> installed_after p' \<and> \<not> is_installed (u_pkg ?u i)})"
    unfolding set_js UN_UN_flatten using e(1) by (intro SUP_cong) auto
  then have a: "(\<Union>r \<in> set ?js. job_adds r) =
      {i \<in> linked_items ?u. i \<in> installed_after p' \<and> \<not> is_installed (u_pkg ?u i)}"
    by (auto simp: linked_items_def)
  have "(\<Union>r \<in> set ?js. job_removes r) =
      (\<Union>x \<in> set (u_items ?u). {i \<in> set (snd x). i \<notin> installed_after p' \<and> is_installed (u_pkg ?u i)})"
    unfolding set_js UN_UN_flatten using e(2) by (intro SUP_cong) auto
  then have d: "(\<Union>r \<in> set ?js. job_removes r) =
      {i \<in> linked_items ?u. i \<notin> installed_after p' \<and> is_installed (u_pkg ?u i)}"
    by (auto simp: linked_items_def)
  show ?thesis using a d assms(2) unfolding js by (simp add: jobs_add_def)
qed

text \<open>
  C21: when the assignment chooses at most one candidate per uid, the jobs generated from it realise it exactly: what they add is what the assignment
  installs and is not installed yet, what they remove is what is installed and the assignment drops, and the
  counter of the jobs counts them. With two candidates of one uid no job is generated for what it installs.
\<close>

theorem solver_jobs_realise:
  assumes "universe_ok (j_universe j)" and "j_jobs j = []"
    and "pkg_solve_jobs_to_sat j = Some p"
    and "pkg_solve_sat_problem picosat_sat yesno j p = Some (EPKG_OK, p', j')"
    and "one_candidate (j_universe j) (installed_after p')"
  shows "(\<Union>r \<in> set (j_jobs (pkg_solve_sat_to_jobs p' j')). job_adds r) =
      {i \<in> linked_items (j_universe j). i \<in> installed_after p' \<and> \<not> is_installed (u_pkg (j_universe j) i)}
    \<and> (\<Union>r \<in> set (j_jobs (pkg_solve_sat_to_jobs p' j')). job_removes r) =
      {i \<in> linked_items (j_universe j). i \<notin> installed_after p' \<and> is_installed (u_pkg (j_universe j) i)}
    \<and> j_count (pkg_solve_sat_to_jobs p' j') =
      j_count j + int (length (j_jobs (pkg_solve_sat_to_jobs p' j')))"
  using assms by (rule sat_step_jobs)

section \<open>A concrete job\<close>

text \<open>
  An upgrade: version 1.0 of \<open>a\<close> is installed (item 0), version 2.0 (item 1) is requested and
  depends on \<open>b\<close> (item 2), which is not installed.
\<close>

definition demo_item :: "pkg \<Rightarrow> universe_item" where
  "demo_item p = \<lparr>it_pkg = p, it_jp = None, it_priority = 0\<rparr>"

definition demo_universe :: pkg_jobs_universe where
  "demo_universe = \<lparr>
     u_store = [demo_item (demo_pkg\<lparr>pkg_type := PKG_INSTALLED, pkg_digest := Some ''d0''\<rparr>),
       demo_item (demo_pkg\<lparr>pkg_version := ''2.0'', pkg_digest := Some ''d1'',
         pkg_deps := [\<lparr>dep_origin = ''x/b'', dep_name = ''b'', dep_version = ''1'', dep_uid = ''b'', dep_locked = False\<rparr>]\<rparr>),
       demo_item (demo_pkg\<lparr>pkg_uniqueid := ''b'', pkg_name := ''b'', pkg_digest := Some ''d2''\<rparr>)],
     u_items = [(''a'', [0, 1]), (''b'', [2])],
     u_seen = [(''d0'', 0), (''d1'', 1), (''d2'', 2)],
     u_provides = [], u_uid_replaces = [], u_nitems = 3\<rparr>"

definition demo_jobs :: pkg_jobs where
  "demo_jobs = (pkg_jobs_new PKG_JOBS_INSTALL)\<lparr>j_universe := demo_universe, j_request_add := [(1, False)]\<rparr>"

definition demo_problem :: pkg_solve_problem where
  "demo_problem = the (pkg_solve_jobs_to_sat demo_jobs)"

definition demo_sat :: "picosat \<Rightarrow> picosat_result" where
  "demo_sat s = PICOSAT_SATISFIABLE (\<lambda>k. if k = 1 then -1 else 1)"

definition demo_solved :: pkg_solve_problem where
  "demo_solved = fst (snd (the (pkg_solve_sat_problem demo_sat (\<lambda>_. True) demo_jobs demo_problem)))"

lemma demo_universe_ok: "universe_ok (j_universe demo_jobs)"
  by code_simp

lemma demo_to_sat: "pkg_solve_jobs_to_sat demo_jobs = Some demo_problem"
  by code_simp

lemma demo_answers: "picosat_answers demo_sat (sat_instance (j_universe demo_jobs) demo_problem)"
proof -
  have "sat_model (\<lambda>k. if k = 1 then -1 else 1) (sat_instance (j_universe demo_jobs) demo_problem)"
    by code_simp
  then show ?thesis by (simp add: picosat_answers_def demo_sat_def)
qed

lemma demo_solve:
  "pkg_solve_sat_problem demo_sat (\<lambda>_. True) demo_jobs demo_problem = Some (EPKG_OK, demo_solved, demo_jobs)"
  by code_simp

lemma demo_consistent:
  "{1, 2} \<subseteq> linked_items (j_universe demo_jobs)" "consistent (j_universe demo_jobs) {1, 2}"
  "requested demo_jobs {1, 2}"
  by code_simp+

theorem solver_sound_witness:
  "consistent (j_universe demo_jobs) (installed_after demo_solved) \<and> requested demo_jobs (installed_after demo_solved)"
  by (rule solver_sound [OF demo_universe_ok demo_to_sat demo_answers demo_solve])

theorem solver_complete_witness:
  "\<exists>p'. pkg_solve_sat_problem demo_sat (\<lambda>_. True) demo_jobs demo_problem = Some (EPKG_OK, p', demo_jobs)"
  by (rule solver_complete [OF demo_universe_ok demo_to_sat demo_answers demo_consistent])

lemma demo_one: "j_jobs demo_jobs = []" "one_candidate (j_universe demo_jobs) (installed_after demo_solved)"
  by code_simp+

theorem solver_jobs_realise_witness:
  "(\<Union>r \<in> set (j_jobs (pkg_solve_sat_to_jobs demo_solved demo_jobs)). job_adds r) = {1, 2}"
proof -
  have "{i \<in> linked_items (j_universe demo_jobs). i \<in> installed_after demo_solved
      \<and> \<not> is_installed (u_pkg (j_universe demo_jobs) i)} = {1, 2}" by code_simp
  then show ?thesis
    using solver_jobs_realise [OF demo_universe_ok demo_one(1) demo_to_sat demo_solve demo_one(2)] by simp
qed

section \<open>Failed assumptions\<close>

definition request_count :: "pkg_jobs \<Rightarrow> nat" where
  "request_count j = length (j_request_add j) + length (j_request_delete j)"

lemma length_hash_del: "hash_find k h \<noteq> None \<Longrightarrow> length (hash_del k h) < length h"
proof -
  assume "hash_find k h \<noteq> None"
  then obtain v where "(k, v) \<in> set h" using uh.find_SomeD by fastforce
  then show ?thesis unfolding hash_del_def by (intro length_filter_less) auto
qed

lemma drop_failed_shrinks:
  "drop_failed yesno p failed j = Some (EPKG_AGAIN, j') \<Longrightarrow> request_count j' < request_count j"
proof (induction failed arbitrary: j)
  case (Cons f failed)
  let ?var = "p_vars p ! nat (f - 1)"
  let ?j = "if v_to_install ?var then j\<lparr>j_request_add := hash_del (v_unit ?var) (j_request_add j)\<rparr>
      else j\<lparr>j_request_delete := hash_del (v_unit ?var) (j_request_delete j)\<rparr>"
  from Cons.prems have found: "hash_find (v_unit ?var)
      (if v_to_install ?var then j_request_add j else j_request_delete j) \<noteq> None"
    and rest: "(if failed = [] then Some (EPKG_AGAIN, ?j) else drop_failed yesno p failed ?j) = Some (EPKG_AGAIN, j')"
    by (simp_all add: Let_def split: if_splits)
  have "request_count ?j < request_count j"
    using found by (cases "v_to_install ?var") (simp_all add: request_count_def length_hash_del)
  moreover have "j' = ?j \<or> request_count j' < request_count ?j"
    using rest Cons.IH [of ?j] by (cases "failed = []") auto
  ultimately show ?case by auto
qed simp

text \<open>
  when the clauses cannot be satisfied and the user agrees to drop the failed requests, the job
  goes back to the solver with strictly fewer requests, so the loop of \<open>pkg_jobs_solve\<close> that
  repeats on \<open>EPKG_AGAIN\<close> ends.
\<close>

theorem solver_again_shrinks:
  assumes "pkg_solve_sat_problem picosat_sat yesno j p = Some (EPKG_AGAIN, p', j')"
  shows "request_count j' < request_count j"
proof -
  obtain failed where "drop_failed yesno (p\<lparr>p_sat := sat_instance (j_universe j) p\<rparr>) failed j = Some (EPKG_AGAIN, j')"
    using assms by (auto simp: pkg_solve_sat_problem_def sat_instance_def Let_def
        split: picosat_result.splits option.splits)
  then show ?thesis by (rule drop_failed_shrinks)
qed

theorem solver_again_shrinks_witness:
  "\<exists>p' j'. pkg_solve_sat_problem (\<lambda>_. PICOSAT_UNSATISFIABLE [2]) (\<lambda>_. True) demo_jobs demo_problem =
      Some (EPKG_AGAIN, p', j') \<and> request_count j' < request_count demo_jobs"
proof -
  have "map_option fst (pkg_solve_sat_problem (\<lambda>_. PICOSAT_UNSATISFIABLE [2]) (\<lambda>_. True) demo_jobs demo_problem) =
      Some EPKG_AGAIN" by code_simp
  then obtain p' j' where e: "pkg_solve_sat_problem (\<lambda>_. PICOSAT_UNSATISFIABLE [2]) (\<lambda>_. True) demo_jobs
      demo_problem = Some (EPKG_AGAIN, p', j')" by auto
  from e solver_again_shrinks [OF e] show ?thesis by blast
qed

definition undef_jobs :: pkg_jobs where
  "undef_jobs = demo_jobs\<lparr>j_request_delete := [(2, False)]\<rparr>"

text \<open>
  a delete request that fails makes the program read outside its array: the literal of the failed
  assumption is negative and is used as an index. Here \<open>a\<close> is to be installed, it depends on \<open>b\<close>, and
  \<open>b\<close> is to be deleted; the SAT solver reports both assumptions.
\<close>

theorem failed_delete_undefined:
  "(case pkg_solve_jobs_to_sat undef_jobs of None \<Rightarrow> False | Some p \<Rightarrow>
     ps_assumed (sat_instance (j_universe undef_jobs) p) = [2, -3]
     \<and> pkg_solve_sat_problem (\<lambda>_. PICOSAT_UNSATISFIABLE [2, -3]) (\<lambda>_. True) undef_jobs p = None)"
  by code_simp

definition gap_jobs :: pkg_jobs where
  "gap_jobs = (pkg_jobs_new PKG_JOBS_UPGRADE)\<lparr>j_universe := demo_universe\<lparr>
     u_store := [demo_item (demo_pkg\<lparr>pkg_type := PKG_INSTALLED, pkg_digest := Some ''d0''\<rparr>),
       demo_item (demo_pkg\<lparr>pkg_version := ''2.0'', pkg_digest := Some ''d1''\<rparr>),
       demo_item (demo_pkg\<lparr>pkg_version := ''3.0'', pkg_digest := Some ''d2''\<rparr>)],
     u_items := [(''a'', [0, 1, 2])]\<rparr>, j_request_add := [(2, False)]\<rparr>"

text \<open>
  the chain rule excludes only the first item of a chain from the others. With two remote
  candidates behind an installed package a consistent assignment may choose both, and then no job at all is
  generated for the uid.
\<close>

theorem chain_gap:
  "universe_ok (j_universe gap_jobs) \<and> consistent (j_universe gap_jobs) {1, 2} \<and> requested gap_jobs {1, 2}
   \<and> (case pkg_solve_jobs_to_sat gap_jobs of None \<Rightarrow> False | Some p \<Rightarrow>
        sat_model (\<lambda>k. if k = 1 then -1 else 1) (sat_instance (j_universe gap_jobs) p)
        \<and> (case pkg_solve_sat_problem demo_sat (\<lambda>_. True) gap_jobs p of None \<Rightarrow> False | Some (rc, p', j') \<Rightarrow>
             rc = EPKG_OK \<and> installed_after p' = {1, 2} \<and> j_jobs (pkg_solve_sat_to_jobs p' j') = []))"
  by code_simp

end
