(* ===== verification/Universe.thy ===== *)
theory Universe
  imports Checksum
begin

text \<open>
  The universe of a job, \<open>libpkg/pkg_jobs_universe.c\<close>: how packages are looked up in the
  installed and in the remote database and added with everything that bears on them (dependencies,
  reverse dependencies, conflicts, providers of libraries), and how the candidates of one uid are
  reduced to one request. The databases and the hash function are parameters, the record \<open>env\<close>:
  a query is the list of the packages its iterator yields. \<open>universe->j\<close> points back to the job,
  so the job is the state of these functions. \<open>pkg_jobs_need_upgrade\<close> and
  \<open>pkg_jobs_add_req\<close> of \<open>libpkg/pkg_jobs.c\<close>, which they call, are here too.
\<close>

section \<open>Databases\<close>

record env =
  e_query :: "string option \<Rightarrow> match_t \<Rightarrow> pkg_load list \<Rightarrow> pkg list"
  e_repo_query :: "string option \<Rightarrow> match_t \<Rightarrow> string option \<Rightarrow> pkg_load list \<Rightarrow> pkg list"
  e_repo_shlib_provide :: "string \<Rightarrow> string option \<Rightarrow> pkg_load list \<Rightarrow> pkg list"
  e_ensure_loaded :: "pkg \<Rightarrow> pkg_load list \<Rightarrow> pkg"
  e_sha256 :: "string \<Rightarrow> 8 word list"
  e_digest_format :: "string \<Rightarrow> pkg_checksum_type_t option"

definition upd_universe :: "(pkg_jobs_universe \<Rightarrow> pkg_jobs_universe) \<Rightarrow> pkg_jobs \<Rightarrow> pkg_jobs" where
  "upd_universe f j = j\<lparr>j_universe := f (j_universe j)\<rparr>"

definition pkg_jobs_universe_find :: "pkg_jobs_universe \<Rightarrow> string \<Rightarrow> item_id option" where
  "pkg_jobs_universe_find u uid = (case hash_find uid (u_items u) of None \<Rightarrow> None | Some c \<Rightarrow> Some (hd c))"

definition pkg_jobs_universe_seen :: "pkg_jobs_universe \<Rightarrow> string \<Rightarrow> item_id option" where
  "pkg_jobs_universe_seen u digest = hash_find digest (u_seen u)"

text \<open>An empty list of flags is the argument 0. The result is the package and the job, whose unit may get loaded.\<close>

definition pkg_jobs_universe_get_local ::
  "env \<Rightarrow> pkg_jobs \<Rightarrow> string \<Rightarrow> pkg_load list \<Rightarrow> pkg option \<times> pkg_jobs" where
  "pkg_jobs_universe_get_local e j uid flag =
     (let u = j_universe j;
          flag = (if flag = [] then
                    (if \<not> IS_DELETE j then [PKG_LOAD_BASIC, PKG_LOAD_DEPS, PKG_LOAD_RDEPS, PKG_LOAD_OPTIONS,
                       PKG_LOAD_SHLIBS_REQUIRED, PKG_LOAD_ANNOTATIONS, PKG_LOAD_CONFLICTS]
                     else [PKG_LOAD_BASIC, PKG_LOAD_RDEPS, PKG_LOAD_DEPS, PKG_LOAD_ANNOTATIONS])
                  else flag)
      in case pkg_jobs_universe_find u uid of
           Some unit \<Rightarrow>
             if is_installed (u_pkg u unit) then
               (let p = e_ensure_loaded e (u_pkg u unit) flag
                in (Some p, upd_universe (u_upd_pkg unit (\<lambda>_. p)) j))
             else (case e_query e (Some uid) MATCH_EXACT flag of [] \<Rightarrow> (None, j) | p # _ \<Rightarrow> (Some p, j))
         | None \<Rightarrow> (case e_query e (Some uid) MATCH_EXACT flag of [] \<Rightarrow> (None, j) | p # _ \<Rightarrow> (Some p, j)))"

definition select_newest :: "pkg list \<Rightarrow> pkg option" where
  \<comment> \<open>the loop of \<open>pkg_jobs_universe_get_remote\<close>\<close>
  "select_newest ps = foldl (\<lambda>selected p. case selected of
       None \<Rightarrow> Some p
     | Some s \<Rightarrow> if pkg_version_change_between p (Some s) = PKG_UPGRADE then Some p else Some s) None ps"

definition pkg_jobs_universe_get_remote ::
  "env \<Rightarrow> pkg_jobs \<Rightarrow> string \<Rightarrow> pkg_load list \<Rightarrow> pkg option \<times> pkg_jobs" where
  "pkg_jobs_universe_get_remote e j uid flag =
     (let u = j_universe j;
          flag = (if flag = [] then [PKG_LOAD_BASIC, PKG_LOAD_DEPS, PKG_LOAD_OPTIONS, PKG_LOAD_SHLIBS_REQUIRED,
                    PKG_LOAD_SHLIBS_PROVIDED, PKG_LOAD_ANNOTATIONS, PKG_LOAD_CONFLICTS] else flag)
      in case pkg_jobs_universe_find u uid of
           Some unit \<Rightarrow>
             if \<not> is_installed (u_pkg u unit) then
               (let p = e_ensure_loaded e (u_pkg u unit) flag
                in (Some p, upd_universe (u_upd_pkg unit (\<lambda>_. p)) j))
             else (select_newest (e_repo_query e (Some uid) MATCH_EXACT (j_reponame j) flag), j)
         | None \<Rightarrow> (select_newest (e_repo_query e (Some uid) MATCH_EXACT (j_reponame j) flag), j))"

section \<open>Is the remote package an upgrade?\<close>

text \<open>A \<open>for (;;)\<close> loop that walks a list of each package in step.\<close>

fun lists_differ :: "('a \<Rightarrow> 'a \<Rightarrow> bool) \<Rightarrow> 'a list \<Rightarrow> 'a list \<Rightarrow> bool" where
  "lists_differ eq [] [] = False"
| "lists_differ eq (r # rs) (l # ls) = (if \<not> eq r l then True else lists_differ eq rs ls)"
| "lists_differ eq _ _ = True"

text \<open>
  The answer and the remote package, in which the reason is noted. \<open>None\<close> is \<open>strcmp\<close> of a
  null repository name.
\<close>

definition pkg_jobs_need_upgrade :: "pkg \<Rightarrow> pkg option \<Rightarrow> (bool \<times> pkg) option" where
  "pkg_jobs_need_upgrade rp lp = (case lp of
      None \<Rightarrow> Some (True, rp)
    | Some l \<Rightarrow>
       (if pkg_is_locked l then Some (False, rp)
        else if pkg_digest l \<noteq> None \<and> pkg_digest rp \<noteq> None \<and> pkg_digest l = pkg_digest rp then Some (False, rp)
        else let ret = pkg_version_cmp (pkg_version l) (pkg_version rp)
          in if ret > 0 then Some (False, rp)
        else if ret < 0 then Some (True, rp)
        else if pkg_repository l \<noteq> None \<and> pkg_reponame rp = None then None
        else if pkg_repository l \<noteq> None \<and> pkg_reponame rp \<noteq> pkg_repository l then Some (False, rp)
        else if pkg_arch l \<noteq> pkg_arch rp then Some (True, rp\<lparr>pkg_reason := Some ''ABI changed''\<rparr>)
        else if lists_differ (\<lambda>r l. opt_key l = opt_key r \<and> opt_value l = opt_value r) (pkg_options rp) (pkg_options l)
          then Some (True, rp\<lparr>pkg_reason := Some ''options changed''\<rparr>)
        else if lists_differ (\<lambda>r l. dep_name r = dep_name l) (pkg_deps rp) (pkg_deps l)
          then Some (True, rp\<lparr>pkg_reason := Some ''direct dependency changed''\<rparr>)
        else if lists_differ (\<lambda>r l. conf_uniqueid r = conf_uniqueid l) (pkg_conflicts rp) (pkg_conflicts l)
          then Some (True, rp\<lparr>pkg_reason := Some ''direct conflict changed''\<rparr>)
        else if lists_differ (\<lambda>r l. r = l) (pkg_provides rp) (pkg_provides l)
          then Some (True, rp\<lparr>pkg_reason := Some ''provides changed''\<rparr>)
        else if lists_differ (\<lambda>r l. r = l) (pkg_shlibs_required rp) (pkg_shlibs_required l)
          then Some (True, rp\<lparr>pkg_reason := Some ''needed shared library changed''\<rparr>)
        else Some (False, rp)))"

definition need_upgrade_run :: "pkg \<Rightarrow> pkg option \<Rightarrow> (bool \<times> pkg) run" where
  "need_upgrade_run rp lp = (case pkg_jobs_need_upgrade rp lp of None \<Rightarrow> Crash | Some r \<Rightarrow> Ret r)"

section \<open>Requests\<close>

definition pkg_jobs_add_req :: "item_id \<Rightarrow> pkg_jobs \<Rightarrow> pkg_jobs run" where
  "pkg_jobs_add_req item j =
     (let inst = is_installed (u_pkg (j_universe j) item)
      in if \<not> IS_DELETE j then
           (if inst then Crash
            else if hash_find item (j_request_add j) \<noteq> None then Ret j
            else Ret (j\<lparr>j_request_add := hash_add item False (j_request_add j)\<rparr>))
         else
           (if \<not> inst then Crash
            else if hash_find item (j_request_delete j) \<noteq> None then Ret j
            else Ret (j\<lparr>j_request_delete := hash_add item False (j_request_delete j)\<rparr>)))"

section \<open>Adding a package\<close>

definition with_digest :: "env \<Rightarrow> pkg \<Rightarrow> pkg option" where
  \<comment> \<open>the package with its digest, calculated when there is none\<close>
  "with_digest e pkg = (case pkg_digest pkg of
      Some d \<Rightarrow> Some pkg | None \<Rightarrow> pkg_checksum_calculate (e_sha256 e) (e_digest_format e) pkg)"

definition universe_insert :: "pkg \<Rightarrow> pkg_jobs_universe \<Rightarrow> pkg_jobs_universe" where
  \<comment> \<open>a new item, linked into the chain of its uid, with its digest seen\<close>
  "universe_insert pkg u =
     (let item = length (u_store u); uid = pkg_uniqueid pkg; digest = the (pkg_digest pkg)
      in u\<lparr>u_store := u_store u @ [\<lparr>it_pkg = pkg, it_jp = None, it_priority = 0\<rparr>],
           u_items := (if hash_find uid (u_items u) = None then hash_add uid [item] (u_items u)
                       else hash_upd uid (\<lambda>c. c @ [item]) (u_items u)),
           u_seen := (if hash_find digest (u_seen u) = None then hash_add digest item (u_seen u) else u_seen u),
           u_nitems := u_nitems u + 1\<rparr>)"

text \<open>
  The code, the item found or made, and the job; \<open>want\<close> tells whether the caller passed a
  place for the item (the error path writes to it without looking).
\<close>

definition pkg_jobs_universe_add_pkg ::
  "env \<Rightarrow> pkg \<Rightarrow> bool \<Rightarrow> bool \<Rightarrow> pkg_jobs \<Rightarrow> (epkg \<times> item_id option \<times> pkg_jobs) run" where
  "pkg_jobs_universe_add_pkg e pkg force want j = (case with_digest e pkg of
      None \<Rightarrow> if want then Ret (EPKG_FATAL, None, j) else Crash
    | Some pkg \<Rightarrow>
       (let u = j_universe j
        in case hash_find (the (pkg_digest pkg)) (u_seen u) of
             Some un \<Rightarrow> if \<not> force then Ret (EPKG_END, Some un, j)
               else Ret (EPKG_OK, Some (length (u_store u)), upd_universe (universe_insert pkg) j)
           | None \<Rightarrow> Ret (EPKG_OK, Some (length (u_store u)), upd_universe (universe_insert pkg) j)))"

section \<open>Adding what bears on a package\<close>

record deps_flags =
  df_reverse :: bool
  df_mirror :: bool
  df_force_local :: bool
  df_force_missing :: bool
  df_force_upgrade :: bool

text \<open>
  \<open>pkg_jobs_universe_process_item\<close> and the three functions it calls are mutually recursive. The
  loops take the recursive call as the argument \<open>rec\<close>: package and \<open>want\<close> to code, item and
  job. The package that is being processed is \<open>self\<close>, the item it has just got. A loop
  ends early with \<open>Some\<close> of the code it returns.
\<close>

type_synonym process_fun = "pkg \<Rightarrow> bool \<Rightarrow> pkg_jobs \<Rightarrow> (epkg \<times> item_id option \<times> pkg_jobs) run"

definition load_dep :: "env \<Rightarrow> deps_flags \<Rightarrow> string \<Rightarrow> pkg_jobs \<Rightarrow> (pkg option \<times> pkg option \<times> pkg_jobs) run" where
  \<comment> \<open>\<open>(npkg, rpkg)\<close>: the installed and the remote package of a dependency\<close>
  "load_dep e flags uid j =
     (let (npkg, j) = (if \<not> df_mirror flags then pkg_jobs_universe_get_local e j uid [] else (None, j))
      in if df_force_local flags then Ret (npkg, None, j)
         else (let (rpkg, j) = pkg_jobs_universe_get_remote e j uid []
               in case rpkg of
                    None \<Rightarrow> Ret (npkg, None, j)
                  | Some rp \<Rightarrow>
                     if df_force_upgrade flags then Ret (npkg, Some rp, j)
                     else run_bind (need_upgrade_run rp npkg)
                       (\<lambda>(need, rp). Ret (npkg, if need then Some rp else None, j))))"

definition process_rpkg :: "process_fun \<Rightarrow> pkg option \<Rightarrow> pkg option \<Rightarrow> pkg_jobs \<Rightarrow> (epkg option \<times> pkg_jobs) run" where
  \<comment> \<open>the remote package gets the automatic flag of the installed one\<close>
  "process_rpkg rec npkg rpkg j = (case rpkg of
      None \<Rightarrow> Ret (None, j)
    | Some rp \<Rightarrow>
       (let rp = (case npkg of None \<Rightarrow> rp | Some np \<Rightarrow> rp\<lparr>pkg_automatic := pkg_automatic np\<rparr>)
        in run_bind (rec rp False j) (\<lambda>(_, _, j). Ret (None, j))))"

definition process_dep ::
  "process_fun \<Rightarrow> env \<Rightarrow> deps_flags \<Rightarrow> pkg_dep \<Rightarrow> pkg_jobs \<Rightarrow> (epkg option \<times> pkg_jobs) run" where
  "process_dep rec e flags d j =
     (if pkg_jobs_universe_find (j_universe j) (dep_uid d) \<noteq> None then Ret (None, j)
      else run_bind (load_dep e flags (dep_uid d) j) (\<lambda>(npkg, rpkg, j).
        if npkg = None \<and> rpkg = None then
          (if df_force_missing flags then Ret (None, j) else Ret (Some EPKG_FATAL, j))
        else case npkg of
            Some np \<Rightarrow> run_bind (rec np True j) (\<lambda>(rc, unit, j).
              if rc \<noteq> EPKG_OK then Ret (None, j)
              else run_bind (case unit of
                  Some i \<Rightarrow> if df_mirror flags then pkg_jobs_add_req i j else Ret j
                | None \<Rightarrow> Ret j) (process_rpkg rec npkg rpkg))
          | None \<Rightarrow> process_rpkg rec npkg rpkg j))"

fun run_loop :: "('a \<Rightarrow> pkg_jobs \<Rightarrow> (epkg option \<times> pkg_jobs) run) \<Rightarrow> 'a list \<Rightarrow> pkg_jobs \<Rightarrow> (epkg \<times> pkg_jobs) run" where
  "run_loop f [] j = Ret (EPKG_OK, j)"
| "run_loop f (x # xs) j = run_bind (f x j) (\<lambda>(stop, j).
     case stop of Some rc \<Rightarrow> Ret (rc, j) | None \<Rightarrow> run_loop f xs j)"

definition pkg_jobs_universe_process_deps ::
  "process_fun \<Rightarrow> env \<Rightarrow> item_id \<Rightarrow> deps_flags \<Rightarrow> pkg_jobs \<Rightarrow> (epkg \<times> pkg_jobs) run" where
  "pkg_jobs_universe_process_deps rec e self flags j =
     (let pkg = u_pkg (j_universe j) self
      in run_loop (process_dep rec e flags) (if df_reverse flags then pkg_rdeps pkg else pkg_deps pkg) j)"

definition process_conflict ::
  "process_fun \<Rightarrow> env \<Rightarrow> item_id \<Rightarrow> pkg_conflict \<Rightarrow> pkg_jobs \<Rightarrow> (epkg option \<times> pkg_jobs) run" where
  "process_conflict rec e self c j =
     (let uid = conf_uniqueid c
      in if pkg_jobs_universe_find (j_universe j) uid \<noteq> None then Ret (None, j)
         else if is_installed (u_pkg (j_universe j) self) then
           (let (npkg, j) = pkg_jobs_universe_get_remote e j uid []
            in case npkg of
                 None \<Rightarrow> Ret (None, j)
               | Some np \<Rightarrow> run_bind (rec np False j) (\<lambda>(_, _, j). Ret (None, j)))
         else
           (let (npkg, j) = pkg_jobs_universe_get_local e j uid []
            in case npkg of
                 None \<Rightarrow> Ret (None, j)
               | Some np \<Rightarrow> run_bind (rec np False j) (\<lambda>(rc, _, j).
                   if rc \<noteq> EPKG_OK then Ret (None, j)
                   else if conf_type c \<noteq> PKG_CONFLICT_REMOTE_LOCAL then
                     (let (npkg, j) = pkg_jobs_universe_get_remote e j uid []
                      in case npkg of
                           None \<Rightarrow> Ret (None, j)
                         | Some np \<Rightarrow> run_bind (rec np False j) (\<lambda>(_, _, j). Ret (None, j)))
                   else Ret (None, j))))"

definition pkg_jobs_universe_process_conflicts ::
  "process_fun \<Rightarrow> env \<Rightarrow> item_id \<Rightarrow> pkg_jobs \<Rightarrow> (epkg \<times> pkg_jobs) run" where
  "pkg_jobs_universe_process_conflicts rec e self j =
     run_loop (process_conflict rec e self) (pkg_conflicts (u_pkg (j_universe j) self)) j"

subsection \<open>Providers of libraries\<close>

text \<open>
  The iterator fills the structure that \<open>rpkg\<close> points to. When that structure has been added
  to the universe and \<open>rpkg\<close> was not reset to \<open>NULL\<close>, the next package overwrites the
  package of the item: \<open>shared\<close> lists the items that share the structure. \<open>head\<close> is the
  position of the entry of the library in the table, \<open>prhead\<close>.
\<close>

definition alias_write :: "item_id list \<Rightarrow> pkg \<Rightarrow> pkg_jobs \<Rightarrow> pkg_jobs" where
  "alias_write shared rpkg j = foldl (\<lambda>j i. upd_universe (u_upd_pkg i (\<lambda>_. rpkg)) j) j shared"

definition new_item :: "pkg_jobs \<Rightarrow> pkg_jobs \<Rightarrow> item_id list" where
  \<comment> \<open>the item that a call of \<open>pkg_jobs_universe_process_item\<close> made for its argument, if it did\<close>
  "new_item before after =
     (let n = length (u_store (j_universe before))
      in if n < length (u_store (j_universe after)) then [n] else [])"

definition digested :: "env \<Rightarrow> pkg \<Rightarrow> pkg" where
  \<comment> \<open>the structure after it was passed to \<open>pkg_jobs_universe_add_pkg\<close>\<close>
  "digested e p = (case with_digest e p of None \<Rightarrow> p | Some q \<Rightarrow> q)"

definition process_shared ::
  "process_fun \<Rightarrow> env \<Rightarrow> pkg \<Rightarrow> item_id list \<Rightarrow> pkg_jobs \<Rightarrow> (epkg \<times> item_id option \<times> item_id list \<times> pkg_jobs) run" where
  \<comment> \<open>process the structure \<open>rpkg\<close>, which the items \<open>shared\<close> share; the new sharers\<close>
  "process_shared rec e rpkg shared j =
     (let rpkg = digested e rpkg; j = alias_write shared rpkg j
      in run_bind (rec rpkg True j) (\<lambda>(rc, unit, j'). Ret (rc, unit, shared @ new_item j j', j')))"

definition provide_append ::
  "string \<Rightarrow> item_id \<Rightarrow> nat option \<Rightarrow> pkg_jobs \<Rightarrow> nat option \<times> pkg_jobs" where
  "provide_append lib unit head j =
     (let pr = u_provides (j_universe j)
      in case head of
           None \<Rightarrow> (Some (length pr), upd_universe (\<lambda>u. u\<lparr>u_provides := hash_add lib [unit] pr\<rparr>) j)
         | Some k \<Rightarrow> (head, upd_universe (\<lambda>u. u\<lparr>u_provides := pr[k := (fst (pr ! k), snd (pr ! k) @ [unit])]\<rparr>) j))"

text \<open>
  The part of the loop body before a provider is recorded. \<open>PrNext\<close> is \<open>continue\<close> with the
  shared left behind, \<open>PrStop\<close> the return of an error, \<open>PrUnit\<close> the unit so far.
\<close>

datatype provider_step = PrNext "item_id list" | PrStop epkg | PrUnit "item_id option" pkg "item_id list"

definition provider_upgrade ::
  "process_fun \<Rightarrow> env \<Rightarrow> pkg \<Rightarrow> pkg \<Rightarrow> item_id option \<Rightarrow> bool \<Rightarrow> item_id list \<Rightarrow> pkg_jobs \<Rightarrow> (provider_step \<times> pkg_jobs) run" where
  \<comment> \<open>add the remote provider when it is newer than \<open>lp\<close>; \<open>reset\<close>: set \<open>rpkg\<close> to \<open>NULL\<close>\<close>
  "provider_upgrade rec e rpkg lp unit reset shared j =
     run_bind (need_upgrade_run rpkg (Some lp)) (\<lambda>(need, rpkg).
       let j = alias_write shared rpkg j
       in if \<not> need then Ret (PrUnit unit rpkg shared, j)
          else run_bind (process_shared rec e rpkg shared j) (\<lambda>(rc, unit, shared, j).
            if rc \<noteq> EPKG_OK then Ret (PrNext shared, j)
            else Ret (PrUnit unit rpkg (if reset then [] else shared), j)))"

definition provider_local ::
  "process_fun \<Rightarrow> env \<Rightarrow> pkg \<Rightarrow> item_id list \<Rightarrow> pkg_jobs \<Rightarrow> (provider_step \<times> pkg_jobs) run" where
  "provider_local rec e rpkg shared j =
     (case pkg_jobs_universe_find (j_universe j) (pkg_uniqueid rpkg) of
        Some unit \<Rightarrow> provider_upgrade rec e rpkg (u_pkg (j_universe j) unit) (Some unit) True shared j
      | None \<Rightarrow>
         (let (npkg, j) = pkg_jobs_universe_get_local e j (pkg_uniqueid rpkg) []
          in case npkg of
               None \<Rightarrow> Ret (PrUnit None rpkg shared, j)
             | Some np \<Rightarrow> run_bind (rec np True j) (\<lambda>(rc, unit, j).
                 if rc \<noteq> EPKG_OK then Ret (PrStop EPKG_FATAL, j)
                 else provider_upgrade rec e rpkg (digested e np) unit False shared j)))"

definition provider_digest :: "env \<Rightarrow> item_id \<Rightarrow> pkg \<Rightarrow> pkg_jobs \<Rightarrow> (string \<times> pkg_jobs) option" where
  \<comment> \<open>the digest that is looked up; a missing one is calculated for the requiring package\<close>
  "provider_digest e self rpkg j = (case pkg_digest rpkg of
      Some d \<Rightarrow> Some (d, j)
    | None \<Rightarrow> (case pkg_checksum_calculate (e_sha256 e) (e_digest_format e) (u_pkg (j_universe j) self) of
        None \<Rightarrow> None
      | Some p \<Rightarrow> Some (the (pkg_digest p), upd_universe (u_upd_pkg self (\<lambda>_. p)) j)))"

definition provider_unseen ::
  "process_fun \<Rightarrow> env \<Rightarrow> item_id \<Rightarrow> pkg \<Rightarrow> item_id list \<Rightarrow> pkg_jobs \<Rightarrow> (provider_step \<times> pkg_jobs) run" where
  \<comment> \<open>no unit so far: the provider itself, added or already seen\<close>
  "provider_unseen rec e self rpkg shared j = (case provider_digest e self rpkg j of
      None \<Rightarrow> Ret (PrStop EPKG_FATAL, j)
    | Some (digest, j) \<Rightarrow>
       (case pkg_jobs_universe_seen (j_universe j) digest of
          None \<Rightarrow> run_bind (process_shared rec e rpkg shared j) (\<lambda>(_, unit, _, j). Ret (PrUnit unit rpkg [], j))
        | Some un \<Rightarrow> Ret (PrUnit (Some un) rpkg shared, j)))"

text \<open>
  A provider whose unit is still \<open>NULL\<close> after that (its digest could not be calculated) is
  recorded with a null pointer that the solver dereferences: \<open>Crash\<close>.
\<close>

fun process_providers ::
  "process_fun \<Rightarrow> env \<Rightarrow> item_id \<Rightarrow> string \<Rightarrow> pkg list \<Rightarrow> item_id list \<Rightarrow> nat option \<Rightarrow> pkg_jobs \<Rightarrow>
     (epkg option \<times> pkg_jobs) run" where
  "process_providers rec e self lib [] shared head j = Ret (None, j)"
| "process_providers rec e self lib (rpkg # rpkgs) shared head j =
     run_bind (provider_local rec e rpkg shared (alias_write shared rpkg j)) (\<lambda>(s, j).
       case s of
         PrNext shared \<Rightarrow> process_providers rec e self lib rpkgs shared head j
       | PrStop rc \<Rightarrow> Ret (Some rc, j)
       | PrUnit unit rpkg shared \<Rightarrow>
           run_bind (case unit of
               Some i \<Rightarrow> Ret (s, j) | None \<Rightarrow> provider_unseen rec e self rpkg shared j) (\<lambda>(s, j).
             case s of
               PrUnit (Some unit) _ shared \<Rightarrow>
                 (let (head, j) = provide_append lib unit head j
                  in process_providers rec e self lib rpkgs shared head j)
             | PrUnit None _ shared \<Rightarrow> Crash
             | PrNext shared \<Rightarrow> process_providers rec e self lib rpkgs shared head j
             | PrStop rc \<Rightarrow> Ret (Some rc, j)))"

definition process_shlib ::
  "process_fun \<Rightarrow> env \<Rightarrow> item_id \<Rightarrow> string \<Rightarrow> pkg_jobs \<Rightarrow> (epkg option \<times> pkg_jobs) run" where
  "process_shlib rec e self lib j =
     (if hash_find lib (u_provides (j_universe j)) \<noteq> None then Ret (None, j)
      else process_providers rec e self lib
             (e_repo_shlib_provide e lib (j_reponame j)
               [PKG_LOAD_BASIC, PKG_LOAD_OPTIONS, PKG_LOAD_DEPS, PKG_LOAD_SHLIBS_REQUIRED,
                PKG_LOAD_SHLIBS_PROVIDED, PKG_LOAD_ANNOTATIONS, PKG_LOAD_CONFLICTS]) [] None j)"

definition pkg_jobs_universe_process_shlibs ::
  "process_fun \<Rightarrow> env \<Rightarrow> item_id \<Rightarrow> pkg_jobs \<Rightarrow> (epkg \<times> pkg_jobs) run" where
  "pkg_jobs_universe_process_shlibs rec e self j =
     run_loop (process_shlib rec e self) (pkg_shlibs_required (u_pkg (j_universe j) self)) j"

subsection \<open>One package\<close>

definition and_then :: "(epkg \<times> pkg_jobs) run \<Rightarrow> (pkg_jobs \<Rightarrow> (epkg \<times> pkg_jobs) run) \<Rightarrow> (epkg \<times> pkg_jobs) run" where
  \<comment> \<open>\<open>if (rc != EPKG_OK) return (rc);\<close>\<close>
  "and_then m f = run_bind m (\<lambda>(rc, j). if rc \<noteq> EPKG_OK then Ret (rc, j) else f j)"

definition process_related :: "process_fun \<Rightarrow> env \<Rightarrow> item_id \<Rightarrow> pkg_jobs \<Rightarrow> (epkg \<times> pkg_jobs) run" where
  \<comment> \<open>the \<open>switch\<close> on the type of the job\<close>
  "process_related rec e self j =
     (let flags = \<lparr>df_reverse = False, df_mirror = False, df_force_local = False,
            df_force_missing = flag_force_missing (j_flags j), df_force_upgrade = False\<rparr>;
          deps = pkg_jobs_universe_process_deps rec e self
      in case j_type j of
           PKG_JOBS_FETCH \<Rightarrow>
             if flag_recursive (j_flags j) then deps (flags\<lparr>df_mirror := True\<rparr>) j else Ret (EPKG_OK, j)
         | PKG_JOBS_AUTOREMOVE \<Rightarrow> Ret (EPKG_OK, j)
         | PKG_JOBS_DEINSTALL \<Rightarrow>
             if flag_recursive (j_flags j) then deps (flags\<lparr>df_reverse := True, df_force_local := True\<rparr>) j
             else Ret (EPKG_OK, j)
         | _ \<Rightarrow>
             and_then (deps flags j) (\<lambda>j.
             and_then (deps (flags\<lparr>df_reverse := True\<rparr>) j) (\<lambda>j.
             and_then (pkg_jobs_universe_process_conflicts rec e self j) (\<lambda>j.
               if \<not> is_installed (u_pkg (j_universe j) self)
               then pkg_jobs_universe_process_shlibs rec e self j else Ret (EPKG_OK, j)))))"

fun pkg_jobs_universe_process_item :: "nat \<Rightarrow> env \<Rightarrow> process_fun" where
  "pkg_jobs_universe_process_item 0 e pkg want j = NoFuel"
| "pkg_jobs_universe_process_item (Suc n) e pkg want j =
     run_bind (pkg_jobs_universe_add_pkg e pkg False want j) (\<lambda>(rc, found, j).
       if rc = EPKG_END then Ret (EPKG_OK, found, j)
       else if rc \<noteq> EPKG_OK then Ret (rc, found, j)
       else run_bind (process_related (pkg_jobs_universe_process_item n e) e (the found) j)
              (\<lambda>(rc, j). Ret (rc, found, j)))"

definition pkg_jobs_universe_process :: "nat \<Rightarrow> env \<Rightarrow> pkg \<Rightarrow> pkg_jobs \<Rightarrow> (epkg \<times> pkg_jobs) run" where
  "pkg_jobs_universe_process fuel e pkg j =
     run_bind (pkg_jobs_universe_process_item fuel e pkg False j) (\<lambda>(rc, _, j). Ret (rc, j))"

section \<open>The universe stays well formed\<close>

definition universe_good :: "pkg_jobs_universe \<Rightarrow> bool" where
  "universe_good u \<longleftrightarrow> universe_wf u \<and> universe_linked u"

lemma hash_upd_concat:
  "hash_wf h \<Longrightarrow> hash_find k h = Some c \<Longrightarrow>
     mset (concat (map snd (hash_upd k (\<lambda>c. c @ [x]) h))) = mset (concat (map snd h) @ [x])"
proof (induction h)
  case (Cons e h)
  obtain k' c' where e: "e = (k', c')" by fastforce
  show ?case
  proof (cases "k' = k")
    case True
    then have "k \<notin> fst ` set h" using Cons.prems(1) by (simp add: hash_wf_def e)
    then have "hash_upd k (\<lambda>c. c @ [x]) h = h" unfolding hash_upd_def by (intro map_idI) force
    with True show ?thesis by (simp add: e hash_upd_def)
  next
    case False
    then show ?thesis using Cons by (simp add: e hash_upd_def hash_wf_def hash_find_def)
  qed
qed (simp add: hash_find_def)

lemma insert_items:
  assumes "hash_wf (u_items u)"
  shows "mset (concat (map snd (u_items (universe_insert pkg u)))) =
      mset (concat (map snd (u_items u)) @ [length (u_store u)])"
    and "hash_wf (u_items (universe_insert pkg u))"
    and "(\<forall>c \<in> snd ` set (u_items u). c \<noteq> []) \<Longrightarrow> \<forall>c \<in> snd ` set (u_items (universe_insert pkg u)). c \<noteq> []"
proof -
  show "mset (concat (map snd (u_items (universe_insert pkg u)))) =
      mset (concat (map snd (u_items u)) @ [length (u_store u)])"
    using hash_upd_concat [OF assms, of "pkg_uniqueid pkg" _ "length (u_store u)"]
    by (cases "hash_find (pkg_uniqueid pkg) (u_items u)") (simp_all add: universe_insert_def Let_def hash_add_def)
  show "hash_wf (u_items (universe_insert pkg u))"
    using assms uh.wf_add [of "u_items u" "pkg_uniqueid pkg"] by (simp add: universe_insert_def Let_def)
  show "(\<forall>c \<in> snd ` set (u_items u). c \<noteq> []) \<Longrightarrow> \<forall>c \<in> snd ` set (u_items (universe_insert pkg u)). c \<noteq> []"
    by (auto simp: universe_insert_def Let_def hash_add_def hash_upd_def split: if_splits)
qed

lemma insert_fields [simp]:
  "length (u_store (universe_insert pkg u)) = Suc (length (u_store u))"
  "u_provides (universe_insert pkg u) = u_provides u"
  "u_nitems (universe_insert pkg u) = Suc (u_nitems u)"
  by (simp_all add: universe_insert_def Let_def)

lemma universe_good_insert: "universe_good u \<Longrightarrow> universe_good (universe_insert pkg u)"
proof -
  assume g: "universe_good u"
  then have w: "hash_wf (u_items u)" by (simp add: universe_good_def universe_wf_def)
  let ?n = "length (u_store u)" and ?u = "universe_insert pkg u"
  note ms = insert_items(1) [OF w, of pkg]
  have items: "\<forall>i \<in> set (concat (map snd (u_items u))). i < ?n" and d: "distinct (concat (map snd (u_items u)))"
    using g by (auto simp: universe_good_def universe_wf_def)
  then have "distinct (concat (map snd (u_items u)) @ [?n])" by force
  then have d': "distinct (concat (map snd (u_items ?u)))" using ms by (metis mset_eq_imp_distinct_iff)
  have s': "set (concat (map snd (u_items ?u))) = insert ?n (set (concat (map snd (u_items u))))"
    using arg_cong [OF ms, of set_mset] by simp
  have l': "length (concat (map snd (u_items ?u))) = Suc (length (concat (map snd (u_items u))))"
    using arg_cong [OF ms, of size] by simp
  have seen: "hash_wf (u_seen ?u)" "\<forall>i \<in> snd ` set (u_seen ?u). i < Suc ?n"
    using g uh.wf_add [of "u_seen u"]
    by (auto simp: universe_insert_def Let_def hash_add_def universe_good_def universe_wf_def less_SucI)
  have items': "\<forall>i \<in> set (concat (map snd (u_items ?u))). i < Suc ?n"
    unfolding s' using items less_SucI by blast
  have provides: "\<forall>c \<in> snd ` set (u_provides ?u). \<forall>i \<in> set c. i < Suc ?n"
    using g by (auto simp: universe_good_def universe_wf_def intro: less_SucI)
  have rest: "\<forall>c \<in> snd ` set (u_items ?u). c \<noteq> []" "u_nitems u = ?n" "length (concat (map snd (u_items u))) = u_nitems u"
    by (rule insert_items(3) [OF w]) (use g in \<open>simp_all add: universe_good_def universe_wf_def universe_linked_def\<close>)
  show ?thesis
    unfolding universe_good_def universe_wf_def universe_linked_def insert_fields
    using insert_items(2) [OF w, of pkg] d' items' seen provides rest l' by (intro conjI) simp_all
qed

lemma universe_good_cong:
  "universe_good u \<Longrightarrow> length (u_store v) = length (u_store u) \<Longrightarrow> u_items v = u_items u \<Longrightarrow>
   u_seen v = u_seen u \<Longrightarrow> u_nitems v = u_nitems u \<Longrightarrow>
   (\<forall>c \<in> snd ` set (u_provides v). \<forall>i \<in> set c. i < length (u_store u)) \<Longrightarrow> universe_good v"
  by (simp add: universe_good_def universe_wf_def universe_linked_def)

lemma universe_good_upd_pkg [simp]: "universe_good u \<Longrightarrow> universe_good (u_upd_pkg i f u)"
  by (rule universe_good_cong) (auto simp: u_upd_pkg_def u_upd_item_def universe_good_def universe_wf_def)

section \<open>One proof for three facts\<close>

text \<open>
  The functions above are analysed once, for three purposes: they keep the universe well formed;
  they keep the uids of the chains (\<open>U\<close>, which needs that no structure is shared); and they end
  (\<open>b\<close> is \<open>False\<close>: running out of fuel is not acceptable). \<open>Q\<close> holds of every package that is
  ever handled, \<open>M\<close> bounds the depth of the recursion.
\<close>

primrec run_post :: "bool \<Rightarrow> ('a \<Rightarrow> bool) \<Rightarrow> 'a run \<Rightarrow> bool" where
  "run_post b P (Ret x) = P x"
| "run_post b P Crash = True"
| "run_post b P NoFuel = b"

lemma run_post_bind:
  "run_post b P m \<Longrightarrow> (\<And>x. P x \<Longrightarrow> run_post b R (f x)) \<Longrightarrow> run_post b R (run_bind m f)"
  by (cases m) simp_all

definition seen_set :: "pkg_jobs \<Rightarrow> string set" where
  "seen_set j = fst ` set (u_seen (j_universe j))"

definition store_size :: "pkg_jobs \<Rightarrow> nat" where
  "store_size j = length (u_store (j_universe j))"

definition grows :: "pkg_jobs \<Rightarrow> pkg_jobs \<Rightarrow> bool" where
  "grows j j' \<longleftrightarrow> seen_set j \<subseteq> seen_set j' \<and> store_size j \<le> store_size j'"

lemma grows_refl [simp]: "grows j j"
  by (simp add: grows_def)

lemma grows_trans [trans]: "grows j k \<Longrightarrow> grows k l \<Longrightarrow> grows j l"
  by (auto simp: grows_def)

definition job_good :: "bool \<Rightarrow> (pkg \<Rightarrow> bool) \<Rightarrow> pkg_jobs \<Rightarrow> bool" where
  "job_good U Q j \<longleftrightarrow> universe_good (j_universe j) \<and> (U \<longrightarrow> universe_uids (j_universe j))
     \<and> (\<forall>it \<in> set (u_store (j_universe j)). Q (it_pkg it))"

definition closed :: "bool \<Rightarrow> (pkg \<Rightarrow> bool) \<Rightarrow> env \<Rightarrow> bool" where
  "closed U Q e \<longleftrightarrow>
     (\<forall>s m fl. \<forall>p \<in> set (e_query e s m fl). Q p)
     \<and> (\<forall>s m r fl. \<forall>p \<in> set (e_repo_query e s m r fl). Q p)
     \<and> (\<forall>l r fl. (\<forall>p \<in> set (e_repo_shlib_provide e l r fl). Q p)
          \<and> (U \<longrightarrow> length (e_repo_shlib_provide e l r fl) \<le> 1))
     \<and> (\<forall>p fl. Q p \<longrightarrow> Q (e_ensure_loaded e p fl))
     \<and> (U \<longrightarrow> (\<forall>p fl. pkg_uniqueid (e_ensure_loaded e p fl) = pkg_uniqueid p))
     \<and> (\<forall>p r. Q p \<longrightarrow> Q (p\<lparr>pkg_reason := r\<rparr>))
     \<and> (\<forall>p a. Q p \<longrightarrow> Q (p\<lparr>pkg_automatic := a\<rparr>))
     \<and> (\<forall>p q. Q p \<longrightarrow> pkg_checksum_calculate (e_sha256 e) (e_digest_format e) p = Some q \<longrightarrow> Q q)"

definition found_ok :: "item_id option \<Rightarrow> pkg_jobs \<Rightarrow> bool" where
  "found_ok found j \<longleftrightarrow> (case found of None \<Rightarrow> True | Some i \<Rightarrow> i < store_size j)"

definition after :: "bool \<Rightarrow> (pkg \<Rightarrow> bool) \<Rightarrow> pkg_jobs \<Rightarrow> pkg_jobs \<Rightarrow> bool" where
  "after U Q j j' \<longleftrightarrow> job_good U Q j' \<and> grows j j'"

definition rec_ok :: "bool \<Rightarrow> bool \<Rightarrow> (pkg \<Rightarrow> bool) \<Rightarrow> (pkg_jobs \<Rightarrow> bool) \<Rightarrow> process_fun \<Rightarrow> bool" where
  "rec_ok b U Q M rec \<longleftrightarrow> (\<forall>p w j. job_good U Q j \<longrightarrow> Q p \<longrightarrow> M j \<longrightarrow>
     run_post b (\<lambda>(rc, found, j'). after U Q j j' \<and> found_ok found j' \<and> (rc = EPKG_OK \<longrightarrow> found \<noteq> None)) (rec p w j))"

lemma afterI: "job_good U Q j' \<Longrightarrow> grows j j' \<Longrightarrow> after U Q j j'"
  by (simp add: after_def)

lemma after_trans: "after U Q j k \<Longrightarrow> after U Q k l \<Longrightarrow> after U Q j l"
  using grows_trans by (auto simp: after_def)

lemma after_refl: "job_good U Q j \<Longrightarrow> after U Q j j"
  by (simp add: after_def)

lemma u_upd_pkg_fields:
  "length (u_store (u_upd_pkg i f u)) = length (u_store u)" "u_items (u_upd_pkg i f u) = u_items u"
  "u_seen (u_upd_pkg i f u) = u_seen u" "u_provides (u_upd_pkg i f u) = u_provides u"
  by (simp_all add: u_upd_pkg_def u_upd_item_def)

lemma u_pkg_upd: "k < length (u_store u) \<Longrightarrow> u_pkg (u_upd_pkg i f u) k = (if k = i then f (u_pkg u i) else u_pkg u k)"
  by (auto simp: u_pkg_def u_upd_pkg_def u_upd_item_def nth_list_update)

lemma job_good_upd_pkg:
  assumes g: "job_good U Q j" and q: "Q p" and u: "U \<longrightarrow> pkg_uniqueid p = pkg_uniqueid (u_pkg (j_universe j) i)"
  shows "after U Q j (upd_universe (u_upd_pkg i (\<lambda>_. p)) j)"
proof -
  let ?u = "j_universe j"
  have store: "it \<in> set (u_store (u_upd_pkg i (\<lambda>_. p) ?u)) \<Longrightarrow> Q (it_pkg it)" for it
    using g q set_update_subset_insert [of "u_store ?u" i "(u_store ?u ! i)\<lparr>it_pkg := p\<rparr>"]
    by (auto simp: job_good_def u_upd_pkg_def u_upd_item_def)
  have uids: "universe_uids (u_upd_pkg i (\<lambda>_. p) ?u)" if U
  proof -
    have old: "universe_uids ?u" and w: "universe_wf ?u"
      using g that by (simp_all add: job_good_def universe_good_def)
    have "pkg_uniqueid (u_pkg (u_upd_pkg i (\<lambda>_. p) ?u) k) = pkg_uniqueid (u_pkg ?u k)" if "k < length (u_store ?u)" for k
      using u \<open>U\<close> u_pkg_upd [OF that] by simp
    then show ?thesis using old w
      by (fastforce simp: universe_uids_def u_upd_pkg_fields universe_wf_def)
  qed
  show ?thesis using g store uids
    by (auto simp: after_def job_good_def upd_universe_def grows_def seen_set_def store_size_def u_upd_pkg_fields)
qed

lemma job_good_store: "job_good U Q j \<Longrightarrow> i < store_size j \<Longrightarrow> Q (u_pkg (j_universe j) i)"
  by (simp add: job_good_def store_size_def u_pkg_def)

lemma found_chain:
  assumes "universe_good u" and "pkg_jobs_universe_find u uid = Some i"
  shows "i < length (u_store u)" and "universe_uids u \<longrightarrow> pkg_uniqueid (u_pkg u i) = uid"
proof -
  obtain c where c: "hash_find uid (u_items u) = Some c" and i: "i = hd c"
    using assms(2) by (auto simp: pkg_jobs_universe_find_def split: option.splits)
  have m: "(uid, c) \<in> set (u_items u)" using uh.find_SomeD [OF c] .
  then have "c \<noteq> []" using assms(1) by (force simp: universe_good_def universe_wf_def)
  then have h: "hd c \<in> set c" by simp
  show "i < length (u_store u)" using m h assms(1) by (force simp: i universe_good_def universe_wf_def)
  show "universe_uids u \<longrightarrow> pkg_uniqueid (u_pkg u i) = uid" using m h by (force simp: i universe_uids_def)
qed

lemma select_newest_mem: "select_newest ps = Some p \<Longrightarrow> p \<in> set ps"
proof -
  have "foldl (\<lambda>selected p. case selected of None \<Rightarrow> Some p
      | Some s \<Rightarrow> if pkg_version_change_between p (Some s) = PKG_UPGRADE then Some p else Some s) a ps = Some p
      \<Longrightarrow> p \<in> set ps \<or> a = Some p" for a
    by (induction ps arbitrary: a) (auto split: option.splits if_splits)
  then show "select_newest ps = Some p \<Longrightarrow> p \<in> set ps" by (fastforce simp: select_newest_def)
qed

lemma closedD:
  assumes "closed U Q e"
  shows "p \<in> set (e_query e s m fl) \<Longrightarrow> Q p" and "p \<in> set (e_repo_query e s m r fl) \<Longrightarrow> Q p"
    and "p \<in> set (e_repo_shlib_provide e l r fl) \<Longrightarrow> Q p"
    and "U \<Longrightarrow> length (e_repo_shlib_provide e l r fl) \<le> 1"
    and "Q p \<Longrightarrow> Q (e_ensure_loaded e p fl)" and "U \<Longrightarrow> pkg_uniqueid (e_ensure_loaded e p fl) = pkg_uniqueid p"
    and "Q p \<Longrightarrow> Q (p\<lparr>pkg_reason := rs\<rparr>)" and "Q p \<Longrightarrow> Q (p\<lparr>pkg_automatic := a\<rparr>)"
    and "Q p \<Longrightarrow> pkg_checksum_calculate (e_sha256 e) (e_digest_format e) p = Some q \<Longrightarrow> Q q"
  using assms by (simp_all add: closed_def)

lemma get_local_ok:
  assumes c: "closed U Q e" and g: "job_good U Q j" and r: "pkg_jobs_universe_get_local e j uid fl = (p, j')"
  shows "after U Q j j' \<and> (case p of None \<Rightarrow> True | Some p \<Rightarrow> Q p)"
proof -
  have s: "e_query e (Some uid) MATCH_EXACT fl = p # ps \<Longrightarrow> Q p" for fl p ps
    using closedD(1) [OF c, of p "Some uid" MATCH_EXACT fl] by simp
  show ?thesis
  proof (cases "pkg_jobs_universe_find (j_universe j) uid")
    case None
    then show ?thesis using s after_refl [OF g] r
      by (auto simp: pkg_jobs_universe_get_local_def Let_def split: list.splits if_splits)
  next
    case (Some i)
    have i: "i < store_size j" using found_chain [OF _ Some] g by (simp add: job_good_def store_size_def)
    have q: "Q (u_pkg (j_universe j) i)" using job_good_store [OF g i] .
    have "after U Q j (upd_universe (u_upd_pkg i (\<lambda>_. e_ensure_loaded e (u_pkg (j_universe j) i) fl)) j)
        \<and> Q (e_ensure_loaded e (u_pkg (j_universe j) i) fl)" for fl
      using job_good_upd_pkg [OF g] closedD(5,6) [OF c] q by simp
    then show ?thesis using Some s after_refl [OF g] r
      by (auto simp: pkg_jobs_universe_get_local_def Let_def split: list.splits if_splits)
  qed
qed

lemma get_remote_ok:
  assumes c: "closed U Q e" and g: "job_good U Q j" and r: "pkg_jobs_universe_get_remote e j uid fl = (p, j')"
  shows "after U Q j j' \<and> (case p of None \<Rightarrow> True | Some p \<Rightarrow> Q p)"
proof -
  have s: "case select_newest (e_repo_query e (Some uid) MATCH_EXACT rn fl) of None \<Rightarrow> True | Some p \<Rightarrow> Q p" for rn fl
    by (auto split: option.split dest!: select_newest_mem intro: closedD(2) [OF c])
  show ?thesis
  proof (cases "pkg_jobs_universe_find (j_universe j) uid")
    case None
    then show ?thesis using s after_refl [OF g] r by (auto simp: pkg_jobs_universe_get_remote_def Let_def)
  next
    case (Some i)
    have i: "i < store_size j" using found_chain [OF _ Some] g by (simp add: job_good_def store_size_def)
    have q: "Q (u_pkg (j_universe j) i)" using job_good_store [OF g i] .
    have "after U Q j (upd_universe (u_upd_pkg i (\<lambda>_. e_ensure_loaded e (u_pkg (j_universe j) i) fl)) j)
        \<and> Q (e_ensure_loaded e (u_pkg (j_universe j) i) fl)" for fl
      using job_good_upd_pkg [OF g] closedD(5,6) [OF c] q by simp
    then show ?thesis using Some s after_refl [OF g] r
      by (auto simp: pkg_jobs_universe_get_remote_def Let_def split: if_splits)
  qed
qed

lemma need_upgrade_ok:
  assumes "closed U Q e" and "Q rp"
  shows "run_post b (\<lambda>(need, p). Q p \<and> pkg_uniqueid p = pkg_uniqueid rp) (need_upgrade_run rp lp)"
proof -
  have q: "Q (rp\<lparr>pkg_reason := r\<rparr>)" for r using assms by (simp add: closed_def)
  show ?thesis
    using assms(2) q
    by (cases lp) (simp_all add: need_upgrade_run_def pkg_jobs_need_upgrade_def Let_def)
qed


lemma digested_ok: "closed U Q e \<Longrightarrow> Q p \<Longrightarrow> Q (digested e p)"
  using closedD(9) by (auto simp: digested_def with_digest_def split: option.splits)

lemma calculate_uid: "pkg_checksum_calculate sha fmt p = Some q \<Longrightarrow> pkg_uniqueid q = pkg_uniqueid p"
  by (auto simp: pkg_checksum_calculate_def Let_def split: option.splits)

lemma digested_uid: "pkg_uniqueid (digested e p) = pkg_uniqueid p"
  using calculate_uid by (auto simp: digested_def with_digest_def split: option.splits)

lemma alias_write_ok:
  "job_good U Q j \<Longrightarrow> Q p \<Longrightarrow> (U \<longrightarrow> shared = []) \<Longrightarrow> after U Q j (alias_write shared p j)"
proof -
  assume g: "job_good U Q j" and q: "Q p" and u: "U \<longrightarrow> shared = []"
  have "\<not> U \<Longrightarrow> after U Q j (foldl (\<lambda>j i. upd_universe (u_upd_pkg i (\<lambda>_. p)) j) k shared)" if "after U Q j k" for k
    using that
  proof (induction shared arbitrary: k)
    case (Cons i shared)
    have "after U Q k (upd_universe (u_upd_pkg i (\<lambda>_. p)) k)"
      using Cons.prems job_good_upd_pkg [of U Q k p i] q by (simp add: after_def)
    with Cons show ?case using after_trans by fastforce
  qed simp
  then show ?thesis using u after_refl [OF g] by (cases U) (auto simp: alias_write_def)
qed

lemma with_digest_Some:
  "with_digest e p = Some q \<Longrightarrow> digested e p = q \<and> pkg_digest q \<noteq> None \<and> pkg_uniqueid q = pkg_uniqueid p"
proof (cases "pkg_digest p")
  case None
  assume "with_digest e p = Some q"
  with None have c: "pkg_checksum_calculate (e_sha256 e) (e_digest_format e) p = Some q" by (simp add: with_digest_def)
  then have "pkg_digest q \<noteq> None" by (auto simp: pkg_checksum_calculate_def Let_def split: option.splits)
  with None c calculate_uid [OF c] show ?thesis by (simp add: digested_def with_digest_def)
qed (simp add: digested_def with_digest_def)

lemma insert_uids:
  assumes g: "universe_good u" and old: "universe_uids u"
  shows "universe_uids (universe_insert p u)"
proof -
  let ?v = "universe_insert p u" and ?n = "length (u_store u)"
  have pk: "u_pkg ?v i = (if i < ?n then u_pkg u i else p)" if "i \<le> ?n" for i
    using that by (simp add: u_pkg_def universe_insert_def Let_def nth_append)
  have mem: "i < ?n \<and> pkg_uniqueid (u_pkg u i) = uid" if "(uid, c) \<in> set (u_items u)" "i \<in> set c" for uid c i
    using that g old by (force simp: universe_good_def universe_wf_def universe_uids_def)
  have new: "(uid, c) \<in> set (u_items u) \<or> (uid = pkg_uniqueid p \<and>
      (c = [?n] \<or> (\<exists>c'. (uid, c') \<in> set (u_items u) \<and> c = c' @ [?n])))" if "(uid, c) \<in> set (u_items ?v)" for uid c
    using that by (auto simp: universe_insert_def Let_def hash_add_def hash_upd_def split: if_splits)
  show ?thesis unfolding universe_uids_def
  proof (clarify)
    fix uid c i assume c: "(uid, c) \<in> set (u_items ?v)" and i: "i \<in> set c"
    from new [OF c] i mem have "(i < ?n \<and> pkg_uniqueid (u_pkg u i) = uid) \<or> (i = ?n \<and> uid = pkg_uniqueid p)"
      by fastforce
    with pk show "pkg_uniqueid (u_pkg ?v i) = uid" by auto
  qed
qed

lemma insert_ok:
  assumes g: "job_good U Q j" and q: "Q p" and d: "pkg_digest p = Some d"
  shows "after U Q j (upd_universe (universe_insert p) j)"
    and "store_size (upd_universe (universe_insert p) j) = Suc (store_size j)"
    and "d \<in> seen_set (upd_universe (universe_insert p) j)"
proof -
  let ?u = "j_universe j"
  have gu: "universe_good ?u" using g by (simp add: job_good_def)
  have st: "u_store (universe_insert p ?u) = u_store ?u @ [\<lparr>it_pkg = p, it_jp = None, it_priority = 0\<rparr>]"
    by (simp add: universe_insert_def Let_def)
  have seen: "fst ` set (u_seen (universe_insert p ?u)) = insert d (fst ` set (u_seen ?u))"
    using uh.find_None [of d "u_seen ?u"] by (auto simp: universe_insert_def Let_def hash_add_def d)
  show "store_size (upd_universe (universe_insert p) j) = Suc (store_size j)"
    and "d \<in> seen_set (upd_universe (universe_insert p) j)"
    by (simp_all add: store_size_def seen_set_def upd_universe_def seen)
  show "after U Q j (upd_universe (universe_insert p) j)"
    using universe_good_insert [OF gu] insert_uids [OF gu] g q
    by (auto simp: after_def job_good_def upd_universe_def grows_def seen_set_def store_size_def seen st)
qed

lemma add_pkg_ok:
  assumes c: "closed U Q e" and g: "job_good U Q j" and q: "Q p"
  shows "run_post b (\<lambda>(rc, found, j'). after U Q j j' \<and> found_ok found j'
      \<and> (rc = EPKG_END \<longrightarrow> found \<noteq> None)
      \<and> (rc = EPKG_OK \<longrightarrow> found \<noteq> None \<and> (\<exists>d. pkg_digest (digested e p) = Some d \<and> (f \<or> d \<notin> seen_set j) \<and> d \<in> seen_set j')))
    (pkg_jobs_universe_add_pkg e p f w j)"
proof (cases "with_digest e p")
  case None
  then show ?thesis using after_refl [OF g] by (simp add: pkg_jobs_universe_add_pkg_def found_ok_def)
next
  case (Some p2)
  then obtain d where d: "pkg_digest p2 = Some d" and dg: "digested e p = p2" using with_digest_Some by fastforce
  have q2: "Q p2" using digested_ok [OF c q] dg by simp
  note ins = insert_ok [OF g q2 d]
  show ?thesis
  proof (cases "hash_find d (u_seen (j_universe j))")
    case None
    then have "d \<notin> seen_set j" using uh.find_None by (fastforce simp: seen_set_def)
    with None Some ins dg d show ?thesis
      by (simp add: pkg_jobs_universe_add_pkg_def found_ok_def store_size_def)
  next
    case un: (Some un)
    have "un < store_size j"
      using uh.find_SomeD [OF un] g by (force simp: job_good_def universe_good_def universe_wf_def store_size_def)
    with un Some ins dg d after_refl [OF g] show ?thesis
      by (simp add: pkg_jobs_universe_add_pkg_def found_ok_def store_size_def)
  qed
qed

lemma run_post_mono: "run_post b P m \<Longrightarrow> (\<And>x. P x \<Longrightarrow> R x) \<Longrightarrow> run_post b R m"
  by (cases m) simp_all

text \<open>The bound \<open>M\<close> only gets better as the universe grows.\<close>

definition antitone :: "(pkg_jobs \<Rightarrow> bool) \<Rightarrow> bool" where
  "antitone M \<longleftrightarrow> (\<forall>j j'. grows j j' \<longrightarrow> M j \<longrightarrow> M j')"

lemma after_M: "antitone M \<Longrightarrow> M j \<Longrightarrow> after U Q j j' \<Longrightarrow> M j'"
  by (auto simp: antitone_def after_def)

lemma rec_post:
  "rec_ok b U Q M rec \<Longrightarrow> after U Q i j \<Longrightarrow> M j \<Longrightarrow> Q p \<Longrightarrow>
     run_post b (\<lambda>(rc, found, j'). after U Q i j' \<and> found_ok found j' \<and> (rc = EPKG_OK \<longrightarrow> found \<noteq> None)) (rec p w j)"
proof -
  assume r: "rec_ok b U Q M rec" and a: "after U Q i j" and m: "M j" and q: "Q p"
  have "run_post b (\<lambda>(rc, found, j'). after U Q j j' \<and> found_ok found j' \<and> (rc = EPKG_OK \<longrightarrow> found \<noteq> None)) (rec p w j)"
    using r a m q by (simp add: rec_ok_def after_def)
  then show ?thesis using after_trans [OF a] by (cases "rec p w j") auto
qed

lemma load_dep_ok:
  assumes c: "closed U Q e" and g: "job_good U Q j"
  shows "run_post b (\<lambda>(np, rp, j'). after U Q j j' \<and> (\<forall>p. np = Some p \<longrightarrow> Q p) \<and> (\<forall>p. rp = Some p \<longrightarrow> Q p))
    (load_dep e fl uid j)"
proof -
  obtain np j1 where l: "(if \<not> df_mirror fl then pkg_jobs_universe_get_local e j uid [] else (None, j)) = (np, j1)"
    by fastforce
  have 1: "after U Q j j1" and n: "\<forall>p. np = Some p \<longrightarrow> Q p"
    using l get_local_ok [OF c g, of uid "[]" np j1] after_refl [OF g] by (auto split: if_splits)
  obtain rp j2 where r: "pkg_jobs_universe_get_remote e j1 uid [] = (rp, j2)" by fastforce
  have g1: "job_good U Q j1" using 1 by (simp add: after_def)
  have 2: "after U Q j j2" and q: "\<forall>p. rp = Some p \<longrightarrow> Q p"
    using get_remote_ok [OF c g1 r] after_trans [OF 1] by auto
  have "run_post b (\<lambda>(np, rp, j'). after U Q j j' \<and> (\<forall>p. np = Some p \<longrightarrow> Q p) \<and> (\<forall>p. rp = Some p \<longrightarrow> Q p))
      (run_bind (need_upgrade_run p np) (\<lambda>(need, rp). Ret (np, if need then Some rp else None, j2)))" if "Q p" for p
    by (rule run_post_bind [OF need_upgrade_ok [OF c that]]) (use 2 n in auto)
  with l r 1 2 n q show ?thesis by (auto simp: load_dep_def Let_def split: option.split)
qed

lemma process_rpkg_ok:
  assumes c: "closed U Q e" and r: "rec_ok b U Q M rec" and a: "after U Q i j" and m: "M j"
    and q: "\<forall>p. rp = Some p \<longrightarrow> Q p"
  shows "run_post b (\<lambda>(stop, j'). after U Q i j') (process_rpkg rec np rp j)"
proof (cases rp)
  case (Some p)
  let ?p = "case np of None \<Rightarrow> p | Some np \<Rightarrow> p\<lparr>pkg_automatic := pkg_automatic np\<rparr>"
  have "Q ?p" using q Some closedD(8) [OF c] by (auto split: option.split)
  from rec_post [OF r a m this]
  have "run_post b (\<lambda>(stop, j'). after U Q i j') (run_bind (rec ?p False j) (\<lambda>(_, _, j). Ret (None, j)))"
    by (rule run_post_bind) auto
  with Some show ?thesis by (simp add: process_rpkg_def Let_def)
qed (use a in \<open>simp add: process_rpkg_def\<close>)

lemma add_req_ok:
  assumes "after U Q i j"
  shows "run_post b (\<lambda>j'. after U Q i j' \<and> j_universe j' = j_universe j) (pkg_jobs_add_req x j)"
  using assms by (auto simp: pkg_jobs_add_req_def Let_def after_def job_good_def grows_def seen_set_def store_size_def)

lemma process_dep_ok:
  assumes c: "closed U Q e" and r: "rec_ok b U Q M rec" and am: "antitone M"
    and g: "job_good U Q j" and m: "M j"
  shows "run_post b (\<lambda>(stop, j'). after U Q j j') (process_dep rec e fl d j)"
proof -
  have body: "run_post b (\<lambda>(stop, j'). after U Q j j')
      (if np = None \<and> rp = None then (if df_force_missing fl then Ret (None, k) else Ret (Some EPKG_FATAL, k))
       else case np of
           Some p \<Rightarrow> run_bind (rec p True k) (\<lambda>(rc, unit, k).
             if rc \<noteq> EPKG_OK then Ret (None, k)
             else run_bind (case unit of
                 Some i \<Rightarrow> if df_mirror fl then pkg_jobs_add_req i k else Ret k
               | None \<Rightarrow> Ret k) (process_rpkg rec np rp))
         | None \<Rightarrow> process_rpkg rec np rp k)"
    if a: "after U Q j k" and n: "\<forall>p. np = Some p \<longrightarrow> Q p" and q: "\<forall>p. rp = Some p \<longrightarrow> Q p" for np rp k
  proof (cases np)
    case None
    then show ?thesis using process_rpkg_ok [OF c r a after_M [OF am m a] q] a by simp
  next
    case (Some p)
    have X: "run_post b (\<lambda>(rc, found, k'). after U Q j k' \<and> found_ok found k' \<and> (rc = EPKG_OK \<longrightarrow> found \<noteq> None)) (rec p True k)"
      using rec_post [OF r a after_M [OF am m a]] n Some by simp
    have Y: "run_post b (\<lambda>(stop, j'). after U Q j j') (run_bind (case unit of
                 Some i \<Rightarrow> if df_mirror fl then pkg_jobs_add_req i k' else Ret k'
               | None \<Rightarrow> Ret k') (process_rpkg rec np rp))" if k': "after U Q j k'" for unit k'
    proof (rule run_post_bind [where P = "\<lambda>k'. after U Q j k'"])
      show "run_post b (after U Q j) (case unit of
                 Some i \<Rightarrow> if df_mirror fl then pkg_jobs_add_req i k' else Ret k' | None \<Rightarrow> Ret k')"
        using k' run_post_mono [OF add_req_ok [OF k', of b], of "after U Q j"] by (cases unit) simp_all
      show "run_post b (\<lambda>(stop, j'). after U Q j j') (process_rpkg rec np rp x)" if "after U Q j x" for x
        using process_rpkg_ok [OF c r that after_M [OF am m that] q] .
    qed
    have "run_post b (\<lambda>(stop, j'). after U Q j j') (run_bind (rec p True k) (\<lambda>(rc, unit, k).
             if rc \<noteq> EPKG_OK then Ret (None, k)
             else run_bind (case unit of
                 Some i \<Rightarrow> if df_mirror fl then pkg_jobs_add_req i k else Ret k
               | None \<Rightarrow> Ret k) (process_rpkg rec np rp)))"
    proof (rule run_post_bind [OF X], clarify)
      fix rc unit k' assume k': "after U Q j k'"
      show "run_post b (\<lambda>(stop, j'). after U Q j j') (if rc \<noteq> EPKG_OK then Ret (None, k')
             else run_bind (case unit of
                 Some i \<Rightarrow> if df_mirror fl then pkg_jobs_add_req i k' else Ret k'
               | None \<Rightarrow> Ret k') (process_rpkg rec np rp))"
        using Y [OF k', of unit] k' by (cases "rc = EPKG_OK")
          (simp_all only: prod.case not_True_eq_False not_False_eq_True if_True if_False run_post.simps simp_thms)
    qed
    then show ?thesis using Some by simp
  qed
  have "run_post b (\<lambda>(stop, j'). after U Q j j') (run_bind (load_dep e fl (dep_uid d) j) (\<lambda>(np, rp, k).
       if np = None \<and> rp = None then (if df_force_missing fl then Ret (None, k) else Ret (Some EPKG_FATAL, k))
       else case np of
           Some p \<Rightarrow> run_bind (rec p True k) (\<lambda>(rc, unit, k).
             if rc \<noteq> EPKG_OK then Ret (None, k)
             else run_bind (case unit of
                 Some i \<Rightarrow> if df_mirror fl then pkg_jobs_add_req i k else Ret k
               | None \<Rightarrow> Ret k) (process_rpkg rec np rp))
         | None \<Rightarrow> process_rpkg rec np rp k))"
    by (rule run_post_bind [OF load_dep_ok [OF c g]]) (use body in auto)
  then show ?thesis using after_refl [OF g] by (simp add: process_dep_def)
qed


lemma run_loop_ok:
  assumes am: "antitone M" and f: "\<And>x k. x \<in> set xs \<Longrightarrow> job_good U Q k \<Longrightarrow> M k \<Longrightarrow> run_post b (\<lambda>(stop, j'). after U Q k j') (f x k)"
    and g: "job_good U Q j" and m: "M j"
  shows "run_post b (\<lambda>(rc, j'). after U Q j j') (run_loop f xs j)"
  using f g m
proof (induction xs arbitrary: j)
  case Nil
  then show ?case by (simp add: after_refl)
next
  case (Cons x xs)
  have 1: "run_post b (\<lambda>(stop, j'). after U Q j j') (f x j)" using Cons.prems by simp
  have "run_post b (\<lambda>(rc, j'). after U Q j j') (run_loop f xs k)" if k: "after U Q j k" for k
  proof (rule run_post_mono)
    show "run_post b (\<lambda>(rc, j'). after U Q k j') (run_loop f xs k)"
      using Cons.IH [OF Cons.prems(1)] k after_M [OF am Cons.prems(3) k] by (simp add: after_def)
  qed (use after_trans [OF k] in auto)
  then show ?case unfolding run_loop.simps
    by (intro run_post_bind [OF 1]) (auto split: option.split)
qed

lemma rec_ignore_ok:
  assumes r: "rec_ok b U Q M rec" and a: "after U Q i j" and m: "M j" and q: "Q p"
  shows "run_post b (\<lambda>(stop, j'). after U Q i j') (run_bind (rec p w j) (\<lambda>(_, _, j). Ret (None, j)))"
  by (rule run_post_bind [OF rec_post [OF r a m q]]) auto

lemma remote_rec_ok:
  assumes c: "closed U Q e" and r: "rec_ok b U Q M rec" and am: "antitone M" and a: "after U Q i j" and m: "M j"
  shows "run_post b (\<lambda>(stop, j'). after U Q i j')
     (let (npkg, j) = pkg_jobs_universe_get_remote e j uid [] in case npkg of
        None \<Rightarrow> Ret (None, j) | Some np \<Rightarrow> run_bind (rec np False j) (\<lambda>(_, _, j). Ret (None, j)))"
proof -
  obtain np k where k: "pkg_jobs_universe_get_remote e j uid [] = (np, k)" by fastforce
  have g: "job_good U Q j" using a by (simp add: after_def)
  have jk: "after U Q j k" and q: "case np of None \<Rightarrow> True | Some p \<Rightarrow> Q p" using get_remote_ok [OF c g k] by auto
  have ik: "after U Q i k" using a jk by (rule after_trans)
  show ?thesis using ik q rec_ignore_ok [OF r ik after_M [OF am m jk]] by (simp add: k split: option.splits)
qed

lemma process_conflict_ok:
  assumes c: "closed U Q e" and r: "rec_ok b U Q M rec" and am: "antitone M"
    and g: "job_good U Q j" and m: "M j"
  shows "run_post b (\<lambda>(stop, j'). after U Q j j') (process_conflict rec e self cf j)"
proof -
  obtain np k where k: "pkg_jobs_universe_get_local e j (conf_uniqueid cf) [] = (np, k)" by fastforce
  have jk: "after U Q j k" and q: "case np of None \<Rightarrow> True | Some p \<Rightarrow> Q p" using get_local_ok [OF c g k] by auto
  have "run_post b (\<lambda>(stop, j'). after U Q j j') (run_bind (rec p False k) (\<lambda>(rc, _, k).
      if rc \<noteq> EPKG_OK then Ret (None, k)
      else if conf_type cf \<noteq> PKG_CONFLICT_REMOTE_LOCAL then
        (let (npkg, k) = pkg_jobs_universe_get_remote e k (conf_uniqueid cf) [] in case npkg of
           None \<Rightarrow> Ret (None, k) | Some np \<Rightarrow> run_bind (rec np False k) (\<lambda>(_, _, k). Ret (None, k)))
      else Ret (None, k)))" if "np = Some p" for p
  proof (rule run_post_bind [OF rec_post [OF r jk after_M [OF am m jk]]])
    show "Q p" using q that by simp
    fix x :: "epkg \<times> item_id option \<times> pkg_jobs"
    obtain rc found l where x: "x = (rc, found, l)" by (cases x) auto
    assume "case x of (rc, found, j') \<Rightarrow> after U Q j j' \<and> found_ok found j' \<and> (rc = EPKG_OK \<longrightarrow> found \<noteq> None)"
    then have l: "after U Q j l" by (simp add: x)
    show "run_post b (\<lambda>(stop, j'). after U Q j j') (case x of (rc, _, k) \<Rightarrow>
      if rc \<noteq> EPKG_OK then Ret (None, k)
      else if conf_type cf \<noteq> PKG_CONFLICT_REMOTE_LOCAL then
        (let (npkg, k) = pkg_jobs_universe_get_remote e k (conf_uniqueid cf) [] in case npkg of
           None \<Rightarrow> Ret (None, k) | Some np \<Rightarrow> run_bind (rec np False k) (\<lambda>(_, _, k). Ret (None, k)))
      else Ret (None, k))"
      using l remote_rec_ok [OF c r am l after_M [OF am m l], of "conf_uniqueid cf"]
      by (cases "rc = EPKG_OK"; cases "conf_type cf = PKG_CONFLICT_REMOTE_LOCAL")
        (simp_all only: x prod.case not_True_eq_False not_False_eq_True if_True if_False run_post.simps simp_thms)
  qed
  moreover have "run_post b (\<lambda>(stop, j'). after U Q j j')
     (let (npkg, k) = pkg_jobs_universe_get_remote e j (conf_uniqueid cf) [] in case npkg of
        None \<Rightarrow> Ret (None, k) | Some np \<Rightarrow> run_bind (rec np False k) (\<lambda>(_, _, k). Ret (None, k)))"
    by (rule remote_rec_ok [OF c r am after_refl [OF g] m])
  ultimately show ?thesis using after_refl [OF g] jk
    by (auto simp: process_conflict_def Let_def k split: option.split)
qed


subsection \<open>Libraries\<close>

lemma process_shared_ok:
  assumes c: "closed U Q e" and r: "rec_ok b U Q M rec" and am: "antitone M"
    and a: "after U Q i j" and m: "M j" and q: "Q p" and sh: "U \<longrightarrow> shared = []"
  shows "run_post b (\<lambda>(rc, unit, sh, j'). after U Q i j' \<and> found_ok unit j' \<and> (rc = EPKG_OK \<longrightarrow> unit \<noteq> None))
    (process_shared rec e p shared j)"
proof -
  let ?p = "digested e p"
  have q': "Q ?p" using digested_ok [OF c q] .
  have g: "job_good U Q j" using a by (simp add: after_def)
  have w: "after U Q j (alias_write shared ?p j)" using alias_write_ok [OF g q' sh] .
  show ?thesis unfolding process_shared_def Let_def
    by (rule run_post_bind [OF rec_post [OF r after_trans [OF a w] after_M [OF am m w] q']]) auto
qed

definition step_good :: "bool \<Rightarrow> (pkg \<Rightarrow> bool) \<Rightarrow> pkg_jobs \<Rightarrow> provider_step \<times> pkg_jobs \<Rightarrow> bool" where
  "step_good U Q i r \<longleftrightarrow> (case r of (s, j) \<Rightarrow> after U Q i j \<and> (case s of
      PrUnit unit p shared \<Rightarrow> found_ok unit j \<and> Q p \<and> (U \<longrightarrow> unit = None \<longrightarrow> shared = [])
    | _ \<Rightarrow> True))"

lemma found_ok_after: "found_ok unit j \<Longrightarrow> after U Q j k \<Longrightarrow> found_ok unit k"
  by (auto simp: found_ok_def after_def grows_def split: option.splits)

lemma provider_upgrade_ok:
  assumes c: "closed U Q e" and r: "rec_ok b U Q M rec" and am: "antitone M"
    and a: "after U Q i j" and m: "M j" and q: "Q p" and sh: "U \<longrightarrow> shared = []" and un: "found_ok unit j"
  shows "run_post b (step_good U Q i) (provider_upgrade rec e p lp unit reset shared j)"
  unfolding provider_upgrade_def
proof (rule run_post_bind [OF need_upgrade_ok [OF c q]], clarify)
  fix need p' assume q': "Q p'"
  let ?k = "alias_write shared p' j"
  have g: "job_good U Q j" using a by (simp add: after_def)
  have w: "after U Q j ?k" using alias_write_ok [OF g q' sh] .
  have ik: "after U Q i ?k" using a w by (rule after_trans)
  have "run_post b (step_good U Q i) (run_bind (process_shared rec e p' shared ?k) (\<lambda>(rc, unit, shared, j).
      if rc \<noteq> EPKG_OK then Ret (PrNext shared, j) else Ret (PrUnit unit p' (if reset then [] else shared), j)))"
    by (rule run_post_bind [OF process_shared_ok [OF c r am ik after_M [OF am m w] q' sh]])
      (auto simp: step_good_def q')
  then show "run_post b (step_good U Q i) (let j = alias_write shared p' j in
      if \<not> need then Ret (PrUnit unit p' shared, j)
      else run_bind (process_shared rec e p' shared j) (\<lambda>(rc, unit, shared, j).
        if rc \<noteq> EPKG_OK then Ret (PrNext shared, j) else Ret (PrUnit unit p' (if reset then [] else shared), j)))"
    using ik sh q' found_ok_after [OF un w] by (simp add: Let_def step_good_def)
qed

lemma provider_local_ok:
  assumes c: "closed U Q e" and r: "rec_ok b U Q M rec" and am: "antitone M"
    and a: "after U Q i j" and m: "M j" and q: "Q p" and sh: "U \<longrightarrow> shared = []"
  shows "run_post b (step_good U Q i) (provider_local rec e p shared j)"
proof -
  have g: "job_good U Q j" using a by (simp add: after_def)
  show ?thesis
  proof (cases "pkg_jobs_universe_find (j_universe j) (pkg_uniqueid p)")
    case (Some unit)
    have "found_ok (Some unit) j"
      using found_chain(1) [OF _ Some] g by (simp add: found_ok_def job_good_def store_size_def)
    with Some show ?thesis using provider_upgrade_ok [OF c r am a m q sh] by (simp add: provider_local_def)
  next
    case None
    obtain np k where k: "pkg_jobs_universe_get_local e j (pkg_uniqueid p) [] = (np, k)" by fastforce
    have jk: "after U Q j k" and qn: "case np of None \<Rightarrow> True | Some p \<Rightarrow> Q p" using get_local_ok [OF c g k] by auto
    have ik: "after U Q i k" using a jk by (rule after_trans)
    have "run_post b (step_good U Q i) (run_bind (rec n True k) (\<lambda>(rc, unit, j).
        if rc \<noteq> EPKG_OK then Ret (PrStop EPKG_FATAL, j)
        else provider_upgrade rec e p (digested e n) unit False shared j))" if "np = Some n" for n
    proof (rule run_post_bind [OF rec_post [OF r jk after_M [OF am m jk]]], use qn that in simp, clarify)
      fix rc unit l assume jl: "after U Q j l" and f: "found_ok unit l"
      have il: "after U Q i l" using a jl by (rule after_trans)
      show "run_post b (step_good U Q i) (if rc \<noteq> EPKG_OK then Ret (PrStop EPKG_FATAL, l)
          else provider_upgrade rec e p (digested e n) unit False shared l)"
        using provider_upgrade_ok [OF c r am il after_M [OF am m jl] q sh f] il by (simp add: step_good_def)
    qed
    with None k ik q sh show ?thesis
      by (auto simp: provider_local_def step_good_def found_ok_def split: option.split)
  qed
qed

lemma provider_digest_ok:
  assumes c: "closed U Q e" and g: "job_good U Q j" and s: "self < store_size j"
    and r: "provider_digest e self p j = Some (d, j')"
  shows "after U Q j j'"
proof (cases "pkg_digest p")
  case None
  then obtain q where q: "pkg_checksum_calculate (e_sha256 e) (e_digest_format e) (u_pkg (j_universe j) self) = Some q"
    and j': "j' = upd_universe (u_upd_pkg self (\<lambda>_. q)) j"
    using r by (auto simp: provider_digest_def split: option.splits)
  show ?thesis unfolding j'
    using job_good_upd_pkg [OF g] closedD(9) [OF c job_good_store [OF g s] q] calculate_uid [OF q] by simp
qed (use r after_refl [OF g] in \<open>simp add: provider_digest_def\<close>)

lemma provider_unseen_ok:
  assumes c: "closed U Q e" and r: "rec_ok b U Q M rec" and am: "antitone M"
    and a: "after U Q i j" and m: "M j" and q: "Q p" and sh: "U \<longrightarrow> shared = []" and s: "self < store_size j"
  shows "run_post b (step_good U Q i) (provider_unseen rec e self p shared j)"
proof (cases "provider_digest e self p j")
  case None
  then show ?thesis using a by (simp add: provider_unseen_def step_good_def)
next
  case (Some x)
  obtain d k where x: "x = (d, k)" by fastforce
  have g: "job_good U Q j" using a by (simp add: after_def)
  have jk: "after U Q j k" using provider_digest_ok [OF c g s] Some x by simp
  have ik: "after U Q i k" using a jk by (rule after_trans)
  show ?thesis
  proof (cases "pkg_jobs_universe_seen (j_universe k) d")
    case None
    have "run_post b (step_good U Q i)
        (run_bind (process_shared rec e p shared k) (\<lambda>(_, unit, _, j). Ret (PrUnit unit p [], j)))"
      by (rule run_post_bind [OF process_shared_ok [OF c r am ik after_M [OF am m jk] q sh]])
        (auto simp: step_good_def q)
    with None Some x show ?thesis by (simp add: provider_unseen_def)
  next
    case un: (Some un)
    have "un < store_size k"
      using uh.find_SomeD [of d "u_seen (j_universe k)" un] un ik
      by (force simp: pkg_jobs_universe_seen_def after_def job_good_def universe_good_def universe_wf_def store_size_def)
    with un Some x ik q sh show ?thesis by (simp add: provider_unseen_def step_good_def found_ok_def)
  qed
qed

lemma provides_good:
  assumes g: "job_good U Q j"
    and p: "\<forall>c \<in> snd ` set pr. \<forall>i \<in> set c. i < store_size j"
  shows "after U Q j (upd_universe (\<lambda>u. u\<lparr>u_provides := pr\<rparr>) j)"
proof -
  let ?v = "(j_universe j)\<lparr>u_provides := pr\<rparr>"
  have "universe_good ?v"
    by (rule universe_good_cong [of "j_universe j"]) (use g p in \<open>auto simp: job_good_def store_size_def\<close>)
  moreover have "universe_uids ?v = universe_uids (j_universe j)"
    by (simp add: universe_uids_def u_pkg_def)
  ultimately show ?thesis using g
    by (simp add: after_def job_good_def upd_universe_def grows_def seen_set_def store_size_def)
qed

lemma provide_append_ok:
  assumes g: "job_good U Q j" and un: "unit < store_size j" and r: "provide_append lib unit head j = (head', j')"
  shows "after U Q j j'"
proof -
  let ?pr = "u_provides (j_universe j)"
  have old: "\<forall>c \<in> snd ` set ?pr. \<forall>i \<in> set c. i < store_size j"
    using g by (simp add: job_good_def universe_good_def universe_wf_def store_size_def)
  show ?thesis
  proof (cases head)
    case None
    then have j': "j' = upd_universe (\<lambda>u. u\<lparr>u_provides := hash_add lib [unit] ?pr\<rparr>) j"
      using r by (simp add: provide_append_def Let_def)
    show ?thesis unfolding j' by (rule provides_good [OF g]) (use old un in \<open>auto simp: hash_add_def\<close>)
  next
    case (Some k)
    then have j': "j' = upd_universe (\<lambda>u. u\<lparr>u_provides := ?pr[k := (fst (?pr ! k), snd (?pr ! k) @ [unit])]\<rparr>) j"
      using r by (simp add: provide_append_def Let_def)
    have "\<forall>c \<in> snd ` set (?pr[k := (fst (?pr ! k), snd (?pr ! k) @ [unit])]). \<forall>i \<in> set c. i < store_size j"
    proof (cases "k < length ?pr")
      case True
      then have "?pr ! k \<in> set ?pr" by simp
      with old un show ?thesis using set_update_subset_insert [of ?pr k "(fst (?pr ! k), snd (?pr ! k) @ [unit])"]
        by fastforce
    qed (use old in \<open>simp add: list_update_beyond\<close>)
    then show ?thesis unfolding j' by (rule provides_good [OF g])
  qed
qed

lemma process_providers_ok:
  assumes c: "closed U Q e" and r: "rec_ok b U Q M rec" and am: "antitone M"
  shows "after U Q i j \<Longrightarrow> M j \<Longrightarrow> \<forall>p \<in> set ps. Q p \<Longrightarrow> self < store_size j \<Longrightarrow>
      U \<longrightarrow> ps = [] \<or> (tl ps = [] \<and> shared = []) \<Longrightarrow>
    run_post b (\<lambda>(stop, j'). after U Q i j') (process_providers rec e self lib ps shared head j)"
proof (induction ps arbitrary: shared head j)
  case Nil
  then show ?case by simp
next
  case (Cons p ps)
  have q: "Q p" and sh: "U \<longrightarrow> shared = []" and ps: "U \<longrightarrow> ps = []" using Cons.prems by auto
  have g: "job_good U Q j" using Cons.prems(1) by (simp add: after_def)
  let ?k = "alias_write shared p j"
  have jk: "after U Q j ?k" using alias_write_ok [OF g q sh] .
  have loc: "run_post b (step_good U Q ?k) (provider_local rec e p shared ?k)"
    using provider_local_ok [OF c r am after_refl after_M [OF am Cons.prems(2) jk] q sh] jk by (simp add: after_def)
  have down: "after U Q i l \<and> M l \<and> self < store_size l" if "after U Q j l" for l
    using that after_trans [OF Cons.prems(1) that] after_M [OF am Cons.prems(2) that] Cons.prems(4)
    by (auto simp: after_def grows_def)
  have rest: "run_post b (\<lambda>(stop, j'). after U Q i j') (process_providers rec e self lib ps sh' h l)"
    if "after U Q j l" for sh' h l
    using Cons.IH [of l sh' h] down [OF that] Cons.prems(3) ps by simp
  have app: "run_post b (\<lambda>(stop, j'). after U Q i j')
      (let (h', l') = provide_append lib un head l in process_providers rec e self lib ps sh' h' l')"
    if l: "after U Q j l" and un: "un < store_size l" for un sh' l
  proof -
    obtain h' l' where e: "provide_append lib un head l = (h', l')" by fastforce
    have "after U Q j l'" using after_trans [OF l provide_append_ok [OF _ un e]] l by (simp add: after_def)
    then show ?thesis using rest by (simp add: e)
  qed
  have step2: "run_post b (\<lambda>(stop, j'). after U Q i j') (case s of
               PrUnit (Some unit) _ shared \<Rightarrow>
                 (let (head, j) = provide_append lib unit head l in process_providers rec e self lib ps shared head j)
             | PrUnit None _ shared \<Rightarrow> Crash
             | PrNext shared \<Rightarrow> process_providers rec e self lib ps shared head l
             | PrStop rc \<Rightarrow> Ret (Some rc, l))" if "step_good U Q j (s, l)" for s l
    using that rest app down
    by (cases s) (auto simp: step_good_def found_ok_def simp del: process_providers.simps split: option.split)
  show ?case unfolding process_providers.simps
  proof (rule run_post_bind [OF loc], clarify)
    fix s l assume sl: "step_good U Q ?k (s, l)"
    then have jl: "after U Q j l" using after_trans [OF jk] by (simp add: step_good_def)
    have sl': "step_good U Q j (s, l)" using sl jl by (simp add: step_good_def)
    show "run_post b (\<lambda>(stop, j'). after U Q i j') (case s of
         PrNext shared \<Rightarrow> process_providers rec e self lib ps shared head l
       | PrStop rc \<Rightarrow> Ret (Some rc, l)
       | PrUnit unit rpkg shared \<Rightarrow>
           run_bind (case unit of
               Some i \<Rightarrow> Ret (s, l) | None \<Rightarrow> provider_unseen rec e self rpkg shared l) (\<lambda>(s, j).
             case s of
               PrUnit (Some unit) _ shared \<Rightarrow>
                 (let (head, j) = provide_append lib unit head j in process_providers rec e self lib ps shared head j)
             | PrUnit None _ shared \<Rightarrow> Crash
             | PrNext shared \<Rightarrow> process_providers rec e self lib ps shared head j
             | PrStop rc \<Rightarrow> Ret (Some rc, j)))"
    proof (cases s)
      case (PrNext sh')
      then show ?thesis using rest [OF jl] by simp
    next
      case (PrStop rc)
      then show ?thesis using down [OF jl] by simp
    next
      case (PrUnit unit rp sh')
      have "run_post b (step_good U Q j) (case unit of
               Some i \<Rightarrow> Ret (s, l) | None \<Rightarrow> provider_unseen rec e self rp sh' l)"
      proof (cases unit)
        case None
        with PrUnit sl' have "Q rp" "U \<longrightarrow> sh' = []" by (auto simp: step_good_def)
        with None show ?thesis using provider_unseen_ok [OF c r am jl] down [OF jl] by simp
      qed (use sl' in simp)
      then show ?thesis unfolding PrUnit provider_step.case
        by (rule run_post_bind) (use step2 in \<open>auto simp: PrUnit\<close>)
    qed
  qed
qed


lemma process_shlib_ok:
  assumes c: "closed U Q e" and r: "rec_ok b U Q M rec" and am: "antitone M"
    and g: "job_good U Q j" and m: "M j" and s: "self < store_size j"
  shows "run_post b (\<lambda>(stop, j'). after U Q j j') (process_shlib rec e self lib j)"
proof -
  let ?fl = "[PKG_LOAD_BASIC, PKG_LOAD_OPTIONS, PKG_LOAD_DEPS, PKG_LOAD_SHLIBS_REQUIRED,
                PKG_LOAD_SHLIBS_PROVIDED, PKG_LOAD_ANNOTATIONS, PKG_LOAD_CONFLICTS]"
  let ?ps = "e_repo_shlib_provide e lib (j_reponame j) ?fl"
  have "U \<longrightarrow> ?ps = [] \<or> tl ?ps = []"
    using closedD(4) [OF c, of lib "j_reponame j" ?fl] by (cases ?ps) auto
  then have "run_post b (\<lambda>(stop, j'). after U Q j j') (process_providers rec e self lib ?ps [] None j)"
    using process_providers_ok [OF c r am after_refl [OF g] m _ s, of ?ps "[]" lib None] closedD(3) [OF c] by blast
  then show ?thesis using after_refl [OF g] by (simp add: process_shlib_def)
qed

subsection \<open>The whole\<close>

lemma run_loop_bounded:
  assumes am: "antitone M" and g: "job_good U Q j" and m: "M j" and s: "self < store_size j"
    and f: "\<And>x k. job_good U Q k \<Longrightarrow> M k \<Longrightarrow> self < store_size k \<Longrightarrow> run_post b (\<lambda>(stop, j'). after U Q k j') (f x k)"
  shows "run_post b (\<lambda>(rc, j'). after U Q j j') (run_loop f xs j)"
proof -
  have "antitone (\<lambda>k. M k \<and> self < store_size k)" using am by (auto simp: antitone_def grows_def)
  from run_loop_ok [OF this, of xs U Q b f j] f g m s show ?thesis by simp
qed

lemma and_then_ok:
  assumes "run_post b (\<lambda>(rc, j'). after U Q i j') m"
    and "\<And>k. after U Q i k \<Longrightarrow> run_post b (\<lambda>(rc, j'). after U Q i j') (f k)"
  shows "run_post b (\<lambda>(rc, j'). after U Q i j') (and_then m f)"
  unfolding and_then_def by (rule run_post_bind [OF assms(1)]) (use assms(2) in \<open>auto split: if_splits\<close>)

lemma process_related_ok:
  assumes c: "closed U Q e" and r: "rec_ok b U Q M rec" and am: "antitone M"
    and g: "job_good U Q j" and m: "M j" and s: "self < store_size j"
  shows "run_post b (\<lambda>(rc, j'). after U Q j j') (process_related rec e self j)"
proof -
  have down: "job_good U Q k \<and> M k \<and> self < store_size k" if "after U Q j k" for k
    using that after_M [OF am m that] s by (auto simp: after_def grows_def)
  have lift: "run_post b (\<lambda>(rc, j'). after U Q j j') x"
    if "run_post b (\<lambda>(rc, j'). after U Q k j') x" "after U Q j k" for k x
    using run_post_mono [OF that(1)] after_trans [OF that(2)] by auto
  have deps: "run_post b (\<lambda>(rc, j'). after U Q j j') (pkg_jobs_universe_process_deps rec e self fl k)"
    if k: "after U Q j k" for fl k
    unfolding pkg_jobs_universe_process_deps_def Let_def
    by (rule lift [OF run_loop_ok [OF am process_dep_ok [OF c r am]] k]) (use down [OF k] in auto)
  have confl: "run_post b (\<lambda>(rc, j'). after U Q j j') (pkg_jobs_universe_process_conflicts rec e self k)"
    if k: "after U Q j k" for k
    unfolding pkg_jobs_universe_process_conflicts_def
    by (rule lift [OF run_loop_ok [OF am process_conflict_ok [OF c r am]] k]) (use down [OF k] in auto)
  have libs: "run_post b (\<lambda>(rc, j'). after U Q j j') (pkg_jobs_universe_process_shlibs rec e self k)"
    if k: "after U Q j k" for k
    unfolding pkg_jobs_universe_process_shlibs_def
    by (rule lift [OF run_loop_bounded [OF am _ _ _ process_shlib_ok [OF c r am]] k]) (use down [OF k] in auto)
  have last: "run_post b (\<lambda>(rc, j'). after U Q j j') (if \<not> is_installed (u_pkg (j_universe k) self)
      then pkg_jobs_universe_process_shlibs rec e self k else Ret (EPKG_OK, k))" if "after U Q j k" for k
    using libs [OF that] that by simp
  show ?thesis
    unfolding process_related_def Let_def
    using deps [OF after_refl [OF g]] after_refl [OF g]
    by (auto split: pkg_jobs_t.split intro!: and_then_ok deps confl last)
qed

lemma process_item_ok:
  assumes c: "closed U Q e" and r: "rec_ok b U Q M (pkg_jobs_universe_process_item n e)" and am: "antitone M"
    and g: "job_good U Q j" and q: "Q p"
    and step: "\<And>k d. after U Q j k \<Longrightarrow> pkg_digest (digested e p) = Some d \<Longrightarrow> d \<notin> seen_set j \<Longrightarrow> d \<in> seen_set k \<Longrightarrow> M k"
  shows "run_post b (\<lambda>(rc, found, j'). after U Q j j' \<and> found_ok found j' \<and> (rc = EPKG_OK \<longrightarrow> found \<noteq> None))
    (pkg_jobs_universe_process_item (Suc n) e p w j)"
  unfolding pkg_jobs_universe_process_item.simps
proof (rule run_post_bind [OF add_pkg_ok [OF c g q, of b False w]], clarify)
  fix rc found k
  assume k: "after U Q j k" and f: "found_ok found k" and e: "rc = EPKG_END \<longrightarrow> found \<noteq> None"
    and o: "rc = EPKG_OK \<longrightarrow> found \<noteq> None \<and>
      (\<exists>d. pkg_digest (digested e p) = Some d \<and> (False \<or> d \<notin> seen_set j) \<and> d \<in> seen_set k)"
  have "run_post b (\<lambda>(rc, found, j'). after U Q j j' \<and> found_ok found j' \<and> (rc = EPKG_OK \<longrightarrow> found \<noteq> None))
      (run_bind (process_related (pkg_jobs_universe_process_item n e) e (the found) k) (\<lambda>(rc, j). Ret (rc, found, j)))"
    if OK: "rc = EPKG_OK"
  proof -
    obtain i d where i: "found = Some i" and d: "pkg_digest (digested e p) = Some d" "d \<notin> seen_set j" "d \<in> seen_set k"
      using o OK by auto
    have gk: "job_good U Q k" using k by (simp add: after_def)
    have s: "the found < store_size k" using f i by (simp add: found_ok_def)
    show ?thesis
      by (rule run_post_bind [OF process_related_ok [OF c r am gk step [OF k d] s]])
        (use k i f in \<open>auto intro: after_trans found_ok_after\<close>)
  qed
  then show "run_post b (\<lambda>(rc, found, j'). after U Q j j' \<and> found_ok found j' \<and> (rc = EPKG_OK \<longrightarrow> found \<noteq> None))
     (if rc = EPKG_END then Ret (EPKG_OK, found, k)
      else if rc \<noteq> EPKG_OK then Ret (rc, found, k)
      else run_bind (process_related (pkg_jobs_universe_process_item n e) e (the found) k) (\<lambda>(rc, j). Ret (rc, found, j)))"
    using k f e by (cases "rc = EPKG_OK"; cases "rc = EPKG_END") simp_all
qed

lemma process_item_rec_ok:
  assumes c: "closed U Q e"
  shows "rec_ok True U Q (\<lambda>_. True) (pkg_jobs_universe_process_item n e)"
proof (induction n)
  case 0
  then show ?case by (simp add: rec_ok_def)
next
  case (Suc n)
  have "antitone (\<lambda>_. True)" by (simp add: antitone_def)
  from process_item_ok [OF c Suc this] show ?case unfolding rec_ok_def by blast
qed

lemma process_item_fuel:
  assumes c: "closed U Q e" and D: "finite D"
    and Q: "\<And>p d. Q p \<Longrightarrow> pkg_digest (digested e p) = Some d \<Longrightarrow> d \<in> D"
  shows "rec_ok False U Q (\<lambda>j. card (D - seen_set j) < n) (pkg_jobs_universe_process_item n e)"
proof (induction n)
  case 0
  then show ?case by (simp add: rec_ok_def)
next
  case (Suc n)
  have am: "antitone (\<lambda>j. card (D - seen_set j) < n)"
  proof (unfold antitone_def, clarify)
    fix j j' assume g: "grows j j'" and m: "card (D - seen_set j) < n"
    have "card (D - seen_set j') \<le> card (D - seen_set j)"
      using g D by (intro card_mono) (auto simp: grows_def)
    with m show "card (D - seen_set j') < n" by simp
  qed
  show ?case unfolding rec_ok_def
  proof (intro allI impI)
    fix p w j assume g: "job_good U Q j" and q: "Q p" and m: "card (D - seen_set j) < Suc n"
    show "run_post False (\<lambda>(rc, found, j'). after U Q j j' \<and> found_ok found j' \<and> (rc = EPKG_OK \<longrightarrow> found \<noteq> None))
        (pkg_jobs_universe_process_item (Suc n) e p w j)"
    proof (rule process_item_ok [OF c Suc am g q])
      fix k d assume k: "after U Q j k" and d: "pkg_digest (digested e p) = Some d" "d \<notin> seen_set j" "d \<in> seen_set k"
      have "D - seen_set k \<subset> D - seen_set j"
        using k d(2,3) Q [OF q d(1)] by (auto simp: after_def grows_def)
      then have "card (D - seen_set k) < card (D - seen_set j)" using D by (intro psubset_card_mono) auto
      with m show "card (D - seen_set k) < n" by simp
    qed
  qed
qed

section \<open>Properties\<close>

text \<open>The three facts, with their hypotheses on the databases written out.\<close>

lemma process_item_Ret:
  assumes "rec_ok b U Q M (pkg_jobs_universe_process_item n e)" and "job_good U Q j" and "Q p" and "M j"
    and "pkg_jobs_universe_process_item n e p w j = Ret (rc, found, j')"
  shows "job_good U Q j'"
proof -
  have "run_post b (\<lambda>(rc, found, j'). after U Q j j' \<and> found_ok found j' \<and> (rc = EPKG_OK \<longrightarrow> found \<noteq> None))
      (pkg_jobs_universe_process_item n e p w j)" using assms(1-4) by (simp add: rec_ok_def)
  then show ?thesis by (simp add: assms(5) after_def)
qed

text \<open>
  adding a package with everything that bears on it keeps the universe well formed, whatever the
  databases answer: no item is linked twice, every item is in a chain, the counter counts them.
\<close>

theorem universe_process_wf:
  assumes "universe_wf (j_universe j)" and "universe_linked (j_universe j)"
    and "pkg_jobs_universe_process_item n e p w j = Ret (rc, found, j')"
  shows "universe_wf (j_universe j') \<and> universe_linked (j_universe j')"
proof -
  have "closed False (\<lambda>_. True) e" by (simp add: closed_def)
  from process_item_Ret [OF process_item_rec_ok [OF this], OF _ _ _ assms(3)] assms(1,2) show ?thesis
    by (simp add: job_good_def universe_good_def)
qed

text \<open>
  C26: when loading does not change a uid and a library has at most one provider, processing a package keeps the universe in a form that
  the solver accepts: the packages of a chain also keep the uid of the chain. With two providers it does not.
\<close>

theorem universe_process_ok:
  assumes "universe_ok (j_universe j)"
    and "\<forall>p fl. pkg_uniqueid (e_ensure_loaded e p fl) = pkg_uniqueid p"
    and "\<forall>lib r fl. length (e_repo_shlib_provide e lib r fl) \<le> 1"
    and "pkg_jobs_universe_process_item n e p w j = Ret (rc, found, j')"
  shows "universe_ok (j_universe j')"
proof -
  have "closed True (\<lambda>_. True) e" using assms(2,3) by (simp add: closed_def)
  from process_item_Ret [OF process_item_rec_ok [OF this], OF _ _ _ assms(4)] assms(1) show ?thesis
    by (simp add: job_good_def universe_good_def universe_ok_def)
qed

text \<open>The digests that a package has or may get.\<close>

definition digests_of :: "env \<Rightarrow> pkg \<Rightarrow> string set" where
  "digests_of e p = set_option (pkg_digest p)
     \<union> (case pkg_checksum_calculate (e_sha256 e) (e_digest_format e) p of None \<Rightarrow> {} | Some q \<Rightarrow> set_option (pkg_digest q))"

definition digests_known :: "string set \<Rightarrow> env \<Rightarrow> bool" where
  "digests_known D e \<longleftrightarrow>
     (\<forall>s m fl. \<forall>p \<in> set (e_query e s m fl). digests_of e p \<subseteq> D)
     \<and> (\<forall>s m r fl. \<forall>p \<in> set (e_repo_query e s m r fl). digests_of e p \<subseteq> D)
     \<and> (\<forall>l r fl. \<forall>p \<in> set (e_repo_shlib_provide e l r fl). digests_of e p \<subseteq> D)
     \<and> (\<forall>p fl. digests_of e p \<subseteq> D \<longrightarrow> digests_of e (e_ensure_loaded e p fl) \<subseteq> D)"

lemma generate_frame:
  "pkg_checksum_generate sha (p\<lparr>pkg_reason := r\<rparr>) n t = pkg_checksum_generate sha p n t"
  "pkg_checksum_generate sha (p\<lparr>pkg_automatic := a\<rparr>) n t = pkg_checksum_generate sha p n t"
  "pkg_checksum_generate sha (p\<lparr>pkg_digest := d\<rparr>) n t = pkg_checksum_generate sha p n t"
  by (simp_all add: pkg_checksum_generate_def pkg_checksum_entries_def)

lemma digests_frame:
  "digests_of e (p\<lparr>pkg_reason := r\<rparr>) = digests_of e p"
  "digests_of e (p\<lparr>pkg_automatic := a\<rparr>) = digests_of e p"
  by (simp_all add: digests_of_def pkg_checksum_calculate_def generate_frame Let_def split: option.split)

lemma digests_calculate:
  "pkg_checksum_calculate (e_sha256 e) (e_digest_format e) p = Some q \<Longrightarrow> digests_of e q \<subseteq> digests_of e p"
  by (auto simp: digests_of_def pkg_checksum_calculate_def generate_frame Let_def split: option.splits)

lemma digests_digested: "pkg_digest (digested e p) = Some d \<Longrightarrow> d \<in> digests_of e p"
  by (auto simp: digests_of_def digested_def with_digest_def split: option.splits)

lemma closed_digests: "digests_known D e \<Longrightarrow> closed False (\<lambda>p. digests_of e p \<subseteq> D) e"
proof -
  assume k: "digests_known D e"
  have "\<forall>p q. digests_of e p \<subseteq> D \<longrightarrow> pkg_checksum_calculate (e_sha256 e) (e_digest_format e) p = Some q \<longrightarrow>
      digests_of e q \<subseteq> D" using digests_calculate by (meson order_trans)
  with k show ?thesis by (simp add: digests_known_def closed_def digests_frame)
qed

text \<open>
  C27: the recursion over dependencies, conflicts and providers ends: its depth is bounded by the number of
  digests that the databases know, because every nested call that goes on has added a new one.
\<close>

theorem universe_process_ends:
  assumes "finite D" and "digests_known D e" and "digests_of e p \<subseteq> D"
    and "universe_wf (j_universe j)" and "universe_linked (j_universe j)"
    and "\<forall>it \<in> set (u_store (j_universe j)). digests_of e (it_pkg it) \<subseteq> D"
    and "card D < n"
  shows "pkg_jobs_universe_process_item n e p w j \<noteq> NoFuel"
proof -
  have g: "job_good False (\<lambda>p. digests_of e p \<subseteq> D) j"
    using assms(4-6) by (simp add: job_good_def universe_good_def)
  have "rec_ok False False (\<lambda>p. digests_of e p \<subseteq> D) (\<lambda>j. card (D - seen_set j) < n) (pkg_jobs_universe_process_item n e)"
    by (rule process_item_fuel [OF closed_digests [OF assms(2)] assms(1)]) (use digests_digested in blast)
  moreover have "card (D - seen_set j) < n"
    using assms(7) card_mono [OF assms(1), of "D - seen_set j"] by auto
  ultimately have "run_post False (\<lambda>(rc, found, j'). after False (\<lambda>p. digests_of e p \<subseteq> D) j j' \<and> found_ok found j' \<and> (rc = EPKG_OK \<longrightarrow> found \<noteq> None))
      (pkg_jobs_universe_process_item n e p w j)"
    using g assms(3) by (simp add: rec_ok_def)
  then show ?thesis by (cases "pkg_jobs_universe_process_item n e p w j") simp_all
qed

subsection \<open>Concrete databases\<close>

text \<open>
  Version 1.0 of \<open>a\<close> is installed, 2.0 is in the repository and requires \<open>b\<close>, which only the
  repository has.
\<close>

definition dep_on :: "string \<Rightarrow> pkg_dep" where
  "dep_on uid = \<lparr>dep_origin = uid, dep_name = uid, dep_version = ''1'', dep_uid = uid, dep_locked = False\<rparr>"

definition local_a :: pkg where
  "local_a = demo_pkg\<lparr>pkg_type := PKG_INSTALLED, pkg_digest := Some ''d0''\<rparr>"

definition remote_a :: pkg where
  "remote_a = demo_pkg\<lparr>pkg_version := ''2.0'', pkg_digest := Some ''d1'', pkg_deps := [dep_on ''b'']\<rparr>"

definition remote_b :: pkg where
  "remote_b = demo_pkg\<lparr>pkg_uniqueid := ''b'', pkg_name := ''b'', pkg_digest := Some ''d2''\<rparr>"

definition demo_env :: env where
  "demo_env = \<lparr>e_query = (\<lambda>s m fl. if s = Some ''a'' then [local_a] else []),
     e_repo_query = (\<lambda>s m r fl. if s = Some ''a'' then [remote_a] else if s = Some ''b'' then [remote_b] else []),
     e_repo_shlib_provide = (\<lambda>l r fl. []), e_ensure_loaded = (\<lambda>p fl. p),
     e_sha256 = (\<lambda>_. replicate 32 7), e_digest_format = (\<lambda>_. None)\<rparr>"

definition start_jobs :: pkg_jobs where
  "start_jobs = pkg_jobs_new PKG_JOBS_INSTALL"

definition run_jobs :: "'a \<times> 'b \<times> pkg_jobs \<Rightarrow> pkg_jobs" where
  "run_jobs r = snd (snd r)"

definition demo_processed :: pkg_jobs where
  "demo_processed = run_jobs (the (the_run (pkg_jobs_universe_process_item 4 demo_env remote_a True start_jobs)))"

lemma demo_process:
  "pkg_jobs_universe_process_item 4 demo_env remote_a True start_jobs = Ret (EPKG_OK, Some 0, demo_processed)"
proof -
  have "the_run (pkg_jobs_universe_process_item 4 demo_env remote_a True start_jobs) = Some (EPKG_OK, Some 0, demo_processed)"
    by code_simp
  then show ?thesis by (simp only: the_run_Some)
qed

theorem universe_process_wf_witness:
  "universe_wf (j_universe demo_processed) \<and> universe_linked (j_universe demo_processed)"
proof -
  have "universe_wf (j_universe start_jobs)" "universe_linked (j_universe start_jobs)" by code_simp+
  then show ?thesis using demo_process by (rule universe_process_wf)
qed

theorem universe_process_ok_witness: "universe_ok (j_universe demo_processed)"
proof -
  have "universe_ok (j_universe start_jobs)" by code_simp
  then show ?thesis
    by (rule universe_process_ok [OF _ _ _ demo_process]) (simp_all add: demo_env_def)
qed

definition demo_digests :: "string set" where
  "demo_digests = insert ''d0'' (insert ''d1'' (insert ''d2''
     (digests_of demo_env local_a \<union> digests_of demo_env remote_a \<union> digests_of demo_env remote_b)))"

lemma demo_known: "digests_known demo_digests demo_env"
  by (auto simp: digests_known_def demo_digests_def) (auto simp: demo_env_def split: if_splits)

theorem universe_process_ends_witness:
  "pkg_jobs_universe_process_item 10 demo_env remote_a True start_jobs \<noteq> NoFuel"
proof (rule universe_process_ends [OF _ demo_known])
  show "finite demo_digests" by (simp add: demo_digests_def digests_of_def split: option.split)
  show "card demo_digests < 10" by code_simp
  show "digests_of demo_env remote_a \<subseteq> demo_digests" by (auto simp: demo_digests_def)
  show "universe_wf (j_universe start_jobs)" "universe_linked (j_universe start_jobs)"
    "\<forall>it \<in> set (u_store (j_universe start_jobs)). digests_of demo_env (it_pkg it) \<subseteq> demo_digests" by code_simp+
qed

subsection \<open>A provider that is overwritten\<close>

definition lib_env :: env where
  "lib_env = demo_env\<lparr>e_repo_shlib_provide := (\<lambda>l r fl. [remote_a\<lparr>pkg_deps := []\<rparr>, remote_b])\<rparr>"

definition lib_user :: pkg where
  "lib_user = demo_pkg\<lparr>pkg_uniqueid := ''c'', pkg_name := ''c'', pkg_digest := Some ''d3'',
     pkg_shlibs_required := [''libx.so'']\<rparr>"

text \<open>
  the remote provider of a library that is also installed is added to the universe, and its structure
  is then filled with the next provider. Here \<open>a\<close> and \<open>b\<close> provide what \<open>c\<close> requires, and
  \<open>a\<close> is installed: item 2, in the chain of \<open>a\<close>, ends up with the package \<open>b\<close>.
\<close>

theorem provider_overwritten:
  "(case pkg_jobs_universe_process_item 5 lib_env lib_user True start_jobs of
      Ret (rc, found, j) \<Rightarrow> rc = EPKG_OK \<and> hash_find ''a'' (u_items (j_universe j)) = Some [1, 2]
        \<and> pkg_uniqueid (u_pkg (j_universe j) 2) = ''b'' \<and> \<not> universe_uids (j_universe j)
    | _ \<Rightarrow> False)"
  by code_simp

section \<open>Changing a uid\<close>

text \<open>
  \<open>pkg_jobs_universe_change_uid\<close>: \<open>fuel\<close> is for \<open>pkg_jobs_universe_process_item\<close>. \<open>Crash\<close> is
  the assertion that a reverse dependency is installed. \<open>unit\<close> is hashed on its old uid; when the
  new uid has a chain it is appended there and what was linked behind it is lost.
\<close>

definition rename_dep :: "string \<Rightarrow> string \<Rightarrow> pkg \<Rightarrow> pkg" where
  "rename_dep old_uid new_uid p =
     p\<lparr>pkg_deps := map (\<lambda>d. if dep_uid d = old_uid then d\<lparr>dep_uid := new_uid\<rparr> else d) (pkg_deps p)\<rparr>"

fun rename_rdeps :: "nat \<Rightarrow> env \<Rightarrow> string \<Rightarrow> string \<Rightarrow> pkg_dep list \<Rightarrow> pkg_jobs \<Rightarrow> pkg_jobs run" where
  "rename_rdeps fuel e old_uid new_uid [] j = Ret j"
| "rename_rdeps fuel e old_uid new_uid (rd # rds) j =
     run_bind (case pkg_jobs_universe_find (j_universe j) (dep_uid rd) of
         Some found \<Rightarrow> Ret (Some found, j)
       | None \<Rightarrow> (let (lp, j) = pkg_jobs_universe_get_local e j (dep_uid rd) []
                in case lp of
                     None \<Rightarrow> Crash
                   | Some lp \<Rightarrow> run_bind (pkg_jobs_universe_process_item fuel e lp True j)
                       (\<lambda>(_, found, j). Ret (found, j)))) (\<lambda>(found, j).
       rename_rdeps fuel e old_uid new_uid rds (case found of
           None \<Rightarrow> j | Some i \<Rightarrow> upd_universe (u_upd_pkg i (rename_dep old_uid new_uid)) j))"

definition rehash :: "item_id \<Rightarrow> string \<Rightarrow> string \<Rightarrow> pkg_jobs_universe \<Rightarrow> pkg_jobs_universe" where
  "rehash unit old_uid new_uid u =
     (let chain = (case hash_find old_uid (u_items u) of None \<Rightarrow> [unit] | Some c \<Rightarrow> c);
          items = hash_del old_uid (u_items u);
          u = u_upd_pkg unit (\<lambda>p. p\<lparr>pkg_uniqueid := new_uid\<rparr>) u
      in u\<lparr>u_uid_replaces := (old_uid, new_uid) # u_uid_replaces u,
           u_items := (if hash_find new_uid items \<noteq> None then hash_upd new_uid (\<lambda>c. c @ [unit]) items
                       else hash_add new_uid chain items)\<rparr>)"

definition pkg_jobs_universe_change_uid ::
  "nat \<Rightarrow> env \<Rightarrow> item_id \<Rightarrow> string \<Rightarrow> bool \<Rightarrow> pkg_jobs \<Rightarrow> pkg_jobs run" where
  "pkg_jobs_universe_change_uid fuel e unit new_uid update_rdeps j =
     (let pkg = u_pkg (j_universe j) unit; old_uid = pkg_uniqueid pkg
      in run_bind (if update_rdeps then rename_rdeps fuel e old_uid new_uid (pkg_rdeps pkg) j else Ret j)
           (\<lambda>j. Ret (upd_universe (rehash unit old_uid new_uid) j)))"

section \<open>One candidate per uid\<close>

definition drop_requests :: "(item_id \<Rightarrow> bool) \<Rightarrow> item_id list \<Rightarrow> requests \<Rightarrow> requests" where
  \<comment> \<open>the loop that removes the requests of the items of a chain that \<open>P\<close> selects\<close>
  "drop_requests P chain reqs = foldl (\<lambda>r cur.
      if P cur \<and> hash_find cur r \<noteq> None then hash_del cur r else r) reqs chain"

definition select_candidate :: "pkg_jobs_universe \<Rightarrow> item_id list \<Rightarrow> item_id option" where
  "select_candidate u chain = foldl (\<lambda>selected cur.
      if is_installed (u_pkg u cur) then selected
      else case selected of
             None \<Rightarrow> Some cur
           | Some s \<Rightarrow> if pkg_version_change_between (u_pkg u cur) (Some (u_pkg u s)) = PKG_UPGRADE then Some cur else Some s)
      None chain"

text \<open>\<open>None\<close> is the failed assertion that a candidate was selected.\<close>

definition upgrade_chain :: "pkg_jobs_universe \<Rightarrow> item_id list \<Rightarrow> requests \<Rightarrow> requests option" where
  "upgrade_chain u chain reqs =
     (let locals = filter (\<lambda>i. is_installed (u_pkg u i)) chain; vercnt = length chain
      in if locals \<noteq> [] \<and> pkg_is_locked (u_pkg u (last locals)) then Some (drop_requests (\<lambda>_. True) chain reqs)
         else if vercnt > 1 \<and> (locals = [] \<or> vercnt > 2) then
           (case select_candidate u chain of
              None \<Rightarrow> None
            | Some sel \<Rightarrow> Some (drop_requests (\<lambda>cur. cur \<noteq> sel) chain reqs))
         else Some reqs)"

fun upgrade_chains :: "pkg_jobs_universe \<Rightarrow> item_id list list \<Rightarrow> requests \<Rightarrow> requests option" where
  "upgrade_chains u [] reqs = Some reqs"
| "upgrade_chains u (c # cs) reqs = (case upgrade_chain u c reqs of
     None \<Rightarrow> None | Some reqs \<Rightarrow> upgrade_chains u cs reqs)"

definition pkg_jobs_universe_process_upgrade_chains :: "pkg_jobs \<Rightarrow> pkg_jobs option" where
  "pkg_jobs_universe_process_upgrade_chains j =
     (case upgrade_chains (j_universe j) (map snd (u_items (j_universe j))) (j_request_add j) of
        None \<Rightarrow> None | Some reqs \<Rightarrow> Some (j\<lparr>j_request_add := reqs\<rparr>))"

lemma drop_requests_eq: "drop_requests P chain reqs = filter (\<lambda>e. \<not> (fst e \<in> set chain \<and> P (fst e))) reqs"
  unfolding drop_requests_def
proof (induction chain arbitrary: reqs)
  case (Cons c chain)
  have "(if P c \<and> hash_find c reqs \<noteq> None then hash_del c reqs else reqs) = filter (\<lambda>e. \<not> (fst e = c \<and> P c)) reqs"
  proof (cases "P c \<and> hash_find c reqs = None")
    case True
    then have "c \<notin> fst ` set reqs" using uh.find_None [of c reqs] by blast
    then have "filter (\<lambda>e. \<not> (fst e = c \<and> P c)) reqs = reqs" by (intro filter_True) force
    with True show ?thesis by simp
  qed (auto simp: hash_del_def)
  then show ?case using Cons.IH by (simp add: filter_filter) (auto intro: filter_cong)
qed simp

lemma select_candidate_max:
  assumes "select_candidate u chain = Some s"
  shows "s \<in> set chain \<and> \<not> is_installed (u_pkg u s)
    \<and> (\<forall>i \<in> set chain. \<not> is_installed (u_pkg u i) \<longrightarrow>
         pkg_version_cmp (pkg_version (u_pkg u i)) (pkg_version (u_pkg u s)) \<le> 0)"
proof -
  let ?ver = "\<lambda>i. pkg_version (u_pkg u i)"
  let ?rem = "filter (\<lambda>i. \<not> is_installed (u_pkg u i)) chain"
  have step: "foldl (\<lambda>selected cur. if is_installed (u_pkg u cur) then selected
      else case selected of None \<Rightarrow> Some cur
       | Some s \<Rightarrow> if pkg_version_change_between (u_pkg u cur) (Some (u_pkg u s)) = PKG_UPGRADE then Some cur else Some s)
      (Some a) c = Some (foldl (\<lambda>s x. if pkg_version_cmp (?ver s) (?ver x) < 0 then x else s) a
        (filter (\<lambda>i. \<not> is_installed (u_pkg u i)) c))" for a c
    by (induction c arbitrary: a) (auto simp: change_between_upgrade)
  have none: "select_candidate u c = (case filter (\<lambda>i. \<not> is_installed (u_pkg u i)) c of [] \<Rightarrow> None
      | a # as \<Rightarrow> Some (foldl (\<lambda>s x. if pkg_version_cmp (?ver s) (?ver x) < 0 then x else s) a as))" for c
    unfolding select_candidate_def by (induction c) (auto simp: step)
  obtain a as where a: "?rem = a # as" using assms none [of chain] by (auto split: list.splits)
  have w: "three_way_cmp (\<lambda>i k. pkg_version_cmp (?ver i) (?ver k))"
    by (rule three_way_key [OF version.three_way_cmp_axioms])
  have "foldl (\<lambda>s x. if pkg_version_cmp (?ver s) (?ver x) < 0 then x else s) a as = s"
    using assms none [of chain] a by simp
  from three_way_cmp.select_max [OF w this] have "s \<in> set ?rem \<and> (\<forall>i \<in> set ?rem. pkg_version_cmp (?ver i) (?ver s) \<le> 0)"
    by (simp add: a)
  then show ?thesis by simp
qed

text \<open>What is left of a request for item \<open>i\<close> of the chain \<open>c\<close>.\<close>

definition chain_locked :: "pkg_jobs_universe \<Rightarrow> item_id list \<Rightarrow> bool" where
  "chain_locked u c \<longleftrightarrow> (let locals = filter (\<lambda>i. is_installed (u_pkg u i)) c
     in locals \<noteq> [] \<and> pkg_is_locked (u_pkg u (last locals)))"

definition chain_contested :: "pkg_jobs_universe \<Rightarrow> item_id list \<Rightarrow> bool" where
  "chain_contested u c \<longleftrightarrow> length c > 2 \<or> (length c = 2 \<and> (\<forall>i \<in> set c. \<not> is_installed (u_pkg u i)))"

definition chain_keeps :: "pkg_jobs_universe \<Rightarrow> item_id list \<Rightarrow> item_id \<Rightarrow> bool" where
  "chain_keeps u c i \<longleftrightarrow> \<not> chain_locked u c \<and> (chain_contested u c \<longrightarrow> select_candidate u c = Some i)"

lemma upgrade_chain_filter:
  assumes "upgrade_chain u c reqs = Some r"
  shows "r = filter (\<lambda>e. fst e \<in> set c \<longrightarrow> chain_keeps u c (fst e)) reqs
    \<and> (chain_contested u c \<and> \<not> chain_locked u c \<longrightarrow> select_candidate u c \<noteq> None)"
proof -
  have "chain_contested u c \<longleftrightarrow>
      length c > 1 \<and> (filter (\<lambda>i. is_installed (u_pkg u i)) c = [] \<or> length c > 2)"
    by (auto simp: chain_contested_def filter_empty_conv)
  then show ?thesis using assms
    by (auto simp: upgrade_chain_def Let_def chain_locked_def chain_keeps_def drop_requests_eq split: if_splits option.splits
        intro!: filter_cong)
qed

lemma upgrade_chains_filter:
  assumes "upgrade_chains u cs reqs = Some r"
  shows "r = filter (\<lambda>e. \<forall>c \<in> set cs. fst e \<in> set c \<longrightarrow> chain_keeps u c (fst e)) reqs
    \<and> (\<forall>c \<in> set cs. chain_contested u c \<and> \<not> chain_locked u c \<longrightarrow> select_candidate u c \<noteq> None)"
  using assms
proof (induction cs arbitrary: reqs)
  case (Cons c cs)
  then obtain q where q: "upgrade_chain u c reqs = Some q" "upgrade_chains u cs q = Some r"
    by (auto split: option.splits)
  from upgrade_chain_filter [OF q(1)] Cons.IH [OF q(2)] show ?case
    by (auto simp: filter_filter intro!: filter_cong)
qed simp

lemma universe_chain_unique:
  assumes "universe_wf u" "(uid, c) \<in> set (u_items u)" "i \<in> set c" "c' \<in> snd ` set (u_items u)" "i \<in> set c'"
  shows "c' = c"
proof -
  from assms(2) have "c \<in> set (map snd (u_items u))" by force
  moreover from assms(4) have "c' \<in> set (map snd (u_items u))" by simp
  moreover have "distinct (concat (map snd (u_items u)))" using assms(1) by (simp add: universe_wf_def)
  ultimately show ?thesis using assms(3,5) by (auto simp: distinct_concat_iff)
qed

text \<open>
  C28: after \<open>pkg_jobs_universe_process_upgrade_chains\<close>, in every chain of one uid: when the installed
  package is locked no request to add is left; when there are several candidates, the only request that may
  be left is that of one candidate with the highest version; in the other chains the requests are the
  same as before. Nothing else of the jobs changes.
\<close>

theorem upgrade_chains_newest:
  assumes "universe_wf (j_universe j)" "pkg_jobs_universe_process_upgrade_chains j = Some j'"
    and "(uid, c) \<in> set (u_items (j_universe j))"
  shows "j' = j\<lparr>j_request_add := j_request_add j'\<rparr>
    \<and> (if chain_locked (j_universe j) c then \<forall>e \<in> set (j_request_add j'). fst e \<notin> set c
       else if chain_contested (j_universe j) c then
         (\<exists>s \<in> set c. \<not> is_installed (u_pkg (j_universe j) s)
           \<and> (\<forall>i \<in> set c. \<not> is_installed (u_pkg (j_universe j) i) \<longrightarrow>
               pkg_version_cmp (pkg_version (u_pkg (j_universe j) i)) (pkg_version (u_pkg (j_universe j) s)) \<le> 0)
           \<and> filter (\<lambda>e. fst e \<in> set c) (j_request_add j') = filter (\<lambda>e. fst e = s) (j_request_add j))
       else filter (\<lambda>e. fst e \<in> set c) (j_request_add j') = filter (\<lambda>e. fst e \<in> set c) (j_request_add j))"
proof -
  let ?u = "j_universe j" and ?R = "j_request_add j"
  obtain r where r: "upgrade_chains ?u (map snd (u_items ?u)) ?R = Some r" "j' = j\<lparr>j_request_add := r\<rparr>"
    using assms(2) by (auto simp: pkg_jobs_universe_process_upgrade_chains_def split: option.splits)
  note f = upgrade_chains_filter [OF r(1)]
  have cs: "c \<in> snd ` set (u_items ?u)" using assms(3) by force
  have "(\<forall>c' \<in> snd ` set (u_items ?u). fst e \<in> set c' \<longrightarrow> chain_keeps ?u c' (fst e)) \<longleftrightarrow> chain_keeps ?u c (fst e)"
    if "fst e \<in> set c" for e :: "item_id \<times> bool"
    using that cs universe_chain_unique [OF assms(1,3)] by metis
  then have "(\<forall>c' \<in> set (map snd (u_items ?u)). fst e \<in> set c' \<longrightarrow> chain_keeps ?u c' (fst e)) \<and> fst e \<in> set c
      \<longleftrightarrow> fst e \<in> set c \<and> chain_keeps ?u c (fst e)" for e :: "item_id \<times> bool"
    unfolding set_map by blast
  then have k: "filter (\<lambda>e. fst e \<in> set c) r = filter (\<lambda>e. fst e \<in> set c \<and> chain_keeps ?u c (fst e)) ?R"
    by (subst conjunct1 [OF f]) (simp only: filter_filter)
  show ?thesis
  proof (cases "chain_locked ?u c")
    case True
    then have "filter (\<lambda>e. fst e \<in> set c) r = []" using k by (simp add: chain_keeps_def)
    with True r(2) show ?thesis by (simp add: filter_empty_conv)
  next
    case unlocked: False
    show ?thesis
    proof (cases "chain_contested ?u c")
      case True
      then obtain s where s: "select_candidate ?u c = Some s" using f cs unlocked by auto
      note m = select_candidate_max [OF s]
      have "filter (\<lambda>e. fst e \<in> set c) r = filter (\<lambda>e. fst e = s) ?R"
        unfolding k using m unlocked True s by (auto simp: chain_keeps_def intro!: filter_cong)
      with m True unlocked r(2) show ?thesis by auto
    next
      case False
      with unlocked k r(2) show ?thesis by (simp add: chain_keeps_def)
    qed
  qed
qed

definition two_remotes :: pkg_jobs where
  "two_remotes = (let new = remote_a\<lparr>pkg_version := ''3.0'', pkg_digest := Some ''d9''\<rparr> in
    start_jobs\<lparr>j_universe := \<lparr>u_store = [\<lparr>it_pkg = remote_a, it_jp = None, it_priority = 0\<rparr>,
        \<lparr>it_pkg = new, it_jp = None, it_priority = 0\<rparr>],
      u_items = [(''a'', [0, 1])], u_seen = [], u_provides = [], u_uid_replaces = [], u_nitems = 2\<rparr>,
      j_request_add := [(0, False), (1, False)]\<rparr>)"

theorem upgrade_chains_newest_witness:
  "pkg_jobs_universe_process_upgrade_chains two_remotes = Some (two_remotes\<lparr>j_request_add := [(1, False)]\<rparr>)
   \<and> (\<exists>s \<in> {0, 1}. filter (\<lambda>e. fst e \<in> {0, 1}) [(1, False)] = filter (\<lambda>e. fst e = s) (j_request_add two_remotes))"
proof -
  have run: "pkg_jobs_universe_process_upgrade_chains two_remotes = Some (two_remotes\<lparr>j_request_add := [(1, False)]\<rparr>)"
    and wf: "universe_wf (j_universe two_remotes)" and c: "(''a'', [0, 1]) \<in> set (u_items (j_universe two_remotes))"
    and k: "\<not> chain_locked (j_universe two_remotes) [0, 1]" "chain_contested (j_universe two_remotes) [0, 1]"
    by code_simp+
  from upgrade_chains_newest [OF wf run c] k run show ?thesis by auto
qed

end
