(* ===== verification/Priorities.thy ===== *)
theory Priorities
  imports Package
begin

text \<open>
  The order of the jobs: \<open>pkg_jobs_update_universe_item_priority\<close> and its callers in
  \<open>libpkg/pkg_jobs_universe.c\<close>, and \<open>pkg_jobs_set_priorities\<close> of \<open>libpkg/pkg_jobs.c\<close>. The priority
  of an item is above that of the items that depend on it; the jobs are sorted by descending priority, so
  that what a package needs is installed before it.
\<close>

section \<open>Priorities of items\<close>

datatype pkg_priority_update_type =
  PKG_PRIORITY_UPDATE_REQUEST | PKG_PRIORITY_UPDATE_UNIVERSE | PKG_PRIORITY_UPDATE_CONFLICT | PKG_PRIORITY_UPDATE_DELETE

definition RECURSION_LIMIT :: int where
  "RECURSION_LIMIT = 1024"

definition set_priority :: "item_id \<Rightarrow> int \<Rightarrow> pkg_jobs_universe \<Rightarrow> pkg_jobs_universe" where
  "set_priority i p = u_upd_item i (\<lambda>it. it\<lparr>it_priority := p\<rparr>)"

text \<open>The items \<open>LL_FOREACH\<close> visits from an item on.\<close>

definition u_tail :: "pkg_jobs_universe \<Rightarrow> item_id \<Rightarrow> item_id list" where
  "u_tail u i = dropWhile (\<lambda>k. k \<noteq> i) (u_chain_of u i)"

definition u_found :: "pkg_jobs_universe \<Rightarrow> string \<Rightarrow> item_id list" where
  \<comment> \<open>\<open>HASH_FIND_STR\<close> and, when it finds an item, \<open>LL_FOREACH\<close> from it\<close>
  "u_found u uid = (case hash_find uid (u_items u) of None \<Rightarrow> [] | Some c \<Rightarrow> c)"

text \<open>
  The function calls itself in three places; the loops take the recursive call as the argument
  \<open>rec\<close>. An item that was added to the universe is linked, and \<open>prev\<close> of the first item of
  a list of \<open>utlist.h\<close> is its last item, so the test that \<open>next\<close> or \<open>prev\<close> is
  not \<open>NULL\<close> always succeeds.
\<close>

type_synonym priority_fun =
  "item_id \<Rightarrow> int \<Rightarrow> pkg_priority_update_type \<Rightarrow> pkg_jobs_universe \<Rightarrow> pkg_jobs_universe run"

definition deps_func :: "pkg_priority_update_type \<Rightarrow> pkg \<Rightarrow> pkg_dep list" where
  "deps_func type = (if type = PKG_PRIORITY_UPDATE_DELETE then pkg_rdeps else pkg_deps)"

definition rdeps_func :: "pkg_priority_update_type \<Rightarrow> pkg \<Rightarrow> pkg_dep list" where
  "rdeps_func type = (if type = PKG_PRIORITY_UPDATE_DELETE then pkg_deps else pkg_rdeps)"

definition raise_deps ::
  "priority_fun \<Rightarrow> pkg_priority_update_type \<Rightarrow> int \<Rightarrow> pkg_dep list \<Rightarrow> pkg_jobs_universe \<Rightarrow> pkg_jobs_universe run" where
  "raise_deps rec type priority ds = run_fold (\<lambda>d u. run_fold (\<lambda>cur u.
      if u_priority u cur < priority + 1 then rec cur (priority + 1) type u else Ret u)
      (u_found u (dep_uid d)) u) ds"

definition max_priority :: "pkg_jobs_universe \<Rightarrow> int \<Rightarrow> pkg_dep list \<Rightarrow> int" where
  "max_priority u = foldl (\<lambda>maxpri d. foldl (\<lambda>maxpri cur.
      if u_priority u cur \<ge> maxpri then u_priority u cur + 1 else maxpri) maxpri (u_found u (dep_uid d)))"

definition raise_conflicts :: "priority_fun \<Rightarrow> item_id \<Rightarrow> pkg_conflict list \<Rightarrow> pkg_jobs_universe \<Rightarrow> pkg_jobs_universe run" where
  "raise_conflicts rec it = run_fold (\<lambda>c u. run_fold (\<lambda>cur u.
      if is_installed (u_pkg u cur) \<and> u_priority u cur \<le> u_priority u it
      then rec cur (u_priority u it + 1) PKG_PRIORITY_UPDATE_CONFLICT u else Ret u)
      (u_found u (conf_uniqueid c)) u)"

definition priority_skips :: "pkg_priority_update_type \<Rightarrow> pkg \<Rightarrow> bool" where
  "priority_skips type p \<longleftrightarrow> \<not> is_installed p
     \<and> (type = PKG_PRIORITY_UPDATE_CONFLICT \<or> type = PKG_PRIORITY_UPDATE_DELETE)"

fun update_chain ::
  "priority_fun \<Rightarrow> int \<Rightarrow> pkg_priority_update_type \<Rightarrow> item_id list \<Rightarrow> pkg_jobs_universe \<Rightarrow> pkg_jobs_universe run" where
  "update_chain rec priority type [] u = Ret u"
| "update_chain rec priority type (it # its) u =
     (let pkg = u_pkg u it
      in if priority_skips type pkg \<or> u_priority u it > priority then update_chain rec priority type its u
         else run_bind (raise_deps rec type priority (deps_func type pkg) (set_priority it priority u)) (\<lambda>u.
           let maxpri = max_priority u priority (rdeps_func type pkg)
           in if maxpri \<noteq> priority then rec it maxpri type u
              else run_bind (if \<not> is_installed pkg then raise_conflicts rec it (pkg_conflicts pkg) u else Ret u)
                     (update_chain rec priority type its)))"

fun pkg_jobs_update_universe_item_priority :: "nat \<Rightarrow> priority_fun" where
  "pkg_jobs_update_universe_item_priority 0 item priority type u = NoFuel"
| "pkg_jobs_update_universe_item_priority (Suc n) item priority type u =
     (if priority > RECURSION_LIMIT then Ret u
      else update_chain (pkg_jobs_update_universe_item_priority n) priority type (u_tail u item) u)"

definition pkg_jobs_update_universe_priority ::
  "nat \<Rightarrow> item_id \<Rightarrow> pkg_priority_update_type \<Rightarrow> pkg_jobs_universe \<Rightarrow> pkg_jobs_universe run" where
  "pkg_jobs_update_universe_priority n it type = pkg_jobs_update_universe_item_priority n it 0 type"

text \<open>For an upgrade that has conflicts; \<open>Crash\<close> is a failed assertion.\<close>

definition conflict_priority :: "nat \<Rightarrow> item_id \<Rightarrow> item_id \<Rightarrow> pkg_conflict \<Rightarrow> pkg_jobs_universe \<Rightarrow> pkg_jobs_universe run" where
  "conflict_priority n item0 item1 c u =
     (case hash_find (conf_uniqueid c) (u_items u) of
        None \<Rightarrow> Crash
      | Some found \<Rightarrow>
         (case find (\<lambda>cur. \<not> is_installed (u_pkg u cur)) found of
            None \<Rightarrow> Crash
          | Some rit \<Rightarrow>
              if u_priority u rit \<ge> u_priority u item1 then
                run_bind (pkg_jobs_update_universe_item_priority n item1 (u_priority u rit + 1)
                            PKG_PRIORITY_UPDATE_CONFLICT u) (\<lambda>u.
                  pkg_jobs_update_universe_item_priority n item0 (u_priority u item0) PKG_PRIORITY_UPDATE_REQUEST u)
              else Ret u))"

definition pkg_jobs_update_conflict_priority ::
  "nat \<Rightarrow> item_id \<Rightarrow> item_id \<Rightarrow> pkg_jobs_universe \<Rightarrow> pkg_jobs_universe run" where
  "pkg_jobs_update_conflict_priority n item0 item1 u =
     run_fold (conflict_priority n item0 item1) (pkg_conflicts (u_pkg u item1)) u"

section \<open>What an update does to the universe\<close>

text \<open>Only priorities change, and they only grow, up to the limit.\<close>

definition raises :: "pkg_jobs_universe \<Rightarrow> pkg_jobs_universe \<Rightarrow> bool" where
  "raises u u' \<longleftrightarrow> u' = u\<lparr>u_store := u_store u'\<rparr>
     \<and> map (\<lambda>it. it\<lparr>it_priority := 0\<rparr>) (u_store u') = map (\<lambda>it. it\<lparr>it_priority := 0\<rparr>) (u_store u)
     \<and> (\<forall>i < length (u_store u). u_priority u i \<le> u_priority u' i
          \<and> (u_priority u' i = u_priority u i \<or> u_priority u' i \<le> RECURSION_LIMIT))"

lemma raises_refl [simp]: "raises u u"
  by (simp add: raises_def)

lemma raises_length: "raises u u' \<Longrightarrow> length (u_store u') = length (u_store u)"
  unfolding raises_def by (metis length_map)

lemma raises_items: "raises u u' \<Longrightarrow> u_items u' = u_items u"
  unfolding raises_def by (metis pkg_jobs_universe.select_convs(2) pkg_jobs_universe.surjective pkg_jobs_universe.update_convs(1))

lemma raises_pkg: "raises u u' \<Longrightarrow> i < length (u_store u) \<Longrightarrow> u_pkg u' i = u_pkg u i"
proof -
  assume r: "raises u u'" and i: "i < length (u_store u)"
  then have "map (\<lambda>it. it\<lparr>it_priority := 0\<rparr>) (u_store u') ! i = map (\<lambda>it. it\<lparr>it_priority := 0\<rparr>) (u_store u) ! i"
    by (simp add: raises_def)
  then have "(u_store u' ! i)\<lparr>it_priority := 0\<rparr> = (u_store u ! i)\<lparr>it_priority := 0\<rparr>"
    using i raises_length [OF r] by simp
  then have "it_pkg ((u_store u' ! i)\<lparr>it_priority := 0\<rparr>) = it_pkg ((u_store u ! i)\<lparr>it_priority := 0\<rparr>)" by simp
  then show ?thesis by (simp add: u_pkg_def)
qed

lemma raises_priority: "raises u u' \<Longrightarrow> i < length (u_store u) \<Longrightarrow> u_priority u i \<le> u_priority u' i"
  by (simp add: raises_def)

lemma raises_trans: "raises u v \<Longrightarrow> raises v w \<Longrightarrow> raises u w"
proof -
  assume a: "raises u v" and b: "raises v w"
  obtain s t where "v = u\<lparr>u_store := s\<rparr>" "w = v\<lparr>u_store := t\<rparr>" using a b unfolding raises_def by blast
  then have "w = u\<lparr>u_store := u_store w\<rparr>" by simp
  moreover have "u_priority u i \<le> u_priority w i \<and> (u_priority w i = u_priority u i \<or> u_priority w i \<le> RECURSION_LIMIT)"
    if "i < length (u_store u)" for i
  proof -
    have "u_priority u i \<le> u_priority v i" "u_priority v i = u_priority u i \<or> u_priority v i \<le> RECURSION_LIMIT"
      using a that by (simp_all add: raises_def)
    moreover have "u_priority v i \<le> u_priority w i" "u_priority w i = u_priority v i \<or> u_priority w i \<le> RECURSION_LIMIT"
      using b that raises_length [OF a] by (simp_all add: raises_def)
    ultimately show ?thesis by linarith
  qed
  ultimately show ?thesis using a b by (simp add: raises_def)
qed

lemma raises_wf: "raises u u' \<Longrightarrow> universe_wf u \<Longrightarrow> universe_wf u'"
proof -
  assume r: "raises u u'" and w: "universe_wf u"
  obtain s where s: "u' = u\<lparr>u_store := s\<rparr>" using r unfolding raises_def by blast
  with raises_length [OF r] w show ?thesis by (simp add: universe_wf_def)
qed

lemma set_priority_raises:
  assumes "i < length (u_store u)" "u_priority u i \<le> p" "p \<le> RECURSION_LIMIT"
  shows "raises u (set_priority i p u)" "u_priority (set_priority i p u) i = p"
    "k < length (u_store u) \<Longrightarrow> k \<noteq> i \<Longrightarrow> u_priority (set_priority i p u) k = u_priority u k"
proof -
  let ?v = "set_priority i p u"
  have s: "u_store ?v = (u_store u)[i := (u_store u ! i)\<lparr>it_priority := p\<rparr>]"
    by (simp add: set_priority_def u_upd_item_def)
  show i: "u_priority ?v i = p" using assms(1) by (simp add: u_priority_def s)
  have k: "u_priority ?v k = u_priority u k" if "k < length (u_store u)" "k \<noteq> i" for k
    using that by (simp add: u_priority_def s)
  then show "k < length (u_store u) \<Longrightarrow> k \<noteq> i \<Longrightarrow> u_priority ?v k = u_priority u k" .
  have "map (\<lambda>it. it\<lparr>it_priority := 0\<rparr>) (u_store ?v) = map (\<lambda>it. it\<lparr>it_priority := 0\<rparr>) (u_store u)"
    unfolding s map_update using assms(1) by (intro nth_equalityI) (auto simp: nth_list_update)
  moreover have "?v = u\<lparr>u_store := u_store ?v\<rparr>" by (simp add: set_priority_def u_upd_item_def)
  moreover have "u_priority u m \<le> u_priority ?v m \<and> (u_priority ?v m = u_priority u m \<or> u_priority ?v m \<le> RECURSION_LIMIT)"
    if "m < length (u_store u)" for m
    using i k [OF that] assms(2,3) by (cases "m = i") auto
  ultimately show "raises u ?v" by (simp add: raises_def)
qed

lemma universe_wf_chain: "universe_wf u \<Longrightarrow> (uid, c) \<in> set (u_items u) \<Longrightarrow> i \<in> set c \<Longrightarrow> i < length (u_store u)"
  by (force simp: universe_wf_def)

lemma u_found_wf: "universe_wf u \<Longrightarrow> i \<in> set (u_found u uid) \<Longrightarrow> i < length (u_store u)"
  by (cases "hash_find uid (u_items u)") (auto simp: u_found_def dest: uh.find_SomeD universe_wf_chain)

lemma u_chain_of_cases: "u_chain_of u i = [i] \<or> (\<exists>uid. (uid, u_chain_of u i) \<in> set (u_items u) \<and> i \<in> set (u_chain_of u i))"
proof (cases "find (\<lambda>c. i \<in> set c) (map snd (u_items u))")
  case (Some c)
  then have "c \<in> set (map snd (u_items u))" "i \<in> set c" by (auto simp: find_Some_iff)
  with Some show ?thesis by (auto simp: u_chain_of_def)
qed (simp add: u_chain_of_def)

lemma u_tail_wf:
  assumes "universe_wf u" "i < length (u_store u)"
  shows "\<exists>r. u_tail u i = i # r \<and> (\<forall>k \<in> set r. k < length (u_store u))"
proof -
  have c: "i \<in> set (u_chain_of u i)" using u_chain_of_cases [of u i] by auto
  have "k < length (u_store u)" if "k \<in> set (u_chain_of u i)" for k
    using that assms u_chain_of_cases [of u i] universe_wf_chain [of u _ "u_chain_of u i" k] by auto
  moreover have "set (u_tail u i) \<subseteq> set (u_chain_of u i)"
    unfolding u_tail_def by (auto dest: set_dropWhileD)
  moreover obtain r where "u_tail u i = i # r"
  proof (cases "u_tail u i")
    case Nil
    then show ?thesis using c by (auto simp: u_tail_def dropWhile_eq_Nil_conv)
  next
    case (Cons x r)
    then have "x = i" using hd_dropWhile [of "\<lambda>k. k \<noteq> i" "u_chain_of u i"] by (simp add: u_tail_def)
    with Cons that show ?thesis by blast
  qed
  ultimately show ?thesis by auto
qed

section \<open>Dependencies come out higher\<close>

text \<open>
  \<open>due T u it\<close>: the items that an update of type \<open>T\<close> reaches from \<open>it\<close> are above it, or
  the limit has been reached. For requests this is claimed of the remote items, for deletions of the
  installed ones.
\<close>

definition linked_to :: "pkg_priority_update_type \<Rightarrow> pkg_jobs_universe \<Rightarrow> item_id \<Rightarrow> item_id \<Rightarrow> bool" where
  "linked_to T u it cur \<longleftrightarrow> (\<exists>d \<in> set (deps_func T (u_pkg u it)). cur \<in> set (u_found u (dep_uid d)))"

definition due :: "pkg_priority_update_type \<Rightarrow> pkg_jobs_universe \<Rightarrow> item_id \<Rightarrow> bool" where
  "due T u it \<longleftrightarrow> (\<forall>cur. linked_to T u it cur \<longrightarrow> \<not> priority_skips T (u_pkg u cur) \<longrightarrow>
     u_priority u cur > u_priority u it \<or> u_priority u it \<ge> RECURSION_LIMIT)"

definition subject :: "pkg_priority_update_type \<Rightarrow> pkg_jobs_universe \<Rightarrow> item_id \<Rightarrow> bool" where
  "subject T u it \<longleftrightarrow> is_installed (u_pkg u it) = (T = PKG_PRIORITY_UPDATE_DELETE)"

definition reorders :: "pkg_priority_update_type \<Rightarrow> pkg_jobs_universe \<Rightarrow> pkg_jobs_universe \<Rightarrow> bool" where
  "reorders T u u' \<longleftrightarrow> universe_wf u \<and> raises u u'
     \<and> (\<forall>it < length (u_store u). subject T u it \<longrightarrow> u_priority u' it \<noteq> u_priority u it \<longrightarrow> due T u' it)"

lemma u_found_raises [simp]: "raises u u' \<Longrightarrow> u_found u' uid = u_found u uid"
  by (simp add: u_found_def raises_items)

lemma linked_raises: "raises u u' \<Longrightarrow> it < length (u_store u) \<Longrightarrow> linked_to T u' it cur = linked_to T u it cur"
  by (simp add: linked_to_def raises_pkg)

lemma linked_wf: "universe_wf u \<Longrightarrow> linked_to T u it cur \<Longrightarrow> cur < length (u_store u)"
  by (auto simp: linked_to_def dest: u_found_wf)

lemma due_mono:
  assumes "universe_wf u" "raises u u'" "it < length (u_store u)" "u_priority u' it = u_priority u it" "due T u it"
  shows "due T u' it"
  unfolding due_def
proof (intro allI impI)
  fix cur assume l: "linked_to T u' it cur" and s: "\<not> priority_skips T (u_pkg u' cur)"
  have l': "linked_to T u it cur" using l linked_raises assms(2,3) by blast
  then have c: "cur < length (u_store u)" using assms(1) linked_wf by blast
  then have "u_priority u cur > u_priority u it \<or> u_priority u it \<ge> RECURSION_LIMIT"
    using assms(5) l' s raises_pkg [OF assms(2) c] by (simp add: due_def)
  then show "u_priority u' cur > u_priority u' it \<or> u_priority u' it \<ge> RECURSION_LIMIT"
    using raises_priority [OF assms(2) c] assms(4) by auto
qed

lemma reorders_refl: "universe_wf u \<Longrightarrow> reorders T u u"
  by (simp add: reorders_def)

lemma subject_raises: "raises u u' \<Longrightarrow> it < length (u_store u) \<Longrightarrow> subject T u' it = subject T u it"
  by (simp add: subject_def raises_pkg)

lemma reorders_due:
  assumes "reorders T u u'" "it < length (u_store u)" "subject T u it" "due T u it"
  shows "due T u' it"
  using assms due_mono [of u u' it T] by (cases "u_priority u' it = u_priority u it") (auto simp: reorders_def)

lemma reorders_trans: "reorders T u v \<Longrightarrow> reorders T v w \<Longrightarrow> reorders T u w"
proof -
  assume a: "reorders T u v" and b: "reorders T v w"
  have r: "raises u v" "raises v w" using a b by (simp_all add: reorders_def)
  have "due T w it" if i: "it < length (u_store u)" "subject T u it" "u_priority w it \<noteq> u_priority u it" for it
  proof (cases "u_priority w it = u_priority v it")
    case True
    then have "due T v it" using a i by (simp add: reorders_def)
    then show ?thesis using b i reorders_due r raises_length subject_raises by metis
  next
    case False
    then show ?thesis using b i r raises_length subject_raises by (metis reorders_def)
  qed
  then show ?thesis using a raises_trans [OF r] by (simp add: reorders_def)
qed

text \<open>The claim about one call: what it raises, and where it leaves the item it is called for.\<close>

definition lifts :: "pkg_priority_update_type \<Rightarrow> pkg_priority_update_type \<Rightarrow> int \<Rightarrow> item_id \<Rightarrow> pkg_jobs_universe \<Rightarrow> pkg_jobs_universe \<Rightarrow> bool" where
  "lifts T type p it u u' \<longleftrightarrow> reorders T u u'
     \<and> (\<not> priority_skips type (u_pkg u it) \<longrightarrow> p \<le> RECURSION_LIMIT \<longrightarrow>
          p \<le> u_priority u' it \<and> (u_priority u it \<le> p \<longrightarrow> subject T u it \<longrightarrow> due T u' it))"

definition priority_ok :: "pkg_priority_update_type \<Rightarrow> nat \<Rightarrow> priority_fun \<Rightarrow> bool" where
  "priority_ok T n rec \<longleftrightarrow> (\<forall>it p type u. universe_wf u \<longrightarrow> it < length (u_store u) \<longrightarrow> 0 < n \<longrightarrow> RECURSION_LIMIT + 1 < p + int n \<longrightarrow>
     T = PKG_PRIORITY_UPDATE_REQUEST \<or> type = T \<longrightarrow> T = PKG_PRIORITY_UPDATE_REQUEST \<or> T = PKG_PRIORITY_UPDATE_DELETE \<longrightarrow>
     run_returns (lifts T type p it u) (rec it p type u))"

lemma lifts_reorders: "lifts T type p it u u' \<Longrightarrow> reorders T u u'"
  by (simp add: lifts_def)

lemma reorders_raises: "reorders T u u' \<Longrightarrow> raises u u'"
  by (simp add: reorders_def)

lemma reorders_wf: "reorders T u u' \<Longrightarrow> universe_wf u \<and> universe_wf u'"
  by (auto simp: reorders_def intro: raises_wf)

lemma lifts_then:
  assumes "lifts T type p it u v" "reorders T v w" "it < length (u_store u)"
  shows "lifts T type p it u w"
proof -
  have r: "raises u v" "raises v w" using assms(1,2) by (auto simp: lifts_def reorders_def)
  have "u_priority v it \<le> u_priority w it" using raises_priority [OF r(2)] raises_length [OF r(1)] assms(3) by simp
  moreover have "due T v it \<Longrightarrow> subject T u it \<Longrightarrow> due T w it"
    using reorders_due [OF assms(2)] raises_length [OF r(1)] subject_raises [OF r(1)] assms(3) by simp
  ultimately show ?thesis using assms(1) reorders_trans [OF _ assms(2)] unfolding lifts_def by fastforce
qed

text \<open>The two loops over items that raise what they find.\<close>

definition frame :: "pkg_jobs_universe \<Rightarrow> pkg_jobs_universe \<Rightarrow> bool" where
  "frame u0 u \<longleftrightarrow> universe_wf u0 \<and> raises u0 u"

lemma frame_step: "frame u0 u \<Longrightarrow> reorders T u v \<Longrightarrow> frame u0 v"
  using raises_trans reorders_raises by (auto simp: frame_def)

lemma frame_wf: "frame u0 u \<Longrightarrow> universe_wf u"
  by (auto simp: frame_def intro: raises_wf)

lemma frame_length: "frame u0 u \<Longrightarrow> length (u_store u) = length (u_store u0)"
  by (auto simp: frame_def dest: raises_length)

definition above :: "pkg_priority_update_type \<Rightarrow> int \<Rightarrow> item_id \<Rightarrow> pkg_jobs_universe \<Rightarrow> bool" where
  "above type p cur u \<longleftrightarrow> cur < length (u_store u) \<and> (priority_skips type (u_pkg u cur) \<or> p \<ge> RECURSION_LIMIT \<or> p < u_priority u cur)"

lemma above_stable: "above type p cur u \<Longrightarrow> reorders T u v \<Longrightarrow> above type p cur v"
  using raises_priority [of u v cur] raises_pkg [of u v cur] raises_length [of u v]
  by (auto simp: above_def reorders_def)

lemma reorders_fold:
  assumes "\<And>x u. x \<in> set xs \<Longrightarrow> frame u0 u \<Longrightarrow> run_returns (\<lambda>v. reorders T u v \<and> Q x v) (f x u)"
    and "\<And>x u v. Q x u \<Longrightarrow> frame u0 u \<Longrightarrow> reorders T u v \<Longrightarrow> Q x v"
    and "frame u0 u"
  shows "run_returns (\<lambda>v. reorders T u v \<and> (\<forall>x \<in> set xs. Q x v)) (run_fold f xs u)"
proof -
  let ?R = "\<lambda>u v. u = v \<or> reorders T u v"
  have "run_returns (\<lambda>v. ?R u v \<and> (\<forall>x \<in> set xs. Q x v)) (run_fold f xs u)"
  proof (rule run_fold_returns [where I = "frame u0" and R = ?R])
    fix x u assume "x \<in> set xs" "frame u0 u"
    from assms(1) [OF this] show "run_returns (\<lambda>v. ?R u v \<and> Q x v) (f x u)" by (rule run_returns_mono) simp
  qed (auto intro: assms(2,3) frame_step reorders_trans)
  then show ?thesis by (rule run_returns_mono) (use assms(3) frame_wf reorders_refl in blast)
qed

lemma raise_deps_ok:
  assumes ok: "priority_ok T n rec" and fuel: "RECURSION_LIMIT + 1 < p + 1 + int n" "0 < n"
    and T: "T = PKG_PRIORITY_UPDATE_REQUEST \<or> type = T" "T = PKG_PRIORITY_UPDATE_REQUEST \<or> T = PKG_PRIORITY_UPDATE_DELETE"
    and wf: "universe_wf u0"
  shows "run_returns (\<lambda>v. reorders T u0 v \<and> (\<forall>d \<in> set ds. \<forall>cur \<in> set (u_found u0 (dep_uid d)). above type p cur v))
    (raise_deps rec type p ds u0)"
  unfolding raise_deps_def
proof (rule reorders_fold [where ?u0.0 = u0])
  fix d u assume fr: "frame u0 u"
  show "run_returns (\<lambda>v. reorders T u v \<and> (\<forall>cur \<in> set (u_found u0 (dep_uid d)). above type p cur v))
      (run_fold (\<lambda>cur u. if u_priority u cur < p + 1 then rec cur (p + 1) type u else Ret u) (u_found u (dep_uid d)) u)"
  proof -
    have found: "u_found u (dep_uid d) = u_found u0 (dep_uid d)" using fr by (simp add: frame_def)
    show ?thesis unfolding found
    proof (rule reorders_fold [OF _ _ fr])
      fix cur v assume c: "cur \<in> set (u_found u0 (dep_uid d))" and v: "frame u0 v"
      have len: "cur < length (u_store v)" using u_found_wf [OF wf c] frame_length [OF v] by simp
      show "run_returns (\<lambda>w. reorders T v w \<and> above type p cur w)
          (if u_priority v cur < p + 1 then rec cur (p + 1) type v else Ret v)"
      proof (cases "u_priority v cur < p + 1")
        case True
        have "run_returns (lifts T type (p + 1) cur v) (rec cur (p + 1) type v)"
          using ok frame_wf [OF v] len fuel T unfolding priority_ok_def by blast
        then have "run_returns (\<lambda>w. reorders T v w \<and> above type p cur w) (rec cur (p + 1) type v)"
        proof (rule run_returns_mono)
          fix w assume w: "lifts T type (p + 1) cur v w"
          then have r: "raises v w" by (simp add: lifts_def reorders_def)
          from w show "reorders T v w \<and> above type p cur w"
            using len raises_length [OF r] raises_pkg [OF r len] by (auto simp: lifts_def above_def)
        qed
        with True show ?thesis by simp
      next
        case False
        then show ?thesis using len frame_wf [OF v] by (simp add: above_def reorders_refl)
      qed
    qed (rule above_stable)
  qed
next
  fix d u v
  assume "\<forall>cur \<in> set (u_found u0 (dep_uid d)). above type p cur u" "reorders T u v"
  then show "\<forall>cur \<in> set (u_found u0 (dep_uid d)). above type p cur v" using above_stable by blast
next
  show "frame u0 u0" using wf by (simp add: frame_def)
qed

lemma raise_conflicts_ok:
  assumes ok: "priority_ok PKG_PRIORITY_UPDATE_REQUEST n rec" and fuel: "RECURSION_LIMIT + 1 < p + 1 + int n" "0 < n"
    and wf: "universe_wf u0" and it: "it < length (u_store u0)" "p \<le> u_priority u0 it"
  shows "run_returns (reorders PKG_PRIORITY_UPDATE_REQUEST u0) (raise_conflicts rec it cs u0)"
proof -
  let ?R = PKG_PRIORITY_UPDATE_REQUEST
  have "run_returns (\<lambda>v. reorders ?R u0 v \<and> (\<forall>c \<in> set cs. True)) (raise_conflicts rec it cs u0)"
    unfolding raise_conflicts_def
  proof (rule reorders_fold [where ?u0.0 = u0])
    fix c u assume fr: "frame u0 u"
    have found: "u_found u (conf_uniqueid c) = u_found u0 (conf_uniqueid c)" using fr by (simp add: frame_def)
    have "run_returns (\<lambda>v. reorders ?R u v \<and> (\<forall>x \<in> set (u_found u0 (conf_uniqueid c)). True))
      (run_fold (\<lambda>cur u. if is_installed (u_pkg u cur) \<and> u_priority u cur \<le> u_priority u it
        then rec cur (u_priority u it + 1) PKG_PRIORITY_UPDATE_CONFLICT u else Ret u) (u_found u0 (conf_uniqueid c)) u)"
    proof (rule reorders_fold [OF _ _ fr])
      fix cur v assume c: "cur \<in> set (u_found u0 (conf_uniqueid c))" and v: "frame u0 v"
      have len: "cur < length (u_store v)" using u_found_wf [OF wf c] frame_length [OF v] by simp
      have "p \<le> u_priority v it" using it raises_priority [of u0 v it] v by (simp add: frame_def)
      then have f: "RECURSION_LIMIT + 1 < u_priority v it + 1 + int n" using fuel(1) by linarith
      have "run_returns (lifts ?R PKG_PRIORITY_UPDATE_CONFLICT (u_priority v it + 1) cur v)
          (rec cur (u_priority v it + 1) PKG_PRIORITY_UPDATE_CONFLICT v)"
        using ok frame_wf [OF v] len f fuel(2) unfolding priority_ok_def by blast
      then have "run_returns (\<lambda>w. reorders ?R v w \<and> True) (rec cur (u_priority v it + 1) PKG_PRIORITY_UPDATE_CONFLICT v)"
        by (rule run_returns_mono) (simp add: lifts_def)
      then show "run_returns (\<lambda>w. reorders ?R v w \<and> True)
          (if is_installed (u_pkg v cur) \<and> u_priority v cur \<le> u_priority v it
           then rec cur (u_priority v it + 1) PKG_PRIORITY_UPDATE_CONFLICT v else Ret v)"
        using frame_wf [OF v] by (simp add: reorders_refl)
    qed simp
    then show "run_returns (\<lambda>v. reorders ?R u v \<and> True)
      (run_fold (\<lambda>cur u. if is_installed (u_pkg u cur) \<and> u_priority u cur \<le> u_priority u it
        then rec cur (u_priority u it + 1) PKG_PRIORITY_UPDATE_CONFLICT u else Ret u) (u_found u (conf_uniqueid c)) u)"
      unfolding found by (rule run_returns_mono) simp
  qed (use wf in \<open>simp_all add: frame_def\<close>)
  then show ?thesis by (rule run_returns_mono) simp
qed

lemma max_priority_ge: "p \<le> max_priority u p ds"
proof -
  have inner: "m \<le> foldl (\<lambda>m cur. if u_priority u cur \<ge> m then u_priority u cur + 1 else m) m c" for m c
  proof (induction c arbitrary: m)
    case (Cons x c)
    have "m \<le> (if u_priority u x \<ge> m then u_priority u x + 1 else m)" by simp
    also note Cons.IH
    finally show ?case by simp
  qed simp
  show ?thesis unfolding max_priority_def
  proof (induction ds arbitrary: p)
    case (Cons d ds)
    note inner [of p "u_found u (dep_uid d)"]
    also note Cons.IH
    finally show ?case by simp
  qed simp
qed

lemma raised_item:
  assumes wf: "universe_wf u" and it: "it < length (u_store u)" "\<not> priority_skips type (u_pkg u it)"
    and p: "u_priority u it \<le> p" "p \<le> RECURSION_LIMIT"
    and T: "T = PKG_PRIORITY_UPDATE_REQUEST \<or> type = T" "T = PKG_PRIORITY_UPDATE_REQUEST \<or> T = PKG_PRIORITY_UPDATE_DELETE"
    and v: "reorders T (set_priority it p u) v"
      "\<forall>d \<in> set (deps_func type (u_pkg u it)). \<forall>cur \<in> set (u_found u (dep_uid d)). above type p cur v"
  shows "lifts T type p it u v"
proof -
  let ?u = "set_priority it p u"
  note set = set_priority_raises [OF it(1) p]
  have r: "raises ?u v" "raises u v" using v(1) set(1) raises_trans by (auto simp: reorders_def)
  have sub: "subject T ?u k = subject T u k" if "k < length (u_store u)" for k using subject_raises [OF set(1) that] .
  have len: "length (u_store ?u) = length (u_store u)" using raises_length [OF set(1)] .
  have ge: "p \<le> u_priority v it" using raises_priority [OF r(1)] len it(1) set(2) by metis
  have due: "due T v it" if s: "subject T u it"
  proof (cases "u_priority v it = p")
    case False
    then show ?thesis using v(1) set(2) len it(1) s sub unfolding reorders_def by metis
  next
    case True
    have dt: "deps_func type = deps_func T \<and> priority_skips type = priority_skips T"
      using T s it(2) by (cases type) (auto simp: subject_def priority_skips_def deps_func_def fun_eq_iff)
    show ?thesis unfolding due_def
    proof (intro allI impI)
      fix cur assume l: "linked_to T v it cur" and ns: "\<not> priority_skips T (u_pkg v cur)"
      from l obtain d where "d \<in> set (deps_func T (u_pkg u it))" "cur \<in> set (u_found u (dep_uid d))"
        using linked_raises [OF r(2) it(1)] by (auto simp: linked_to_def)
      then have "above T p cur v" using v(2) dt by (auto simp: above_def)
      with ns True show "u_priority v cur > u_priority v it \<or> u_priority v it \<ge> RECURSION_LIMIT"
        by (auto simp: above_def)
    qed
  qed
  have "due T v k" if k: "k < length (u_store u)" "subject T u k" "u_priority v k \<noteq> u_priority u k" for k
  proof (cases "k = it")
    case False
    then have "u_priority v k \<noteq> u_priority ?u k" using set(3) [OF k(1)] k(3) by simp
    then show ?thesis using v(1) k sub len unfolding reorders_def by metis
  qed (use due k in simp)
  then have "reorders T u v" using wf r(2) by (simp add: reorders_def)
  then show ?thesis using ge due by (simp add: lifts_def)
qed

definition head_lifts :: "pkg_priority_update_type \<Rightarrow> pkg_priority_update_type \<Rightarrow> int \<Rightarrow> item_id list \<Rightarrow> pkg_jobs_universe \<Rightarrow> pkg_jobs_universe \<Rightarrow> bool" where
  "head_lifts T type p its u v \<longleftrightarrow> reorders T u v \<and> (case its of [] \<Rightarrow> True | it # _ \<Rightarrow> lifts T type p it u v)"

lemma lifts_idle:
  "universe_wf u \<Longrightarrow> reorders T u v \<Longrightarrow> it < length (u_store u) \<Longrightarrow> priority_skips type (u_pkg u it) \<or> u_priority u it > p \<Longrightarrow>
    lifts T type p it u v"
  using raises_priority [of u v it] by (auto simp: lifts_def reorders_def)

lemma update_chain_ok:
  assumes ok: "priority_ok T n rec" and fuel: "RECURSION_LIMIT + 1 < p + 1 + int n" "0 < n" and p: "p \<le> RECURSION_LIMIT"
    and T: "T = PKG_PRIORITY_UPDATE_REQUEST \<or> type = T" "T = PKG_PRIORITY_UPDATE_REQUEST \<or> T = PKG_PRIORITY_UPDATE_DELETE"
    and "universe_wf u" "\<forall>it \<in> set its. it < length (u_store u)"
  shows "run_returns (head_lifts T type p its u) (update_chain rec p type its u)"
  using assms(7,8)
proof (induction its arbitrary: u)
  case Nil
  then show ?case by (simp add: head_lifts_def reorders_refl)
next
  case (Cons it its)
  note wf = Cons.prems(1)
  have it: "it < length (u_store u)" "\<forall>it \<in> set its. it < length (u_store u)" using Cons.prems(2) by auto
  let ?pkg = "u_pkg u it" and ?u = "set_priority it p u"
  show ?case
  proof (cases "priority_skips type ?pkg \<or> u_priority u it > p")
    case True
    have "run_returns (head_lifts T type p (it # its) u) (update_chain rec p type its u)"
      using Cons.IH [OF wf it(2)]
      by (rule run_returns_mono) (use True wf it lifts_idle in \<open>auto simp: head_lifts_def\<close>)
    with True show ?thesis by (auto simp: Let_def)
  next
    case False
    then have ns: "\<not> priority_skips type ?pkg" and low: "u_priority u it \<le> p" by auto
    note set = set_priority_raises [OF it(1) low p]
    have wfs: "universe_wf ?u" using raises_wf [OF set(1) wf] .
    have "run_returns (\<lambda>v. reorders T ?u v \<and> (\<forall>d \<in> set (deps_func type ?pkg). \<forall>cur \<in> set (u_found ?u (dep_uid d)). above type p cur v))
        (raise_deps rec type p (deps_func type ?pkg) ?u)"
      by (rule raise_deps_ok [OF ok fuel T wfs])
    then have "run_returns (lifts T type p it u) (raise_deps rec type p (deps_func type ?pkg) ?u)"
      by (rule run_returns_mono) (use raised_item [OF wf it(1) ns low p T] set(1) in simp)
    moreover have "run_returns (head_lifts T type p (it # its) u)
        (let maxpri = max_priority v p (rdeps_func type ?pkg)
         in if maxpri \<noteq> p then rec it maxpri type v
            else run_bind (if \<not> is_installed ?pkg then raise_conflicts rec it (pkg_conflicts ?pkg) v else Ret v)
                   (update_chain rec p type its))" if v: "lifts T type p it u v" for v
    proof -
      have r: "reorders T u v" "raises u v" using v by (auto simp: lifts_def reorders_def)
      have wfv: "universe_wf v" and len: "length (u_store v) = length (u_store u)"
        using raises_wf [OF r(2) wf] raises_length [OF r(2)] by simp_all
      have final: "head_lifts T type p (it # its) u w" if "reorders T v w" for w
        using lifts_then [OF v that it(1)] by (simp add: head_lifts_def lifts_def)
      have last: "run_returns (head_lifts T type p (it # its) u) (update_chain rec p type its w)" if "reorders T v w" for w
      proof -
        have "universe_wf w" "length (u_store w) = length (u_store u)"
          using reorders_wf [OF that] raises_length [OF reorders_raises [OF that]] len by simp_all
        then have "run_returns (head_lifts T type p its w) (update_chain rec p type its w)" using Cons.IH it(2) by simp
        then show ?thesis by (rule run_returns_mono) (use final that reorders_trans in \<open>auto simp: head_lifts_def\<close>)
      qed
      show ?thesis
      proof (cases "max_priority v p (rdeps_func type ?pkg) = p")
        case False
        then have "RECURSION_LIMIT + 1 < max_priority v p (rdeps_func type ?pkg) + int n"
          using max_priority_ge [of p v "rdeps_func type ?pkg"] fuel(1) by linarith
        then have "run_returns (lifts T type (max_priority v p (rdeps_func type ?pkg)) it v) (rec it (max_priority v p (rdeps_func type ?pkg)) type v)"
          using ok wfv it(1) len T fuel(2) unfolding priority_ok_def by metis
        then have "run_returns (head_lifts T type p (it # its) u) (rec it (max_priority v p (rdeps_func type ?pkg)) type v)"
          by (rule run_returns_mono) (auto intro: final lifts_reorders)
        with False show ?thesis by (simp add: Let_def)
      next
        case True
        have "run_returns (reorders T v) (if \<not> is_installed ?pkg then raise_conflicts rec it (pkg_conflicts ?pkg) v else Ret v)"
        proof (cases "is_installed ?pkg")
          case False
          then have "T = PKG_PRIORITY_UPDATE_REQUEST" using ns T by (auto simp: priority_skips_def)
          moreover have "p \<le> u_priority v it" using v ns p by (simp add: lifts_def)
          ultimately show ?thesis using raise_conflicts_ok [of n rec p v it "pkg_conflicts ?pkg"] ok fuel wfv it(1) len False by simp
        qed (simp add: reorders_refl wfv)
        then show ?thesis using True last by (auto simp: Let_def intro: run_returns_bind)
      qed
    qed
    ultimately have "run_returns (head_lifts T type p (it # its) u)
      (run_bind (raise_deps rec type p (deps_func type ?pkg) ?u) (\<lambda>v.
         let maxpri = max_priority v p (rdeps_func type ?pkg)
         in if maxpri \<noteq> p then rec it maxpri type v
            else run_bind (if \<not> is_installed ?pkg then raise_conflicts rec it (pkg_conflicts ?pkg) v else Ret v)
                   (update_chain rec p type its)))" by (rule run_returns_bind)
    with False show ?thesis by (simp add: Let_def)
  qed
qed

lemma update_item_ok: "priority_ok T n (pkg_jobs_update_universe_item_priority n)"
proof (induction n)
  case (Suc n)
  show ?case unfolding priority_ok_def
  proof (intro allI impI)
    fix it p type u
    assume wf: "universe_wf u" and it: "it < length (u_store u)" and f: "RECURSION_LIMIT + 1 < p + int (Suc n)"
      and T: "T = PKG_PRIORITY_UPDATE_REQUEST \<or> type = T" "T = PKG_PRIORITY_UPDATE_REQUEST \<or> T = PKG_PRIORITY_UPDATE_DELETE"
    obtain r where r: "u_tail u it = it # r" "\<forall>k \<in> set r. k < length (u_store u)" using u_tail_wf [OF wf it] by blast
    show "run_returns (lifts T type p it u) (pkg_jobs_update_universe_item_priority (Suc n) it p type u)"
    proof (cases "p \<le> RECURSION_LIMIT")
      case True
      have "run_returns (head_lifts T type p (it # r) u) (update_chain (pkg_jobs_update_universe_item_priority n) p type (it # r) u)"
        by (rule update_chain_ok [OF Suc.IH]) (use True f T wf it r in auto)
      then have "run_returns (lifts T type p it u) (update_chain (pkg_jobs_update_universe_item_priority n) p type (it # r) u)"
        by (rule run_returns_mono) (simp add: head_lifts_def)
      with True r show ?thesis by simp
    qed (use wf in \<open>simp add: lifts_def reorders_refl\<close>)
  qed
qed (simp add: priority_ok_def)

definition depends_on :: "pkg_jobs_universe \<Rightarrow> item_id \<Rightarrow> item_id \<Rightarrow> bool" where
  \<comment> \<open>\<open>k\<close> is one of the packages that a dependency of item \<open>i\<close> names\<close>
  "depends_on u i k \<longleftrightarrow> (\<exists>d \<in> set (pkg_deps (u_pkg u i)). k \<in> set (u_found u (dep_uid d)))"

lemma linked_request: "linked_to PKG_PRIORITY_UPDATE_REQUEST u i k = depends_on u i k"
  by (simp add: linked_to_def depends_on_def deps_func_def)

lemma due_request:
  assumes "universe_wf u" "raises u v" "due PKG_PRIORITY_UPDATE_REQUEST v i" "i < length (u_store u)" "depends_on u i k"
  shows "u_priority v k > u_priority v i \<or> u_priority v i \<ge> RECURSION_LIMIT"
proof -
  have "linked_to PKG_PRIORITY_UPDATE_REQUEST v i k"
    using assms linked_raises [OF assms(2,4)] by (simp add: linked_request)
  then show ?thesis using assms(3) by (simp add: due_def priority_skips_def)
qed

text \<open>
  An update of the priorities for a request always ends, with no more nested calls than the recursion limit; it changes
  nothing but priorities, lowers none and raises none above the limit; and every remote item it was called for or
  has raised ends up below the items it depends on, unless the item is at the limit.
\<close>

theorem priority_update_ends:
  assumes "universe_wf u" "it < length (u_store u)" "0 \<le> p" "fuel > 1025"
  shows "\<exists>u'. pkg_jobs_update_universe_item_priority fuel it p PKG_PRIORITY_UPDATE_REQUEST u = Ret u'
    \<and> u' = u\<lparr>u_store := u_store u'\<rparr> \<and> map it_pkg (u_store u') = map it_pkg (u_store u)
    \<and> (\<forall>i < length (u_store u). u_priority u i \<le> u_priority u' i
         \<and> (u_priority u' i = u_priority u i \<or> u_priority u' i \<le> RECURSION_LIMIT))
    \<and> (\<forall>i < length (u_store u). \<not> is_installed (u_pkg u i) \<longrightarrow>
         u_priority u' i \<noteq> u_priority u i \<or> i = it \<and> u_priority u i \<le> p \<and> p \<le> RECURSION_LIMIT \<longrightarrow>
         (\<forall>k. depends_on u i k \<longrightarrow> u_priority u' k > u_priority u' i \<or> u_priority u' i \<ge> RECURSION_LIMIT))"
proof -
  let ?R = PKG_PRIORITY_UPDATE_REQUEST
  have "run_returns (lifts ?R ?R p it u) (pkg_jobs_update_universe_item_priority fuel it p ?R u)"
    using update_item_ok [of ?R fuel] assms unfolding priority_ok_def by (simp add: RECURSION_LIMIT_def)
  then obtain v where v: "pkg_jobs_update_universe_item_priority fuel it p ?R u = Ret v" "lifts ?R ?R p it u v"
    using run_returnsD by blast
  then have r: "raises u v" by (simp add: lifts_def reorders_def)
  have pk: "map it_pkg (u_store v) = map it_pkg (u_store u)"
    using raises_pkg [OF r] raises_length [OF r] by (intro nth_equalityI) (auto simp: u_pkg_def)
  have "due ?R v i" if "i < length (u_store u)" "\<not> is_installed (u_pkg u i)"
    "u_priority v i \<noteq> u_priority u i \<or> i = it \<and> u_priority u i \<le> p \<and> p \<le> RECURSION_LIMIT" for i
    using that v(2) by (auto simp: lifts_def reorders_def subject_def priority_skips_def)
  then have d: "u_priority v k > u_priority v i \<or> u_priority v i \<ge> RECURSION_LIMIT"
    if "i < length (u_store u)" "\<not> is_installed (u_pkg u i)"
    "u_priority v i \<noteq> u_priority u i \<or> i = it \<and> u_priority u i \<le> p \<and> p \<le> RECURSION_LIMIT" "depends_on u i k" for i k
    using that due_request [OF assms(1) r] by blast
  from r have "v = u\<lparr>u_store := u_store v\<rparr>" "\<forall>i < length (u_store u). u_priority u i \<le> u_priority v i
         \<and> (u_priority v i = u_priority u i \<or> u_priority v i \<le> RECURSION_LIMIT)" by (simp_all add: raises_def)
  with v(1) pk d show ?thesis by blast
qed

section \<open>The order of the jobs\<close>

definition pkg_jobs_sort_priority :: "pkg_jobs_universe \<Rightarrow> pkg_solved \<Rightarrow> pkg_solved \<Rightarrow> int" where
  "pkg_jobs_sort_priority u r1 r2 =
     (let p1 = u_priority u (s_item0 r1); p2 = u_priority u (s_item0 r2)
      in if p1 = p2 then
           (if s_type r1 = PKG_SOLVED_DELETE \<and> s_type r2 \<noteq> PKG_SOLVED_DELETE then -1
            else if s_type r2 = PKG_SOLVED_DELETE \<and> s_type r1 \<noteq> PKG_SOLVED_DELETE then 1
            else 0)
         else p2 - p1)"

text \<open>The request is the job at position \<open>k\<close>. \<open>Crash\<close> is an upgrade with no old package or a failed assertion.\<close>

definition split_upgrade :: "nat \<Rightarrow> item_id \<Rightarrow> pkg_jobs \<Rightarrow> pkg_jobs" where
  "split_upgrade k item1 j =
     j\<lparr>j_jobs := (j_jobs j)[k := (j_jobs j ! k)\<lparr>s_already_deleted := True\<rparr>]
        @ [\<lparr>s_item0 = item1, s_item1 = None, s_type = PKG_SOLVED_UPGRADE_REMOVE, s_already_deleted = False\<rparr>],
       j_count := j_count j + 1\<rparr>"

definition with_universe :: "pkg_jobs \<Rightarrow> pkg_jobs_universe run \<Rightarrow> (epkg \<times> pkg_jobs) run" where
  "with_universe j m = run_bind m (\<lambda>u. Ret (EPKG_OK, j\<lparr>j_universe := u\<rparr>))"

definition update_if_zero :: "nat \<Rightarrow> item_id \<Rightarrow> pkg_priority_update_type \<Rightarrow> pkg_jobs_universe \<Rightarrow> pkg_jobs_universe run" where
  "update_if_zero n item0 type u =
     (if u_priority u item0 = 0 then pkg_jobs_update_universe_priority n item0 type u else Ret u)"

definition pkg_jobs_set_request_priority :: "nat \<Rightarrow> nat \<Rightarrow> pkg_jobs \<Rightarrow> (epkg \<times> pkg_jobs) run" where
  "pkg_jobs_set_request_priority n k j =
     (let req = j_jobs j ! k; u = j_universe j; item0 = s_item0 req;
          plain = (\<lambda>type. with_universe j (update_if_zero n item0 type u))
      in case s_type req of
           PKG_SOLVED_UPGRADE \<Rightarrow>
             (case s_item1 req of
                None \<Rightarrow> Crash
              | Some item1 \<Rightarrow>
                  if pkg_conflicts (u_pkg u item1) \<noteq> [] then
                    run_bind (if u_priority u item0 = 0 then pkg_jobs_update_conflict_priority n item0 item1 u else Ret u)
                      (\<lambda>u. let j = j\<lparr>j_universe := u\<rparr>
                           in if u_priority u item1 > u_priority u item0 \<and> \<not> s_already_deleted req
                              then Ret (EPKG_CONFLICT, split_upgrade k item1 j) else Ret (EPKG_OK, j))
                  else plain PKG_PRIORITY_UPDATE_REQUEST)
         | PKG_SOLVED_DELETE \<Rightarrow> plain PKG_PRIORITY_UPDATE_DELETE
         | _ \<Rightarrow> plain PKG_PRIORITY_UPDATE_REQUEST)"

definition reset_priorities :: "pkg_solved list \<Rightarrow> pkg_jobs_universe \<Rightarrow> pkg_jobs_universe" where
  "reset_priorities js u = foldl (\<lambda>u req.
     let u = set_priority (s_item0 req) 0 u
     in case s_item1 req of None \<Rightarrow> u | Some i \<Rightarrow> set_priority i 0 u) u js"

text \<open>The flag tells whether the loop ended without a jump back to the start.\<close>

fun set_requests :: "nat \<Rightarrow> nat list \<Rightarrow> pkg_jobs \<Rightarrow> (bool \<times> pkg_jobs) run" where
  "set_requests n [] j = Ret (True, j)"
| "set_requests n (k # ks) j = run_bind (pkg_jobs_set_request_priority n k j) (\<lambda>(rc, j).
     if rc = EPKG_CONFLICT then Ret (False, j) else set_requests n ks j)"

fun priorities_from :: "nat \<Rightarrow> nat \<Rightarrow> pkg_jobs \<Rightarrow> pkg_jobs run" where
  "priorities_from 0 n j = NoFuel"
| "priorities_from (Suc m) n j =
     run_bind (set_requests n [0..<length (j_jobs j)] (j\<lparr>j_universe := reset_priorities (j_jobs j) (j_universe j)\<rparr>))
       (\<lambda>(done, j). if done then Ret (j\<lparr>j_jobs := ll_sort (pkg_jobs_sort_priority (j_universe j)) (j_jobs j)\<rparr>)
                    else priorities_from m n j)"

definition pkg_jobs_set_priorities :: "nat \<Rightarrow> pkg_jobs \<Rightarrow> pkg_jobs run" where
  "pkg_jobs_set_priorities fuel j = priorities_from fuel fuel j"

subsection \<open>The comparison\<close>

lemma three_way_sort_priority: "three_way_cmp (pkg_jobs_sort_priority u)"
proof -
  let ?p = "\<lambda>r. - u_priority u (s_item0 r)" and ?d = "\<lambda>r. s_type r \<noteq> PKG_SOLVED_DELETE"
  have "three_way_cmp (\<lambda>a b. a - b :: int)" by unfold_locales auto
  from three_way_then [OF three_way_key [OF this, of ?p] three_way_key [OF three_way_ord_cmp, of ?d]]
  have "three_way_cmp (\<lambda>a b. then_cmp (?p a - ?p b) (ord_cmp (?d a) (?d b)))" .
  moreover have "pkg_jobs_sort_priority u = (\<lambda>a b. then_cmp (?p a - ?p b) (ord_cmp (?d a) (?d b)))"
    by (intro ext) (simp add: pkg_jobs_sort_priority_def Let_def then_cmp_def ord_cmp_def)
  ultimately show ?thesis by simp
qed

lemma sort_priority_le: "pkg_jobs_sort_priority u a b \<le> 0 \<Longrightarrow> u_priority u (s_item0 b) \<le> u_priority u (s_item0 a)"
  by (auto simp: pkg_jobs_sort_priority_def Let_def split: if_splits)

subsection \<open>The loop over the requests\<close>

text \<open>What the solver hands over: allocated items, and the remote package behind every conflict of an upgrade.\<close>

definition conflict_known :: "pkg_jobs_universe \<Rightarrow> pkg_conflict \<Rightarrow> bool" where
  "conflict_known u c \<longleftrightarrow> (\<exists>rit \<in> set (u_found u (conf_uniqueid c)). \<not> is_installed (u_pkg u rit))"

definition solved_ready :: "pkg_jobs_universe \<Rightarrow> pkg_solved \<Rightarrow> bool" where
  "solved_ready u s \<longleftrightarrow> s_item0 s < length (u_store u)
     \<and> (case s_item1 s of None \<Rightarrow> s_type s \<noteq> PKG_SOLVED_UPGRADE
         | Some i \<Rightarrow> i < length (u_store u)
             \<and> (s_type s = PKG_SOLVED_UPGRADE \<longrightarrow> (\<forall>c \<in> set (pkg_conflicts (u_pkg u i)). conflict_known u c)))"

definition jobs_ready :: "pkg_jobs \<Rightarrow> bool" where
  "jobs_ready j \<longleftrightarrow> universe_wf (j_universe j)
     \<and> (\<forall>i < length (u_store (j_universe j)). 0 \<le> u_priority (j_universe j) i)
     \<and> (\<forall>s \<in> set (j_jobs j). solved_ready (j_universe j) s)"

definition unsplit :: "pkg_jobs \<Rightarrow> nat" where
  "unsplit j = length (filter (\<lambda>s. s_type s = PKG_SOLVED_UPGRADE \<and> \<not> s_already_deleted s) (j_jobs j))"

definition plain_request :: "pkg_jobs_universe \<Rightarrow> pkg_solved \<Rightarrow> bool" where
  \<comment> \<open>a job that installs a remote package and is not an upgrade with conflicts\<close>
  "plain_request u s \<longleftrightarrow> \<not> is_installed (u_pkg u (s_item0 s)) \<and> s_type s \<noteq> PKG_SOLVED_DELETE
     \<and> (s_type s = PKG_SOLVED_UPGRADE \<longrightarrow> (\<forall>i. s_item1 s = Some i \<longrightarrow> pkg_conflicts (u_pkg u i) = []))"

abbreviation "REQ \<equiv> PKG_PRIORITY_UPDATE_REQUEST"

definition nonneg :: "pkg_jobs_universe \<Rightarrow> bool" where
  "nonneg u \<longleftrightarrow> (\<forall>i < length (u_store u). 0 \<le> u_priority u i)"

lemma nonneg_raises: "raises u v \<Longrightarrow> nonneg u \<Longrightarrow> nonneg v"
  using raises_length [of u v] by (auto simp: nonneg_def intro: order_trans [OF _ raises_priority])

lemma conflict_known_raises: "universe_wf u \<Longrightarrow> raises u v \<Longrightarrow> conflict_known v c = conflict_known u c"
proof -
  assume w: "universe_wf u" and r: "raises u v"
  have "is_installed (u_pkg v i) = is_installed (u_pkg u i)" if "i \<in> set (u_found u (conf_uniqueid c))" for i
    using raises_pkg [OF r u_found_wf [OF w that]] by simp
  with r show ?thesis by (simp add: conflict_known_def)
qed

lemma solved_ready_raises: "universe_wf u \<Longrightarrow> raises u v \<Longrightarrow> solved_ready v s = solved_ready u s"
proof (cases "s_item1 s")
  case (Some i)
  assume "universe_wf u" "raises u v"
  then show ?thesis using Some raises_pkg [of u v i] raises_length [of u v] conflict_known_raises [of u v]
    by (cases "i < length (u_store u)") (simp_all add: solved_ready_def)
qed (simp add: solved_ready_def raises_length [of u v])

lemma jobs_ready_alt: "jobs_ready j \<longleftrightarrow> universe_wf (j_universe j) \<and> nonneg (j_universe j)
    \<and> (\<forall>s \<in> set (j_jobs j). solved_ready (j_universe j) s)"
  by (simp add: jobs_ready_def nonneg_def)

lemma jobs_ready_raises: "jobs_ready j \<Longrightarrow> raises (j_universe j) u \<Longrightarrow> jobs_ready (j\<lparr>j_universe := u\<rparr>)"
  using raises_wf [of "j_universe j" u] nonneg_raises [of "j_universe j" u] solved_ready_raises [of "j_universe j" u]
  by (simp add: jobs_ready_alt)

lemma update_call:
  assumes "universe_wf u" "it < length (u_store u)" "0 \<le> p" "1025 < n"
  shows "run_returns (lifts REQ type p it u) (pkg_jobs_update_universe_item_priority n it p type u)"
  using update_item_ok [of REQ n] assms unfolding priority_ok_def by (simp add: RECURSION_LIMIT_def)

lemma conflict_priority_ok:
  assumes "universe_wf u" "nonneg u" "item0 < length (u_store u)" "item1 < length (u_store u)" "conflict_known u c" "1025 < n"
  shows "run_returns (reorders REQ u) (conflict_priority n item0 item1 c u)"
proof -
  obtain found where found: "hash_find (conf_uniqueid c) (u_items u) = Some found" "\<exists>r \<in> set found. \<not> is_installed (u_pkg u r)"
    using assms(5) that by (cases "hash_find (conf_uniqueid c) (u_items u)") (auto simp: conflict_known_def u_found_def)
  obtain rit where rit: "find (\<lambda>cur. \<not> is_installed (u_pkg u cur)) found = Some rit"
    using found(2) by (cases "find (\<lambda>cur. \<not> is_installed (u_pkg u cur)) found") (auto simp: find_None_iff)
  have "rit \<in> set found" using rit by (auto simp: find_Some_iff)
  then have "rit < length (u_store u)" using found(1) assms(1) u_found_wf [of u rit "conf_uniqueid c"] by (simp add: u_found_def)
  then have "0 \<le> u_priority u rit + 1" using assms(2) by (force simp: nonneg_def)
  note first = update_call [OF assms(1,4) this assms(6), of PKG_PRIORITY_UPDATE_CONFLICT]
  have "run_returns (reorders REQ u) (run_bind (pkg_jobs_update_universe_item_priority n item1 (u_priority u rit + 1)
      PKG_PRIORITY_UPDATE_CONFLICT u) (\<lambda>u. pkg_jobs_update_universe_item_priority n item0 (u_priority u item0) REQ u))"
    using first
  proof (rule run_returns_bind)
    fix v assume "lifts REQ PKG_PRIORITY_UPDATE_CONFLICT (u_priority u rit + 1) item1 u v"
    then have v: "reorders REQ u v" "raises u v" by (auto simp: lifts_def reorders_def)
    have w: "universe_wf v" "item0 < length (u_store v)" using v raises_wf raises_length assms(1,3) by auto
    then have "0 \<le> u_priority v item0" using nonneg_raises [OF v(2) assms(2)] by (simp add: nonneg_def)
    from update_call [OF w this assms(6), of REQ]
    show "run_returns (reorders REQ u) (pkg_jobs_update_universe_item_priority n item0 (u_priority v item0) REQ v)"
      by (rule run_returns_mono) (use v(1) reorders_trans in \<open>auto simp: lifts_def\<close>)
  qed
  then show ?thesis using found(1) rit assms(1) by (simp add: conflict_priority_def reorders_refl)
qed

lemma update_conflict_priority_ok:
  assumes "universe_wf u" "nonneg u" "item0 < length (u_store u)" "item1 < length (u_store u)"
    "\<forall>c \<in> set (pkg_conflicts (u_pkg u item1)). conflict_known u c" "1025 < n"
  shows "run_returns (reorders REQ u) (pkg_jobs_update_conflict_priority n item0 item1 u)"
proof -
  have "run_returns (\<lambda>v. reorders REQ u v \<and> (\<forall>c \<in> set (pkg_conflicts (u_pkg u item1)). True))
      (run_fold (conflict_priority n item0 item1) (pkg_conflicts (u_pkg u item1)) u)"
  proof (rule reorders_fold [where ?u0.0 = u])
    fix c v assume c: "c \<in> set (pkg_conflicts (u_pkg u item1))" and v: "frame u v"
    have "raises u v" using v by (simp add: frame_def)
    then have "run_returns (reorders REQ v) (conflict_priority n item0 item1 c v)"
      using assms c conflict_priority_ok nonneg_raises raises_wf raises_length conflict_known_raises by metis
    then show "run_returns (\<lambda>w. reorders REQ v w \<and> True) (conflict_priority n item0 item1 c v)" by simp
  qed (use assms(1) in \<open>simp_all add: frame_def\<close>)
  then show ?thesis unfolding pkg_jobs_update_conflict_priority_def by (rule run_returns_mono) simp
qed

text \<open>One request: either the priorities are set, or the request is split.\<close>

definition settled :: "pkg_jobs_universe \<Rightarrow> item_id \<Rightarrow> bool" where
  "settled u i \<longleftrightarrow> due REQ u i \<or> u_priority u i > 0"

definition request_post :: "nat \<Rightarrow> pkg_jobs \<Rightarrow> epkg \<times> pkg_jobs \<Rightarrow> bool" where
  "request_post k j r \<longleftrightarrow> (case r of (rc, j') \<Rightarrow> reorders REQ (j_universe j) (j_universe j')
     \<and> (if rc = EPKG_CONFLICT then
          (\<exists>i. s_type (j_jobs j ! k) = PKG_SOLVED_UPGRADE \<and> \<not> s_already_deleted (j_jobs j ! k)
             \<and> s_item1 (j_jobs j ! k) = Some i \<and> j' = split_upgrade k i (j\<lparr>j_universe := j_universe j'\<rparr>))
        else j' = j\<lparr>j_universe := j_universe j'\<rparr>
          \<and> (plain_request (j_universe j) (j_jobs j ! k) \<longrightarrow> settled (j_universe j') (s_item0 (j_jobs j ! k)))))"

lemma update_if_zero_ok:
  assumes "universe_wf u" "nonneg u" "i < length (u_store u)" "1025 < n"
  shows "run_returns (\<lambda>v. reorders REQ u v \<and> (type = REQ \<longrightarrow> \<not> is_installed (u_pkg u i) \<longrightarrow> settled v i)) (update_if_zero n i type u)"
proof (cases "u_priority u i = 0")
  case True
  have "run_returns (lifts REQ type 0 i u) (pkg_jobs_update_universe_item_priority n i 0 type u)"
    using update_call assms by simp
  then have "run_returns (\<lambda>v. reorders REQ u v \<and> (type = REQ \<longrightarrow> \<not> is_installed (u_pkg u i) \<longrightarrow> settled v i))
      (pkg_jobs_update_universe_item_priority n i 0 type u)"
    by (rule run_returns_mono) (use True in \<open>auto simp: lifts_def settled_def subject_def priority_skips_def RECURSION_LIMIT_def\<close>)
  with True show ?thesis by (simp add: update_if_zero_def pkg_jobs_update_universe_priority_def)
next
  case False
  then have "0 < u_priority u i" using assms(2,3) by (force simp: nonneg_def)
  then show ?thesis using assms(1) by (simp add: update_if_zero_def reorders_refl settled_def)
qed

lemma plain_ok:
  assumes "universe_wf (j_universe j)" "nonneg (j_universe j)" "s_item0 (j_jobs j ! k) < length (u_store (j_universe j))" "1025 < n"
    and "type \<noteq> REQ \<Longrightarrow> s_type (j_jobs j ! k) = PKG_SOLVED_DELETE"
  shows "run_returns (request_post k j) (with_universe j (update_if_zero n (s_item0 (j_jobs j ! k)) type (j_universe j)))"
  unfolding with_universe_def
  using update_if_zero_ok [OF assms(1-4), of type]
  by (rule run_returns_bind) (use assms(5) in \<open>auto simp: request_post_def plain_request_def\<close>)

lemma set_request_ok:
  assumes ready: "jobs_ready j" and k: "k < length (j_jobs j)" and n: "1025 < n"
  shows "run_returns (request_post k j) (pkg_jobs_set_request_priority n k j)"
proof -
  let ?req = "j_jobs j ! k" and ?u = "j_universe j"
  have wf: "universe_wf ?u" "nonneg ?u" and sr: "solved_ready ?u ?req" using ready k by (simp_all add: jobs_ready_alt)
  have i0: "s_item0 ?req < length (u_store ?u)" using sr by (simp add: solved_ready_def)
  note plain = plain_ok [OF wf i0 n]
  show ?thesis
  proof (cases "s_type ?req = PKG_SOLVED_UPGRADE")
    case False
    then show ?thesis using plain [of REQ] plain [of PKG_PRIORITY_UPDATE_DELETE]
      by (cases "s_type ?req") (simp_all add: pkg_jobs_set_request_priority_def Let_def)
  next
    case up: True
    then obtain i where i: "s_item1 ?req = Some i" "i < length (u_store ?u)"
      "\<forall>c \<in> set (pkg_conflicts (u_pkg ?u i)). conflict_known ?u c"
      using sr by (auto simp: solved_ready_def split: option.splits)
    show ?thesis
    proof (cases "pkg_conflicts (u_pkg ?u i) = []")
      case True
      then show ?thesis using plain [of REQ] up i(1) by (simp add: pkg_jobs_set_request_priority_def Let_def)
    next
      case False
      have "run_returns (reorders REQ ?u)
          (if u_priority ?u (s_item0 ?req) = 0 then pkg_jobs_update_conflict_priority n (s_item0 ?req) i ?u else Ret ?u)"
        using update_conflict_priority_ok [OF wf i0 i(2,3) n] wf(1) by (simp add: reorders_refl)
      then have "run_returns (request_post k j) (run_bind
          (if u_priority ?u (s_item0 ?req) = 0 then pkg_jobs_update_conflict_priority n (s_item0 ?req) i ?u else Ret ?u)
          (\<lambda>u. let j = j\<lparr>j_universe := u\<rparr> in
             if u_priority u i > u_priority u (s_item0 ?req) \<and> \<not> s_already_deleted ?req
             then Ret (EPKG_CONFLICT, split_upgrade k i j) else Ret (EPKG_OK, j)))"
        by (rule run_returns_bind)
          (use up i(1) False in \<open>auto simp: Let_def request_post_def split_upgrade_def plain_request_def\<close>)
      with up i(1) False show ?thesis by (simp add: pkg_jobs_set_request_priority_def Let_def)
    qed
  qed
qed

subsection \<open>The loop around\<close>

definition work :: "pkg_jobs \<Rightarrow> pkg_solved multiset" where
  \<comment> \<open>the jobs, without the removals that were split off\<close>
  "work j = mset (map (\<lambda>s. s\<lparr>s_already_deleted := False\<rparr>) (filter (\<lambda>s. s_type s \<noteq> PKG_SOLVED_UPGRADE_REMOVE) (j_jobs j)))"

definition same_work :: "pkg_jobs \<Rightarrow> pkg_jobs \<Rightarrow> bool" where
  "same_work j j' \<longleftrightarrow> work j' = work j
     \<and> j_count j' - j_count j = int (length (j_jobs j')) - int (length (j_jobs j))
     \<and> j' = j\<lparr>j_universe := j_universe j', j_jobs := j_jobs j', j_count := j_count j'\<rparr>
     \<and> u_items (j_universe j') = u_items (j_universe j)
     \<and> map it_pkg (u_store (j_universe j')) = map it_pkg (u_store (j_universe j))"

lemma same_work_trans: "same_work i j \<Longrightarrow> same_work j k \<Longrightarrow> same_work i k"
proof -
  assume a: "same_work i j" "same_work j k"
  obtain u l c where "j = i\<lparr>j_universe := u, j_jobs := l, j_count := c\<rparr>" using a(1) unfolding same_work_def by blast
  moreover obtain v m d where "k = j\<lparr>j_universe := v, j_jobs := m, j_count := d\<rparr>" using a(2) unfolding same_work_def by blast
  ultimately have "k = i\<lparr>j_universe := j_universe k, j_jobs := j_jobs k, j_count := j_count k\<rparr>" by simp
  with a show ?thesis by (simp add: same_work_def)
qed

lemma raises_pkgs: "raises u v \<Longrightarrow> map it_pkg (u_store v) = map it_pkg (u_store u)"
proof -
  assume r: "raises u v"
  then show ?thesis using raises_pkg [OF r] raises_length [OF r]
    by (intro nth_equalityI) (auto simp: u_pkg_def)
qed

lemma same_work_raises: "raises (j_universe j) u \<Longrightarrow> same_work j (j\<lparr>j_universe := u\<rparr>)"
  by (simp add: same_work_def work_def raises_items raises_pkgs)

lemma mset_update_map:
  "k < length xs \<Longrightarrow> f y = f (xs ! k) \<Longrightarrow> P y = P (xs ! k) \<Longrightarrow>
     mset (map f (filter P (xs[k := y]))) = mset (map f (filter P xs))"
  by (induction xs arbitrary: k) (auto split: nat.splits)

lemma length_filter_update:
  "k < length xs \<Longrightarrow> P (xs ! k) \<Longrightarrow> \<not> P y \<Longrightarrow> length (filter P xs) = Suc (length (filter P (xs[k := y])))"
  by (induction xs arbitrary: k) (auto split: nat.splits)

lemma split_ok:
  assumes ready: "jobs_ready j" and k: "k < length (j_jobs j)" "s_type (j_jobs j ! k) = PKG_SOLVED_UPGRADE"
    "\<not> s_already_deleted (j_jobs j ! k)" "s_item1 (j_jobs j ! k) = Some i"
  shows "jobs_ready (split_upgrade k i j)" "unsplit (split_upgrade k i j) < unsplit j" "same_work j (split_upgrade k i j)"
proof -
  let ?js = "j_jobs j" and ?req = "j_jobs j ! k"
  have sr: "solved_ready (j_universe j) ?req" using ready k(1) by (simp add: jobs_ready_alt)
  have "solved_ready (j_universe j) (?req\<lparr>s_already_deleted := True\<rparr>)" using sr k(4) by (simp add: solved_ready_def)
  moreover have "solved_ready (j_universe j) \<lparr>s_item0 = i, s_item1 = None, s_type = PKG_SOLVED_UPGRADE_REMOVE, s_already_deleted = False\<rparr>"
    using sr k(4) by (simp add: solved_ready_def)
  ultimately show "jobs_ready (split_upgrade k i j)"
    using ready set_update_subset_insert [of ?js k "?req\<lparr>s_already_deleted := True\<rparr>"]
    by (auto simp: jobs_ready_alt split_upgrade_def)
  show "unsplit (split_upgrade k i j) < unsplit j"
    using length_filter_update [of k ?js "\<lambda>s. s_type s = PKG_SOLVED_UPGRADE \<and> \<not> s_already_deleted s" "?req\<lparr>s_already_deleted := True\<rparr>"] k
    by (simp add: unsplit_def split_upgrade_def)
  show "same_work j (split_upgrade k i j)"
    using mset_update_map [of k ?js "\<lambda>s. s\<lparr>s_already_deleted := False\<rparr>" "?req\<lparr>s_already_deleted := True\<rparr>"
      "\<lambda>s. s_type s \<noteq> PKG_SOLVED_UPGRADE_REMOVE"] k
    by (simp add: same_work_def work_def split_upgrade_def)
qed

definition requests_post :: "pkg_jobs \<Rightarrow> nat list \<Rightarrow> bool \<times> pkg_jobs \<Rightarrow> bool" where
  "requests_post j ks r \<longleftrightarrow> (case r of (done, j') \<Rightarrow> jobs_ready j' \<and> same_work j j'
     \<and> (if done then reorders REQ (j_universe j) (j_universe j') \<and> j_jobs j' = j_jobs j
          \<and> (\<forall>k \<in> set ks. plain_request (j_universe j) (j_jobs j ! k) \<longrightarrow> settled (j_universe j') (s_item0 (j_jobs j ! k)))
        else unsplit j' < unsplit j))"

lemma settled_later:
  assumes "reorders REQ u v" "i < length (u_store u)" "\<not> is_installed (u_pkg u i)" "settled u i"
  shows "settled v i"
  using assms reorders_due [of REQ u v i] raises_priority [of u v i]
  by (auto simp: settled_def reorders_def subject_def)

lemma set_requests_ok:
  assumes "1025 < n" "jobs_ready j" "set ks \<subseteq> {..<length (j_jobs j)}"
  shows "run_returns (requests_post j ks) (set_requests n ks j)"
  using assms(2,3)
proof (induction ks arbitrary: j)
  case Nil
  then show ?case using same_work_raises [of j "j_universe j"]
    by (simp add: requests_post_def reorders_refl jobs_ready_def)
next
  case (Cons k ks)
  let ?u = "j_universe j" and ?req = "j_jobs j ! k"
  have k: "k < length (j_jobs j)" "set ks \<subseteq> {..<length (j_jobs j)}" using Cons.prems(2) by auto
  have "run_returns (requests_post j (k # ks)) (if rc = EPKG_CONFLICT then Ret (False, j') else set_requests n ks j')"
    if post: "request_post k j (rc, j')" for rc j'
  proof -
    have r: "reorders REQ ?u (j_universe j')" "raises ?u (j_universe j')" using post by (auto simp: request_post_def reorders_def)
    have mid: "jobs_ready (j\<lparr>j_universe := j_universe j'\<rparr>)" "same_work j (j\<lparr>j_universe := j_universe j'\<rparr>)"
      using jobs_ready_raises [OF Cons.prems(1) r(2)] same_work_raises [OF r(2)] by simp_all
    show ?thesis
    proof (cases "rc = EPKG_CONFLICT")
      case True
      then obtain i where i: "s_type ?req = PKG_SOLVED_UPGRADE" "\<not> s_already_deleted ?req" "s_item1 ?req = Some i"
        "j' = split_upgrade k i (j\<lparr>j_universe := j_universe j'\<rparr>)" using post by (auto simp: request_post_def)
      have "jobs_ready j'" "unsplit j' < unsplit (j\<lparr>j_universe := j_universe j'\<rparr>)" "same_work (j\<lparr>j_universe := j_universe j'\<rparr>) j'"
        using split_ok [OF mid(1), of k i] i k(1) by simp_all
      then show ?thesis using True same_work_trans [OF mid(2)] by (simp add: requests_post_def unsplit_def)
    next
      case False
      then have j': "j' = j\<lparr>j_universe := j_universe j'\<rparr>"
        and s: "plain_request ?u ?req \<longrightarrow> settled (j_universe j') (s_item0 ?req)" using post by (auto simp: request_post_def)
      have js: "j_jobs j' = j_jobs j" using arg_cong [OF j', of j_jobs] by simp
      have ready': "jobs_ready j'" and same: "same_work j j'" using mid j' by simp_all
      have plain: "plain_request (j_universe j') s = plain_request ?u s" if "solved_ready ?u s" for s
        using that raises_pkg [OF r(2)] by (auto simp: plain_request_def solved_ready_def split: option.splits)
      have "run_returns (requests_post j' ks) (set_requests n ks j')" using Cons.IH [OF ready'] k(2) js by simp
      then have "run_returns (requests_post j (k # ks)) (set_requests n ks j')"
      proof (rule run_returns_mono)
        fix q assume q: "requests_post j' ks q"
        obtain done' j'' where qq: "q = (done', j'')" by fastforce
        have i0: "s_item0 ?req < length (u_store ?u)" using Cons.prems(1) k(1) by (auto simp: jobs_ready_alt solved_ready_def)
        have now: "settled (j_universe j'') (s_item0 ?req)" if "plain_request ?u ?req" done'
          using that s q qq settled_later [of "j_universe j'" "j_universe j''" "s_item0 ?req"] i0 raises_length [OF r(2)] raises_pkg [OF r(2) i0]
          by (simp add: requests_post_def plain_request_def)
        have "unsplit j' = unsplit j" using js by (simp add: unsplit_def)
        moreover have "plain_request (j_universe j') (j_jobs j ! m) = plain_request ?u (j_jobs j ! m)" if "m \<in> set ks" for m
          using plain that k(2) Cons.prems(1) by (auto simp: jobs_ready_alt)
        ultimately show "requests_post j (k # ks) q"
          using q qq now js same_work_trans [OF same] reorders_trans [OF r(1)] by (auto simp: requests_post_def)
      qed
      with False show ?thesis by simp
    qed
  qed
  then show ?case using set_request_ok [OF Cons.prems(1) k(1) assms(1)] by (auto intro!: run_returns_bind)
qed

text \<open>The reset of the priorities of the jobs.\<close>

definition same_but_priorities :: "pkg_jobs_universe \<Rightarrow> pkg_jobs_universe \<Rightarrow> bool" where
  "same_but_priorities u v \<longleftrightarrow> (\<exists>s. v = u\<lparr>u_store := s\<rparr> \<and> map it_pkg s = map it_pkg (u_store u))"

lemma same_but_refl: "same_but_priorities u u"
  unfolding same_but_priorities_def by (rule exI [of _ "u_store u"]) simp

lemma same_but_trans: "same_but_priorities u v \<Longrightarrow> same_but_priorities v w \<Longrightarrow> same_but_priorities u w"
  by (auto simp: same_but_priorities_def)

lemma same_but_set: "same_but_priorities u (set_priority i p u)"
proof -
  have "it_pkg ((u_store u)[i := (u_store u ! i)\<lparr>it_priority := p\<rparr>] ! k) = it_pkg (u_store u ! k)"
    if "k < length (u_store u)" for k using that by (cases "k = i") simp_all
  then have "map it_pkg ((u_store u)[i := (u_store u ! i)\<lparr>it_priority := p\<rparr>]) = map it_pkg (u_store u)"
    by (intro nth_equalityI) simp_all
  then show ?thesis by (auto simp: same_but_priorities_def set_priority_def u_upd_item_def)
qed

lemma same_but_facts:
  assumes "same_but_priorities u v"
  shows "length (u_store v) = length (u_store u)" "u_items v = u_items u" "universe_wf v = universe_wf u"
    "map it_pkg (u_store v) = map it_pkg (u_store u)" "i < length (u_store u) \<Longrightarrow> u_pkg v i = u_pkg u i"
proof -
  obtain s where s: "v = u\<lparr>u_store := s\<rparr>" "map it_pkg s = map it_pkg (u_store u)" using assms by (auto simp: same_but_priorities_def)
  have l: "length s = length (u_store u)" using s(2) by (metis length_map)
  show "length (u_store v) = length (u_store u)" "u_items v = u_items u" "map it_pkg (u_store v) = map it_pkg (u_store u)"
    using s l by simp_all
  show "universe_wf v = universe_wf u" using s(1) l by (simp add: universe_wf_def)
  show "i < length (u_store u) \<Longrightarrow> u_pkg v i = u_pkg u i"
    using arg_cong [OF s(2), of "\<lambda>l. l ! i"] s(1) l by (simp add: u_pkg_def)
qed

lemma u_priority_set:
  "i < length (u_store u) \<Longrightarrow> u_priority (set_priority k p u) i = (if i = k then p else u_priority u i)"
  by (simp add: u_priority_def set_priority_def u_upd_item_def nth_list_update)

lemma nonneg_set: "nonneg u \<Longrightarrow> nonneg (set_priority k 0 u)"
  using same_but_facts(1) [OF same_but_set [of u k 0]] by (auto simp: nonneg_def u_priority_set)

lemma reset_ok:
  assumes "nonneg u"
  shows "same_but_priorities u (reset_priorities js u)" "nonneg (reset_priorities js u)"
    "\<forall>s \<in> set js. s_item0 s < length (u_store u) \<longrightarrow> u_priority (reset_priorities js u) (s_item0 s) = 0"
proof -
  define step where "step u req = (let u = set_priority (s_item0 req) 0 u
     in case s_item1 req of None \<Rightarrow> u | Some i \<Rightarrow> set_priority i 0 u)" for u and req :: pkg_solved
  have one: "same_but_priorities u (step u r)" "nonneg u \<Longrightarrow> nonneg (step u r)"
    "i < length (u_store u) \<Longrightarrow> i = s_item0 r \<or> u_priority u i = 0 \<Longrightarrow> u_priority (step u r) i = 0" for u r i
    using same_but_set [of u "s_item0 r" 0] same_but_set [of "set_priority (s_item0 r) 0 u"] same_but_trans
      same_but_facts(1) [OF same_but_set [of u "s_item0 r" 0]]
    by (auto simp: step_def Let_def nonneg_set u_priority_set split: option.splits)
  have "same_but_priorities u (foldl step u js) \<and> nonneg (foldl step u js)
      \<and> (\<forall>i < length (u_store u). i \<in> s_item0 ` set js \<or> u_priority u i = 0 \<longrightarrow> u_priority (foldl step u js) i = 0)"
    using assms
  proof (induction js arbitrary: u)
    case (Cons r js)
    note ih = Cons.IH [OF one(2) [OF Cons.prems, of r]]
    show ?case using ih one(1) [of u r] one(3) [of _ u r] same_but_trans [OF one(1) [of u r]] same_but_facts(1) [OF one(1) [of u r]] by auto
  qed (simp add: same_but_refl)
  moreover have "reset_priorities js u = foldl step u js" by (simp add: reset_priorities_def step_def [abs_def])
  ultimately show "same_but_priorities u (reset_priorities js u)" "nonneg (reset_priorities js u)"
    "\<forall>s \<in> set js. s_item0 s < length (u_store u) \<longrightarrow> u_priority (reset_priorities js u) (s_item0 s) = 0" by auto
qed

definition order_post :: "pkg_jobs \<Rightarrow> pkg_jobs \<Rightarrow> bool" where
  "order_post j j' \<longleftrightarrow> jobs_ready j' \<and> same_work j j'
     \<and> three_way_cmp.ordered (pkg_jobs_sort_priority (j_universe j')) (j_jobs j')
     \<and> (\<forall>s \<in> set (j_jobs j'). plain_request (j_universe j') s \<or> \<not> is_installed (u_pkg (j_universe j') (s_item0 s))
          \<and> u_priority (j_universe j') (s_item0 s) > 0 \<longrightarrow> due REQ (j_universe j') (s_item0 s))"

lemma jobs_ready_same_but:
  assumes "jobs_ready j" "same_but_priorities (j_universe j) u" "nonneg u"
  shows "jobs_ready (j\<lparr>j_universe := u\<rparr>)"
proof -
  note f = same_but_facts [OF assms(2)]
  have "conflict_known u c = conflict_known (j_universe j) c" for c
    using f(2,5) u_found_wf [of "j_universe j"] assms(1) by (auto simp: conflict_known_def u_found_def jobs_ready_def)
  then have "solved_ready u s = solved_ready (j_universe j) s" for s
    using f(1,5) by (auto simp: solved_ready_def split: option.splits)
  then show ?thesis using assms(1,3) f(3) by (simp add: jobs_ready_alt)
qed

lemma sorted_post:
  assumes u: "jobs_ready j" and zero: "\<forall>s \<in> set (j_jobs j). u_priority (j_universe j) (s_item0 s) = 0"
    and post: "requests_post j [0..<length (j_jobs j)] (True, j')"
  shows "order_post j (j'\<lparr>j_jobs := ll_sort (pkg_jobs_sort_priority (j_universe j')) (j_jobs j')\<rparr>)"
proof -
  let ?u = "j_universe j" and ?v = "j_universe j'"
  have r: "reorders REQ ?u ?v" "raises ?u ?v" and js: "j_jobs j' = j_jobs j" and ready: "jobs_ready j'" and same: "same_work j j'"
    and s: "\<And>k. k < length (j_jobs j) \<Longrightarrow> plain_request ?u (j_jobs j ! k) \<Longrightarrow> settled ?v (s_item0 (j_jobs j ! k))"
    using post by (auto simp: requests_post_def reorders_def)
  have due: "due REQ ?v (s_item0 s)" if "s \<in> set (j_jobs j)"
    "plain_request ?v s \<or> \<not> is_installed (u_pkg ?v (s_item0 s)) \<and> u_priority ?v (s_item0 s) > 0" for s
  proof -
    have sr: "solved_ready ?u s" using u that(1) by (simp add: jobs_ready_alt)
    have i0: "s_item0 s < length (u_store ?u)" using sr by (simp add: solved_ready_def)
    have inst: "\<not> is_installed (u_pkg ?u (s_item0 s))" using that(2) raises_pkg [OF r(2) i0] by (auto simp: plain_request_def)
    have "plain_request ?u s = plain_request ?v s"
      using sr raises_pkg [OF r(2)] by (auto simp: plain_request_def solved_ready_def split: option.splits)
    then have "settled ?v (s_item0 s)" using that s by (auto simp: in_set_conv_nth settled_def)
    moreover have "due REQ ?v (s_item0 s)" if "u_priority ?v (s_item0 s) > 0"
      using r(1) i0 inst that zero \<open>s \<in> set (j_jobs j)\<close> by (auto simp: reorders_def subject_def)
    ultimately show ?thesis by (auto simp: settled_def)
  qed
  have "mset (map f (filter P (ll_sort c xs))) = mset (map f (filter P xs))" for f P c and xs :: "pkg_solved list"
    by (metis mset_filter mset_map mset_ll_sort)
  then have "same_work j' (j'\<lparr>j_jobs := ll_sort (pkg_jobs_sort_priority ?v) (j_jobs j')\<rparr>)"
    by (simp add: same_work_def work_def)
  then show ?thesis using due ready js same_work_trans [OF same] three_way_cmp.ordered_sort [OF three_way_sort_priority]
    by (simp add: order_post_def jobs_ready_alt)
qed

lemma order_post_later: "same_work i j \<Longrightarrow> order_post j k \<Longrightarrow> order_post i k"
  using same_work_trans by (auto simp: order_post_def)

lemma priorities_from_ok:
  assumes "1025 < n"
  shows "jobs_ready j \<Longrightarrow> unsplit j < m \<Longrightarrow> run_returns (order_post j) (priorities_from m n j)"
proof (induction m arbitrary: j)
  case (Suc m)
  let ?j = "j\<lparr>j_universe := reset_priorities (j_jobs j) (j_universe j)\<rparr>"
  have nn: "nonneg (j_universe j)" using Suc.prems(1) by (simp add: jobs_ready_alt)
  note reset = reset_ok [OF nn, of "j_jobs j"] and f = same_but_facts [OF reset_ok(1) [OF nn, of "j_jobs j"]]
  have ready: "jobs_ready ?j" by (rule jobs_ready_same_but [OF Suc.prems(1) reset(1,2)])
  have same: "same_work j ?j" using f(2,4) by (simp add: same_work_def work_def)
  have zero: "\<forall>s \<in> set (j_jobs ?j). u_priority (j_universe ?j) (s_item0 s) = 0"
    using reset(3) Suc.prems(1) by (simp add: jobs_ready_def solved_ready_def)
  have "run_returns (requests_post ?j [0..<length (j_jobs ?j)]) (set_requests n [0..<length (j_jobs ?j)] ?j)"
    by (rule set_requests_ok [OF assms ready]) auto
  moreover have "run_returns (order_post j) (if done then Ret (j'\<lparr>j_jobs := ll_sort (pkg_jobs_sort_priority (j_universe j')) (j_jobs j')\<rparr>)
       else priorities_from m n j')" if post: "requests_post ?j [0..<length (j_jobs ?j)] (done, j')" for "done" j'
  proof (cases "done")
    case True
    then show ?thesis using sorted_post [OF ready zero] post order_post_later [OF same] by simp
  next
    case False
    then have "jobs_ready j'" "same_work j j'" "unsplit j' < m"
      using post same_work_trans [OF same] Suc.prems(2) by (auto simp: requests_post_def unsplit_def)
    then have "run_returns (order_post j) (priorities_from m n j')"
      using Suc.IH order_post_later by (blast intro: run_returns_mono)
    with False show ?thesis by simp
  qed
  ultimately show ?case by (auto intro!: run_returns_bind)
qed simp

text \<open>
  C22: the jobs that install get an order in which what a package needs comes first. When \<open>pkg_jobs_set_priorities\<close> is given
  jobs whose items are in the universe, it ends, and for every job \<open>x\<close> that installs a remote package (not an
  upgrade with conflicts, unless it has a priority) and every job \<open>y\<close> for a package that one of its dependencies
  names, \<open>y\<close> comes before \<open>x\<close>, unless the priority of \<open>x\<close> is at the limit of the recursion, as in a cycle of dependencies. Jobs that
  delete are ordered the other way and are not covered.
\<close>

theorem jobs_dependencies_first:
  assumes "jobs_ready j" "1025 < fuel" "length (j_jobs j) < fuel"
  shows "\<exists>j'. pkg_jobs_set_priorities fuel j = Ret j'
    \<and> (\<forall>x < length (j_jobs j'). \<forall>y < length (j_jobs j').
         plain_request (j_universe j') (j_jobs j' ! x)
           \<or> \<not> is_installed (u_pkg (j_universe j') (s_item0 (j_jobs j' ! x))) \<and> u_priority (j_universe j') (s_item0 (j_jobs j' ! x)) > 0 \<longrightarrow>
         depends_on (j_universe j') (s_item0 (j_jobs j' ! x)) (s_item0 (j_jobs j' ! y)) \<longrightarrow>
         u_priority (j_universe j') (s_item0 (j_jobs j' ! x)) < RECURSION_LIMIT \<longrightarrow> y < x)"
proof -
  have "unsplit j < fuel" using assms(3) length_filter_le [of _ "j_jobs j"] unfolding unsplit_def by (rule le_less_trans [rotated])
  then obtain j' where j': "pkg_jobs_set_priorities fuel j = Ret j'" "order_post j j'"
    using priorities_from_ok [OF assms(2,1)] run_returnsD unfolding pkg_jobs_set_priorities_def by blast
  let ?u = "j_universe j'" and ?js = "j_jobs j'"
  have ord: "sorted_wrt (\<lambda>a b. pkg_jobs_sort_priority ?u a b \<le> 0) ?js"
    using j'(2) three_way_cmp.ordered_def [OF three_way_sort_priority] by (auto simp: order_post_def)
  have "y < x" if "x < length ?js" "y < length ?js"
    "plain_request ?u (?js ! x) \<or> \<not> is_installed (u_pkg ?u (s_item0 (?js ! x))) \<and> u_priority ?u (s_item0 (?js ! x)) > 0"
    "depends_on ?u (s_item0 (?js ! x)) (s_item0 (?js ! y))" "u_priority ?u (s_item0 (?js ! x)) < RECURSION_LIMIT" for x y
  proof (rule ccontr)
    assume "\<not> y < x"
    then have "u_priority ?u (s_item0 (?js ! y)) \<le> u_priority ?u (s_item0 (?js ! x))"
      using sorted_wrt_nth_less [OF ord, of x y] that(1,2) sort_priority_le by (cases "x = y") auto
    moreover have "due REQ ?u (s_item0 (?js ! x))" using j'(2) that(1,3) by (auto simp: order_post_def)
    ultimately show False using that(4,5) by (auto simp: due_def linked_request priority_skips_def)
  qed
  with j'(1) show ?thesis by blast
qed

text \<open>
  setting the priorities loses no job and invents none: besides the removals of old packages that it splits off
  from upgrades, the jobs are those there were before, the counter counts the new ones, the packages of the universe
  stay the same, and the jobs are in descending order of their priorities with deletions first among equals.
\<close>

theorem jobs_kept_and_sorted:
  assumes "jobs_ready j" "1025 < fuel" "length (j_jobs j) < fuel"
  shows "\<exists>j'. pkg_jobs_set_priorities fuel j = Ret j' \<and> work j' = work j
    \<and> j_count j' - j_count j = int (length (j_jobs j')) - int (length (j_jobs j))
    \<and> map it_pkg (u_store (j_universe j')) = map it_pkg (u_store (j_universe j))
    \<and> sorted_wrt (\<lambda>a b. u_priority (j_universe j') (s_item0 a) > u_priority (j_universe j') (s_item0 b)
        \<or> u_priority (j_universe j') (s_item0 a) = u_priority (j_universe j') (s_item0 b)
          \<and> (s_type b = PKG_SOLVED_DELETE \<longrightarrow> s_type a = PKG_SOLVED_DELETE)) (j_jobs j')"
proof -
  have "unsplit j < fuel" using assms(3) length_filter_le [of _ "j_jobs j"] unfolding unsplit_def by (rule le_less_trans [rotated])
  then obtain j' where j': "pkg_jobs_set_priorities fuel j = Ret j'" "order_post j j'"
    using priorities_from_ok [OF assms(2,1)] run_returnsD unfolding pkg_jobs_set_priorities_def by blast
  have "sorted_wrt (\<lambda>a b. pkg_jobs_sort_priority (j_universe j') a b \<le> 0) (j_jobs j')"
    using j'(2) three_way_cmp.ordered_def [OF three_way_sort_priority] by (auto simp: order_post_def)
  then have "sorted_wrt (\<lambda>a b. u_priority (j_universe j') (s_item0 a) > u_priority (j_universe j') (s_item0 b)
        \<or> u_priority (j_universe j') (s_item0 a) = u_priority (j_universe j') (s_item0 b)
          \<and> (s_type b = PKG_SOLVED_DELETE \<longrightarrow> s_type a = PKG_SOLVED_DELETE)) (j_jobs j')"
    by (rule sorted_wrt_mono_rel [rotated]) (auto simp: pkg_jobs_sort_priority_def Let_def split: if_splits)
  with j' show ?thesis by (simp add: order_post_def same_work_def)
qed

section \<open>Examples\<close>

text \<open>\<open>a\<close> needs \<open>b\<close>; the job of \<open>a\<close> comes first before the priorities are set.\<close>

definition prio_universe :: pkg_jobs_universe where
  "prio_universe = \<lparr>u_store =
      [\<lparr>it_pkg = demo_pkg\<lparr>pkg_deps := [\<lparr>dep_origin = ''x/b'', dep_name = ''b'', dep_version = ''1'', dep_uid = ''b'', dep_locked = False\<rparr>]\<rparr>,
         it_jp = None, it_priority = 0\<rparr>,
       \<lparr>it_pkg = demo_pkg\<lparr>pkg_uniqueid := ''b'', pkg_name := ''b''\<rparr>, it_jp = None, it_priority = 0\<rparr>],
     u_items = [(''a'', [0]), (''b'', [1])], u_seen = [], u_provides = [], u_uid_replaces = [], u_nitems = 2\<rparr>"

definition prio_jobs :: pkg_jobs where
  "prio_jobs = (pkg_jobs_new PKG_JOBS_INSTALL)\<lparr>j_universe := prio_universe,
     j_jobs := [\<lparr>s_item0 = 0, s_item1 = None, s_type = PKG_SOLVED_INSTALL, s_already_deleted = False\<rparr>,
                \<lparr>s_item0 = 1, s_item1 = None, s_type = PKG_SOLVED_INSTALL, s_already_deleted = False\<rparr>]\<rparr>"

lemma prio_ready: "jobs_ready prio_jobs" "length (j_jobs prio_jobs) < 1026"
  by code_simp+

theorem jobs_dependencies_first_witness:
  "\<exists>j'. pkg_jobs_set_priorities 1026 prio_jobs = Ret j' \<and> map s_item0 (j_jobs j') = [1, 0]"
proof -
  obtain j' where j': "pkg_jobs_set_priorities 1026 prio_jobs = Ret j'"
    using jobs_dependencies_first [OF prio_ready(1) _ prio_ready(2)] by auto
  moreover have "map_option (\<lambda>j. map s_item0 (j_jobs j)) (the_run (pkg_jobs_set_priorities 1026 prio_jobs)) = Some [1, 0]"
    by code_simp
  ultimately show ?thesis by simp
qed

theorem jobs_kept_and_sorted_witness:
  "\<exists>j'. pkg_jobs_set_priorities 1026 prio_jobs = Ret j' \<and> work j' = work prio_jobs
    \<and> j_count j' = int (length (j_jobs j')) - 2"
proof -
  have c: "j_count prio_jobs = 0" "length (j_jobs prio_jobs) = 2" by code_simp+
  from jobs_kept_and_sorted [OF prio_ready(1) _ prio_ready(2)] show ?thesis unfolding c by auto
qed

theorem priority_update_ends_witness:
  "\<exists>u'. pkg_jobs_update_universe_item_priority 1026 0 0 PKG_PRIORITY_UPDATE_REQUEST prio_universe = Ret u'
    \<and> (u_priority u' 1 > u_priority u' 0 \<or> u_priority u' 0 \<ge> RECURSION_LIMIT)"
proof -
  have h: "universe_wf prio_universe" "0 < length (u_store prio_universe)" "\<not> is_installed (u_pkg prio_universe 0)"
    "u_priority prio_universe 0 = 0" "0 \<le> RECURSION_LIMIT" "depends_on prio_universe 0 1" by code_simp+
  from priority_update_ends [OF h(1,2), of 0 1026] h(2-) show ?thesis by force
qed

end
