(* ===== verification/Conflicts.thy ===== *)
theory Conflicts
  imports Universe Priorities
begin

text \<open>
  Conflicts, \<open>libpkg/pkg_jobs_conflicts.c\<close>: conflicts between the requests, conflicts that the check of the
  files finds, and their registration in the universe. The check itself is
  \<open>pkgdb_integrity_append\<close> and \<open>pkgdb_integrity_check\<close> of \<open>libpkg/pkgdb.c\<close> and
  \<open>pkg_jobs_check_conflicts\<close> of \<open>libpkg/pkg_jobs.c\<close>: its SQL table is a table from paths to
  uids. The files of a package and the files that are installed are parameters.
\<close>

section \<open>Conflicts between requests\<close>

text \<open>A request is named by its item; the other field is \<open>skip\<close>.\<close>

definition pkg_conflicts_chain_cmp_cb :: "pkg_jobs_universe \<Rightarrow> requests \<Rightarrow> item_id \<Rightarrow> item_id \<Rightarrow> int" where
  "pkg_conflicts_chain_cmp_cb u reqs a b =
     (let sa = the (hash_find a reqs); sb = the (hash_find b reqs)
      in if sa \<or> sb then of_bool sa - of_bool sb
         else pkg_version_cmp (pkg_version (u_pkg u a)) (pkg_version (u_pkg u b)))"

definition pure_origin :: "pkg_jobs_universe \<Rightarrow> string \<Rightarrow> item_id \<Rightarrow> bool" where
  \<comment> \<open>the last element of the origin is the name\<close>
  "pure_origin u name elt \<longleftrightarrow> (case strrchr CHR ''/'' (pkg_origin (u_pkg u elt)) of
      None \<Rightarrow> False | Some slash_pos \<Rightarrow> tl slash_pos = name)"

definition skip_request :: "requests \<Rightarrow> item_id \<Rightarrow> requests" where
  "skip_request reqs elt = hash_upd elt (\<lambda>_. True) reqs"

definition skip_all_but :: "nat \<Rightarrow> item_id list \<Rightarrow> requests \<Rightarrow> requests" where
  \<comment> \<open>every element of the chain but the one at position \<open>k\<close>\<close>
  "skip_all_but k chain reqs = foldl skip_request reqs (take k chain @ drop (Suc k) chain)"

definition index_of :: "('a \<Rightarrow> bool) \<Rightarrow> 'a list \<Rightarrow> nat" where
  "index_of P xs = length (takeWhile (\<lambda>x. \<not> P x) xs)"

definition pkg_conflicts_request_resolve_chain :: "pkg_jobs_universe \<Rightarrow> pkg \<Rightarrow> item_id list \<Rightarrow> requests \<Rightarrow> requests" where
  "pkg_conflicts_request_resolve_chain u req chain reqs =
     (let k = index_of (pure_origin u (pkg_name req)) chain
      in if k < length chain then skip_all_but k chain reqs
         else skip_all_but 0 (ll_sort (pkg_conflicts_chain_cmp_cb u reqs) chain) reqs)"

text \<open>
  The lookup of the request of a unit is \<open>HASH_FIND_PTR(j->request_add, unit, found)\<close>. The macro takes
  the address of the key; it is given the item instead of the address of a pointer to it, so the key it looks up
  is the first field of the item, the address of its package. \<open>lookup\<close> is that lookup, a parameter of
  the model: \<open>lookup_meant\<close> finds the request of the item, \<open>lookup_coded\<close> is what the macro does, since no
  request is hashed on the address of a package.
\<close>

type_synonym request_lookup = "item_id \<Rightarrow> requests \<Rightarrow> bool option"

definition lookup_meant :: request_lookup where
  "lookup_meant unit reqs = hash_find unit reqs"

definition lookup_coded :: request_lookup where
  "lookup_coded unit reqs = None"

definition conflict_chain :: "request_lookup \<Rightarrow> pkg_jobs_universe \<Rightarrow> requests \<Rightarrow> pkg \<Rightarrow> item_id list" where
  \<comment> \<open>the requests the package conflicts with, the last one first\<close>
  "conflict_chain lookup u reqs pkg = foldl (\<lambda>chain c.
      case pkg_jobs_universe_find u (conf_uniqueid c) of
        None \<Rightarrow> chain
      | Some unit \<Rightarrow> (case lookup unit reqs of Some skip \<Rightarrow> if skip then chain else unit # chain | None \<Rightarrow> chain))
      [] (pkg_conflicts pkg)"

definition resolve_request :: "request_lookup \<Rightarrow> pkg_jobs_universe \<Rightarrow> requests \<Rightarrow> item_id \<Rightarrow> requests" where
  "resolve_request lookup u reqs req =
     (if the (hash_find req reqs) then reqs
      else let pkg = u_pkg u req; chain = conflict_chain lookup u reqs pkg
           in if chain = [] then reqs else pkg_conflicts_request_resolve_chain u pkg (req # chain) reqs)"

definition pkg_conflicts_request_resolve :: "request_lookup \<Rightarrow> pkg_jobs \<Rightarrow> epkg \<times> pkg_jobs" where
  "pkg_conflicts_request_resolve lookup j =
     (EPKG_OK, j\<lparr>j_request_add := foldl (resolve_request lookup (j_universe j)) (j_request_add j)
        (map fst (j_request_add j))\<rparr>)"

section \<open>Registering a conflict\<close>

definition has_conflict :: "pkg \<Rightarrow> string \<Rightarrow> bool" where
  \<comment> \<open>\<open>HASH_FIND\<close> in the conflicts of the package\<close>
  "has_conflict p uid \<longleftrightarrow> find (\<lambda>c. conf_uniqueid c = uid) (pkg_conflicts p) \<noteq> None"

definition conflict_add :: "string \<Rightarrow> pkg_conflict_type \<Rightarrow> pkg \<Rightarrow> pkg" where
  "conflict_add uid type p =
     (if has_conflict p uid then p
      else p\<lparr>pkg_conflicts := pkg_conflicts p @ [\<lparr>conf_uniqueid = uid, conf_type = type\<rparr>]\<rparr>)"

definition pkg_conflicts_register :: "item_id \<Rightarrow> item_id \<Rightarrow> pkg_conflict_type \<Rightarrow> pkg_jobs_universe \<Rightarrow> pkg_jobs_universe" where
  "pkg_conflicts_register i1 i2 type u =
     (let u1 = pkg_uniqueid (u_pkg u i1); u2 = pkg_uniqueid (u_pkg u i2)
      in u_upd_pkg i2 (conflict_add u1 type) (u_upd_pkg i1 (conflict_add u2 type) u))"

definition pkg_conflicts_register_universe ::
  "item_id \<Rightarrow> item_id \<Rightarrow> pkg_conflict_type \<Rightarrow> pkg_jobs \<Rightarrow> pkg_jobs" where
  \<comment> \<open>with the counter that every caller increments after the call\<close>
  "pkg_conflicts_register_universe i1 i2 type j =
     (upd_universe (pkg_conflicts_register i1 i2 type) j)\<lparr>j_conflicts_registered := j_conflicts_registered j + 1\<rparr>"

definition pkg_conflicts_add_missing :: "nat \<Rightarrow> env \<Rightarrow> pkg_jobs \<Rightarrow> string \<Rightarrow> (epkg \<times> pkg_jobs) run" where
  "pkg_conflicts_add_missing fuel e j uid =
     (let (npkg, j) = pkg_jobs_universe_get_local e j uid [];
          (npkg, j) = (if npkg = None then pkg_jobs_universe_get_remote e j uid [] else (npkg, j))
      in case npkg of None \<Rightarrow> Ret (EPKG_FATAL, j) | Some np \<Rightarrow> pkg_jobs_universe_process fuel e np j)"

definition register_local_pair :: "item_id \<Rightarrow> pkg_jobs \<Rightarrow> item_id \<Rightarrow> pkg_jobs" where
  "register_local_pair cur1 j cur2 =
     (if is_installed (u_pkg (j_universe j) cur1) \<noteq> is_installed (u_pkg (j_universe j) cur2)
      then pkg_conflicts_register_universe cur1 cur2 PKG_CONFLICT_REMOTE_LOCAL j else j)"

definition register_local_chains :: "string \<Rightarrow> string \<Rightarrow> pkg_jobs \<Rightarrow> pkg_jobs" where
  "register_local_chains o1 o2 j = foldl (\<lambda>j cur1. foldl (register_local_pair cur1) j (u_found (j_universe j) o2))
     j (u_found (j_universe j) o1)"

definition pkg_conflicts_add_from_pkgdb_local :: "nat \<Rightarrow> env \<Rightarrow> string \<Rightarrow> string \<Rightarrow> pkg_jobs \<Rightarrow> pkg_jobs run" where
  "pkg_conflicts_add_from_pkgdb_local fuel e o1 o2 j =
     (case (pkg_jobs_universe_find (j_universe j) o1, pkg_jobs_universe_find (j_universe j) o2) of
        (None, None) \<Rightarrow> Ret j
      | (None, Some _) \<Rightarrow> run_bind (pkg_conflicts_add_missing fuel e j o1)
          (\<lambda>(rc, j). if rc \<noteq> EPKG_OK then Ret j else Ret (register_local_chains o1 o2 j))
      | (Some _, None) \<Rightarrow> run_bind (pkg_conflicts_add_missing fuel e j o2)
          (\<lambda>(rc, j). if rc \<noteq> EPKG_OK then Ret j else Ret (register_local_chains o1 o2 j))
      | (Some u1, Some u2) \<Rightarrow>
          if has_conflict (u_pkg (j_universe j) u1) o2 then Ret j else Ret (register_local_chains o1 o2 j))"

fun register_remote :: "string \<Rightarrow> item_id \<Rightarrow> item_id list \<Rightarrow> pkg_jobs \<Rightarrow> pkg_jobs" where
  \<comment> \<open>the first remote package of the chain that has no conflict with \<open>o1\<close>\<close>
  "register_remote o1 cur1 [] j = j"
| "register_remote o1 cur1 (cur2 # cs) j =
     (if \<not> has_conflict (u_pkg (j_universe j) cur2) o1 \<and> \<not> is_installed (u_pkg (j_universe j) cur2)
      then pkg_conflicts_register_universe cur1 cur2 PKG_CONFLICT_REMOTE_REMOTE j
      else register_remote o1 cur1 cs j)"

definition pkg_conflicts_add_from_pkgdb_remote :: "string \<Rightarrow> string \<Rightarrow> pkg_jobs \<Rightarrow> pkg_jobs" where
  "pkg_conflicts_add_from_pkgdb_remote o1 o2 j =
     (case (pkg_jobs_universe_find (j_universe j) o1, pkg_jobs_universe_find (j_universe j) o2) of
        (Some u1, Some u2) \<Rightarrow>
          if has_conflict (u_pkg (j_universe j) u1) o2 then j
          else foldl (\<lambda>j cur1.
            if \<not> is_installed (u_pkg (j_universe j) cur1) \<and> \<not> has_conflict (u_pkg (j_universe j) cur1) o2
            then register_remote o1 cur1 (u_found (j_universe j) o2) j else j) j (u_found (j_universe j) o1)
      | _ \<Rightarrow> j)"

section \<open>The check of the files\<close>

text \<open>
  The table \<open>integritycheck\<close> has a unique column \<open>path\<close>: an insert fails when the path is there, and the
  select then yields the uid it was inserted with. \<open>installed\<close> lists the paths in the table \<open>files\<close>
  of the local database, which are unique, with the uid of their package.
\<close>

type_synonym integritycheck = "(string, string) uthash"

record files_env =
  fe_files :: "pkg \<Rightarrow> string list"
  fe_installed :: "(string \<times> string) list"

definition integrity_insert ::
  "string \<Rightarrow> epkg \<times> integritycheck \<times> pkg_jobs \<Rightarrow> string \<Rightarrow> epkg \<times> integritycheck \<times> pkg_jobs" where
  "integrity_insert puid s path = (case s of (ret, tbl, j) \<Rightarrow>
      (case hash_find path tbl of
         None \<Rightarrow> (ret, hash_add path puid tbl, j)
       | Some uid \<Rightarrow> (EPKG_CONFLICT, tbl, pkg_conflicts_add_from_pkgdb_remote puid uid j)))"

definition pkgdb_integrity_append ::
  "files_env \<Rightarrow> pkg \<Rightarrow> integritycheck \<Rightarrow> pkg_jobs \<Rightarrow> epkg \<times> integritycheck \<times> pkg_jobs" where
  "pkgdb_integrity_append fe p tbl j = foldl (integrity_insert (pkg_uniqueid p)) (EPKG_OK, tbl, j) (fe_files fe p)"

definition pkg_conflicts_append_pkg ::
  "files_env \<Rightarrow> pkg \<Rightarrow> integritycheck \<Rightarrow> pkg_jobs \<Rightarrow> epkg \<times> integritycheck \<times> pkg_jobs" where
  "pkg_conflicts_append_pkg fe p tbl j = pkgdb_integrity_append fe p tbl j"

definition conflicting_files :: "files_env \<Rightarrow> integritycheck \<Rightarrow> (string \<times> string) list" where
  \<comment> \<open>uid of the installed package and uid of the new one, for every path both have\<close>
  "conflicting_files fe tbl = concat (map (\<lambda>(path, luid).
      case hash_find path tbl of None \<Rightarrow> [] | Some uid \<Rightarrow> if luid \<noteq> uid then [(luid, uid)] else []) (fe_installed fe))"

definition pkgdb_integrity_check ::
  "nat \<Rightarrow> env \<Rightarrow> files_env \<Rightarrow> integritycheck \<Rightarrow> pkg_jobs \<Rightarrow> (epkg \<times> integritycheck \<times> pkg_jobs) run" where
  "pkgdb_integrity_check fuel e fe tbl j =
     (let cs = conflicting_files fe tbl
      in run_bind (run_fold (\<lambda>(o1, o2) j. pkg_conflicts_add_from_pkgdb_local fuel e o1 o2 j) cs j)
           (\<lambda>j. Ret (if cs = [] then EPKG_OK else EPKG_CONFLICT, [], j)))"

definition pkg_conflicts_integrity_check ::
  "nat \<Rightarrow> env \<Rightarrow> files_env \<Rightarrow> integritycheck \<Rightarrow> pkg_jobs \<Rightarrow> (epkg \<times> integritycheck \<times> pkg_jobs) run" where
  "pkg_conflicts_integrity_check fuel e fe tbl j = pkgdb_integrity_check fuel e fe tbl j"

text \<open>State of the loop over the jobs: the code, the number of the packages without conflicts, table and job.\<close>

definition check_job ::
  "env \<Rightarrow> files_env \<Rightarrow> epkg \<times> nat \<times> integritycheck \<times> pkg_jobs \<Rightarrow> pkg_solved \<Rightarrow> epkg \<times> nat \<times> integritycheck \<times> pkg_jobs" where
  "check_job e fe s ps = (case s of (ret, added, tbl, j) \<Rightarrow>
     (let p = u_pkg (j_universe j) (s_item0 ps)
      in if s_type ps = PKG_SOLVED_DELETE \<or> s_type ps = PKG_SOLVED_UPGRADE_REMOVE then s
         else if pkg_type p \<noteq> PKG_REMOTE \<and> pkg_type p \<noteq> PKG_FILE then s
         else let q = (if pkg_type p = PKG_REMOTE then e_ensure_loaded e p [PKG_LOAD_FILES, PKG_LOAD_DIRS] else p);
                  (res, tbl, j) = pkg_conflicts_append_pkg fe q tbl (upd_universe (u_upd_pkg (s_item0 ps) (\<lambda>_. q)) j)
              in if res \<noteq> EPKG_OK then (res, added, tbl, j) else (ret, added + 1, tbl, j)))"

definition pkg_jobs_check_conflicts ::
  "nat \<Rightarrow> env \<Rightarrow> files_env \<Rightarrow> integritycheck \<Rightarrow> pkg_jobs \<Rightarrow> (epkg \<times> integritycheck \<times> pkg_jobs) run" where
  "pkg_jobs_check_conflicts fuel e fe tbl j =
     (let (ret, added, tbl, j) = foldl (check_job e fe) (EPKG_OK, 0, tbl, j) (j_jobs j)
      in if added > 0 then
           run_bind (pkg_conflicts_integrity_check fuel e fe tbl j) (\<lambda>(res, tbl, j).
             if res \<noteq> EPKG_OK then Ret (res, tbl, j) else Ret (ret, tbl, j))
         else Ret (ret, tbl, j))"

section \<open>Requests that conflict\<close>

lemma find_skip: "hash_find k (foldl skip_request reqs xs) =
    (if k \<in> set xs then map_option (\<lambda>_. True) (hash_find k reqs) else hash_find k reqs)"
  by (induction xs arbitrary: reqs) (auto simp: skip_request_def hash_find_upd option.map_comp comp_def)

lemma keys_skip: "map fst (foldl skip_request reqs xs) = map fst reqs"
  by (induction xs arbitrary: reqs) (simp_all add: skip_request_def)

text \<open>Two different elements of a chain: at most one of them stays.\<close>

lemma skip_all_but_two:
  assumes "a \<in> set chain" "b \<in> set chain" "a \<noteq> b"
  shows "a \<in> set (take k chain @ drop (Suc k) chain) \<or> b \<in> set (take k chain @ drop (Suc k) chain)"
proof (cases "k < length chain")
  case True
  then have "set chain = insert (chain ! k) (set (take k chain @ drop (Suc k) chain))"
    by (metis id_take_nth_drop set_append list.simps(15) Un_insert_right)
  with assms show ?thesis by auto
next
  case False
  then show ?thesis using assms by simp
qed

lemma resolve_chain_skips:
  "\<exists>xs. pkg_conflicts_request_resolve_chain u p chain reqs = foldl skip_request reqs xs \<and> set xs \<subseteq> set chain
     \<and> (\<forall>a \<in> set chain. \<forall>b \<in> set chain. a \<noteq> b \<longrightarrow> a \<in> set xs \<or> b \<in> set xs)"
proof -
  have sel: "\<exists>xs. skip_all_but k c reqs = foldl skip_request reqs xs \<and> set xs \<subseteq> set chain
     \<and> (\<forall>a \<in> set chain. \<forall>b \<in> set chain. a \<noteq> b \<longrightarrow> a \<in> set xs \<or> b \<in> set xs)" if "set c = set chain" for k c
  proof (intro exI conjI)
    show "skip_all_but k c reqs = foldl skip_request reqs (take k c @ drop (Suc k) c)" by (simp add: skip_all_but_def)
    show "set (take k c @ drop (Suc k) c) \<subseteq> set chain" using that by (auto dest: in_set_takeD in_set_dropD)
    show "\<forall>a \<in> set chain. \<forall>b \<in> set chain. a \<noteq> b \<longrightarrow> a \<in> set (take k c @ drop (Suc k) c) \<or> b \<in> set (take k c @ drop (Suc k) c)"
      using skip_all_but_two [of _ c] that by simp
  qed
  show ?thesis unfolding pkg_conflicts_request_resolve_chain_def Let_def
    using sel [of chain] sel [of "ll_sort (pkg_conflicts_chain_cmp_cb u reqs) chain"] by simp
qed

lemma conflict_chain_mem:
  assumes "c \<in> set (pkg_conflicts p)" "pkg_jobs_universe_find u (conf_uniqueid c) = Some k" "hash_find k reqs = Some False"
  shows "k \<in> set (conflict_chain lookup_meant u reqs p)"
proof -
  define step where "step chain c = (case pkg_jobs_universe_find u (conf_uniqueid c) of
        None \<Rightarrow> chain
      | Some unit \<Rightarrow> (case lookup_meant unit reqs of Some skip \<Rightarrow> if skip then chain else unit # chain | None \<Rightarrow> chain))" for chain and c :: pkg_conflict
  have keep: "x \<in> set chain \<Longrightarrow> x \<in> set (foldl step chain cs)" for x chain cs
    by (induction cs arbitrary: chain) (auto simp: step_def split: option.splits)
  have "c \<in> set cs \<Longrightarrow> k \<in> set (foldl step chain cs)" for chain cs
  proof (induction cs arbitrary: chain)
    case (Cons d cs)
    have "k \<in> set (step chain c)" using assms(2,3) by (simp add: step_def lookup_meant_def)
    then show ?case using Cons keep [of k "step chain c" cs] by auto
  qed simp
  then show ?thesis using assms(1) by (simp add: conflict_chain_def step_def [abs_def])
qed

lemma resolve_request_skips: "\<exists>xs. resolve_request lookup u reqs req = foldl skip_request reqs xs"
  using resolve_chain_skips [of u "u_pkg u req" "req # conflict_chain lookup u reqs (u_pkg u req)" reqs]
  by (auto simp: resolve_request_def Let_def intro: exI [of _ "[]"])

lemma resolve_request_decides:
  assumes "c \<in> set (pkg_conflicts (u_pkg u i))" "pkg_jobs_universe_find u (conf_uniqueid c) = Some k" "i \<noteq> k"
    and "hash_find i reqs = Some False" "hash_find k reqs = Some False"
  shows "hash_find i (resolve_request lookup_meant u reqs i) = Some True \<or> hash_find k (resolve_request lookup_meant u reqs i) = Some True"
proof -
  have k: "k \<in> set (conflict_chain lookup_meant u reqs (u_pkg u i))" by (rule conflict_chain_mem [OF assms(1,2,5)])
  let ?chain = "i # conflict_chain lookup_meant u reqs (u_pkg u i)"
  obtain xs where xs: "pkg_conflicts_request_resolve_chain u (u_pkg u i) ?chain reqs = foldl skip_request reqs xs"
    "i \<in> set xs \<or> k \<in> set xs"
    using resolve_chain_skips [of u "u_pkg u i" ?chain reqs] k assms(3) by auto
  have "resolve_request lookup_meant u reqs i = foldl skip_request reqs xs"
    using assms(4) k xs(1) by (auto simp: resolve_request_def Let_def)
  then show ?thesis using xs(2) assms(4,5) by (auto simp: find_skip)
qed

lemma resolve_requests_skips: "\<exists>xs. foldl (resolve_request lookup u) reqs is = foldl skip_request reqs xs"
proof (induction "is" arbitrary: reqs)
  case Nil
  show ?case by (rule exI [of _ "[]"]) simp
next
  case (Cons i "is")
  then show ?case using resolve_request_skips [of lookup u reqs i] by (metis foldl_Cons foldl_append)
qed

text \<open>
  with the lookup the code means, no two requests that conflict are left active: when a request is not skipped,
  every other request for the unit of one of its conflicts is skipped. No request is added or removed, and a
  request that was skipped stays so.
\<close>

theorem requests_resolved:
  assumes "pkg_conflicts_request_resolve lookup_meant j = (rc, j')"
  shows "rc = EPKG_OK \<and> map fst (j_request_add j') = map fst (j_request_add j)
    \<and> (\<forall>i. hash_find i (j_request_add j) = Some True \<longrightarrow> hash_find i (j_request_add j') = Some True)
    \<and> (\<forall>i k. \<forall>c \<in> set (pkg_conflicts (u_pkg (j_universe j) i)). pkg_jobs_universe_find (j_universe j) (conf_uniqueid c) = Some k \<longrightarrow>
         i \<noteq> k \<longrightarrow> \<not> (hash_find i (j_request_add j') = Some False \<and> hash_find k (j_request_add j') = Some False))"
proof -
  let ?u = "j_universe j" and ?R = "j_request_add j" and ?f = "resolve_request lookup_meant (j_universe j)"
  have rc: "rc = EPKG_OK" and R': "j_request_add j' = foldl ?f ?R (map fst ?R)"
    using assms by (auto simp: pkg_conflicts_request_resolve_def)
  have skips: "\<exists>xs. foldl ?f R is = foldl skip_request R xs" for R "is" by (rule resolve_requests_skips)
  have act: "hash_find k (foldl ?f R is) = Some False \<Longrightarrow> hash_find k R = Some False" for k R "is"
    using skips [of R "is"] by (auto simp: find_skip split: if_splits)
  have "\<not> (hash_find i (j_request_add j') = Some False \<and> hash_find k (j_request_add j') = Some False)"
    if c: "c \<in> set (pkg_conflicts (u_pkg ?u i))" "pkg_jobs_universe_find ?u (conf_uniqueid c) = Some k" "i \<noteq> k" for i k c
  proof
    assume a: "hash_find i (j_request_add j') = Some False \<and> hash_find k (j_request_add j') = Some False"
    then have "hash_find i ?R = Some False" using act [of i ?R "map fst ?R"] unfolding R' by blast
    then have "i \<in> set (map fst ?R)" using uh.find_None [of i ?R] by auto
    then obtain pre post where l: "map fst ?R = pre @ i # post" by (auto dest: split_list)
    let ?before = "foldl ?f ?R pre" and ?after = "?f (foldl ?f ?R pre) i"
    have after: "hash_find i ?after = Some False" "hash_find k ?after = Some False"
      using a act [of i ?after post] act [of k ?after post] unfolding R' l by simp_all
    then have "hash_find i ?before = Some False" "hash_find k ?before = Some False"
      using act [of i ?before "[i]"] act [of k ?before "[i]"] by simp_all
    from resolve_request_decides [OF c this] after show False by auto
  qed
  moreover have "map fst (j_request_add j') = map fst ?R" using skips [of ?R "map fst ?R"] R' keys_skip by metis
  moreover have "hash_find i ?R = Some True \<Longrightarrow> hash_find i (j_request_add j') = Some True" for i
    using skips [of ?R "map fst ?R"] R' by (auto simp: find_skip)
  ultimately show ?thesis using rc by blast
qed

text \<open>
  with the lookup that the code performs, the resolution of the requests never does anything.
\<close>

theorem resolve_has_no_effect:
  "pkg_conflicts_request_resolve lookup_coded j = (EPKG_OK, j)"
proof -
  have "foldl (\<lambda>chain c. case pkg_jobs_universe_find u (conf_uniqueid c) of None \<Rightarrow> chain
      | Some unit \<Rightarrow> (case lookup_coded unit reqs of Some skip \<Rightarrow> if skip then chain else unit # chain | None \<Rightarrow> chain)) [] cs = []"
    for u reqs and cs :: "pkg_conflict list"
    by (induction cs) (auto simp: lookup_coded_def split: option.split)
  then have "resolve_request lookup_coded u reqs i = reqs" for u reqs i
    by (simp add: resolve_request_def conflict_chain_def)
  then have "foldl (resolve_request lookup_coded u) reqs is = reqs" for u reqs "is" by (induction "is") simp_all
  then show ?thesis by (simp add: pkg_conflicts_request_resolve_def)
qed

section \<open>Registered conflicts\<close>

lemma has_conflict_iff: "has_conflict p uid \<longleftrightarrow> uid \<in> conf_uniqueid ` set (pkg_conflicts p)"
  by (auto simp: has_conflict_def find_None_iff)

lemma conflict_add_simps [simp]:
  "pkg_uniqueid (conflict_add uid t p) = pkg_uniqueid p" "is_installed (conflict_add uid t p) = is_installed p"
  "has_conflict (conflict_add uid t p) v \<longleftrightarrow> v = uid \<or> has_conflict p v"
  by (auto simp: conflict_add_def is_installed_def has_conflict_iff)

text \<open>What registration keeps: everything but the conflicts, and the conflicts that were there.\<close>

definition conflicts_grow :: "pkg_jobs_universe \<Rightarrow> pkg_jobs_universe \<Rightarrow> bool" where
  "conflicts_grow u v \<longleftrightarrow> length (u_store v) = length (u_store u) \<and> u_items v = u_items u \<and> u_seen v = u_seen u
     \<and> u_provides v = u_provides u \<and> u_nitems v = u_nitems u
     \<and> (\<forall>i < length (u_store u). pkg_uniqueid (u_pkg v i) = pkg_uniqueid (u_pkg u i)
          \<and> is_installed (u_pkg v i) = is_installed (u_pkg u i)
          \<and> (\<forall>uid. has_conflict (u_pkg u i) uid \<longrightarrow> has_conflict (u_pkg v i) uid))"

lemma conflicts_grow_refl [simp]: "conflicts_grow u u"
  by (simp add: conflicts_grow_def)

lemma conflicts_grow_trans: "conflicts_grow u v \<Longrightarrow> conflicts_grow v w \<Longrightarrow> conflicts_grow u w"
  by (auto simp: conflicts_grow_def)

lemma grow_upd: "conflicts_grow u (u_upd_pkg i (conflict_add uid t) u)"
  by (auto simp: conflicts_grow_def u_upd_pkg_fields u_pkg_upd) (simp_all add: u_upd_pkg_def u_upd_item_def)

lemma grow_register: "conflicts_grow u (pkg_conflicts_register i1 i2 t u)"
  unfolding pkg_conflicts_register_def Let_def by (rule conflicts_grow_trans [OF grow_upd grow_upd])

lemma register_conflicts:
  assumes "i1 < length (u_store u)" "i2 < length (u_store u)"
  shows "has_conflict (u_pkg (pkg_conflicts_register i1 i2 t u) i1) (pkg_uniqueid (u_pkg u i2))"
    "has_conflict (u_pkg (pkg_conflicts_register i1 i2 t u) i2) (pkg_uniqueid (u_pkg u i1))"
  using assms by (simp_all add: pkg_conflicts_register_def Let_def u_pkg_upd u_upd_pkg_fields)

lemma grow_ok: "conflicts_grow u v \<Longrightarrow> universe_ok u \<Longrightarrow> universe_ok v"
proof -
  assume g: "conflicts_grow u v" and ok: "universe_ok u"
  have wf: "universe_wf v" using g ok by (simp add: conflicts_grow_def universe_ok_def universe_wf_def)
  have "universe_uids v" using g ok universe_wf_chain [of u] by (auto simp: conflicts_grow_def universe_ok_def universe_uids_def split: prod.splits) 
  with wf show ?thesis using g ok by (simp add: conflicts_grow_def universe_ok_def universe_linked_def)
qed

definition mixed :: "pkg_jobs_universe \<Rightarrow> item_id \<Rightarrow> item_id \<Rightarrow> bool" where
  \<comment> \<open>one of the two is installed, the other is not\<close>
  "mixed u a b \<longleftrightarrow> is_installed (u_pkg u a) \<noteq> is_installed (u_pkg u b)"

definition both_conflict :: "pkg_jobs_universe \<Rightarrow> item_id \<Rightarrow> item_id \<Rightarrow> bool" where
  "both_conflict u a b \<longleftrightarrow> has_conflict (u_pkg u a) (pkg_uniqueid (u_pkg u b)) \<and> has_conflict (u_pkg u b) (pkg_uniqueid (u_pkg u a))"

lemma both_conflict_grow:
  "conflicts_grow u v \<Longrightarrow> a < length (u_store u) \<Longrightarrow> b < length (u_store u) \<Longrightarrow> both_conflict u a b \<Longrightarrow> both_conflict v a b"
  by (simp add: both_conflict_def conflicts_grow_def)

lemma mixed_grow: "conflicts_grow u v \<Longrightarrow> a < length (u_store u) \<Longrightarrow> b < length (u_store u) \<Longrightarrow> mixed v a b = mixed u a b"
  by (simp add: mixed_def conflicts_grow_def)

text \<open>A loop of registrations from \<open>u0\<close> on, and what it has registered.\<close>

definition registers :: "pkg_jobs \<Rightarrow> (item_id \<times> item_id) list \<Rightarrow> pkg_jobs \<Rightarrow> bool" where
  "registers j ps j' \<longleftrightarrow> conflicts_grow (j_universe j) (j_universe j')
     \<and> (\<forall>(a, b) \<in> set ps. mixed (j_universe j) a b \<longrightarrow> both_conflict (j_universe j') a b)
     \<and> j_conflicts_registered j' = j_conflicts_registered j + int (length (filter (\<lambda>(a, b). mixed (j_universe j) a b) ps))"

lemma registers_append:
  assumes "registers j ps k" "registers k qs l"
    and "\<forall>(a, b) \<in> set (ps @ qs). a < length (u_store (j_universe j)) \<and> b < length (u_store (j_universe j))"
  shows "registers j (ps @ qs) l"
proof -
  let ?u = "j_universe j" and ?v = "j_universe k" and ?w = "j_universe l"
  have g: "conflicts_grow ?u ?v" "conflicts_grow ?v ?w" using assms(1,2) by (simp_all add: registers_def)
  have len: "length (u_store ?v) = length (u_store ?u)" using g(1) by (simp add: conflicts_grow_def)
  have bd: "a < length (u_store ?u) \<and> b < length (u_store ?u)" if "(a, b) \<in> set (ps @ qs)" for a b
    using assms(3) that by fast
  have m: "mixed ?v a b = mixed ?u a b" if "(a, b) \<in> set qs" for a b
    using mixed_grow [OF g(1)] bd [of a b] that by simp
  have "both_conflict ?w a b" if "(a, b) \<in> set (ps @ qs)" "mixed ?u a b" for a b
    using that assms both_conflict_grow [OF g(2)] m len unfolding registers_def by fastforce
  moreover have "filter (\<lambda>(a, b). mixed ?v a b) qs = filter (\<lambda>(a, b). mixed ?u a b) qs"
    using m by (intro filter_cong) auto
  ultimately show ?thesis using assms(1,2) conflicts_grow_trans [OF g] by (auto simp: registers_def)
qed

lemma registers_pair:
  assumes "a < length (u_store (j_universe j))" "b < length (u_store (j_universe j))"
  shows "registers j [(a, b)] (register_local_pair a j b)"
proof (cases "mixed (j_universe j) a b")
  case True
  let ?v = "pkg_conflicts_register a b PKG_CONFLICT_REMOTE_LOCAL (j_universe j)"
  have "both_conflict ?v a b"
    using register_conflicts [OF assms] grow_register [of "j_universe j" a b] assms by (simp add: both_conflict_def conflicts_grow_def)
  with True show ?thesis using grow_register
    by (simp add: registers_def register_local_pair_def mixed_def pkg_conflicts_register_universe_def upd_universe_def)
next
  case False
  then show ?thesis by (simp add: registers_def register_local_pair_def mixed_def)
qed

lemma registers_nil: "registers j [] j"
  by (simp add: registers_def)

lemma registers_bound:
  "registers j ps k \<Longrightarrow> length (u_store (j_universe k)) = length (u_store (j_universe j)) \<and> u_items (j_universe k) = u_items (j_universe j)"
  by (simp add: registers_def conflicts_grow_def)

lemma registers_row:
  assumes "a < length (u_store (j_universe j))" "\<forall>b \<in> set bs. b < length (u_store (j_universe j))"
  shows "registers j (map (Pair a) bs) (foldl (register_local_pair a) j bs)"
  using assms
proof (induction bs arbitrary: j)
  case (Cons b bs)
  let ?k = "register_local_pair a j b"
  have p: "registers j [(a, b)] ?k" using registers_pair Cons.prems by simp
  have "registers ?k (map (Pair a) bs) (foldl (register_local_pair a) ?k bs)"
    using Cons registers_bound [OF p] by simp
  from registers_append [OF p this] Cons.prems show ?case by auto
qed (simp add: registers_nil)

lemma registers_table:
  assumes "\<forall>a \<in> set as. a < length (u_store (j_universe j))" "\<forall>b \<in> set (u_found (j_universe j) o2). b < length (u_store (j_universe j))"
  shows "registers j (List.product as (u_found (j_universe j) o2))
    (foldl (\<lambda>j cur1. foldl (register_local_pair cur1) j (u_found (j_universe j) o2)) j as)"
  using assms
proof (induction as arbitrary: j)
  case (Cons a as)
  let ?bs = "u_found (j_universe j) o2" and ?k = "foldl (register_local_pair a) j (u_found (j_universe j) o2)"
  have r: "registers j (map (Pair a) ?bs) ?k" using registers_row Cons.prems by simp
  note bd = registers_bound [OF r]
  have f: "u_found (j_universe ?k) o2 = ?bs" using bd by (simp add: u_found_def)
  have "registers ?k (List.product as ?bs) (foldl (\<lambda>j cur1. foldl (register_local_pair cur1) j (u_found (j_universe j) o2)) ?k as)"
    using Cons.IH [of ?k] Cons.prems bd f by simp
  from registers_append [OF r this] Cons.prems show ?case by auto
qed (simp add: registers_nil)

lemma universe_uids_chain:
  assumes "universe_uids u" "hash_find uid (u_items u) = Some c" "i \<in> set c"
  shows "pkg_uniqueid (u_pkg u i) = uid"
  using assms(1) uh.find_SomeD [OF assms(2)] assms(3) by (auto simp: universe_uids_def)

text \<open>
  when the check of the files reports two packages that the universe has and whose conflict is not known,
  every installed package of the one uid and every remote package of the other get a conflict with each
  other, the counter counts these pairs, and the universe stays in the form the solver needs.
\<close>

theorem conflict_registered:
  assumes "universe_ok (j_universe j)" "hash_find o1 (u_items (j_universe j)) = Some c1" "hash_find o2 (u_items (j_universe j)) = Some c2"
    and "\<not> has_conflict (u_pkg (j_universe j) (hd c1)) o2"
  shows "\<exists>j'. pkg_conflicts_add_from_pkgdb_local fuel e o1 o2 j = Ret j' \<and> universe_ok (j_universe j')
    \<and> (\<forall>a \<in> set c1. \<forall>b \<in> set c2. is_installed (u_pkg (j_universe j) a) \<noteq> is_installed (u_pkg (j_universe j) b) \<longrightarrow>
         has_conflict (u_pkg (j_universe j') a) o2 \<and> has_conflict (u_pkg (j_universe j') b) o1)
    \<and> j_conflicts_registered j' = j_conflicts_registered j + int (length (filter
         (\<lambda>(a, b). is_installed (u_pkg (j_universe j) a) \<noteq> is_installed (u_pkg (j_universe j) b)) (List.product c1 c2)))"
proof -
  let ?u = "j_universe j" and ?j = "register_local_chains o1 o2 j"
  have run: "pkg_conflicts_add_from_pkgdb_local fuel e o1 o2 j = Ret ?j"
    using assms(2-4) by (simp add: pkg_conflicts_add_from_pkgdb_local_def pkg_jobs_universe_find_def)
  have wf: "universe_wf ?u" using assms(1) by (simp add: universe_ok_def)
  have f: "u_found ?u o1 = c1" "u_found ?u o2 = c2" using assms(2,3) by (simp_all add: u_found_def)
  have bd: "a \<in> set c1 \<union> set c2 \<Longrightarrow> a < length (u_store ?u)" for a
    using u_found_wf [OF wf, of a o1] u_found_wf [OF wf, of a o2] f by auto
  have r: "registers j (List.product c1 c2) ?j"
    using registers_table [of "u_found ?u o1" j o2] bd f by (simp add: register_local_chains_def)
  have uid: "a \<in> set c1 \<Longrightarrow> pkg_uniqueid (u_pkg ?u a) = o1" "a \<in> set c2 \<Longrightarrow> pkg_uniqueid (u_pkg ?u a) = o2" for a
    using universe_uids_chain [of ?u] assms(1-3) by (auto simp: universe_ok_def)
  have g: "conflicts_grow ?u (j_universe ?j)" using r by (simp add: registers_def)
  have "has_conflict (u_pkg (j_universe ?j) a) o2 \<and> has_conflict (u_pkg (j_universe ?j) b) o1"
    if "a \<in> set c1" "b \<in> set c2" "is_installed (u_pkg ?u a) \<noteq> is_installed (u_pkg ?u b)" for a b
  proof -
    have "both_conflict (j_universe ?j) a b" using r that unfolding registers_def mixed_def by fastforce
    then show ?thesis using g uid that bd by (simp add: both_conflict_def conflicts_grow_def)
  qed
  then show ?thesis using run grow_ok [OF g assms(1)] r by (simp add: registers_def mixed_def)
qed

section \<open>What the check of the files finds\<close>

lemma integrity_insert_ok:
  assumes "foldl (integrity_insert puid) (rc, tbl, j) fs = (EPKG_OK, tbl', j')"
  shows "rc = EPKG_OK \<and> j' = j \<and> tbl' = tbl @ map (\<lambda>f. (f, puid)) fs \<and> distinct fs \<and> set fs \<inter> fst ` set tbl = {}"
  using assms
proof (induction fs arbitrary: rc tbl j)
  case (Cons f fs)
  show ?case
  proof (cases "hash_find f tbl")
    case None
    have "integrity_insert puid (rc, tbl, j) f = (rc, hash_add f puid tbl, j)" using None by (simp add: integrity_insert_def)
    then have "foldl (integrity_insert puid) (rc, hash_add f puid tbl, j) fs = (EPKG_OK, tbl', j')" using Cons.prems by simp
    from Cons.IH [OF this] None uh.find_None [of f tbl] show ?thesis by (auto simp: hash_add_def)
  next
    case (Some uid)
    have "integrity_insert puid (rc, tbl, j) f = (EPKG_CONFLICT, tbl, pkg_conflicts_add_from_pkgdb_remote puid uid j)"
      using Some by (simp add: integrity_insert_def)
    then have "foldl (integrity_insert puid) (EPKG_CONFLICT, tbl, pkg_conflicts_add_from_pkgdb_remote puid uid j) fs = (EPKG_OK, tbl', j')"
      using Cons.prems by simp
    from Cons.IH [OF this] show ?thesis by simp
  qed
qed simp

text \<open>The packages that the jobs install, with their files loaded, and the entries these make in the table.\<close>

definition checked_jobs :: "pkg_jobs \<Rightarrow> pkg_solved list" where
  "checked_jobs j = filter (\<lambda>s. s_type s \<noteq> PKG_SOLVED_DELETE \<and> s_type s \<noteq> PKG_SOLVED_UPGRADE_REMOVE
     \<and> (pkg_type (u_pkg (j_universe j) (s_item0 s)) = PKG_REMOTE \<or> pkg_type (u_pkg (j_universe j) (s_item0 s)) = PKG_FILE)) (j_jobs j)"

definition checked_pkg :: "env \<Rightarrow> pkg \<Rightarrow> pkg" where
  "checked_pkg e p = (if pkg_type p = PKG_REMOTE then e_ensure_loaded e p [PKG_LOAD_FILES, PKG_LOAD_DIRS] else p)"

definition file_entries :: "env \<Rightarrow> files_env \<Rightarrow> pkg_jobs_universe \<Rightarrow> pkg_solved list \<Rightarrow> integritycheck" where
  "file_entries e fe u ss = concat (map (\<lambda>s. let p = checked_pkg e (u_pkg u (s_item0 s))
     in map (\<lambda>f. (f, pkg_uniqueid p)) (fe_files fe p)) ss)"

lemma check_job_conflict:
  "foldl (check_job e fe) (rc, n, tbl, j) ss = (EPKG_OK, m, tbl', j') \<Longrightarrow> rc = EPKG_OK"
proof (induction ss arbitrary: rc n tbl j)
  case (Cons s ss)
  obtain rc1 n1 tbl1 j1 where one: "check_job e fe (rc, n, tbl, j) s = (rc1, n1, tbl1, j1)" by (metis prod_cases4)
  then have "rc1 = EPKG_OK" using Cons by simp
  with one show ?case by (auto simp: check_job_def Let_def split: if_splits prod.splits)
qed simp

lemma check_jobs_ok:
  assumes "foldl (check_job e fe) (rc, n, tbl, j) ss = (EPKG_OK, m, tbl', j')" "distinct (map s_item0 ss)" "distinct (map fst tbl)"
    "\<forall>s \<in> set ss. s_item0 s < length (u_store (j_universe j))"
  defines "cs \<equiv> filter (\<lambda>s. s_type s \<noteq> PKG_SOLVED_DELETE \<and> s_type s \<noteq> PKG_SOLVED_UPGRADE_REMOVE
     \<and> (pkg_type (u_pkg (j_universe j) (s_item0 s)) = PKG_REMOTE \<or> pkg_type (u_pkg (j_universe j) (s_item0 s)) = PKG_FILE)) ss"
  shows "tbl' = tbl @ file_entries e fe (j_universe j) cs \<and> distinct (map fst tbl') \<and> m = n + length cs"
  using assms(1-4) unfolding cs_def
proof (induction ss arbitrary: rc n tbl j)
  case Nil
  then show ?case by (simp add: file_entries_def)
next
  case (Cons s ss)
  let ?p = "u_pkg (j_universe j) (s_item0 s)"
  let ?P = "\<lambda>u s. s_type s \<noteq> PKG_SOLVED_DELETE \<and> s_type s \<noteq> PKG_SOLVED_UPGRADE_REMOVE
     \<and> (pkg_type (u_pkg u (s_item0 s)) = PKG_REMOTE \<or> pkg_type (u_pkg u (s_item0 s)) = PKG_FILE)"
  show ?case
  proof (cases "?P (j_universe j) s")
    case False
    then have "check_job e fe (rc, n, tbl, j) s = (rc, n, tbl, j)" by (auto simp: check_job_def Let_def)
    with Cons False show ?thesis by auto
  next
    case True
    let ?q = "checked_pkg e ?p" and ?j = "upd_universe (u_upd_pkg (s_item0 s) (\<lambda>_. checked_pkg e ?p)) j"
    obtain res tbl1 j1 where ap: "pkgdb_integrity_append fe ?q tbl ?j = (res, tbl1, j1)" by (metis prod_cases3)
    have one: "check_job e fe (rc, n, tbl, j) s = (if res \<noteq> EPKG_OK then (res, n, tbl1, j1) else (rc, n + 1, tbl1, j1))"
      using True ap by (auto simp: check_job_def Let_def pkg_conflicts_append_pkg_def checked_pkg_def)
    have "res = EPKG_OK" using Cons.prems(1) one check_job_conflict by (auto split: if_splits)
    then have ins: "j1 = ?j" "tbl1 = tbl @ map (\<lambda>f. (f, pkg_uniqueid ?q)) (fe_files fe ?q)"
      "distinct (fe_files fe ?q)" "set (fe_files fe ?q) \<inter> fst ` set tbl = {}"
      using ap integrity_insert_ok [of "pkg_uniqueid ?q" EPKG_OK tbl ?j "fe_files fe ?q" tbl1 j1] by (simp_all add: pkgdb_integrity_append_def)
    have d: "distinct (map fst tbl1)" using ins Cons.prems(3) by (auto simp: comp_def)
    have len: "length (u_store (j_universe ?j)) = length (u_store (j_universe j))" by (simp add: upd_universe_def u_upd_pkg_fields)
    have same: "u_pkg (j_universe ?j) (s_item0 t) = u_pkg (j_universe j) (s_item0 t)" if "t \<in> set ss" for t
      using that Cons.prems(2,4) u_pkg_upd [of "s_item0 t" "j_universe j" "s_item0 s"] by (auto simp: upd_universe_def image_iff)
    have fs: "filter (?P (j_universe ?j)) ss = filter (?P (j_universe j)) ss" using same by (intro filter_cong) auto
    have fe: "file_entries e fe (j_universe ?j) (filter (?P (j_universe j)) ss) = file_entries e fe (j_universe j) (filter (?P (j_universe j)) ss)"
      using same unfolding file_entries_def by (intro arg_cong [where f = concat] map_cong) auto
    have "foldl (check_job e fe) (rc, n + 1, tbl1, ?j) ss = (EPKG_OK, m, tbl', j')"
      using Cons.prems(1) one \<open>res = EPKG_OK\<close> ins(1) by simp
    note run = this
    have pre: "distinct (map s_item0 ss)" "\<forall>t \<in> set ss. s_item0 t < length (u_store (j_universe ?j))"
      using Cons.prems(2,4) len by simp_all
    have ih: "tbl' = tbl1 @ file_entries e fe (j_universe j) (filter (?P (j_universe j)) ss)"
      "distinct (map fst tbl')" "m = n + 1 + length (filter (?P (j_universe j)) ss)"
      using Cons.IH [OF run pre(1) d pre(2)] unfolding fs fe by blast+
    have "file_entries e fe (j_universe j) (s # filter (?P (j_universe j)) ss) =
        map (\<lambda>f. (f, pkg_uniqueid ?q)) (fe_files fe ?q) @ file_entries e fe (j_universe j) (filter (?P (j_universe j)) ss)"
      by (simp add: file_entries_def Let_def)
    moreover have "filter (?P (j_universe j)) (s # ss) = s # filter (?P (j_universe j)) ss" using True by simp
    ultimately show ?thesis using ih ins(2) by simp
  qed
qed

text \<open>
  C23: the check of the files is sound: when it reports no conflict, no path belongs to two of the packages that the
  jobs install, and a path that is installed already belongs to a package with the uid of the new owner.
\<close>

theorem check_conflicts_sound:
  assumes "pkg_jobs_check_conflicts fuel e fe [] j = Ret (EPKG_OK, tbl, j')"
    and "distinct (map s_item0 (j_jobs j))" "\<forall>s \<in> set (j_jobs j). s_item0 s < length (u_store (j_universe j))"
  shows "distinct (map fst (file_entries e fe (j_universe j) (checked_jobs j)))
    \<and> (\<forall>(path, luid) \<in> set (fe_installed fe). \<forall>(path', uid) \<in> set (file_entries e fe (j_universe j) (checked_jobs j)).
         path' = path \<longrightarrow> uid = luid)"
proof -
  obtain ret m tbl1 j1 where fold: "foldl (check_job e fe) (EPKG_OK, 0, [], j) (j_jobs j) = (ret, m, tbl1, j1)" by (metis prod_cases4)
  have "ret = EPKG_OK"
    using assms(1) fold by (cases "pkgdb_integrity_check fuel e fe tbl1 j1")
      (auto simp: pkg_jobs_check_conflicts_def pkg_conflicts_integrity_check_def split: if_splits)
  with fold have c0: "tbl1 = [] @ file_entries e fe (j_universe j) (checked_jobs j) \<and> distinct (map fst tbl1) \<and> m = 0 + length (checked_jobs j)"
    unfolding checked_jobs_def by (intro check_jobs_ok [OF _ assms(2) _ assms(3)]) simp_all
  have c: "tbl1 = file_entries e fe (j_universe j) (checked_jobs j)" using c0 by simp
  have d: "distinct (map fst tbl1)" using c0 by blast
  have m: "m = length (checked_jobs j)" using c0 by simp
  have "uid = luid" if "(path, luid) \<in> set (fe_installed fe)" "(path, uid) \<in> set tbl1" for path luid uid
  proof (cases "checked_jobs j = []")
    case True
    then show ?thesis using that c by (simp add: file_entries_def)
  next
    case False
    then have "m > 0" using m by simp
    then have "\<exists>j''. pkgdb_integrity_check fuel e fe tbl1 j1 = Ret (EPKG_OK, tbl, j'')"
      using assms(1) fold \<open>ret = EPKG_OK\<close> by (cases "pkgdb_integrity_check fuel e fe tbl1 j1")
        (auto simp: pkg_jobs_check_conflicts_def pkg_conflicts_integrity_check_def split: if_splits)
    then have "conflicting_files fe tbl1 = []"
      by (cases "run_fold (\<lambda>(o1, o2) j. pkg_conflicts_add_from_pkgdb_local fuel e o1 o2 j) (conflicting_files fe tbl1) j1")
        (auto simp: pkgdb_integrity_check_def Let_def split: if_splits)
    moreover have "hash_find path tbl1 = Some uid" using that(2) d by (simp add: hash_find_def)
    ultimately show ?thesis using that(1) by (force simp: conflicting_files_def split: if_splits)
  qed
  then show ?thesis using c d by auto
qed

section \<open>Examples\<close>

definition pair_universe :: pkg_jobs_universe where
  \<comment> \<open>\<open>x\<close> is installed; \<open>y\<close> is remote and names \<open>z\<close> as a conflict, which is remote, too\<close>
  "pair_universe = \<lparr>u_store =
      [\<lparr>it_pkg = demo_pkg\<lparr>pkg_uniqueid := ''x'', pkg_type := PKG_INSTALLED\<rparr>, it_jp = None, it_priority = 0\<rparr>,
       \<lparr>it_pkg = demo_pkg\<lparr>pkg_uniqueid := ''y'', pkg_conflicts := [\<lparr>conf_uniqueid = ''z'', conf_type = PKG_CONFLICT_ALL\<rparr>]\<rparr>,
         it_jp = None, it_priority = 0\<rparr>,
       \<lparr>it_pkg = demo_pkg\<lparr>pkg_uniqueid := ''z''\<rparr>, it_jp = None, it_priority = 0\<rparr>],
     u_items = [(''x'', [0]), (''y'', [1]), (''z'', [2])], u_seen = [], u_provides = [], u_uid_replaces = [], u_nitems = 3\<rparr>"

definition pair_jobs :: pkg_jobs where
  "pair_jobs = (pkg_jobs_new PKG_JOBS_INSTALL)\<lparr>j_universe := pair_universe, j_request_add := [(1, False), (2, False)],
     j_jobs := [\<lparr>s_item0 = 1, s_item1 = None, s_type = PKG_SOLVED_INSTALL, s_already_deleted = False\<rparr>,
                \<lparr>s_item0 = 2, s_item1 = None, s_type = PKG_SOLVED_INSTALL, s_already_deleted = False\<rparr>]\<rparr>"

theorem requests_resolved_witness:
  "\<not> (hash_find 1 (j_request_add (snd (pkg_conflicts_request_resolve lookup_meant pair_jobs))) = Some False
    \<and> hash_find 2 (j_request_add (snd (pkg_conflicts_request_resolve lookup_meant pair_jobs))) = Some False)"
proof -
  have c: "\<lparr>conf_uniqueid = ''z'', conf_type = PKG_CONFLICT_ALL\<rparr> \<in> set (pkg_conflicts (u_pkg (j_universe pair_jobs) 1))"
    "pkg_jobs_universe_find (j_universe pair_jobs) ''z'' = Some 2" by code_simp+
  from requests_resolved [OF prod.collapse [symmetric, of "pkg_conflicts_request_resolve lookup_meant pair_jobs"]]
  show ?thesis using c by fastforce
qed

theorem conflict_registered_witness:
  "\<exists>j'. pkg_conflicts_add_from_pkgdb_local 5 demo_env ''x'' ''y'' pair_jobs = Ret j'
    \<and> has_conflict (u_pkg (j_universe j') 0) ''y'' \<and> has_conflict (u_pkg (j_universe j') 1) ''x'' \<and> j_conflicts_registered j' = 1"
proof -
  have h: "universe_ok (j_universe pair_jobs)" "hash_find ''x'' (u_items (j_universe pair_jobs)) = Some [0]"
    "hash_find ''y'' (u_items (j_universe pair_jobs)) = Some [1]" "\<not> has_conflict (u_pkg (j_universe pair_jobs) (hd [0])) ''y''"
    by code_simp+
  have m: "is_installed (u_pkg (j_universe pair_jobs) 0)" "\<not> is_installed (u_pkg (j_universe pair_jobs) 1)"
    "j_conflicts_registered pair_jobs = 0" by code_simp+
  from conflict_registered [OF h, of 5 demo_env] m show ?thesis by auto
qed

definition pair_files :: files_env where
  "pair_files = \<lparr>fe_files = (\<lambda>p. [''/usr/local/bin/'' @ pkg_uniqueid p]), fe_installed = [(''/usr/local/bin/x'', ''x'')]\<rparr>"

definition pair_checked :: "epkg \<times> integritycheck \<times> pkg_jobs" where
  "pair_checked = the (the_run (pkg_jobs_check_conflicts 5 demo_env pair_files [] pair_jobs))"

theorem check_conflicts_sound_witness:
  "distinct (map fst (file_entries demo_env pair_files (j_universe pair_jobs) (checked_jobs pair_jobs)))"
proof -
  have "the_run (pkg_jobs_check_conflicts 5 demo_env pair_files [] pair_jobs) = Some (EPKG_OK, [], snd (snd pair_checked))"
    by code_simp
  then have "pkg_jobs_check_conflicts 5 demo_env pair_files [] pair_jobs = Ret (EPKG_OK, [], snd (snd pair_checked))"
    by (simp only: the_run_Some)
  moreover have "distinct (map s_item0 (j_jobs pair_jobs))"
    "\<forall>s \<in> set (j_jobs pair_jobs). s_item0 s < length (u_store (j_universe pair_jobs))" by code_simp+
  ultimately show ?thesis using check_conflicts_sound by blast
qed

end
