(* ===== verification/Jobs.thy ===== *)
theory Jobs
  imports Conflicts
begin

text \<open>
  From the arguments of a command to the requests of a job, \<open>libpkg/pkg_jobs.c\<close>: the patterns, the
  search for remote packages and upgrades, the packages to remove, and the functions
  \<open>jobs_solve_*\<close> that fill the universe and the requests. Parameters besides the databases of
  \<open>env\<close>: \<open>yesno\<close>, the answer of the user to a question; \<open>realpath\<close>; and \<open>open_pkg\<close>, what
  \<open>pkg_open\<close> reads from a package file.
\<close>

section \<open>Settings and patterns\<close>

definition pkg_jobs_set_flags :: "pkg_flags \<Rightarrow> pkg_jobs \<Rightarrow> pkg_jobs" where
  "pkg_jobs_set_flags flags j = j\<lparr>j_flags := flags\<rparr>"

definition pkg_jobs_set_repository :: "(string \<Rightarrow> bool) \<Rightarrow> string \<Rightarrow> pkg_jobs \<Rightarrow> epkg \<times> pkg_jobs" where
  \<comment> \<open>\<open>repo_known\<close> tells whether \<open>pkg_repo_find\<close> finds the repository\<close>
  "pkg_jobs_set_repository repo_known ident j =
     (if \<not> repo_known ident then (EPKG_FATAL, j) else (EPKG_OK, j\<lparr>j_reponame := Some ident\<rparr>))"

definition pkg_jobs_set_destdir :: "string option \<Rightarrow> pkg_jobs \<Rightarrow> epkg \<times> pkg_jobs" where
  "pkg_jobs_set_destdir dir j = (if dir = None then (EPKG_FATAL, j) else (EPKG_OK, j\<lparr>j_destdir := dir\<rparr>))"

definition pkg_jobs_destdir :: "pkg_jobs \<Rightarrow> string option" where
  "pkg_jobs_destdir j = j_destdir j"

definition job_pattern_new :: job_pattern where
  \<comment> \<open>\<open>calloc\<close>\<close>
  "job_pattern_new = \<lparr>jp_pattern = None, jp_path = None, jp_match = MATCH_ALL, jp_is_file = False\<rparr>"

definition package_suffixes :: "string list" where
  "package_suffixes = [''txz'', ''tbz'', ''tgz'', ''tar'']"

text \<open>The name of the file before its last dot is the pattern.\<close>

definition pkg_jobs_maybe_match_file :: "(string \<Rightarrow> string option) \<Rightarrow> job_pattern \<Rightarrow> string \<Rightarrow> bool \<times> job_pattern" where
  "pkg_jobs_maybe_match_file realpath jp pattern =
     (case strrchr CHR ''.'' pattern of
        Some dot \<Rightarrow>
          (if tl dot \<in> set package_suffixes then
             (case realpath pattern of
                Some pkg_path \<Rightarrow>
                  (True, jp\<lparr>jp_is_file := True, jp_path := Some pkg_path,
                     jp_pattern := Some (take (length pattern - length dot) pattern)\<rparr>)
              | None \<Rightarrow> (False, jp))
           else (False, jp))
      | None \<Rightarrow>
          (if pattern = ''-'' then
             (False, jp\<lparr>jp_is_file := True, jp_path := Some pattern, jp_pattern := Some pattern\<rparr>)
           else (False, jp)))"

definition job_pattern_of :: "(string \<Rightarrow> string option) \<Rightarrow> match_t \<Rightarrow> string \<Rightarrow> job_pattern" where
  "job_pattern_of realpath match arg =
     (case pkg_jobs_maybe_match_file realpath job_pattern_new arg of
        (True, jp) \<Rightarrow> jp
      | (False, jp) \<Rightarrow> jp\<lparr>jp_pattern := Some arg, jp_match := match\<rparr>)"

definition pkg_jobs_add :: "(string \<Rightarrow> string option) \<Rightarrow> match_t \<Rightarrow> string list \<Rightarrow> pkg_jobs \<Rightarrow> epkg \<times> pkg_jobs" where
  "pkg_jobs_add realpath match argv j =
     (if j_solved j \<noteq> 0 then (EPKG_FATAL, j)
      else (EPKG_OK, j\<lparr>j_patterns := j_patterns j @ map (job_pattern_of realpath match) argv
              @ (if argv = [] \<and> match = MATCH_ALL then [job_pattern_new\<lparr>jp_match := match\<rparr>] else [])\<rparr>))"

text \<open>
  The iterator over the jobs. It is \<open>None\<close> at the start; otherwise it is a position, and the first
  position marks the end. The result is the next iterator with the job's packages and type.
\<close>

definition pkg_jobs_iter :: "pkg_jobs \<Rightarrow> nat option \<Rightarrow> (nat option \<times> pkg \<times> pkg option \<times> pkg_solved_t) option" where
  "pkg_jobs_iter j iter =
     (if j_jobs j = [] then None
      else if iter = Some 0 then None
      else let k = (case iter of None \<Rightarrow> 0 | Some k \<Rightarrow> k); s = j_jobs j ! k
           in Some (Some (if Suc k < length (j_jobs j) then Suc k else 0),
                u_pkg (j_universe j) (s_item0 s), map_option (u_pkg (j_universe j)) (s_item1 s), s_type s))"

section \<open>Remote packages\<close>

text \<open>The order in which the pointers \<open>prev\<close> visit the chain of an item, from the item round to it.\<close>

definition u_backwards :: "pkg_jobs_universe \<Rightarrow> item_id \<Rightarrow> item_id list" where
  "u_backwards u i = (let c = u_chain_of u i
     in i # rev (takeWhile (\<lambda>k. k \<noteq> i) c) @ rev (tl (dropWhile (\<lambda>k. k \<noteq> i) c)))"

definition add_req_found :: "item_id option \<Rightarrow> pkg_jobs \<Rightarrow> pkg_jobs run" where
  "add_req_found jit j = (case jit of None \<Rightarrow> Crash | Some i \<Rightarrow> pkg_jobs_add_req i j)"

definition force_add ::
  "nat \<Rightarrow> env \<Rightarrow> pkg \<Rightarrow> item_id \<Rightarrow> pkg_jobs \<Rightarrow> (epkg \<times> item_id option \<times> pkg_jobs) run" where
  \<comment> \<open>a second item for a digest that has been seen at \<open>un\<close>\<close>
  "force_add fuel e rp un j =
     run_bind (pkg_jobs_universe_add_pkg e rp True True j) (\<lambda>(_, jit, j).
       let automatic = pkg_automatic (u_pkg (j_universe j) un);
           rp = rp\<lparr>pkg_automatic := automatic\<rparr>;
           j = (case jit of None \<Rightarrow> j | Some i \<Rightarrow> upd_universe (u_upd_pkg i (\<lambda>p. p\<lparr>pkg_automatic := automatic\<rparr>)) j)
       in run_bind (pkg_jobs_universe_process_item fuel e rp False j) (\<lambda>(rc, _, j). Ret (rc, jit, j)))"

definition remote_seen ::
  "nat \<Rightarrow> env \<Rightarrow> pkg \<Rightarrow> bool \<Rightarrow> item_id \<Rightarrow> pkg_jobs \<Rightarrow> (epkg \<times> item_id option \<times> pkg_jobs) run" where
  "remote_seen fuel e rp force un j =
     (let u = j_universe j; remote = (\<lambda>i. \<not> is_installed (u_pkg u i))
      in if \<not> force then
           (case find remote (u_backwards u un) of
              None \<Rightarrow> Ret (EPKG_INSTALLED, None, j)
            | Some jit \<Rightarrow> run_bind (pkg_jobs_add_req jit j) (\<lambda>j. Ret (EPKG_INSTALLED, None, j)))
         else
           (case find remote (u_tail u un) of
              None \<Rightarrow> run_bind (force_add fuel e rp un j) (\<lambda>(rc, jit, j).
                if rc = EPKG_OK then run_bind (add_req_found jit j) (\<lambda>j. Ret (EPKG_OK, jit, j))
                else Ret (EPKG_OK, jit, j))
            | Some jit \<Rightarrow> run_bind (need_upgrade_run rp (Some (u_pkg u jit))) (\<lambda>(need, rp).
                run_bind (if need then run_bind (force_add fuel e rp un j) (\<lambda>(_, jit, j). Ret (jit, j))
                          else Ret (Some jit, j)) (\<lambda>(jit, j).
                  run_bind (add_req_found jit j) (\<lambda>j. Ret (EPKG_OK, jit, j))))))"

text \<open>The loop over the packages of the uid that are in the universe.\<close>

datatype newer_scan = ScanInstalled | ScanRequest item_id | ScanBreak | ScanEnd

fun scan_newer :: "pkg_jobs_universe \<Rightarrow> bool \<Rightarrow> item_id list \<Rightarrow> pkg \<Rightarrow> (newer_scan \<times> pkg) run" where
  "scan_newer u force [] rp = Ret (ScanEnd, rp)"
| "scan_newer u force (rjit # rest) rp =
     run_bind (need_upgrade_run rp (Some (u_pkg u rjit))) (\<lambda>(need, rp).
       if need then Ret (ScanBreak, rp)
       else if is_installed (u_pkg u rjit) then
         (if \<not> force then Ret (ScanInstalled, rp) else scan_newer u force rest rp)
       else Ret (ScanRequest rjit, rp))"

definition find_or_local :: "nat \<Rightarrow> env \<Rightarrow> string \<Rightarrow> pkg_jobs \<Rightarrow> (item_id option \<times> pkg_jobs) run" where
  "find_or_local fuel e uid j =
     (case pkg_jobs_universe_find (j_universe j) uid of
        Some jit \<Rightarrow> Ret (Some jit, j)
      | None \<Rightarrow>
          if j_type j = PKG_JOBS_FETCH then Ret (None, j)
          else let (lp, j) = pkg_jobs_universe_get_local e j uid []
               in case lp of
                    None \<Rightarrow> Ret (None, j)
                  | Some lp \<Rightarrow> run_bind (pkg_jobs_universe_process_item fuel e lp True j) (\<lambda>(_, jit, j). Ret (jit, j)))"

definition request_processed :: "epkg \<times> item_id option \<times> pkg_jobs \<Rightarrow> (epkg \<times> item_id option \<times> pkg_jobs) run" where
  "request_processed r = (case r of (rc, jit, j) \<Rightarrow>
     if rc = EPKG_OK then run_bind (add_req_found jit j) (\<lambda>j. Ret (rc, jit, j)) else Ret (rc, None, j))"

definition remote_unseen ::
  "nat \<Rightarrow> env \<Rightarrow> pkg \<Rightarrow> bool \<Rightarrow> pkg_jobs \<Rightarrow> (epkg \<times> item_id option \<times> pkg_jobs) run" where
  "remote_unseen fuel e rp force j =
     run_bind (find_or_local fuel e (pkg_uniqueid rp) j) (\<lambda>(jit, j).
       run_bind (case jit of None \<Rightarrow> Ret (ScanBreak, rp)
                 | Some i \<Rightarrow> scan_newer (j_universe j) force (u_tail (j_universe j) i) rp) (\<lambda>(s, rp).
         case s of
           ScanInstalled \<Rightarrow> Ret (EPKG_INSTALLED, None, j)
         | ScanRequest rjit \<Rightarrow> run_bind (pkg_jobs_add_req rjit j) (\<lambda>j. Ret (EPKG_OK, None, j))
         | ScanBreak \<Rightarrow> run_bind (pkg_jobs_universe_process_item fuel e rp True j) request_processed
         | ScanEnd \<Rightarrow>
             run_bind (if force then run_bind (pkg_jobs_universe_add_pkg e rp True True j) (\<lambda>(_, jit, j). Ret (jit, j))
                       else Ret (jit, j)) (\<lambda>(jit, j).
               run_bind (pkg_jobs_universe_process_item fuel e rp False j) (\<lambda>(rc, _, j). request_processed (rc, jit, j)))))"

text \<open>The second component of the result is what is stored to \<open>*unit\<close>, if anything is.\<close>

definition pkg_jobs_process_remote_pkg ::
  "nat \<Rightarrow> env \<Rightarrow> pkg \<Rightarrow> bool \<Rightarrow> pkg_jobs \<Rightarrow> (epkg \<times> item_id option \<times> pkg_jobs) run" where
  "pkg_jobs_process_remote_pkg fuel e rp force j =
     (case with_digest e rp of
        None \<Rightarrow> Ret (EPKG_FATAL, None, j)
      | Some rp \<Rightarrow>
          (case pkg_jobs_universe_seen (j_universe j) (the (pkg_digest rp)) of
             Some un \<Rightarrow> remote_seen fuel e rp force un j
           | None \<Rightarrow> remote_unseen fuel e rp force j))"

section \<open>Upgrades\<close>

definition pkg_validate :: "env \<Rightarrow> pkg \<Rightarrow> epkg \<times> pkg" where
  \<comment> \<open>the uid is set in every package of the model\<close>
  "pkg_validate e p =
     (if (case pkg_digest p of None \<Rightarrow> True | Some md \<Rightarrow> \<not> pkg_checksum_is_valid md (length md)) then
        (case pkg_checksum_calculate (e_sha256 e) (e_digest_format e) p of
           None \<Rightarrow> (EPKG_FATAL, p) | Some q \<Rightarrow> (EPKG_OK, q))
      else (EPKG_OK, p))"

definition candidate_query :: "string \<Rightarrow> string \<Rightarrow> string" where
  "candidate_query uid fuid = uid @ '' has no direct installation candidates, change it to '' @ fuid @ ''? [Y/n]: ''"

definition remote_flags :: "pkg_load list" where
  "remote_flags = [PKG_LOAD_BASIC, PKG_LOAD_OPTIONS, PKG_LOAD_DEPS, PKG_LOAD_SHLIBS_REQUIRED,
     PKG_LOAD_SHLIBS_PROVIDED, PKG_LOAD_ANNOTATIONS, PKG_LOAD_CONFLICTS]"

text \<open>The loop stops at the first candidate that the user accepts.\<close>

fun try_candidates :: "nat \<Rightarrow> env \<Rightarrow> (string \<Rightarrow> bool) \<Rightarrow> string \<Rightarrow> pkg list \<Rightarrow> pkg_jobs \<Rightarrow> (epkg \<times> pkg_jobs) run" where
  "try_candidates fuel e yesno uid [] j = Ret (EPKG_FATAL, j)"
| "try_candidates fuel e yesno uid (p # ps) j =
     (let fuid = pkg_uniqueid p
      in if \<not> yesno (candidate_query uid fuid) then try_candidates fuel e yesno uid ps j
         else let (_, p) = pkg_validate e p
              in run_bind (case pkg_jobs_universe_find (j_universe j) uid of
                     None \<Rightarrow> Ret j
                   | Some unit \<Rightarrow> pkg_jobs_universe_change_uid fuel e unit fuid False j) (\<lambda>j.
                 run_bind (pkg_jobs_process_remote_pkg fuel e p False j) (\<lambda>(rc, _, j). Ret (rc, j))))"

definition pkg_jobs_try_remote_candidate ::
  "nat \<Rightarrow> env \<Rightarrow> (string \<Rightarrow> bool) \<Rightarrow> string \<Rightarrow> string \<Rightarrow> match_t \<Rightarrow> pkg_jobs \<Rightarrow> (epkg \<times> pkg_jobs) run" where
  "pkg_jobs_try_remote_candidate fuel e yesno pattern uid m j =
     try_candidates fuel e yesno uid (e_repo_query e (Some pattern) m (j_reponame j) remote_flags) j"

text \<open>\<open>%Q\<close> of \<open>sqlite3_mprintf\<close>: quotes around the string, quotes in it doubled.\<close>

definition sql_quote :: "string \<Rightarrow> string" where
  "sql_quote s = [CHR 0x27] @ concat (map (\<lambda>c. if c = CHR 0x27 then [c, c] else [c]) s) @ [CHR 0x27]"

definition name_condition :: "string \<Rightarrow> string" where
  "name_condition s = '' WHERE name REGEXP ('' @ sql_quote ''^'' @ '' || '' @ sql_quote s @ '' || ''
     @ sql_quote ''[0-9.]*$'' @ '')''"

definition strip_numbers :: "string \<Rightarrow> string" where
  \<comment> \<open>without the digits and dots at the end\<close>
  "strip_numbers s = rev (dropWhile (\<lambda>c. isdigit c \<or> c = CHR ''.'') (rev s))"

definition guess_without_numbers ::
  "nat \<Rightarrow> env \<Rightarrow> (string \<Rightarrow> bool) \<Rightarrow> string \<Rightarrow> string \<Rightarrow> pkg_jobs \<Rightarrow> (epkg \<times> pkg_jobs) run" where
  "guess_without_numbers fuel e yesno pos opattern j =
     (let cpy = strip_numbers pos
      in if cpy = pos then Ret (EPKG_FATAL, j)
         else run_bind (pkg_jobs_try_remote_candidate fuel e yesno cpy opattern MATCH_EXACT j) (\<lambda>(rc, j).
           if rc = EPKG_OK then Ret (EPKG_OK, j)
           else run_bind (pkg_jobs_try_remote_candidate fuel e yesno (name_condition cpy) opattern MATCH_CONDITION j)
             (\<lambda>(rc, j). Ret (if rc = EPKG_OK then EPKG_OK else EPKG_FATAL, j))))"

definition pkg_jobs_guess_upgrade_candidate ::
  "nat \<Rightarrow> env \<Rightarrow> (string \<Rightarrow> bool) \<Rightarrow> string \<Rightarrow> pkg_jobs \<Rightarrow> (epkg \<times> pkg_jobs) run" where
  "pkg_jobs_guess_upgrade_candidate fuel e yesno pattern j =
     (case strchr CHR ''/'' pattern of
        Some pos \<Rightarrow>
          (if tl pos \<noteq> [] then
             run_bind (pkg_jobs_try_remote_candidate fuel e yesno (tl pos) pattern MATCH_EXACT j) (\<lambda>(rc, j).
               if rc = EPKG_OK then Ret (EPKG_OK, j) else guess_without_numbers fuel e yesno (tl pos) pattern j)
           else guess_without_numbers fuel e yesno pattern pattern j)
      | None \<Rightarrow> guess_without_numbers fuel e yesno pattern pattern j)"

text \<open>The loop of \<open>pkg_jobs_find_upgrade\<close>: the last code and whether any package was taken.\<close>

fun upgrade_loop :: "nat \<Rightarrow> env \<Rightarrow> bool \<Rightarrow> pkg list \<Rightarrow> epkg \<Rightarrow> bool \<Rightarrow> pkg_jobs \<Rightarrow> (epkg \<times> bool \<times> pkg_jobs) run" where
  "upgrade_loop fuel e force [] rc found j = Ret (rc, found, j)"
| "upgrade_loop fuel e force (p # ps) rc found j =
     run_bind (pkg_jobs_process_remote_pkg fuel e p force j) (\<lambda>(rc, _, j).
       if rc = EPKG_FATAL then Ret (rc, found, j)
       else upgrade_loop fuel e force ps rc (found \<or> rc = EPKG_OK) j)"

text \<open>\<open>PKG_LOAD_BASIC\<close> is 0, so the call for a reverse dependency asks for the default attributes.\<close>

fun first_local_rdep :: "env \<Rightarrow> pkg_dep list \<Rightarrow> pkg_jobs \<Rightarrow> pkg option \<times> pkg_jobs" where
  "first_local_rdep e [] j = (None, j)"
| "first_local_rdep e (rdep # rdeps) j =
     (let (p, j) = pkg_jobs_universe_get_local e j (dep_uid rdep) []
      in if p \<noteq> None then (p, j) else first_local_rdep e rdeps j)"

definition upgrade_missing ::
  "nat \<Rightarrow> env \<Rightarrow> (string \<Rightarrow> bool) \<Rightarrow> string \<Rightarrow> pkg_jobs \<Rightarrow> (epkg \<times> pkg_jobs) run" where
  "upgrade_missing fuel e yesno pattern j =
     (let (p, j) = pkg_jobs_universe_get_local e j pattern [PKG_LOAD_BASIC, PKG_LOAD_RDEPS]
      in case p of
           None \<Rightarrow> Ret (EPKG_FATAL, j)
         | Some p \<Rightarrow> run_bind (pkg_jobs_universe_process fuel e p j) (\<lambda>(_, j).
             let (rdep, j) = first_local_rdep e (pkg_rdeps p) j
             in case rdep of
                  Some r \<Rightarrow> run_bind (pkg_jobs_universe_process fuel e r j) (\<lambda>(_, j). Ret (EPKG_END, j))
                | None \<Rightarrow> pkg_jobs_guess_upgrade_candidate fuel e yesno pattern j))"

text \<open>A null pattern that matches nothing is measured with \<open>strlen\<close>: \<open>Crash\<close>.\<close>

definition pkg_jobs_find_upgrade ::
  "nat \<Rightarrow> env \<Rightarrow> (string \<Rightarrow> bool) \<Rightarrow> string option \<Rightarrow> match_t \<Rightarrow> pkg_jobs \<Rightarrow> (epkg \<times> pkg_jobs) run" where
  "pkg_jobs_find_upgrade fuel e yesno pattern m j =
     run_bind (upgrade_loop fuel e (flag_force (j_flags j)) (e_repo_query e pattern m (j_reponame j) remote_flags)
                 EPKG_FATAL False j) (\<lambda>(rc, found, j).
       if \<not> found \<and> rc \<noteq> EPKG_INSTALLED then
         (case pattern of None \<Rightarrow> Crash | Some s \<Rightarrow> upgrade_missing fuel e yesno s j)
       else Ret (rc, j))"

section \<open>Patterns and files\<close>

definition pkg_jobs_check_local_pkg :: "env \<Rightarrow> string option \<Rightarrow> match_t \<Rightarrow> epkg" where
  "pkg_jobs_check_local_pkg e pattern m =
     (if e_query e pattern m [PKG_LOAD_BASIC, PKG_LOAD_ANNOTATIONS] = [] then EPKG_FATAL else EPKG_OK)"

text \<open>
  The result carries \<open>*got_local\<close>. When \<open>pkg_jobs_process_remote_pkg\<close> succeeds without storing the unit,
  the code writes through an uninitialised pointer: \<open>Crash\<close>.
\<close>

definition file_pattern ::
  "nat \<Rightarrow> env \<Rightarrow> (string \<Rightarrow> pkg option) \<Rightarrow> job_pattern \<Rightarrow> bool \<Rightarrow> pkg_jobs \<Rightarrow> (epkg \<times> bool \<times> pkg_jobs) run" where
  "file_pattern fuel e open_pkg jp got_local j =
     (case open_pkg (the (jp_path jp)) of
        None \<Rightarrow> Ret (EPKG_FATAL, got_local, j)
      | Some pkg \<Rightarrow>
          (case pkg_validate e pkg of
             (rc, pkg) \<Rightarrow>
               if rc \<noteq> EPKG_OK then Ret (EPKG_FATAL, got_local, j)
               else if j_type j = PKG_JOBS_UPGRADE \<and> pkg_jobs_check_local_pkg e (Some (pkg_name pkg)) MATCH_EXACT \<noteq> EPKG_OK
               then Ret (EPKG_FATAL, got_local, j)
               else run_bind (pkg_jobs_process_remote_pkg fuel e (pkg\<lparr>pkg_type := PKG_FILE\<rparr>) (flag_force (j_flags j)) j)
                 (\<lambda>(rc, unit, j).
                   if rc \<noteq> EPKG_OK then Ret (rc, True, j)
                   else case unit of
                          None \<Rightarrow> Crash
                        | Some i \<Rightarrow> Ret (rc, True, upd_universe (u_upd_item i (\<lambda>it. it\<lparr>it_jp := Some jp\<rparr>)) j))))"

definition pkg_jobs_find_remote_pattern ::
  "nat \<Rightarrow> env \<Rightarrow> (string \<Rightarrow> bool) \<Rightarrow> (string \<Rightarrow> pkg option) \<Rightarrow> job_pattern \<Rightarrow> bool \<Rightarrow> pkg_jobs \<Rightarrow> (epkg \<times> bool \<times> pkg_jobs) run" where
  "pkg_jobs_find_remote_pattern fuel e yesno open_pkg jp got_local j =
     (if \<not> jp_is_file jp then
        (if j_type j = PKG_JOBS_UPGRADE \<and> pkg_jobs_check_local_pkg e (jp_pattern jp) (jp_match jp) \<noteq> EPKG_OK
         then Ret (EPKG_FATAL, got_local, j)
         else run_bind (pkg_jobs_find_upgrade fuel e yesno (jp_pattern jp) (jp_match jp) j) (\<lambda>(rc, j). Ret (rc, False, j)))
      else file_pattern fuel e open_pkg jp got_local j)"

section \<open>A newer pkg\<close>

definition own_uids :: "string list" where
  "own_uids = [''pkg~ports-mgmt/pkg'', ''pkg~ports-mgmt/pkg-devel'', ''pkg-devel~ports-mgmt/pkg-devel'']"

fun find_own :: "env \<Rightarrow> string list \<Rightarrow> pkg_jobs \<Rightarrow> (string \<times> pkg) option \<times> pkg_jobs" where
  "find_own e [] j = (None, j)"
| "find_own e (uid # uids) j =
     (let (p, j) = pkg_jobs_universe_get_local e j uid []
      in case p of None \<Rightarrow> find_own e uids j | Some p \<Rightarrow> (Some (uid, p), j))"

definition new_pkg_version :: "nat \<Rightarrow> env \<Rightarrow> (string \<Rightarrow> bool) \<Rightarrow> pkg_jobs \<Rightarrow> (bool \<times> pkg_jobs) run" where
  "new_pkg_version fuel e yesno j =
     (let old_flags = j_flags j;
          j = j\<lparr>j_flags := old_flags\<lparr>flag_force := False, flag_recursive := False\<rparr>\<rparr>;
          (p, j) = find_own e own_uids j
      in case p of
           None \<Rightarrow> Ret (False, j\<lparr>j_flags := old_flags\<rparr>)
         | Some (uid, p) \<Rightarrow> run_bind (pkg_jobs_universe_process fuel e p j) (\<lambda>(_, j).
             run_bind (pkg_jobs_find_upgrade fuel e yesno (Some uid) MATCH_EXACT j) (\<lambda>(rc, j).
               Ret (rc = EPKG_OK, j\<lparr>j_flags := old_flags\<rparr>))))"

section \<open>Automatic packages\<close>

text \<open>
  Is every package that requires this one automatic? The rest of the loop after a package that is not is skipped;
  so is what follows once a nested call has failed. A missing package is read through a null pointer:
  \<open>Crash\<close>. \<open>fuel\<close> bounds the depth of the recursion, which nothing in the code does.
\<close>

definition automatic_unit ::
  "nat \<Rightarrow> env \<Rightarrow> string \<Rightarrow> pkg_jobs \<Rightarrow> (pkg option \<times> pkg_jobs) run" where
  \<comment> \<open>the package of a reverse dependency when it is automatic\<close>
  "automatic_unit fuel e uid j =
     (case pkg_jobs_universe_find (j_universe j) uid of
        Some unit \<Rightarrow>
          (let npkg = u_pkg (j_universe j) unit
           in Ret (if pkg_automatic npkg then Some npkg else None, j))
      | None \<Rightarrow>
          (let (npkg, j) = pkg_jobs_universe_get_local e j uid [PKG_LOAD_BASIC, PKG_LOAD_RDEPS, PKG_LOAD_ANNOTATIONS]
           in case npkg of
                None \<Rightarrow> Crash
              | Some np \<Rightarrow>
                  if \<not> pkg_automatic np then Ret (None, j)
                  else run_bind (pkg_jobs_universe_process fuel e np j) (\<lambda>(rc, j).
                    Ret (if rc \<noteq> EPKG_OK then None else Some np, j))))"

fun automatic_loop ::
  "(pkg \<Rightarrow> pkg_jobs \<Rightarrow> (bool \<times> pkg_jobs) run) \<Rightarrow> nat \<Rightarrow> env \<Rightarrow> pkg_dep list \<Rightarrow> pkg_jobs \<Rightarrow> (bool \<times> pkg_jobs) run" where
  "automatic_loop rec fuel e [] j = Ret (True, j)"
| "automatic_loop rec fuel e (d # ds) j =
     run_bind (automatic_unit fuel e (dep_uid d) j) (\<lambda>(npkg, j).
       case npkg of
         None \<Rightarrow> Ret (False, j)
       | Some np \<Rightarrow> run_bind (rec np j) (\<lambda>(ret, j). if ret then automatic_loop rec fuel e ds j else Ret (False, j)))"

fun pkg_jobs_test_automatic :: "nat \<Rightarrow> nat \<Rightarrow> env \<Rightarrow> pkg \<Rightarrow> pkg_jobs \<Rightarrow> (bool \<times> pkg_jobs) run" where
  "pkg_jobs_test_automatic 0 fuel e p j = NoFuel"
| "pkg_jobs_test_automatic (Suc n) fuel e p j = automatic_loop (pkg_jobs_test_automatic n fuel e) fuel e (pkg_rdeps p) j"

definition set_automatic :: "bool \<Rightarrow> pkg_jobs_universe \<Rightarrow> item_id \<Rightarrow> pkg_jobs_universe" where
  "set_automatic automatic u i = u_upd_pkg i (\<lambda>p. p\<lparr>pkg_automatic := automatic\<rparr>) u"

definition propagate_chain :: "pkg_jobs \<Rightarrow> pkg_jobs_universe \<Rightarrow> item_id list \<Rightarrow> pkg_jobs_universe" where
  "propagate_chain j u chain =
     (if length chain = 1 then
        (let unit = hd chain
         in if hash_find unit (j_request_add j) = None \<and> \<not> is_installed (u_pkg u unit) then set_automatic True u unit
            else if j_type j = PKG_JOBS_INSTALL then set_automatic False u unit else u)
      else
        (case find (\<lambda>i. is_installed (u_pkg u i)) chain of
           None \<Rightarrow> u
         | Some local \<Rightarrow> foldl (set_automatic (pkg_automatic (u_pkg u local))) u
             (filter (\<lambda>i. \<not> is_installed (u_pkg u i)) chain)))"

definition pkg_jobs_propagate_automatic :: "pkg_jobs \<Rightarrow> pkg_jobs" where
  "pkg_jobs_propagate_automatic j =
     upd_universe (\<lambda>u. foldl (propagate_chain j) u (map snd (u_items u))) j"

section \<open>Reasons of removals\<close>

text \<open>The request that made a package go: its own, or one of a package that it depends on. \<open>n\<close> is 129 less the level.\<close>

fun first_some :: "('a \<Rightarrow> 'b option) \<Rightarrow> 'a list \<Rightarrow> 'b option" where
  "first_some f [] = None"
| "first_some f (x # xs) = (case f x of Some y \<Rightarrow> Some y | None \<Rightarrow> first_some f xs)"

fun pkg_jobs_find_deinstall_request :: "nat \<Rightarrow> pkg_jobs \<Rightarrow> item_id \<Rightarrow> item_id option" where
  "pkg_jobs_find_deinstall_request 0 j item = None"
| "pkg_jobs_find_deinstall_request (Suc n) j item =
     (if hash_find item (j_request_delete j) \<noteq> None then Some item
      else first_some (\<lambda>d. case pkg_jobs_universe_find (j_universe j) (dep_uid d) of
                 None \<Rightarrow> None | Some dep_item \<Rightarrow> pkg_jobs_find_deinstall_request n j dep_item)
             (pkg_deps (u_pkg (j_universe j) item)))"

definition deinstall_reason :: "pkg_jobs \<Rightarrow> pkg_solved \<Rightarrow> pkg_jobs" where
  "deinstall_reason j sit =
     (case pkg_jobs_find_deinstall_request 129 j (s_item0 sit) of
        None \<Rightarrow> j
      | Some jreq \<Rightarrow>
          if jreq = s_item0 sit then j
          else let req_pkg = u_pkg (j_universe j) jreq
               in upd_universe (u_upd_pkg (s_item0 sit) (\<lambda>p. p\<lparr>pkg_reason :=
                    Some (''depends on '' @ pkg_name req_pkg @ ''-'' @ pkg_version req_pkg)\<rparr>)) j)"

definition pkg_jobs_set_deinstall_reasons :: "pkg_jobs \<Rightarrow> pkg_jobs" where
  "pkg_jobs_set_deinstall_reasons j = foldl deinstall_reason j (j_jobs j)"

section \<open>The requests of a job\<close>

definition local_flags :: "pkg_load list" where
  "local_flags = [PKG_LOAD_BASIC, PKG_LOAD_RDEPS, PKG_LOAD_DEPS, PKG_LOAD_ANNOTATIONS]"

definition deinstall_pkg :: "nat \<Rightarrow> env \<Rightarrow> pkg \<Rightarrow> pkg_jobs \<Rightarrow> pkg_jobs run" where
  "deinstall_pkg fuel e pkg j =
     run_bind (pkg_jobs_universe_process_item fuel e pkg True j) (\<lambda>(_, unit, j).
       if pkg_is_locked pkg then Ret j else add_req_found unit j)"

definition jobs_solve_deinstall :: "nat \<Rightarrow> env \<Rightarrow> pkg_jobs \<Rightarrow> (epkg \<times> pkg_jobs) run" where
  "jobs_solve_deinstall fuel e j =
     run_bind (run_fold (\<lambda>jp. run_fold (deinstall_pkg fuel e) (e_query e (jp_pattern jp) (jp_match jp) local_flags))
                 (j_patterns j) j)
       (\<lambda>j. Ret (EPKG_OK, j\<lparr>j_solved := 1\<rparr>))"

definition autoremove_pkg :: "nat \<Rightarrow> env \<Rightarrow> pkg \<Rightarrow> pkg_jobs \<Rightarrow> pkg_jobs run" where
  "autoremove_pkg fuel e pkg j =
     run_bind (case pkg_jobs_universe_find (j_universe j) (pkg_uniqueid pkg) of
         None \<Rightarrow> run_bind (pkg_jobs_universe_process_item fuel e pkg True j) (\<lambda>(_, unit, j). Ret (unit, pkg, j))
       | Some unit \<Rightarrow> Ret (Some unit, u_pkg (j_universe j) unit, j)) (\<lambda>(unit, pkg, j).
       if pkg_is_locked pkg then Ret j
       else run_bind (pkg_jobs_test_automatic fuel fuel e pkg j) (\<lambda>(automatic, j).
         if automatic then add_req_found unit j else Ret j))"

definition jobs_solve_autoremove :: "nat \<Rightarrow> env \<Rightarrow> pkg_jobs \<Rightarrow> (epkg \<times> pkg_jobs) run" where
  "jobs_solve_autoremove fuel e j =
     run_bind (run_fold (autoremove_pkg fuel e) (e_query e (Some '' WHERE automatic=1 '') MATCH_CONDITION local_flags) j)
       (\<lambda>j. Ret (EPKG_OK, j\<lparr>j_solved := 1\<rparr>))"

text \<open>\<open>None\<close> is \<open>strcmp\<close> with the missing digest of a remote package.\<close>

definition pkg_jobs_check_remote_candidate :: "env \<Rightarrow> pkg_jobs \<Rightarrow> pkg \<Rightarrow> bool option" where
  "pkg_jobs_check_remote_candidate e j pkg =
     (case pkg_digest pkg of
        None \<Rightarrow> Some True
      | Some digest \<Rightarrow>
          if digest = '''' then Some True
          else let rs = e_repo_query e (Some (pkg_uniqueid pkg)) MATCH_EXACT (j_reponame j) [PKG_LOAD_BASIC]
               in if \<exists>p \<in> set rs. pkg_digest p = None then None
                  else Some (\<exists>p \<in> set rs. pkg_digest p \<noteq> Some digest))"

fun install_candidates :: "env \<Rightarrow> pkg_jobs \<Rightarrow> pkg list \<Rightarrow> int list \<Rightarrow> int list run" where
  "install_candidates e j [] candidates = Ret candidates"
| "install_candidates e j (pkg # pkgs) candidates =
     (if flag_force (j_flags j) then install_candidates e j pkgs (pkg_rowid pkg # candidates)
      else case pkg_jobs_check_remote_candidate e j pkg of
             None \<Rightarrow> Crash
           | Some c \<Rightarrow> install_candidates e j pkgs (if c then pkg_rowid pkg # candidates else candidates))"

definition pkg_jobs_find_install_candidates :: "env \<Rightarrow> pkg_jobs \<Rightarrow> int list run" where
  "pkg_jobs_find_install_candidates e j = install_candidates e j (e_query e None MATCH_ALL [PKG_LOAD_BASIC]) []"

definition upgrade_flags :: "pkg_load list" where
  "upgrade_flags = [PKG_LOAD_BASIC, PKG_LOAD_OPTIONS, PKG_LOAD_DEPS, PKG_LOAD_SHLIBS_REQUIRED, PKG_LOAD_ANNOTATIONS,
     PKG_LOAD_CONFLICTS]"

definition upgrade_installed :: "nat \<Rightarrow> env \<Rightarrow> (string \<Rightarrow> bool) \<Rightarrow> pkg \<Rightarrow> pkg_jobs \<Rightarrow> pkg_jobs run" where
  "upgrade_installed fuel e yesno pkg j =
     run_bind (pkg_jobs_find_upgrade fuel e yesno (Some (pkg_uniqueid pkg)) MATCH_EXACT j) (\<lambda>(_, j). Ret j)"

definition upgrade_candidate :: "nat \<Rightarrow> env \<Rightarrow> (string \<Rightarrow> bool) \<Rightarrow> int \<Rightarrow> pkg_jobs \<Rightarrow> pkg_jobs run" where
  "upgrade_candidate fuel e yesno rowid j =
     run_fold (upgrade_installed fuel e yesno) (e_query e (Some ('' WHERE id='' @ show_int rowid)) MATCH_CONDITION upgrade_flags) j"

fun install_patterns ::
  "nat \<Rightarrow> env \<Rightarrow> (string \<Rightarrow> bool) \<Rightarrow> (string \<Rightarrow> pkg option) \<Rightarrow> job_pattern list \<Rightarrow> bool \<Rightarrow> pkg_jobs \<Rightarrow> (epkg \<times> bool \<times> pkg_jobs) run" where
  "install_patterns fuel e yesno open_pkg [] got_local j = Ret (EPKG_OK, got_local, j)"
| "install_patterns fuel e yesno open_pkg (jp # jps) got_local j =
     run_bind (pkg_jobs_find_remote_pattern fuel e yesno open_pkg jp got_local j) (\<lambda>(rc, got_local, j).
       if rc = EPKG_FATAL then Ret (EPKG_FATAL, got_local, j)
       else install_patterns fuel e yesno open_pkg jps got_local j)"

definition process_request :: "nat \<Rightarrow> env \<Rightarrow> item_id \<Rightarrow> pkg_jobs \<Rightarrow> pkg_jobs run" where
  "process_request fuel e item j =
     run_bind (pkg_jobs_universe_process fuel e (u_pkg (j_universe j) item) j) (\<lambda>(_, j). Ret j)"

text \<open>\<open>HASH_ITER\<close> over the requests, which processing them does not change.\<close>

definition process_all_requests :: "nat \<Rightarrow> env \<Rightarrow> pkg_jobs \<Rightarrow> pkg_jobs run" where
  "process_all_requests fuel e j = run_fold (process_request fuel e) (map fst (j_request_add j)) j"

definition fill_universe ::
  "nat \<Rightarrow> env \<Rightarrow> (string \<Rightarrow> bool) \<Rightarrow> (string \<Rightarrow> pkg option) \<Rightarrow> pkg_jobs \<Rightarrow> (epkg \<times> pkg_jobs) run" where
  "fill_universe fuel e yesno open_pkg j =
     (if j_solved j \<noteq> 0 then run_bind (process_all_requests fuel e j) (\<lambda>j. Ret (EPKG_OK, j))
      else if j_patterns j = [] then
        run_bind (pkg_jobs_find_install_candidates e j) (\<lambda>candidates.
          run_bind (run_fold (upgrade_candidate fuel e yesno) candidates j) (\<lambda>j. Ret (EPKG_OK, j)))
      else
        run_bind (install_patterns fuel e yesno open_pkg (j_patterns j) False j) (\<lambda>(rc, got_local, j).
          if rc = EPKG_FATAL then Ret (EPKG_FATAL, j)
          else if got_local then run_bind (process_all_requests fuel e j) (\<lambda>j. Ret (EPKG_OK, j))
          else Ret (EPKG_OK, j)))"

definition finish_requests :: "pkg_jobs \<Rightarrow> epkg \<times> pkg_jobs" where
  "finish_requests j =
     (let (rc, j) = pkg_conflicts_request_resolve lookup_coded j
      in if rc \<noteq> EPKG_OK then (EPKG_FATAL, j)
         else (EPKG_OK, (\<lambda>j. j\<lparr>j_solved := j_solved j + 1\<rparr>) (pkg_jobs_propagate_automatic j)))"

definition jobs_solve_install_upgrade ::
  "nat \<Rightarrow> env \<Rightarrow> (string \<Rightarrow> bool) \<Rightarrow> (string \<Rightarrow> pkg option) \<Rightarrow> pkg_jobs \<Rightarrow> (epkg \<times> pkg_jobs) run" where
  "jobs_solve_install_upgrade fuel e yesno open_pkg j =
     run_bind (if \<not> flag_skip_install (j_flags j) \<and> flag_pkg_version_test (j_flags j)
               then new_pkg_version fuel e yesno j else Ret (False, j)) (\<lambda>(newer, j).
       if newer then Ret (EPKG_OK, j\<lparr>j_solved := j_solved j + 1\<rparr>)
       else if j_patterns j = [] \<and> j_type j = PKG_JOBS_INSTALL then Ret (EPKG_FATAL, j)
       else run_bind (fill_universe fuel e yesno open_pkg j) (\<lambda>(rc, j).
         if rc \<noteq> EPKG_OK then Ret (rc, j) else Ret (finish_requests j)))"

definition fetch_installed :: "nat \<Rightarrow> env \<Rightarrow> (string \<Rightarrow> bool) \<Rightarrow> pkg \<Rightarrow> pkg_jobs \<Rightarrow> pkg_jobs run" where
  "fetch_installed fuel e yesno pkg j =
     (if pkg_is_locked pkg then Ret j else upgrade_installed fuel e yesno pkg j)"

definition fetch_pattern :: "nat \<Rightarrow> env \<Rightarrow> (string \<Rightarrow> bool) \<Rightarrow> job_pattern \<Rightarrow> pkg_jobs \<Rightarrow> pkg_jobs run" where
  "fetch_pattern fuel e yesno jp j =
     run_bind (pkg_jobs_find_upgrade fuel e yesno (jp_pattern jp) (jp_match jp) j) (\<lambda>(_, j). Ret j)"

definition jobs_solve_fetch :: "nat \<Rightarrow> env \<Rightarrow> (string \<Rightarrow> bool) \<Rightarrow> pkg_jobs \<Rightarrow> (epkg \<times> pkg_jobs) run" where
  "jobs_solve_fetch fuel e yesno j =
     run_bind (if flag_upgrades_for_installed (j_flags j)
               then run_fold (fetch_installed fuel e yesno) (e_query e None MATCH_ALL [PKG_LOAD_BASIC]) j
               else run_fold (fetch_pattern fuel e yesno) (j_patterns j) j)
       (\<lambda>j. Ret (EPKG_OK, j\<lparr>j_solved := j_solved j + 1\<rparr>))"

section \<open>Iterating over the jobs\<close>

fun iterate_jobs :: "nat \<Rightarrow> pkg_jobs \<Rightarrow> nat option \<Rightarrow> (pkg \<times> pkg option \<times> pkg_solved_t) list" where
  \<comment> \<open>the loop of a caller, \<open>while (pkg_jobs_iter(jobs, &iter, &new, &old, &type))\<close>\<close>
  "iterate_jobs 0 j iter = []"
| "iterate_jobs (Suc n) j iter = (case pkg_jobs_iter j iter of
     None \<Rightarrow> [] | Some (iter, new, old, type) \<Rightarrow> (new, old, type) # iterate_jobs n j iter)"

definition job_view :: "pkg_jobs \<Rightarrow> pkg_solved \<Rightarrow> pkg \<times> pkg option \<times> pkg_solved_t" where
  "job_view j s = (u_pkg (j_universe j) (s_item0 s), map_option (u_pkg (j_universe j)) (s_item1 s), s_type s)"

lemma iterate_from:
  "0 < k \<Longrightarrow> k < length (j_jobs j) \<Longrightarrow> length (j_jobs j) - k < n \<Longrightarrow>
     iterate_jobs n j (Some k) = map (job_view j) (drop k (j_jobs j))"
proof (induction n arbitrary: k)
  case (Suc n)
  have ne: "j_jobs j \<noteq> []" using Suc.prems by auto
  have d: "drop k (j_jobs j) = j_jobs j ! k # drop (Suc k) (j_jobs j)" using Suc.prems(2) by (simp add: Cons_nth_drop_Suc)
  show ?case
  proof (cases "Suc k < length (j_jobs j)")
    case True
    then show ?thesis using Suc ne d by (simp add: pkg_jobs_iter_def job_view_def Let_def)
  next
    case False
    then have "n = 0 \<or> iterate_jobs n j (Some 0) = []" using ne by (cases n) (simp_all add: pkg_jobs_iter_def)
    then show ?thesis using False Suc.prems ne d by (auto simp: pkg_jobs_iter_def job_view_def Let_def)
  qed
qed simp

text \<open>
  a loop over \<open>pkg_jobs_iter\<close> that starts with a null iterator sees every job exactly once, in the order of
  the jobs, and ends.
\<close>

theorem jobs_iter_all:
  assumes "length (j_jobs j) < n"
  shows "iterate_jobs n j None = map (job_view j) (j_jobs j)"
proof (cases "j_jobs j")
  case Nil
  then show ?thesis by (cases n) (simp_all add: pkg_jobs_iter_def)
next
  case (Cons s ss)
  obtain m where m: "n = Suc m" using assms by (cases n) auto
  show ?thesis
  proof (cases "ss = []")
    case True
    then have "iterate_jobs m j (Some 0) = []" using Cons by (cases m) (simp_all add: pkg_jobs_iter_def)
    then show ?thesis using True Cons m by (simp add: pkg_jobs_iter_def job_view_def Let_def)
  next
    case False
    then have "iterate_jobs m j (Some 1) = map (job_view j) (drop 1 (j_jobs j))"
      using Cons assms m by (intro iterate_from) auto
    then show ?thesis using False Cons m by (simp add: pkg_jobs_iter_def job_view_def Let_def)
  qed
qed

section \<open>Upgrades do not go backwards\<close>

lemma lists_differ_refl: "(\<And>x. eq x x) \<Longrightarrow> \<not> lists_differ eq xs xs"
  by (induction xs) auto

lemma version_cmp_self: "pkg_version_cmp v v = 0"
  by (rule three_way_cmp.cmp_self [OF version.three_way_cmp_axioms])

lemma need_upgrade_blocked:
  "pkg_is_locked lp \<or> pkg_version_cmp (pkg_version lp) (pkg_version rp) > 0 \<Longrightarrow> pkg_jobs_need_upgrade rp (Some lp) = Some (False, rp)"
  by (cases "pkg_is_locked lp") (simp_all add: pkg_jobs_need_upgrade_def Let_def)

lemma need_upgrade_frame: "pkg_jobs_need_upgrade rp (Some lp) = Some (b, rp') \<Longrightarrow> \<exists>r. rp' = rp\<lparr>pkg_reason := r\<rparr>"
proof -
  have self: "\<exists>r. rp = rp\<lparr>pkg_reason := r\<rparr>" by (rule exI [of _ "pkg_reason rp"]) simp
  have leaf: "\<exists>r. rp\<lparr>pkg_reason := s\<rparr> = rp\<lparr>pkg_reason := r\<rparr>" for s by blast
  have "case pkg_jobs_need_upgrade rp (Some lp) of None \<Rightarrow> True | Some (b, p) \<Rightarrow> \<exists>r. p = rp\<lparr>pkg_reason := r\<rparr>"
    unfolding pkg_jobs_need_upgrade_def option.case Let_def
    by (simp only: option.case prod.case self leaf simp_thms if_split split: if_split)
  then show "pkg_jobs_need_upgrade rp (Some lp) = Some (b, rp') \<Longrightarrow> ?thesis" by simp
qed

text \<open>
  C18: an upgrade is asked for only when the installed package is not locked and the remote version is not older;
  and once the remote package has been installed from its repository it is not asked for again.
\<close>

theorem need_upgrade_sound:
  "(pkg_jobs_need_upgrade rp (Some lp) = Some (True, rp') \<longrightarrow>
     \<not> pkg_is_locked lp \<and> pkg_version_cmp (pkg_version lp) (pkg_version rp) \<le> 0
     \<and> rp' = rp\<lparr>pkg_reason := pkg_reason rp'\<rparr>)
   \<and> pkg_jobs_need_upgrade rp (Some (rp\<lparr>pkg_type := PKG_INSTALLED, pkg_repository := pkg_reponame rp\<rparr>)) = Some (False, rp)"
proof
  show "pkg_jobs_need_upgrade rp (Some lp) = Some (True, rp') \<longrightarrow>
     \<not> pkg_is_locked lp \<and> pkg_version_cmp (pkg_version lp) (pkg_version rp) \<le> 0
     \<and> rp' = rp\<lparr>pkg_reason := pkg_reason rp'\<rparr>"
    using need_upgrade_blocked [of lp rp] need_upgrade_frame [of rp lp True rp'] by fastforce
  show "pkg_jobs_need_upgrade rp (Some (rp\<lparr>pkg_type := PKG_INSTALLED, pkg_repository := pkg_reponame rp\<rparr>)) = Some (False, rp)"
    unfolding pkg_jobs_need_upgrade_def
    by (cases "pkg_reponame rp") (simp_all add: Let_def version_cmp_self lists_differ_refl pkg_is_locked_def)
qed

section \<open>Reasons\<close>

definition dep_edge :: "pkg_jobs \<Rightarrow> (item_id \<times> item_id) set" where
  "dep_edge j = {(i, k). \<exists>d \<in> set (pkg_deps (u_pkg (j_universe j) i)). pkg_jobs_universe_find (j_universe j) (dep_uid d) = Some k}"

lemma first_some_Some: "first_some f xs = Some y \<Longrightarrow> \<exists>x \<in> set xs. f x = Some y"
  by (induction xs) (auto split: option.splits)

lemma first_some_None: "first_some f xs = None \<longleftrightarrow> (\<forall>x \<in> set xs. f x = None)"
  by (induction xs) (auto split: option.splits)

lemma deinstall_request_path:
  "pkg_jobs_find_deinstall_request n j i = Some r \<Longrightarrow>
     hash_find r (j_request_delete j) \<noteq> None \<and> (\<exists>k < n. (i, r) \<in> dep_edge j ^^ k)"
proof (induction n arbitrary: i)
  case (Suc n)
  show ?case
  proof (cases "hash_find i (j_request_delete j) = None")
    case False
    then show ?thesis using Suc.prems by (auto intro!: exI [of _ 0])
  next
    case True
    then obtain d m where d: "d \<in> set (pkg_deps (u_pkg (j_universe j) i))" "pkg_jobs_universe_find (j_universe j) (dep_uid d) = Some m"
      "pkg_jobs_find_deinstall_request n j m = Some r"
      using Suc.prems by (auto dest!: first_some_Some split: option.splits)
    then obtain k where k: "k < n" "(m, r) \<in> dep_edge j ^^ k" "hash_find r (j_request_delete j) \<noteq> None" using Suc.IH by blast
    have "(i, m) \<in> dep_edge j" using d by (auto simp: dep_edge_def)
    then have "(i, r) \<in> dep_edge j ^^ Suc k" using k(2) by (rule relpow_Suc_I2)
    with k show ?thesis by (intro conjI exI [of _ "Suc k"]) simp_all
  qed
qed simp

lemma deinstall_request_found:
  "k < n \<Longrightarrow> (i, r) \<in> dep_edge j ^^ k \<Longrightarrow> hash_find r (j_request_delete j) \<noteq> None \<Longrightarrow>
     pkg_jobs_find_deinstall_request n j i \<noteq> None"
proof (induction n arbitrary: i k)
  case (Suc n)
  show ?case
  proof (cases k)
    case 0
    then show ?thesis using Suc.prems by simp
  next
    case (Suc m)
    then obtain h where h: "(i, h) \<in> dep_edge j" "(h, r) \<in> dep_edge j ^^ m" using Suc.prems(2) Suc relpow_Suc_D2 [of i r m "dep_edge j"] by blast
    then have "pkg_jobs_find_deinstall_request n j h \<noteq> None" using Suc.IH [of m h] Suc Suc.prems by simp
    moreover obtain d where d: "d \<in> set (pkg_deps (u_pkg (j_universe j) i))" "pkg_jobs_universe_find (j_universe j) (dep_uid d) = Some h"
      using h(1) by (auto simp: dep_edge_def)
    ultimately have "first_some (\<lambda>d. case pkg_jobs_universe_find (j_universe j) (dep_uid d) of
        None \<Rightarrow> None | Some dep_item \<Rightarrow> pkg_jobs_find_deinstall_request n j dep_item) (pkg_deps (u_pkg (j_universe j) i)) \<noteq> None"
      unfolding first_some_None by (intro notI) (drule (1) bspec, simp)
    then show ?thesis by simp
  qed
qed simp

text \<open>
  C19: What is found as the reason of a removal is a request to delete, of the package itself when there is one and else of a package that it leads
  to over at most 128 dependencies; and nothing is found exactly when there is no such request.
\<close>

theorem deinstall_request_exact:
  "case pkg_jobs_find_deinstall_request 129 j i of
     Some r \<Rightarrow> hash_find r (j_request_delete j) \<noteq> None \<and> (\<exists>k \<le> 128. (i, r) \<in> dep_edge j ^^ k)
       \<and> (r = i \<or> hash_find i (j_request_delete j) = None)
   | None \<Rightarrow> \<not> (\<exists>r k. k \<le> 128 \<and> (i, r) \<in> dep_edge j ^^ k \<and> hash_find r (j_request_delete j) \<noteq> None)"
proof -
  have n: "k < 129 \<longleftrightarrow> k \<le> 128" for k :: nat by linarith
  have own: "pkg_jobs_find_deinstall_request 129 j i = Some i" if "hash_find i (j_request_delete j) \<noteq> None"
    using that pkg_jobs_find_deinstall_request.simps(2) [of 128 j i] by simp
  show ?thesis
  proof (cases "pkg_jobs_find_deinstall_request 129 j i")
    case None
    then show ?thesis using deinstall_request_found [of _ 129 i _ j] unfolding n None option.case by blast
  next
    case (Some r)
    then show ?thesis using deinstall_request_path [OF Some] own unfolding n Some option.case by (metis option.inject)
  qed
qed

section \<open>A cycle of automatic packages\<close>

definition cycle_pkg :: "string \<Rightarrow> string \<Rightarrow> pkg" where
  "cycle_pkg a b = demo_pkg\<lparr>pkg_uniqueid := a, pkg_type := PKG_INSTALLED, pkg_automatic := True, pkg_rdeps := [dep_on b]\<rparr>"

definition cycle_jobs :: pkg_jobs where
  "cycle_jobs = (pkg_jobs_new PKG_JOBS_AUTOREMOVE)\<lparr>j_universe := \<lparr>u_store =
      [\<lparr>it_pkg = cycle_pkg ''a'' ''b'', it_jp = None, it_priority = 0\<rparr>, \<lparr>it_pkg = cycle_pkg ''b'' ''a'', it_jp = None, it_priority = 0\<rparr>],
      u_items = [(''a'', [0]), (''b'', [1])], u_seen = [], u_provides = [], u_uid_replaces = [], u_nitems = 2\<rparr>\<rparr>"

text \<open>
  When of some automatic packages each is required first by another of them, \<open>pkg_jobs_test_automatic\<close> calls itself for ever: no
  depth of recursion is enough.
\<close>

theorem automatic_cycle_diverges:
  assumes "\<forall>p \<in> P. \<exists>d ds unit. pkg_rdeps p = d # ds \<and> pkg_jobs_universe_find (j_universe j) (dep_uid d) = Some unit
      \<and> pkg_automatic (u_pkg (j_universe j) unit) \<and> u_pkg (j_universe j) unit \<in> P"
    and "p \<in> P"
  shows "pkg_jobs_test_automatic n fuel e p j = NoFuel"
  using assms(2)
proof (induction n arbitrary: p)
  case (Suc n)
  obtain d ds unit where d: "pkg_rdeps p = d # ds" "pkg_jobs_universe_find (j_universe j) (dep_uid d) = Some unit"
    "pkg_automatic (u_pkg (j_universe j) unit)" "u_pkg (j_universe j) unit \<in> P"
    using assms(1) Suc.prems by blast
  then show ?case using Suc.IH [OF d(4)] by (simp add: automatic_unit_def Let_def)
qed simp

theorem automatic_cycle_diverges_witness:
  "pkg_jobs_test_automatic 100 5 e (cycle_pkg ''a'' ''b'') cycle_jobs = NoFuel"
proof (rule automatic_cycle_diverges [where P = "{cycle_pkg ''a'' ''b'', cycle_pkg ''b'' ''a''}"])
  have f: "pkg_jobs_universe_find (j_universe cycle_jobs) ''a'' = Some 0" "pkg_jobs_universe_find (j_universe cycle_jobs) ''b'' = Some (Suc 0)"
    "u_pkg (j_universe cycle_jobs) 0 = cycle_pkg ''a'' ''b''" "u_pkg (j_universe cycle_jobs) (Suc 0) = cycle_pkg ''b'' ''a''" by code_simp+
  have r: "pkg_rdeps (cycle_pkg a b) = [dep_on b]" "pkg_automatic (cycle_pkg a b)" "dep_uid (dep_on b) = b" for a b
    by (simp_all add: cycle_pkg_def dep_on_def)
  show "\<forall>p \<in> {cycle_pkg ''a'' ''b'', cycle_pkg ''b'' ''a''}. \<exists>d ds unit. pkg_rdeps p = d # ds
      \<and> pkg_jobs_universe_find (j_universe cycle_jobs) (dep_uid d) = Some unit
      \<and> pkg_automatic (u_pkg (j_universe cycle_jobs) unit) \<and> u_pkg (j_universe cycle_jobs) unit \<in> {cycle_pkg ''a'' ''b'', cycle_pkg ''b'' ''a''}"
    using f r by simp
qed simp

theorem jobs_iter_all_witness:
  "iterate_jobs 3 prio_jobs None = map (job_view prio_jobs) (j_jobs prio_jobs) \<and> length (iterate_jobs 3 prio_jobs None) = 2"
proof -
  have l: "length (j_jobs prio_jobs) = 2" by code_simp
  then show ?thesis using jobs_iter_all [of prio_jobs 3] by simp
qed

theorem need_upgrade_sound_witness:
  "pkg_jobs_need_upgrade remote_a (Some local_a) = Some (True, remote_a)
   \<and> pkg_version_cmp (pkg_version local_a) (pkg_version remote_a) \<le> 0"
proof -
  have "pkg_jobs_need_upgrade remote_a (Some local_a) = Some (True, remote_a)" by code_simp
  then show ?thesis using need_upgrade_sound [of remote_a local_a remote_a] by simp
qed

section \<open>Propagation of the automatic flag\<close>

text \<open>What the flag of an item \<open>i\<close> of the chain \<open>c\<close> becomes.\<close>

definition automatic_after :: "pkg_jobs \<Rightarrow> item_id list \<Rightarrow> item_id \<Rightarrow> bool" where
  "automatic_after j c i =
     (let u = j_universe j; old = pkg_automatic (u_pkg u i); locals = filter (\<lambda>k. is_installed (u_pkg u k)) c
      in if length c = 1 then
           (if \<not> is_installed (u_pkg u i) \<and> hash_find i (j_request_add j) = None then True
            else if j_type j = PKG_JOBS_INSTALL then False else old)
         else if is_installed (u_pkg u i) \<or> locals = [] then old
         else pkg_automatic (u_pkg u (hd locals)))"

lemma find_hd_filter: "find P xs = (case filter P xs of [] \<Rightarrow> None | x # _ \<Rightarrow> Some x)"
  by (induction xs) auto

lemma is_installed_automatic [simp]: "is_installed (p\<lparr>pkg_automatic := b\<rparr>) = is_installed p"
  by (simp add: is_installed_def)

lemma set_automatic_facts:
  "u_items (set_automatic b u i) = u_items u" "length (u_store (set_automatic b u i)) = length (u_store u)"
  "k < length (u_store u) \<Longrightarrow> u_pkg (set_automatic b u i) k = (if k = i then (u_pkg u k)\<lparr>pkg_automatic := b\<rparr> else u_pkg u k)"
  by (simp_all add: set_automatic_def u_upd_pkg_fields u_pkg_upd)

lemma set_automatics_facts:
  "u_items (foldl (set_automatic b) u is) = u_items u" "length (u_store (foldl (set_automatic b) u is)) = length (u_store u)"
  "k < length (u_store u) \<Longrightarrow>
     u_pkg (foldl (set_automatic b) u is) k = (if k \<in> set is then (u_pkg u k)\<lparr>pkg_automatic := b\<rparr> else u_pkg u k)"
  by (induction "is" arbitrary: u) (simp_all add: set_automatic_facts)

lemma propagate_chain_facts:
  assumes "\<forall>i \<in> set c. i < length (u_store u)" "\<And>i. i \<in> set c \<Longrightarrow> u_pkg u i = u_pkg (j_universe j) i" "c \<noteq> []"
  shows "u_items (propagate_chain j u c) = u_items u" "length (u_store (propagate_chain j u c)) = length (u_store u)"
    "k < length (u_store u) \<Longrightarrow> u_pkg (propagate_chain j u c) k =
       (if k \<in> set c then (u_pkg u k)\<lparr>pkg_automatic := automatic_after j c k\<rparr> else u_pkg u k)"
proof -
  have pk: "(u_pkg u k)\<lparr>pkg_automatic := pkg_automatic (u_pkg u k)\<rparr> = u_pkg u k" for k by simp
  have inst: "filter (\<lambda>i. is_installed (u_pkg u i)) c = filter (\<lambda>i. is_installed (u_pkg (j_universe j) i)) c"
    using assms(2) by (intro filter_cong) auto
  show "u_items (propagate_chain j u c) = u_items u" "length (u_store (propagate_chain j u c)) = length (u_store u)"
    by (auto simp: propagate_chain_def Let_def set_automatic_facts set_automatics_facts split: option.split)
  assume k: "k < length (u_store u)"
  show "u_pkg (propagate_chain j u c) k = (if k \<in> set c then (u_pkg u k)\<lparr>pkg_automatic := automatic_after j c k\<rparr> else u_pkg u k)"
  proof (cases "length c = 1")
    case True
    then obtain i where c: "c = [i]" by (auto simp: length_Suc_conv)
    show ?thesis using k assms(1) assms(2) [of i]
      by (auto simp: c propagate_chain_def automatic_after_def Let_def set_automatic_facts)
  next
    case False
    show ?thesis
    proof (cases "filter (\<lambda>i. is_installed (u_pkg u i)) c")
      case Nil
      then show ?thesis using False assms(2) [of k] inst
        by (simp add: propagate_chain_def find_hd_filter automatic_after_def Let_def)
    next
      case (Cons l ls)
      then have "l \<in> set c" by (metis filter_is_subset list.set_intros(1) subsetD)
      then show ?thesis using False Cons assms(2) [of k] assms(2) [of l] inst k
        by (auto simp: propagate_chain_def find_hd_filter automatic_after_def Let_def set_automatics_facts)
    qed
  qed
qed

text \<open>
  C20: the automatic flags after \<open>pkg_jobs_propagate_automatic\<close>. A remote package that is alone under its uid and not
  requested is automatic; one that is requested is not, in an install job; a remote package that comes beside
  an installed one has the flag of the installed one. Nothing else of a package changes.
\<close>

theorem automatic_propagated:
  assumes "universe_wf (j_universe j)" "(uid, c) \<in> set (u_items (j_universe j))" "i \<in> set c"
  shows "u_pkg (j_universe (pkg_jobs_propagate_automatic j)) i = (u_pkg (j_universe j) i)\<lparr>pkg_automatic := automatic_after j c i\<rparr>"
proof -
  let ?u = "j_universe j"
  have wf: "distinct (concat (map snd (u_items ?u)))" "\<forall>d \<in> set (map snd (u_items ?u)). d \<noteq> []"
    "\<forall>d \<in> set (map snd (u_items ?u)). \<forall>i \<in> set d. i < length (u_store ?u)"
    using assms(1) by (auto simp: universe_wf_def)
  have gen: "length (u_store (foldl (propagate_chain j) u cs)) = length (u_store ?u)
      \<and> (\<forall>i < length (u_store ?u). u_pkg (foldl (propagate_chain j) u cs) i =
          (case find (\<lambda>d. i \<in> set d) cs of None \<Rightarrow> u_pkg u i | Some d \<Rightarrow> (u_pkg ?u i)\<lparr>pkg_automatic := automatic_after j d i\<rparr>))"
    if "distinct (concat cs)" "\<forall>d \<in> set cs. d \<noteq> []" "\<forall>d \<in> set cs. \<forall>i \<in> set d. i < length (u_store ?u)"
      "length (u_store u) = length (u_store ?u)" "\<forall>i \<in> set (concat cs). u_pkg u i = u_pkg ?u i" for cs u
    using that
  proof (induction cs arbitrary: u)
    case (Cons d cs)
    let ?v = "propagate_chain j u d"
    have d: "\<forall>i \<in> set d. i < length (u_store u)" "\<And>i. i \<in> set d \<Longrightarrow> u_pkg u i = u_pkg ?u i" "d \<noteq> []" using Cons.prems by auto
    note f = propagate_chain_facts [OF d]
    have "\<forall>i \<in> set (concat cs). u_pkg ?v i = u_pkg ?u i"
    proof
      fix i assume i: "i \<in> set (concat cs)"
      then have "i < length (u_store u)" "i \<notin> set d" using Cons.prems by auto
      then show "u_pkg ?v i = u_pkg ?u i" using f(3) [of i] i Cons.prems(5) by simp
    qed
    then have ih: "length (u_store (foldl (propagate_chain j) ?v cs)) = length (u_store ?u)
      \<and> (\<forall>i < length (u_store ?u). u_pkg (foldl (propagate_chain j) ?v cs) i =
          (case find (\<lambda>d. i \<in> set d) cs of None \<Rightarrow> u_pkg ?v i | Some d \<Rightarrow> (u_pkg ?u i)\<lparr>pkg_automatic := automatic_after j d i\<rparr>))"
      using Cons.IH [of ?v] Cons.prems f(2) by simp
    have "u_pkg (foldl (propagate_chain j) ?v cs) i =
        (case find (\<lambda>d. i \<in> set d) (d # cs) of None \<Rightarrow> u_pkg u i | Some d \<Rightarrow> (u_pkg ?u i)\<lparr>pkg_automatic := automatic_after j d i\<rparr>)"
      if i: "i < length (u_store ?u)" for i
    proof (cases "i \<in> set d")
      case True
      then have "find (\<lambda>d. i \<in> set d) cs = None" using Cons.prems(1) by (auto simp: find_None_iff)
      then show ?thesis using ih i True f(3) [of i] d(2) Cons.prems(4) by simp
    next
      case False
      then show ?thesis using ih i f(3) [of i] Cons.prems(4) by (simp split: option.split)
    qed
    with ih show ?case by simp
  qed simp
  obtain e where e: "find (\<lambda>d. i \<in> set d) (map snd (u_items ?u)) = Some e"
    using assms(2,3) by (cases "find (\<lambda>d. i \<in> set d) (map snd (u_items ?u))") (force simp: find_None_iff)+
  then have "e \<in> snd ` set (u_items ?u)" "i \<in> set e" by (auto simp: find_Some_iff)
  then have "e = c" by (rule universe_chain_unique [OF assms(1,2,3)])
  moreover have "i < length (u_store ?u)" using universe_wf_chain [OF assms] .
  ultimately show ?thesis using gen [OF wf, of ?u] e by (simp add: pkg_jobs_propagate_automatic_def upd_universe_def)
qed

lemma automatic_propagated_witness:
  "u_pkg (j_universe (pkg_jobs_propagate_automatic prio_jobs)) 0
    = (u_pkg prio_universe 0)\<lparr>pkg_automatic := automatic_after prio_jobs [0] 0\<rparr>"
proof -
  have h: "universe_wf (j_universe prio_jobs)" "(''a'', [0]) \<in> set (u_items (j_universe prio_jobs))" "j_universe prio_jobs = prio_universe"
    by code_simp+
  show ?thesis using automatic_propagated [OF h(1,2), of 0] h(3) by simp
qed

end
