(* ===== verification/Fetch.thy ===== *)
theory Fetch
  imports Package
begin

text \<open>
  Downloading packages, \<open>libpkg/repo/binary/fetch.c\<close>: the name of a package in the cache, the fetch with its checks of
  size and checksum and its single retry, and the functions of \<open>libpkg/utils.c\<close> and \<open>libpkg/fetch.c\<close> it calls.
  A file system is a table from paths to nodes; two paths are the same file only when they are the same string, and only the
  last component of a path is a symbolic link. Parameters: the network, SHA-256 and the permissions.
\<close>

section \<open>Files\<close>

datatype node = Reg string | Sym string | Dir nat

type_synonym fsys = "(string, node) uthash"

definition fs_put :: "string \<Rightarrow> node \<Rightarrow> fsys \<Rightarrow> fsys" where
  "fs_put path n f = hash_add path n (hash_del path f)"

definition strip_slashes :: "string \<Rightarrow> string" where
  "strip_slashes s = rev (dropWhile (\<lambda>c. c = CHR ''/'') (rev s))"

definition dirname :: "string \<Rightarrow> string" where
  "dirname path =
     (if path = [] then ''.''
      else let s = strip_slashes path
           in if s = [] then ''/''
              else let d = rev (dropWhile (\<lambda>c. c \<noteq> CHR ''/'') (rev s))
                   in if d = [] then ''.'' else if strip_slashes d = [] then ''/'' else strip_slashes d)"

text \<open>More than \<open>MAXSYMLINKS\<close> links are an error.\<close>

definition MAXSYMLINKS :: nat where
  "MAXSYMLINKS = 32"

fun resolve :: "nat \<Rightarrow> fsys \<Rightarrow> string \<Rightarrow> string option" where
  "resolve n f path =
     (case hash_find path f of
        Some (Sym t) \<Rightarrow>
          (case n of 0 \<Rightarrow> None | Suc m \<Rightarrow> resolve m f (if hd (t @ [CHR 0x00]) = CHR ''/'' then t else dirname path @ ''/'' @ t))
      | _ \<Rightarrow> Some path)"

declare resolve.simps [simp del]

definition node_at :: "fsys \<Rightarrow> string \<Rightarrow> node option" where
  "node_at f path = (case resolve MAXSYMLINKS f path of None \<Rightarrow> None | Some q \<Rightarrow> hash_find q f)"

definition stat_size :: "fsys \<Rightarrow> string \<Rightarrow> int option" where
  "stat_size f path = (case node_at f path of
      Some (Reg c) \<Rightarrow> Some (int (length c)) | Some (Dir n) \<Rightarrow> Some (int n) | _ \<Rightarrow> None)"

definition unlink :: "string \<Rightarrow> fsys \<Rightarrow> fsys" where
  \<comment> \<open>not of a directory; the result of the call is never used\<close>
  "unlink path f = (case hash_find path f of Some (Dir _) \<Rightarrow> f | _ \<Rightarrow> hash_del path f)"

text \<open>What the fetch depends on; the network may answer differently on the retry.\<close>

record fetch_env =
  fe_cachedir :: string
  fe_url :: "string option"
  fe_net :: "bool \<Rightarrow> string \<Rightarrow> epkg \<times> string"
  fe_sha256 :: "string \<Rightarrow> string"
  fe_mkdir :: "string \<Rightarrow> bool"
  fe_creat :: "string \<Rightarrow> bool"
  fe_symlink :: "string \<Rightarrow> bool"
  fe_rename :: "string \<Rightarrow> bool"
  fe_dirsize :: nat

definition mkdir_paths :: "string \<Rightarrow> string list" where
  "mkdir_paths path = map (\<lambda>i. take i path) (filter (\<lambda>i. path ! i = CHR ''/'') [1..<length path]) @ [path]"

fun mkdir_all :: "fetch_env \<Rightarrow> string list \<Rightarrow> fsys \<Rightarrow> epkg \<times> fsys" where
  "mkdir_all e [] f = (EPKG_OK, f)"
| "mkdir_all e (path # paths) f =
     (if hash_find path f \<noteq> None then mkdir_all e paths f
      else if fe_mkdir e path then mkdir_all e paths (fs_put path (Dir (fe_dirsize e)) f)
      else (EPKG_FATAL, f))"

definition mkdirs :: "fetch_env \<Rightarrow> string \<Rightarrow> fsys \<Rightarrow> epkg \<times> fsys" where
  "mkdirs e path f = mkdir_all e (mkdir_paths (path_buf path)) f"

definition sha256_file :: "fetch_env \<Rightarrow> string \<Rightarrow> fsys \<Rightarrow> string option" where
  \<comment> \<open>\<open>None\<close> is \<open>EPKG_FATAL\<close>\<close>
  "sha256_file e path f = (case node_at f path of Some (Reg c) \<Rightarrow> Some (fe_sha256 e c) | _ \<Rightarrow> None)"

definition pkg_fetch_file :: "fetch_env \<Rightarrow> bool \<Rightarrow> string \<Rightarrow> string \<Rightarrow> fsys \<Rightarrow> epkg \<times> fsys" where
  "pkg_fetch_file e retry url dest f =
     (case resolve MAXSYMLINKS f dest of
        None \<Rightarrow> (EPKG_FATAL, f)
      | Some q \<Rightarrow>
          (case hash_find q f of
             Some (Dir _) \<Rightarrow> (EPKG_FATAL, f)
           | _ \<Rightarrow>
               if \<not> fe_creat e q then (EPKG_FATAL, f)
               else let (rc, c) = fe_net e retry url; f = fs_put q (Reg c) f
                    in if rc \<noteq> EPKG_OK then (rc, unlink dest f) else (EPKG_OK, f)))"

section \<open>The cache\<close>

definition PKG_FILE_CKSUM_CHARS :: nat where
  "PKG_FILE_CKSUM_CHARS = 10"

definition short_checksum :: "pkg \<Rightarrow> string" where
  "short_checksum p = take PKG_FILE_CKSUM_CHARS (pkg_cksum p)"

definition cached_base :: "fetch_env \<Rightarrow> pkg \<Rightarrow> string" where
  \<comment> \<open>\<open>"%S/%n-%v-%z"\<close>\<close>
  "cached_base e p = fe_cachedir e @ ''/'' @ pkg_name p @ ''-'' @ pkg_version p @ ''-'' @ short_checksum p"

definition pkg_repo_binary_get_cached_name :: "fetch_env \<Rightarrow> pkg \<Rightarrow> fsys \<Rightarrow> epkg \<times> string" where
  "pkg_repo_binary_get_cached_name e p f =
     (case (case pkg_repopath p of None \<Rightarrow> None | Some repourl \<Rightarrow> strrchr CHR ''.'' repourl) of
        Some ext \<Rightarrow>
          if node_at f (path_buf (cached_base e p)) \<noteq> None then (EPKG_FATAL, path_buf (cached_base e p))
          else (EPKG_OK, path_buf (cached_base e p @ ext))
      | None \<Rightarrow> (EPKG_OK, path_buf (cached_base e p)))"

definition link_name :: "pkg \<Rightarrow> string \<Rightarrow> string \<Rightarrow> string" where
  "link_name p fname dir = path_buf (dir @ ''/'' @ pkg_name p @ ''-'' @ pkg_version p
     @ (case strrchr CHR ''.'' fname of Some ext \<Rightarrow> ext | None \<Rightarrow> []))"

definition pkg_repo_binary_create_symlink :: "fetch_env \<Rightarrow> pkg \<Rightarrow> string \<Rightarrow> string \<Rightarrow> fsys \<Rightarrow> epkg \<times> fsys" where
  "pkg_repo_binary_create_symlink e p fname dir f =
     (let link_dest = link_name p fname dir;
          link_dest_tmp = path_buf (link_dest @ ''.new'');
          f = unlink link_dest_tmp f
      in case strrchr CHR ''/'' fname of
           None \<Rightarrow> (EPKG_FATAL, f)
         | Some dest_fname \<Rightarrow>
             if hash_find link_dest_tmp f \<noteq> None \<or> \<not> fe_symlink e link_dest_tmp then (EPKG_FATAL, f)
             else let f = fs_put link_dest_tmp (Sym (tl dest_fname)) f
                  in case hash_find link_dest f of
                       Some (Dir _) \<Rightarrow> (EPKG_FATAL, unlink link_dest_tmp f)
                     | _ \<Rightarrow>
                         if \<not> fe_rename e link_dest then (EPKG_FATAL, unlink link_dest_tmp f)
                         else (EPKG_OK, fs_put link_dest (Sym (tl dest_fname)) (hash_del link_dest_tmp f)))"

section \<open>The fetch\<close>

definition repo_path :: "pkg \<Rightarrow> string" where
  \<comment> \<open>\<open>%R\<close>, or \<open>%s\<close> of the path in the repository\<close>
  "repo_path p = (case pkg_repopath p of Some r \<Rightarrow> r | None \<Rightarrow> ''(null)'')"

definition fetch_dest :: "fetch_env \<Rightarrow> bool \<Rightarrow> string option \<Rightarrow> pkg \<Rightarrow> fsys \<Rightarrow> string" where
  "fetch_dest e mirror destdir p f =
     (if mirror then path_buf ((case destdir of Some d \<Rightarrow> d | None \<Rightarrow> fe_cachedir e) @ ''/'' @ repo_path p)
      else snd (pkg_repo_binary_get_cached_name e p f))"

definition package_url :: "string \<Rightarrow> pkg \<Rightarrow> string" where
  "package_url packagesite p = path_buf (if last packagesite = CHR ''/'' then packagesite @ repo_path p else packagesite @ ''/'' @ repo_path p)"

text \<open>
  The part before the label \<open>checksum\<close>: to go on with the check, to clean up, or to return at once.
\<close>

datatype fetch_step = Check bool | Cleanup epkg | Return string

definition fetch_missing :: "fetch_env \<Rightarrow> pkg \<Rightarrow> bool \<Rightarrow> bool \<Rightarrow> string \<Rightarrow> fsys \<Rightarrow> fetch_step \<times> fsys" where
  "fetch_missing e p already_tried mirror dest f =
     (let (rc, f) = mkdirs e (dirname dest) f
      in if rc \<noteq> EPKG_OK then (Cleanup rc, f)
         else case fe_url e of
           None \<Rightarrow> (Cleanup EPKG_END, f)
         | Some packagesite \<Rightarrow>
             if packagesite = [] then (Cleanup EPKG_END, f)
             else let url = package_url packagesite p
                  in if \<not> mirror \<and> strncaseeq packagesite ''file://'' 7 then (Return (drop 7 url), f)
                     else let (rc, f) = pkg_fetch_file e already_tried url dest f
                          in if rc \<noteq> EPKG_OK then (Cleanup rc, f) else (Check True, f))"

text \<open>The label \<open>cleanup\<close>; the link is made when the directories were.\<close>

definition fetch_cleanup :: "fetch_env \<Rightarrow> pkg \<Rightarrow> bool \<Rightarrow> bool \<Rightarrow> string \<Rightarrow> epkg \<Rightarrow> fsys \<Rightarrow> epkg \<times> pkg \<times> fsys" where
  "fetch_cleanup e p mirror dirs dest rc f =
     (if rc \<noteq> EPKG_OK then (rc, p, unlink dest f)
      else if \<not> mirror \<and> dirs then (rc, p, snd (pkg_repo_binary_create_symlink e p dest (dirname dest) f))
      else (rc, p, f))"

function pkg_repo_binary_try_fetch ::
  "fetch_env \<Rightarrow> pkg \<Rightarrow> bool \<Rightarrow> bool \<Rightarrow> string option \<Rightarrow> fsys \<Rightarrow> epkg \<times> pkg \<times> fsys" where
  "pkg_repo_binary_try_fetch e p already_tried mirror destdir f =
     (let dest = fetch_dest e mirror destdir p f;
          present = node_at f dest \<noteq> None;
          (step, f) = (if present then (Check False, f) else fetch_missing e p already_tried mirror dest f)
      in case step of
           Return path \<Rightarrow> (EPKG_OK, p\<lparr>pkg_repopath := Some path\<rparr>, f)
         | Cleanup rc \<Rightarrow> fetch_cleanup e p mirror (\<not> present) dest rc f
         | Check fetched \<Rightarrow>
             if stat_size f dest \<noteq> Some (pkg_pkgsize p) then
               (if already_tried then fetch_cleanup e p mirror (\<not> present) dest EPKG_FATAL f
                else pkg_repo_binary_try_fetch e p True mirror destdir (unlink dest f))
             else case sha256_file e dest f of
               None \<Rightarrow> fetch_cleanup e p mirror (\<not> present) dest EPKG_FATAL f
             | Some cksum \<Rightarrow>
                 if cksum \<noteq> pkg_cksum p then
                   (if already_tried \<or> fetched then fetch_cleanup e p mirror (\<not> present) dest EPKG_FATAL f
                    else pkg_repo_binary_try_fetch e p True mirror destdir (unlink dest f))
                 else fetch_cleanup e p mirror (\<not> present) dest EPKG_OK f)"
  by pat_completeness auto

termination
  by (relation "measure (\<lambda>(e, p, already_tried, mirror, destdir, f). if already_tried then 0 else 1)") auto

declare pkg_repo_binary_try_fetch.simps [simp del]

definition pkg_repo_binary_fetch :: "fetch_env \<Rightarrow> pkg \<Rightarrow> fsys \<Rightarrow> epkg \<times> pkg \<times> fsys" where
  "pkg_repo_binary_fetch e p f = pkg_repo_binary_try_fetch e p False False None f"

definition pkg_repo_binary_mirror :: "fetch_env \<Rightarrow> pkg \<Rightarrow> string option \<Rightarrow> fsys \<Rightarrow> epkg \<times> pkg \<times> fsys" where
  "pkg_repo_binary_mirror e p destdir f = pkg_repo_binary_try_fetch e p False True destdir f"

text \<open>
  \<open>libpkg/pkg_repo.c\<close>: the operations of the repository of a package, \<open>None\<close> for a package without one. The cached name is
  not written in that case.
\<close>

definition pkg_repo_fetch_package :: "(pkg \<Rightarrow> fetch_env option) \<Rightarrow> pkg \<Rightarrow> fsys \<Rightarrow> epkg \<times> pkg \<times> fsys" where
  "pkg_repo_fetch_package repos p f = (case repos p of None \<Rightarrow> (EPKG_FATAL, p, f) | Some e \<Rightarrow> pkg_repo_binary_fetch e p f)"

definition pkg_repo_mirror_package :: "(pkg \<Rightarrow> fetch_env option) \<Rightarrow> pkg \<Rightarrow> string \<Rightarrow> fsys \<Rightarrow> epkg \<times> pkg \<times> fsys" where
  "pkg_repo_mirror_package repos p destdir f =
     (case repos p of None \<Rightarrow> (EPKG_FATAL, p, f) | Some e \<Rightarrow> pkg_repo_binary_mirror e p (Some destdir) f)"

definition pkg_repo_cached_name :: "(pkg \<Rightarrow> fetch_env option) \<Rightarrow> pkg \<Rightarrow> fsys \<Rightarrow> string option" where
  "pkg_repo_cached_name repos p f = map_option (\<lambda>e. snd (pkg_repo_binary_get_cached_name e p f)) (repos p)"

section \<open>What each step touches\<close>

lemma hash_del_find [simp]: "hash_find x (hash_del k h) = (if x = k then None else hash_find x h)"
  by (simp add: uh.find_del_same uh.find_del_other)

lemma fs_put_find [simp]: "hash_find x (fs_put path n f) = (if x = path then Some n else hash_find x f)"
  by (simp add: fs_put_def uh.find_add_same uh.find_add_other)

lemma unlink_find: "hash_find x (unlink path f) = (if x = path \<and> \<not> (\<exists>n. hash_find x f = Some (Dir n)) then None else hash_find x f)"
  by (simp add: unlink_def split: option.split node.split)

definition not_link :: "fsys \<Rightarrow> string \<Rightarrow> bool" where
  "not_link f x \<longleftrightarrow> (\<forall>t. hash_find x f \<noteq> Some (Sym t))"

definition not_file :: "fsys \<Rightarrow> string \<Rightarrow> bool" where
  "not_file f x \<longleftrightarrow> (\<forall>c. hash_find x f \<noteq> Some (Reg c))"

lemma not_link_code [code]: "not_link f x = (case hash_find x f of Some (Sym _) \<Rightarrow> False | _ \<Rightarrow> True)"
  by (simp add: not_link_def split: option.split node.split)

lemma not_file_code [code]: "not_file f x = (case hash_find x f of Some (Reg _) \<Rightarrow> False | _ \<Rightarrow> True)"
  by (simp add: not_file_def split: option.split node.split)

lemma node_at_direct: "not_link f x \<Longrightarrow> resolve n f x = Some x" "not_link f x \<Longrightarrow> node_at f x = hash_find x f"
proof -
  show r: "not_link f x \<Longrightarrow> resolve n f x = Some x" for n
    by (subst resolve.simps) (simp add: not_link_def split: option.split node.split)
  show "not_link f x \<Longrightarrow> node_at f x = hash_find x f" by (simp add: node_at_def r)
qed

text \<open>At \<open>x\<close> nothing changes but that a directory may appear.\<close>

definition only_dir :: "fsys \<Rightarrow> fsys \<Rightarrow> string \<Rightarrow> bool" where
  "only_dir f g x \<longleftrightarrow> hash_find x g = hash_find x f \<or> (hash_find x f = None \<and> (\<exists>n. hash_find x g = Some (Dir n)))"

lemma only_dir_refl [simp]: "only_dir f f x"
  by (simp add: only_dir_def)

lemma only_dirD:
  assumes "only_dir f g x"
  shows "not_link f x \<Longrightarrow> not_link g x" "not_file f x \<Longrightarrow> not_file g x" "hash_find x f \<noteq> None \<Longrightarrow> hash_find x g = hash_find x f"
  using assms by (auto simp: only_dir_def not_link_def not_file_def)

lemma mkdir_all_touches:
  "mkdir_all e paths f = (rc, g) \<Longrightarrow> only_dir f g x \<and> (x \<notin> set paths \<longrightarrow> hash_find x g = hash_find x f)"
  by (induction e paths f rule: mkdir_all.induct) (auto simp: only_dir_def split: if_splits)

lemma fetch_file_touches:
  assumes "pkg_fetch_file e retry url dest f = (rc, g)" "not_link f dest"
  shows "x \<noteq> dest \<Longrightarrow> hash_find x g = hash_find x f" "not_link g dest" "rc = EPKG_OK \<Longrightarrow> \<exists>c. hash_find dest g = Some (Reg c)"
  using assms
  by (auto simp: pkg_fetch_file_def node_at_direct not_link_def unlink_find Let_def split: option.splits node.splits if_splits prod.splits)

lemma create_symlink_touches:
  assumes "x \<noteq> link_name p fname dir" "x \<noteq> path_buf (link_name p fname dir @ ''.new'')"
  shows "hash_find x (snd (pkg_repo_binary_create_symlink e p fname dir f)) = hash_find x f"
  using assms by (auto simp: pkg_repo_binary_create_symlink_def Let_def unlink_find split: option.split node.split)

definition made_dirs :: "string \<Rightarrow> string set" where
  "made_dirs dest = set (mkdir_paths (path_buf (dirname dest)))"

lemma fetch_missing_touches:
  assumes "fetch_missing e p tried mirror dest f = (step, g)" "not_link f dest"
  shows "x \<noteq> dest \<Longrightarrow> only_dir f g x" "x \<noteq> dest \<Longrightarrow> x \<notin> made_dirs dest \<Longrightarrow> hash_find x g = hash_find x f" "not_link g dest"
proof -
  obtain rc h where m: "mkdirs e (dirname dest) f = (rc, h)" by fastforce
  note t = mkdir_all_touches [OF m [unfolded mkdirs_def], folded made_dirs_def]
  have "g = h \<or> (\<exists>url rc. pkg_fetch_file e tried url dest h = (rc, g))"
    using assms(1) by (auto simp: fetch_missing_def m Let_def split: if_splits option.splits prod.splits)
  moreover have "not_link h dest" using t [of dest] assms(2) only_dirD(1) by blast
  ultimately have g: "x \<noteq> dest \<Longrightarrow> hash_find x g = hash_find x h" "not_link g dest" for x
    using fetch_file_touches(1,2) [of e tried _ dest h _ g] by metis+
  show "not_link g dest" by (fact g)
  show "x \<noteq> dest \<Longrightarrow> only_dir f g x" using t [of x] g(1) [of x] by (simp add: only_dir_def)
  show "x \<noteq> dest \<Longrightarrow> x \<notin> made_dirs dest \<Longrightarrow> hash_find x g = hash_find x f" using t [of x] g(1) [of x] by simp
qed

lemma fetch_missing_check:
  assumes "fetch_missing e p tried mirror dest f = (Check b, g)" "not_link f dest"
  shows "b \<and> (\<exists>c. hash_find dest g = Some (Reg c))"
proof -
  obtain rc h where m: "mkdirs e (dirname dest) f = (rc, h)" by fastforce
  note t = mkdir_all_touches [OF m [unfolded mkdirs_def]]
  have "not_link h dest" using t [of dest] assms(2) only_dirD(1) by blast
  then show ?thesis using assms(1) fetch_file_touches(3)
    by (fastforce simp: fetch_missing_def m Let_def split: if_splits option.splits prod.splits)
qed

section \<open>The cache after a fetch\<close>

text \<open>The names a package may have, and all that a fetch of it may change.\<close>

definition dests :: "fetch_env \<Rightarrow> bool \<Rightarrow> string option \<Rightarrow> pkg \<Rightarrow> string set" where
  "dests e mirror destdir p =
     (if mirror then {fetch_dest e True destdir p []}
      else insert (path_buf (cached_base e p))
        (case Option.bind (pkg_repopath p) (strrchr CHR ''.'') of Some ext \<Rightarrow> {path_buf (cached_base e p @ ext)} | None \<Rightarrow> {}))"

definition links :: "bool \<Rightarrow> pkg \<Rightarrow> string \<Rightarrow> string set" where
  "links mirror p dest =
     (if mirror then {} else {link_name p dest (dirname dest), path_buf (link_name p dest (dirname dest) @ ''.new'')})"

definition touched :: "fetch_env \<Rightarrow> bool \<Rightarrow> string option \<Rightarrow> pkg \<Rightarrow> string set" where
  "touched e mirror destdir p = (\<Union>d \<in> dests e mirror destdir p. insert d (made_dirs d \<union> links mirror p d))"

definition links_apart :: "fetch_env \<Rightarrow> bool \<Rightarrow> string option \<Rightarrow> pkg \<Rightarrow> bool" where
  \<comment> \<open>the link and the directories that are made are none of the names of the package\<close>
  "links_apart e mirror destdir p \<longleftrightarrow>
     (\<forall>d \<in> dests e mirror destdir p. dests e mirror destdir p \<inter> (made_dirs d \<union> links mirror p d) = {})"

definition no_links :: "fetch_env \<Rightarrow> bool \<Rightarrow> string option \<Rightarrow> pkg \<Rightarrow> fsys \<Rightarrow> bool" where
  "no_links e mirror destdir p f \<longleftrightarrow> (\<forall>d \<in> dests e mirror destdir p. not_link f d)"

definition verified :: "fetch_env \<Rightarrow> bool \<Rightarrow> string option \<Rightarrow> pkg \<Rightarrow> fsys \<Rightarrow> bool" where
  "verified e mirror destdir p f \<longleftrightarrow>
     (case hash_find (fetch_dest e mirror destdir p f) f of
        Some (Reg c) \<Rightarrow> int (length c) = pkg_pkgsize p \<and> fe_sha256 e c = pkg_cksum p
      | _ \<Rightarrow> False)"

lemma fetch_dest_cases:
  "fetch_dest e mirror destdir p f =
     (if mirror then fetch_dest e True destdir p []
      else case Option.bind (pkg_repopath p) (strrchr CHR ''.'') of
        None \<Rightarrow> path_buf (cached_base e p)
      | Some ext \<Rightarrow> if node_at f (path_buf (cached_base e p)) \<noteq> None then path_buf (cached_base e p) else path_buf (cached_base e p @ ext))"
  by (auto simp: fetch_dest_def pkg_repo_binary_get_cached_name_def split: option.split)

lemma fetch_dest_dests: "fetch_dest e mirror destdir p f \<in> dests e mirror destdir p"
  by (subst fetch_dest_cases) (simp add: dests_def split: option.split)

text \<open>The destination stays the same when it does not go away and the other name stays as it is.\<close>

lemma fetch_dest_stable:
  assumes "no_links e mirror destdir p f" "no_links e mirror destdir p g"
    and "\<And>x. x \<in> dests e mirror destdir p \<Longrightarrow> x \<noteq> fetch_dest e mirror destdir p f \<Longrightarrow> hash_find x g = hash_find x f"
    and "hash_find (fetch_dest e mirror destdir p f) f \<noteq> None \<Longrightarrow> hash_find (fetch_dest e mirror destdir p f) g \<noteq> None"
  shows "fetch_dest e mirror destdir p g = fetch_dest e mirror destdir p f"
proof (cases mirror)
  case False
  let ?b = "path_buf (cached_base e p)"
  have b: "?b \<in> dests e mirror destdir p" using False by (simp add: dests_def)
  have n: "node_at h ?b = hash_find ?b h" if "no_links e mirror destdir p h" for h
    using that b by (intro node_at_direct(2)) (simp add: no_links_def)
  have d: "fetch_dest e mirror destdir p h = (case Option.bind (pkg_repopath p) (strrchr CHR ''.'') of
      None \<Rightarrow> ?b | Some ext \<Rightarrow> if hash_find ?b h \<noteq> None then ?b else path_buf (cached_base e p @ ext))"
    if "no_links e mirror destdir p h" for h
    using False n [OF that] by (subst fetch_dest_cases) (auto split: option.split)
  show ?thesis using d [OF assms(1)] d [OF assms(2)] assms(3) [OF b] assms(4) by (auto split: option.splits if_splits)
qed (subst (1 2) fetch_dest_cases, simp)

text \<open>
  One attempt. The state \<open>g\<close> before the check or the cleanup differs from \<open>f\<close> at the destination and in new directories.
\<close>

definition local_repo :: "fetch_env \<Rightarrow> bool \<Rightarrow> bool" where
  \<comment> \<open>packages of a repository in the file system are used in place\<close>
  "local_repo e mirror \<longleftrightarrow> \<not> mirror \<and> (case fe_url e of Some s \<Rightarrow> strncaseeq s ''file://'' 7 | None \<Rightarrow> False)"

definition attempted :: "string \<Rightarrow> fsys \<Rightarrow> fsys \<Rightarrow> bool" where
  "attempted dest f g \<longleftrightarrow> (\<forall>x. x \<noteq> dest \<longrightarrow> x \<notin> made_dirs dest \<longrightarrow> hash_find x g = hash_find x f)
     \<and> not_link g dest \<and> (hash_find dest f \<noteq> None \<longrightarrow> g = f)"

lemma try_fetch_step:
  assumes nl: "not_link f (fetch_dest e mirror destdir p f)"
    and run: "pkg_repo_binary_try_fetch e p tried mirror destdir f = (rc, p', f')"
  obtains (return) g path where "attempted (fetch_dest e mirror destdir p f) f g"
      "local_repo e mirror" "rc = EPKG_OK" "p' = p\<lparr>pkg_repopath := Some path\<rparr>" "f' = g"
    | (failure) g where "attempted (fetch_dest e mirror destdir p f) f g"
      "rc \<noteq> EPKG_OK" "p' = p" "f' = unlink (fetch_dest e mirror destdir p f) g" "tried \<or> not_file f (fetch_dest e mirror destdir p f)"
    | (success) g c where "attempted (fetch_dest e mirror destdir p f) f g"
      "rc = EPKG_OK" "p' = p" "hash_find (fetch_dest e mirror destdir p f) g = Some (Reg c)"
      "int (length c) = pkg_pkgsize p" "fe_sha256 e c = pkg_cksum p"
      "\<And>x. x \<notin> links mirror p (fetch_dest e mirror destdir p f) \<Longrightarrow> hash_find x f' = hash_find x g"
    | (retry) g where "attempted (fetch_dest e mirror destdir p f) f g" "\<not> tried"
      "pkg_repo_binary_try_fetch e p True mirror destdir (unlink (fetch_dest e mirror destdir p f) g) = (rc, p', f')"
proof -
  let ?d = "fetch_dest e mirror destdir p f"
  define present where "present \<longleftrightarrow> node_at f ?d \<noteq> None"
  obtain step g where sg: "(if present then (Check False, f) else fetch_missing e p tried mirror ?d f) = (step, g)" by fastforce
  have att: "attempted ?d f g"
  proof (cases present)
    case False
    then have m: "fetch_missing e p tried mirror ?d f = (step, g)" "hash_find ?d f = None"
      using sg node_at_direct(2) [OF nl] by (simp_all add: present_def)
    then show ?thesis using fetch_missing_touches [OF m(1) nl] by (simp add: attempted_def)
  qed (use sg nl in \<open>simp add: attempted_def\<close>)
  then have nd: "node_at g ?d = hash_find ?d g" by (intro node_at_direct(2)) (simp add: attempted_def)
  note sz = stat_size_def [of g ?d, unfolded nd] and sha = sha256_file_def [of e ?d g, unfolded nd]
  note body = run [unfolded pkg_repo_binary_try_fetch.simps [of e p tried] Let_def, folded present_def, unfolded sg prod.case]
  have gone: "not_file f ?d" if "\<not> present" using that node_at_direct(2) [OF nl] by (simp add: present_def not_file_def)
  have fetched: "\<not> b" if "present" "step = Check b" for b using sg that by simp
  have fail: thesis if "fetch_cleanup e p mirror (\<not> present) ?d rc' g = (rc, p', f')" "rc' \<noteq> EPKG_OK" "tried \<or> not_file f ?d" for rc'
    using that failure [OF att] by (auto simp: fetch_cleanup_def)
  show thesis
  proof (cases step)
    case (Return path)
    then have "local_repo e mirror"
      using sg by (auto simp: fetch_missing_def local_repo_def Let_def split: if_splits option.splits prod.splits)
    then show thesis using return [OF att, of path] body Return by auto
  next
    case (Cleanup rc')
    then have "rc' \<noteq> EPKG_OK" "\<not> present" using sg by (auto simp: fetch_missing_def Let_def split: if_splits option.splits prod.splits)
    then show thesis using fail gone body Cleanup by simp
  next
    case (Check fetched)
    show thesis
    proof (cases "stat_size g ?d = Some (pkg_pkgsize p)")
      case False
      then show thesis using body Check fail [of EPKG_FATAL] retry [OF att] by (auto split: if_splits)
    next
      case True
      show thesis
      proof (cases "sha256_file e ?d g = Some (pkg_cksum p)")
        case False
        have "not_file f ?d" if "sha256_file e ?d g = None"
          using that gone sg by (cases present) (auto simp: sha not_file_def split: option.splits node.splits)
        with False show thesis using body Check True fail [of EPKG_FATAL] retry [OF att] gone fetched
          by (auto split: if_splits option.splits)
      next
        case s: True
        then obtain c where c: "hash_find ?d g = Some (Reg c)" "fe_sha256 e c = pkg_cksum p"
          unfolding sha by (auto split: option.splits node.splits)
        have "int (length c) = pkg_pkgsize p" using True c(1) by (simp add: sz)
        moreover have clean: "fetch_cleanup e p mirror (\<not> present) ?d EPKG_OK g = (rc, p', f')" using body Check True s by simp
        moreover have "hash_find x f' = hash_find x g" if "x \<notin> links mirror p ?d" for x
          using clean that create_symlink_touches [of x p ?d "dirname ?d" e g]
          by (auto simp: fetch_cleanup_def links_def split: if_splits)
        ultimately show thesis using success [OF att _ _ c(1) _ c(2)] by (simp add: fetch_cleanup_def split: if_splits)
      qed
    qed
  qed
qed

lemma attempted_dests:
  assumes "links_apart e mirror destdir p" "no_links e mirror destdir p f" "attempted (fetch_dest e mirror destdir p f) f g"
  shows "no_links e mirror destdir p g"
    "x \<in> dests e mirror destdir p \<Longrightarrow> x \<noteq> fetch_dest e mirror destdir p f \<Longrightarrow> hash_find x g = hash_find x f"
    "fetch_dest e mirror destdir p g = fetch_dest e mirror destdir p f"
    "x \<notin> touched e mirror destdir p \<Longrightarrow> hash_find x g = hash_find x f"
proof -
  let ?D = "dests e mirror destdir p" and ?d = "fetch_dest e mirror destdir p f"
  have d: "?d \<in> ?D" by (rule fetch_dest_dests)
  then have "?D \<inter> made_dirs ?d = {}" using assms(1) by (auto simp: links_apart_def)
  then show same: "x \<in> ?D \<Longrightarrow> x \<noteq> ?d \<Longrightarrow> hash_find x g = hash_find x f" for x
    using assms(3) by (auto simp: attempted_def)
  then show nl: "no_links e mirror destdir p g"
    using assms(2,3) unfolding no_links_def attempted_def not_link_def by (metis (no_types))
  show "fetch_dest e mirror destdir p g = ?d"
    using assms(3) by (intro fetch_dest_stable [OF assms(2) nl same]) (auto simp: attempted_def)
  show "x \<notin> touched e mirror destdir p \<Longrightarrow> hash_find x g = hash_find x f"
    using assms(3) d by (auto simp: attempted_def touched_def)
qed

lemma unlink_no_links: "no_links e mirror destdir p f \<Longrightarrow> no_links e mirror destdir p (unlink x f)"
  by (simp add: no_links_def not_link_def unlink_find)

text \<open>What holds after a fetch with result \<open>rc\<close>.\<close>

definition fetch_ok :: "fetch_env \<Rightarrow> bool \<Rightarrow> string option \<Rightarrow> pkg \<Rightarrow> fsys \<Rightarrow> epkg \<times> pkg \<times> fsys \<Rightarrow> bool" where
  "fetch_ok e mirror destdir p f r \<longleftrightarrow> (case r of (rc, p', g) \<Rightarrow>
     (\<not> local_repo e mirror \<longrightarrow> p' = p)
     \<and> (\<forall>x. x \<notin> touched e mirror destdir p \<longrightarrow> hash_find x g = hash_find x f) \<and> no_links e mirror destdir p g
     \<and> (rc = EPKG_OK \<and> \<not> local_repo e mirror \<longrightarrow> verified e mirror destdir p g))"

lemma dest_touched: "fetch_dest e mirror destdir p f \<in> touched e mirror destdir p"
  using fetch_dest_dests [of e mirror destdir p f] by (auto simp: touched_def)

lemma links_touched: "x \<notin> touched e mirror destdir p \<Longrightarrow> x \<notin> links mirror p (fetch_dest e mirror destdir p f)"
  using fetch_dest_dests [of e mirror destdir p f] by (auto simp: touched_def)

lemma links_dests:
  "links_apart e mirror destdir p \<Longrightarrow> x \<in> dests e mirror destdir p \<Longrightarrow> x \<notin> links mirror p (fetch_dest e mirror destdir p f)"
  using fetch_dest_dests [of e mirror destdir p f] by (auto simp: links_apart_def)

lemma try_fetch_once:
  assumes apart: "links_apart e mirror destdir p" and nl: "no_links e mirror destdir p f"
    and run: "pkg_repo_binary_try_fetch e p tried mirror destdir f = (rc, p', f')"
    and again: "\<And>f1. \<not> tried \<Longrightarrow> no_links e mirror destdir p f1 \<Longrightarrow>
      pkg_repo_binary_try_fetch e p True mirror destdir f1 = (rc, p', f') \<Longrightarrow> fetch_ok e mirror destdir p f1 (rc, p', f')"
  shows "fetch_ok e mirror destdir p f (rc, p', f')"
proof -
  let ?d = "fetch_dest e mirror destdir p f"
  have "not_link f ?d" using nl fetch_dest_dests by (simp add: no_links_def)
  then show ?thesis using run
  proof (cases rule: try_fetch_step)
    case (return g path)
    then show ?thesis using attempted_dests(1,4) [OF apart nl return(1)] by (simp add: fetch_ok_def)
  next
    case (failure g)
    have "x \<noteq> ?d" if "x \<notin> touched e mirror destdir p" for x using that dest_touched by blast
    then show ?thesis using failure attempted_dests(1,4) [OF apart nl failure(1)]
      by (simp add: fetch_ok_def unlink_no_links unlink_find)
  next
    case (success g c)
    note a = attempted_dests [OF apart nl success(1)]
    have same: "hash_find x f' = hash_find x g" if "x \<in> dests e mirror destdir p" for x
      using success(7) links_dests [OF apart that] .
    then have n: "no_links e mirror destdir p f'" using a(1) by (simp add: no_links_def not_link_def)
    have "fetch_dest e mirror destdir p f' = fetch_dest e mirror destdir p g"
      by (rule fetch_dest_stable [OF a(1) n]) (simp_all add: same fetch_dest_dests)
    then have "verified e mirror destdir p f'"
      using success(4,5,6) same [OF fetch_dest_dests] by (simp add: verified_def a(3))
    then show ?thesis using n success(3,7) links_touched a(4) by (auto simp: fetch_ok_def)
  next
    case (retry g)
    note a = attempted_dests [OF apart nl retry(1)]
    have "x \<noteq> ?d" if "x \<notin> touched e mirror destdir p" for x using that dest_touched by blast
    moreover have "fetch_ok e mirror destdir p (unlink ?d g) (rc, p', f')"
      by (rule again [OF retry(2) unlink_no_links [OF a(1)] retry(3)])
    ultimately show ?thesis using a(4) by (simp add: fetch_ok_def unlink_find)
  qed
qed

lemma try_fetch_ok:
  assumes apart: "links_apart e mirror destdir p" and nl: "no_links e mirror destdir p f"
    and run: "pkg_repo_binary_try_fetch e p tried mirror destdir f = (rc, p', f')"
  shows "fetch_ok e mirror destdir p f (rc, p', f')"
  by (rule try_fetch_once [OF apart nl run], rule try_fetch_once [OF apart], assumption+, simp)

text \<open>
  C5: a successful fetch leaves a verified package. When \<open>pkg_repo_binary_fetch\<close> reports success, the file that
  \<open>pkg_repo_binary_get_cached_name\<close> names afterwards has the size and the SHA-256 checksum that the repository promises, whatever was
  in the cache before and whatever the network delivered, and the same holds for \<open>pkg_repo_binary_mirror\<close> and its path below the mirror;
  no file but the names of the package, the link to it and new directories changes. The exception is a
  repository in the file system, whose packages are used in place.
\<close>

theorem fetch_verified:
  assumes "links_apart e mirror destdir p" "no_links e mirror destdir p f" "\<not> local_repo e mirror"
    and "pkg_repo_binary_try_fetch e p False mirror destdir f = (EPKG_OK, p', f')"
  shows "verified e mirror destdir p f' \<and> p' = p \<and> (\<forall>x. x \<notin> touched e mirror destdir p \<longrightarrow> hash_find x f' = hash_find x f)"
  using try_fetch_ok [OF assms(1,2,4)] assms(3) by (simp add: fetch_ok_def)

text \<open>The name without the extension is not a file, or it is not a name that is tried first.\<close>

definition old_gone :: "fetch_env \<Rightarrow> bool \<Rightarrow> pkg \<Rightarrow> fsys \<Rightarrow> bool" where
  "old_gone e mirror p f \<longleftrightarrow> mirror \<or> Option.bind (pkg_repopath p) (strrchr CHR ''.'') = None \<or> not_file f (path_buf (cached_base e p))"

lemma fetch_dest_direct:
  assumes "no_links e False destdir p f"
  shows "fetch_dest e False destdir p f = (case Option.bind (pkg_repopath p) (strrchr CHR ''.'') of
      None \<Rightarrow> path_buf (cached_base e p)
    | Some ext \<Rightarrow> if hash_find (path_buf (cached_base e p)) f \<noteq> None then path_buf (cached_base e p) else path_buf (cached_base e p @ ext))"
proof -
  have "node_at f (path_buf (cached_base e p)) = hash_find (path_buf (cached_base e p)) f"
    using assms by (intro node_at_direct(2)) (simp add: no_links_def dests_def)
  then show ?thesis by (subst fetch_dest_cases) (auto split: option.split)
qed

lemma failed_dest:
  assumes apart: "links_apart e mirror destdir p" and nl: "no_links e mirror destdir p f"
    and att: "attempted (fetch_dest e mirror destdir p f) f g" and old: "old_gone e mirror p f \<or> not_file f (fetch_dest e mirror destdir p f)"
  shows "not_file (unlink (fetch_dest e mirror destdir p f) g) (fetch_dest e mirror destdir p (unlink (fetch_dest e mirror destdir p f) g))"
proof -
  let ?d = "fetch_dest e mirror destdir p f" and ?b = "path_buf (cached_base e p)"
  let ?h = "unlink ?d g"
  note a = attempted_dests [OF apart nl att]
  have d: "not_file ?h ?d" by (auto simp: not_file_def unlink_find)
  have "fetch_dest e mirror destdir p ?h = ?d \<or> not_file ?h (fetch_dest e mirror destdir p ?h)"
  proof (cases mirror)
    case False
    have b: "?b \<in> dests e mirror destdir p" using False by (simp add: dests_def)
    have nb: "not_link f ?b" using nl b by (simp add: no_links_def)
    have m: "mirror = False" using False by simp
    note dh = fetch_dest_direct [OF unlink_no_links [OF a(1), unfolded m]] and df = fetch_dest_direct [OF nl [unfolded m]]
    have "not_link g ?b" using a(1) b by (simp add: no_links_def)
    have g: "g = f" if "hash_find ?d f \<noteq> None" using att that by (simp add: attempted_def)
    show ?thesis
    proof (cases "Option.bind (pkg_repopath p) (strrchr CHR ''.'')")
      case (Some ext)
      show ?thesis
      proof (cases "hash_find ?b f = None")
        case True
        then have dd: "?d = path_buf (cached_base e p @ ext)" using df Some m by simp
        show ?thesis
        proof (cases "?b = ?d")
          case b_d: True
          have "fetch_dest e False destdir p ?h = ?d" using dh [of ?d] Some dd b_d by simp
          then show ?thesis using m by blast
        next
          case b_d: False
          then have "hash_find ?b ?h = None" using a(2) [OF b b_d] True by (simp add: unlink_find)
          then have "fetch_dest e False destdir p ?h = ?d" using dh [of ?d] Some dd by simp
          then show ?thesis using m by blast
        qed
      next
        case old_there: False
        then have "?d = ?b" using df Some False by simp
        moreover from this have "not_file f ?b" using old Some False by (auto simp: old_gone_def)
        ultimately show ?thesis using dh Some False old_there g nb
          by (auto simp: unlink_find not_file_def not_link_def) (metis node.exhaust)
      qed
    qed (use False dh df in simp)
  qed (subst (1 2) fetch_dest_cases, simp)
  with d show ?thesis by auto
qed

lemma failed_once:
  assumes apart: "links_apart e mirror destdir p" and nl: "no_links e mirror destdir p f" and old: "tried \<longrightarrow> old_gone e mirror p f"
    and run: "pkg_repo_binary_try_fetch e p tried mirror destdir f = (rc, p', f')" and rc: "rc \<noteq> EPKG_OK"
    and again: "\<And>f1. \<not> tried \<Longrightarrow> no_links e mirror destdir p f1 \<Longrightarrow> True \<longrightarrow> old_gone e mirror p f1 \<Longrightarrow>
      pkg_repo_binary_try_fetch e p True mirror destdir f1 = (rc, p', f') \<Longrightarrow> not_file f' (fetch_dest e mirror destdir p f')"
  shows "not_file f' (fetch_dest e mirror destdir p f')"
proof -
  let ?d = "fetch_dest e mirror destdir p f"
  have "not_link f ?d" using nl fetch_dest_dests by (simp add: no_links_def)
  then show ?thesis using run
  proof (cases rule: try_fetch_step)
    case (failure g)
    then show ?thesis using failed_dest [OF apart nl failure(1)] old by blast
  next
    case (retry g)
    note a = attempted_dests [OF apart nl retry(1)]
    let ?b = "path_buf (cached_base e p)"
    have "old_gone e mirror p (unlink ?d g)"
    proof (cases "mirror \<or> ?d = ?b")
      case True
      then show ?thesis by (auto simp: old_gone_def not_file_def unlink_find)
    next
      case False
      then have b: "?b \<in> dests e mirror destdir p" by (simp add: dests_def)
      have "hash_find ?b f = None" if "Option.bind (pkg_repopath p) (strrchr CHR ''.'') \<noteq> None"
        using False that fetch_dest_direct [of e destdir p f] nl by (auto split: if_splits)
      then show ?thesis using a(2) [OF b] False by (auto simp: old_gone_def not_file_def unlink_find)
    qed
    then show ?thesis using again [OF retry(2) unlink_no_links [OF a(1)] _ retry(3)] by simp
  qed (use rc in simp_all)
qed

text \<open>
  C17: a failed fetch leaves nothing to install: when \<open>pkg_repo_binary_fetch\<close> or \<open>pkg_repo_binary_mirror\<close> fails, there is no file under
  the name that \<open>pkg_repo_binary_get_cached_name\<close> gives the package afterwards.
\<close>

theorem fetch_failed_clean:
  assumes "links_apart e mirror destdir p" "no_links e mirror destdir p f"
    and "pkg_repo_binary_try_fetch e p False mirror destdir f = (rc, p', f')" "rc \<noteq> EPKG_OK"
  shows "not_file f' (fetch_dest e mirror destdir p f')"
  by (rule failed_once [OF assms(1,2) _ assms(3,4)], simp, rule failed_once [OF assms(1) _ _ _ assms(4)], assumption+, simp)

section \<open>Fetching many packages\<close>

text \<open>The loop of \<open>pkg_jobs_fetch\<close> over the items to fetch; it stops at the first failure.\<close>

fun fetch_items ::
  "(pkg \<Rightarrow> fsys \<Rightarrow> epkg \<times> pkg \<times> fsys) \<Rightarrow> item_id list \<Rightarrow> pkg_jobs_universe \<Rightarrow> fsys \<Rightarrow> epkg \<times> pkg_jobs_universe \<times> fsys" where
  "fetch_items fetch [] u f = (EPKG_OK, u, f)"
| "fetch_items fetch (i # is) u f =
     (let (rc, p, f) = fetch (u_pkg u i) f; u = u_upd_pkg i (\<lambda>_. p) u
      in if rc \<noteq> EPKG_OK then (EPKG_FATAL, u, f) else fetch_items fetch is u f)"

lemma u_upd_pkg_id: "u_upd_pkg i (\<lambda>_. u_pkg u i) u = u"
  by (cases "i < length (u_store u)") (simp_all add: u_upd_pkg_def u_upd_item_def u_pkg_def)

text \<open>What the loop over the packages of a job, in \<open>pkg_jobs_fetch\<close>, relies on.\<close>

locale downloads =
  fixes fetch :: "pkg \<Rightarrow> fsys \<Rightarrow> epkg \<times> pkg \<times> fsys"
    and ready :: "pkg \<Rightarrow> fsys \<Rightarrow> bool"
    and good :: "pkg \<Rightarrow> fsys \<Rightarrow> bool"
    and apart :: "pkg \<Rightarrow> pkg \<Rightarrow> bool"
  assumes fetch_good: "ready p f \<Longrightarrow> fetch p f = (EPKG_OK, p', f') \<Longrightarrow> good p f' \<and> ready p f' \<and> p' = p"
    and fetch_keeps: "apart p q \<Longrightarrow> ready p f \<Longrightarrow> ready q f \<Longrightarrow> fetch p f = (EPKG_OK, p', f') \<Longrightarrow>
      ready q f' \<and> (good q f \<longrightarrow> good q f')"
begin

lemma fetch_items_good:
  assumes "fetch_items fetch is u f = (EPKG_OK, u', f')" "\<forall>p \<in> u_pkg u ` set is \<union> set qs. ready p f" "\<forall>q \<in> set qs. good q f"
    and "sorted_wrt (\<lambda>q p. apart p q \<and> apart q p) (qs @ map (u_pkg u) is)"
  shows "u' = u \<and> (\<forall>p \<in> u_pkg u ` set is \<union> set qs. good p f')"
  using assms
proof (induction "is" arbitrary: qs f)
  case (Cons i "is")
  let ?p = "u_pkg u i"
  obtain rc q g where q: "fetch ?p f = (rc, q, g)" by (cases "fetch ?p f")
  with Cons.prems(1) have r: "rc = EPKG_OK" "fetch_items fetch is (u_upd_pkg i (\<lambda>_. q) u) g = (EPKG_OK, u', f')"
    by (auto simp: Let_def split: if_splits)
  have p: "good ?p g \<and> ready ?p g \<and> q = ?p" using fetch_good [of ?p f q g] q r(1) Cons.prems(2) by simp
  then have run: "fetch_items fetch is u g = (EPKG_OK, u', f')" using r(2) by (simp add: u_upd_pkg_id)
  have k: "ready x g \<and> (good x f \<longrightarrow> good x g)" if "x \<in> set qs \<union> u_pkg u ` set is" for x
    using fetch_keeps [of ?p x f q g] q r(1) Cons.prems(2,4) that by (auto simp: sorted_wrt_append)
  have "u' = u \<and> (\<forall>x \<in> u_pkg u ` set is \<union> set (qs @ [?p]). good x f')"
    using p k Cons.prems(3,4) by (intro Cons.IH [OF run]) auto
  then show ?case by auto
qed simp

end

definition repo_ready :: "(pkg \<Rightarrow> fetch_env option) \<Rightarrow> bool \<Rightarrow> string option \<Rightarrow> pkg \<Rightarrow> fsys \<Rightarrow> bool" where
  "repo_ready repos mirror destdir p f \<longleftrightarrow> (case repos p of None \<Rightarrow> True
    | Some e \<Rightarrow> links_apart e mirror destdir p \<and> no_links e mirror destdir p f \<and> \<not> local_repo e mirror)"

definition repo_verified :: "(pkg \<Rightarrow> fetch_env option) \<Rightarrow> bool \<Rightarrow> string option \<Rightarrow> pkg \<Rightarrow> fsys \<Rightarrow> bool" where
  "repo_verified repos mirror destdir p f \<longleftrightarrow> (case repos p of None \<Rightarrow> False | Some e \<Rightarrow> verified e mirror destdir p f)"

definition repo_apart :: "(pkg \<Rightarrow> fetch_env option) \<Rightarrow> bool \<Rightarrow> string option \<Rightarrow> pkg \<Rightarrow> pkg \<Rightarrow> bool" where
  \<comment> \<open>the fetch of \<open>p\<close> does not touch the names of \<open>q\<close>\<close>
  "repo_apart repos mirror destdir p q \<longleftrightarrow> (case (repos p, repos q) of
      (Some e, Some d) \<Rightarrow> touched e mirror destdir p \<inter> dests d mirror destdir q = {} | _ \<Rightarrow> True)"

lemma untouched_keeps:
  assumes "\<And>x. x \<in> dests e mirror destdir q \<Longrightarrow> hash_find x g = hash_find x f" "no_links e mirror destdir q f"
  shows "no_links e mirror destdir q g" "verified e mirror destdir q f \<Longrightarrow> verified e mirror destdir q g"
proof -
  show n: "no_links e mirror destdir q g" using assms by (simp add: no_links_def not_link_def)
  have "fetch_dest e mirror destdir q g = fetch_dest e mirror destdir q f"
    by (rule fetch_dest_stable [OF assms(2) n]) (simp_all add: assms(1) fetch_dest_dests)
  then show "verified e mirror destdir q f \<Longrightarrow> verified e mirror destdir q g"
    by (simp add: verified_def assms(1) fetch_dest_dests)
qed

lemma repo_fetch_good:
  assumes "repo_ready repos mirror destdir p f" "repos p = Some e"
    and "pkg_repo_binary_try_fetch e p False mirror destdir f = (EPKG_OK, p', f')"
  shows "repo_verified repos mirror destdir p f' \<and> repo_ready repos mirror destdir p f' \<and> p' = p"
  using try_fetch_ok [OF _ _ assms(3)] assms(1,2) by (simp add: repo_ready_def repo_verified_def fetch_ok_def)

lemma repo_fetch_keeps:
  assumes "repo_apart repos mirror destdir p q" "repo_ready repos mirror destdir p f" "repo_ready repos mirror destdir q f"
    and "repos p = Some e" "pkg_repo_binary_try_fetch e p False mirror destdir f = (rc, p', f')"
  shows "repo_ready repos mirror destdir q f' \<and> (repo_verified repos mirror destdir q f \<longrightarrow> repo_verified repos mirror destdir q f')"
proof (cases "repos q")
  case (Some d)
  have "fetch_ok e mirror destdir p f (rc, p', f')" using try_fetch_ok [OF _ _ assms(5)] assms(2,4) by (simp add: repo_ready_def)
  then have "hash_find x f' = hash_find x f" if "x \<in> dests d mirror destdir q" for x
    using assms(1,4) Some that by (auto simp: fetch_ok_def repo_apart_def)
  then show ?thesis using untouched_keeps [of d mirror destdir q f' f] assms(3) Some by (simp add: repo_ready_def repo_verified_def)
qed (simp add: repo_ready_def repo_verified_def)

lemmas repo_fetch_defs = pkg_repo_fetch_package_def pkg_repo_mirror_package_def pkg_repo_binary_fetch_def pkg_repo_binary_mirror_def

interpretation cache: downloads "pkg_repo_fetch_package repos" "repo_ready repos False None" "repo_verified repos False None"
  "repo_apart repos False None" for repos
proof
  fix p q f p' f'
  assume r: "repo_ready repos False None p f" "pkg_repo_fetch_package repos p f = (EPKG_OK, p', f')"
  then obtain e where e: "repos p = Some e" "pkg_repo_binary_try_fetch e p False False None f = (EPKG_OK, p', f')"
    by (auto simp: repo_fetch_defs split: option.splits)
  show "repo_verified repos False None p f' \<and> repo_ready repos False None p f' \<and> p' = p" by (rule repo_fetch_good [OF r(1) e])
  show "repo_ready repos False None q f' \<and> (repo_verified repos False None q f \<longrightarrow> repo_verified repos False None q f')"
    if "repo_apart repos False None p q" "repo_ready repos False None q f"
    by (rule repo_fetch_keeps [OF that(1) r(1) that(2) e])
qed

interpretation mirror: downloads "\<lambda>p. pkg_repo_mirror_package repos p destdir" "repo_ready repos True (Some destdir)"
  "repo_verified repos True (Some destdir)" "repo_apart repos True (Some destdir)" for repos destdir
proof
  fix p q f p' f'
  assume r: "repo_ready repos True (Some destdir) p f" "pkg_repo_mirror_package repos p destdir f = (EPKG_OK, p', f')"
  then obtain e where e: "repos p = Some e" "pkg_repo_binary_try_fetch e p False True (Some destdir) f = (EPKG_OK, p', f')"
    by (auto simp: repo_fetch_defs split: option.splits)
  show "repo_verified repos True (Some destdir) p f' \<and> repo_ready repos True (Some destdir) p f' \<and> p' = p"
    by (rule repo_fetch_good [OF r(1) e])
  show "repo_ready repos True (Some destdir) q f' \<and> (repo_verified repos True (Some destdir) q f \<longrightarrow> repo_verified repos True (Some destdir) q f')"
    if "repo_apart repos True (Some destdir) p q" "repo_ready repos True (Some destdir) q f"
    by (rule repo_fetch_keeps [OF that(1) r(1) that(2) e])
qed

section \<open>An example\<close>

definition demo_remote :: pkg where
  "demo_remote = demo_pkg\<lparr>pkg_cksum := ''0123456789abcdef'', pkg_pkgsize := 4, pkg_repopath := Some ''All/a-1.0.txz''\<rparr>"

text \<open>Every content of four bytes has the checksum of the package; the cache holds a broken file.\<close>

definition demo_fetch_env :: fetch_env where
  "demo_fetch_env = \<lparr>fe_cachedir = ''/c'', fe_url = Some ''http://x'', fe_net = (\<lambda>_ _. (EPKG_OK, ''good'')),
     fe_sha256 = (\<lambda>c. if length c = 4 then ''0123456789abcdef'' else []), fe_mkdir = (\<lambda>_. True), fe_creat = (\<lambda>_. True),
     fe_symlink = (\<lambda>_. True), fe_rename = (\<lambda>_. True), fe_dirsize = 512\<rparr>"

definition demo_cache :: fsys where
  "demo_cache = [(''/c'', Dir 512), (''/c/a-1.0-0123456789.txz'', Reg ''broken'')]"

lemma demo_ready: "links_apart demo_fetch_env False None demo_remote" "no_links demo_fetch_env False None demo_remote demo_cache"
  "\<not> local_repo demo_fetch_env False"
  by code_simp+

definition demo_fetched :: fsys where
  "demo_fetched = snd (snd (pkg_repo_binary_fetch demo_fetch_env demo_remote demo_cache))"

lemma fetch_verified_witness:
  "hash_find ''/c/a-1.0-0123456789.txz'' demo_fetched = Some (Reg ''good'')
    \<and> verified demo_fetch_env False None demo_remote demo_fetched"
proof -
  have "pkg_repo_binary_try_fetch demo_fetch_env demo_remote False False None demo_cache = (EPKG_OK, demo_remote, demo_fetched)"
    "hash_find ''/c/a-1.0-0123456789.txz'' demo_fetched = Some (Reg ''good'')" by code_simp+
  then show ?thesis using fetch_verified [OF demo_ready, of demo_remote demo_fetched] by simp
qed

lemma fetch_failed_clean_witness:
  "\<exists>f'. pkg_repo_binary_fetch (demo_fetch_env\<lparr>fe_net := \<lambda>_ _. (EPKG_OK, ''evil!'')\<rparr>) demo_remote demo_cache = (EPKG_FATAL, demo_remote, f')
    \<and> not_file f' (fetch_dest (demo_fetch_env\<lparr>fe_net := \<lambda>_ _. (EPKG_OK, ''evil!'')\<rparr>) False None demo_remote f')"
proof -
  let ?e = "demo_fetch_env\<lparr>fe_net := \<lambda>_ _. (EPKG_OK, ''evil!'')\<rparr>"
  let ?f = "snd (snd (pkg_repo_binary_fetch ?e demo_remote demo_cache))"
  have h: "pkg_repo_binary_try_fetch ?e demo_remote False False None demo_cache = (EPKG_FATAL, demo_remote, ?f)"
    "links_apart ?e False None demo_remote" "no_links ?e False None demo_remote demo_cache" by code_simp+
  then show ?thesis using fetch_failed_clean [OF h(2,3,1)] by (auto simp: pkg_repo_binary_fetch_def)
qed

end
