(* ===== verification/Execute.thy ===== *)
theory Execute
  imports Jobs Solver Fetch "HOL-Library.Sublist"
begin

text \<open>
  Solving and applying a job, \<open>libpkg/pkg_jobs.c\<close>: \<open>pkg_jobs_solve\<close> fills the universe, runs the SAT
  solver until it has an answer, and looks for conflicting files; \<open>pkg_jobs_apply\<close> fetches the packages
  and executes the jobs. Neither an external SAT solver nor a CUDF solver is configured. Parameters: what
  \<open>env\<close> and \<open>files_env\<close> say about the databases, PicoSAT, the answers of the user, and the functions that
  change the system (\<open>pkg_delete\<close>, \<open>pkg_add_upgrade\<close>, the transaction, the downloads), which act on a
  state of any type.
\<close>

section \<open>Solving\<close>

record solve_env =
  se_env :: env
  se_files :: files_env
  se_yesno :: "string \<Rightarrow> bool"
  se_open :: "string \<Rightarrow> pkg option"
  se_picosat :: "picosat \<Rightarrow> picosat_result"
  se_loadable :: "pkg \<Rightarrow> bool"
    \<comment> \<open>whether the files of a remote package are known without fetching it\<close>

text \<open>The loop around the SAT solver. \<open>Crash\<close> is a failed assertion or an access outside an array.\<close>

fun solve_again :: "nat \<Rightarrow> solve_env \<Rightarrow> pkg_jobs \<Rightarrow> (epkg \<times> pkg_jobs) run" where
  "solve_again 0 se j = NoFuel"
| "solve_again (Suc n) se j =
     (case pkg_jobs_universe_process_upgrade_chains j of
        None \<Rightarrow> Crash
      | Some j \<Rightarrow>
          (case pkg_solve_jobs_to_sat j of
             None \<Rightarrow> Ret (EPKG_FATAL, j\<lparr>j_solved := 0\<rparr>)
           | Some p \<Rightarrow>
               (case pkg_solve_sat_problem (se_picosat se) (se_yesno se) j p of
                  None \<Rightarrow> Crash
                | Some (rc, p, j) \<Rightarrow>
                    if rc = EPKG_FATAL then Ret (EPKG_FATAL, j\<lparr>j_solved := 0\<rparr>)
                    else if rc = EPKG_AGAIN then solve_again n se j
                    else Ret (EPKG_OK, pkg_solve_sat_to_jobs p j))))"

definition jobs_solve :: "nat \<Rightarrow> solve_env \<Rightarrow> pkg_jobs \<Rightarrow> (epkg \<times> pkg_jobs) run" where
  \<comment> \<open>the \<open>switch\<close> on the type of the job\<close>
  "jobs_solve fuel se j =
     (case j_type j of
        PKG_JOBS_AUTOREMOVE \<Rightarrow> jobs_solve_autoremove fuel (se_env se) j
      | PKG_JOBS_DEINSTALL \<Rightarrow> jobs_solve_deinstall fuel (se_env se) j
      | PKG_JOBS_FETCH \<Rightarrow> jobs_solve_fetch fuel (se_env se) (se_yesno se) j
      | _ \<Rightarrow> jobs_solve_install_upgrade fuel (se_env se) (se_yesno se) (se_open se) j)"

definition solve_once :: "nat \<Rightarrow> solve_env \<Rightarrow> pkg_jobs \<Rightarrow> (epkg \<times> pkg_jobs) run" where
  "solve_once fuel se j =
     run_bind (jobs_solve fuel se j) (\<lambda>(ret, j).
     run_bind (if ret = EPKG_OK then solve_again fuel se j else Ret (ret, j)) (\<lambda>(ret, j).
       Ret (ret, if j_type j = PKG_JOBS_DEINSTALL \<and> j_solved j \<noteq> 0 then pkg_jobs_set_deinstall_reasons j else j)))"

fun load_jobs :: "solve_env \<Rightarrow> pkg_solved list \<Rightarrow> pkg_jobs \<Rightarrow> pkg_jobs" where
  "load_jobs se [] j = j"
| "load_jobs se (job # jobs) j =
     (let p = u_pkg (j_universe j) (s_item0 job)
      in if pkg_type p \<noteq> PKG_REMOTE then load_jobs se jobs j
         else if \<not> se_loadable se p then j\<lparr>j_need_fetch := True\<rparr>
         else load_jobs se jobs (upd_universe (u_upd_pkg (s_item0 job) (\<lambda>p. e_ensure_loaded (se_env se) p [PKG_LOAD_FILES])) j))"

text \<open>
  The loop that checks for conflicts and solves again. The result tells whether there were conflicts, the last code,
  and whether the loop was left by \<open>break\<close>.
\<close>

fun conflict_loop ::
  "nat \<Rightarrow> (pkg_jobs \<Rightarrow> (epkg \<times> pkg_jobs) run) \<Rightarrow> nat \<Rightarrow> solve_env \<Rightarrow> bool \<Rightarrow> integritycheck \<Rightarrow> pkg_jobs \<Rightarrow>
     (bool \<times> epkg \<times> bool \<times> pkg_jobs) run" where
  "conflict_loop 0 rec fuel se has_conflicts tbl j = NoFuel"
| "conflict_loop (Suc n) rec fuel se has_conflicts tbl j =
     run_bind (pkg_jobs_check_conflicts fuel (se_env se) (se_files se) tbl (j\<lparr>j_conflicts_registered := 0\<rparr>)) (\<lambda>(rc, tbl, j).
       if rc = EPKG_CONFLICT then
         run_bind (rec (j\<lparr>j_jobs := [], j_count := 0\<rparr>)) (\<lambda>(rc, j).
           if j_conflicts_registered j > 0 then conflict_loop n rec fuel se True tbl j else Ret (True, rc, False, j))
       else if rc = EPKG_OK \<and> \<not> has_conflicts then Ret (has_conflicts, rc, True, j)
       else if j_conflicts_registered j > 0 then conflict_loop n rec fuel se has_conflicts tbl j
       else Ret (has_conflicts, rc, False, j))"

text \<open>\<open>depth\<close> bounds the nesting of the calls of \<open>pkg_jobs_solve\<close>.\<close>

fun pkg_jobs_solve :: "nat \<Rightarrow> nat \<Rightarrow> solve_env \<Rightarrow> pkg_jobs \<Rightarrow> (epkg \<times> pkg_jobs) run" where
  "pkg_jobs_solve 0 fuel se j = NoFuel"
| "pkg_jobs_solve (Suc depth) fuel se j =
     run_bind (solve_once fuel se j) (\<lambda>(ret, j).
       if ret \<noteq> EPKG_OK then Ret (ret, j)
       else let j = load_jobs se (j_jobs j) j
            in if j_solved j = 1 \<and> \<not> j_need_fetch j then
                 run_bind (conflict_loop fuel (pkg_jobs_solve depth fuel se) fuel se False [] j) (\<lambda>(_, _, _, j). Ret (ret, j))
               else Ret (ret, j))"

section \<open>Executing\<close>

record add_flags =
  af_force :: bool
  af_noscript :: bool
  af_force_missing :: bool
  af_upgrade :: bool
  af_automatic :: bool

record delete_flags =
  df_force :: bool
  df_noscript :: bool
  df_conflict :: bool

text \<open>
  The state \<open>'w\<close> of the system contains the files. \<open>w_repos\<close> is the repository of a package, \<open>None\<close> is \<open>NULL\<close>;
  \<open>w_env\<close> has the configured cache directory and what \<open>mkdirs\<close> may do; \<open>w_space\<close> is the block size and the number of free blocks that
  \<open>statfs\<close> reports of an existing directory.
\<close>

record 'w world =
  w_delete :: "pkg \<Rightarrow> delete_flags \<Rightarrow> 'w \<Rightarrow> epkg \<times> 'w"
  w_add_upgrade :: "string \<Rightarrow> add_flags \<Rightarrow> pkg \<Rightarrow> pkg \<Rightarrow> 'w \<Rightarrow> epkg \<times> 'w"
  w_add_from_remote :: "string \<Rightarrow> add_flags \<Rightarrow> pkg \<Rightarrow> 'w \<Rightarrow> epkg \<times> 'w"
  w_upgrade_lock :: "'w \<Rightarrow> epkg \<times> 'w"
  w_release_lock :: "'w \<Rightarrow> 'w"
  w_begin :: "'w \<Rightarrow> 'w"
  w_commit :: "'w \<Rightarrow> 'w"
  w_rollback :: "'w \<Rightarrow> 'w"
  w_files :: "'w \<Rightarrow> fsys"
  w_put_files :: "fsys \<Rightarrow> 'w \<Rightarrow> 'w"
  w_repos :: "pkg \<Rightarrow> fetch_env option"
  w_env :: fetch_env
  w_space :: "fsys \<Rightarrow> string \<Rightarrow> (int \<times> int) option"

definition install_target :: "'w world \<Rightarrow> universe_item \<Rightarrow> 'w \<Rightarrow> string" where
  \<comment> \<open>without a repository the buffer keeps the path in the repository\<close>
  "install_target w item s =
     (let path = path_buf (repo_path (it_pkg item));
          target = (if hd (path @ [CHR 0x00]) = CHR ''/'' then path
            else case pkg_repo_cached_name (w_repos w) (it_pkg item) (w_files w s) of None \<Rightarrow> path | Some name \<Rightarrow> name)
      in case it_jp item of Some jp \<Rightarrow> if jp_is_file jp then the (jp_path jp) else target | None \<Rightarrow> target)"

definition install_pkg :: "universe_item \<Rightarrow> pkg option \<Rightarrow> pkg" where
  \<comment> \<open>the new package with the attributes that the code sets\<close>
  "install_pkg item old =
     (let new = it_pkg item;
          new = (case it_jp item of Some jp \<Rightarrow> if jp_is_file jp then new\<lparr>pkg_reponame := Some ''local file''\<rparr> else new | None \<Rightarrow> new)
      in case old of Some p \<Rightarrow> new\<lparr>pkg_old_version := Some (pkg_version p)\<rparr> | None \<Rightarrow> new)"

definition install_flags :: "pkg_flags \<Rightarrow> pkg \<Rightarrow> add_flags" where
  "install_flags fl new = \<lparr>af_force = flag_force fl, af_noscript = flag_noscript fl, af_force_missing = flag_force_missing fl,
     af_upgrade = True, af_automatic = pkg_automatic new \<or> flag_automatic fl\<rparr>"

definition pkg_jobs_handle_install :: "'w world \<Rightarrow> pkg_solved \<Rightarrow> pkg_jobs \<Rightarrow> 'w \<Rightarrow> epkg \<times> pkg_jobs \<times> 'w" where
  "pkg_jobs_handle_install w ps j s =
     (let u = j_universe j;
          item = u_store u ! s_item0 ps;
          old = map_option (u_pkg u) (s_item1 ps);
          target = install_target w item s;
          new = install_pkg item old;
          j = upd_universe (u_upd_pkg (s_item0 ps) (\<lambda>_. new)) j;
          flags = install_flags (j_flags j) new;
          (retcode, s) = (case old of
              Some p \<Rightarrow> w_add_upgrade w target flags new p s
            | None \<Rightarrow> w_add_from_remote w target flags new s)
      in if retcode \<noteq> EPKG_OK then (retcode, j, w_rollback w s) else (EPKG_OK, j, s))"

definition refuses_delete :: "delete_flags \<Rightarrow> pkg_solved \<Rightarrow> pkg \<Rightarrow> bool" where
  \<comment> \<open>pkg is not deleted without force\<close>
  "refuses_delete flags ps p \<longleftrightarrow> s_type ps = PKG_SOLVED_DELETE \<and> (pkg_name p = ''pkg'' \<or> pkg_name p = ''pkg-devel'')
     \<and> \<not> df_force flags"

definition execute_job :: "'w world \<Rightarrow> delete_flags \<Rightarrow> pkg_solved \<Rightarrow> epkg \<Rightarrow> pkg_jobs \<Rightarrow> 'w \<Rightarrow> epkg \<times> pkg_jobs \<times> 'w" where
  "execute_job w flags ps retcode j s =
     (case s_type ps of
        PKG_SOLVED_INSTALL \<Rightarrow> pkg_jobs_handle_install w ps j s
      | PKG_SOLVED_UPGRADE \<Rightarrow> pkg_jobs_handle_install w ps j s
      | PKG_SOLVED_FETCH \<Rightarrow> (EPKG_FATAL, j, s)
      | _ \<Rightarrow>
          let p = u_pkg (j_universe j) (s_item0 ps)
          in if refuses_delete flags ps p then (retcode, j, s)
             else let (retcode, s) = w_delete w p (if j_type j = PKG_JOBS_UPGRADE then flags\<lparr>df_conflict := True\<rparr> else flags) s
                  in (retcode, j, s))"

fun execute_jobs :: "'w world \<Rightarrow> delete_flags \<Rightarrow> pkg_solved list \<Rightarrow> epkg \<Rightarrow> pkg_jobs \<Rightarrow> 'w \<Rightarrow> epkg \<times> pkg_jobs \<times> 'w" where
  "execute_jobs w flags [] retcode j s = (retcode, j, s)"
| "execute_jobs w flags (ps # pss) retcode j s =
     (let (retcode, j, s) = execute_job w flags ps retcode j s
      in if retcode \<noteq> EPKG_OK then (retcode, j, s) else execute_jobs w flags pss retcode j s)"

definition pkg_jobs_execute :: "nat \<Rightarrow> 'w world \<Rightarrow> pkg_jobs \<Rightarrow> 'w \<Rightarrow> (epkg \<times> pkg_jobs \<times> 'w) run" where
  "pkg_jobs_execute fuel w j s =
     (if flag_skip_install (j_flags j) then Ret (EPKG_OK, j, s)
      else let flags = \<lparr>df_force = flag_force (j_flags j), df_noscript = flag_noscript (j_flags j), df_conflict = False\<rparr>;
               (retcode, s) = w_upgrade_lock w s
           in if retcode \<noteq> EPKG_OK then Ret (retcode, j, s)
              else let s = w_begin w s
                   in run_bind (pkg_jobs_set_priorities fuel j) (\<lambda>j.
                        let (retcode, j, s) = execute_jobs w flags (j_jobs j) retcode j s
                        in Ret (retcode, j, w_release_lock w (w_commit w s))))"

section \<open>Fetching\<close>

text \<open>\<open>int64_t\<close> arithmetic wraps on the platforms the program is built for.\<close>

definition int64 :: "int \<Rightarrow> int" where
  "int64 n = (n + 2 ^ 63) mod 2 ^ 64 - 2 ^ 63"

definition fetched :: "pkg_jobs \<Rightarrow> pkg_solved \<Rightarrow> bool" where
  \<comment> \<open>the jobs that both loops consider\<close>
  "fetched j ps \<longleftrightarrow> s_type ps \<noteq> PKG_SOLVED_DELETE \<and> s_type ps \<noteq> PKG_SOLVED_UPGRADE_REMOVE
     \<and> pkg_type (u_pkg (j_universe j) (s_item0 ps)) = PKG_REMOTE"

definition fetched_items :: "pkg_jobs \<Rightarrow> item_id list" where
  "fetched_items j = map s_item0 (filter (fetched j) (j_jobs j))"

definition fetched_pkgs :: "pkg_jobs \<Rightarrow> pkg list" where
  "fetched_pkgs j = map (u_pkg (j_universe j)) (fetched_items j)"

text \<open>\<open>None\<close> is a path that \<open>pkg_repo_cached_name\<close> does not write, which \<open>stat\<close> then reads.\<close>

definition cached_path :: "'w world \<Rightarrow> bool \<Rightarrow> string \<Rightarrow> fsys \<Rightarrow> pkg \<Rightarrow> string option" where
  "cached_path w mirror cachedir f p =
     (if mirror then Some (path_buf (cachedir @ ''/'' @ repo_path p)) else pkg_repo_cached_name (w_repos w) p f)"

fun download_size :: "'w world \<Rightarrow> bool \<Rightarrow> string \<Rightarrow> fsys \<Rightarrow> pkg list \<Rightarrow> int \<Rightarrow> int option" where
  "download_size w mirror cachedir f [] dlsize = Some dlsize"
| "download_size w mirror cachedir f (p # ps) dlsize =
     (case cached_path w mirror cachedir f p of
        None \<Rightarrow> None
      | Some path \<Rightarrow>
          download_size w mirror cachedir f ps
            (case stat_size f path of
               None \<Rightarrow> int64 (dlsize + pkg_pkgsize p)
             | Some sz \<Rightarrow> int64 (dlsize + (pkg_pkgsize p - sz))))"

fun available_space :: "nat \<Rightarrow> 'w world \<Rightarrow> string \<Rightarrow> fsys \<Rightarrow> (int option \<times> fsys) run" where
  \<comment> \<open>the loop around \<open>statfs\<close>; \<open>None\<close> is an error\<close>
  "available_space 0 w dir f = NoFuel"
| "available_space (Suc n) w dir f =
     (if node_at f dir = None then
        (let (rc, f) = mkdirs (w_env w) dir f in if rc \<noteq> EPKG_OK then Ret (None, f) else available_space n w dir f)
      else case w_space w f dir of
        Some (bsize, bavail) \<Rightarrow> Ret (Some (int64 (bsize * bavail)), f)
      | None \<Rightarrow> Ret (None, f))"

definition fetch_package :: "'w world \<Rightarrow> bool \<Rightarrow> string \<Rightarrow> pkg \<Rightarrow> fsys \<Rightarrow> epkg \<times> pkg \<times> fsys" where
  "fetch_package w mirror cachedir p f =
     (if mirror then pkg_repo_mirror_package (w_repos w) p cachedir f else pkg_repo_fetch_package (w_repos w) p f)"

definition fetch_dir :: "'w world \<Rightarrow> pkg_jobs \<Rightarrow> string" where
  "fetch_dir w j = (case j_destdir j of
      Some d \<Rightarrow> if flag_fetch_mirror (j_flags j) then d else fe_cachedir (w_env w) | None \<Rightarrow> fe_cachedir (w_env w))"

definition pkg_jobs_fetch :: "nat \<Rightarrow> 'w world \<Rightarrow> pkg_jobs \<Rightarrow> fsys \<Rightarrow> (epkg \<times> pkg_jobs \<times> fsys) run" where
  "pkg_jobs_fetch fuel w j f =
     (let mirror = flag_fetch_mirror (j_flags j); cachedir = fetch_dir w j
      in case download_size w mirror cachedir f (fetched_pkgs j) 0 of
           None \<Rightarrow> Crash
         | Some dlsize \<Rightarrow>
             if dlsize = 0 then Ret (EPKG_OK, j, f)
             else run_bind (available_space fuel w cachedir f) (\<lambda>(space, f).
               case space of
                 None \<Rightarrow> Ret (EPKG_FATAL, j, f)
               | Some fsize \<Rightarrow>
                   if dlsize > fsize then Ret (EPKG_FATAL, j, f)
                   else if flag_dry_run (j_flags j) then Ret (EPKG_OK, j, f)
                   else let (rc, u, f) = fetch_items (fetch_package w mirror cachedir) (fetched_items j) (j_universe j) f
                        in Ret (rc, j\<lparr>j_universe := u\<rparr>, f)))"

definition fetch_jobs :: "nat \<Rightarrow> 'w world \<Rightarrow> pkg_jobs \<Rightarrow> 'w \<Rightarrow> (epkg \<times> pkg_jobs \<times> 'w) run" where
  \<comment> \<open>\<open>pkg_jobs_fetch\<close> on the files of the system\<close>
  "fetch_jobs fuel w j s = run_bind (pkg_jobs_fetch fuel w j (w_files w s)) (\<lambda>(rc, j, f). Ret (rc, j, w_put_files w f s))"

section \<open>Applying\<close>

text \<open>The hooks of plugins see the job but are not part of the model.\<close>

definition apply_first_run ::
  "nat \<Rightarrow> nat \<Rightarrow> solve_env \<Rightarrow> 'w world \<Rightarrow> pkg_jobs \<Rightarrow> 'w \<Rightarrow> (epkg \<times> pkg_jobs \<times> 'w) run" where
  \<comment> \<open>after the fetch of the first run: conflicts stop the job and are reported\<close>
  "apply_first_run depth fuel se w j s =
     run_bind (conflict_loop fuel (pkg_jobs_solve depth fuel se) fuel se False [] j) (\<lambda>(has_conflicts, rc, stop, j).
       if stop then pkg_jobs_execute fuel w j s
       else if has_conflicts then
         run_bind (if j_conflicts_registered j = 0 then pkg_jobs_set_priorities fuel j else Ret j)
           (\<lambda>j. Ret (EPKG_CONFLICT, j, s))
       else Ret (rc, j, s))"

definition pkg_jobs_apply ::
  "nat \<Rightarrow> nat \<Rightarrow> solve_env \<Rightarrow> 'w world \<Rightarrow> pkg_jobs \<Rightarrow> 'w \<Rightarrow> (epkg \<times> pkg_jobs \<times> 'w) run" where
  "pkg_jobs_apply depth fuel se w j s =
     (if j_solved j = 0 then Ret (EPKG_FATAL, j, s)
      else if j_type j = PKG_JOBS_FETCH then fetch_jobs fuel w j s
      else if j_need_fetch j then
        run_bind (fetch_jobs fuel w j s) (\<lambda>(rc, j, s).
          if rc \<noteq> EPKG_OK then Ret (rc, j, s)
          else if j_solved j = 1 then apply_first_run depth fuel se w j s
          else pkg_jobs_execute fuel w j s)
      else pkg_jobs_execute fuel w j s)"

section \<open>The loop around the SAT solver\<close>

text \<open>\<open>k\<close> is \<open>j\<close> with some requests dropped.\<close>

definition weaker :: "pkg_jobs \<Rightarrow> pkg_jobs \<Rightarrow> bool" where
  "weaker k j \<longleftrightarrow> (\<exists>A D. k = j\<lparr>j_request_add := A, j_request_delete := D\<rparr>
     \<and> set A \<subseteq> set (j_request_add j) \<and> set D \<subseteq> set (j_request_delete j)
     \<and> length A \<le> length (j_request_add j) \<and> length D \<le> length (j_request_delete j))"

lemma weakerI:
  "set A \<subseteq> set (j_request_add j) \<Longrightarrow> length A \<le> length (j_request_add j) \<Longrightarrow> weaker (j\<lparr>j_request_add := A\<rparr>) j"
  "set D \<subseteq> set (j_request_delete j) \<Longrightarrow> length D \<le> length (j_request_delete j) \<Longrightarrow> weaker (j\<lparr>j_request_delete := D\<rparr>) j"
  unfolding weaker_def
  by (rule exI [of _ A], rule exI [of _ "j_request_delete j"], simp, rule exI [of _ "j_request_add j"], rule exI [of _ D], simp)

lemma weaker_refl [simp]: "weaker j j"
  using weakerI(1) [of "j_request_add j" j] by simp

lemma weaker_trans:
  assumes "weaker l k" "weaker k j"
  shows "weaker l j"
proof -
  obtain A D B E where "k = j\<lparr>j_request_add := A, j_request_delete := D\<rparr>" "l = k\<lparr>j_request_add := B, j_request_delete := E\<rparr>"
    "set A \<subseteq> set (j_request_add j)" "set D \<subseteq> set (j_request_delete j)" "set B \<subseteq> set A" "set E \<subseteq> set D"
    "length A \<le> length (j_request_add j)" "length D \<le> length (j_request_delete j)" "length B \<le> length A" "length E \<le> length D"
    using assms unfolding weaker_def by force
  then show ?thesis unfolding weaker_def by - (rule exI [of _ B], rule exI [of _ E], auto)
qed

lemma weaker_fields:
  assumes "weaker k j"
  shows "j_universe k = j_universe j" "j_jobs k = j_jobs j" "j_type k = j_type j" "j_count k = j_count j"
    "j_request_delete j = [] \<Longrightarrow> j_request_delete k = []" "request_count k \<le> request_count j"
  using assms by (auto simp: weaker_def request_count_def)

lemma upgrade_chains_weaker:
  assumes "pkg_jobs_universe_process_upgrade_chains j = Some k"
  shows "weaker k j"
proof -
  obtain r where r: "upgrade_chains (j_universe j) (map snd (u_items (j_universe j))) (j_request_add j) = Some r"
    "k = j\<lparr>j_request_add := r\<rparr>"
    using assms by (auto simp: pkg_jobs_universe_process_upgrade_chains_def split: option.splits)
  show ?thesis unfolding r(2) using upgrade_chains_filter [OF r(1)] by (intro weakerI) auto
qed

lemma hash_del_weaker: "set (hash_del k h) \<subseteq> set h" "length (hash_del k h) \<le> length h"
  by (auto simp: hash_del_def)

lemma drop_failed_weaker: "drop_failed yesno p failed j = Some (rc, k) \<Longrightarrow> weaker k j"
proof (induction failed arbitrary: j)
  case (Cons f failed)
  let ?var = "p_vars p ! nat (f - 1)"
  let ?j = "if v_to_install ?var then j\<lparr>j_request_add := hash_del (v_unit ?var) (j_request_add j)\<rparr>
      else j\<lparr>j_request_delete := hash_del (v_unit ?var) (j_request_delete j)\<rparr>"
  have "weaker ?j j" by (simp add: weakerI hash_del_weaker)
  with Cons.prems Cons.IH [of ?j] show ?case
    by (simp add: Let_def split: if_splits) (blast intro: weaker_trans)+
qed simp

lemma sat_problem_weaker:
  assumes "pkg_solve_sat_problem picosat yesno j p = Some (rc, q, k)"
  shows "weaker k j"
  using assms drop_failed_weaker
  by (auto simp: pkg_solve_sat_problem_def Let_def split: picosat_result.splits option.splits)

lemma solve_again_step:
  assumes "solve_again fuel se j = Ret (EPKG_OK, j')"
  obtains n k p rc q l where "fuel = Suc n" "pkg_jobs_universe_process_upgrade_chains j = Some k"
    "pkg_solve_jobs_to_sat k = Some p" "pkg_solve_sat_problem (se_picosat se) (se_yesno se) k p = Some (rc, q, l)"
    "rc = EPKG_AGAIN \<and> solve_again n se l = Ret (EPKG_OK, j') \<or> rc = EPKG_OK \<and> j' = pkg_solve_sat_to_jobs q l"
proof (cases fuel)
  case (Suc n)
  have rcs: "rc = EPKG_OK \<or> rc = EPKG_AGAIN \<or> rc = EPKG_FATAL"
    if "pkg_solve_sat_problem (se_picosat se) (se_yesno se) k p = Some (rc, q, l)" for k p rc q l
    using that drop_failed_rc by (fastforce simp: pkg_solve_sat_problem_def Let_def split: picosat_result.splits option.splits)
  obtain k p rc q l where k: "pkg_jobs_universe_process_upgrade_chains j = Some k" "pkg_solve_jobs_to_sat k = Some p"
    "pkg_solve_sat_problem (se_picosat se) (se_yesno se) k p = Some (rc, q, l)"
    using assms unfolding Suc by (auto split: option.splits)
  then show ?thesis using that [OF Suc k] assms rcs [OF k(3)] unfolding Suc by (auto split: if_splits)
qed (use assms in simp)

definition realises :: "pkg_jobs \<Rightarrow> item_id set \<Rightarrow> pkg_jobs \<Rightarrow> bool" where
  \<comment> \<open>the jobs of \<open>j'\<close> install and remove what turns the installed packages into \<open>S\<close>\<close>
  "realises j S j' \<longleftrightarrow>
     (\<Union>r \<in> set (j_jobs j'). job_adds r) = {i \<in> linked_items (j_universe j). i \<in> S \<and> \<not> is_installed (u_pkg (j_universe j) i)}
     \<and> (\<Union>r \<in> set (j_jobs j'). job_removes r) = {i \<in> linked_items (j_universe j). i \<notin> S \<and> is_installed (u_pkg (j_universe j) i)}
     \<and> j_count j' = j_count j + int (length (j_jobs j'))"

lemma weaker_realises: "weaker k j \<Longrightarrow> realises k S j' \<Longrightarrow> realises j S j'"
  using weaker_fields(1,4) [of k j] by (simp add: realises_def)

text \<open>
  How the requests change from round to round: the candidates of one uid are reduced; when no consistent set fulfils what is left,
  the user is asked about some of the requests, and those that the user agrees to drop are dropped. At least one is.
\<close>

definition ask_text :: "string \<Rightarrow> pkg_jobs \<Rightarrow> item_id \<Rightarrow> string" where
  "ask_text verb j i = ''cannot '' @ verb @ '' package '' @ pkg_uniqueid (u_pkg (j_universe j) i) @ '', remove it from request? [Y/n]: ''"

inductive agreed :: "(string \<Rightarrow> bool) \<Rightarrow> pkg_jobs \<Rightarrow> pkg_jobs \<Rightarrow> bool" for yesno where
  agreed_add: "hash_find i (j_request_add j) \<noteq> None \<Longrightarrow> yesno (ask_text ''install'' j i)
    \<Longrightarrow> agreed yesno j (j\<lparr>j_request_add := hash_del i (j_request_add j)\<rparr>)"
| agreed_delete: "hash_find i (j_request_delete j) \<noteq> None \<Longrightarrow> yesno (ask_text ''remove'' j i)
    \<Longrightarrow> agreed yesno j (j\<lparr>j_request_delete := hash_del i (j_request_delete j)\<rparr>)"

inductive rounds :: "(string \<Rightarrow> bool) \<Rightarrow> pkg_jobs \<Rightarrow> pkg_jobs \<Rightarrow> bool" for yesno where
  last_round: "pkg_jobs_universe_process_upgrade_chains j = Some k \<Longrightarrow> rounds yesno j k"
| more_rounds: "pkg_jobs_universe_process_upgrade_chains j = Some k
    \<Longrightarrow> \<not> (\<exists>S \<subseteq> linked_items (j_universe k). consistent (j_universe k) S \<and> requested k S)
    \<Longrightarrow> (agreed yesno)\<^sup>+\<^sup>+ k l \<Longrightarrow> rounds yesno l m \<Longrightarrow> rounds yesno j m"

lemma drop_failed_agreed:
  assumes "drop_failed yesno p failed j = Some (EPKG_AGAIN, k)"
    and "\<And>v. v < p_nvars p \<Longrightarrow> v_uid (p_vars p ! v) = pkg_uniqueid (u_pkg (j_universe j) (v_unit (p_vars p ! v)))"
  shows "(agreed yesno)\<^sup>+\<^sup>+ j k"
  using assms
proof (induction failed arbitrary: j)
  case (Cons f failed)
  let ?var = "p_vars p ! nat (f - 1)"
  let ?j = "if v_to_install ?var then j\<lparr>j_request_add := hash_del (v_unit ?var) (j_request_add j)\<rparr>
      else j\<lparr>j_request_delete := hash_del (v_unit ?var) (j_request_delete j)\<rparr>"
  have b: "1 \<le> f \<and> f \<le> int (p_nvars p)" and y: "yesno (yesno_text ?var)"
    and h: "hash_find (v_unit ?var) (if v_to_install ?var then j_request_add j else j_request_delete j) \<noteq> None"
    and rest: "(if failed = [] then Some (EPKG_AGAIN, ?j) else drop_failed yesno p failed ?j) = Some (EPKG_AGAIN, k)"
    using Cons.prems(1) by (simp_all add: Let_def split: if_splits)
  have "nat (f - 1) < p_nvars p" using b by linarith
  note u = Cons.prems(2) [OF this]
  have "yesno_text ?var = ask_text (if v_to_install ?var then ''install'' else ''remove'') j (v_unit ?var)"
    by (simp only: yesno_text_def ask_text_def u)
  then have "yesno (ask_text (if v_to_install ?var then ''install'' else ''remove'') j (v_unit ?var))" using y by simp
  then have one: "agreed yesno j ?j"
    using h agreed_add [of "v_unit ?var" j yesno] agreed_delete [of "v_unit ?var" j yesno] by (cases "v_to_install ?var") simp_all
  show ?case
  proof (cases "failed = []")
    case True
    then show ?thesis using rest one by simp
  next
    case False
    then have "(agreed yesno)\<^sup>+\<^sup>+ ?j k" using Cons.IH [of ?j] rest Cons.prems(2) by simp
    then show ?thesis using one by (rule tranclp_into_tranclp2 [rotated])
  qed
qed simp

lemma sat_again:
  assumes ok: "universe_ok (j_universe k)" and p: "pkg_solve_jobs_to_sat k = Some p" and s: "\<forall>s. picosat_answers f s"
    and again: "pkg_solve_sat_problem f yesno k p = Some (EPKG_AGAIN, q, l)"
  shows "\<not> (\<exists>S \<subseteq> linked_items (j_universe k). consistent (j_universe k) S \<and> requested k S)" "(agreed yesno)\<^sup>+\<^sup>+ k l"
proof -
  show "\<not> (\<exists>S \<subseteq> linked_items (j_universe k). consistent (j_universe k) S \<and> requested k S)"
  proof
    assume "\<exists>S \<subseteq> linked_items (j_universe k). consistent (j_universe k) S \<and> requested k S"
    then obtain S where S: "S \<subseteq> linked_items (j_universe k)" "consistent (j_universe k) S" "requested k S" by blast
    from sat_step_complete [OF ok p spec [OF s] S, of yesno] again show False by auto
  qed
  have v: "v_uid (p_vars p ! v) = pkg_uniqueid (u_pkg (j_universe k) (v_unit (p_vars p ! v)))" if "v < p_nvars p" for v
    using that jobs_to_sat_facts(3,4,8) [OF ok p] unit_nth [of v p] by simp
  obtain failed where "drop_failed yesno (p\<lparr>p_sat := sat_instance (j_universe k) p\<rparr>) failed k = Some (EPKG_AGAIN, l)"
    using again by (auto simp: pkg_solve_sat_problem_def sat_instance_def Let_def split: picosat_result.splits option.splits)
  then show "(agreed yesno)\<^sup>+\<^sup>+ k l" by (rule drop_failed_agreed) (use v in simp)
qed
lemma solve_rounds:
  assumes "universe_ok (j_universe j)" and "j_jobs j = []" and "\<forall>s. picosat_answers (se_picosat se) s"
    and "solve_again fuel se j = Ret (EPKG_OK, j')"
  shows "\<exists>k S. rounds (se_yesno se) j k \<and> weaker k j \<and> consistent (j_universe j) S \<and> requested k S
    \<and> (one_candidate (j_universe j) S \<longrightarrow> realises j S j')"
  using assms(1,2,4)
proof (induction fuel arbitrary: j)
  case (Suc n)
  obtain m k p rc q l where s: "Suc n = Suc m" "pkg_jobs_universe_process_upgrade_chains j = Some k"
    "pkg_solve_jobs_to_sat k = Some p" "pkg_solve_sat_problem (se_picosat se) (se_yesno se) k p = Some (rc, q, l)"
    "rc = EPKG_AGAIN \<and> solve_again m se l = Ret (EPKG_OK, j') \<or> rc = EPKG_OK \<and> j' = pkg_solve_sat_to_jobs q l"
    using Suc.prems(3) by (rule solve_again_step)
  have k: "weaker k j" by (rule upgrade_chains_weaker [OF s(2)])
  note kf = weaker_fields [OF k]
  have ok: "universe_ok (j_universe k)" "j_jobs k = []" using Suc.prems kf by simp_all
  show ?case
  proof (cases "rc = EPKG_OK")
    case True
    have r: "pkg_solve_sat_problem (se_picosat se) (se_yesno se) k p = Some (EPKG_OK, q, l)" using s(4) True by simp
    have "consistent (j_universe j) (installed_after q) \<and> requested k (installed_after q)"
      using sat_step_sound [OF ok(1) s(3) _ r] assms(3) kf by simp
    moreover have "j' = pkg_solve_sat_to_jobs q l" using s(5) True by simp
    moreover have "one_candidate (j_universe j) (installed_after q) \<longrightarrow> realises k (installed_after q) (pkg_solve_sat_to_jobs q l)"
      using sat_step_jobs [OF ok s(3) r, folded realises_def] kf(1) by simp
    ultimately show ?thesis using weaker_realises [OF k] k last_round [OF s(2)] by blast
  next
    case False
    then have again: "rc = EPKG_AGAIN" "solve_again n se l = Ret (EPKG_OK, j')" using s(1,5) by auto
    have l: "weaker l j" by (rule weaker_trans [OF sat_problem_weaker [OF s(4)] k])
    note lf = weaker_fields [OF l]
    note drop = sat_again [OF ok(1) s(3) assms(3) s(4) [unfolded again(1)]]
    from Suc.IH [of l] Suc.prems lf again(2) obtain k' S where i: "rounds (se_yesno se) l k'" "weaker k' l" "consistent (j_universe j) S"
      "requested k' S" "one_candidate (j_universe j) S \<longrightarrow> realises l S j'" by metis
    have "rounds (se_yesno se) j k'" by (rule more_rounds [OF s(2) drop i(1)])
    moreover have "weaker k' j" by (rule weaker_trans [OF i(2) l])
    ultimately show ?thesis using weaker_realises [OF l] i(3-5) by blast
  qed
qed simp

text \<open>
  C3: when the loop around the SAT solver ends with \<open>EPKG_OK\<close>, the jobs come from a set of packages that is consistent and fulfils the
  requests that are left: in every round the candidates of one uid are reduced, and only when no consistent set at all fulfils the
  requests of the round, requests are dropped, each of them after the user agreed to the question about its package. When that set holds one candidate per
  uid, the jobs install and remove exactly what makes the system this set.
\<close>

theorem solve_again_sound:
  assumes "universe_ok (j_universe j)" and "j_jobs j = []" and "\<forall>s. picosat_answers (se_picosat se) s"
    and "solve_again fuel se j = Ret (EPKG_OK, j')"
  shows "\<exists>k S. rounds (se_yesno se) j k \<and> consistent (j_universe j) S \<and> requested k S
    \<and> (one_candidate (j_universe j) S \<longrightarrow> realises j S j')"
  using solve_rounds [OF assms] by blast

text \<open>
  What the manual of PicoSAT says of the failed assumptions: they alone contradict the clauses.
\<close>

definition picosat_core :: "(picosat \<Rightarrow> picosat_result) \<Rightarrow> picosat \<Rightarrow> bool" where
  "picosat_core f s \<longleftrightarrow> (case f s of
      PICOSAT_SATISFIABLE deref \<Rightarrow> True
    | PICOSAT_UNSATISFIABLE failed \<Rightarrow> set failed \<subseteq> set (ps_assumed s) \<and> (\<forall>deref. \<not> sat_model deref (s\<lparr>ps_assumed := failed\<rparr>)))"

lemma consistent_empty: "universe_ok u \<Longrightarrow> consistent u {}"
  by (simp add: consistent_def)

text \<open>Nothing contradicts the clauses but requests: to install nothing is consistent.\<close>

lemma core_nonempty:
  assumes ok: "universe_ok (j_universe j)" and p: "pkg_solve_jobs_to_sat j = Some p"
    and "picosat_core f (sat_instance (j_universe j) p)" "f (sat_instance (j_universe j) p) = PICOSAT_UNSATISFIABLE failed"
  shows "failed \<noteq> []"
proof
  let ?s = "sat_instance (j_universe j) p"
  obtain d where d: "chosen (j_universe j) d = {}" using chosen_all [OF ok, of "{}"] by auto
  assume "failed = []"
  then have "\<not> sat_model d (?s\<lparr>ps_assumed := []\<rparr>)" using assms(3,4) by (simp add: picosat_core_def)
  then have n: "\<not> (\<forall>c \<in> set (ps_clauses ?s). \<exists>l \<in> set c. lit_true d l)" by (simp add: sat_model_def)
  have "(\<forall>c \<in> set (ps_clauses ?s). \<exists>l \<in> set c. lit_true d l) \<longleftrightarrow> rules_hold {} p"
    using clause_holds [OF ok p, of _ d] jobs_to_sat_facts(7) [OF ok p] d by (simp add: clauses_instance rules_hold_def)
  with n show False using jobs_to_sat_consistent(1) [OF ok p, of "{}"] consistent_empty [OF ok] by simp
qed

lemma assumed_positive:
  assumes ok: "universe_ok (j_universe j)" and p: "pkg_solve_jobs_to_sat j = Some p" and "j_request_delete j = []"
    and "f \<in> set (ps_assumed (sat_instance (j_universe j) p))"
  shows "1 \<le> f \<and> f \<le> int (p_nvars p)"
proof -
  let ?u = "j_universe j" and ?p = "initial_problem (j_universe j)"
  have "ps_assumed (p_sat p) = concat (map (\<lambda>x. chain_lits j ?p (snd x)) (u_items ?u))"
    using jobs_to_sat_steps [OF ok] p by (auto simp: steps_to_def picosat_init_def)
  with assms(4) obtain c where c: "f \<in> set (chain_lits j ?p c)" by (auto simp: clauses_instance)
  then obtain v where v: "v \<in> set (var_chain ?p (pkg_uniqueid (u_pkg ?u (hd c))))" "f \<in> set (request_lits j ?p v)"
    by (auto simp: chain_lits_def)
  then have b: "v < length (p_vars ?p)" using var_chain_bound [OF vars_ok_initial [OF ok]] by blast
  have n: "length (p_vars ?p) = length (concat (map snd (u_items ?u)))"
    using units_initial [of ?u] unfolding units_def by (metis length_map)
  have "f = v_order (p_vars ?p ! v)" using v(2) assms(3) by (simp add: request_lits_def hash_find_def split: if_splits)
  then have "f = int v + 1" using initial_order [of v ?u] b n by simp
  moreover have "p_nvars p = length (p_vars ?p)" using jobs_to_sat_facts(2,3) [OF ok p] n by simp
  ultimately show ?thesis using b by simp
qed

lemma drop_failed_defined:
  "failed \<noteq> [] \<Longrightarrow> \<forall>f \<in> set failed. 1 \<le> f \<and> f \<le> int (p_nvars p) \<Longrightarrow> drop_failed yesno p failed j \<noteq> None"
  by (induction failed arbitrary: j) (auto simp: Let_def)

lemma select_candidate_some:
  assumes "i \<in> set c" "\<not> is_installed (u_pkg u i)"
  shows "select_candidate u c \<noteq> None"
proof -
  let ?f = "\<lambda>selected cur. if is_installed (u_pkg u cur) then selected else case selected of
      None \<Rightarrow> Some cur | Some s \<Rightarrow> if pkg_version_change_between (u_pkg u cur) (Some (u_pkg u s)) = PKG_UPGRADE then Some cur else Some s"
  have keep: "foldl ?f (Some a) c \<noteq> None" for a c by (induction c arbitrary: a) auto
  have "foldl ?f a c \<noteq> None" for a
    using assms by (induction c arbitrary: a) (auto simp: keep split: option.split simp del: not_None_eq)
  then show ?thesis by (simp add: select_candidate_def)
qed

definition has_candidates :: "pkg_jobs_universe \<Rightarrow> bool" where
  \<comment> \<open>not all of three or more packages of one uid are installed\<close>
  "has_candidates u \<longleftrightarrow> (\<forall>c \<in> snd ` set (u_items u). 2 < length c \<longrightarrow> (\<exists>i \<in> set c. \<not> is_installed (u_pkg u i)))"

lemma upgrade_chains_defined:
  assumes "has_candidates (j_universe j)"
  shows "\<exists>k. pkg_jobs_universe_process_upgrade_chains j = Some k"
proof -
  let ?u = "j_universe j"
  have one: "\<exists>r'. upgrade_chain ?u c r = Some r'" if "c \<in> snd ` set (u_items ?u)" for c r
  proof -
    have "\<exists>i \<in> set c. \<not> is_installed (u_pkg ?u i)" if l: "length c > 1" "filter (\<lambda>i. is_installed (u_pkg ?u i)) c = [] \<or> length c > 2"
    proof (cases "length c > 2")
      case True
      then show ?thesis using assms \<open>c \<in> snd ` set (u_items ?u)\<close> unfolding has_candidates_def by blast
    next
      case False
      with l show ?thesis by (cases c) (auto simp: filter_empty_conv)
    qed
    then have "select_candidate ?u c \<noteq> None" if "length c > 1 \<and> (filter (\<lambda>i. is_installed (u_pkg ?u i)) c = [] \<or> length c > 2)"
      using that select_candidate_some [of _ c ?u] by blast
    then show ?thesis by (auto simp: upgrade_chain_def Let_def split: option.split)
  qed
  have "\<exists>r'. upgrade_chains ?u cs r = Some r'" if "set cs \<subseteq> snd ` set (u_items ?u)" for cs r
    using that one by (induction cs arbitrary: r) (auto simp: image_subset_iff split: option.split)
  from this [of "map snd (u_items ?u)" "j_request_add j"] show ?thesis
    by (auto simp: pkg_jobs_universe_process_upgrade_chains_def)
qed

text \<open>
  C4: without requests to delete, the loop around the SAT solver always ends with an answer, when no three packages of one uid are
  installed at once: it neither fails an assertion nor reads outside an array, and each round but the last drops a request, so
  as many rounds as there are requests and one are enough.
\<close>

theorem solve_again_ends:
  assumes "universe_ok (j_universe j)" "has_candidates (j_universe j)" "j_request_delete j = []"
    and "\<forall>s. picosat_core (se_picosat se) s" "request_count j < fuel"
  shows "\<exists>rc j'. solve_again fuel se j = Ret (rc, j') \<and> (rc = EPKG_OK \<or> rc = EPKG_FATAL)"
  using assms(1,2,3,5)
proof (induction fuel arbitrary: j)
  case (Suc n)
  obtain k where k: "pkg_jobs_universe_process_upgrade_chains j = Some k" using upgrade_chains_defined Suc.prems(2) by blast
  note w = upgrade_chains_weaker [OF k]
  have ok: "universe_ok (j_universe k)" "j_request_delete k = []" using weaker_fields [OF w] Suc.prems by simp_all
  obtain p where p: "pkg_solve_jobs_to_sat k = Some p" using jobs_to_sat_total [OF ok(1)] by blast
  let ?s = "sat_instance (j_universe k) p"
  show ?case
  proof (cases "se_picosat se ?s")
    case (PICOSAT_SATISFIABLE deref)
    then show ?thesis by (simp add: k p pkg_solve_sat_problem_def sat_instance_def Let_def)
  next
    case (PICOSAT_UNSATISFIABLE failed)
    have "set failed \<subseteq> set (ps_assumed ?s)" using assms(4) PICOSAT_UNSATISFIABLE by (auto simp: picosat_core_def split: picosat_result.splits)
    then have "drop_failed (se_yesno se) (p\<lparr>p_sat := ?s\<rparr>) failed k \<noteq> None"
      using core_nonempty [OF ok(1) p, of "se_picosat se" failed] PICOSAT_UNSATISFIABLE assms(4) assumed_positive [OF ok(1) p ok(2)]
      by (intro drop_failed_defined) auto
    then obtain rc l where l: "drop_failed (se_yesno se) (p\<lparr>p_sat := ?s\<rparr>) failed k = Some (rc, l)" by auto
    then have step: "solve_again (Suc n) se j =
        (if rc = EPKG_FATAL then Ret (EPKG_FATAL, l\<lparr>j_solved := 0\<rparr>) else if rc = EPKG_AGAIN then solve_again n se l
         else Ret (EPKG_OK, pkg_solve_sat_to_jobs (p\<lparr>p_sat := ?s\<rparr>) l))"
      using PICOSAT_UNSATISFIABLE by (simp add: k p pkg_solve_sat_problem_def sat_instance_def Let_def)
    show ?thesis
    proof (cases "rc = EPKG_AGAIN")
      case True
      have lj: "weaker l j" by (rule weaker_trans [OF drop_failed_weaker [OF l] w])
      have "request_count l < n" using drop_failed_shrinks [OF l [unfolded True]] weaker_fields(6) [OF w] Suc.prems(4) by simp
      then show ?thesis using Suc.IH [of l] weaker_fields [OF lj] Suc.prems step True by simp
    qed (use drop_failed_rc [OF l] step in auto)
  qed
qed simp

text \<open>A SAT solver that tries all assignments does what PicoSAT promises.\<close>

definition true_on :: "int list \<Rightarrow> int \<Rightarrow> int" where
  "true_on vs k = (if k \<in> set vs then 1 else - 1)"

definition brute_sat :: "picosat \<Rightarrow> picosat_result" where
  "brute_sat s =
     (case find (\<lambda>vs. sat_model (true_on vs) s) (subseqs (map abs (concat (ps_clauses s) @ ps_assumed s))) of
        Some vs \<Rightarrow> PICOSAT_SATISFIABLE (true_on vs)
      | None \<Rightarrow> PICOSAT_UNSATISFIABLE (ps_assumed s))"

lemma sat_model_cong:
  assumes "\<And>l. l \<in> set (concat (ps_clauses s) @ ps_assumed s) \<Longrightarrow> lit_true d l = lit_true e l"
  shows "sat_model d s = sat_model e s"
proof -
  have "(\<exists>l \<in> set c. lit_true d l) = (\<exists>l \<in> set c. lit_true e l)" if "c \<in> set (ps_clauses s)" for c
    by (rule bex_cong [OF refl], rule assms) (use that in auto)
  moreover have "lit_true d l = lit_true e l" if "l \<in> set (ps_assumed s)" for l using that assms by simp
  ultimately show ?thesis by (simp add: sat_model_def)
qed

lemma brute_model:
  assumes "sat_model d s"
  shows "\<exists>vs \<in> set (subseqs (map abs (concat (ps_clauses s) @ ps_assumed s))). sat_model (true_on vs) s"
proof -
  let ?ls = "concat (ps_clauses s) @ ps_assumed s"
  let ?vs = "filter (\<lambda>v. d v > 0) (map abs ?ls)"
  have "lit_true (true_on ?vs) l = lit_true d l" if l: "l \<in> set ?ls" for l
  proof -
    have "\<bar>l\<bar> \<in> set (map abs ?ls)" using l by (simp only: set_map imageI)
    then have "true_on ?vs \<bar>l\<bar> = (if d \<bar>l\<bar> > 0 then 1 else - 1)" by (simp only: true_on_def set_filter mem_Collect_eq simp_thms)
    then show ?thesis by (cases "l > 0") (simp_all add: lit_true_def)
  qed
  then have "sat_model (true_on ?vs) s" using assms sat_model_cong [of s "true_on ?vs" d] by blast
  moreover have "?vs \<in> set (subseqs (map abs ?ls))" by (metis in_set_subseqs subseq_filter_left)
  ultimately show ?thesis by blast
qed

lemma brute_sat_answers: "picosat_answers brute_sat s" "picosat_core brute_sat s"
proof -
  let ?vss = "subseqs (map abs (concat (ps_clauses s) @ ps_assumed s))"
  have "(\<exists>vs. brute_sat s = PICOSAT_SATISFIABLE (true_on vs) \<and> sat_model (true_on vs) s)
      \<or> brute_sat s = PICOSAT_UNSATISFIABLE (ps_assumed s) \<and> (\<forall>d. \<not> sat_model d s)"
  proof (cases "find (\<lambda>vs. sat_model (true_on vs) s) ?vss")
    case None
    then have "\<not> sat_model d s" for d using brute_model [of d s] by (auto simp: find_None_iff simp del: map_append in_set_subseqs)
    then show ?thesis unfolding brute_sat_def None by simp
  next
    case (Some vs)
    then have "sat_model (true_on vs) s" by (auto simp: find_Some_iff simp del: map_append in_set_subseqs)
    then show ?thesis unfolding brute_sat_def by (auto simp add: Some simp del: map_append)
  qed
  then show "picosat_answers brute_sat s" "picosat_core brute_sat s"
    by (auto simp: picosat_answers_def picosat_core_def)
qed


definition demo_solve_env :: solve_env where
  "demo_solve_env = \<lparr>se_env = demo_env, se_files = pair_files, se_yesno = (\<lambda>_. True), se_open = (\<lambda>_. None), se_picosat = brute_sat,
     se_loadable = (\<lambda>_. True)\<rparr>"

definition demo_result :: pkg_jobs where
  "demo_result = snd (the (the_run (solve_again 2 demo_solve_env demo_jobs)))"

lemma demo_picosat: "\<forall>s. picosat_answers (se_picosat demo_solve_env) s" "\<forall>s. picosat_core (se_picosat demo_solve_env) s"
  by (simp_all add: demo_solve_env_def brute_sat_answers)

lemma solve_again_sound_witness:
  "solve_again 2 demo_solve_env demo_jobs = Ret (EPKG_OK, demo_result)
    \<and> (\<exists>k S. rounds (se_yesno demo_solve_env) demo_jobs k \<and> consistent (j_universe demo_jobs) S \<and> requested k S)"
proof -
  have "the_run (solve_again 2 demo_solve_env demo_jobs) = Some (EPKG_OK, demo_result)" by code_simp
  then have run: "solve_again 2 demo_solve_env demo_jobs = Ret (EPKG_OK, demo_result)" by (simp add: the_run_Some)
  then show ?thesis using solve_again_sound [OF demo_universe_ok demo_one(1) demo_picosat(1) run] by blast
qed

lemma solve_again_ends_witness: "\<exists>rc j'. solve_again 2 demo_solve_env demo_jobs = Ret (rc, j') \<and> (rc = EPKG_OK \<or> rc = EPKG_FATAL)"
proof -
  have "has_candidates (j_universe demo_jobs)" "j_request_delete demo_jobs = []" "request_count demo_jobs < 2" by code_simp+
  then show ?thesis by (intro solve_again_ends [OF demo_universe_ok _ _ demo_picosat(2)])
qed

section \<open>What a job does to the system\<close>

text \<open>The calls that change the system, as the job plans them before anything is done.\<close>

datatype action =
    Delete pkg delete_flags
  | Upgrade "universe_item" add_flags pkg pkg
  | Install "universe_item" add_flags pkg
  | Bad_job

definition plan_job :: "pkg_jobs \<Rightarrow> pkg_solved \<Rightarrow> action list" where
  "plan_job j ps =
     (let u = j_universe j; fl = j_flags j;
          del = \<lparr>df_force = flag_force fl, df_noscript = flag_noscript fl, df_conflict = (j_type j = PKG_JOBS_UPGRADE)\<rparr>;
          item = u_store u ! s_item0 ps
      in if s_type ps = PKG_SOLVED_FETCH then [Bad_job]
         else if s_type ps = PKG_SOLVED_DELETE \<or> s_type ps = PKG_SOLVED_UPGRADE_REMOVE then
           (if s_type ps = PKG_SOLVED_DELETE \<and> pkg_name (it_pkg item) \<in> {''pkg'', ''pkg-devel''} \<and> \<not> flag_force fl then []
            else [Delete (it_pkg item) del])
         else case s_item1 ps of
           Some old \<Rightarrow> let new = install_pkg item (Some (u_pkg u old)) in [Upgrade item (install_flags fl new) new (u_pkg u old)]
         | None \<Rightarrow> let new = install_pkg item None in [Install item (install_flags fl new) new])"

definition perform :: "'w world \<Rightarrow> action \<Rightarrow> 'w \<Rightarrow> epkg \<times> 'w" where
  \<comment> \<open>a failed installation is rolled back\<close>
  "perform w a s =
     (let undo = (\<lambda>(rc, s). (rc, if rc \<noteq> EPKG_OK then w_rollback w s else s))
      in case a of
           Delete p fl \<Rightarrow> w_delete w p fl s
         | Upgrade item fl new old \<Rightarrow> undo (w_add_upgrade w (install_target w item s) fl new old s)
         | Install item fl new \<Rightarrow> undo (w_add_from_remote w (install_target w item s) fl new s)
         | Bad_job \<Rightarrow> (EPKG_FATAL, s))"

fun perform_all :: "'w world \<Rightarrow> action list \<Rightarrow> 'w \<Rightarrow> epkg \<times> 'w" where
  \<comment> \<open>up to the first failure\<close>
  "perform_all w [] s = (EPKG_OK, s)"
| "perform_all w (a # as) s = (let (rc, s) = perform w a s in if rc \<noteq> EPKG_OK then (rc, s) else perform_all w as s)"

definition installs :: "pkg_solved \<Rightarrow> bool" where
  "installs ps \<longleftrightarrow> s_type ps = PKG_SOLVED_INSTALL \<or> s_type ps = PKG_SOLVED_UPGRADE"

definition items_of :: "pkg_solved \<Rightarrow> item_id set" where
  "items_of ps = insert (s_item0 ps) (set_option (s_item1 ps))"

definition jobs_apart :: "pkg_solved list \<Rightarrow> bool" where
  \<comment> \<open>a package that is installed appears in no later job\<close>
  "jobs_apart = sorted_wrt (\<lambda>a b. installs a \<longrightarrow> s_item0 a \<notin> items_of b)"

definition same_item :: "pkg_jobs \<Rightarrow> pkg_jobs \<Rightarrow> item_id \<Rightarrow> bool" where
  "same_item j k i \<longleftrightarrow> u_store (j_universe k) ! i = u_store (j_universe j) ! i"

lemma plan_job_cong:
  assumes "\<forall>i \<in> items_of ps. same_item j k i" "j_flags k = j_flags j" "j_type k = j_type j"
  shows "plan_job k ps = plan_job j ps"
  using assms by (cases "s_item1 ps") (simp_all add: plan_job_def items_of_def same_item_def u_pkg_def Let_def)

lemma handle_install_plan:
  assumes "installs ps" "pkg_jobs_handle_install w ps j s = (rc, k, t)"
  shows "perform_all w (plan_job j ps) s = (rc, t)"
    "\<exists>new. k = upd_universe (u_upd_pkg (s_item0 ps) (\<lambda>_. new)) j"
proof -
  let ?u = "j_universe j"
  let ?item = "u_store ?u ! s_item0 ps"
  have t: "s_type ps \<noteq> PKG_SOLVED_FETCH" "s_type ps \<noteq> PKG_SOLVED_DELETE" "s_type ps \<noteq> PKG_SOLVED_UPGRADE_REMOVE"
    using assms(1) by (auto simp: installs_def)
  have "perform_all w (plan_job j ps) s = (rc, t) \<and> (\<exists>new. k = upd_universe (u_upd_pkg (s_item0 ps) (\<lambda>_. new)) j)"
  proof (cases "s_item1 ps")
    case None
    let ?new = "install_pkg ?item None"
    obtain rc' t' where r: "w_add_from_remote w (install_target w ?item s) (install_flags (j_flags j) ?new) ?new s = (rc', t')" by fastforce
    then show ?thesis using assms(2) t None
      by (cases "rc' = EPKG_OK") (simp_all add: pkg_jobs_handle_install_def plan_job_def perform_def Let_def upd_universe_def, blast+)
  next
    case (Some old)
    let ?new = "install_pkg ?item (Some (u_pkg ?u old))"
    obtain rc' t' where r: "w_add_upgrade w (install_target w ?item s) (install_flags (j_flags j) ?new) ?new (u_pkg ?u old) s = (rc', t')"
      by fastforce
    then show ?thesis using assms(2) t Some
      by (cases "rc' = EPKG_OK") (simp_all add: pkg_jobs_handle_install_def plan_job_def perform_def Let_def upd_universe_def, blast+)
  qed
  then show "perform_all w (plan_job j ps) s = (rc, t)" "\<exists>new. k = upd_universe (u_upd_pkg (s_item0 ps) (\<lambda>_. new)) j" by simp_all
qed

abbreviation del_flags :: "pkg_jobs \<Rightarrow> delete_flags" where
  "del_flags j \<equiv> \<lparr>df_force = flag_force (j_flags j), df_noscript = flag_noscript (j_flags j), df_conflict = False\<rparr>"

lemma execute_delete_plan:
  assumes "\<not> installs ps"
  shows "execute_job w (del_flags j) ps EPKG_OK j s = (let (rc, t) = perform_all w (plan_job j ps) s in (rc, j, t))"
proof -
  have "s_type ps = PKG_SOLVED_FETCH \<or> s_type ps = PKG_SOLVED_DELETE \<or> s_type ps = PKG_SOLVED_UPGRADE_REMOVE"
    using assms by (cases "s_type ps") (simp_all add: installs_def)
  moreover obtain rc t where "w_delete w (u_pkg (j_universe j) (s_item0 ps))
      \<lparr>df_force = flag_force (j_flags j), df_noscript = flag_noscript (j_flags j), df_conflict = (j_type j = PKG_JOBS_UPGRADE)\<rparr> s = (rc, t)"
    by fastforce
  ultimately show ?thesis
    by (cases "j_type j = PKG_JOBS_UPGRADE") (auto simp: execute_job_def plan_job_def refuses_delete_def perform_def Let_def u_pkg_def)
qed

lemma execute_job_plan:
  assumes "execute_job w (del_flags j) ps EPKG_OK j s = (rc, k, t)"
  shows "perform_all w (plan_job j ps) s = (rc, t)" "j_flags k = j_flags j" "j_type k = j_type j"
    "\<not> installs ps \<or> i \<noteq> s_item0 ps \<Longrightarrow> same_item j k i"
proof -
  have "perform_all w (plan_job j ps) s = (rc, t) \<and> j_flags k = j_flags j \<and> j_type k = j_type j
      \<and> (\<not> installs ps \<or> i \<noteq> s_item0 ps \<longrightarrow> same_item j k i)"
  proof (cases "installs ps")
    case True
    then have "pkg_jobs_handle_install w ps j s = (rc, k, t)" using assms by (auto simp: execute_job_def installs_def)
    from handle_install_plan [OF True this] True show ?thesis
      by (auto simp: upd_universe_def same_item_def u_upd_pkg_def u_upd_item_def)
  next
    case False
    then show ?thesis using execute_delete_plan [OF False, of w j s] assms by (simp add: same_item_def split: prod.splits)
  qed
  then show "perform_all w (plan_job j ps) s = (rc, t)" "j_flags k = j_flags j" "j_type k = j_type j"
    "\<not> installs ps \<or> i \<noteq> s_item0 ps \<Longrightarrow> same_item j k i" by simp_all
qed

lemma perform_all_append:
  "perform_all w (as @ bs) s = (let (rc, t) = perform_all w as s in if rc \<noteq> EPKG_OK then (rc, t) else perform_all w bs t)"
  by (induction as arbitrary: s) (auto simp: Let_def split: prod.split)

lemma run_bind_Ret: "run_bind m f = Ret y \<longleftrightarrow> (\<exists>x. m = Ret x \<and> f x = Ret y)"
  by (cases m) auto

lemma set_request_flags: "pkg_jobs_set_request_priority n k j = Ret (rc, j') \<Longrightarrow> j_flags j' = j_flags j"
  unfolding pkg_jobs_set_request_priority_def Let_def with_universe_def
  by (auto simp: run_bind_Ret split_upgrade_def split: pkg_solved_t.splits option.splits if_splits)

lemma set_requests_flags: "set_requests n ks j = Ret (b, j') \<Longrightarrow> j_flags j' = j_flags j"
proof (induction ks arbitrary: j)
  case (Cons k ks)
  then obtain rc j1 where "pkg_jobs_set_request_priority n k j = Ret (rc, j1)"
    "(if rc = EPKG_CONFLICT then Ret (False, j1) else set_requests n ks j1) = Ret (b, j')"
    by (auto simp: run_bind_Ret)
  then show ?case using Cons.IH [of j1] set_request_flags [of n k j rc j1] by (auto split: if_splits)
qed simp

lemma priorities_flags: "priorities_from m n j = Ret j' \<Longrightarrow> j_flags j' = j_flags j"
proof (induction m arbitrary: j)
  case (Suc m)
  then obtain d j1 where "set_requests n [0..<length (j_jobs j)] (j\<lparr>j_universe := reset_priorities (j_jobs j) (j_universe j)\<rparr>) = Ret (d, j1)"
    "(if d then Ret (j1\<lparr>j_jobs := ll_sort (pkg_jobs_sort_priority (j_universe j1)) (j_jobs j1)\<rparr>) else priorities_from m n j1) = Ret j'"
    by (auto simp: run_bind_Ret)
  then show ?case using Suc.IH [of j1] set_requests_flags by (fastforce split: if_splits)
qed simp

lemma execute_jobs_plan:
  assumes "jobs_apart pss" "execute_jobs w (del_flags j) pss EPKG_OK j s = (rc, k, t)"
  shows "perform_all w (concat (map (plan_job j) pss)) s = (rc, t)"
  using assms
proof (induction pss arbitrary: j s)
  case (Cons ps pss)
  obtain rc1 j1 s1 where e: "execute_job w (del_flags j) ps EPKG_OK j s = (rc1, j1, s1)" by (metis prod_cases3)
  note f = execute_job_plan [OF e]
  show ?case
  proof (cases "rc1 = EPKG_OK")
    case True
    have "plan_job j1 b = plan_job j b" if "b \<in> set pss" for b
      using that Cons.prems(1) f(2,3,4) by (intro plan_job_cong) (auto simp: jobs_apart_def, metis)
    then have m: "map (plan_job j1) pss = map (plan_job j) pss" by simp
    have "execute_jobs w (del_flags j1) pss EPKG_OK j1 s1 = (rc, k, t)" using Cons.prems(2) e True f(2) by simp
    from Cons.IH [OF _ this] m Cons.prems(1) show ?thesis
      using f(1) True by (simp add: jobs_apart_def perform_all_append)
  qed (use Cons.prems(2) e f(1) in \<open>simp add: perform_all_append\<close>)
qed simp

lemma plan_keeps_pkg:
  assumes "Delete p fl \<in> set (plan_job j ps)" "s_type ps = PKG_SOLVED_DELETE" "\<not> flag_force (j_flags j)"
  shows "pkg_name p \<noteq> ''pkg'' \<and> pkg_name p \<noteq> ''pkg-devel''"
  using assms by (auto simp: plan_job_def Let_def split: if_splits)

text \<open>
  C6: \<open>pkg_jobs_execute\<close> does what the jobs say, in their order, up to the first failure. When no package that one
  job installs appears in a later job, and the run is not one that skips the installation, the calls that change the system are known beforehand: they are the
  plans of the jobs, ordered by \<open>pkg_jobs_set_priorities\<close>, between the lock and the beginning of a transaction and its commit; a failed
  installation is rolled back. Without force no job of the type \<open>PKG_SOLVED_DELETE\<close> deletes \<open>pkg\<close> or \<open>pkg-devel\<close>; the removing part of a
  split upgrade is not kept from it.
\<close>

theorem execute_follows_plan:
  assumes "pkg_jobs_set_priorities fuel j = Ret k" "jobs_apart (j_jobs k)" "\<not> flag_skip_install (j_flags j)"
    and "w_upgrade_lock w s = (EPKG_OK, s0)" "perform_all w (concat (map (plan_job k) (j_jobs k))) (w_begin w s0) = (rc, t)"
  shows "(\<exists>j'. pkg_jobs_execute fuel w j s = Ret (rc, j', w_release_lock w (w_commit w t)))
    \<and> (\<forall>ps \<in> set (j_jobs k). \<forall>p fl. s_type ps = PKG_SOLVED_DELETE \<and> \<not> flag_force (j_flags j) \<and> Delete p fl \<in> set (plan_job k ps) \<longrightarrow>
         pkg_name p \<noteq> ''pkg'' \<and> pkg_name p \<noteq> ''pkg-devel'')"
proof -
  have fl: "j_flags k = j_flags j" using assms(1) unfolding pkg_jobs_set_priorities_def by (rule priorities_flags)
  obtain rc' j' t' where e: "execute_jobs w (del_flags k) (j_jobs k) EPKG_OK k (w_begin w s0) = (rc', j', t')" by (metis prod_cases3)
  from execute_jobs_plan [OF assms(2) this] assms(5) have r: "rc' = rc" "t' = t" by simp_all
  have "pkg_jobs_execute fuel w j s = Ret (rc, j', w_release_lock w (w_commit w t))"
    using assms(1,3,4) e r fl by (simp add: pkg_jobs_execute_def Let_def)
  moreover have "pkg_name p \<noteq> ''pkg'' \<and> pkg_name p \<noteq> ''pkg-devel''"
    if "s_type ps = PKG_SOLVED_DELETE" "\<not> flag_force (j_flags j)" "Delete p f \<in> set (plan_job k ps)" for ps p f
    using plan_keeps_pkg [OF that(3,1)] that(2) fl by simp
  ultimately show ?thesis by blast
qed

text \<open>A system that logs the calls.\<close>

definition log_world :: "string list world" where
  "log_world = \<lparr>w_delete = (\<lambda>p fl s. (EPKG_OK, s @ [''delete '' @ pkg_name p])),
     w_add_upgrade = (\<lambda>t fl new old s. (EPKG_OK, s @ [''upgrade '' @ pkg_name new])),
     w_add_from_remote = (\<lambda>t fl new s. (EPKG_OK, s @ [''install '' @ pkg_name new])),
     w_upgrade_lock = (\<lambda>s. (EPKG_OK, s @ [''lock''])), w_release_lock = (\<lambda>s. s @ [''release'']), w_begin = (\<lambda>s. s @ [''begin'']),
     w_commit = (\<lambda>s. s @ [''commit'']), w_rollback = (\<lambda>s. s @ [''rollback'']), w_files = (\<lambda>_. []), w_put_files = (\<lambda>_ s. s),
     w_repos = (\<lambda>_. Some demo_fetch_env), w_env = demo_fetch_env, w_space = (\<lambda>_ _. Some (1, 10))\<rparr>"

definition prio_sorted :: pkg_jobs where
  "prio_sorted = the (the_run (pkg_jobs_set_priorities 1026 prio_jobs))"

lemma execute_follows_plan_witness:
  "\<exists>j'. pkg_jobs_execute 1026 log_world prio_jobs []
    = Ret (EPKG_OK, j', [''lock'', ''begin'', ''install b'', ''install a'', ''commit'', ''release''])"
proof -
  have "the_run (pkg_jobs_set_priorities 1026 prio_jobs) = Some prio_sorted" by code_simp
  then have s: "pkg_jobs_set_priorities 1026 prio_jobs = Ret prio_sorted" by (simp add: the_run_Some)
  have "sorted_wrt (\<lambda>a b. installs a \<longrightarrow> s_item0 a \<notin> items_of b) (j_jobs prio_sorted)" by code_simp
  then have a: "jobs_apart (j_jobs prio_sorted)" by (simp add: jobs_apart_def)
  have c: "\<not> flag_skip_install (j_flags prio_jobs)" "w_upgrade_lock log_world [] = (EPKG_OK, [''lock''])"
    "perform_all log_world (concat (map (plan_job prio_sorted) (j_jobs prio_sorted))) (w_begin log_world [''lock''])
      = (EPKG_OK, [''lock'', ''begin'', ''install b'', ''install a''])"
    "w_release_lock log_world (w_commit log_world [''lock'', ''begin'', ''install b'', ''install a''])
      = [''lock'', ''begin'', ''install b'', ''install a'', ''commit'', ''release'']" by code_simp+
  from execute_follows_plan [OF s a c(1,2,3)] show ?thesis unfolding c(4) by blast
qed

section \<open>What a fetch achieves\<close>

lemma int64_id: "- (2 ^ 63) \<le> n \<Longrightarrow> n < 2 ^ 63 \<Longrightarrow> int64 n = n"
  by (simp add: int64_def)

text \<open>What is missing of a package in the cache.\<close>

definition missing_size :: "'w world \<Rightarrow> bool \<Rightarrow> string \<Rightarrow> fsys \<Rightarrow> pkg \<Rightarrow> int" where
  "missing_size w mirror cachedir f p = pkg_pkgsize p - (case Option.bind (cached_path w mirror cachedir f p) (stat_size f) of
     None \<Rightarrow> 0 | Some sz \<Rightarrow> sz)"

lemma download_size_sum:
  assumes "\<forall>p \<in> set ps. w_repos w p \<noteq> None" "\<forall>p \<in> set ps. 0 \<le> missing_size w mirror cachedir f p"
    and "0 \<le> n" "n + (\<Sum>p\<leftarrow>ps. missing_size w mirror cachedir f p) < 2 ^ 63"
  shows "download_size w mirror cachedir f ps n = Some (n + (\<Sum>p\<leftarrow>ps. missing_size w mirror cachedir f p))"
  using assms
proof (induction ps arbitrary: n)
  case (Cons p ps)
  let ?m = "missing_size w mirror cachedir f"
  obtain path where path: "cached_path w mirror cachedir f p = Some path"
    using Cons.prems(1) by (cases mirror) (auto simp: cached_path_def pkg_repo_cached_name_def)
  have nn: "0 \<le> sum_list (map ?m ps)" using Cons.prems(2) by (intro sum_list_nonneg) auto
  have "download_size w mirror cachedir f (p # ps) n = download_size w mirror cachedir f ps (int64 (n + ?m p))"
    by (simp add: path missing_size_def split: option.split)
  also have "int64 (n + ?m p) = n + ?m p" using Cons.prems(2,3,4) nn by (intro int64_id) auto
  also have "download_size w mirror cachedir f ps (n + ?m p) = Some (n + ?m p + sum_list (map ?m ps))"
    using Cons.prems by (intro Cons.IH) auto
  finally show ?case by simp
qed simp

lemma mkdirs_exist:
  assumes "mkdirs e path f = (EPKG_OK, g)" "length path < MAXPATHLEN"
  shows "hash_find path g \<noteq> None" "only_dir f g x"
proof -
  have k: "hash_find x f \<noteq> None \<Longrightarrow> mkdir_all e ps f = (rc, g) \<Longrightarrow> hash_find x g \<noteq> None" for ps f g x rc
    by (induction e ps f rule: mkdir_all.induct) (auto split: if_splits)
  have m: "mkdir_all e (ps @ [path]) f = (EPKG_OK, g) \<Longrightarrow> hash_find path g \<noteq> None" for ps f
    by (induction e ps f rule: mkdir_all.induct) (auto split: if_splits)
  have "path_buf path = path" using assms(2) by (simp add: path_buf_def)
  then show "hash_find path g \<noteq> None" using assms(1) m by (simp add: mkdirs_def mkdir_paths_def)
  show "only_dir f g x" using assms(1) mkdir_all_touches unfolding mkdirs_def by blast
qed

lemma space_facts:
  assumes "available_space (Suc (Suc n)) w dir f = r" "length dir < MAXPATHLEN" "not_link f dir"
  shows "\<exists>size g. r = Ret (size, g) \<and> (size \<noteq> None \<longrightarrow> (\<forall>x. only_dir f g x))"
proof (cases "node_at f dir")
  case None
  obtain rc g where m: "mkdirs (w_env w) dir f = (rc, g)" by fastforce
  show ?thesis
  proof (cases "rc = EPKG_OK")
    case True
    note e = mkdirs_exist [OF m [unfolded True] assms(2)]
    then have "not_link g dir" using assms(3) only_dirD(1) by blast
    then have "node_at g dir \<noteq> None" using e(1) by (simp add: node_at_direct)
    then show ?thesis using assms(1) m True None e(2) by (auto split: option.splits)
  qed (use assms(1) m None in auto)
qed (use assms(1) in \<open>auto split: option.splits\<close>)

lemma only_dir_ready: "\<forall>x. only_dir f g x \<Longrightarrow> repo_ready repos mirror d p f \<Longrightarrow> repo_ready repos mirror d p g"
  using only_dirD(1) by (fastforce simp: repo_ready_def no_links_def split: option.splits)

definition fetch_ready :: "'w world \<Rightarrow> pkg_jobs \<Rightarrow> fsys \<Rightarrow> bool" where
  \<comment> \<open>every package has a repository, no file of the cache is larger than its package, and the names are apart\<close>
  "fetch_ready w j f \<longleftrightarrow>
     (let mirror = flag_fetch_mirror (j_flags j); dir = fetch_dir w j; d = (if mirror then Some dir else None)
      in (\<forall>p \<in> set (fetched_pkgs j). w_repos w p \<noteq> None \<and> repo_ready (w_repos w) mirror d p f \<and> 0 \<le> missing_size w mirror dir f p)
         \<and> (\<Sum>p\<leftarrow>fetched_pkgs j. missing_size w mirror dir f p) < 2 ^ 63
         \<and> sorted_wrt (\<lambda>q p. repo_apart (w_repos w) mirror d p q \<and> repo_apart (w_repos w) mirror d q p) (fetched_pkgs j)
         \<and> length dir < MAXPATHLEN \<and> not_link f dir)"

lemma fetch_items_verified:
  fixes w :: "'w world"
  defines "d \<equiv> \<lambda>mirror dir. if mirror then Some dir else None"
  assumes "fetch_items (fetch_package w mirror dir) is u f = (EPKG_OK, u', f')"
    and "\<forall>p \<in> set (map (u_pkg u) is). repo_ready (w_repos w) mirror (d mirror dir) p f"
    and "sorted_wrt (\<lambda>q p. repo_apart (w_repos w) mirror (d mirror dir) p q \<and> repo_apart (w_repos w) mirror (d mirror dir) q p) (map (u_pkg u) is)"
  shows "u' = u \<and> (\<forall>p \<in> set (map (u_pkg u) is). repo_verified (w_repos w) mirror (d mirror dir) p f')"
proof (cases mirror)
  case True
  then have "fetch_package w mirror dir = (\<lambda>p. pkg_repo_mirror_package (w_repos w) p dir)" by (simp add: fetch_package_def fun_eq_iff)
  then show ?thesis using mirror.fetch_items_good [of "w_repos w" dir "is" u f u' f' "[]"] assms True by simp
next
  case False
  then have "fetch_package w mirror dir = pkg_repo_fetch_package (w_repos w)" by (simp add: fetch_package_def fun_eq_iff)
  then show ?thesis using cache.fetch_items_good [of "w_repos w" "is" u f u' f' "[]"] assms False by simp
qed

text \<open>
  C7: Not in a dry run, and when every package of the job has a repository that is ready, no file of the cache is larger than its package, the sum of the sizes fits
  63 bits and the paths fit and are apart, \<open>pkg_jobs_fetch\<close> returns; when it reports success, either every file was there with its size
  and nothing was done, or each package was fetched or was there and is verified, and stays so while the others are fetched.
\<close>

theorem fetch_complete:
  assumes "fetch_ready w j f" "\<not> flag_dry_run (j_flags j)"
  shows "\<exists>rc j' f'. pkg_jobs_fetch (Suc (Suc n)) w j f = Ret (rc, j', f')
    \<and> (rc = EPKG_OK \<longrightarrow> j' = j \<and>
        ((\<forall>p \<in> set (fetched_pkgs j). missing_size w (flag_fetch_mirror (j_flags j)) (fetch_dir w j) f p = 0) \<and> f' = f
         \<or> (\<forall>p \<in> set (fetched_pkgs j). repo_verified (w_repos w) (flag_fetch_mirror (j_flags j))
              (if flag_fetch_mirror (j_flags j) then Some (fetch_dir w j) else None) p f')))"
proof -
  let ?m = "flag_fetch_mirror (j_flags j)" and ?dir = "fetch_dir w j" and ?ps = "fetched_pkgs j"
  let ?d = "if ?m then Some ?dir else None"
  let ?sum = "\<Sum>p\<leftarrow>?ps. missing_size w ?m ?dir f p"
  have r: "\<forall>p \<in> set ?ps. w_repos w p \<noteq> None" "\<forall>p \<in> set ?ps. repo_ready (w_repos w) ?m ?d p f"
    "\<forall>p \<in> set ?ps. 0 \<le> missing_size w ?m ?dir f p" "?sum < 2 ^ 63"
    "sorted_wrt (\<lambda>q p. repo_apart (w_repos w) ?m ?d p q \<and> repo_apart (w_repos w) ?m ?d q p) ?ps"
    "length ?dir < MAXPATHLEN" "not_link f ?dir"
    using assms(1) by (simp_all add: fetch_ready_def Let_def)
  have size: "download_size w ?m ?dir f ?ps 0 = Some ?sum" using download_size_sum [OF r(1,3), of 0] r(4) by simp
  show ?thesis
  proof (cases "?sum = 0")
    case True
    then have "\<forall>p \<in> set ?ps. missing_size w ?m ?dir f p = 0"
      using sum_list_nonneg_eq_0_iff [of "map (missing_size w ?m ?dir f) ?ps"] r(3) by auto
    then show ?thesis using size True by (simp add: pkg_jobs_fetch_def Let_def)
  next
    case False
    obtain sp g where sp: "available_space (Suc (Suc n)) w ?dir f = Ret (sp, g)" "sp \<noteq> None \<longrightarrow> (\<forall>x. only_dir f g x)"
      using space_facts [OF refl r(6,7)] by blast
    note body = pkg_jobs_fetch_def [of "Suc (Suc n)" w j f, unfolded Let_def size sp(1) option.case run_bind.simps prod.case]
    show ?thesis
    proof (cases sp)
      case (Some fsize)
      obtain rc u f' where it: "fetch_items (fetch_package w ?m ?dir) (fetched_items j) (j_universe j) g = (rc, u, f')" by (metis prod_cases3)
      have "\<forall>p \<in> set ?ps. repo_ready (w_repos w) ?m ?d p g" using r(2) only_dir_ready sp(2) Some by blast
      then have "rc = EPKG_OK \<Longrightarrow> u = j_universe j \<and> (\<forall>p \<in> set ?ps. repo_verified (w_repos w) ?m ?d p f')"
        using fetch_items_verified [of w ?m ?dir "fetched_items j" "j_universe j" g u f'] it r(5) by (simp add: fetched_pkgs_def)
      then show ?thesis using body False assms(2) it Some by (cases "?sum > fsize") auto
    qed (use body False in simp)
  qed
qed

definition fetch_world :: "fsys world" where
  "fetch_world = \<lparr>w_delete = (\<lambda>p fl s. (EPKG_OK, s)), w_add_upgrade = (\<lambda>t fl new old s. (EPKG_OK, s)),
     w_add_from_remote = (\<lambda>t fl new s. (EPKG_OK, s)), w_upgrade_lock = (\<lambda>s. (EPKG_OK, s)), w_release_lock = id, w_begin = id,
     w_commit = id, w_rollback = id, w_files = id, w_put_files = (\<lambda>f _. f),
     w_repos = (\<lambda>_. Some demo_fetch_env), w_env = demo_fetch_env, w_space = (\<lambda>_ _. Some (1, 10))\<rparr>"

text \<open>Two packages to install, of which the cache holds nothing, or a file that is larger than the first of them.\<close>

definition two_remote :: pkg_jobs where
  "two_remote = (pkg_jobs_new PKG_JOBS_INSTALL)\<lparr>
     j_universe := pkg_jobs_universe_new\<lparr>u_store := [demo_item demo_remote,
       demo_item (demo_remote\<lparr>pkg_name := ''b'', pkg_uniqueid := ''b'', pkg_pkgsize := 2, pkg_repopath := Some ''All/b-1.0.txz''\<rparr>)]\<rparr>,
     j_jobs := map (\<lambda>i. \<lparr>s_item0 = i, s_item1 = None, s_type = PKG_SOLVED_INSTALL, s_already_deleted = False\<rparr>) [0, 1],
     j_need_fetch := True, j_solved := 2\<rparr>"

text \<open>
  the needed space also decides whether anything is fetched, and a file in the cache that is too large counts
  negatively. Here the cache holds a broken file of six bytes for a package of four, another package of two bytes is missing, the sum
  is 0, and \<open>pkg_jobs_fetch\<close> reports success without fetching anything.
\<close>

theorem fetch_skipped:
  "pkg_jobs_fetch 2 fetch_world two_remote demo_cache = Ret (EPKG_OK, two_remote, demo_cache)
    \<and> \<not> repo_verified (w_repos fetch_world) False None (u_pkg (j_universe two_remote) 0) demo_cache
    \<and> node_at demo_cache (the (cached_path fetch_world False ''/c'' demo_cache (u_pkg (j_universe two_remote) 1))) = None"
proof -
  have "the_run (pkg_jobs_fetch 2 fetch_world two_remote demo_cache) = Some (EPKG_OK, two_remote, demo_cache)" by code_simp
  then have "pkg_jobs_fetch 2 fetch_world two_remote demo_cache = Ret (EPKG_OK, two_remote, demo_cache)" by (simp add: the_run_Some)
  moreover have "\<not> repo_verified (w_repos fetch_world) False None (u_pkg (j_universe two_remote) 0) demo_cache
    \<and> node_at demo_cache (the (cached_path fetch_world False ''/c'' demo_cache (u_pkg (j_universe two_remote) 1))) = None" by code_simp
  ultimately show ?thesis by blast
qed

definition one_remote :: pkg_jobs where
  "one_remote = two_remote\<lparr>j_jobs := [hd (j_jobs two_remote)]\<rparr>"

lemma fetch_complete_witness:
  "\<exists>f'. pkg_jobs_fetch 2 fetch_world one_remote [] = Ret (EPKG_OK, one_remote, f')
    \<and> repo_verified (w_repos fetch_world) False None demo_remote f'"
proof -
  have h: "fetch_ready fetch_world one_remote []" "\<not> flag_dry_run (j_flags one_remote)" by code_simp+
  have c: "flag_fetch_mirror (j_flags one_remote) = False" "fetched_pkgs one_remote = [demo_remote]"
    "missing_size fetch_world False (fetch_dir fetch_world one_remote) [] demo_remote = 4"
    "map_option fst (the_run (pkg_jobs_fetch 2 fetch_world one_remote [])) = Some EPKG_OK" by code_simp+
  from fetch_complete [OF h, of 0] obtain rc j' f' where
    "pkg_jobs_fetch (Suc (Suc 0)) fetch_world one_remote [] = Ret (rc, j', f')"
    "rc = EPKG_OK \<longrightarrow> j' = one_remote \<and> repo_verified (w_repos fetch_world) False None demo_remote f'"
    unfolding c(1,2) using c(3) by auto
  then show ?thesis using c(4) by (auto simp: numeral_2_eq_2)
qed

end
