(* ===== verification/Vulnerabilities.thy ===== *)
theory Vulnerabilities
  imports Package
begin

text \<open>
  The audit of vulnerable packages, \<open>libpkg/pkg_audit.c\<close>: the handlers of the XML parser as a state machine, the sorted
  array with its jumps, the search of a package, and the texts. Parameters: the XML parser, as the sequence of the
  calls of its handlers, and \<open>qsort\<close>. The download of the file is not part of the model.
\<close>

section \<open>Entries\<close>

datatype vop = NOP | EQ | LT | LTE | GT | GTE

definition vop_names :: "vop \<Rightarrow> string" where
  "vop_names t = (case t of NOP \<Rightarrow> [] | EQ \<Rightarrow> ''='' | LT \<Rightarrow> ''<'' | LTE \<Rightarrow> ''<='' | GT \<Rightarrow> ''>'' | GTE \<Rightarrow> ''>='')"

record pkg_audit_version =
  av_version :: "string option"
  av_type :: vop

record pkg_audit_versions_range =
  vr_v1 :: pkg_audit_version
  vr_v2 :: pkg_audit_version

record pkg_audit_package =
  ap_names :: "string option list"
  ap_versions :: "pkg_audit_versions_range list"

record pkg_audit_entry =
  ae_pkgname :: "string option"
  ae_packages :: "pkg_audit_package list"
  ae_versions :: "pkg_audit_versions_range list"
  ae_cve :: "string list"
  ae_url :: "string option"
  ae_desc :: "string option"
  ae_id :: "string option"
  ae_ref :: bool

text \<open>What \<open>calloc\<close> returns.\<close>

definition no_version :: pkg_audit_version where
  "no_version = \<lparr>av_version = None, av_type = NOP\<rparr>"

definition no_range :: pkg_audit_versions_range where
  "no_range = \<lparr>vr_v1 = no_version, vr_v2 = no_version\<rparr>"

definition no_package :: pkg_audit_package where
  "no_package = \<lparr>ap_names = [], ap_versions = []\<rparr>"

definition no_entry :: pkg_audit_entry where
  "no_entry = \<lparr>ae_pkgname = None, ae_packages = [], ae_versions = [], ae_cve = [], ae_url = None, ae_desc = None,
     ae_id = None, ae_ref = False\<rparr>"

definition entry_for :: "pkg_audit_entry \<Rightarrow> pkg_audit_package \<Rightarrow> string option \<Rightarrow> pkg_audit_entry" where
  "entry_for entry p name = no_entry\<lparr>ae_pkgname := name, ae_ref := True, ae_cve := ae_cve entry, ae_desc := ae_desc entry,
     ae_versions := ap_versions p, ae_url := ae_url entry, ae_id := ae_id entry\<rparr>"

definition pkg_audit_expand_entry :: "pkg_audit_entry \<Rightarrow> pkg_audit_entry list \<Rightarrow> pkg_audit_entry list" where
  "pkg_audit_expand_entry entry es =
     (if ae_packages entry = [] \<or> ap_names (hd (ae_packages entry)) = [] then es
      else entry # foldl (\<lambda>es p. foldl (\<lambda>es name. entry_for entry p name # es) es (ap_names p)) es (ae_packages entry))"

section \<open>The handlers of the XML parser\<close>

datatype vulnxml_parse_state =
    VULNXML_PARSE_INIT | VULNXML_PARSE_VULN | VULNXML_PARSE_TOPIC | VULNXML_PARSE_PACKAGE | VULNXML_PARSE_PACKAGE_NAME
  | VULNXML_PARSE_RANGE | VULNXML_PARSE_RANGE_GT | VULNXML_PARSE_RANGE_GE | VULNXML_PARSE_RANGE_LT
  | VULNXML_PARSE_RANGE_LE | VULNXML_PARSE_RANGE_EQ | VULNXML_PARSE_CVE

record vulnxml_userdata =
  vx_entry :: "pkg_audit_entry option"
  vx_entries :: "pkg_audit_entry list"
  vx_state :: vulnxml_parse_state
  vx_range_num :: nat

text \<open>Accesses to the current entry, its first package, name and range; \<open>None\<close> is a null pointer that is followed.\<close>

definition upd_entry :: "(pkg_audit_entry \<Rightarrow> pkg_audit_entry option) \<Rightarrow> vulnxml_userdata \<Rightarrow> vulnxml_userdata option" where
  "upd_entry f ud = (case vx_entry ud of None \<Rightarrow> None | Some e \<Rightarrow> map_option (\<lambda>e. ud\<lparr>vx_entry := Some e\<rparr>) (f e))"

fun upd_first :: "('a \<Rightarrow> 'a option) \<Rightarrow> 'a list \<Rightarrow> 'a list option" where
  "upd_first f [] = None"
| "upd_first f (x # xs) = map_option (\<lambda>y. y # xs) (f x)"

definition upd_package :: "(pkg_audit_package \<Rightarrow> pkg_audit_package option) \<Rightarrow> vulnxml_userdata \<Rightarrow> vulnxml_userdata option" where
  "upd_package f = upd_entry (\<lambda>e. map_option (\<lambda>ps. e\<lparr>ae_packages := ps\<rparr>) (upd_first f (ae_packages e)))"

definition set_state :: "vulnxml_parse_state \<Rightarrow> vulnxml_userdata \<Rightarrow> vulnxml_userdata" where
  "set_state st ud = ud\<lparr>vx_state := st\<rparr>"

fun vid_of :: "(string \<times> string) list \<Rightarrow> string option" where
  "vid_of [] = None"
| "vid_of ((k, v) # as) = (if strcaseeq k ''vid'' then Some v else vid_of as)"

text \<open>The operators of a range and their states.\<close>

definition range_ops :: "(string \<times> vulnxml_parse_state \<times> vop) list" where
  "range_ops = [(''gt'', VULNXML_PARSE_RANGE_GT, GT), (''ge'', VULNXML_PARSE_RANGE_GE, GTE), (''lt'', VULNXML_PARSE_RANGE_LT, LT),
     (''le'', VULNXML_PARSE_RANGE_LE, LTE), (''eq'', VULNXML_PARSE_RANGE_EQ, EQ)]"

definition vulnxml_start_element :: "string \<Rightarrow> (string \<times> string) list \<Rightarrow> vulnxml_userdata \<Rightarrow> vulnxml_userdata option" where
  "vulnxml_start_element element attributes ud =
     (if vx_state ud = VULNXML_PARSE_INIT \<and> strcaseeq element ''vuln'' then
        Some (ud\<lparr>vx_entry := Some (no_entry\<lparr>ae_id := vid_of attributes\<rparr>), vx_state := VULNXML_PARSE_VULN\<rparr>)
      else if vx_state ud = VULNXML_PARSE_VULN \<and> strcaseeq element ''topic'' then Some (set_state VULNXML_PARSE_TOPIC ud)
      else if vx_state ud = VULNXML_PARSE_VULN \<and> strcaseeq element ''package'' then
        upd_entry (\<lambda>e. Some (e\<lparr>ae_packages := no_package # ae_packages e\<rparr>)) (set_state VULNXML_PARSE_PACKAGE ud)
      else if vx_state ud = VULNXML_PARSE_VULN \<and> strcaseeq element ''cvename'' then Some (set_state VULNXML_PARSE_CVE ud)
      else if vx_state ud = VULNXML_PARSE_PACKAGE \<and> strcaseeq element ''name'' then
        upd_package (\<lambda>p. Some (p\<lparr>ap_names := None # ap_names p\<rparr>)) (set_state VULNXML_PARSE_PACKAGE_NAME ud)
      else if vx_state ud = VULNXML_PARSE_PACKAGE \<and> strcaseeq element ''range'' then
        upd_package (\<lambda>p. Some (p\<lparr>ap_versions := no_range # ap_versions p\<rparr>)) ((set_state VULNXML_PARSE_RANGE ud)\<lparr>vx_range_num := 0\<rparr>)
      else if vx_state ud = VULNXML_PARSE_RANGE then
        (case find (\<lambda>op. strcaseeq element (fst op)) range_ops of
           None \<Rightarrow> Some ud
         | Some (_, st, _) \<Rightarrow> Some ((set_state st ud)\<lparr>vx_range_num := vx_range_num ud + 1\<rparr>))
      else Some ud)"

definition vulnxml_end_element :: "string \<Rightarrow> vulnxml_userdata \<Rightarrow> vulnxml_userdata option" where
  "vulnxml_end_element element ud =
     (if vx_state ud = VULNXML_PARSE_VULN \<and> strcaseeq element ''vuln'' then
        (case vx_entry ud of
           None \<Rightarrow> None
         | Some e \<Rightarrow> Some (ud\<lparr>vx_entries := pkg_audit_expand_entry e (vx_entries ud), vx_state := VULNXML_PARSE_INIT\<rparr>))
      else if vx_state ud = VULNXML_PARSE_TOPIC \<and> strcaseeq element ''topic'' then Some (set_state VULNXML_PARSE_VULN ud)
      else if vx_state ud = VULNXML_PARSE_CVE \<and> strcaseeq element ''cvename'' then Some (set_state VULNXML_PARSE_VULN ud)
      else if vx_state ud = VULNXML_PARSE_PACKAGE \<and> strcaseeq element ''package'' then Some (set_state VULNXML_PARSE_VULN ud)
      else if vx_state ud = VULNXML_PARSE_PACKAGE_NAME \<and> strcaseeq element ''name'' then Some (set_state VULNXML_PARSE_PACKAGE ud)
      else if vx_state ud = VULNXML_PARSE_RANGE \<and> strcaseeq element ''range'' then Some (set_state VULNXML_PARSE_PACKAGE ud)
      else if \<exists>op \<in> set range_ops. vx_state ud = fst (snd op) \<and> strcaseeq element (fst op) then Some (set_state VULNXML_PARSE_RANGE ud)
      else Some ud)"

text \<open>A text replaces the one before: the content of an element may come in several pieces.\<close>

definition vulnxml_handle_data :: "string \<Rightarrow> vulnxml_userdata \<Rightarrow> vulnxml_userdata option" where
  "vulnxml_handle_data content ud =
     (case vx_state ud of
        VULNXML_PARSE_TOPIC \<Rightarrow> upd_entry (\<lambda>e. Some (e\<lparr>ae_desc := Some content\<rparr>)) ud
      | VULNXML_PARSE_PACKAGE_NAME \<Rightarrow>
          upd_package (\<lambda>p. map_option (\<lambda>ns. p\<lparr>ap_names := ns\<rparr>) (upd_first (\<lambda>_. Some (Some content)) (ap_names p))) ud
      | VULNXML_PARSE_CVE \<Rightarrow> upd_entry (\<lambda>e. Some (e\<lparr>ae_cve := content # ae_cve e\<rparr>)) ud
      | st \<Rightarrow>
          (case find (\<lambda>op. st = fst (snd op)) range_ops of
             None \<Rightarrow> Some ud
           | Some (_, _, range_type) \<Rightarrow>
               let v = \<lparr>av_version = Some content, av_type = range_type\<rparr>
               in upd_package (\<lambda>p. map_option (\<lambda>vs. p\<lparr>ap_versions := vs\<rparr>)
                    (upd_first (\<lambda>r. Some (if vx_range_num ud = 1 then r\<lparr>vr_v1 := v\<rparr> else if vx_range_num ud = 2 then r\<lparr>vr_v2 := v\<rparr> else r))
                      (ap_versions p))) ud))"

datatype xml_event = Start string "(string \<times> string) list" | End string | Data string

fun handle_event :: "xml_event \<Rightarrow> vulnxml_userdata \<Rightarrow> vulnxml_userdata option" where
  "handle_event (Start element attributes) ud = vulnxml_start_element element attributes ud"
| "handle_event (End element) ud = vulnxml_end_element element ud"
| "handle_event (Data content) ud = vulnxml_handle_data content ud"

fun handle_events :: "xml_event list \<Rightarrow> vulnxml_userdata \<Rightarrow> vulnxml_userdata option" where
  "handle_events [] ud = Some ud"
| "handle_events (ev # evs) ud = Option.bind (handle_event ev ud) (handle_events evs)"

definition vulnxml_init :: "pkg_audit_entry list \<Rightarrow> vulnxml_userdata" where
  "vulnxml_init es = \<lparr>vx_entry = None, vx_entries = es, vx_state = VULNXML_PARSE_INIT, vx_range_num = 0\<rparr>"

section \<open>The sorted array\<close>

record pkg_audit_item =
  ai_e :: pkg_audit_entry
  ai_noglob_len :: nat
  ai_next_pfx_incr :: nat

definition globbing :: "char \<Rightarrow> bool" where
  "globbing c \<longleftrightarrow> c \<in> {CHR ''*'', CHR ''?'', CHR ''['', CHR ''{'', CHR 0x5C}"

fun pkg_audit_str_noglob_len :: "string \<Rightarrow> nat" where
  "pkg_audit_str_noglob_len [] = 0"
| "pkg_audit_str_noglob_len (c # s) = (if globbing c then 0 else Suc (pkg_audit_str_noglob_len s))"

definition item_name :: "pkg_audit_item \<Rightarrow> string" where
  \<comment> \<open>only entries with a name become items\<close>
  "item_name a = the (ae_pkgname (ai_e a))"

definition pkg_audit_entry_cmp :: "pkg_audit_item \<Rightarrow> pkg_audit_item \<Rightarrow> int" where
  "pkg_audit_entry_cmp e1 e2 =
     (let min_len = (if ai_noglob_len e1 < ai_noglob_len e2 then ai_noglob_len e1 else ai_noglob_len e2);
          result = strncmp (item_name e1) (item_name e2) min_len
      in if result = 0 then (if ai_noglob_len e1 < ai_noglob_len e2 then -1 else if ai_noglob_len e1 > ai_noglob_len e2 then 1 else 0)
         else result)"

definition audit_items :: "pkg_audit_entry list \<Rightarrow> pkg_audit_item list" where
  "audit_items h = map (\<lambda>e. \<lparr>ai_e = e, ai_noglob_len = pkg_audit_str_noglob_len (the (ae_pkgname e)), ai_next_pfx_incr = 1\<rparr>)
     (filter (\<lambda>e. ae_pkgname e \<noteq> None) h)"

definition set_incr :: "nat \<Rightarrow> pkg_audit_item list \<Rightarrow> nat \<Rightarrow> pkg_audit_item list" where
  \<comment> \<open>the inner loop: increments \<open>tofill, ..., 2\<close> from \<open>base\<close> on\<close>
  "set_incr base ret tofill = foldl (\<lambda>ret i. ret[base + i := (ret ! (base + i))\<lparr>ai_next_pfx_incr := tofill - i\<rparr>]) ret [0..<tofill - 1]"

definition jump_step :: "pkg_audit_item list \<times> nat \<Rightarrow> nat \<Rightarrow> pkg_audit_item list \<times> nat" where
  "jump_step st n =
     (let (ret, tofill) = st
      in if ai_noglob_len (ret ! (n - 1)) \<noteq> ai_noglob_len (ret ! n) then (set_incr (n - tofill) ret tofill, 1)
         else if strcmp (item_name (ret ! (n - 1))) (item_name (ret ! n)) = 0 then (ret, tofill + 1)
         else (ret, 1))"

definition fill_jumps :: "pkg_audit_item list \<Rightarrow> pkg_audit_item list" where
  "fill_jumps ret = fst (foldl jump_step (ret, 0) [1..<length ret])"

text \<open>A \<open>char\<close> as a \<open>size_t\<close>: it is signed, so a byte from 128 on becomes a huge number.\<close>

definition size_of_char :: "char \<Rightarrow> nat" where
  "size_of_char c = (if byte c < 128 then nat (byte c) else 2 ^ 64 - 256 + nat (byte c))"

definition first_char :: "string \<Rightarrow> char" where
  "first_char s = hd (s @ [CHR 0x00])"

definition first_byte_idx :: "pkg_audit_item list \<Rightarrow> nat list" where
  \<comment> \<open>the index 0 is never written after \<open>bzero\<close>\<close>
  "first_byte_idx ret = 0 # tl (map (\<lambda>n. length (takeWhile (\<lambda>a. size_of_char (first_char (item_name a)) < n) ret)) [0..<256])"

record pkg_audit =
  au_entries :: "pkg_audit_entry list"
  au_items :: "pkg_audit_item list"
  au_first_byte :: "nat list"
  au_parsed :: bool
  au_map :: "string option"

definition pkg_audit_new :: pkg_audit where
  "pkg_audit_new = \<lparr>au_entries = [], au_items = [], au_first_byte = replicate 256 0, au_parsed = False, au_map = None\<rparr>"

text \<open>The parameters: the file, the XML parser with its verdict, and \<open>qsort\<close>.\<close>

record audit_env =
  ad_file :: "string \<Rightarrow> string option"
  ad_expat :: "string \<Rightarrow> xml_event list \<times> bool"
  ad_qsort :: "(pkg_audit_item \<Rightarrow> pkg_audit_item \<Rightarrow> int) \<Rightarrow> pkg_audit_item list \<Rightarrow> pkg_audit_item list"

definition pkg_audit_preprocess :: "audit_env \<Rightarrow> pkg_audit_entry list \<Rightarrow> pkg_audit_item list \<times> nat list" where
  "pkg_audit_preprocess e h = (let ret = fill_jumps (ad_qsort e pkg_audit_entry_cmp (audit_items h)) in (ret, first_byte_idx ret))"

definition pkg_audit_load :: "audit_env \<Rightarrow> string \<Rightarrow> pkg_audit \<Rightarrow> epkg \<times> pkg_audit" where
  "pkg_audit_load e fname audit = (case ad_file e fname of None \<Rightarrow> (EPKG_FATAL, audit) | Some m \<Rightarrow> (EPKG_OK, audit\<lparr>au_map := Some m\<rparr>))"

text \<open>\<open>None\<close> is a null pointer that a handler follows.\<close>

definition pkg_audit_parse_vulnxml :: "audit_env \<Rightarrow> string \<Rightarrow> pkg_audit \<Rightarrow> (epkg \<times> pkg_audit) option" where
  "pkg_audit_parse_vulnxml e m audit =
     (let (events, ok) = ad_expat e m
      in map_option (\<lambda>ud. (if ok then EPKG_OK else EPKG_FATAL, audit\<lparr>au_entries := vx_entries ud\<rparr>))
           (handle_events events (vulnxml_init (au_entries audit))))"

definition pkg_audit_process :: "audit_env \<Rightarrow> pkg_audit \<Rightarrow> (epkg \<times> pkg_audit) option" where
  "pkg_audit_process e audit =
     (case au_map audit of
        None \<Rightarrow> Some (EPKG_FATAL, audit)
      | Some m \<Rightarrow>
          map_option (\<lambda>(rc, audit).
            if rc = EPKG_FATAL then (EPKG_FATAL, audit)
            else let (items, idx) = pkg_audit_preprocess e (au_entries audit)
                 in (EPKG_OK, audit\<lparr>au_items := items, au_first_byte := idx, au_parsed := True\<rparr>))
          (pkg_audit_parse_vulnxml e m audit))"

section \<open>The search\<close>

definition pkg_audit_version_match :: "string \<Rightarrow> pkg_audit_version \<Rightarrow> bool" where
  "pkg_audit_version_match pkgversion v =
     (case av_version v of
        None \<Rightarrow> True
      | Some version \<Rightarrow>
          let r = pkg_version_cmp pkgversion version; t = av_type v
          in if r = -1 then t = LT \<or> t = LTE
             else if r = 0 then t = EQ \<or> t = LTE \<or> t = GTE
             else if r = 1 then t = GT \<or> t = GTE else False)"

definition cstr :: "string option \<Rightarrow> string" where
  \<comment> \<open>\<open>%s\<close>\<close>
  "cstr s = (case s of None \<Rightarrow> ''(null)'' | Some s \<Rightarrow> s)"

definition newline :: string where
  "newline = [CHR 0x0A]"

definition version_text :: "pkg_audit_version \<Rightarrow> string" where
  "version_text v = vop_names (av_type v) @ '' '' @ cstr (av_version v)"

definition pkg_audit_print_versions :: "pkg_audit_entry \<Rightarrow> string" where
  "pkg_audit_print_versions e = ''Affected versions:'' @ newline @ concat (map (\<lambda>r.
      (if av_type (vr_v1 r) \<noteq> NOP \<and> av_type (vr_v2 r) \<noteq> NOP then version_text (vr_v1 r) @ '' : '' @ version_text (vr_v2 r)
       else if av_type (vr_v1 r) \<noteq> NOP then version_text (vr_v1 r) else version_text (vr_v2 r)) @ newline) (ae_versions e))"

definition pkg_audit_print_entry :: "pkg_audit_entry \<Rightarrow> string \<Rightarrow> string option \<Rightarrow> bool \<Rightarrow> string" where
  "pkg_audit_print_entry e pkgname pkgversion quiet =
     (if quiet then pkgname @ (case pkgversion of Some v \<Rightarrow> ''-'' @ v | None \<Rightarrow> []) @ newline
      else (case pkgversion of
              Some v \<Rightarrow> pkgname @ ''-'' @ v @ '' is vulnerable:'' @ newline
            | None \<Rightarrow> pkgname @ '' is vulnerable:'' @ newline @ pkg_audit_print_versions e)
        @ cstr (ae_desc e) @ newline @ concat (map (\<lambda>c. ''CVE: '' @ c @ newline) (ae_cve e))
        @ (case (ae_url e, ae_id e) of
             (Some url, _) \<Rightarrow> ''WWW: '' @ url @ newline @ newline
           | (None, Some i) \<Rightarrow> ''WWW: http://portaudit.FreeBSD.org/'' @ i @ ''.html'' @ newline @ newline
           | (None, None) \<Rightarrow> []))"

text \<open>The entries with the same name from an item on; the search is over when one is found and \<open>quiet\<close> is set.\<close>

definition entry_hit :: "(string \<Rightarrow> string \<Rightarrow> bool) \<Rightarrow> string \<Rightarrow> string option \<Rightarrow> pkg_audit_item \<Rightarrow> bool" where
  "entry_hit fnm pkgname pkgversion a \<longleftrightarrow> fnm (item_name a) pkgname
     \<and> (case pkgversion of None \<Rightarrow> True
        | Some v \<Rightarrow> \<exists>r \<in> set (ae_versions (ai_e a)). pkg_audit_version_match v (vr_v1 r) \<and> pkg_audit_version_match v (vr_v2 r))"

fun check_group ::
  "(string \<Rightarrow> string \<Rightarrow> bool) \<Rightarrow> string \<Rightarrow> string option \<Rightarrow> bool \<Rightarrow> pkg_audit_item list \<Rightarrow> bool \<times> string \<Rightarrow> bool \<times> bool \<times> string" where
  "check_group fnm pkgname pkgversion quiet [] (res, sb) = (False, res, sb)"
| "check_group fnm pkgname pkgversion quiet (a # as) (res, sb) =
     (if \<not> fnm (item_name a) pkgname then check_group fnm pkgname pkgversion quiet as (res, sb)
      else let (res, sb) = (if entry_hit fnm pkgname pkgversion a
                            then (True, sb @ pkg_audit_print_entry (ai_e a) pkgname pkgversion quiet) else (res, sb))
           in if res \<and> quiet then (True, res, sb) else check_group fnm pkgname pkgversion quiet as (res, sb))"

text \<open>The loop over the array, from an item to the next prefix; the increment is at least 1 and does not leave the array.\<close>

function audit_walk ::
  "(string \<Rightarrow> string \<Rightarrow> bool) \<Rightarrow> string \<Rightarrow> string option \<Rightarrow> bool \<Rightarrow> pkg_audit_item list \<Rightarrow> bool \<times> string \<Rightarrow> bool \<times> string" where
  "audit_walk fnm pkgname pkgversion quiet [] st = st"
| "audit_walk fnm pkgname pkgversion quiet (a # as) st =
     (let cmp = strncmp pkgname (item_name a) (ai_noglob_len a); next = drop (ai_next_pfx_incr a - 1) as
      in if cmp > 0 then audit_walk fnm pkgname pkgversion quiet next st
         else if cmp < 0 then st
         else let (stop, st) = check_group fnm pkgname pkgversion quiet (take (ai_next_pfx_incr a) (a # as)) st
              in if stop then st else audit_walk fnm pkgname pkgversion quiet next st)"
  by pat_completeness auto
termination
  by (relation "measure (\<lambda>(fnm, pkgname, pkgversion, quiet, as, st). length as)") auto

text \<open>\<open>None\<close> is a read outside the table of the first bytes.\<close>

definition pkg_audit_is_vulnerable ::
  "(string \<Rightarrow> string \<Rightarrow> bool) \<Rightarrow> pkg_audit \<Rightarrow> string \<Rightarrow> string option \<Rightarrow> bool \<Rightarrow> (bool \<times> string) option" where
  "pkg_audit_is_vulnerable fnm audit pkgname pkgversion quiet =
     (if \<not> au_parsed audit then Some (False, [])
      else if size_of_char (first_char pkgname) \<ge> 256 then None
      else let (res, sb) = audit_walk fnm pkgname pkgversion quiet
                 (drop (au_first_byte audit ! size_of_char (first_char pkgname)) (au_items audit)) (False, [])
           in Some (res, if res then sb else []))"

section \<open>fnmatch\<close>

text \<open>
  \<open>fnmatch (pattern, string, 0)\<close> of the C library. A bracket expression is read up to its closing bracket; one that is not closed
  stands for itself.
\<close>

fun range_char :: "string \<Rightarrow> (char \<times> string) option" where
  "range_char [] = None"
| "range_char (c # p) = (if c = CHR 0x5C then (case p of [] \<Rightarrow> None | d # q \<Rightarrow> Some (d, q)) else Some (c, p))"

definition range_item :: "char \<Rightarrow> string \<Rightarrow> (bool \<times> string) option" where
  \<comment> \<open>one character or one range of a bracket expression\<close>
  "range_item t p =
     (case range_char p of
        None \<Rightarrow> None
      | Some (c, q) \<Rightarrow>
          if take 1 q = ''-'' \<and> tl q \<noteq> [] \<and> hd (tl q) \<noteq> CHR '']'' then
            map_option (\<lambda>(c2, r). (byte c \<le> byte t \<and> byte t \<le> byte c2, r)) (range_char (tl q))
          else Some (c = t, q))"

lemma range_char_length: "range_char p = Some (c, q) \<Longrightarrow> length q < length p"
  by (cases p) (auto split: if_splits list.splits)

lemma range_item_length: "range_item t p = Some (b, q) \<Longrightarrow> length q < length p"
  by (auto simp: range_item_def split: option.splits if_splits dest!: range_char_length)

function range_match :: "char \<Rightarrow> bool \<Rightarrow> string \<Rightarrow> (bool \<times> string) option" where
  "range_match t ok p =
     (case range_item t p of
        None \<Rightarrow> None
      | Some (hit, q) \<Rightarrow> if take 1 q = '']'' then Some (ok \<or> hit, tl q) else range_match t (ok \<or> hit) q)"
  by pat_completeness auto
termination
  by (relation "measure (\<lambda>(t, ok, p). length p)") (auto dest: range_item_length)

declare range_match.simps [simp del]

lemma range_match_length: "range_match t ok p = Some (b, q) \<Longrightarrow> length q < length p"
proof (induction t ok p rule: range_match.induct)
  case (1 t ok p)
  obtain hit r where r: "range_item t p = Some (hit, r)" using "1.prems" by (subst (asm) range_match.simps) (auto split: option.splits)
  show ?case
  proof (cases "take 1 r = '']''")
    case True
    then show ?thesis using "1.prems" r range_item_length [OF r] by (subst (asm) range_match.simps) auto
  next
    case False
    then have "length q < length r" using "1.IH" [OF r refl False] "1.prems" r by (subst (asm) (2) range_match.simps) simp
    then show ?thesis using range_item_length [OF r] by simp
  qed
qed

definition bracket :: "char \<Rightarrow> string \<Rightarrow> (bool \<times> string) option" where
  "bracket t p =
     (if take 1 p = ''!'' \<or> take 1 p = ''^'' then map_option (\<lambda>(ok, q). (\<not> ok, q)) (range_match t False (tl p))
      else range_match t False p)"

lemma bracket_length: "bracket t p = Some (b, q) \<Longrightarrow> length q < length p"
  using range_match_length [of t False p b q] range_match_length [of t False "tl p" "\<not> b" q]
  by (cases p) (auto simp: bracket_def split: if_splits)

function fnmatch :: "string \<Rightarrow> string \<Rightarrow> bool" where
  "fnmatch [] s = (s = [])"
| "fnmatch (c # p) s =
     (if c = CHR ''?'' then s \<noteq> [] \<and> fnmatch p (tl s)
      else if c = CHR ''*'' then fnmatch p s \<or> (case s of [] \<Rightarrow> False | _ # s' \<Rightarrow> fnmatch (c # p) s')
      else if c = CHR ''['' then
        s \<noteq> [] \<and> (case bracket (hd s) p of None \<Rightarrow> hd s = c \<and> fnmatch p (tl s) | Some (ok, q) \<Rightarrow> ok \<and> fnmatch q (tl s))
      else if c = CHR 0x5C \<and> p \<noteq> [] then s \<noteq> [] \<and> hd s = hd p \<and> fnmatch (tl p) (tl s)
      else s \<noteq> [] \<and> hd s = c \<and> fnmatch p (tl s))"
  by pat_completeness auto
termination
  by (relation "measures [\<lambda>(p, s). length p, \<lambda>(p, s). length s]") (auto simp: less_Suc_eq_le neq_Nil_conv dest: bracket_length)

declare fnmatch.simps(2) [simp del]

text \<open>What the search relies on: characters that do not glob match themselves.\<close>

locale glob =
  fixes fnm :: "string \<Rightarrow> string \<Rightarrow> bool"
  assumes fnm_Nil: "fnm [] s \<longleftrightarrow> s = []"
    and fnm_plain: "\<not> globbing c \<Longrightarrow> fnm (c # p) s \<longleftrightarrow> s \<noteq> [] \<and> hd s = c \<and> fnm p (tl s)"
begin

lemma fnm_prefix:
  "fnm p s \<Longrightarrow> take (pkg_audit_str_noglob_len p) s = take (pkg_audit_str_noglob_len p) p"
proof (induction p arbitrary: s)
  case (Cons c p)
  then show ?case by (cases s; cases "globbing c") (simp_all add: fnm_plain)
qed simp

end

interpretation fnmatch: glob fnmatch
  by unfold_locales (simp_all add: fnmatch.simps(2) globbing_def)

section \<open>The order of the array\<close>

definition item_prefix :: "pkg_audit_item \<Rightarrow> string" where
  "item_prefix a = take (ai_noglob_len a) (item_name a)"

definition item_ok :: "pkg_audit_item \<Rightarrow> bool" where
  "item_ok a \<longleftrightarrow> ae_pkgname (ai_e a) \<noteq> None \<and> ai_noglob_len a = pkg_audit_str_noglob_len (item_name a)"

lemma noglob_le: "pkg_audit_str_noglob_len s \<le> length s"
  by (induction s) auto

lemma item_prefix_length: "item_ok a \<Longrightarrow> length (item_prefix a) = ai_noglob_len a"
  using noglob_le by (simp add: item_ok_def item_prefix_def min_absorb2)

lemma strcmp_take:
  "strcmp x y = (let m = min (length x) (length y); r = strcmp (take m x) (take m y)
     in if r \<noteq> 0 then r else if length x < length y then -1 else if length y < length x then 1 else 0)"
  by (induction x y rule: strcmp.induct) (auto simp: Let_def)

lemma entry_cmp_prefix:
  assumes "item_ok a" "item_ok b"
  shows "pkg_audit_entry_cmp a b = strcmp (item_prefix a) (item_prefix b)"
proof -
  let ?m = "min (ai_noglob_len a) (ai_noglob_len b)"
  have m: "(if ai_noglob_len a < ai_noglob_len b then ai_noglob_len a else ai_noglob_len b) = ?m" by simp
  have a: "take ?m (item_name a) = take ?m (item_prefix a)" by (simp add: item_prefix_def)
  have b: "take ?m (item_name b) = take ?m (item_prefix b)" by (simp add: item_prefix_def)
  show ?thesis
    unfolding strcmp_take [of "item_prefix a"] item_prefix_length [OF assms(1)] item_prefix_length [OF assms(2)]
      pkg_audit_entry_cmp_def strncmp_def Let_def m a b by simp
qed

lemma strcmp_le_trans: "strcmp a b \<le> 0 \<Longrightarrow> strcmp b c < 0 \<Longrightarrow> strcmp a c < 0"
  by (metis strcmp_antisym strcmp_eq_0 strcmp_trans order_less_le neg_le_0_iff_le not_less)

lemma strcmp_prefix_less: "strcmp (take (length p) s) p < 0 \<Longrightarrow> strcmp s p < 0"
proof (induction s p rule: strcmp.induct)
  case (4 a as b bs)
  then show ?case by (simp split: if_splits)
qed simp_all

lemma strcmp_of_prefix: "strcmp (take n s) s \<le> 0"
proof (induction s arbitrary: n)
  case (Cons c s)
  then show ?case by (cases n) auto
qed simp

text \<open>The loop may stop: nothing from an item on matches a name that is smaller than the prefix of the item.\<close>

context glob
begin

lemma smaller_name:
  assumes "item_ok a" "item_ok b" "strcmp (item_prefix a) (item_prefix b) \<le> 0" "strncmp name (item_name a) (ai_noglob_len a) < 0"
  shows "\<not> fnm (item_name b) name"
proof
  assume "fnm (item_name b) name"
  then have "take (ai_noglob_len b) name = item_prefix b"
    using fnm_prefix assms(2) by (simp add: item_prefix_def item_ok_def)
  then have "strcmp (item_prefix b) name \<le> 0" using strcmp_of_prefix by metis
  moreover have "strcmp (take (length (item_prefix a)) name) (item_prefix a) < 0"
    using assms(4) unfolding item_prefix_length [OF assms(1)] by (simp add: strncmp_def item_prefix_def)
  then have "strcmp name (item_prefix a) < 0" by (rule strcmp_prefix_less)
  ultimately have "strcmp (item_prefix b) (item_prefix a) < 0" by (rule strcmp_le_trans)
  then show False using assms(3) strcmp_antisym [of "item_prefix a" "item_prefix b"] by simp
qed

end

section \<open>The jumps\<close>

text \<open>An increment leads over items with the same name and not out of the array.\<close>

definition jump_at :: "pkg_audit_item list \<Rightarrow> nat \<Rightarrow> bool" where
  "jump_at r k \<longleftrightarrow> 1 \<le> ai_next_pfx_incr (r ! k) \<and> k + ai_next_pfx_incr (r ! k) \<le> length r
     \<and> (\<forall>i < ai_next_pfx_incr (r ! k). item_name (r ! (k + i)) = item_name (r ! k))"

definition jumps_ok :: "pkg_audit_item list \<Rightarrow> bool" where
  "jumps_ok r \<longleftrightarrow> (\<forall>k < length r. jump_at r k)"

definition same_items :: "pkg_audit_item list \<Rightarrow> pkg_audit_item list \<Rightarrow> bool" where
  "same_items r q \<longleftrightarrow> map ai_e q = map ai_e r \<and> map ai_noglob_len q = map ai_noglob_len r"

lemma same_items_refl [simp]: "same_items r r"
  by (simp add: same_items_def)

lemma same_items_trans: "same_items r q \<Longrightarrow> same_items q p \<Longrightarrow> same_items r p"
  by (simp add: same_items_def)

lemma same_items_length: "same_items r q \<Longrightarrow> length q = length r"
  unfolding same_items_def by (metis length_map)

lemma same_items_name: "same_items r q \<Longrightarrow> i < length r \<Longrightarrow> item_name (q ! i) = item_name (r ! i)"
  using same_items_length [of r q] unfolding same_items_def item_name_def by (metis nth_map)

lemma upd_incr:
  assumes "b < length q"
  shows "same_items q (q[b := (q ! b)\<lparr>ai_next_pfx_incr := v\<rparr>])"
    "k < length q \<Longrightarrow> ai_next_pfx_incr (q[b := (q ! b)\<lparr>ai_next_pfx_incr := v\<rparr>] ! k) = (if k = b then v else ai_next_pfx_incr (q ! k))"
proof -
  show "same_items q (q[b := (q ! b)\<lparr>ai_next_pfx_incr := v\<rparr>])"
    using assms by (simp add: same_items_def map_update list_update_same_conv)
  show "k < length q \<Longrightarrow> ai_next_pfx_incr (q[b := (q ! b)\<lparr>ai_next_pfx_incr := v\<rparr>] ! k) = (if k = b then v else ai_next_pfx_incr (q ! k))"
    by (simp add: nth_list_update)
qed

lemma set_incr_loop:
  fixes t :: nat
  assumes "base + m \<le> length r" "q = foldl (\<lambda>r i. r[base + i := (r ! (base + i))\<lparr>ai_next_pfx_incr := t - i\<rparr>]) r [0..<m]"
  shows "same_items r q \<and> (\<forall>k < length r. ai_next_pfx_incr (q ! k) =
      (if base \<le> k \<and> k < base + m then t - (k - base) else ai_next_pfx_incr (r ! k)))"
  using assms
proof (induction m arbitrary: q)
  case (Suc m)
  obtain p where p: "p = foldl (\<lambda>r i. r[base + i := (r ! (base + i))\<lparr>ai_next_pfx_incr := t - i\<rparr>]) r [0..<m]" by simp
  have ih: "same_items r p" "\<And>k. k < length r \<Longrightarrow> ai_next_pfx_incr (p ! k) =
      (if base \<le> k \<and> k < base + m then t - (k - base) else ai_next_pfx_incr (r ! k))" using Suc.IH [OF _ p] Suc.prems(1) by simp_all
  have l: "length p = length r" by (rule same_items_length [OF ih(1)])
  have q: "q = p[base + m := (p ! (base + m))\<lparr>ai_next_pfx_incr := t - m\<rparr>]" using Suc.prems(2) p by simp
  have b: "base + m < length p" using Suc.prems(1) l by simp
  note u = upd_incr [OF b, where v = "t - m", folded q]
  have "ai_next_pfx_incr (q ! k) = (if base \<le> k \<and> k < base + Suc m then t - (k - base) else ai_next_pfx_incr (r ! k))"
    if "k < length r" for k
  proof (cases "k = base + m")
    case False
    then have "(base \<le> k \<and> k < base + Suc m) = (base \<le> k \<and> k < base + m)" by linarith
    then show ?thesis using u(2) [of k] ih(2) [OF that] that l False by simp
  qed (use u(2) [of k] that l in simp)
  then show ?case using same_items_trans [OF ih(1) u(1)] by blast
qed simp

lemma set_incr_facts:
  assumes "base + (t - 1) \<le> length r"
  shows "same_items r (set_incr base r t)"
    "k < length r \<Longrightarrow> ai_next_pfx_incr (set_incr base r t ! k) =
      (if base \<le> k \<and> k < base + (t - 1) then t - (k - base) else ai_next_pfx_incr (r ! k))"
  using set_incr_loop [OF assms set_incr_def] by blast+

text \<open>Before the step \<open>n\<close> the last \<open>t\<close> items have one name.\<close>

definition jump_inv :: "pkg_audit_item list \<Rightarrow> nat \<Rightarrow> pkg_audit_item list \<times> nat \<Rightarrow> bool" where
  "jump_inv r n st \<longleftrightarrow> (case st of (q, t) \<Rightarrow> same_items r q \<and> jumps_ok q \<and> t \<le> n
     \<and> (\<forall>i. n - t \<le> i \<and> i < n \<longrightarrow> item_name (q ! i) = item_name (q ! (n - 1))))"

lemma jump_atI:
  assumes "same_items q p" "ai_next_pfx_incr (p ! k) = c" "1 \<le> c" "k + c \<le> length q"
    and "\<And>i. i < c \<Longrightarrow> item_name (q ! (k + i)) = item_name (q ! k)"
  shows "jump_at p k"
proof -
  have "item_name (p ! (k + i)) = item_name (p ! k)" if "i < c" for i
  proof -
    have "k + i < length q" "k < length q" using that assms(4) by linarith+
    then show ?thesis using same_items_name [OF assms(1)] assms(5) [OF that] by simp
  qed
  then show ?thesis using assms(2,3,4) same_items_length [OF assms(1)] by (simp add: jump_at_def)
qed

lemma jump_step_inv:
  assumes inv: "jump_inv r n (q, t)" and n: "1 \<le> n" "n < length r"
  shows "jump_inv r (Suc n) (jump_step (q, t) n)"
proof -
  have q: "same_items r q" "jumps_ok q" "t \<le> n" "\<And>i. n - t \<le> i \<Longrightarrow> i < n \<Longrightarrow> item_name (q ! i) = item_name (q ! (n - 1))"
    using inv unfolding jump_inv_def prod.case by blast+
  have l: "length q = length r" by (rule same_items_length [OF q(1)])
  show ?thesis
  proof (cases "ai_noglob_len (q ! (n - 1)) \<noteq> ai_noglob_len (q ! n)")
    case True
    let ?p = "set_incr (n - t) q t"
    have b: "n - t + (t - 1) \<le> length q" using n l q(3) by simp
    note p = set_incr_facts [OF b]
    have names: "i < length q \<Longrightarrow> item_name (?p ! i) = item_name (q ! i)" for i by (rule same_items_name [OF p(1)])
    have "jump_at ?p k" if k: "k < length q" for k
    proof (cases "n - t \<le> k \<and> k < n - t + (t - 1)")
      case True
      then have "item_name (q ! (k + i)) = item_name (q ! k)" if "i < t - (k - (n - t))" for i
      proof -
        have h: "n - t \<le> k + i" "k + i < n" "n - t \<le> k" "k < n" using that True q(3) by linarith+
        show ?thesis by (rule trans [OF q(4) [OF h(1,2)] sym [OF q(4) [OF h(3,4)]]])
      qed
      moreover have "ai_next_pfx_incr (?p ! k) = t - (k - (n - t))" using p(2) [OF k] True by simp
      moreover have "1 \<le> t - (k - (n - t))" "k + (t - (k - (n - t))) \<le> length q" using True q(3) n l by linarith+
      ultimately show ?thesis by (intro jump_atI [OF p(1)])
    next
      case False
      have "ai_next_pfx_incr (?p ! k) = ai_next_pfx_incr (q ! k)" unfolding p(2) [OF k] if_not_P [OF False] ..
      moreover have "jump_at q k" using q(2) k by (simp add: jumps_ok_def)
      ultimately show ?thesis unfolding jump_at_def [of q] by (intro jump_atI [OF p(1)]) blast+
    qed
    then show ?thesis using True same_items_trans [OF q(1) p(1)] same_items_length [OF p(1)]
      by (auto simp: jump_step_def jump_inv_def jumps_ok_def Let_def less_Suc_eq)
  next
    case False
    then show ?thesis using q n by (auto simp: jump_step_def jump_inv_def Let_def less_Suc_eq Suc_diff_le)
  qed
qed

lemma fill_jumps_ok:
  assumes "\<forall>a \<in> set r. ai_next_pfx_incr a = 1"
  shows "same_items r (fill_jumps r)" "jumps_ok (fill_jumps r)"
proof -
  have "jump_inv r 1 (r, 0)" using assms by (auto simp: jump_inv_def jumps_ok_def jump_at_def)
  then have "jump_inv r (Suc n) (foldl jump_step (r, 0) [1..<Suc n])" if "Suc n \<le> length r \<or> n = 0" for n
    using that
  proof (induction n)
    case (Suc n)
    obtain q t where qt: "foldl jump_step (r, 0) [1..<Suc n] = (q, t)" by fastforce
    with Suc show ?case using jump_step_inv [of r "Suc n" q t] by simp
  qed simp
  from this [of "length r - 1"] have "jump_inv r (max 1 (length r)) (foldl jump_step (r, 0) [1..<length r])"
    by (cases "length r") (auto simp: jump_inv_def)
  then show "same_items r (fill_jumps r)" "jumps_ok (fill_jumps r)" by (auto simp: jump_inv_def fill_jumps_def split: prod.splits)
qed

lemma jumps_ok_drop: "jumps_ok r \<Longrightarrow> jumps_ok (drop n r)"
proof -
  assume ok: "jumps_ok r"
  have "jump_at (drop n r) k" if "k < length (drop n r)" for k
  proof -
    have k: "n + k < length r" using that by simp
    then have j: "jump_at r (n + k)" using ok by (simp add: jumps_ok_def)
    have "item_name (drop n r ! (k + i)) = item_name (drop n r ! k)" if "i < ai_next_pfx_incr (r ! (n + k))" for i
      using j that k by (simp add: jump_at_def add.assoc)
    then show ?thesis using j k by (auto simp: jump_at_def)
  qed
  then show "jumps_ok (drop n r)" by (simp add: jumps_ok_def)
qed

lemma jumps_ok_Cons:
  assumes "jumps_ok (a # as)"
  shows "1 \<le> ai_next_pfx_incr a" "b \<in> set (take (ai_next_pfx_incr a) (a # as)) \<Longrightarrow> item_name b = item_name a"
proof -
  have j: "jump_at (a # as) 0" using assms by (simp add: jumps_ok_def)
  then show "1 \<le> ai_next_pfx_incr a" by (simp add: jump_at_def)
  assume "b \<in> set (take (ai_next_pfx_incr a) (a # as))"
  then obtain i where "i < ai_next_pfx_incr a" "b = (a # as) ! i" by (auto simp: in_set_conv_nth simp del: take_Cons')
  then show "item_name b = item_name a" using j by (simp add: jump_at_def)
qed

section \<open>The search finds exactly the matching entries\<close>

definition hits :: "(string \<Rightarrow> string \<Rightarrow> bool) \<Rightarrow> string \<Rightarrow> string option \<Rightarrow> pkg_audit_item list \<Rightarrow> pkg_audit_entry list" where
  "hits fnm pkgname pkgversion as = map ai_e (filter (entry_hit fnm pkgname pkgversion) as)"

text \<open>The texts of the entries that are found; only the first when \<open>quiet\<close> is set.\<close>

definition hits_text :: "string \<Rightarrow> string option \<Rightarrow> bool \<Rightarrow> pkg_audit_entry list \<Rightarrow> string" where
  "hits_text pkgname pkgversion quiet es =
     concat (map (\<lambda>e. pkg_audit_print_entry e pkgname pkgversion quiet) (if quiet then take 1 es else es))"

context glob
begin

lemma check_group_hits:
  assumes "\<not> (res \<and> quiet)"
  shows "check_group fnm pkgname pkgversion quiet as (res, sb) =
    (quiet \<and> hits fnm pkgname pkgversion as \<noteq> [], res \<or> hits fnm pkgname pkgversion as \<noteq> [], sb @ hits_text pkgname pkgversion quiet (hits fnm pkgname pkgversion as))"
  using assms
proof (induction as arbitrary: res sb)
  case (Cons a as)
  show ?case
  proof (cases "entry_hit fnm pkgname pkgversion a")
    case True
    then have "fnm (item_name a) pkgname" by (simp add: entry_hit_def)
    then show ?thesis using True Cons.IH [of True] by (cases quiet) (simp_all add: hits_def hits_text_def)
  next
    case False
    then show ?thesis using Cons by (cases "fnm (item_name a) pkgname") (auto simp: hits_def)
  qed
qed (simp add: hits_def hits_text_def)

lemma entry_hit_prefix:
  assumes "item_ok b" "entry_hit fnm pkgname pkgversion b"
  shows "strncmp pkgname (item_name b) (ai_noglob_len b) = 0"
  using assms fnm_prefix by (auto simp: strncmp_def entry_hit_def item_ok_def)

lemma audit_walk_hits:
  assumes "jumps_ok as" "\<forall>a \<in> set as. item_ok a" "sorted_wrt (\<lambda>a b. strcmp (item_prefix a) (item_prefix b) \<le> 0) as"
    and "\<not> (res \<and> quiet)"
  shows "audit_walk fnm pkgname pkgversion quiet as (res, sb) =
    (res \<or> hits fnm pkgname pkgversion as \<noteq> [], sb @ hits_text pkgname pkgversion quiet (hits fnm pkgname pkgversion as))"
  using assms
proof (induction "length as" arbitrary: as res sb rule: less_induct)
  case less
  show ?case
  proof (cases as)
    case (Cons a bs)
    let ?n = "ai_next_pfx_incr a"
    let ?group = "take ?n as" and ?next = "drop ?n as"
    note j = jumps_ok_Cons [OF less.prems(1) [unfolded Cons]]
    have nxt: "drop (?n - 1) bs = ?next" using j(1) Cons by (cases ?n) auto
    have split: "hits fnm pkgname pkgversion as = hits fnm pkgname pkgversion ?group @ hits fnm pkgname pkgversion ?next" unfolding hits_def by (metis append_take_drop_id filter_append map_append)
    have ih: "audit_walk fnm pkgname pkgversion quiet ?next (r, s) = (r \<or> hits fnm pkgname pkgversion ?next \<noteq> [], s @ hits_text pkgname pkgversion quiet (hits fnm pkgname pkgversion ?next))"
      if "\<not> (r \<and> quiet)" for r s
    proof (rule less.hyps)
      show "length ?next < length as" using j(1) Cons by simp
      show "\<forall>b \<in> set ?next. item_ok b" using less.prems(2) by (meson in_set_dropD)
    qed (use that less.prems in \<open>simp_all add: jumps_ok_drop sorted_wrt_drop\<close>)
    have g_ok: "item_ok b" if "b \<in> set ?group" for b using less.prems(2) that by (auto dest: in_set_takeD)
    let ?cmp = "strncmp pkgname (item_name a) (ai_noglob_len a)"
    note unf = audit_walk.simps(2) [of fnm pkgname pkgversion quiet a bs, folded Cons, unfolded nxt]
    show ?thesis
    proof (cases "?cmp = 0")
      case False
      have a_ok: "item_ok a" using less.prems(2) Cons by simp
      have "\<not> entry_hit fnm pkgname pkgversion b" if "b \<in> set ?group" for b
        using entry_hit_prefix [OF g_ok [OF that]] j(2) that g_ok [OF that] a_ok False Cons by (auto simp: item_ok_def)
      then have none: "hits fnm pkgname pkgversion ?group = []" by (simp add: hits_def filter_empty_conv)
      show ?thesis
      proof (cases "?cmp > 0")
        case True
        then show ?thesis using ih [OF less.prems(4)] none split by (simp add: unf Let_def)
      next
        case lt: False
        have "\<not> entry_hit fnm pkgname pkgversion b" if "b \<in> set as" for b
        proof -
          have "strcmp (item_prefix a) (item_prefix b) \<le> 0" using less.prems(3) that Cons by auto
          then show ?thesis using smaller_name [OF a_ok, of b pkgname] less.prems(2) that lt False by (auto simp: entry_hit_def)
        qed
        then have "hits fnm pkgname pkgversion as = []" by (simp add: hits_def filter_empty_conv)
        then show ?thesis using lt False by (simp add: unf Let_def hits_text_def)
      qed
    next
      case True
      have g: "check_group fnm pkgname pkgversion quiet ?group (res, sb) =
          (quiet \<and> hits fnm pkgname pkgversion ?group \<noteq> [], res \<or> hits fnm pkgname pkgversion ?group \<noteq> [], sb @ hits_text pkgname pkgversion quiet (hits fnm pkgname pkgversion ?group))"
        by (rule check_group_hits [OF less.prems(4)])
      show ?thesis
      proof (cases "quiet \<and> hits fnm pkgname pkgversion ?group \<noteq> []")
        case True
        then have "hits_text pkgname pkgversion quiet (hits fnm pkgname pkgversion ?group @ xs) =
            hits_text pkgname pkgversion quiet (hits fnm pkgname pkgversion ?group)" for xs
          by (cases "hits fnm pkgname pkgversion ?group") (simp_all add: hits_text_def)
        then show ?thesis using \<open>?cmp = 0\<close> True unfolding unf Let_def g split prod.case by simp
      next
        case False
        then have "\<not> ((res \<or> hits fnm pkgname pkgversion ?group \<noteq> []) \<and> quiet)" using less.prems(4) by blast
        from ih [OF this, of "sb @ hits_text pkgname pkgversion quiet (hits fnm pkgname pkgversion ?group)"] False \<open>?cmp = 0\<close> g split
        show ?thesis by (auto simp: unf Let_def hits_text_def)
      qed
    qed
  qed (simp add: hits_def hits_text_def)
qed

end

section \<open>The whole audit\<close>

definition sorts :: "((pkg_audit_item \<Rightarrow> pkg_audit_item \<Rightarrow> int) \<Rightarrow> pkg_audit_item list \<Rightarrow> pkg_audit_item list) \<Rightarrow> bool" where
  \<comment> \<open>what \<open>qsort\<close> promises for the comparison of the items\<close>
  "sorts f \<longleftrightarrow> (\<forall>as. (\<forall>a \<in> set as. item_ok a) \<longrightarrow> mset (f pkg_audit_entry_cmp as) = mset as
     \<and> sorted_wrt (\<lambda>a b. pkg_audit_entry_cmp a b \<le> 0) (f pkg_audit_entry_cmp as))"

definition entry_matches :: "string \<Rightarrow> string option \<Rightarrow> pkg_audit_entry \<Rightarrow> bool" where
  \<comment> \<open>the specification of the search, for one entry\<close>
  "entry_matches pkgname pkgversion e \<longleftrightarrow>
     (case ae_pkgname e of
        None \<Rightarrow> False
      | Some name \<Rightarrow> fnmatch name pkgname
          \<and> (case pkgversion of None \<Rightarrow> True
             | Some v \<Rightarrow> \<exists>r \<in> set (ae_versions e). pkg_audit_version_match v (vr_v1 r) \<and> pkg_audit_version_match v (vr_v2 r)))"

definition plain_start :: "pkg_audit_entry \<Rightarrow> bool" where
  \<comment> \<open>the name does not begin with a globbing character\<close>
  "plain_start e \<longleftrightarrow> (case ae_pkgname e of Some (c # _) \<Rightarrow> \<not> globbing c | _ \<Rightarrow> True)"

lemma audit_items_ok: "a \<in> set (audit_items es) \<Longrightarrow> item_ok a \<and> ai_next_pfx_incr a = 1"
  by (auto simp: audit_items_def item_ok_def item_name_def)

lemma audit_items_entries: "map ai_e (audit_items es) = filter (\<lambda>e. ae_pkgname e \<noteq> None) es"
  by (simp add: audit_items_def comp_def)

lemma preprocess_facts:
  assumes "sorts (ad_qsort e)" "pkg_audit_preprocess e es = (items, idx)"
  shows "jumps_ok items" "\<forall>a \<in> set items. item_ok a" "sorted_wrt (\<lambda>a b. strcmp (item_prefix a) (item_prefix b) \<le> 0) items"
    "mset (map ai_e items) = mset (filter (\<lambda>e. ae_pkgname e \<noteq> None) es)" "idx = first_byte_idx items"
proof -
  let ?r = "ad_qsort e pkg_audit_entry_cmp (audit_items es)"
  have q: "mset ?r = mset (audit_items es)" "sorted_wrt (\<lambda>a b. pkg_audit_entry_cmp a b \<le> 0) ?r"
    using assms(1) audit_items_ok by (auto simp: sorts_def)
  have m: "a \<in> set ?r \<longleftrightarrow> a \<in> set (audit_items es)" for a using mset_eq_setD [OF q(1)] by simp
  have i: "items = fill_jumps ?r" and idx: "idx = first_byte_idx items" using assms(2) by (auto simp: pkg_audit_preprocess_def Let_def)
  have f: "same_items ?r items" "jumps_ok items" using fill_jumps_ok [of ?r] m audit_items_ok unfolding i by auto
  show "jumps_ok items" "idx = first_byte_idx items" by (fact f idx)+
  have same: "ai_e (items ! k) = ai_e (?r ! k)" "ai_noglob_len (items ! k) = ai_noglob_len (?r ! k)" if "k < length ?r" for k
    using f(1) same_items_length [OF f(1)] that unfolding same_items_def by (metis nth_map)+
  have ok: "item_ok (items ! k)" if "k < length items" for k
  proof -
    have k: "k < length ?r" using that same_items_length [OF f(1)] by simp
    then have "item_ok (?r ! k)" using audit_items_ok m nth_mem by blast
    then show ?thesis using same [OF k] by (simp add: item_ok_def item_name_def)
  qed
  then show "\<forall>a \<in> set items. item_ok a" by (auto simp: in_set_conv_nth)
  have ok': "item_ok (?r ! k)" if "k < length ?r" for k using that m audit_items_ok nth_mem by blast
  have p: "item_prefix (items ! k) = item_prefix (?r ! k)" if "k < length ?r" for k
    using same [OF that] by (simp add: item_prefix_def item_name_def)
  show "sorted_wrt (\<lambda>a b. strcmp (item_prefix a) (item_prefix b) \<le> 0) items"
    using q(2) same_items_length [OF f(1)] p entry_cmp_prefix ok' by (auto simp: sorted_wrt_iff_nth_less)
  have "map ai_e items = map ai_e ?r" using f(1) by (simp add: same_items_def)
  then show "mset (map ai_e items) = mset (filter (\<lambda>e. ae_pkgname e \<noteq> None) es)"
    using q(1) audit_items_entries [of es] by (metis mset_map)
qed

lemma first_byte_idx_nth: "n < 256 \<Longrightarrow> first_byte_idx ret ! n =
    (if n = 0 then 0 else length (takeWhile (\<lambda>a. size_of_char (first_char (item_name a)) < n) ret))"
  by (cases n) (simp_all add: first_byte_idx_def nth_tl del: upt_Suc)

text \<open>The items that are skipped do not match.\<close>

lemma skipped_items:
  assumes "size_of_char (first_char pkgname) < 256" "plain_start (ai_e a)" "\<forall>a \<in> set items. item_ok a"
    and "a \<in> set (take (first_byte_idx items ! size_of_char (first_char pkgname)) items)"
  shows "\<not> fnmatch (item_name a) pkgname"
proof
  assume m: "fnmatch (item_name a) pkgname"
  let ?n = "size_of_char (first_char pkgname)"
  have n: "?n \<noteq> 0" using assms(1,4) by (auto simp: first_byte_idx_nth split: if_splits)
  then have "a \<in> set (takeWhile (\<lambda>a. size_of_char (first_char (item_name a)) < ?n) items)"
    using assms(1,4) by (simp add: first_byte_idx_nth takeWhile_eq_take [symmetric])
  then have a: "size_of_char (first_char (item_name a)) < ?n" "a \<in> set items" by (auto dest: set_takeWhileD)
  show False
  proof (cases "item_name a")
    case Nil
    then have "pkgname = []" using m fnmatch.fnm_Nil by simp
    then show False using n by (simp add: first_char_def size_of_char_def byte_def)
  next
    case (Cons c p)
    then have "\<not> globbing c" using a(2) assms(2,3) by (force simp: plain_start_def item_ok_def item_name_def split: option.splits)
    then have "pkgname \<noteq> []" "hd pkgname = c" using m Cons fnmatch.fnm_plain by auto
    then show False using a(1) Cons by (cases pkgname) (simp_all add: first_char_def)
  qed
qed

lemma hits_entries: "\<forall>a \<in> set as. item_ok a \<Longrightarrow> hits fnmatch pkgname pkgversion as = filter (entry_matches pkgname pkgversion) (map ai_e as)"
  by (induction as) (auto simp: hits_def entry_hit_def entry_matches_def item_ok_def item_name_def)

lemma audit_search:
  assumes "sorts (ad_qsort e)" "pkg_audit_process e audit = Some (EPKG_OK, audit')"
    and "\<forall>x \<in> set (au_entries audit'). plain_start x" "size_of_char (first_char pkgname) < 256"
  shows "\<exists>es. mset es = mset (filter (entry_matches pkgname pkgversion) (au_entries audit'))
    \<and> pkg_audit_is_vulnerable fnmatch audit' pkgname pkgversion quiet = Some (es \<noteq> [], hits_text pkgname pkgversion quiet es)"
proof -
  obtain items where i: "pkg_audit_preprocess e (au_entries audit') = (items, first_byte_idx items)"
    "au_items audit' = items" "au_first_byte audit' = first_byte_idx items" "au_parsed audit'"
    using assms(2) by (auto simp: pkg_audit_process_def pkg_audit_preprocess_def Let_def split: option.splits if_splits prod.splits)
  note p = preprocess_facts [OF assms(1) i(1)]
  let ?k = "first_byte_idx items ! size_of_char (first_char pkgname)"
  let ?es = "hits fnmatch pkgname pkgversion (drop ?k items)"
  have "set (map ai_e items) \<subseteq> set (au_entries audit')" using mset_eq_setD [OF p(4)] by auto
  then have plain: "\<forall>a \<in> set items. plain_start (ai_e a)" using assms(3) by auto
  have "hits fnmatch pkgname pkgversion (take ?k items) = []"
    using skipped_items [OF assms(4) _ p(2)] plain by (auto simp: hits_def filter_empty_conv entry_hit_def dest: in_set_takeD)
  then have all: "?es = hits fnmatch pkgname pkgversion items"
    unfolding hits_def by (metis append_Nil append_take_drop_id filter_append map_append)
  have "?es = filter (entry_matches pkgname pkgversion) (map ai_e items)" unfolding all by (rule hits_entries [OF p(2)])
  then have "mset ?es = mset (filter (entry_matches pkgname pkgversion) (filter (\<lambda>e. ae_pkgname e \<noteq> None) (au_entries audit')))"
    by (simp only: mset_filter [of "entry_matches pkgname pkgversion"] p(4))
  also have "filter (entry_matches pkgname pkgversion) (filter (\<lambda>e. ae_pkgname e \<noteq> None) (au_entries audit')) =
      filter (entry_matches pkgname pkgversion) (au_entries audit')"
    unfolding filter_filter by (rule filter_cong) (auto simp: entry_matches_def split: option.splits)
  finally have m: "mset ?es = mset (filter (entry_matches pkgname pkgversion) (au_entries audit'))" .
  have "\<forall>a \<in> set (drop ?k items). item_ok a" using p(2) by (meson in_set_dropD)
  then have "audit_walk fnmatch pkgname pkgversion quiet (drop ?k items) (False, []) = (?es \<noteq> [], hits_text pkgname pkgversion quiet ?es)"
    using fnmatch.audit_walk_hits [of "drop ?k items" False quiet pkgname pkgversion "[]"] p(3) jumps_ok_drop [OF p(1)]
    by (simp add: sorted_wrt_drop)
  then have "pkg_audit_is_vulnerable fnmatch audit' pkgname pkgversion quiet = Some (?es \<noteq> [], hits_text pkgname pkgversion quiet ?es)"
    using i assms(4) by (auto simp: pkg_audit_is_vulnerable_def hits_text_def split: prod.split)
  with m show ?thesis by blast
qed

text \<open>
  C9: the search with the sorted array, its jumps and the table of first bytes finds the same as a look at every entry:
  when no name of an entry begins with a globbing character and the name of the package with a byte below 128, \<open>pkg_audit_is_vulnerable\<close>
  reports a package exactly when some entry matches its name and version, and prints each of these entries once, or the first when it is quiet.
\<close>

theorem audit_search_exact:
  assumes "sorts (ad_qsort e)" "pkg_audit_process e audit = Some (EPKG_OK, audit')"
    and "\<forall>x \<in> set (au_entries audit'). plain_start x" "size_of_char (first_char pkgname) < 256"
  shows "\<exists>es. mset es = mset (filter (entry_matches pkgname pkgversion) (au_entries audit'))
    \<and> pkg_audit_is_vulnerable fnmatch audit' pkgname pkgversion quiet = Some (es \<noteq> [], hits_text pkgname pkgversion quiet es)"
  by (rule audit_search [OF assms])

section \<open>No sequence of events breaks the handlers\<close>

definition vx_ok :: "vulnxml_userdata \<Rightarrow> bool" where
  "vx_ok ud \<longleftrightarrow> vx_state ud = VULNXML_PARSE_INIT \<or> (\<exists>e. vx_entry ud = Some e \<and>
     (vx_state ud \<in> {VULNXML_PARSE_VULN, VULNXML_PARSE_TOPIC, VULNXML_PARSE_CVE} \<or> (\<exists>p ps. ae_packages e = p # ps \<and>
        (vx_state ud = VULNXML_PARSE_PACKAGE \<or> vx_state ud = VULNXML_PARSE_PACKAGE_NAME \<and> ap_names p \<noteq> []
         \<or> vx_state ud \<notin> {VULNXML_PARSE_PACKAGE, VULNXML_PARSE_PACKAGE_NAME} \<and> ap_versions p \<noteq> []))))"

lemma upd_first_some: "xs \<noteq> [] \<Longrightarrow> upd_first (\<lambda>x. Some (f x)) xs = Some (f (hd xs) # tl xs)"
  by (cases xs) auto

lemmas upd_defs = upd_entry_def upd_package_def set_state_def

lemma find_range_op:
  "find P range_ops = Some (el, st, op) \<Longrightarrow> (el, st, op) \<in> set range_ops"
  by (auto simp: find_Some_iff in_set_conv_nth)

lemma range_ops_states: "(el, st, op) \<in> set range_ops \<Longrightarrow>
    st \<notin> {VULNXML_PARSE_INIT, VULNXML_PARSE_VULN, VULNXML_PARSE_TOPIC, VULNXML_PARSE_CVE, VULNXML_PARSE_PACKAGE, VULNXML_PARSE_PACKAGE_NAME, VULNXML_PARSE_RANGE}"
  by (auto simp: range_ops_def)

lemma start_ok: "vx_ok ud \<Longrightarrow> \<exists>ud'. vulnxml_start_element element attributes ud = Some ud' \<and> vx_ok ud'"
proof -
  assume ok: "vx_ok ud"
  show ?thesis
  proof (cases "vx_state ud")
    case VULNXML_PARSE_RANGE
    show ?thesis
    proof (cases "find (\<lambda>op. strcaseeq element (fst op)) range_ops")
      case (Some op)
      obtain el st t where op: "op = (el, st, t)" by (cases op)
      note st = range_ops_states [OF find_range_op [OF Some [unfolded op]]]
      show ?thesis using ok VULNXML_PARSE_RANGE Some op st
        by (auto simp: vulnxml_start_element_def vx_ok_def upd_defs)
    qed (use ok VULNXML_PARSE_RANGE in \<open>simp add: vulnxml_start_element_def\<close>)
  qed (use ok in \<open>auto simp: vulnxml_start_element_def vx_ok_def upd_defs\<close>)
qed

lemma end_ok: "vx_ok ud \<Longrightarrow> \<exists>ud'. vulnxml_end_element element ud = Some ud' \<and> vx_ok ud'"
  by (cases "vx_state ud") (auto simp: vulnxml_end_element_def vx_ok_def set_state_def range_ops_def)

lemma data_ok: "vx_ok ud \<Longrightarrow> \<exists>ud'. vulnxml_handle_data content ud = Some ud' \<and> vx_ok ud'"
  by (cases "vx_state ud") (auto simp: vulnxml_handle_data_def vx_ok_def upd_defs range_ops_def upd_first_some Let_def)

text \<open>
  C29: the handlers of the XML parser never follow a null pointer, whatever the document: for any sequence of
  start tags, end tags and texts, nested or not, the current entry, package, name and range exist when they are used.
\<close>

theorem vulnxml_safe:
  "\<exists>ud. handle_events events (vulnxml_init es) = Some ud"
proof -
  have step: "\<exists>ud'. handle_event ev ud = Some ud' \<and> vx_ok ud'" if "vx_ok ud" for ev ud
    using that start_ok end_ok data_ok by (cases ev) auto
  have "\<exists>ud'. handle_events events ud = Some ud'" if "vx_ok ud" for ud
    using that
  proof (induction events arbitrary: ud)
    case (Cons ev evs)
    then show ?case using step [of ud ev] by fastforce
  qed simp
  then show ?thesis by (simp add: vx_ok_def vulnxml_init_def)
qed

section \<open>What the handlers make of a document\<close>

text \<open>A vulnerability as the document says it; one that was cancelled has no topic and no packages.\<close>

record vuln_package =
  vp_names :: "string list"
  vp_ranges :: "(vop \<times> string) list list"

record vuln =
  vu_id :: string
  vu_topic :: "string option"
  vu_packages :: "vuln_package list"
  vu_cves :: "string list"

definition op_element :: "vop \<Rightarrow> string" where
  "op_element t = (case t of GT \<Rightarrow> ''gt'' | GTE \<Rightarrow> ''ge'' | LT \<Rightarrow> ''lt'' | LTE \<Rightarrow> ''le'' | _ \<Rightarrow> ''eq'')"

definition element :: "string \<Rightarrow> string \<Rightarrow> xml_event list" where
  "element name content = [Start name [], Data content, End name]"

text \<open>
  Between the elements that matter there may be texts and the tags of all other elements: the root of the document, \<open>affects\<close>, the
  description, the references and so on. The text of an element that matters comes in one piece.
\<close>

definition handled_elements :: "string list" where
  "handled_elements = [''vuln'', ''topic'', ''package'', ''cvename'', ''name'', ''range'', ''gt'', ''ge'', ''lt'', ''le'', ''eq'']"

fun other_event :: "xml_event \<Rightarrow> bool" where
  "other_event (Data _) = True"
| "other_event (Start name _) = list_all (\<lambda>k. \<not> strcaseeq name k) handled_elements"
| "other_event (End name) = list_all (\<lambda>k. \<not> strcaseeq name k) handled_elements"

definition other_events :: "xml_event list \<Rightarrow> bool" where
  "other_events ws \<longleftrightarrow> list_all other_event ws"

inductive spaced :: "('a \<Rightarrow> xml_event list \<Rightarrow> bool) \<Rightarrow> 'a list \<Rightarrow> xml_event list \<Rightarrow> bool" for item where
  spaced_end: "other_events ws \<Longrightarrow> spaced item [] ws"
| spaced_item: "other_events ws \<Longrightarrow> item x d \<Longrightarrow> spaced item xs ds \<Longrightarrow> spaced item (x # xs) (ws @ d @ ds)"

definition range_doc :: "(vop \<times> string) list \<Rightarrow> xml_event list \<Rightarrow> bool" where
  "range_doc r d \<longleftrightarrow> (\<exists>as bs. spaced (\<lambda>(t, v) d. d = element (op_element t) v) r bs \<and> d = Start ''range'' as # bs @ [End ''range''])"

definition package_doc :: "vuln_package \<Rightarrow> xml_event list \<Rightarrow> bool" where
  "package_doc p d \<longleftrightarrow> (\<exists>as ns rs. spaced (\<lambda>n d. d = element ''name'' n) (vp_names p) ns \<and> spaced range_doc (vp_ranges p) rs
     \<and> d = Start ''package'' as # ns @ rs @ [End ''package''])"

definition vuln_doc :: "vuln \<Rightarrow> xml_event list \<Rightarrow> bool" where
  "vuln_doc v d \<longleftrightarrow> (\<exists>ts ps cs. spaced (\<lambda>t d. d = element ''topic'' t) (case vu_topic v of None \<Rightarrow> [] | Some t \<Rightarrow> [t]) ts
     \<and> spaced package_doc (vu_packages v) ps \<and> spaced (\<lambda>c d. d = element ''cvename'' c) (vu_cves v) cs
     \<and> d = Start ''vuln'' [(''vid'', vu_id v)] # ts @ ps @ cs @ [End ''vuln''])"

definition document :: "vuln list \<Rightarrow> xml_event list \<Rightarrow> bool" where
  "document = spaced vuln_doc"

text \<open>What becomes of it.\<close>

definition bound_of :: "vop \<times> string \<Rightarrow> pkg_audit_version" where
  "bound_of b = \<lparr>av_version = Some (snd b), av_type = fst b\<rparr>"

definition parsed_range :: "(vop \<times> string) list \<Rightarrow> pkg_audit_versions_range" where
  "parsed_range r = \<lparr>vr_v1 = (case r of [] \<Rightarrow> no_version | b # _ \<Rightarrow> bound_of b), vr_v2 = (case tl r of [] \<Rightarrow> no_version | b # _ \<Rightarrow> bound_of b)\<rparr>"

definition parsed_package :: "vuln_package \<Rightarrow> pkg_audit_package" where
  "parsed_package p = \<lparr>ap_names = rev (map Some (vp_names p)), ap_versions = rev (map parsed_range (vp_ranges p))\<rparr>"

definition parsed_entry :: "vuln \<Rightarrow> pkg_audit_entry" where
  "parsed_entry v = no_entry\<lparr>ae_id := Some (vu_id v), ae_desc := vu_topic v, ae_packages := rev (map parsed_package (vu_packages v)),
     ae_cve := rev (vu_cves v)\<rparr>"

lemma handle_append: "handle_events (xs @ ys) ud = Option.bind (handle_events xs ud) (handle_events ys)"
  by (induction xs arbitrary: ud) (auto split: bind_split)

lemmas handlers = vulnxml_start_element_def vulnxml_end_element_def vulnxml_handle_data_def strcaseeq_def

text \<open>The state inside an element, with the current entry, or its first package.\<close>

definition in_vuln :: "pkg_audit_entry list \<Rightarrow> pkg_audit_entry \<Rightarrow> nat \<Rightarrow> vulnxml_userdata" where
  "in_vuln es e n = \<lparr>vx_entry = Some e, vx_entries = es, vx_state = VULNXML_PARSE_VULN, vx_range_num = n\<rparr>"

definition in_package :: "pkg_audit_entry list \<Rightarrow> pkg_audit_entry \<Rightarrow> pkg_audit_package list \<Rightarrow> nat \<Rightarrow> pkg_audit_package \<Rightarrow> vulnxml_userdata" where
  "in_package es e ps n p = \<lparr>vx_entry = Some (e\<lparr>ae_packages := p # ps\<rparr>), vx_entries = es, vx_state = VULNXML_PARSE_PACKAGE, vx_range_num = n\<rparr>"

definition in_range :: "pkg_audit_entry list \<Rightarrow> pkg_audit_entry \<Rightarrow> pkg_audit_package list \<Rightarrow> pkg_audit_package \<Rightarrow> nat \<Rightarrow> pkg_audit_versions_range \<Rightarrow> vulnxml_userdata" where
  "in_range es e ps p n r = \<lparr>vx_entry = Some (e\<lparr>ae_packages := p\<lparr>ap_versions := r # ap_versions p\<rparr> # ps\<rparr>), vx_entries = es,
     vx_state = VULNXML_PARSE_RANGE, vx_range_num = n\<rparr>"

lemmas in_defs = in_vuln_def in_package_def in_range_def

definition add_bound :: "nat \<Rightarrow> vop \<times> string \<Rightarrow> pkg_audit_versions_range \<Rightarrow> pkg_audit_versions_range" where
  "add_bound n b r = (if n = 1 then r\<lparr>vr_v1 := bound_of b\<rparr> else if n = 2 then r\<lparr>vr_v2 := bound_of b\<rparr> else r)"

lemma bound_element:
  assumes "t \<noteq> NOP"
  shows "handle_events (element (op_element t) v) (in_range es e ps p n r) = Some (in_range es e ps p (Suc n) (add_bound (Suc n) (t, v) r))"
  using assms by (cases t) (auto simp: element_def op_element_def handlers range_ops_def upd_defs in_defs add_bound_def bound_of_def Let_def tolower_def isupper_def byte_def)

fun add_bounds :: "nat \<Rightarrow> (vop \<times> string) list \<Rightarrow> pkg_audit_versions_range \<Rightarrow> pkg_audit_versions_range" where
  "add_bounds n [] r = r"
| "add_bounds n (b # bs) r = add_bounds (Suc n) bs (add_bound (Suc n) b r)"

lemma add_bounds_more: "2 \<le> n \<Longrightarrow> add_bounds n bs r = r"
  by (induction n bs r rule: add_bounds.induct) (simp_all add: add_bound_def)

lemma add_bounds_range: "add_bounds 0 bs no_range = parsed_range bs"
proof (cases bs)
  case (Cons b cs)
  then show ?thesis by (cases cs) (simp_all add: add_bound_def parsed_range_def no_range_def add_bounds_more)
qed (simp add: parsed_range_def no_range_def)

lemma other_ignored:
  assumes "other_events ws" "vx_state ud \<in> {VULNXML_PARSE_INIT, VULNXML_PARSE_VULN, VULNXML_PARSE_PACKAGE, VULNXML_PARSE_RANGE}"
  shows "handle_events ws ud = Some ud"
  using assms(1)
proof (induction ws)
  case (Cons ev ws)
  then have "other_event ev" "handle_events ws ud = Some ud" by (simp_all add: other_events_def)
  moreover have "handle_event ev ud = Some ud"
  proof (cases ev)
    case (Start name as)
    then have "\<not> strcaseeq name k" if "k \<in> set handled_elements" for k using \<open>other_event ev\<close> that by (simp add: list_all_iff)
    then show ?thesis using assms(2) Start by (auto simp: vulnxml_start_element_def handled_elements_def range_ops_def)
  next
    case (End name)
    then have "\<not> strcaseeq name k" if "k \<in> set handled_elements" for k using \<open>other_event ev\<close> that by (simp add: list_all_iff)
    then show ?thesis using assms(2) End by (auto simp: vulnxml_end_element_def handled_elements_def range_ops_def)
  next
    case (Data s)
    then show ?thesis using assms(2) by (auto simp: vulnxml_handle_data_def range_ops_def)
  qed
  ultimately show ?case by simp
qed simp

text \<open>A list of items: \<open>I a s\<close> says that the state \<open>s\<close> stands for \<open>a\<close>.\<close>

lemma spaced_run:
  assumes "spaced item xs ds" "\<And>a s ws. I a s \<Longrightarrow> other_events ws \<Longrightarrow> handle_events ws s = Some s"
    and "\<And>x d a s. x \<in> set xs \<Longrightarrow> item x d \<Longrightarrow> I a s \<Longrightarrow> \<exists>s'. handle_events d s = Some s' \<and> I (step a x) s'"
    and "I a s"
  shows "\<exists>s'. handle_events ds s = Some s' \<and> I (foldl step a xs) s'"
  using assms(1,3,4)
proof (induction xs ds arbitrary: a s rule: spaced.induct)
  case (spaced_end ws)
  then show ?case using assms(2) by auto
next
  case (spaced_item ws x d xs ds)
  obtain s1 where s1: "handle_events d s = Some s1" "I (step a x) s1" using spaced_item.prems spaced_item.hyps(2) by (metis list.set_intros(1))
  obtain s2 where "handle_events ds s1 = Some s2" "I (foldl step (step a x) xs) s2"
    using spaced_item.IH [OF _ s1(2)] spaced_item.prems(1) by (metis list.set_intros(2))
  then show ?case using assms(2) [OF spaced_item.prems(2) spaced_item.hyps(1)] s1 by (simp add: handle_append)
qed

lemma bounds_ev:
  assumes "spaced (\<lambda>(t, v) d. d = element (op_element t) v) bs d" "\<forall>b \<in> set bs. fst b \<noteq> NOP"
  shows "\<exists>m. handle_events d (in_range es e ps p 0 no_range) = Some (in_range es e ps p m (parsed_range bs))"
proof -
  let ?I = "\<lambda>(n, r) s. s = in_range es e ps p n r" and ?step = "\<lambda>(n, r) b. (Suc n, add_bound (Suc n) b r)"
  have f: "snd (foldl ?step (n, r) bs) = add_bounds n bs r" for n r by (induction bs arbitrary: n r) simp_all
  have "\<exists>s'. handle_events d (in_range es e ps p 0 no_range) = Some s' \<and> ?I (foldl ?step (0, no_range) bs) s'"
  proof (rule spaced_run [OF assms(1), where I = ?I and step = ?step])
    fix x d a s
    assume a: "x \<in> set bs" "(case x of (t, v) \<Rightarrow> \<lambda>d. d = element (op_element t) v) d" "?I a s"
    obtain t v where x: "x = (t, v)" by (cases x)
    obtain n r where n: "a = (n, r)" by (cases a)
    have "t \<noteq> NOP" using a(1) assms(2) x by auto
    from bound_element [OF this, of v es e ps p n r] show "\<exists>s'. handle_events d s = Some s' \<and> ?I (?step a x) s'" using a(2,3) x n by simp
  qed (auto simp: other_ignored in_defs)
  then obtain m where "handle_events d (in_range es e ps p 0 no_range) = Some (in_range es e ps p m (snd (foldl ?step (0, no_range) bs)))"
    by (cases "foldl ?step (0, no_range) bs") auto
  then show ?thesis unfolding f add_bounds_range by blast
qed

lemma range_ev:
  assumes "range_doc bs d" "\<forall>b \<in> set bs. fst b \<noteq> NOP"
  shows "\<exists>m. handle_events d (in_package es e ps n p) = Some (in_package es e ps m (p\<lparr>ap_versions := parsed_range bs # ap_versions p\<rparr>))"
proof -
  obtain as bd where d: "spaced (\<lambda>(t, v) d. d = element (op_element t) v) bs bd" "d = Start ''range'' as # bd @ [End ''range'']"
    using assms(1) by (auto simp: range_doc_def)
  have s: "handle_event (Start ''range'' as) (in_package es e ps n p) = Some (in_range es e ps p 0 no_range)"
    by (simp add: handlers upd_defs in_defs tolower_def isupper_def byte_def)
  have t: "handle_event (End ''range'') (in_range es e ps p m r) = Some (in_package es e ps m (p\<lparr>ap_versions := r # ap_versions p\<rparr>))" for m r
    by (simp add: handlers upd_defs in_defs tolower_def isupper_def byte_def)
  obtain m where "handle_events bd (in_range es e ps p 0 no_range) = Some (in_range es e ps p m (parsed_range bs))"
    using bounds_ev [OF d(1) assms(2)] by blast
  then show ?thesis unfolding d(2) using s t by (intro exI [of _ m]) (simp add: handle_append del: handle_event.simps)
qed

lemma ranges_ev:
  assumes "spaced range_doc rs d" "\<forall>bs \<in> set rs. \<forall>b \<in> set bs. fst b \<noteq> NOP"
  shows "\<exists>m. handle_events d (in_package es e ps n p) = Some (in_package es e ps m (p\<lparr>ap_versions := rev (map parsed_range rs) @ ap_versions p\<rparr>))"
proof -
  let ?I = "\<lambda>p s. \<exists>m. s = in_package es e ps m p" and ?step = "\<lambda>p bs. p\<lparr>ap_versions := parsed_range bs # ap_versions p\<rparr>"
  have f: "foldl ?step p rs = p\<lparr>ap_versions := rev (map parsed_range rs) @ ap_versions p\<rparr>" for p by (induction rs arbitrary: p) simp_all
  have "\<exists>s'. handle_events d (in_package es e ps n p) = Some s' \<and> ?I (foldl ?step p rs) s'"
  proof (rule spaced_run [OF assms(1), where I = ?I and step = ?step])
    fix x d a s assume "x \<in> set rs" "range_doc x d" "?I a s"
    then show "\<exists>s'. handle_events d s = Some s' \<and> ?I (?step a x) s'" using range_ev [of x d es e ps _ a] assms(2) by metis
  qed (auto simp: other_ignored in_defs)
  then show ?thesis unfolding f by auto
qed

lemma names_ev:
  assumes "spaced (\<lambda>n d. d = element ''name'' n) ns d"
  shows "handle_events d (in_package es e ps k p) = Some (in_package es e ps k (p\<lparr>ap_names := rev (map Some ns) @ ap_names p\<rparr>))"
proof -
  let ?I = "\<lambda>p s. s = in_package es e ps k p" and ?step = "\<lambda>p n. p\<lparr>ap_names := Some n # ap_names p\<rparr>"
  have f: "foldl ?step p ns = p\<lparr>ap_names := rev (map Some ns) @ ap_names p\<rparr>" for p by (induction ns arbitrary: p) simp_all
  have "\<exists>s'. handle_events d (in_package es e ps k p) = Some s' \<and> ?I (foldl ?step p ns) s'"
    by (rule spaced_run [OF assms, where I = ?I and step = ?step])
      (auto simp: other_ignored in_defs element_def handlers upd_defs range_ops_def tolower_def isupper_def byte_def)
  then show ?thesis unfolding f by auto
qed

lemma package_ev:
  assumes "package_doc p d" "\<forall>bs \<in> set (vp_ranges p). \<forall>b \<in> set bs. fst b \<noteq> NOP"
  shows "\<exists>m. handle_events d (in_vuln es e n) = Some (in_vuln es (e\<lparr>ae_packages := parsed_package p # ae_packages e\<rparr>) m)"
proof -
  obtain as nd rd where d: "spaced (\<lambda>n d. d = element ''name'' n) (vp_names p) nd" "spaced range_doc (vp_ranges p) rd"
    "d = Start ''package'' as # nd @ rd @ [End ''package'']" using assms(1) by (auto simp: package_doc_def)
  have s: "handle_event (Start ''package'' as) (in_vuln es e n) = Some (in_package es e (ae_packages e) n no_package)"
    by (simp add: handlers upd_defs in_defs tolower_def isupper_def byte_def)
  have t: "handle_event (End ''package'') (in_package es e ps m q) = Some (in_vuln es (e\<lparr>ae_packages := q # ps\<rparr>) m)" for ps m q
    by (simp add: handlers upd_defs in_defs tolower_def isupper_def byte_def)
  let ?q = "no_package\<lparr>ap_names := rev (map Some (vp_names p)) @ ap_names no_package\<rparr>"
  obtain m where "handle_events rd (in_package es e (ae_packages e) n ?q)
      = Some (in_package es e (ae_packages e) m (?q\<lparr>ap_versions := rev (map parsed_range (vp_ranges p)) @ ap_versions ?q\<rparr>))"
    using ranges_ev [OF d(2) assms(2)] by blast
  then show ?thesis unfolding d(3) using s t names_ev [OF d(1), of es e "ae_packages e" n no_package]
    by (intro exI [of _ m]) (simp add: handle_append parsed_package_def no_package_def del: handle_event.simps)
qed

lemma packages_ev:
  assumes "spaced package_doc ps d" "\<forall>p \<in> set ps. \<forall>bs \<in> set (vp_ranges p). \<forall>b \<in> set bs. fst b \<noteq> NOP"
  shows "\<exists>m. handle_events d (in_vuln es e n) = Some (in_vuln es (e\<lparr>ae_packages := rev (map parsed_package ps) @ ae_packages e\<rparr>) m)"
proof -
  let ?I = "\<lambda>e s. \<exists>m. s = in_vuln es e m" and ?step = "\<lambda>e p. e\<lparr>ae_packages := parsed_package p # ae_packages e\<rparr>"
  have f: "foldl ?step e ps = e\<lparr>ae_packages := rev (map parsed_package ps) @ ae_packages e\<rparr>" for e by (induction ps arbitrary: e) simp_all
  have "\<exists>s'. handle_events d (in_vuln es e n) = Some s' \<and> ?I (foldl ?step e ps) s'"
  proof (rule spaced_run [OF assms(1), where I = ?I and step = ?step])
    fix x d a s assume "x \<in> set ps" "package_doc x d" "?I a s"
    then show "\<exists>s'. handle_events d s = Some s' \<and> ?I (?step a x) s'" using package_ev [of x d es a] assms(2) by metis
  qed (auto simp: other_ignored in_defs)
  then show ?thesis unfolding f by auto
qed

lemma cves_ev:
  assumes "spaced (\<lambda>c d. d = element ''cvename'' c) cs d"
  shows "handle_events d (in_vuln es e n) = Some (in_vuln es (e\<lparr>ae_cve := rev cs @ ae_cve e\<rparr>) n)"
proof -
  let ?I = "\<lambda>e s. s = in_vuln es e n" and ?step = "\<lambda>e c. e\<lparr>ae_cve := c # ae_cve e\<rparr>"
  have f: "foldl ?step e cs = e\<lparr>ae_cve := rev cs @ ae_cve e\<rparr>" for e by (induction cs arbitrary: e) simp_all
  have "\<exists>s'. handle_events d (in_vuln es e n) = Some s' \<and> ?I (foldl ?step e cs) s'"
    by (rule spaced_run [OF assms, where I = ?I and step = ?step])
      (auto simp: other_ignored in_defs element_def handlers upd_defs range_ops_def tolower_def isupper_def byte_def)
  then show ?thesis unfolding f by auto
qed

lemma topic_ev:
  assumes "spaced (\<lambda>t d. d = element ''topic'' t) (case topic of None \<Rightarrow> [] | Some t \<Rightarrow> [t]) d" "ae_desc e = None"
  shows "handle_events d (in_vuln es e n) = Some (in_vuln es (e\<lparr>ae_desc := topic\<rparr>) n)"
proof -
  let ?I = "\<lambda>e s. s = in_vuln es e n" and ?step = "\<lambda>e t. e\<lparr>ae_desc := Some t\<rparr>"
  have "\<exists>s'. handle_events d (in_vuln es e n) = Some s' \<and> ?I (foldl ?step e (case topic of None \<Rightarrow> [] | Some t \<Rightarrow> [t])) s'"
    by (rule spaced_run [OF assms(1), where I = ?I and step = ?step])
      (auto simp: other_ignored in_defs element_def handlers upd_defs range_ops_def tolower_def isupper_def byte_def)
  moreover have "e\<lparr>ae_desc := None\<rparr> = e" using assms(2) by (cases e) simp
  ultimately show ?thesis by (cases topic) auto
qed

lemma vuln_ev:
  assumes "vuln_doc v d" "\<forall>p \<in> set (vu_packages v). \<forall>bs \<in> set (vp_ranges p). \<forall>b \<in> set bs. fst b \<noteq> NOP" "vx_state ud = VULNXML_PARSE_INIT"
  shows "\<exists>ud'. handle_events d ud = Some ud' \<and> vx_state ud' = VULNXML_PARSE_INIT
    \<and> vx_entries ud' = pkg_audit_expand_entry (parsed_entry v) (vx_entries ud)"
proof -
  obtain ts ps cs where d: "spaced (\<lambda>t d. d = element ''topic'' t) (case vu_topic v of None \<Rightarrow> [] | Some t \<Rightarrow> [t]) ts"
    "spaced package_doc (vu_packages v) ps" "spaced (\<lambda>c d. d = element ''cvename'' c) (vu_cves v) cs"
    "d = Start ''vuln'' [(''vid'', vu_id v)] # ts @ ps @ cs @ [End ''vuln'']" using assms(1) by (auto simp: vuln_doc_def)
  let ?es = "vx_entries ud" and ?n = "vx_range_num ud" and ?e = "no_entry\<lparr>ae_id := Some (vu_id v)\<rparr>"
  have s: "handle_event (Start ''vuln'' [(''vid'', vu_id v)]) ud = Some (in_vuln ?es ?e ?n)"
    using assms(3) by (simp add: handlers upd_defs in_defs tolower_def isupper_def byte_def)
  let ?f = "?e\<lparr>ae_desc := vu_topic v\<rparr>"
  have t: "handle_events ts (in_vuln ?es ?e ?n) = Some (in_vuln ?es ?f ?n)" using topic_ev [OF d(1)] by (simp add: no_entry_def)
  obtain m where p: "handle_events ps (in_vuln ?es ?f ?n)
      = Some (in_vuln ?es (?f\<lparr>ae_packages := rev (map parsed_package (vu_packages v)) @ ae_packages ?f\<rparr>) m)"
    using packages_ev [OF d(2) assms(2)] by blast
  obtain g where g: "g = ?f\<lparr>ae_packages := rev (map parsed_package (vu_packages v)) @ ae_packages ?f\<rparr>" by simp
  let ?h = "g\<lparr>ae_cve := rev (vu_cves v) @ ae_cve g\<rparr>"
  have h: "?h = parsed_entry v" by (simp add: g parsed_entry_def no_entry_def)
  define ud' where "ud' = (in_vuln ?es ?h m)\<lparr>vx_entries := pkg_audit_expand_entry ?h ?es, vx_state := VULNXML_PARSE_INIT\<rparr>"
  have e: "handle_event (End ''vuln'') (in_vuln ?es ?h m) = Some ud'"
    by (simp add: handlers in_defs ud'_def tolower_def isupper_def byte_def)
  have "handle_events d ud = Some ud'"
    unfolding d(4) using s t p cves_ev [OF d(3), of ?es g m] e by (simp add: handle_append g del: handle_event.simps)
  then show ?thesis using h by (simp add: ud'_def in_defs)
qed

lemma document_ev:
  assumes "document vs d" "\<forall>v \<in> set vs. \<forall>p \<in> set (vu_packages v). \<forall>bs \<in> set (vp_ranges p). \<forall>b \<in> set bs. fst b \<noteq> NOP"
    and "vx_state ud = VULNXML_PARSE_INIT"
  shows "\<exists>ud'. handle_events d ud = Some ud' \<and> vx_entries ud' = foldl (\<lambda>es v. pkg_audit_expand_entry (parsed_entry v) es) (vx_entries ud) vs"
proof -
  let ?I = "\<lambda>es (s :: vulnxml_userdata). vx_state s = VULNXML_PARSE_INIT \<and> vx_entries s = es" and ?step = "\<lambda>es v. pkg_audit_expand_entry (parsed_entry v) es"
  have "\<exists>s'. handle_events d ud = Some s' \<and> ?I (foldl ?step (vx_entries ud) vs) s'"
  proof (rule spaced_run [OF assms(1) [unfolded document_def], where I = ?I and step = ?step])
    fix x d a s assume "x \<in> set vs" "vuln_doc x d" "?I a s"
    then show "\<exists>s'. handle_events d s = Some s' \<and> ?I (?step a x) s'" using vuln_ev [of x d s] assms(2) by auto
  qed (use assms(3) in \<open>auto simp: other_ignored\<close>)
  then show ?thesis by blast
qed

lemma in_foldl_prepend: "x \<in> set (foldl (\<lambda>es n. f n # es) es ns) \<longleftrightarrow> x \<in> set es \<or> x \<in> f ` set ns"
  by (induction ns arbitrary: es) auto

lemma in_expand:
  assumes "ae_packages e \<noteq> []" "ap_names (hd (ae_packages e)) \<noteq> []"
  shows "x \<in> set (pkg_audit_expand_entry e es) \<longleftrightarrow> x \<in> set es \<or> x = e
    \<or> (\<exists>p \<in> set (ae_packages e). \<exists>n \<in> set (ap_names p). x = entry_for e p n)"
proof -
  have "x \<in> set (foldl (\<lambda>es p. foldl (\<lambda>es name. entry_for e p name # es) es (ap_names p)) es ps)
      \<longleftrightarrow> x \<in> set es \<or> (\<exists>p \<in> set ps. \<exists>n \<in> set (ap_names p). x = entry_for e p n)" for ps
    by (induction ps arbitrary: es) (auto simp: in_foldl_prepend)
  then show ?thesis using assms by (auto simp: pkg_audit_expand_entry_def)
qed

section \<open>From the document to the verdict\<close>

definition bound_holds :: "string \<Rightarrow> vop \<times> string \<Rightarrow> bool" where
  "bound_holds ver b = (let r = pkg_version_cmp ver (snd b) in
     case fst b of LT \<Rightarrow> r < 0 | LTE \<Rightarrow> r \<le> 0 | EQ \<Rightarrow> r = 0 | GTE \<Rightarrow> r \<ge> 0 | GT \<Rightarrow> r > 0 | NOP \<Rightarrow> False)"

text \<open>A package is affected when it has one of the names and a version in one of the ranges; a range has two bounds at most.\<close>

definition affected :: "vuln \<Rightarrow> string \<Rightarrow> string \<Rightarrow> bool" where
  "affected v pkgname ver \<longleftrightarrow> (\<exists>p \<in> set (vu_packages v). (\<exists>n \<in> set (vp_names p). fnmatch n pkgname)
     \<and> (\<exists>r \<in> set (vp_ranges p). \<forall>b \<in> set (take 2 r). bound_holds ver b))"

definition vuln_ok :: "vuln \<Rightarrow> bool" where
  \<comment> \<open>\<open>pkg_audit_expand_entry\<close> looks at the package read last; names begin with a character that does not glob\<close>
  "vuln_ok v \<longleftrightarrow> (vu_packages v \<noteq> [] \<longrightarrow> vp_names (last (vu_packages v)) \<noteq> [])
     \<and> (\<forall>p \<in> set (vu_packages v). (\<forall>n \<in> set (vp_names p). n = [] \<or> \<not> globbing (hd n))
        \<and> (\<forall>r \<in> set (vp_ranges p). \<forall>b \<in> set r. fst b \<noteq> NOP))"

lemma bound_match: "fst b \<noteq> NOP \<Longrightarrow> pkg_audit_version_match ver (bound_of b) = bound_holds ver b"
  using version_cmp_range [of ver "snd b"]
  by (cases "fst b") (auto simp: pkg_audit_version_match_def bound_of_def bound_holds_def Let_def)

lemma parsed_range_match:
  assumes "\<forall>b \<in> set r. fst b \<noteq> NOP"
  shows "pkg_audit_version_match ver (vr_v1 (parsed_range r)) \<and> pkg_audit_version_match ver (vr_v2 (parsed_range r))
    \<longleftrightarrow> (\<forall>b \<in> set (take 2 r). bound_holds ver b)"
proof -
  have n: "pkg_audit_version_match ver no_version" by (simp add: pkg_audit_version_match_def no_version_def)
  show ?thesis using assms n bound_match by (cases r; cases "tl r") (auto simp: parsed_range_def)
qed

lemma parsed_entry_names:
  assumes "vuln_ok v" "vu_packages v \<noteq> []"
  shows "ae_packages (parsed_entry v) \<noteq> []" "ap_names (hd (ae_packages (parsed_entry v))) \<noteq> []"
  using assms by (auto simp: vuln_ok_def parsed_entry_def parsed_package_def hd_rev last_map)

lemma in_document:
  assumes "\<forall>v \<in> set vs. vuln_ok v"
  shows "x \<in> set (foldl (\<lambda>es v. pkg_audit_expand_entry (parsed_entry v) es) es vs) \<longleftrightarrow> x \<in> set es
    \<or> (\<exists>v \<in> set vs. vu_packages v \<noteq> [] \<and> (x = parsed_entry v
        \<or> (\<exists>p \<in> set (vu_packages v). \<exists>n \<in> set (vp_names p). x = entry_for (parsed_entry v) (parsed_package p) (Some n))))"
  using assms
proof (induction vs arbitrary: es)
  case (Cons v vs)
  have "x \<in> set (pkg_audit_expand_entry (parsed_entry v) es) \<longleftrightarrow> x \<in> set es \<or> vu_packages v \<noteq> [] \<and> (x = parsed_entry v
      \<or> (\<exists>p \<in> set (vu_packages v). \<exists>n \<in> set (vp_names p). x = entry_for (parsed_entry v) (parsed_package p) (Some n)))"
  proof (cases "vu_packages v = []")
    case True
    then show ?thesis by (simp add: pkg_audit_expand_entry_def parsed_entry_def)
  next
    case False
    then show ?thesis using in_expand [OF parsed_entry_names, of v x es] Cons.prems by (simp add: parsed_entry_def parsed_package_def)
  qed
  then show ?case using Cons by auto
qed simp

lemma document_matches:
  assumes "vuln_ok v" "p \<in> set (vu_packages v)"
  shows "entry_matches pkgname (Some ver) (entry_for (parsed_entry v) (parsed_package p) (Some n))
    \<longleftrightarrow> fnmatch n pkgname \<and> (\<exists>r \<in> set (vp_ranges p). \<forall>b \<in> set (take 2 r). bound_holds ver b)"
proof -
  have "\<forall>r \<in> set (vp_ranges p). \<forall>b \<in> set r. fst b \<noteq> NOP" using assms by (simp add: vuln_ok_def)
  then show ?thesis using parsed_range_match by (simp add: entry_matches_def entry_for_def parsed_package_def no_entry_def)
qed

lemma document_found:
  assumes "\<forall>v \<in> set vs. vuln_ok v" "es = foldl (\<lambda>es v. pkg_audit_expand_entry (parsed_entry v) es) [] vs"
  shows "(\<exists>x \<in> set es. entry_matches pkgname (Some ver) x) \<longleftrightarrow> (\<exists>v \<in> set vs. affected v pkgname ver)" (is "?L \<longleftrightarrow> ?R")
    and "\<forall>x \<in> set es. plain_start x"
proof -
  note d = in_document [OF assms(1), of _ "[]", folded assms(2)]
  have none: "\<not> entry_matches pkgname (Some ver) (parsed_entry v)" "plain_start (parsed_entry v)" for v
    by (simp_all add: entry_matches_def plain_start_def parsed_entry_def no_entry_def)
  show "?L \<longleftrightarrow> ?R"
  proof
    assume ?L
    then obtain v p n where "v \<in> set vs" "p \<in> set (vu_packages v)" "n \<in> set (vp_names p)"
      "entry_matches pkgname (Some ver) (entry_for (parsed_entry v) (parsed_package p) (Some n))" using none d by auto
    then show ?R using document_matches [of v p pkgname ver n] assms(1) unfolding affected_def by blast
  next
    assume ?R
    then obtain v p n where m: "v \<in> set vs" "p \<in> set (vu_packages v)" "n \<in> set (vp_names p)" "fnmatch n pkgname"
      "\<exists>r \<in> set (vp_ranges p). \<forall>b \<in> set (take 2 r). bound_holds ver b" by (auto simp: affected_def)
    then have "entry_matches pkgname (Some ver) (entry_for (parsed_entry v) (parsed_package p) (Some n))"
      using document_matches [of v p] assms(1) by blast
    moreover have "vu_packages v \<noteq> []" using m(2) by auto
    ultimately show ?L using m d by blast
  qed
  have "plain_start (entry_for (parsed_entry v) (parsed_package p) (Some n))"
    if "v \<in> set vs" "p \<in> set (vu_packages v)" "n \<in> set (vp_names p)" for v p n
  proof -
    have "n = [] \<or> \<not> globbing (hd n)" using that assms(1) by (simp add: vuln_ok_def)
    then show ?thesis by (cases n) (simp_all add: plain_start_def entry_for_def no_entry_def)
  qed
  then show "\<forall>x \<in> set es. plain_start x" using none(2) by (auto simp: d)
qed

lemma vulns_ops:
  "\<forall>v \<in> set vs. vuln_ok v \<Longrightarrow> \<forall>v \<in> set vs. \<forall>p \<in> set (vu_packages v). \<forall>bs \<in> set (vp_ranges p). \<forall>b \<in> set bs. fst b \<noteq> NOP"
  by (simp add: vuln_ok_def)

lemma process_document:
  assumes "document vs d" "\<forall>v \<in> set vs. \<forall>p \<in> set (vu_packages v). \<forall>bs \<in> set (vp_ranges p). \<forall>b \<in> set bs. fst b \<noteq> NOP" "au_map audit = Some m" "au_entries audit = []"
    and "ad_expat e m = (d, True)"
  shows "\<exists>audit'. pkg_audit_process e audit = Some (EPKG_OK, audit')
    \<and> au_entries audit' = foldl (\<lambda>es v. pkg_audit_expand_entry (parsed_entry v) es) [] vs"
proof -
  obtain ud where ud: "handle_events d (vulnxml_init []) = Some ud"
    "vx_entries ud = foldl (\<lambda>es v. pkg_audit_expand_entry (parsed_entry v) es) [] vs"
    using document_ev [OF assms(1,2), of "vulnxml_init []"] by (auto simp: vulnxml_init_def)
  then show ?thesis using assms(3,4,5)
    by (cases "pkg_audit_preprocess e (vx_entries ud)") (auto simp: pkg_audit_process_def pkg_audit_parse_vulnxml_def)
qed

text \<open>
  C8: what is written in the document is what is reported. When the parser reports the elements of the vulnerabilities \<open>vs\<close>, with any texts and any other
  elements around and between them, \<open>pkg_audit_process\<close> succeeds, and \<open>pkg_audit_is_vulnerable\<close> then reports a package exactly when one of
  them affects it: one of its packages has a name that matches and a range whose bounds, the first two, all hold of the version in the
  order of \<open>pkg_version_cmp\<close>. No name may begin with a globbing character, the package of a vulnerability that is read last must have a name, a text
  comes in one piece, and the first byte of the name of the package is below 128.
\<close>

theorem audit_exact:
  assumes "sorts (ad_qsort e)" "document vs d" "\<forall>v \<in> set vs. vuln_ok v"
    and "au_map audit = Some m" "au_entries audit = []" "ad_expat e m = (d, True)"
    and "size_of_char (first_char pkgname) < 256"
  shows "\<exists>audit' sb. pkg_audit_process e audit = Some (EPKG_OK, audit')
    \<and> pkg_audit_is_vulnerable fnmatch audit' pkgname (Some ver) quiet = Some (\<exists>v \<in> set vs. affected v pkgname ver, sb)"
proof -
  obtain audit' where p: "pkg_audit_process e audit = Some (EPKG_OK, audit')"
    "au_entries audit' = foldl (\<lambda>es v. pkg_audit_expand_entry (parsed_entry v) es) [] vs"
    using process_document [OF assms(2) vulns_ops [OF assms(3)] assms(4,5,6)] by blast
  note found = document_found [OF assms(3) p(2)]
  obtain es where es: "mset es = mset (filter (entry_matches pkgname (Some ver)) (au_entries audit'))"
    "pkg_audit_is_vulnerable fnmatch audit' pkgname (Some ver) quiet = Some (es \<noteq> [], hits_text pkgname (Some ver) quiet es)"
    using audit_search [OF assms(1) p(1) found(2) assms(7), of "Some ver" quiet] by blast
  have "es \<noteq> [] \<longleftrightarrow> (\<exists>x \<in> set (au_entries audit'). entry_matches pkgname (Some ver) x)"
    using mset_eq_setD [OF es(1)] by (cases es) (auto simp: filter_empty_conv)
  then show ?thesis using p(1) es(2) found(1) [of pkgname ver] by auto
qed

definition star_start :: "pkg_audit_entry \<Rightarrow> bool" where
  "star_start e \<longleftrightarrow> (\<exists>s. ae_pkgname e = Some (CHR ''*'' # s))"

lemma star_prefix: "item_ok a \<Longrightarrow> star_start (ai_e a) \<Longrightarrow> item_prefix a = [] \<and> first_char (item_name a) = CHR ''*''"
  by (auto simp: item_ok_def star_start_def item_prefix_def item_name_def first_char_def globbing_def)

lemma plain_prefix: "item_ok a \<Longrightarrow> plain_start (ai_e a) \<Longrightarrow> item_prefix a = [] \<Longrightarrow> item_name a = []"
  by (cases "item_name a") (auto simp: item_ok_def plain_start_def item_prefix_def item_name_def)

text \<open>The names that begin with a star are sorted to the front, and the search for a name with a greater first byte starts behind them.\<close>

lemma stars_skipped:
  assumes "sorted_wrt (\<lambda>a b. strcmp (item_prefix a) (item_prefix b) \<le> 0) items" "\<forall>a \<in> set items. item_ok a"
    and "\<forall>a \<in> set items. plain_start (ai_e a) \<or> star_start (ai_e a)" "42 < n" "n < 256"
    and "a \<in> set (drop (first_byte_idx items ! n) items)"
  shows "\<not> star_start (ai_e a)"
proof
  assume star: "star_start (ai_e a)"
  let ?P = "\<lambda>a. size_of_char (first_char (item_name a)) < n"
  have "drop (first_byte_idx items ! n) items = dropWhile ?P items" using assms(4,5) by (simp add: first_byte_idx_nth dropWhile_eq_drop)
  then obtain b bs where d: "dropWhile ?P items = b # bs" "a \<in> set (b # bs)" using assms(6) by (cases "dropWhile ?P items") auto
  have b: "\<not> ?P b" using hd_dropWhile [of ?P items] d(1) by simp
  have sub: "set (b # bs) \<subseteq> set items" using d(1) by (metis set_dropWhileD subsetI)
  have small: "size_of_char CHR ''*'' < n" "size_of_char CHR 0x00 < n" using assms(4) by (simp_all add: size_of_char_def byte_def)
  have "item_prefix a = [] \<and> ?P a" using star_prefix [OF _ star] assms(2) sub d(2) small by (auto simp: subset_eq)
  then have ab: "item_prefix a = []" "a \<noteq> b" using b by auto
  then have "a \<in> set bs" using d(2) by simp
  moreover have "sorted_wrt (\<lambda>a b. strcmp (item_prefix a) (item_prefix b) \<le> 0) (b # bs)"
    using assms(1) d(1) by (metis sorted_wrt_drop dropWhile_eq_drop)
  ultimately have "strcmp (item_prefix b) [] \<le> 0" using ab(1) by auto
  then have e: "item_prefix b = []" by (cases "item_prefix b") (auto simp: byte_def)
  have "b \<in> set items" using sub by simp
  then have "\<not> star_start (ai_e b)" using star_prefix [of b] assms(2) b small by auto
  then have "item_name b = []" using plain_prefix [OF _ _ e] assms(2,3) \<open>b \<in> set items\<close> by blast
  then show False using b small by (simp add: first_char_def)
qed

text \<open>
  C40: an entry whose name begins with a star is missed: the table of first bytes starts the search behind the entries with a smaller first byte. When no name
  begins with another globbing character, a package whose name begins with a byte above that of the star, such as a letter or a digit, is reported exactly for
  the matching entries whose names do not begin with a star, although \<open>fnmatch\<close> matches the others too.
\<close>

theorem audit_wildcard_missed:
  assumes "sorts (ad_qsort e)" "pkg_audit_process e audit = Some (EPKG_OK, audit')"
    and "\<forall>x \<in> set (au_entries audit'). plain_start x \<or> star_start x"
    and "42 < size_of_char (first_char pkgname)" "size_of_char (first_char pkgname) < 256"
  shows "\<exists>es. mset es = mset (filter (\<lambda>x. \<not> star_start x \<and> entry_matches pkgname pkgversion x) (au_entries audit'))
    \<and> pkg_audit_is_vulnerable fnmatch audit' pkgname pkgversion quiet = Some (es \<noteq> [], hits_text pkgname pkgversion quiet es)"
proof -
  obtain items where i: "pkg_audit_preprocess e (au_entries audit') = (items, first_byte_idx items)"
    "au_items audit' = items" "au_first_byte audit' = first_byte_idx items" "au_parsed audit'"
    using assms(2) by (auto simp: pkg_audit_process_def pkg_audit_preprocess_def Let_def split: option.splits if_splits prod.splits)
  note p = preprocess_facts [OF assms(1) i(1)]
  let ?k = "first_byte_idx items ! size_of_char (first_char pkgname)"
  let ?m = "\<lambda>x. \<not> star_start x \<and> entry_matches pkgname pkgversion x"
  let ?es = "hits fnmatch pkgname pkgversion (drop ?k items)"
  have "set (map ai_e items) \<subseteq> set (au_entries audit')" using mset_eq_setD [OF p(4)] by auto
  then have starts: "\<forall>a \<in> set items. plain_start (ai_e a) \<or> star_start (ai_e a)" using assms(3) by auto
  have "\<forall>a \<in> set (drop ?k items). item_ok a" using p(2) by (meson in_set_dropD)
  then have es: "?es = filter (entry_matches pkgname pkgversion) (map ai_e (drop ?k items))" by (rule hits_entries)
  also have "\<dots> = filter ?m (map ai_e (drop ?k items))"
    by (rule filter_cong) (use stars_skipped [OF p(3,2) starts assms(4,5)] in auto)
  also have "\<dots> = filter ?m (map ai_e items)"
  proof -
    have "\<not> ?m (ai_e a)" if a: "a \<in> set (take ?k items)" for a
    proof (cases "star_start (ai_e a)")
      case False
      then have "plain_start (ai_e a)" "item_ok a" using starts p(2) in_set_takeD [OF a] by auto
      then show ?thesis using skipped_items [OF assms(5) _ p(2) a] by (auto simp: entry_matches_def item_ok_def item_name_def)
    qed simp
    then have none: "filter ?m (map ai_e (take ?k items)) = []" by (auto simp: filter_empty_conv)
    have "map ai_e items = map ai_e (take ?k items) @ map ai_e (drop ?k items)" by (simp only: map_append [symmetric] append_take_drop_id)
    then have "filter ?m (map ai_e items) = filter ?m (map ai_e (take ?k items)) @ filter ?m (map ai_e (drop ?k items))" by (simp only: filter_append)
    then show ?thesis unfolding none by simp
  qed
  finally have "mset ?es = filter_mset ?m (mset (map ai_e items))" by simp
  also have "\<dots> = mset (filter ?m (filter (\<lambda>e. ae_pkgname e \<noteq> None) (au_entries audit')))" unfolding p(4) by (rule mset_filter [symmetric])
  also have "filter ?m (filter (\<lambda>e. ae_pkgname e \<noteq> None) (au_entries audit')) = filter ?m (au_entries audit')"
    unfolding filter_filter by (rule filter_cong) (auto simp: entry_matches_def split: option.splits)
  finally have m: "mset ?es = mset (filter ?m (au_entries audit'))" .
  have "audit_walk fnmatch pkgname pkgversion quiet (drop ?k items) (False, []) = (?es \<noteq> [], hits_text pkgname pkgversion quiet ?es)"
    using fnmatch.audit_walk_hits [of "drop ?k items" False quiet pkgname pkgversion "[]"] p(2,3) jumps_ok_drop [OF p(1)]
    by (simp add: sorted_wrt_drop) (meson in_set_dropD)
  then have "pkg_audit_is_vulnerable fnmatch audit' pkgname pkgversion quiet = Some (?es \<noteq> [], hits_text pkgname pkgversion quiet ?es)"
    using i assms(5) by (auto simp: pkg_audit_is_vulnerable_def hits_text_def split: prod.split)
  with m show ?thesis by blast
qed

section \<open>Witnesses\<close>

definition sort_by_prefix :: "(pkg_audit_item \<Rightarrow> pkg_audit_item \<Rightarrow> int) \<Rightarrow> pkg_audit_item list \<Rightarrow> pkg_audit_item list" where
  "sort_by_prefix cmp as = ll_sort (\<lambda>a b. strcmp (item_prefix a) (item_prefix b)) as"

lemma sorts_by_prefix: "sorts sort_by_prefix"
proof -
  let ?c = "\<lambda>a b. strcmp (item_prefix a) (item_prefix b)"
  have c: "three_way_cmp ?c" by (rule three_way_key [OF three_way_strcmp])
  have "sorted_wrt (\<lambda>a b. pkg_audit_entry_cmp a b \<le> 0) (ll_sort ?c as)" if ok: "\<forall>a \<in> set as. item_ok a" for as
  proof -
    have "sorted_wrt (\<lambda>a b. ?c a b \<le> 0) (ll_sort ?c as)"
      using three_way_cmp.ordered_sort [OF c, of as] by (simp add: three_way_cmp.ordered_def [OF c])
    then show ?thesis using ok by (rule_tac sorted_wrt_mono_rel [rotated]) (auto simp: entry_cmp_prefix)
  qed
  then show ?thesis by (simp add: sorts_def sort_by_prefix_def)
qed

definition two_vulns :: "vuln list" where
  "two_vulns = [\<lparr>vu_id = ''a1'', vu_topic = Some ''bash -- overflow'', vu_packages =
        [\<lparr>vp_names = [''bash'', ''bash-*''], vp_ranges = [[(GTE, ''4.0''), (LT, ''4.2'')], [(EQ, ''3.1'')]]\<rparr>], vu_cves = [''CVE-1'']\<rparr>,
     \<lparr>vu_id = ''b2'', vu_topic = Some ''zsh'', vu_packages = [\<lparr>vp_names = [''zsh''], vp_ranges = [[(LTE, ''5.0'')]]\<rparr>], vu_cves = []\<rparr>,
     \<lparr>vu_id = ''c0'', vu_topic = None, vu_packages = [], vu_cves = []\<rparr>]"

text \<open>A document with all its elements.\<close>

definition blanks :: "xml_event list" where
  "blanks = [Data newline, Data ''  '']"

definition range_events :: "(vop \<times> string) list \<Rightarrow> xml_event list" where
  "range_events r = Start ''range'' [] # concat (map (\<lambda>(t, v). blanks @ element (op_element t) v) r) @ blanks @ [End ''range'']"

definition package_events :: "vuln_package \<Rightarrow> xml_event list" where
  "package_events p = Start ''package'' [] # (concat (map (\<lambda>n. blanks @ element ''name'' n) (vp_names p)) @ blanks)
     @ (concat (map (\<lambda>r. blanks @ range_events r) (vp_ranges p)) @ blanks) @ [End ''package'']"

definition vuln_events :: "vuln \<Rightarrow> xml_event list" where
  "vuln_events v = Start ''vuln'' [(''vid'', vu_id v)]
     # (concat (map (\<lambda>t. blanks @ element ''topic'' t) (case vu_topic v of None \<Rightarrow> [] | Some t \<Rightarrow> [t])) @ blanks @ [Start ''affects'' []])
     @ (concat (map (\<lambda>p. blanks @ package_events p) (vu_packages v)) @ [End ''affects'', Start ''description'' [], Data ''text'', End ''description'', Start ''references'' []])
     @ (concat (map (\<lambda>c. blanks @ element ''cvename'' c) (vu_cves v)) @ blanks @ [End ''references'']) @ [End ''vuln'']"

definition document_events :: "vuln list \<Rightarrow> xml_event list" where
  "document_events vs = [Start ''vuxml'' []] @ concat (map (\<lambda>v. blanks @ vuln_events v) vs) @ blanks @ [End ''vuxml'']"

definition audit_env_of :: "vuln list \<Rightarrow> audit_env" where
  "audit_env_of vs = \<lparr>ad_file = (\<lambda>_. Some []), ad_expat = (\<lambda>_. (document_events vs, True)), ad_qsort = sort_by_prefix\<rparr>"

lemma spaced_concat: "other_events ws \<Longrightarrow> other_events we \<Longrightarrow> (\<And>x. item x (f x)) \<Longrightarrow> spaced item xs (concat (map (\<lambda>x. ws @ f x) xs) @ we)"
  by (induction xs) (auto intro: spaced.intros)

lemma spaced_before: "spaced item xs ds \<Longrightarrow> other_events ws \<Longrightarrow> spaced item xs (ws @ ds)"
proof (induction xs ds rule: spaced.induct)
  case (spaced_item ws' x d xs ds)
  then show ?case using spaced.spaced_item [of "ws @ ws'" item x d xs ds] by (simp add: other_events_def)
qed (auto simp: other_events_def intro: spaced.intros)

lemma document_events: "document vs (document_events vs)"
proof -
  have o: "other_events blanks" "other_events (blanks @ [Start ''affects'' []])" "other_events (blanks @ [End ''references''])" "other_events (blanks @ [End ''vuxml''])"
    "other_events [End ''affects'', Start ''description'' [], Data ''text'', End ''description'', Start ''references'' []]" "other_events [Start ''vuxml'' []]"
    by code_simp+
  have r: "range_doc r (range_events r)" for r
    unfolding range_doc_def range_events_def using spaced_concat [OF o(1,1), where f = "\<lambda>(t, v). element (op_element t) v" and xs = r]
    by (fastforce simp: case_prod_unfold)
  have p: "package_doc p (package_events p)" for p
    unfolding package_doc_def package_events_def
    using spaced_concat [OF o(1,1), where item = "\<lambda>n d. d = element ''name'' n" and f = "element ''name''" and xs = "vp_names p"]
      spaced_concat [OF o(1,1), where item = range_doc and f = range_events and xs = "vp_ranges p", OF r] by blast
  have v: "vuln_doc v (vuln_events v)" for v
    unfolding vuln_doc_def vuln_events_def
    using spaced_concat [OF o(1,2), where item = "\<lambda>t d. d = element ''topic'' t" and f = "element ''topic''" and xs = "case vu_topic v of None \<Rightarrow> [] | Some t \<Rightarrow> [t]"]
      spaced_concat [OF o(1,5), where item = package_doc and f = package_events and xs = "vu_packages v", OF p]
      spaced_concat [OF o(1,3), where item = "\<lambda>c d. d = element ''cvename'' c" and f = "element ''cvename''" and xs = "vu_cves v"] by blast
  show ?thesis unfolding document_def document_events_def
    by (intro spaced_before [OF spaced_concat [OF o(1,4)] o(6)] v)
qed

definition audit_loaded :: pkg_audit where
  "audit_loaded = pkg_audit_new\<lparr>au_map := Some []\<rparr>"

definition audit_ready :: "vuln list \<Rightarrow> pkg_audit" where
  "audit_ready vs = snd (the (pkg_audit_process (audit_env_of vs) audit_loaded))"

definition any_shell :: "vuln list" where
  "any_shell = [\<lparr>vu_id = ''c3'', vu_topic = Some ''every shell'', vu_packages = [\<lparr>vp_names = [''*sh''], vp_ranges = [[(LT, ''9'')]]\<rparr>], vu_cves = []\<rparr>]"

lemma audit_env_facts:
  "sorts (ad_qsort (audit_env_of vs))" "document vs (document_events vs)" "au_map audit_loaded = Some []" "au_entries audit_loaded = []"
  "ad_expat (audit_env_of vs) m = (document_events vs, True)"
  by (simp_all add: audit_env_of_def sorts_by_prefix document_events audit_loaded_def pkg_audit_new_def)

lemma audit_readyI:
  assumes "\<forall>v \<in> set vs. \<forall>p \<in> set (vu_packages v). \<forall>bs \<in> set (vp_ranges p). \<forall>b \<in> set bs. fst b \<noteq> NOP"
  shows "pkg_audit_process (audit_env_of vs) audit_loaded = Some (EPKG_OK, audit_ready vs)"
    "au_entries (audit_ready vs) = foldl (\<lambda>es v. pkg_audit_expand_entry (parsed_entry v) es) [] vs"
  using process_document [OF audit_env_facts(2) assms audit_env_facts(3,4,5)] by (auto simp: audit_ready_def)

lemma two_vulns_ok: "\<forall>v \<in> set two_vulns. vuln_ok v"
  by code_simp

theorem audit_exact_witness:
  "\<exists>audit' sb. pkg_audit_process (audit_env_of two_vulns) audit_loaded = Some (EPKG_OK, audit')
    \<and> pkg_audit_is_vulnerable fnmatch audit' ''bash'' (Some ''4.1'') False = Some (True, sb)"
proof -
  have c: "size_of_char (first_char ''bash'') < 256" by code_simp
  have a: "(\<exists>v \<in> set two_vulns. affected v ''bash'' ''4.1'') = True" by code_simp
  show ?thesis
    using audit_exact [OF audit_env_facts(1,2) two_vulns_ok audit_env_facts(3,4,5) c, of "''4.1''" False] unfolding a .
qed

theorem audit_search_exact_witness:
  "\<exists>es. mset es = mset (filter (entry_matches ''zsh'' (Some ''4'')) (au_entries (audit_ready two_vulns)))
    \<and> pkg_audit_is_vulnerable fnmatch (audit_ready two_vulns) ''zsh'' (Some ''4'') False
      = Some (es \<noteq> [], hits_text ''zsh'' (Some ''4'') False es)"
proof -
  have p: "\<forall>x \<in> set (au_entries (audit_ready two_vulns)). plain_start x" unfolding audit_readyI(2) [OF vulns_ops [OF two_vulns_ok]] by code_simp
  have c: "size_of_char (first_char ''zsh'') < 256" by code_simp
  show ?thesis by (rule audit_search_exact [OF audit_env_facts(1) audit_readyI(1) [OF vulns_ops [OF two_vulns_ok]] p c])
qed

theorem audit_wildcard_missed_witness:
  "fnmatch ''*sh'' ''zsh'' \<and> entry_matches ''zsh'' (Some ''4'') (entry_for (parsed_entry (hd any_shell)) (parsed_package (hd (vu_packages (hd any_shell)))) (Some ''*sh''))
   \<and> (\<exists>es. mset es = {#} \<and> pkg_audit_is_vulnerable fnmatch (audit_ready any_shell) ''zsh'' (Some ''4'') False
        = Some (es \<noteq> [], hits_text ''zsh'' (Some ''4'') False es))"
proof -
  have ops: "\<forall>v \<in> set any_shell. \<forall>p \<in> set (vu_packages v). \<forall>bs \<in> set (vp_ranges p). \<forall>b \<in> set bs. fst b \<noteq> NOP" by code_simp
  have n: "\<forall>x \<in> set (au_entries (audit_ready any_shell)). case ae_pkgname x of None \<Rightarrow> True | Some name \<Rightarrow> take 1 name = ''*''"
    unfolding audit_readyI(2) [OF ops] by code_simp
  have s: "plain_start x \<or> star_start x" "entry_matches ''zsh'' (Some ''4'') x \<Longrightarrow> star_start x" if "x \<in> set (au_entries (audit_ready any_shell))" for x
  proof -
    have "ae_pkgname x = None \<or> star_start x"
    proof (cases "ae_pkgname x")
      case (Some name)
      then have "take 1 name = ''*''" using bspec [OF n that] by simp
      then show ?thesis using Some by (cases name) (simp_all add: star_start_def)
    qed simp
    then show "plain_start x \<or> star_start x" "entry_matches ''zsh'' (Some ''4'') x \<Longrightarrow> star_start x" by (auto simp: plain_start_def entry_matches_def)
  qed
  have c: "42 < size_of_char (first_char ''zsh'')" "size_of_char (first_char ''zsh'') < 256" by code_simp+
  have e: "filter (\<lambda>x. \<not> star_start x \<and> entry_matches ''zsh'' (Some ''4'') x) (au_entries (audit_ready any_shell)) = []"
    using s(2) by (auto simp: filter_empty_conv)
  have "\<exists>es. mset es = {#} \<and> pkg_audit_is_vulnerable fnmatch (audit_ready any_shell) ''zsh'' (Some ''4'') False
      = Some (es \<noteq> [], hits_text ''zsh'' (Some ''4'') False es)"
    using audit_wildcard_missed [OF audit_env_facts(1) audit_readyI(1) [OF ops] _ c, of "Some ''4''" False] s(1) unfolding e by simp
  moreover have "fnmatch ''*sh'' ''zsh''" by code_simp
  moreover have "entry_matches ''zsh'' (Some ''4'') (entry_for (parsed_entry (hd any_shell)) (parsed_package (hd (vu_packages (hd any_shell)))) (Some ''*sh''))"
    by code_simp
  ultimately show ?thesis by blast
qed

end
