(* ===== verification/Objects.thy ===== *)
theory Objects
  imports Package
begin

text \<open>
  Packages as objects, \<open>libpkg/pkg.c\<close>: the attributes of a package, kept in an object of \<open>libucl\<close>, its lists, and the functions
  that read, set and add. The objects of \<open>libucl\<close> are trees; what the sources call of \<open>ucl_util.c\<close> is here too.
  \<open>Crash\<close> is a failed assertion, a type confusion, or a table whose links are broken.
\<close>

section \<open>Objects of libucl\<close>

text \<open>
  A key of an object has one value or several: these form a list (\<open>next\<close>). A number that is not an integer is kept as
  the text that it is printed as.
\<close>

datatype ucl =
    UCL_OBJECT "(string \<times> ucl list) list" | UCL_ARRAY "ucl list" | UCL_INT int | UCL_FLOAT string | UCL_STRING string
  | UCL_BOOLEAN bool | UCL_TIME string | UCL_USERDATA | UCL_NULL

datatype ucl_type = T_OBJECT | T_ARRAY | T_INT | T_FLOAT | T_STRING | T_BOOLEAN | T_TIME | T_USERDATA | T_NULL

fun ucl_type_of :: "ucl \<Rightarrow> ucl_type" where
  "ucl_type_of (UCL_OBJECT _) = T_OBJECT"
| "ucl_type_of (UCL_ARRAY _) = T_ARRAY"
| "ucl_type_of (UCL_INT _) = T_INT"
| "ucl_type_of (UCL_FLOAT _) = T_FLOAT"
| "ucl_type_of (UCL_STRING _) = T_STRING"
| "ucl_type_of (UCL_BOOLEAN _) = T_BOOLEAN"
| "ucl_type_of (UCL_TIME _) = T_TIME"
| "ucl_type_of UCL_USERDATA = T_USERDATA"
| "ucl_type_of UCL_NULL = T_NULL"

type_synonym ucl_object = "(string, ucl list) uthash"

definition ucl_object_insert_key :: "string \<Rightarrow> ucl \<Rightarrow> ucl_object \<Rightarrow> ucl_object" where
  "ucl_object_insert_key key elt obj =
     (if hash_find key obj = None then hash_add key [elt] obj else hash_upd key (\<lambda>c. c @ [elt]) obj)"

definition ucl_object_replace_key :: "string \<Rightarrow> ucl \<Rightarrow> ucl_object \<Rightarrow> ucl_object" where
  "ucl_object_replace_key key elt obj = hash_add key [elt] (hash_del key obj)"

definition ucl_object_delete_key :: "string \<Rightarrow> ucl_object \<Rightarrow> ucl_object" where
  "ucl_object_delete_key key obj = hash_del key obj"

definition ucl_object_find_key :: "string \<Rightarrow> ucl_object \<Rightarrow> ucl option" where
  "ucl_object_find_key key obj = map_option hd (hash_find key obj)"

text \<open>
  A pointer to an object: its key and the list of the objects from it on. \<open>ucl_iterate_object\<close> yields the elements
  of an object or an array, or else the list itself.
\<close>

type_synonym ucl_node = "string option \<times> ucl list"

fun suffixes_of :: "'a list \<Rightarrow> 'a list list" where
  "suffixes_of [] = []"
| "suffixes_of (x # xs) = (x # xs) # suffixes_of xs"

definition ucl_linear :: "ucl_node \<Rightarrow> ucl_node list" where
  "ucl_linear n = map (\<lambda>s. (fst n, s)) (suffixes_of (snd n))"

definition ucl_iterate_object :: "ucl_node \<Rightarrow> bool \<Rightarrow> ucl_node list" where
  "ucl_iterate_object n expand_values =
     (case snd n of
        [] \<Rightarrow> []
      | UCL_OBJECT h # _ \<Rightarrow> if expand_values then map (\<lambda>(k, c). (Some k, c)) h else ucl_linear n
      | UCL_ARRAY xs # _ \<Rightarrow> if expand_values then map (\<lambda>s. (None, s)) (suffixes_of xs) else ucl_linear n
      | _ \<Rightarrow> ucl_linear n)"

definition ucl_object_tostring_forced :: "ucl \<Rightarrow> string" where
  "ucl_object_tostring_forced obj =
     (case obj of
        UCL_STRING s \<Rightarrow> s | UCL_INT n \<Rightarrow> show_int n | UCL_FLOAT s \<Rightarrow> s | UCL_TIME s \<Rightarrow> s | UCL_OBJECT _ \<Rightarrow> ''object''
      | UCL_ARRAY _ \<Rightarrow> ''array'' | UCL_NULL \<Rightarrow> ''null'' | UCL_BOOLEAN b \<Rightarrow> if b then ''true'' else ''false''
      | UCL_USERDATA \<Rightarrow> ''userdata'')"

definition ucl_object_toint :: "ucl \<Rightarrow> int" where
  \<comment> \<open>of an integer\<close>
  "ucl_object_toint obj = (case obj of UCL_INT n \<Rightarrow> n | _ \<Rightarrow> 0)"

definition ucl_object_toboolean :: "ucl \<Rightarrow> bool" where
  "ucl_object_toboolean obj = (case obj of UCL_BOOLEAN b \<Rightarrow> b | _ \<Rightarrow> False)"

definition ucl_whitespace :: "char \<Rightarrow> bool" where
  "ucl_whitespace c \<longleftrightarrow> 9 \<le> byte c \<and> byte c \<le> 13 \<or> byte c = 32"

definition ucl_trim :: "string \<Rightarrow> string" where
  \<comment> \<open>\<open>UCL_STRING_TRIM\<close>\<close>
  "ucl_trim s = rev (dropWhile ucl_whitespace (rev (dropWhile ucl_whitespace s)))"

section \<open>The attributes of a package\<close>

datatype pkg_attr =
    PKG_ORIGIN | PKG_NAME | PKG_VERSION | PKG_COMMENT | PKG_DESC | PKG_MTREE | PKG_MESSAGE | PKG_ARCH | PKG_MAINTAINER | PKG_WWW
  | PKG_PREFIX | PKG_REPOPATH | PKG_CKSUM | PKG_OLD_VERSION | PKG_REPONAME | PKG_REPOURL | PKG_DIGEST | PKG_REASON | PKG_FLATSIZE
  | PKG_OLD_FLATSIZE | PKG_PKGSIZE | PKG_LICENSE_LOGIC | PKG_AUTOMATIC | PKG_LOCKED | PKG_ROWID | PKG_TIME | PKG_ANNOTATIONS
  | PKG_LICENSES | PKG_CATEGORIES | PKG_UNIQUEID | PKG_OLD_DIGEST

definition pkg_keys :: "(pkg_attr \<times> string \<times> ucl_type) list" where
  "pkg_keys = [(PKG_ORIGIN, ''origin'', T_STRING), (PKG_NAME, ''name'', T_STRING), (PKG_VERSION, ''version'', T_STRING),
     (PKG_COMMENT, ''comment'', T_STRING), (PKG_DESC, ''desc'', T_STRING), (PKG_MTREE, ''mtree'', T_STRING),
     (PKG_MESSAGE, ''message'', T_STRING), (PKG_ARCH, ''arch'', T_STRING), (PKG_MAINTAINER, ''maintainer'', T_STRING),
     (PKG_WWW, ''www'', T_STRING), (PKG_PREFIX, ''prefix'', T_STRING), (PKG_REPOPATH, ''repopath'', T_STRING),
     (PKG_CKSUM, ''sum'', T_STRING), (PKG_OLD_VERSION, ''oldversion'', T_STRING), (PKG_REPONAME, ''reponame'', T_STRING),
     (PKG_REPOURL, ''repourl'', T_STRING), (PKG_DIGEST, ''digest'', T_STRING), (PKG_REASON, ''reason'', T_STRING),
     (PKG_FLATSIZE, ''flatsize'', T_INT), (PKG_OLD_FLATSIZE, ''oldflatsize'', T_INT), (PKG_PKGSIZE, ''pkgsize'', T_INT),
     (PKG_LICENSE_LOGIC, ''licenselogic'', T_INT), (PKG_AUTOMATIC, ''automatic'', T_BOOLEAN), (PKG_LOCKED, ''locked'', T_BOOLEAN),
     (PKG_ROWID, ''rowid'', T_INT), (PKG_TIME, ''time'', T_INT), (PKG_ANNOTATIONS, ''annotations'', T_OBJECT),
     (PKG_LICENSES, ''licenses'', T_ARRAY), (PKG_CATEGORIES, ''categories'', T_ARRAY), (PKG_UNIQUEID, ''uniqueid'', T_STRING),
     (PKG_OLD_DIGEST, ''olddigest'', T_STRING)]"

definition key_name :: "pkg_attr \<Rightarrow> string" where
  "key_name attr = fst (the (map_of pkg_keys attr))"

definition key_type :: "pkg_attr \<Rightarrow> ucl_type" where
  "key_type attr = snd (the (map_of pkg_keys attr))"

datatype pkg_script =
    PKG_SCRIPT_PRE_INSTALL | PKG_SCRIPT_POST_INSTALL | PKG_SCRIPT_PRE_DEINSTALL | PKG_SCRIPT_POST_DEINSTALL
  | PKG_SCRIPT_PRE_UPGRADE | PKG_SCRIPT_POST_UPGRADE | PKG_SCRIPT_INSTALL | PKG_SCRIPT_DEINSTALL | PKG_SCRIPT_UPGRADE

definition all_scripts :: "pkg_script list" where
  "all_scripts = [PKG_SCRIPT_PRE_INSTALL, PKG_SCRIPT_POST_INSTALL, PKG_SCRIPT_PRE_DEINSTALL, PKG_SCRIPT_POST_DEINSTALL,
     PKG_SCRIPT_PRE_UPGRADE, PKG_SCRIPT_POST_UPGRADE, PKG_SCRIPT_INSTALL, PKG_SCRIPT_DEINSTALL, PKG_SCRIPT_UPGRADE]"

definition MAXLOGNAME :: nat where
  "MAXLOGNAME = 33"

record struct_file =
  sf_path :: string
  sf_sum :: string
  sf_uname :: string
  sf_gname :: string
  sf_perm :: nat

record struct_dir =
  sd_path :: string
  sd_uname :: string
  sd_gname :: string
  sd_perm :: nat
  sd_try :: bool

record struct_option =
  so_key :: string
  so_value :: "string option"
  so_default_value :: "string option"
  so_description :: "string option"

record struct_user =
  su_name :: string
  su_uidstr :: string

record struct_group =
  sg_name :: string
  sg_gidstr :: string

record struct_pkg =
  pk_fields :: ucl_object
  pk_scripts :: "pkg_script \<Rightarrow> string option"
  pk_deps :: "(string, pkg_dep) uthash"
  pk_rdeps :: "(string, pkg_dep) uthash"
  pk_files :: "(string, struct_file) uthash"
  pk_dirs :: "(string, struct_dir) uthash"
  pk_options :: "(string, struct_option) uthash"
  pk_users :: "(string, struct_user) uthash"
  pk_groups :: "(string, struct_group) uthash"
  pk_shlibs_required :: "string list"
  pk_shlibs_provided :: "string list"
  pk_conflicts :: "pkg_conflict list"
  pk_provides :: "string list"
  pk_flags :: "pkg_load list"
  pk_type :: pkg_t

definition pkg_new :: "pkg_t \<Rightarrow> struct_pkg" where
  "pkg_new t = \<lparr>pk_fields = [], pk_scripts = (\<lambda>_. None), pk_deps = [], pk_rdeps = [], pk_files = [], pk_dirs = [], pk_options = [],
     pk_users = [], pk_groups = [], pk_shlibs_required = [], pk_shlibs_provided = [], pk_conflicts = [], pk_provides = [],
     pk_flags = [], pk_type = t\<rparr>"

datatype pkg_list =
    PKG_DEPS | PKG_RDEPS | PKG_OPTIONS | PKG_FILES | PKG_DIRS | PKG_USERS | PKG_GROUPS | PKG_SHLIBS_REQUIRED | PKG_SHLIBS_PROVIDED
  | PKG_CONFLICTS | PKG_PROVIDES

definition clear_flag :: "pkg_load \<Rightarrow> struct_pkg \<Rightarrow> struct_pkg" where
  "clear_flag l pkg = pkg\<lparr>pk_flags := filter (\<lambda>x. x \<noteq> l) (pk_flags pkg)\<rparr>"

definition pkg_list_free :: "pkg_list \<Rightarrow> struct_pkg \<Rightarrow> struct_pkg" where
  "pkg_list_free l pkg =
     (case l of
        PKG_DEPS \<Rightarrow> clear_flag PKG_LOAD_DEPS (pkg\<lparr>pk_deps := []\<rparr>)
      | PKG_RDEPS \<Rightarrow> clear_flag PKG_LOAD_RDEPS (pkg\<lparr>pk_rdeps := []\<rparr>)
      | PKG_OPTIONS \<Rightarrow> clear_flag PKG_LOAD_OPTIONS (pkg\<lparr>pk_options := []\<rparr>)
      | PKG_FILES \<Rightarrow> clear_flag PKG_LOAD_FILES (pkg\<lparr>pk_files := []\<rparr>)
      | PKG_DIRS \<Rightarrow> clear_flag PKG_LOAD_DIRS (pkg\<lparr>pk_dirs := []\<rparr>)
      | PKG_USERS \<Rightarrow> clear_flag PKG_LOAD_USERS (pkg\<lparr>pk_users := []\<rparr>)
      | PKG_GROUPS \<Rightarrow> clear_flag PKG_LOAD_GROUPS (pkg\<lparr>pk_groups := []\<rparr>)
      | PKG_SHLIBS_REQUIRED \<Rightarrow> clear_flag PKG_LOAD_SHLIBS_REQUIRED (pkg\<lparr>pk_shlibs_required := []\<rparr>)
      | PKG_SHLIBS_PROVIDED \<Rightarrow> clear_flag PKG_LOAD_SHLIBS_PROVIDED (pkg\<lparr>pk_shlibs_provided := []\<rparr>)
      | PKG_CONFLICTS \<Rightarrow> clear_flag PKG_LOAD_CONFLICTS (pkg\<lparr>pk_conflicts := []\<rparr>)
      | PKG_PROVIDES \<Rightarrow> clear_flag PKG_LOAD_PROVIDES (pkg\<lparr>pk_provides := []\<rparr>))"

definition pkg_list_count :: "pkg_list \<Rightarrow> struct_pkg \<Rightarrow> nat" where
  "pkg_list_count l pkg =
     (case l of
        PKG_DEPS \<Rightarrow> length (pk_deps pkg) | PKG_RDEPS \<Rightarrow> length (pk_rdeps pkg) | PKG_OPTIONS \<Rightarrow> length (pk_options pkg)
      | PKG_FILES \<Rightarrow> length (pk_files pkg) | PKG_DIRS \<Rightarrow> length (pk_dirs pkg) | PKG_USERS \<Rightarrow> length (pk_users pkg)
      | PKG_GROUPS \<Rightarrow> length (pk_groups pkg) | PKG_SHLIBS_REQUIRED \<Rightarrow> length (pk_shlibs_required pkg)
      | PKG_SHLIBS_PROVIDED \<Rightarrow> length (pk_shlibs_provided pkg) | PKG_CONFLICTS \<Rightarrow> length (pk_conflicts pkg)
      | PKG_PROVIDES \<Rightarrow> length (pk_provides pkg))"

text \<open>The lists that a reset empties: the conflicts are not among them. A script that was there becomes empty.\<close>

definition reset_lists :: "pkg_list list" where
  "reset_lists = [PKG_DEPS, PKG_RDEPS, PKG_FILES, PKG_DIRS, PKG_OPTIONS, PKG_USERS, PKG_GROUPS, PKG_SHLIBS_REQUIRED,
     PKG_SHLIBS_PROVIDED, PKG_PROVIDES]"

definition pkg_reset :: "struct_pkg \<Rightarrow> pkg_t \<Rightarrow> struct_pkg" where
  "pkg_reset pkg t =
     (let pkg = clear_flag PKG_LOAD_ANNOTATIONS (clear_flag PKG_LOAD_LICENSES (clear_flag PKG_LOAD_CATEGORIES (pkg\<lparr>pk_fields := []\<rparr>)));
          pkg = pkg\<lparr>pk_scripts := (\<lambda>i. map_option (\<lambda>_. []) (pk_scripts pkg i))\<rparr>
      in (foldl (\<lambda>pkg l. pkg_list_free l pkg) pkg reset_lists)\<lparr>pk_type := t\<rparr>)"

section \<open>Reading and setting\<close>

definition pkg_get :: "struct_pkg \<Rightarrow> pkg_attr \<Rightarrow> ucl option" where
  "pkg_get pkg attr = ucl_object_find_key (key_name attr) (pk_fields pkg)"

definition pkg_get_string :: "struct_pkg \<Rightarrow> pkg_attr \<Rightarrow> string option" where
  "pkg_get_string pkg attr = map_option ucl_object_tostring_forced (pkg_get pkg attr)"

definition pkg_get_int :: "struct_pkg \<Rightarrow> pkg_attr \<Rightarrow> int" where
  "pkg_get_int pkg attr = (case pkg_get pkg attr of None \<Rightarrow> 0 | Some obj \<Rightarrow> ucl_object_toint obj)"

definition pkg_get_bool :: "struct_pkg \<Rightarrow> pkg_attr \<Rightarrow> bool" where
  "pkg_get_bool pkg attr = (case pkg_get pkg attr of None \<Rightarrow> False | Some obj \<Rightarrow> ucl_object_toboolean obj)"

text \<open>The argument that follows an attribute; one of another type is read as what it is not.\<close>

datatype set_arg = SetStr "string option" | SetBool bool | SetInt int | SetObj ucl

definition set_field :: "pkg_attr \<Rightarrow> ucl \<Rightarrow> struct_pkg \<Rightarrow> struct_pkg" where
  "set_field attr o1 pkg = pkg\<lparr>pk_fields := ucl_object_replace_key (key_name attr) o1 (pk_fields pkg)\<rparr>"

definition pkg_set :: "struct_pkg \<Rightarrow> pkg_attr \<Rightarrow> set_arg \<Rightarrow> struct_pkg run" where
  "pkg_set pkg attr arg =
     (case (key_type attr, arg) of
        (T_STRING, SetStr None) \<Rightarrow>
          if attr = PKG_MTREE then Crash
          else Ret (pkg\<lparr>pk_fields := ucl_object_delete_key (key_name attr) (pk_fields pkg)\<rparr>)
      | (T_STRING, SetStr (Some str)) \<Rightarrow>
          let data = (if attr = PKG_MTREE \<and> \<not> strncaseeq str ''#mtree'' 6 then ''#mtree'' @ [CHR 0x0A] @ str else str)
          in Ret (set_field attr (UCL_STRING data) pkg)
      | (T_BOOLEAN, SetBool b) \<Rightarrow> Ret (set_field attr (UCL_BOOLEAN b) pkg)
      | (T_INT, SetInt n) \<Rightarrow> Ret (set_field attr (UCL_INT n) pkg)
      | (T_OBJECT, SetObj obj) \<Rightarrow> Ret (set_field attr obj pkg)
      | (T_ARRAY, SetObj obj) \<Rightarrow> Ret (set_field attr obj pkg)
      | _ \<Rightarrow> Crash)"

definition pkg_set_text :: "struct_pkg \<Rightarrow> pkg_attr \<Rightarrow> bool \<Rightarrow> string option \<Rightarrow> (epkg \<times> struct_pkg) run" where
  \<comment> \<open>\<open>pkg_set_from_file\<close> and \<open>pkg_set_from_fileat\<close> with the content of the file; a text of newlines only is read before its start\<close>
  "pkg_set_text pkg attr trimcr content =
     (case content of
        None \<Rightarrow> Ret (EPKG_FATAL, pkg)
      | Some buf \<Rightarrow>
          (let buf' = (if trimcr then rev (dropWhile (\<lambda>c. c = CHR 0x0A) (rev buf)) else buf)
           in if trimcr \<and> buf' = [] then Crash
              else run_bind (pkg_set pkg attr (SetStr (Some buf'))) (\<lambda>pkg. Ret (EPKG_OK, pkg))))"

section \<open>Adding\<close>

text \<open>A name that is there already is an error in the developer mode and is ignored otherwise.\<close>

definition duplicate :: "bool \<Rightarrow> struct_pkg \<Rightarrow> (epkg \<times> struct_pkg) run" where
  "duplicate developer_mode pkg = Ret (if developer_mode then EPKG_FATAL else EPKG_OK, pkg)"

definition strlcpy :: "nat \<Rightarrow> string \<Rightarrow> string" where
  \<comment> \<open>into a buffer of \<open>n\<close> bytes\<close>
  "strlcpy n s = take (n - 1) s"

definition opt_string :: "string option \<Rightarrow> string" where
  "opt_string s = (case s of None \<Rightarrow> [] | Some s \<Rightarrow> s)"

text \<open>An element at the end of an array that is an attribute, in place; a new array is an attribute at the end.\<close>

definition append_to_array :: "bool \<Rightarrow> struct_pkg \<Rightarrow> pkg_attr \<Rightarrow> string \<Rightarrow> (epkg \<times> struct_pkg) run" where
  "append_to_array developer_mode pkg attr name =
     (if name = [] then Crash
      else case pkg_get pkg attr of
        None \<Rightarrow> Ret (EPKG_OK, set_field attr (UCL_ARRAY [UCL_STRING name]) pkg)
      | Some (UCL_ARRAY xs) \<Rightarrow>
          if \<exists>x \<in> set xs. ucl_object_tostring_forced x = [] then Crash
          else if \<exists>x \<in> set xs. ucl_object_tostring_forced x = name then duplicate developer_mode pkg
          else Ret (EPKG_OK, pkg\<lparr>pk_fields := hash_upd (key_name attr) (\<lambda>c. UCL_ARRAY (xs @ [UCL_STRING name]) # tl c) (pk_fields pkg)\<rparr>)
      | Some _ \<Rightarrow> Crash)"

definition pkg_addlicense :: "bool \<Rightarrow> struct_pkg \<Rightarrow> string \<Rightarrow> (epkg \<times> struct_pkg) run" where
  "pkg_addlicense developer_mode pkg name = append_to_array developer_mode pkg PKG_LICENSES name"

definition pkg_addcategory :: "bool \<Rightarrow> struct_pkg \<Rightarrow> string \<Rightarrow> (epkg \<times> struct_pkg) run" where
  "pkg_addcategory developer_mode pkg name = append_to_array developer_mode pkg PKG_CATEGORIES name"

definition pkg_adduid :: "bool \<Rightarrow> struct_pkg \<Rightarrow> string \<Rightarrow> string option \<Rightarrow> (epkg \<times> struct_pkg) run" where
  "pkg_adduid developer_mode pkg name uidstr =
     (if name = [] then Crash
      else if hash_find name (pk_users pkg) \<noteq> None then duplicate developer_mode pkg
      else let u = \<lparr>su_name = strlcpy MAXLOGNAME name, su_uidstr = strlcpy 8192 (opt_string uidstr)\<rparr>
           in Ret (EPKG_OK, pkg\<lparr>pk_users := hash_add (su_name u) u (pk_users pkg)\<rparr>))"

definition pkg_adduser :: "bool \<Rightarrow> struct_pkg \<Rightarrow> string \<Rightarrow> (epkg \<times> struct_pkg) run" where
  "pkg_adduser developer_mode pkg name = pkg_adduid developer_mode pkg name None"

definition pkg_addgid :: "bool \<Rightarrow> struct_pkg \<Rightarrow> string \<Rightarrow> string option \<Rightarrow> (epkg \<times> struct_pkg) run" where
  "pkg_addgid developer_mode pkg name gidstr =
     (if name = [] then Crash
      else if hash_find name (pk_groups pkg) \<noteq> None then duplicate developer_mode pkg
      else let g = \<lparr>sg_name = strlcpy MAXLOGNAME name, sg_gidstr = strlcpy 8192 (opt_string gidstr)\<rparr>
           in Ret (EPKG_OK, pkg\<lparr>pk_groups := hash_add (sg_name g) g (pk_groups pkg)\<rparr>))"

definition pkg_addgroup :: "bool \<Rightarrow> struct_pkg \<Rightarrow> string \<Rightarrow> (epkg \<times> struct_pkg) run" where
  "pkg_addgroup developer_mode pkg name = pkg_addgid developer_mode pkg name None"

definition new_dep :: "string \<Rightarrow> string \<Rightarrow> string \<Rightarrow> bool \<Rightarrow> pkg_dep" where
  "new_dep name origin version locked =
     \<lparr>dep_origin = origin, dep_name = name, dep_version = version, dep_uid = name @ ''~'' @ origin, dep_locked = locked\<rparr>"

definition pkg_adddep :: "bool \<Rightarrow> struct_pkg \<Rightarrow> string \<Rightarrow> string \<Rightarrow> string \<Rightarrow> bool \<Rightarrow> (epkg \<times> struct_pkg) run" where
  "pkg_adddep developer_mode pkg name origin version locked =
     (if name = [] \<or> origin = [] \<or> version = [] then Crash
      else if hash_find origin (pk_deps pkg) \<noteq> None then duplicate developer_mode pkg
      else Ret (EPKG_OK, pkg\<lparr>pk_deps := hash_add origin (new_dep name origin version locked) (pk_deps pkg)\<rparr>))"

definition pkg_addrdep :: "struct_pkg \<Rightarrow> string \<Rightarrow> string \<Rightarrow> string \<Rightarrow> bool \<Rightarrow> (epkg \<times> struct_pkg) run" where
  "pkg_addrdep pkg name origin version locked =
     (if name = [] \<or> origin = [] \<or> version = [] then Crash
      else Ret (EPKG_OK, pkg\<lparr>pk_rdeps := hash_add origin (new_dep name origin version locked) (pk_rdeps pkg)\<rparr>))"

definition pkg_dep_lookup :: "struct_pkg \<Rightarrow> string \<Rightarrow> pkg_dep option" where
  "pkg_dep_lookup pkg origin = hash_find origin (pk_deps pkg)"

definition pkg_addfile_attr ::
  "bool \<Rightarrow> struct_pkg \<Rightarrow> string \<Rightarrow> string option \<Rightarrow> string option \<Rightarrow> string option \<Rightarrow> nat \<Rightarrow> bool \<Rightarrow> (epkg \<times> struct_pkg) run" where
  "pkg_addfile_attr developer_mode pkg path sha256 uname gname perm check_duplicates =
     (if path = [] then Crash
      else if check_duplicates \<and> hash_find path (pk_files pkg) \<noteq> None then duplicate developer_mode pkg
      else let f = \<lparr>sf_path = path_buf path, sf_sum = strlcpy 65 (opt_string sha256), sf_uname = strlcpy MAXLOGNAME (opt_string uname),
                    sf_gname = strlcpy MAXLOGNAME (opt_string gname), sf_perm = perm\<rparr>
           in Ret (EPKG_OK, pkg\<lparr>pk_files := hash_add (sf_path f) f (pk_files pkg)\<rparr>))"

definition pkg_addfile :: "bool \<Rightarrow> struct_pkg \<Rightarrow> string \<Rightarrow> string option \<Rightarrow> bool \<Rightarrow> (epkg \<times> struct_pkg) run" where
  "pkg_addfile developer_mode pkg path sha256 check_duplicates =
     pkg_addfile_attr developer_mode pkg path sha256 None None 0 check_duplicates"

definition pkg_adddir_attr ::
  "bool \<Rightarrow> struct_pkg \<Rightarrow> string \<Rightarrow> string option \<Rightarrow> string option \<Rightarrow> nat \<Rightarrow> bool \<Rightarrow> bool \<Rightarrow> (epkg \<times> struct_pkg) run" where
  "pkg_adddir_attr developer_mode pkg path uname gname perm try check_duplicates =
     (if path = [] then Crash
      else if check_duplicates \<and> hash_find path (pk_dirs pkg) \<noteq> None then duplicate developer_mode pkg
      else let d = \<lparr>sd_path = path_buf path, sd_uname = strlcpy MAXLOGNAME (opt_string uname),
                    sd_gname = strlcpy MAXLOGNAME (opt_string gname), sd_perm = perm, sd_try = try\<rparr>
           in Ret (EPKG_OK, pkg\<lparr>pk_dirs := hash_add (sd_path d) d (pk_dirs pkg)\<rparr>))"

definition pkg_adddir :: "bool \<Rightarrow> struct_pkg \<Rightarrow> string \<Rightarrow> bool \<Rightarrow> bool \<Rightarrow> (epkg \<times> struct_pkg) run" where
  "pkg_adddir developer_mode pkg path try check_duplicates = pkg_adddir_attr developer_mode pkg path None None 0 try check_duplicates"

definition pkg_addscript :: "struct_pkg \<Rightarrow> string \<Rightarrow> pkg_script \<Rightarrow> epkg \<times> struct_pkg" where
  "pkg_addscript pkg data type = (EPKG_OK, pkg\<lparr>pk_scripts := (pk_scripts pkg)(type := Some data)\<rparr>)"

definition pkg_script_get :: "struct_pkg \<Rightarrow> pkg_script \<Rightarrow> string option" where
  "pkg_script_get pkg i = pk_scripts pkg i"

definition pkg_appendscript :: "struct_pkg \<Rightarrow> string \<Rightarrow> pkg_script \<Rightarrow> (epkg \<times> struct_pkg) run" where
  \<comment> \<open>\<open>sbuf_cat\<close> appends to a finished buffer\<close>
  "pkg_appendscript pkg cmd type =
     (if cmd = [] then Crash
      else Ret (case pkg_script_get pkg type of
           None \<Rightarrow> pkg_addscript pkg cmd type
         | Some s \<Rightarrow> (EPKG_OK, pkg\<lparr>pk_scripts := (pk_scripts pkg)(type := Some (s @ cmd))\<rparr>)))"

definition script_files :: "(string \<times> pkg_script) list" where
  "script_files = [(''pkg-pre-install'', PKG_SCRIPT_PRE_INSTALL), (''+PRE_INSTALL'', PKG_SCRIPT_PRE_INSTALL),
     (''pkg-post-install'', PKG_SCRIPT_POST_INSTALL), (''+POST_INSTALL'', PKG_SCRIPT_POST_INSTALL),
     (''pkg-install'', PKG_SCRIPT_INSTALL), (''+INSTALL'', PKG_SCRIPT_INSTALL),
     (''pkg-pre-deinstall'', PKG_SCRIPT_PRE_DEINSTALL), (''+PRE_DEINSTALL'', PKG_SCRIPT_PRE_DEINSTALL),
     (''pkg-post-deinstall'', PKG_SCRIPT_POST_DEINSTALL), (''+POST_DEINSTALL'', PKG_SCRIPT_POST_DEINSTALL),
     (''pkg-deinstall'', PKG_SCRIPT_DEINSTALL), (''+DEINSTALL'', PKG_SCRIPT_DEINSTALL),
     (''pkg-pre-upgrade'', PKG_SCRIPT_PRE_UPGRADE), (''+PRE_UPGRADE'', PKG_SCRIPT_PRE_UPGRADE),
     (''pkg-post-upgrade'', PKG_SCRIPT_POST_UPGRADE), (''+POST_UPGRADE'', PKG_SCRIPT_POST_UPGRADE),
     (''pkg-upgrade'', PKG_SCRIPT_UPGRADE), (''+UPGRADE'', PKG_SCRIPT_UPGRADE)]"

definition pkg_addscript_fileat :: "(string \<Rightarrow> string option) \<Rightarrow> struct_pkg \<Rightarrow> string \<Rightarrow> epkg \<times> struct_pkg" where
  "pkg_addscript_fileat file_to_buffer pkg filename =
     (case file_to_buffer filename of
        None \<Rightarrow> (EPKG_FATAL, pkg)
      | Some data \<Rightarrow>
          (case map_of script_files filename of
             None \<Rightarrow> (EPKG_FATAL, pkg)
           | Some type \<Rightarrow> pkg_addscript pkg data type))"

definition pkg_addscript_file :: "(string \<Rightarrow> string option) \<Rightarrow> struct_pkg \<Rightarrow> string \<Rightarrow> (epkg \<times> struct_pkg) run" where
  \<comment> \<open>a path without a slash is a null pointer\<close>
  "pkg_addscript_file file_to_buffer pkg path =
     (case file_to_buffer path of
        None \<Rightarrow> Ret (EPKG_FATAL, pkg)
      | Some data \<Rightarrow>
          (case strrchr CHR ''/'' path of
             None \<Rightarrow> Crash
           | Some filename \<Rightarrow>
               (case map_of script_files (tl filename) of
                  None \<Rightarrow> Ret (EPKG_FATAL, pkg)
                | Some type \<Rightarrow> Ret (pkg_addscript pkg data type))))"

text \<open>
  Options are hashed under the text that the adding function names: the key, but the default value or the description in the two
  other functions. An option that is in the table is added to it a second time, which breaks the links between its elements.
\<close>

definition no_option :: "string \<Rightarrow> struct_option" where
  "no_option key = \<lparr>so_key = key, so_value = None, so_default_value = None, so_description = None\<rparr>"

definition add_option ::
  "(struct_option \<Rightarrow> string option) \<Rightarrow> (string \<Rightarrow> struct_option \<Rightarrow> struct_option) \<Rightarrow> (string \<Rightarrow> string \<Rightarrow> string)
    \<Rightarrow> bool \<Rightarrow> struct_pkg \<Rightarrow> string \<Rightarrow> string \<Rightarrow> (epkg \<times> struct_pkg) run" where
  "add_option field upd hkey developer_mode pkg key value =
     (if key = [] \<or> value = [] then Crash
      else case hash_find key (pk_options pkg) of
        None \<Rightarrow> Ret (EPKG_OK, pkg\<lparr>pk_options := hash_add (hkey key value) (upd value (no_option key)) (pk_options pkg)\<rparr>)
      | Some o1 \<Rightarrow> if field o1 \<noteq> None then duplicate developer_mode pkg else Crash)"

definition pkg_addoption :: "bool \<Rightarrow> struct_pkg \<Rightarrow> string \<Rightarrow> string \<Rightarrow> (epkg \<times> struct_pkg) run" where
  "pkg_addoption = add_option so_value (\<lambda>v o1. o1\<lparr>so_value := Some v\<rparr>) (\<lambda>key value. key)"

definition pkg_addoption_default :: "bool \<Rightarrow> struct_pkg \<Rightarrow> string \<Rightarrow> string \<Rightarrow> (epkg \<times> struct_pkg) run" where
  "pkg_addoption_default = add_option so_default_value (\<lambda>v o1. o1\<lparr>so_default_value := Some v\<rparr>) (\<lambda>key value. value)"

definition pkg_addoption_description :: "bool \<Rightarrow> struct_pkg \<Rightarrow> string \<Rightarrow> string \<Rightarrow> (epkg \<times> struct_pkg) run" where
  "pkg_addoption_description = add_option so_description (\<lambda>v o1. o1\<lparr>so_description := Some v\<rparr>) (\<lambda>key value. value)"

definition add_name :: "string \<Rightarrow> string list \<Rightarrow> string list" where
  "add_name name names = (if name \<in> set names then names else names @ [name])"

definition pkg_addshlib_required :: "struct_pkg \<Rightarrow> string \<Rightarrow> (epkg \<times> struct_pkg) run" where
  "pkg_addshlib_required pkg name =
     (if name = [] then Crash else Ret (EPKG_OK, pkg\<lparr>pk_shlibs_required := add_name name (pk_shlibs_required pkg)\<rparr>))"

definition pkg_addshlib_provided :: "struct_pkg \<Rightarrow> string \<Rightarrow> (epkg \<times> struct_pkg) run" where
  "pkg_addshlib_provided pkg name =
     (if name = [] then Crash else Ret (EPKG_OK, pkg\<lparr>pk_shlibs_provided := add_name name (pk_shlibs_provided pkg)\<rparr>))"

definition pkg_addconflict :: "struct_pkg \<Rightarrow> string \<Rightarrow> (epkg \<times> struct_pkg) run" where
  "pkg_addconflict pkg uniqueid =
     (if uniqueid = [] then Crash
      else Ret (EPKG_OK, if uniqueid \<in> conf_uniqueid ` set (pk_conflicts pkg) then pkg
           else pkg\<lparr>pk_conflicts := pk_conflicts pkg @ [\<lparr>conf_uniqueid = uniqueid, conf_type = PKG_CONFLICT_ALL\<rparr>]\<rparr>))"

definition pkg_addprovide :: "struct_pkg \<Rightarrow> string \<Rightarrow> (epkg \<times> struct_pkg) run" where
  "pkg_addprovide pkg name = (if name = [] then Crash else Ret (EPKG_OK, pkg\<lparr>pk_provides := add_name name (pk_provides pkg)\<rparr>))"

definition pkg_addannotation :: "struct_pkg \<Rightarrow> string \<Rightarrow> string \<Rightarrow> (epkg \<times> struct_pkg) run" where
  "pkg_addannotation pkg tag value =
     (case pkg_get pkg PKG_ANNOTATIONS of
        None \<Rightarrow> Ret (EPKG_OK, set_field PKG_ANNOTATIONS (UCL_OBJECT [(tag, [UCL_STRING value])]) pkg)
      | Some (UCL_OBJECT notes) \<Rightarrow>
          if hash_find tag notes \<noteq> None then Ret (EPKG_OK, pkg)
          else Ret (EPKG_OK, pkg\<lparr>pk_fields := hash_upd (key_name PKG_ANNOTATIONS)
            (\<lambda>c. UCL_OBJECT (ucl_object_insert_key tag (UCL_STRING value) notes) # tl c) (pk_fields pkg)\<rparr>)
      | Some _ \<Rightarrow> Crash)"

definition pkg_delannotation :: "struct_pkg \<Rightarrow> string \<Rightarrow> epkg \<times> struct_pkg" where
  "pkg_delannotation pkg tag =
     (case pkg_get pkg PKG_ANNOTATIONS of
        Some (UCL_OBJECT notes) \<Rightarrow>
          if hash_find tag notes \<noteq> None then
            (EPKG_OK, pkg\<lparr>pk_fields := hash_upd (key_name PKG_ANNOTATIONS)
              (\<lambda>c. UCL_OBJECT (ucl_object_delete_key tag notes) # tl c) (pk_fields pkg)\<rparr>)
          else (EPKG_WARN, pkg)
      | _ \<Rightarrow> (EPKG_WARN, pkg))"

end
