(* ===== verification/Manifests.thy ===== *)
theory Manifests
  imports Objects
begin

text \<open>
  Manifests, \<open>libpkg/pkg_manifest.c\<close>: a package is written as an object of \<open>libucl\<close> and read back. Parameters: the text of an object
  and its parsers (\<open>libucl\<close> and the YAML fallback), \<open>setmode\<close>, SHA-256 and the files.
\<close>

section \<open>Keys\<close>

datatype manifest_attr = Attr pkg_attr | List pkg_list | MDirectories | MScripts | MOption_defaults | MOption_descriptions

datatype parse_data = pkg_obj_p | pkg_string_p | pkg_array_p | pkg_int_p

definition manifest_keys :: "(string \<times> manifest_attr \<times> ucl_type \<times> parse_data) list" where
  "manifest_keys = [
     (''annotations'', Attr PKG_ANNOTATIONS, T_OBJECT, pkg_obj_p),
     (''arch'', Attr PKG_ARCH, T_STRING, pkg_string_p),
     (''categories'', Attr PKG_CATEGORIES, T_ARRAY, pkg_array_p),
     (''comment'', Attr PKG_COMMENT, T_STRING, pkg_string_p),
     (''conflicts'', List PKG_CONFLICTS, T_ARRAY, pkg_array_p),
     (''deps'', List PKG_DEPS, T_OBJECT, pkg_obj_p),
     (''desc'', Attr PKG_DESC, T_STRING, pkg_string_p),
     (''directories'', MDirectories, T_OBJECT, pkg_obj_p),
     (''dirs'', List PKG_DIRS, T_ARRAY, pkg_array_p),
     (''files'', List PKG_FILES, T_OBJECT, pkg_obj_p),
     (''flatsize'', Attr PKG_FLATSIZE, T_INT, pkg_int_p),
     (''groups'', List PKG_GROUPS, T_OBJECT, pkg_obj_p),
     (''groups'', List PKG_GROUPS, T_ARRAY, pkg_array_p),
     (''licenselogic'', Attr PKG_LICENSE_LOGIC, T_STRING, pkg_string_p),
     (''licenses'', Attr PKG_LICENSES, T_ARRAY, pkg_array_p),
     (''maintainer'', Attr PKG_MAINTAINER, T_STRING, pkg_string_p),
     (''message'', Attr PKG_MESSAGE, T_STRING, pkg_string_p),
     (''name'', Attr PKG_NAME, T_STRING, pkg_string_p),
     (''name'', Attr PKG_NAME, T_INT, pkg_string_p),
     (''options'', List PKG_OPTIONS, T_OBJECT, pkg_obj_p),
     (''option_defaults'', MOption_defaults, T_OBJECT, pkg_obj_p),
     (''option_descriptions'', MOption_descriptions, T_OBJECT, pkg_obj_p),
     (''origin'', Attr PKG_ORIGIN, T_STRING, pkg_string_p),
     (''path'', Attr PKG_REPOPATH, T_STRING, pkg_string_p),
     (''repopath'', Attr PKG_REPOPATH, T_STRING, pkg_string_p),
     (''pkgsize'', Attr PKG_PKGSIZE, T_INT, pkg_int_p),
     (''prefix'', Attr PKG_PREFIX, T_STRING, pkg_string_p),
     (''provides'', List PKG_PROVIDES, T_ARRAY, pkg_array_p),
     (''scripts'', MScripts, T_OBJECT, pkg_obj_p),
     (''shlibs'', List PKG_SHLIBS_REQUIRED, T_ARRAY, pkg_array_p),
     (''shlibs_provided'', List PKG_SHLIBS_PROVIDED, T_ARRAY, pkg_array_p),
     (''shlibs_required'', List PKG_SHLIBS_REQUIRED, T_ARRAY, pkg_array_p),
     (''sum'', Attr PKG_CKSUM, T_STRING, pkg_string_p),
     (''users'', List PKG_USERS, T_OBJECT, pkg_obj_p),
     (''users'', List PKG_USERS, T_ARRAY, pkg_array_p),
     (''version'', Attr PKG_VERSION, T_STRING, pkg_string_p),
     (''version'', Attr PKG_VERSION, T_INT, pkg_string_p),
     (''www'', Attr PKG_WWW, T_STRING, pkg_string_p)]"

record pkg_manifest_key =
  mk_type :: manifest_attr
  mk_parser :: "(ucl_type, parse_data) uthash"

definition add_manifest_key ::
  "(string, pkg_manifest_key) uthash \<Rightarrow> string \<times> manifest_attr \<times> ucl_type \<times> parse_data \<Rightarrow> (string, pkg_manifest_key) uthash" where
  "add_manifest_key keys entry =
     (case entry of (key, type, valid_type, parse) \<Rightarrow>
        let keys = (if hash_find key keys = None then hash_add key \<lparr>mk_type = type, mk_parser = []\<rparr> keys else keys)
        in hash_upd key (\<lambda>k. if hash_find valid_type (mk_parser k) \<noteq> None then k
             else k\<lparr>mk_parser := hash_add valid_type parse (mk_parser k)\<rparr>) keys)"

definition pkg_manifest_keys_new :: "(string, pkg_manifest_key) uthash" where
  "pkg_manifest_keys_new = foldl add_manifest_key [] manifest_keys"

section \<open>Encoding of texts\<close>

definition hex_digit :: "nat \<Rightarrow> char" where
  "hex_digit d = char_of (if d < 10 then 48 + d else 87 + d)"

definition hex2 :: "nat \<Rightarrow> string" where
  \<comment> \<open>\<open>%.2x\<close> of a byte\<close>
  "hex2 n = [hex_digit (n div 16), hex_digit (n mod 16)]"

definition url_char :: "char \<Rightarrow> string" where
  "url_char c = (if byte c \<ge> 128 \<or> c = CHR ''%'' then ''%'' @ hex2 (nat (byte c)) else [c])"

definition urlencode :: "string \<Rightarrow> string" where
  "urlencode src = concat (map url_char src)"

definition hex_value :: "char \<Rightarrow> int option" where
  "hex_value c = (if isdigit c then Some (byte c - 48)
     else if 97 \<le> byte c \<and> byte c \<le> 102 then Some (byte c - 87)
     else if 65 \<le> byte c \<and> byte c \<le> 70 then Some (byte c - 55) else None)"

definition strtol16 :: "string \<Rightarrow> int option" where
  \<comment> \<open>\<open>strtol (s, NULL, 16)\<close> of at most two characters, which leaves no room for a prefix \<open>0x\<close>; \<open>None\<close> is \<open>EINVAL\<close>\<close>
  "strtol16 s =
     (let s1 = dropWhile isspace s;
          neg = (take 1 s1 = ''-'');
          s2 = (if take 1 s1 = ''-'' \<or> take 1 s1 = ''+'' then tl s1 else s1);
          ds = takeWhile (\<lambda>c. hex_value c \<noteq> None) s2;
          n = foldl (\<lambda>n c. 16 * n + the (hex_value c)) 0 ds
      in if ds = [] then None else Some (if neg then - n else n))"

definition decoded :: "string \<Rightarrow> string" where
  "decoded hex = (case strtol16 hex of Some v \<Rightarrow> [char_of (nat (v mod 256))] | None \<Rightarrow> ''%'' @ hex)"

text \<open>
  The buffer is finished unless the text ends with a percent sign; then its content up to there is not terminated. A NUL that is decoded
  ends the string.
\<close>

fun urldecode_chars :: "string \<Rightarrow> epkg \<times> string" where
  "urldecode_chars [] = (EPKG_OK, [])"
| "urldecode_chars (c # s) =
     (if c \<noteq> CHR ''%'' then (let (rc, t) = urldecode_chars s in (rc, c # t))
      else case s of
        [] \<Rightarrow> (EPKG_FATAL, [])
      | [a] \<Rightarrow> (EPKG_OK, decoded [a])
      | a # b # r \<Rightarrow> (let (rc, t) = urldecode_chars r in (rc, decoded [a, b] @ t)))"

definition urldecode :: "string \<Rightarrow> epkg \<times> string" where
  "urldecode src = (let (rc, t) = urldecode_chars src in (rc, takeWhile (\<lambda>c. c \<noteq> CHR 0x00) t))"

definition decode_key :: "string \<Rightarrow> string run" where
  \<comment> \<open>the callers with \<open>sbuf_data\<close> use the buffer whatever \<open>urldecode\<close> returns\<close>
  "decode_key key = (case urldecode key of (rc, s) \<Rightarrow> if rc = EPKG_OK then Ret s else Crash)"

section \<open>Reading\<close>

text \<open>A parser that finds an error returns \<open>None\<close>; one that finds nothing, no object.\<close>

record manifest_env =
  me_developer_mode :: bool
  me_setmode :: "string \<Rightarrow> nat option"
  me_ucl_parse :: "string \<Rightarrow> ucl option option"
  me_yaml_to_ucl :: "string \<Rightarrow> ucl option"
  me_ucl_emit :: "bool \<Rightarrow> bool \<Rightarrow> ucl \<Rightarrow> string"
  me_sha256 :: "string \<Rightarrow> nat list"

definition script_type_str :: "string \<Rightarrow> pkg_script option" where
  "script_type_str str = map_of [(''pre-install'', PKG_SCRIPT_PRE_INSTALL), (''install'', PKG_SCRIPT_INSTALL),
     (''post-install'', PKG_SCRIPT_POST_INSTALL), (''pre-upgrade'', PKG_SCRIPT_PRE_UPGRADE), (''upgrade'', PKG_SCRIPT_UPGRADE),
     (''post-upgrade'', PKG_SCRIPT_POST_UPGRADE), (''pre-deinstall'', PKG_SCRIPT_PRE_DEINSTALL),
     (''deinstall'', PKG_SCRIPT_DEINSTALL), (''post-deinstall'', PKG_SCRIPT_POST_DEINSTALL)] str"

definition LICENSE_OR :: int where "LICENSE_OR = 124"

definition LICENSE_AND :: int where "LICENSE_AND = 38"

definition LICENSE_SINGLE :: int where "LICENSE_SINGLE = 1"

definition license_logic :: "string \<Rightarrow> int option" where
  "license_logic str =
     (if str = ''single'' then Some LICENSE_SINGLE
      else if str = ''or'' \<or> str = ''dual'' then Some LICENSE_OR
      else if str = ''and'' \<or> str = ''multi'' then Some LICENSE_AND else None)"

text \<open>The functions that add return a code that the loops below ignore.\<close>

definition ignore_code :: "(epkg \<times> struct_pkg) run \<Rightarrow> struct_pkg run" where
  "ignore_code m = run_bind m (\<lambda>(_, pkg). Ret pkg)"

definition pkg_string :: "struct_pkg \<Rightarrow> ucl \<Rightarrow> pkg_attr \<Rightarrow> (epkg \<times> struct_pkg) run" where
  "pkg_string pkg obj attr =
     (let str = ucl_object_tostring_forced obj
      in if attr = PKG_LICENSE_LOGIC then
           (case license_logic str of
              None \<Rightarrow> Ret (EPKG_FATAL, pkg)
            | Some l \<Rightarrow> run_bind (pkg_set pkg PKG_LICENSE_LOGIC (SetInt l)) (\<lambda>pkg. Ret (EPKG_OK, pkg)))
         else let str = (if attr = PKG_DESC then snd (urldecode str) else str)
              in run_bind (pkg_set pkg attr (SetStr (Some str))) (\<lambda>pkg. Ret (EPKG_OK, pkg)))"

definition pkg_int :: "struct_pkg \<Rightarrow> ucl \<Rightarrow> pkg_attr \<Rightarrow> (epkg \<times> struct_pkg) run" where
  "pkg_int pkg obj attr = run_bind (pkg_set pkg attr (SetInt (ucl_object_toint obj))) (\<lambda>pkg. Ret (EPKG_OK, pkg))"

definition head_of :: "ucl_node \<Rightarrow> ucl" where
  "head_of n = hd (snd n)"

text \<open>Who owns a file or directory and how it may be accessed.\<close>

record file_attrs =
  fa_sum :: "string option"
  fa_uname :: "string option"
  fa_gname :: "string option"
  fa_perm :: nat
  fa_try :: bool

definition no_attrs :: file_attrs where
  "no_attrs = \<lparr>fa_sum = None, fa_uname = None, fa_gname = None, fa_perm = 0, fa_try = False\<rparr>"

definition set_perm :: "manifest_env \<Rightarrow> string \<Rightarrow> file_attrs \<Rightarrow> file_attrs" where
  "set_perm e str a = (case me_setmode e str of None \<Rightarrow> a | Some perm \<Rightarrow> a\<lparr>fa_perm := perm\<rparr>)"

definition file_attr :: "manifest_env \<Rightarrow> file_attrs \<Rightarrow> ucl_node \<Rightarrow> file_attrs" where
  "file_attr e a n =
     (case n of
        (None, _) \<Rightarrow> a
      | (Some key, _) \<Rightarrow>
          (case head_of n of
             UCL_STRING s \<Rightarrow>
               if strcaseeq key ''uname'' then a\<lparr>fa_uname := Some s\<rparr>
               else if strcaseeq key ''gname'' then a\<lparr>fa_gname := Some s\<rparr>
               else if strcaseeq key ''sum'' \<and> length s = 64 then a\<lparr>fa_sum := Some s\<rparr>
               else if strcaseeq key ''perm'' then set_perm e s a else a
           | UCL_INT i \<Rightarrow> if strcaseeq key ''perm'' then set_perm e (show_int i) a else a
           | _ \<Rightarrow> a))"

definition dir_attr :: "manifest_env \<Rightarrow> file_attrs \<Rightarrow> ucl_node \<Rightarrow> file_attrs" where
  \<comment> \<open>\<open>ucl_object_toint\<close> of a boolean is 0\<close>
  "dir_attr e a n =
     (case n of
        (None, _) \<Rightarrow> a
      | (Some key, _) \<Rightarrow>
          (case head_of n of
             UCL_STRING s \<Rightarrow>
               if strcaseeq key ''uname'' then a\<lparr>fa_uname := Some s\<rparr>
               else if strcaseeq key ''gname'' then a\<lparr>fa_gname := Some s\<rparr>
               else if strcaseeq key ''perm'' then set_perm e s a else a
           | UCL_INT i \<Rightarrow> if strcaseeq key ''perm'' then set_perm e (show_int i) a else a
           | UCL_BOOLEAN b \<Rightarrow> if strcaseeq key ''try'' then a\<lparr>fa_try := (ucl_object_toint (UCL_BOOLEAN b) \<noteq> 0)\<rparr> else a
           | _ \<Rightarrow> a))"

definition pkg_set_files_from_object :: "manifest_env \<Rightarrow> struct_pkg \<Rightarrow> ucl_node \<Rightarrow> (epkg \<times> struct_pkg) run" where
  "pkg_set_files_from_object e pkg obj =
     (case fst obj of
        None \<Rightarrow> Ret (EPKG_FATAL, pkg)
      | Some okey \<Rightarrow>
          run_bind (decode_key okey) (\<lambda>fname.
            let a = foldl (file_attr e) no_attrs (ucl_iterate_object obj True)
            in run_bind (pkg_addfile_attr (me_developer_mode e) pkg fname (fa_sum a) (fa_uname a) (fa_gname a) (fa_perm a) False)
                 (\<lambda>(_, pkg). Ret (EPKG_OK, pkg))))"

definition pkg_set_dirs_from_object :: "manifest_env \<Rightarrow> struct_pkg \<Rightarrow> ucl_node \<Rightarrow> (epkg \<times> struct_pkg) run" where
  "pkg_set_dirs_from_object e pkg obj =
     (case fst obj of
        None \<Rightarrow> Ret (EPKG_FATAL, pkg)
      | Some okey \<Rightarrow>
          run_bind (decode_key okey) (\<lambda>dirname.
            let a = foldl (dir_attr e) no_attrs (ucl_iterate_object obj True)
            in run_bind (pkg_adddir_attr (me_developer_mode e) pkg dirname (fa_uname a) (fa_gname a) (fa_perm a) (fa_try a) False)
                 (\<lambda>(_, pkg). Ret (EPKG_OK, pkg))))"

text \<open>The origin and version of a dependency; they are kept from one object of a list to the next.\<close>

definition dep_attr :: "string option \<times> string option \<Rightarrow> ucl_node \<Rightarrow> string option \<times> string option" where
  "dep_attr st n =
     (case (st, n) of
        (_, None, _) \<Rightarrow> st
      | ((origin, version), Some key, _) \<Rightarrow>
          (case head_of n of
             UCL_STRING s \<Rightarrow> (if strcaseeq key ''origin'' then Some s else origin, if strcaseeq key ''version'' then Some s else version)
           | UCL_INT i \<Rightarrow> (origin, if strcaseeq key ''version'' then Some (show_int i) else version)
           | _ \<Rightarrow> st))"

definition add_dep_object ::
  "manifest_env \<Rightarrow> string \<Rightarrow> ucl_node \<Rightarrow> (string option \<times> string option) \<times> struct_pkg
    \<Rightarrow> ((string option \<times> string option) \<times> struct_pkg) run" where
  "add_dep_object e okey self st =
     (let (ov, pkg) = st; ov = foldl dep_attr ov (ucl_iterate_object self True)
      in case ov of
           (Some origin, Some version) \<Rightarrow>
             run_bind (ignore_code (pkg_adddep (me_developer_mode e) pkg okey origin version False)) (\<lambda>pkg. Ret (ov, pkg))
         | _ \<Rightarrow> Ret (ov, pkg))"

definition pkg_set_deps_from_object :: "manifest_env \<Rightarrow> struct_pkg \<Rightarrow> ucl_node \<Rightarrow> (epkg \<times> struct_pkg) run" where
  "pkg_set_deps_from_object e pkg obj =
     (case fst obj of
        None \<Rightarrow> Ret (EPKG_FATAL, pkg)
      | Some okey \<Rightarrow>
          run_bind (run_fold (add_dep_object e okey) (ucl_iterate_object obj (ucl_type_of (head_of obj) = T_ARRAY)) ((None, None), pkg))
            (\<lambda>(_, pkg). Ret (EPKG_OK, pkg)))"

definition obj_elem :: "manifest_env \<Rightarrow> manifest_attr \<Rightarrow> ucl_node \<Rightarrow> struct_pkg \<Rightarrow> struct_pkg run" where
  "obj_elem e attr cur pkg =
     (let dev = me_developer_mode e
      in case fst cur of
        None \<Rightarrow> Ret pkg
      | Some key \<Rightarrow>
          (case (attr, head_of cur) of
             (List PKG_DEPS, UCL_OBJECT _) \<Rightarrow> ignore_code (pkg_set_deps_from_object e pkg cur)
           | (List PKG_DEPS, UCL_ARRAY _) \<Rightarrow> ignore_code (pkg_set_deps_from_object e pkg cur)
           | (List PKG_DIRS, UCL_OBJECT _) \<Rightarrow> ignore_code (pkg_set_dirs_from_object e pkg cur)
           | (List PKG_USERS, UCL_STRING s) \<Rightarrow> ignore_code (pkg_adduid dev pkg key (Some s))
           | (List PKG_GROUPS, UCL_STRING s) \<Rightarrow> ignore_code (pkg_addgid dev pkg key (Some s))
           | (MDirectories, UCL_BOOLEAN b) \<Rightarrow> run_bind (decode_key key) (\<lambda>path. ignore_code (pkg_adddir dev pkg path b False))
           | (MDirectories, UCL_OBJECT _) \<Rightarrow> ignore_code (pkg_set_dirs_from_object e pkg cur)
           | (MDirectories, UCL_STRING s) \<Rightarrow>
               run_bind (decode_key key) (\<lambda>path. ignore_code (pkg_adddir dev pkg path (take 1 s = ''y'') False))
           | (List PKG_FILES, UCL_STRING s) \<Rightarrow>
               \<comment> \<open>\<open>sbuf_get\<close> finishes the buffer\<close>
               ignore_code (pkg_addfile dev pkg (snd (urldecode key)) (if length s = 64 then Some s else None) False)
           | (List PKG_FILES, UCL_OBJECT _) \<Rightarrow> ignore_code (pkg_set_files_from_object e pkg cur)
           | (List PKG_OPTIONS, UCL_STRING s) \<Rightarrow> ignore_code (pkg_addoption dev pkg key s)
           | (List PKG_OPTIONS, UCL_BOOLEAN b) \<Rightarrow> ignore_code (pkg_addoption dev pkg key (if b then ''on'' else ''off''))
           | (MOption_defaults, UCL_STRING s) \<Rightarrow> ignore_code (pkg_addoption_default dev pkg key s)
           | (MOption_descriptions, UCL_STRING s) \<Rightarrow> ignore_code (pkg_addoption_description dev pkg key s)
           | (MScripts, UCL_STRING s) \<Rightarrow>
               (case script_type_str key of
                  None \<Rightarrow> Ret pkg
                | Some type \<Rightarrow> run_bind (decode_key s) (\<lambda>data. Ret (snd (pkg_addscript pkg data type))))
           | (Attr PKG_ANNOTATIONS, UCL_STRING s) \<Rightarrow> ignore_code (pkg_addannotation pkg key s)
           | _ \<Rightarrow> Ret pkg))"

definition pkg_obj :: "manifest_env \<Rightarrow> struct_pkg \<Rightarrow> ucl_node \<Rightarrow> manifest_attr \<Rightarrow> (epkg \<times> struct_pkg) run" where
  "pkg_obj e pkg obj attr =
     run_bind (run_fold (obj_elem e attr) (ucl_iterate_object obj True) pkg) (\<lambda>pkg. Ret (EPKG_OK, pkg))"

definition array_elem :: "manifest_env \<Rightarrow> manifest_attr \<Rightarrow> ucl_node \<Rightarrow> struct_pkg \<Rightarrow> struct_pkg run" where
  "array_elem e attr cur pkg =
     (let dev = me_developer_mode e
      in case (attr, head_of cur) of
           (Attr PKG_CATEGORIES, UCL_STRING s) \<Rightarrow> ignore_code (pkg_addcategory dev pkg s)
         | (Attr PKG_LICENSES, UCL_STRING s) \<Rightarrow> ignore_code (pkg_addlicense dev pkg s)
         | (List PKG_USERS, UCL_STRING s) \<Rightarrow> ignore_code (pkg_adduser dev pkg s)
         | (List PKG_USERS, UCL_OBJECT _) \<Rightarrow> ignore_code (pkg_obj e pkg cur attr)
         | (List PKG_GROUPS, UCL_STRING s) \<Rightarrow> ignore_code (pkg_addgroup dev pkg s)
         | (List PKG_GROUPS, UCL_OBJECT _) \<Rightarrow> ignore_code (pkg_obj e pkg cur attr)
         | (List PKG_DIRS, UCL_STRING s) \<Rightarrow> ignore_code (pkg_adddir dev pkg s True False)
         | (List PKG_DIRS, UCL_OBJECT _) \<Rightarrow> ignore_code (pkg_obj e pkg cur attr)
         | (List PKG_SHLIBS_REQUIRED, UCL_STRING s) \<Rightarrow> ignore_code (pkg_addshlib_required pkg s)
         | (List PKG_SHLIBS_PROVIDED, UCL_STRING s) \<Rightarrow> ignore_code (pkg_addshlib_provided pkg s)
         | (List PKG_CONFLICTS, UCL_STRING s) \<Rightarrow> ignore_code (pkg_addconflict pkg s)
         | (List PKG_PROVIDES, UCL_STRING s) \<Rightarrow> ignore_code (pkg_addprovide pkg s)
         | _ \<Rightarrow> Ret pkg)"

definition pkg_array :: "manifest_env \<Rightarrow> struct_pkg \<Rightarrow> ucl_node \<Rightarrow> manifest_attr \<Rightarrow> (epkg \<times> struct_pkg) run" where
  "pkg_array e pkg obj attr =
     run_bind (run_fold (array_elem e attr) (ucl_iterate_object obj True) pkg) (\<lambda>pkg. Ret (EPKG_OK, pkg))"

definition run_parse_data ::
  "manifest_env \<Rightarrow> parse_data \<Rightarrow> struct_pkg \<Rightarrow> ucl_node \<Rightarrow> manifest_attr \<Rightarrow> (epkg \<times> struct_pkg) run" where
  \<comment> \<open>\<open>dp->parse_data (pkg, cur, type)\<close>; a text or a number is an attribute\<close>
  "run_parse_data e p pkg cur type =
     (case p of
        pkg_obj_p \<Rightarrow> pkg_obj e pkg cur type
      | pkg_array_p \<Rightarrow> pkg_array e pkg cur type
      | pkg_string_p \<Rightarrow> (case type of Attr attr \<Rightarrow> pkg_string pkg (head_of cur) attr | _ \<Rightarrow> Crash)
      | pkg_int_p \<Rightarrow> (case type of Attr attr \<Rightarrow> pkg_int pkg (head_of cur) attr | _ \<Rightarrow> Crash))"

definition manifest_elem ::
  "manifest_env \<Rightarrow> (string, pkg_manifest_key) uthash \<Rightarrow> ucl_node \<Rightarrow> struct_pkg \<Rightarrow> struct_pkg run" where
  "manifest_elem e keys cur pkg =
     (case Option.bind (fst cur) (\<lambda>key. hash_find key keys) of
        None \<Rightarrow> Ret pkg
      | Some selected_key \<Rightarrow>
          (case hash_find (ucl_type_of (head_of cur)) (mk_parser selected_key) of
             None \<Rightarrow> Ret pkg
           | Some dp \<Rightarrow> ignore_code (run_parse_data e dp pkg cur (mk_type selected_key))))"

definition parse_manifest ::
  "manifest_env \<Rightarrow> struct_pkg \<Rightarrow> (string, pkg_manifest_key) uthash \<Rightarrow> ucl option \<Rightarrow> (epkg \<times> struct_pkg) run" where
  "parse_manifest e pkg keys obj =
     run_bind (run_fold (manifest_elem e keys) (case obj of None \<Rightarrow> [] | Some obj \<Rightarrow> ucl_iterate_object (None, [obj]) True) pkg)
       (\<lambda>pkg. Ret (EPKG_OK, pkg))"

text \<open>A known key with a value of a type that no parser takes sends the whole text to the YAML parser.\<close>

definition type_unknown :: "(string, pkg_manifest_key) uthash \<Rightarrow> ucl_node \<Rightarrow> bool" where
  "type_unknown keys cur \<longleftrightarrow>
     (case Option.bind (fst cur) (\<lambda>key. hash_find key keys) of
        None \<Rightarrow> False | Some sk \<Rightarrow> hash_find (ucl_type_of (head_of cur)) (mk_parser sk) = None)"

definition manifest_object ::
  "(string, pkg_manifest_key) uthash \<Rightarrow> ucl option \<Rightarrow> ucl option \<Rightarrow> ucl option" where
  "manifest_object keys obj yaml =
     (case obj of
        None \<Rightarrow> yaml
      | Some o1 \<Rightarrow> if \<exists>cur \<in> set (ucl_iterate_object (None, [o1]) True). type_unknown keys cur then yaml else obj)"

definition pkg_parse_manifest ::
  "manifest_env \<Rightarrow> struct_pkg \<Rightarrow> string \<Rightarrow> (string, pkg_manifest_key) uthash \<Rightarrow> (epkg \<times> struct_pkg) run" where
  "pkg_parse_manifest e pkg buf keys =
     (case manifest_object keys (Option.bind (me_ucl_parse e buf) (\<lambda>obj. obj)) (me_yaml_to_ucl e buf) of
        None \<Rightarrow> Ret (EPKG_FATAL, pkg)
      | Some obj \<Rightarrow> parse_manifest e pkg keys (Some obj))"

definition pkg_parse_manifest_fileat ::
  "manifest_env \<Rightarrow> (string \<Rightarrow> string option) \<Rightarrow> struct_pkg \<Rightarrow> string \<Rightarrow> (string, pkg_manifest_key) uthash \<Rightarrow> (epkg \<times> struct_pkg) run" where
  \<comment> \<open>no YAML here\<close>
  "pkg_parse_manifest_fileat e file_to_buffer pkg file keys =
     (case file_to_buffer file of
        None \<Rightarrow> Ret (EPKG_FATAL, pkg)
      | Some data \<Rightarrow>
          (case me_ucl_parse e data of
             None \<Rightarrow> Ret (EPKG_FATAL, pkg)
           | Some obj \<Rightarrow> parse_manifest e pkg keys obj))"

definition pkg_parse_manifest_file ::
  "manifest_env \<Rightarrow> (string \<Rightarrow> string option) \<Rightarrow> struct_pkg \<Rightarrow> string \<Rightarrow> (string, pkg_manifest_key) uthash \<Rightarrow> (epkg \<times> struct_pkg) run" where
  \<comment> \<open>a file that is there can be read\<close>
  "pkg_parse_manifest_file e file_to_buffer pkg file keys =
     (case file_to_buffer file of
        None \<Rightarrow> Ret (EPKG_FATAL, pkg)
      | Some data \<Rightarrow> pkg_parse_manifest e pkg data keys)"

section \<open>Writing\<close>

text \<open>An object of keys and values, and one that is only made when there is an element.\<close>

definition ucl_of_entries :: "(string \<times> ucl) list \<Rightarrow> ucl_object" where
  "ucl_of_entries kvs = foldl (\<lambda>m (k, v). ucl_object_insert_key k v m) [] kvs"

definition ucl_map :: "(string \<times> ucl) list \<Rightarrow> ucl option" where
  "ucl_map kvs = (if kvs = [] then None else Some (UCL_OBJECT (ucl_of_entries kvs)))"

definition ucl_seq :: "string list \<Rightarrow> ucl option" where
  "ucl_seq names = (if names = [] then None else Some (UCL_ARRAY (map UCL_STRING names)))"

definition recopies :: "pkg_attr list" where
  "recopies = [PKG_NAME, PKG_ORIGIN, PKG_VERSION, PKG_ARCH, PKG_MAINTAINER, PKG_PREFIX, PKG_WWW, PKG_CKSUM, PKG_FLATSIZE]"

definition logic_name :: "int \<Rightarrow> string option" where
  "logic_name l = (if l = LICENSE_SINGLE then Some ''single'' else if l = LICENSE_AND then Some ''and''
     else if l = LICENSE_OR then Some ''or'' else None)"

definition emit_deps :: "struct_pkg \<Rightarrow> ucl option" where
  "emit_deps pkg = ucl_map (map (\<lambda>(_, dep). (dep_name dep,
     UCL_OBJECT (ucl_of_entries [(''origin'', UCL_STRING (dep_origin dep)), (''version'', UCL_STRING (dep_version dep))]))) (pk_deps pkg))"

definition emit_options :: "struct_pkg \<Rightarrow> ucl option" where
  "emit_options pkg = ucl_map (map (\<lambda>(_, opt). (so_key opt, UCL_STRING (opt_string (so_value opt)))) (pk_options pkg))"

definition internal_annotation :: "string \<Rightarrow> bool" where
  "internal_annotation key \<longleftrightarrow> key = ''repository'' \<or> key = ''relocated''"

definition emit_annotations :: "struct_pkg \<Rightarrow> ucl option" where
  "emit_annotations pkg = map_option (\<lambda>annotations.
     UCL_OBJECT (ucl_of_entries (concat (map (\<lambda>n. case fst n of
         None \<Rightarrow> [] | Some key \<Rightarrow> if internal_annotation key then [] else [(key, head_of n)])
       (ucl_iterate_object (None, [annotations]) True)))))
     (pkg_get pkg PKG_ANNOTATIONS)"

definition file_sum :: "struct_file \<Rightarrow> string" where
  "file_sum file = (if sf_sum file = [] then ''-'' else sf_sum file)"

definition emit_files :: "struct_pkg \<Rightarrow> ucl option" where
  "emit_files pkg = ucl_map (map (\<lambda>(_, file). (urlencode (sf_path file), UCL_STRING (file_sum file))) (pk_files pkg))"

definition emit_directories :: "struct_pkg \<Rightarrow> ucl option" where
  "emit_directories pkg = ucl_map (map (\<lambda>(_, dir). (urlencode (sd_path dir), UCL_STRING (if sd_try dir then ''y'' else ''n''))) (pk_dirs pkg))"

definition script_name :: "pkg_script \<Rightarrow> string" where
  "script_name i = (case i of
     PKG_SCRIPT_PRE_INSTALL \<Rightarrow> ''pre-install'' | PKG_SCRIPT_INSTALL \<Rightarrow> ''install'' | PKG_SCRIPT_POST_INSTALL \<Rightarrow> ''post-install''
   | PKG_SCRIPT_PRE_UPGRADE \<Rightarrow> ''pre-upgrade'' | PKG_SCRIPT_UPGRADE \<Rightarrow> ''upgrade'' | PKG_SCRIPT_POST_UPGRADE \<Rightarrow> ''post-upgrade''
   | PKG_SCRIPT_PRE_DEINSTALL \<Rightarrow> ''pre-deinstall'' | PKG_SCRIPT_DEINSTALL \<Rightarrow> ''deinstall''
   | PKG_SCRIPT_POST_DEINSTALL \<Rightarrow> ''post-deinstall'')"

definition emit_scripts :: "struct_pkg \<Rightarrow> ucl option" where
  "emit_scripts pkg = ucl_map (concat (map (\<lambda>i. case pkg_script_get pkg i of
     None \<Rightarrow> [] | Some s \<Rightarrow> [(script_name i, UCL_STRING (ucl_trim (urlencode s)))]) all_scripts))"

definition emit_text :: "string \<Rightarrow> ucl" where
  "emit_text s = UCL_STRING (ucl_trim (urlencode s))"

text \<open>What is written, in order; \<open>None\<close> is left out.\<close>

definition manifest_entries :: "struct_pkg \<Rightarrow> bool \<Rightarrow> bool \<Rightarrow> (string \<times> ucl option) list" where
  "manifest_entries pkg compact nofiles =
     map (\<lambda>attr. (key_name attr, pkg_get pkg attr)) recopies
     @ [(''comment'', map_option (\<lambda>s. UCL_STRING (ucl_trim s)) (pkg_get_string pkg PKG_COMMENT)),
        (''path'', map_option UCL_STRING (pkg_get_string pkg PKG_REPOPATH)),
        (''repopath'', map_option UCL_STRING (pkg_get_string pkg PKG_REPOPATH)),
        (''licenselogic'', map_option UCL_STRING (logic_name (pkg_get_int pkg PKG_LICENSE_LOGIC))),
        (''licenses'', pkg_get pkg PKG_LICENSES),
        (''pkgsize'', if pkg_get_int pkg PKG_PKGSIZE > 0 then Some (UCL_INT (pkg_get_int pkg PKG_PKGSIZE)) else None),
        (''desc'', map_option emit_text (pkg_get_string pkg PKG_DESC)),
        (''deps'', emit_deps pkg),
        (''categories'', pkg_get pkg PKG_CATEGORIES),
        (''users'', ucl_seq (map (\<lambda>(_, u). su_name u) (pk_users pkg))),
        (''groups'', ucl_seq (map (\<lambda>(_, g). sg_name g) (pk_groups pkg))),
        (''shlibs_required'', ucl_seq (pk_shlibs_required pkg)),
        (''shlibs_provided'', ucl_seq (pk_shlibs_provided pkg)),
        (''options'', emit_options pkg),
        (''annotations'', emit_annotations pkg),
        (''files'', if compact \<or> nofiles then None else emit_files pkg),
        (''directories'', if compact \<or> nofiles then None else emit_directories pkg),
        (''scripts'', if compact then None else emit_scripts pkg),
        (''message'', case pkg_get_string pkg PKG_MESSAGE of None \<Rightarrow> None | Some s \<Rightarrow> if s = [] then None else Some (emit_text s))]"

definition insert_some :: "ucl_object \<Rightarrow> string \<times> ucl option \<Rightarrow> ucl_object" where
  "insert_some obj entry = (case snd entry of None \<Rightarrow> obj | Some v \<Rightarrow> ucl_object_insert_key (fst entry) v obj)"

text \<open>The loops over the conflicts and the provides read the value of an option that is \<open>NULL\<close> there: an assertion fails.\<close>

definition pkg_emit_object :: "struct_pkg \<Rightarrow> bool \<Rightarrow> bool \<Rightarrow> ucl run" where
  "pkg_emit_object pkg compact nofiles =
     (if pk_conflicts pkg \<noteq> [] \<or> pk_provides pkg \<noteq> [] then Crash
      else Ret (UCL_OBJECT (foldl insert_some [] (manifest_entries pkg compact nofiles))))"

definition emit_manifest :: "manifest_env \<Rightarrow> struct_pkg \<Rightarrow> bool \<Rightarrow> bool \<Rightarrow> bool \<Rightarrow> bool \<Rightarrow> string run" where
  "emit_manifest e pkg compact nofiles pretty json = run_bind (pkg_emit_object pkg compact nofiles) (\<lambda>obj. Ret (me_ucl_emit e pretty json obj))"

definition pkg_emit_manifest_digest :: "nat list \<Rightarrow> string" where
  "pkg_emit_manifest_digest digest = concat (map hex2 digest)"

text \<open>\<open>pkg_emit_manifest_generic\<close>: the text and its digest; a file gets a newline behind the text.\<close>

definition pkg_emit_manifest_generic ::
  "manifest_env \<Rightarrow> struct_pkg \<Rightarrow> bool \<Rightarrow> bool \<Rightarrow> bool \<Rightarrow> bool \<Rightarrow> bool \<Rightarrow> (string \<times> string) run" where
  "pkg_emit_manifest_generic e pkg compact nofiles pretty json out_is_a_sbuf =
     run_bind (emit_manifest e pkg compact nofiles pretty json) (\<lambda>output.
       Ret (if out_is_a_sbuf then output else output @ [CHR 0x0A], pkg_emit_manifest_digest (me_sha256 e output)))"

definition pkg_emit_filelist :: "struct_pkg \<Rightarrow> ucl" where
  \<comment> \<open>a string that is \<open>NULL\<close> is not inserted\<close>
  "pkg_emit_filelist pkg = UCL_OBJECT (foldl insert_some []
     [(''origin'', map_option UCL_STRING (pkg_get_string pkg PKG_ORIGIN)), (''name'', map_option UCL_STRING (pkg_get_string pkg PKG_NAME)),
      (''version'', map_option UCL_STRING (pkg_get_string pkg PKG_VERSION)),
      (''files'', ucl_seq (map (\<lambda>(_, file). urlencode (sf_path file)) (pk_files pkg)))])"

section \<open>The encoding can be undone\<close>

lemma hex_digit_facts:
  assumes "d < 16"
  shows "hex_value (hex_digit d) = Some (int d)" "\<not> isspace (hex_digit d)" "hex_digit d \<notin> {CHR ''-'', CHR ''+''}"
    "\<not> ucl_whitespace (hex_digit d)"
proof -
  have b: "byte (hex_digit d) = (if d < 10 then 48 + int d else 87 + int d)"
    using assms by (simp add: hex_digit_def byte_of_nat)
  show "hex_value (hex_digit d) = Some (int d)" using b assms by (auto simp: hex_value_def isdigit_def)
  show "\<not> isspace (hex_digit d)" using b by (auto simp: isspace_def)
  show "\<not> ucl_whitespace (hex_digit d)" using b by (auto simp: ucl_whitespace_def)
  have "byte (hex_digit d) \<noteq> byte CHR ''-''" "byte (hex_digit d) \<noteq> byte CHR ''+''" using b by (auto simp: byte_def [of "CHR ''-''"] byte_def [of "CHR ''+''"])
  then show "hex_digit d \<notin> {CHR ''-'', CHR ''+''}" by auto
qed

lemma strtol16_hex2: "n < 256 \<Longrightarrow> strtol16 (hex2 n) = Some (int n)"
proof -
  assume n: "n < 256"
  have d: "n div 16 < 16" "n mod 16 < 16" using n by linarith+
  have "int n = int (16 * (n div 16) + n mod 16)" by simp
  then have "int n = 16 * int (n div 16) + int (n mod 16)" unfolding of_nat_add of_nat_mult by simp
  then show ?thesis using hex_digit_facts [OF d(1)] hex_digit_facts [OF d(2)] by (simp add: strtol16_def hex2_def)
qed

lemma decoded_hex2: "decoded (hex2 (nat (byte c))) = [c]"
proof -
  have "nat (byte c) < 256" using byte_less_256 [of c] byte_nonneg [of c] by linarith
  then have "strtol16 (hex2 (nat (byte c))) = Some (int (nat (byte c)))" by (rule strtol16_hex2)
  then have "strtol16 (hex2 (nat (byte c))) = Some (byte c)" by simp
  then show ?thesis using byte_less_256 [of c] byte_nonneg [of c] by (simp add: decoded_def byte_of_nat)
qed

lemma urldecode_encode: "urldecode_chars (urlencode s) = (EPKG_OK, s)"
proof (induction s)
  case (Cons c s)
  have "urldecode_chars (url_char c @ t) = (case urldecode_chars t of (rc, r) \<Rightarrow> (rc, c # r))" for t
  proof (cases "byte c \<ge> 128 \<or> c = CHR ''%''")
    case True
    then show ?thesis using decoded_hex2 [of c] by (simp add: url_char_def hex2_def)
  next
    case False
    then show ?thesis by (simp add: url_char_def)
  qed
  then show ?case using Cons by (simp add: urlencode_def)
qed (simp add: urlencode_def)

definition c_string :: "string \<Rightarrow> bool" where
  "c_string s \<longleftrightarrow> CHR 0x00 \<notin> set s"

lemma c_string_takeWhile: "c_string s \<Longrightarrow> takeWhile (\<lambda>c. c \<noteq> CHR 0x00) s = s"
  by (induction s) (auto simp: c_string_def)

lemma urldecode_urlencode: "c_string s \<Longrightarrow> urldecode (urlencode s) = (EPKG_OK, s)"
  by (simp add: urldecode_def urldecode_encode c_string_takeWhile)

lemma decode_urlencode: "c_string s \<Longrightarrow> decode_key (urlencode s) = Ret s"
  by (simp add: decode_key_def urldecode_urlencode)

lemma urlencode_inject: "urlencode s = urlencode t \<longleftrightarrow> s = t"
  by (metis snd_conv urldecode_encode)

lemma url_char_white: "ucl_whitespace c \<Longrightarrow> url_char c = [c]"
  by (auto simp: ucl_whitespace_def url_char_def byte_def)

lemma url_char_black: "\<not> ucl_whitespace c \<Longrightarrow> url_char c \<noteq> [] \<and> \<not> ucl_whitespace (hd (url_char c)) \<and> \<not> ucl_whitespace (last (url_char c))"
proof -
  assume c: "\<not> ucl_whitespace c"
  have "\<not> ucl_whitespace CHR ''%''" by code_simp
  then show ?thesis using c hex_digit_facts(4) [of "nat (byte c) mod 16"] by (simp add: url_char_def hex2_def)
qed

lemma dropWhile_concat:
  assumes "\<And>c. P c \<Longrightarrow> f c = [c]" "\<And>c. \<not> P c \<Longrightarrow> f c \<noteq> [] \<and> \<not> P (hd (f c))"
  shows "dropWhile P (concat (map f s)) = concat (map f (dropWhile P s))"
proof (induction s)
  case (Cons c s)
  then show ?case using assms(1) [of c] assms(2) [of c] by (cases "P c"; cases "f c") auto
qed simp

lemma urlencode_rev: "rev (urlencode s) = concat (map (\<lambda>c. rev (url_char c)) (rev s))"
  by (induction s) (simp_all add: urlencode_def)

lemma urlencode_trim: "ucl_trim (urlencode s) = urlencode (ucl_trim s)"
proof -
  have d: "dropWhile ucl_whitespace (urlencode s) = urlencode (dropWhile ucl_whitespace s)" for s
    unfolding urlencode_def by (rule dropWhile_concat) (simp_all add: url_char_white url_char_black)
  have r: "dropWhile ucl_whitespace (rev (urlencode s)) = rev (urlencode (rev (dropWhile ucl_whitespace (rev s))))" for s
    unfolding urlencode_rev rev_rev_ident
    by (rule dropWhile_concat) (simp_all add: url_char_white url_char_black hd_rev)
  show ?thesis by (simp add: ucl_trim_def d r)
qed

lemma c_string_trim: "c_string s \<Longrightarrow> c_string (ucl_trim s)"
  by (auto simp: c_string_def ucl_trim_def dest!: set_dropWhileD)

section \<open>Objects of distinct keys\<close>

lemma insert_absent: "hash_find k h = None \<Longrightarrow> ucl_object_insert_key k v h = h @ [(k, [v])]"
  by (simp add: ucl_object_insert_key_def hash_add_def)

lemma foldl_insert_distinct:
  assumes "distinct (map fst kvs)" "\<forall>k \<in> fst ` set kvs. hash_find k h = None"
  shows "foldl (\<lambda>m (k, v). ucl_object_insert_key k v m) h kvs = h @ map (\<lambda>(k, v). (k, [v])) kvs"
  using assms
proof (induction kvs arbitrary: h)
  case (Cons e kvs)
  obtain k v where e: "e = (k, v)" by fastforce
  have n: "hash_find k h = None" using Cons.prems e by simp
  have "\<forall>k' \<in> fst ` set kvs. hash_find k' (h @ [(k, [v])]) = None"
    using Cons.prems e by (auto simp: hash_find_def map_add_def)
  then show ?case using Cons.IH [of "h @ [(k, [v])]"] Cons.prems e n by (simp add: insert_absent)
qed simp

lemma ucl_of_entries_distinct: "distinct (map fst kvs) \<Longrightarrow> ucl_of_entries kvs = map (\<lambda>(k, v). (k, [v])) kvs"
  using foldl_insert_distinct [of kvs "[]"] by (simp add: ucl_of_entries_def hash_find_def)

definition present :: "(string \<times> ucl option) list \<Rightarrow> (string \<times> ucl) list" where
  "present entries = concat (map (\<lambda>(k, v). case v of None \<Rightarrow> [] | Some v \<Rightarrow> [(k, v)]) entries)"

lemma insert_some_present: "foldl insert_some h entries = foldl (\<lambda>m (k, v). ucl_object_insert_key k v m) h (present entries)"
  by (induction entries arbitrary: h) (auto simp: present_def insert_some_def split: option.splits)

lemma present_keys: "set (map fst (present entries)) \<subseteq> set (map fst entries)"
  by (force simp: present_def split: option.splits)

lemma present_distinct: "distinct (map fst entries) \<Longrightarrow> distinct (map fst (present entries))"
proof (induction entries)
  case (Cons e entries)
  obtain k v where e: "e = (k, v)" by fastforce
  have "k \<notin> set (map fst (present entries))" using Cons.prems e present_keys [of entries] by auto
  then show ?case using Cons e by (cases v) (simp_all add: present_def)
qed (simp add: present_def)

lemma manifest_keys_distinct: "distinct (map fst (manifest_entries pkg compact nofiles))"
  by (simp add: manifest_entries_def recopies_def key_name_def pkg_keys_def)

section \<open>What is read back\<close>

abbreviation manifest_table :: "(string, pkg_manifest_key) uthash" where
  "manifest_table \<equiv> pkg_manifest_keys_new"

lemma manifest_table_keys:
  "\<forall>(key, type, t, p) \<in> set manifest_keys. map_option (\<lambda>k. (mk_type k, hash_find t (mk_parser k))) (hash_find key manifest_table) = Some (type, Some p)"
  by code_simp

lemma read_known:
  assumes "(key, type, ucl_type_of v, p) \<in> set manifest_keys"
  shows "manifest_elem e manifest_table (Some key, v # c) pkg = ignore_code (run_parse_data e p pkg (Some key, v # c) type)"
    "\<not> type_unknown manifest_table (Some key, v # c)"
proof -
  have "map_option (\<lambda>k. (mk_type k, hash_find (ucl_type_of v) (mk_parser k))) (hash_find key manifest_table) = Some (type, Some p)"
    using bspec [OF manifest_table_keys assms] by simp
  then show "manifest_elem e manifest_table (Some key, v # c) pkg = ignore_code (run_parse_data e p pkg (Some key, v # c) type)"
    "\<not> type_unknown manifest_table (Some key, v # c)"
    by (auto simp: manifest_elem_def type_unknown_def head_of_def)
qed

definition read_entry :: "manifest_env \<Rightarrow> string \<times> ucl option \<Rightarrow> struct_pkg \<Rightarrow> struct_pkg run" where
  "read_entry e entry pkg = (case snd entry of None \<Rightarrow> Ret pkg | Some v \<Rightarrow> manifest_elem e manifest_table (Some (fst entry), [v]) pkg)"

lemma read_entry_simps:
  "read_entry e (k, None) pkg = Ret pkg"
  "read_entry e (k, Some v) pkg = manifest_elem e manifest_table (Some k, [v]) pkg"
  by (simp_all add: read_entry_def)

lemma read_entries:
  "run_fold (manifest_elem e manifest_table) (map (\<lambda>(k, v). (Some k, [v])) (present entries)) pkg = run_fold (read_entry e) entries pkg"
proof (induction entries arbitrary: pkg)
  case (Cons en entries)
  have ih: "run_fold (manifest_elem e manifest_table) (map (\<lambda>(k, v). (Some k, [v])) (present entries)) = run_fold (read_entry e) entries"
    by (rule ext) (rule Cons.IH)
  obtain k v where en: "en = (k, v)" by fastforce
  have "present (en # entries) = (case v of None \<Rightarrow> [] | Some v \<Rightarrow> [(k, v)]) @ present entries" by (simp add: present_def en)
  then show ?case using ih by (cases v) (simp_all add: en read_entry_simps)
qed (simp add: present_def)

lemma run_fold_append: "run_fold f (xs @ ys) s = run_bind (run_fold f xs s) (run_fold f ys)"
proof (induction xs arbitrary: s)
  case (Cons x xs)
  then show ?case by (cases "f x s") simp_all
qed simp

subsection \<open>Attributes\<close>

definition opt_field :: "pkg_attr \<Rightarrow> ucl option \<Rightarrow> struct_pkg \<Rightarrow> struct_pkg" where
  "opt_field attr v pkg = (case v of None \<Rightarrow> pkg | Some v \<Rightarrow> set_field attr v pkg)"

definition all_attrs :: "pkg_attr list" where
  "all_attrs = map fst pkg_keys"

lemma all_attrs: "a \<in> set all_attrs"
  by (cases a) (simp_all add: all_attrs_def pkg_keys_def)

lemma key_names_distinct: "distinct (map key_name all_attrs)"
  by code_simp

lemma key_name_inject: "key_name a = key_name b \<longleftrightarrow> a = b"
  using key_names_distinct all_attrs [of a] all_attrs [of b] by (auto simp: distinct_map dest: inj_onD)

lemma pkg_get_set_field: "pkg_get (set_field a v pkg) b = (if a = b then Some v else pkg_get pkg b)"
  by (auto simp: pkg_get_def set_field_def ucl_object_find_key_def ucl_object_replace_key_def key_name_inject
    uh.find_add_same uh.find_add_other uh.find_del_same uh.find_del_other)

lemma pkg_get_opt_field: "pkg_get (opt_field a v pkg) b = (if a = b \<and> v \<noteq> None then v else pkg_get pkg b)"
  by (cases v) (auto simp: opt_field_def pkg_get_set_field)

lemma hash_upd_replace: "hash_upd k f (ucl_object_replace_key k v h) = hash_add k (f [v]) (hash_del k h)"
  by (induction h) (auto simp: ucl_object_replace_key_def hash_upd_def hash_add_def hash_del_def)

lemma upd_set_field:
  "(set_field a v pkg)\<lparr>pk_fields := hash_upd (key_name a) (\<lambda>c. w # tl c) (pk_fields (set_field a v pkg))\<rparr> = set_field a w pkg"
  by (simp add: set_field_def hash_upd_replace) (simp add: ucl_object_replace_key_def)

lemma read_string:
  assumes "(key, Attr attr, T_STRING, pkg_string_p) \<in> set manifest_keys" "attr \<notin> {PKG_LICENSE_LOGIC, PKG_DESC, PKG_MTREE}" "key_type attr = T_STRING"
    and "\<forall>v. o1 = Some v \<longrightarrow> ucl_type_of v = T_STRING"
  shows "read_entry e (key, o1) pkg = Ret (opt_field attr o1 pkg)"
proof (cases o1)
  case (Some v)
  then obtain s where v: "v = UCL_STRING s" using assms(4) by (cases v) auto
  have k: "(key, Attr attr, ucl_type_of v, pkg_string_p) \<in> set manifest_keys" using assms(1) v by simp
  show ?thesis using assms(2,3) Some v read_known(1) [OF k, of e "[]" pkg]
    by (simp add: read_entry_def ignore_code_def run_parse_data_def pkg_string_def head_of_def pkg_set_def opt_field_def ucl_object_tostring_forced_def)
qed (simp add: read_entry_def opt_field_def)

lemma read_int:
  assumes "(key, Attr attr, T_INT, pkg_int_p) \<in> set manifest_keys" "key_type attr = T_INT"
    and "\<forall>v. o1 = Some v \<longrightarrow> ucl_type_of v = T_INT"
  shows "read_entry e (key, o1) pkg = Ret (opt_field attr o1 pkg)"
proof (cases o1)
  case (Some v)
  then obtain n where v: "v = UCL_INT n" using assms(3) by (cases v) auto
  have k: "(key, Attr attr, ucl_type_of v, pkg_int_p) \<in> set manifest_keys" using assms(1) v by simp
  show ?thesis using assms(2) Some v read_known(1) [OF k, of e "[]" pkg]
    by (simp add: read_entry_def ignore_code_def run_parse_data_def pkg_int_def head_of_def pkg_set_def opt_field_def ucl_object_toint_def)
qed (simp add: read_entry_def opt_field_def)

lemma read_desc:
  assumes "\<forall>s. o1 = Some s \<longrightarrow> c_string s"
  shows "read_entry e (''desc'', map_option emit_text o1) pkg = Ret (opt_field PKG_DESC (map_option (\<lambda>s. UCL_STRING (ucl_trim s)) o1) pkg)"
proof (cases o1)
  case (Some s)
  have k: "(''desc'', Attr PKG_DESC, ucl_type_of (emit_text s), pkg_string_p) \<in> set manifest_keys" by (simp add: manifest_keys_def emit_text_def)
  have "c_string (ucl_trim s)" using assms Some c_string_trim by simp
  then show ?thesis using Some read_known(1) [OF k, of e "[]" pkg]
    by (simp add: read_entry_def ignore_code_def run_parse_data_def pkg_string_def head_of_def pkg_set_def opt_field_def
      ucl_object_tostring_forced_def emit_text_def urlencode_trim urldecode_urlencode key_type_def pkg_keys_def)
qed (simp add: read_entry_def opt_field_def)

lemma read_logic:
  "read_entry e (''licenselogic'', map_option UCL_STRING (logic_name l)) pkg =
     Ret (opt_field PKG_LICENSE_LOGIC (if l \<in> {LICENSE_SINGLE, LICENSE_AND, LICENSE_OR} then Some (UCL_INT l) else None) pkg)"
proof (cases "logic_name l")
  case (Some s)
  have k: "(''licenselogic'', Attr PKG_LICENSE_LOGIC, ucl_type_of (UCL_STRING s), pkg_string_p) \<in> set manifest_keys" by (simp add: manifest_keys_def)
  have l: "license_logic s = Some l" "l \<in> {LICENSE_SINGLE, LICENSE_AND, LICENSE_OR}"
    using Some by (auto simp: logic_name_def license_logic_def split: if_splits)
  then show ?thesis using Some read_known(1) [OF k, of e "[]" pkg]
    by (simp add: read_entry_def ignore_code_def run_parse_data_def pkg_string_def head_of_def pkg_set_def opt_field_def
      ucl_object_tostring_forced_def key_type_def pkg_keys_def)
next
  case None
  then have "l \<notin> {LICENSE_SINGLE, LICENSE_AND, LICENSE_OR}" by (auto simp: logic_name_def split: if_splits)
  then show ?thesis using None by (simp add: read_entry_def opt_field_def)
qed

subsection \<open>Lists\<close>

lemma run_fold_map: "run_fold f (map g xs) p = run_fold (\<lambda>x. f (g x)) xs p"
proof (induction xs arbitrary: p)
  case (Cons x xs)
  have "run_fold f (map g xs) = run_fold (\<lambda>x. f (g x)) xs" by (rule ext) (rule Cons.IH)
  then show ?case by simp
qed simp

text \<open>A loop that appends elements with different keys to a list of the state.\<close>

lemma run_fold_grow:
  assumes acc: "\<And>h h' p. put h (put h' p) = put h p" "\<And>h p. get (put h p) = h" "\<And>p. put (get p) p = p"
    and step: "\<And>x p. x \<in> set xs \<Longrightarrow> key (el x) \<notin> key ` set (get p) \<Longrightarrow> f x p = Ret (put (get p @ [el x]) p)"
    and new: "distinct (map (\<lambda>x. key (el x)) xs)" "\<forall>x \<in> set xs. key (el x) \<notin> key ` set (get p)"
  shows "run_fold f xs p = Ret (put (get p @ map el xs) p)"
  using step new
proof (induction xs arbitrary: p)
  case (Cons x xs)
  let ?p = "put (get p @ [el x]) p"
  have "f x p = Ret ?p" using Cons.prems by simp
  moreover have "run_fold f xs ?p = Ret (put (get ?p @ map el xs) ?p)"
  proof (rule Cons.IH)
    show "\<forall>y \<in> set xs. key (el y) \<notin> key ` set (get ?p)" using Cons.prems(2,3) by (auto simp: acc(2) image_iff)
  qed (use Cons.prems in auto)
  ultimately show ?case by (simp add: acc(1,2))
qed (simp add: acc(3))

lemma array_strings:
  assumes "\<And>n s p. array_elem e attr (None, UCL_STRING n # s) p = h n p"
  shows "run_fold (array_elem e attr) (map (\<lambda>s. (None, s)) (suffixes_of (map UCL_STRING ns))) p = run_fold h ns p"
proof (induction ns arbitrary: p)
  case (Cons n ns)
  have "run_fold (array_elem e attr) (map (\<lambda>s. (None, s)) (suffixes_of (map UCL_STRING ns))) = run_fold h ns" by (rule ext) (rule Cons.IH)
  then show ?case using assms by simp
qed simp

lemma read_array:
  assumes "(key, attr, T_ARRAY, pkg_array_p) \<in> set manifest_keys"
    and "\<And>n s p. array_elem e attr (None, UCL_STRING n # s) p = h n p" "run_fold h ns pkg = Ret q" "ns = [] \<Longrightarrow> q = pkg"
  shows "read_entry e (key, ucl_seq ns) pkg = Ret q" "ns \<noteq> [] \<Longrightarrow> read_entry e (key, Some (UCL_ARRAY (map UCL_STRING ns))) pkg = Ret q"
proof -
  have k: "(key, attr, ucl_type_of (UCL_ARRAY (map UCL_STRING ns)), pkg_array_p) \<in> set manifest_keys" using assms(1) by simp
  have it: "ucl_iterate_object (Some key, [UCL_ARRAY (map UCL_STRING ns)]) True = map (\<lambda>s. (None, s)) (suffixes_of (map UCL_STRING ns))"
    by (simp add: ucl_iterate_object_def)
  have r: "read_entry e (key, Some (UCL_ARRAY (map UCL_STRING ns))) pkg = Ret q"
    using read_known(1) [OF k, of e "[]" pkg] assms(3)
    by (simp add: read_entry_simps ignore_code_def run_parse_data_def pkg_array_def it array_strings [OF assms(2)])
  then show "ns \<noteq> [] \<Longrightarrow> read_entry e (key, Some (UCL_ARRAY (map UCL_STRING ns))) pkg = Ret q" by simp
  show "read_entry e (key, ucl_seq ns) pkg = Ret q" using r assms(4) by (cases "ns = []") (simp_all add: ucl_seq_def read_entry_simps)
qed

definition names_ok :: "string list \<Rightarrow> bool" where
  "names_ok ns \<longleftrightarrow> distinct ns \<and> (\<forall>n \<in> set ns. n \<noteq> [])"

lemma read_shlibs_required:
  assumes "names_ok ns" "pk_shlibs_required pkg = []"
  shows "read_entry e (''shlibs_required'', ucl_seq ns) pkg = Ret (pkg\<lparr>pk_shlibs_required := ns\<rparr>)"
proof (rule read_array(1))
  show "(''shlibs_required'', List PKG_SHLIBS_REQUIRED, T_ARRAY, pkg_array_p) \<in> set manifest_keys" by (simp add: manifest_keys_def)
  show "array_elem e (List PKG_SHLIBS_REQUIRED) (None, UCL_STRING n # s) p = ignore_code (pkg_addshlib_required p n)" for n s p
    by (simp add: array_elem_def head_of_def)
  have "run_fold (\<lambda>n p. ignore_code (pkg_addshlib_required p n)) ns pkg = Ret (pkg\<lparr>pk_shlibs_required := pk_shlibs_required pkg @ map id ns\<rparr>)"
    by (rule run_fold_grow [where put = "\<lambda>h. pk_shlibs_required_update (\<lambda>_. h)" and key = id])
      (use assms in \<open>auto simp: names_ok_def ignore_code_def pkg_addshlib_required_def add_name_def\<close>)
  then show "run_fold (\<lambda>n p. ignore_code (pkg_addshlib_required p n)) ns pkg = Ret (pkg\<lparr>pk_shlibs_required := ns\<rparr>)" using assms(2) by simp
qed (use assms(2) in simp)

lemma read_shlibs_provided:
  assumes "names_ok ns" "pk_shlibs_provided pkg = []"
  shows "read_entry e (''shlibs_provided'', ucl_seq ns) pkg = Ret (pkg\<lparr>pk_shlibs_provided := ns\<rparr>)"
proof (rule read_array(1))
  show "(''shlibs_provided'', List PKG_SHLIBS_PROVIDED, T_ARRAY, pkg_array_p) \<in> set manifest_keys" by (simp add: manifest_keys_def)
  show "array_elem e (List PKG_SHLIBS_PROVIDED) (None, UCL_STRING n # s) p = ignore_code (pkg_addshlib_provided p n)" for n s p
    by (simp add: array_elem_def head_of_def)
  have "run_fold (\<lambda>n p. ignore_code (pkg_addshlib_provided p n)) ns pkg = Ret (pkg\<lparr>pk_shlibs_provided := pk_shlibs_provided pkg @ map id ns\<rparr>)"
    by (rule run_fold_grow [where put = "\<lambda>h. pk_shlibs_provided_update (\<lambda>_. h)" and key = id])
      (use assms in \<open>auto simp: names_ok_def ignore_code_def pkg_addshlib_provided_def add_name_def\<close>)
  then show "run_fold (\<lambda>n p. ignore_code (pkg_addshlib_provided p n)) ns pkg = Ret (pkg\<lparr>pk_shlibs_provided := ns\<rparr>)" using assms(2) by simp
qed (use assms(2) in simp)

definition login_ok :: "string \<Rightarrow> bool" where
  "login_ok n \<longleftrightarrow> n \<noteq> [] \<and> length n < MAXLOGNAME"

definition users_ok :: "(string, struct_user) uthash \<Rightarrow> bool" where
  "users_ok us \<longleftrightarrow> hash_wf us \<and> (\<forall>(k, u) \<in> set us. k = su_name u \<and> login_ok k \<and> su_uidstr u = [])"

definition groups_ok :: "(string, struct_group) uthash \<Rightarrow> bool" where
  "groups_ok gs \<longleftrightarrow> hash_wf gs \<and> (\<forall>(k, g) \<in> set gs. k = sg_name g \<and> login_ok k \<and> sg_gidstr g = [])"

lemma strlcpy_short: "length s < n \<Longrightarrow> strlcpy n s = s"
  by (simp add: strlcpy_def)

lemma read_users:
  assumes "users_ok us" "pk_users pkg = []"
  shows "read_entry e (''users'', ucl_seq (map (\<lambda>(_, u). su_name u) us)) pkg = Ret (pkg\<lparr>pk_users := us\<rparr>)"
proof (rule read_array(1))
  let ?el = "\<lambda>n. (n, \<lparr>su_name = n, su_uidstr = []\<rparr>)" and ?h = "\<lambda>n p. ignore_code (pkg_adduser (me_developer_mode e) p n)"
  show "(''users'', List PKG_USERS, T_ARRAY, pkg_array_p) \<in> set manifest_keys" by (simp add: manifest_keys_def)
  show "array_elem e (List PKG_USERS) (None, UCL_STRING n # s) p = ?h n p" for n s p by (simp add: array_elem_def head_of_def Let_def)
  have fst: "map (\<lambda>(_, u). su_name u) us = map fst us" using assms(1) by (auto simp: users_ok_def)
  have "run_fold ?h (map fst us) pkg = Ret (pkg\<lparr>pk_users := pk_users pkg @ map ?el (map fst us)\<rparr>)"
  proof (rule run_fold_grow [where put = "\<lambda>h p. p\<lparr>pk_users := h\<rparr>" and key = fst])
    fix n and p :: struct_pkg assume n: "n \<in> set (map fst us)" "fst (?el n) \<notin> fst ` set (pk_users p)"
    have "login_ok n" using assms(1) n(1) by (auto simp: users_ok_def)
    moreover have "hash_find n (pk_users p) = None" using n(2) by (simp add: uh.find_None)
    ultimately show "?h n p = Ret (p\<lparr>pk_users := pk_users p @ [?el n]\<rparr>)"
      by (simp add: ignore_code_def pkg_adduser_def pkg_adduid_def login_ok_def strlcpy_short opt_string_def hash_add_def Let_def)
  qed (use assms in \<open>simp_all add: users_ok_def hash_wf_def\<close>)
  moreover have "map ?el (map fst us) = us" using assms(1) by (fastforce simp: users_ok_def comp_def intro!: map_idI struct_user.equality)
  ultimately show "run_fold ?h (map (\<lambda>(_, u). su_name u) us) pkg = Ret (pkg\<lparr>pk_users := us\<rparr>)" using assms(2) unfolding fst by simp
qed (use assms(2) in simp)

lemma read_groups:
  assumes "groups_ok gs" "pk_groups pkg = []"
  shows "read_entry e (''groups'', ucl_seq (map (\<lambda>(_, g). sg_name g) gs)) pkg = Ret (pkg\<lparr>pk_groups := gs\<rparr>)"
proof (rule read_array(1))
  let ?el = "\<lambda>n. (n, \<lparr>sg_name = n, sg_gidstr = []\<rparr>)" and ?h = "\<lambda>n p. ignore_code (pkg_addgroup (me_developer_mode e) p n)"
  show "(''groups'', List PKG_GROUPS, T_ARRAY, pkg_array_p) \<in> set manifest_keys" by (simp add: manifest_keys_def)
  show "array_elem e (List PKG_GROUPS) (None, UCL_STRING n # s) p = ?h n p" for n s p by (simp add: array_elem_def head_of_def Let_def)
  have fst: "map (\<lambda>(_, g). sg_name g) gs = map fst gs" using assms(1) by (auto simp: groups_ok_def)
  have "run_fold ?h (map fst gs) pkg = Ret (pkg\<lparr>pk_groups := pk_groups pkg @ map ?el (map fst gs)\<rparr>)"
  proof (rule run_fold_grow [where put = "\<lambda>h p. p\<lparr>pk_groups := h\<rparr>" and key = fst])
    fix n and p :: struct_pkg assume n: "n \<in> set (map fst gs)" "fst (?el n) \<notin> fst ` set (pk_groups p)"
    have "login_ok n" using assms(1) n(1) by (auto simp: groups_ok_def)
    moreover have "hash_find n (pk_groups p) = None" using n(2) by (simp add: uh.find_None)
    ultimately show "?h n p = Ret (p\<lparr>pk_groups := pk_groups p @ [?el n]\<rparr>)"
      by (simp add: ignore_code_def pkg_addgroup_def pkg_addgid_def login_ok_def strlcpy_short opt_string_def hash_add_def Let_def)
  qed (use assms in \<open>simp_all add: groups_ok_def hash_wf_def\<close>)
  moreover have "map ?el (map fst gs) = gs" using assms(1) by (fastforce simp: groups_ok_def comp_def intro!: map_idI struct_group.equality)
  ultimately show "run_fold ?h (map (\<lambda>(_, g). sg_name g) gs) pkg = Ret (pkg\<lparr>pk_groups := gs\<rparr>)" using assms(2) unfolding fst by simp
qed (use assms(2) in simp)

text \<open>Licenses and categories are arrays among the attributes.\<close>

definition array_ok :: "ucl option \<Rightarrow> bool" where
  "array_ok o1 \<longleftrightarrow> (case o1 of None \<Rightarrow> True
     | Some (UCL_ARRAY xs) \<Rightarrow> xs \<noteq> [] \<and> distinct xs \<and> (\<forall>x \<in> set xs. case x of UCL_STRING s \<Rightarrow> s \<noteq> [] | _ \<Rightarrow> False)
     | Some _ \<Rightarrow> False)"

lemma append_to_set_field:
  assumes "n \<noteq> []" "n \<notin> set ns" "\<forall>n \<in> set ns. n \<noteq> []"
  shows "append_to_array dev (set_field attr (UCL_ARRAY (map UCL_STRING ns)) pkg) attr n =
    Ret (EPKG_OK, set_field attr (UCL_ARRAY (map UCL_STRING (ns @ [n]))) pkg)"
  using assms upd_set_field [where a = attr and v = "UCL_ARRAY (map UCL_STRING ns)" and pkg = pkg and w = "UCL_ARRAY (map UCL_STRING ns @ [UCL_STRING n])"]
  by (auto simp: append_to_array_def pkg_get_set_field ucl_object_tostring_forced_def)

lemma append_all:
  assumes "names_ok (ns @ ms)"
  shows "run_fold (\<lambda>n p. ignore_code (append_to_array dev p attr n)) ms (set_field attr (UCL_ARRAY (map UCL_STRING ns)) pkg) =
    Ret (set_field attr (UCL_ARRAY (map UCL_STRING (ns @ ms))) pkg)"
  using assms
proof (induction ms arbitrary: ns)
  case (Cons m ms)
  have "append_to_array dev (set_field attr (UCL_ARRAY (map UCL_STRING ns)) pkg) attr m =
      Ret (EPKG_OK, set_field attr (UCL_ARRAY (map UCL_STRING (ns @ [m]))) pkg)"
    using Cons.prems by (intro append_to_set_field) (auto simp: names_ok_def)
  then show ?case using Cons.IH [of "ns @ [m]"] Cons.prems by (simp add: ignore_code_def)
qed simp

lemma append_fresh:
  assumes "names_ok ms" "ms \<noteq> []" "pkg_get pkg attr = None"
  shows "run_fold (\<lambda>n p. ignore_code (append_to_array dev p attr n)) ms pkg = Ret (set_field attr (UCL_ARRAY (map UCL_STRING ms)) pkg)"
proof (cases ms)
  case (Cons m ns)
  then show ?thesis using assms append_all [of "[m]" ns dev attr pkg] by (simp add: ignore_code_def append_to_array_def names_ok_def)
qed (use assms in simp)

lemma array_okE:
  assumes "array_ok o1"
  obtains "o1 = None" | ns where "o1 = Some (UCL_ARRAY (map UCL_STRING ns))" "names_ok ns" "ns \<noteq> []"
proof (cases o1)
  case (Some v)
  then obtain xs where xs: "v = UCL_ARRAY xs" "xs \<noteq> []" "distinct xs" "\<forall>x \<in> set xs. case x of UCL_STRING s \<Rightarrow> s \<noteq> [] | _ \<Rightarrow> False"
    using assms by (cases v) (auto simp: array_ok_def)
  let ?ns = "map ucl_object_tostring_forced xs"
  have "map UCL_STRING ?ns = xs" using xs(4) by (auto simp: ucl_object_tostring_forced_def split: ucl.splits intro!: map_idI)
  moreover have "distinct (map UCL_STRING ?ns)" using xs(3) \<open>map UCL_STRING ?ns = xs\<close> by simp
  then have "distinct ?ns" unfolding distinct_map [of UCL_STRING] by blast
  then have "names_ok ?ns" using xs(4) by (auto simp: names_ok_def ucl_object_tostring_forced_def split: ucl.splits)
  ultimately show ?thesis using that(2) [of ?ns] Some xs by auto
qed (use that in blast)

lemma read_licenses:
  assumes "array_ok o1" "pkg_get pkg PKG_LICENSES = None"
  shows "read_entry e (''licenses'', o1) pkg = Ret (opt_field PKG_LICENSES o1 pkg)"
  using assms(1)
proof (cases rule: array_okE)
  case (2 ns)
  show ?thesis unfolding 2(1)
  proof (rule read_array(2))
    show "(''licenses'', Attr PKG_LICENSES, T_ARRAY, pkg_array_p) \<in> set manifest_keys" by (simp add: manifest_keys_def)
    show "array_elem e (Attr PKG_LICENSES) (None, UCL_STRING n # s) p = ignore_code (append_to_array (me_developer_mode e) p PKG_LICENSES n)" for n s p
      by (simp add: array_elem_def head_of_def Let_def pkg_addlicense_def)
  qed (use 2 assms(2) append_fresh in \<open>simp_all add: opt_field_def\<close>)
qed (simp add: read_entry_simps opt_field_def)

lemma read_categories:
  assumes "array_ok o1" "pkg_get pkg PKG_CATEGORIES = None"
  shows "read_entry e (''categories'', o1) pkg = Ret (opt_field PKG_CATEGORIES o1 pkg)"
  using assms(1)
proof (cases rule: array_okE)
  case (2 ns)
  show ?thesis unfolding 2(1)
  proof (rule read_array(2))
    show "(''categories'', Attr PKG_CATEGORIES, T_ARRAY, pkg_array_p) \<in> set manifest_keys" by (simp add: manifest_keys_def)
    show "array_elem e (Attr PKG_CATEGORIES) (None, UCL_STRING n # s) p = ignore_code (append_to_array (me_developer_mode e) p PKG_CATEGORIES n)" for n s p
      by (simp add: array_elem_def head_of_def Let_def pkg_addcategory_def)
  qed (use 2 assms(2) append_fresh in \<open>simp_all add: opt_field_def\<close>)
qed (simp add: read_entry_simps opt_field_def)

subsection \<open>Objects\<close>

lemma read_map:
  assumes "(key, attr, T_OBJECT, pkg_obj_p) \<in> set manifest_keys" "distinct (map fst kvs)"
    and "run_fold (\<lambda>(k, v). obj_elem e attr (Some k, [v])) kvs pkg = Ret q"
  shows "read_entry e (key, Some (UCL_OBJECT (ucl_of_entries kvs))) pkg = Ret q" "(kvs = [] \<Longrightarrow> q = pkg) \<Longrightarrow> read_entry e (key, ucl_map kvs) pkg = Ret q"
proof -
  have k: "(key, attr, ucl_type_of (UCL_OBJECT (ucl_of_entries kvs)), pkg_obj_p) \<in> set manifest_keys" using assms(1) by simp
  have it: "ucl_iterate_object (Some key, [UCL_OBJECT (ucl_of_entries kvs)]) True = map (\<lambda>(k, v). (Some k, [v])) kvs"
    by (simp add: ucl_iterate_object_def ucl_of_entries_distinct [OF assms(2)] comp_def case_prod_unfold)
  have "run_fold (obj_elem e attr) (map (\<lambda>(k, v). (Some k, [v])) kvs) pkg = Ret q"
    unfolding run_fold_map using assms(3) by (simp add: case_prod_unfold)
  then show r: "read_entry e (key, Some (UCL_OBJECT (ucl_of_entries kvs))) pkg = Ret q"
    using read_known(1) [OF k, of e "[]" pkg] by (simp add: read_entry_simps ignore_code_def run_parse_data_def pkg_obj_def it)
  show "(kvs = [] \<Longrightarrow> q = pkg) \<Longrightarrow> read_entry e (key, ucl_map kvs) pkg = Ret q"
    using r by (cases "kvs = []") (simp_all add: ucl_map_def read_entry_simps)
qed

definition deps_ok :: "(string, pkg_dep) uthash \<Rightarrow> bool" where
  "deps_ok ds \<longleftrightarrow> hash_wf ds \<and> distinct (map (\<lambda>(_, d). dep_name d) ds)
     \<and> (\<forall>(k, d) \<in> set ds. k = dep_origin d \<and> d = new_dep (dep_name d) (dep_origin d) (dep_version d) False
          \<and> dep_name d \<noteq> [] \<and> dep_origin d \<noteq> [] \<and> dep_version d \<noteq> [])"

definition options_ok :: "(string, struct_option) uthash \<Rightarrow> bool" where
  "options_ok os \<longleftrightarrow> hash_wf os \<and> (\<forall>(k, o1) \<in> set os. k = so_key o1 \<and> k \<noteq> [] \<and> opt_string (so_value o1) \<noteq> []
     \<and> so_default_value o1 = None \<and> so_description o1 = None)"

lemma read_deps:
  assumes "deps_ok (pk_deps src)" "pk_deps pkg = []"
  shows "read_entry e (''deps'', emit_deps src) pkg = Ret (pkg\<lparr>pk_deps := pk_deps src\<rparr>)"
  unfolding emit_deps_def
proof (rule read_map(2))
  let ?ov = "\<lambda>dep. UCL_OBJECT (ucl_of_entries [(''origin'', UCL_STRING (dep_origin dep)), (''version'', UCL_STRING (dep_version dep))])"
  show "(''deps'', List PKG_DEPS, T_OBJECT, pkg_obj_p) \<in> set manifest_keys" by (simp add: manifest_keys_def)
  show "distinct (map fst (map (\<lambda>(_, dep). (dep_name dep, ?ov dep)) (pk_deps src)))"
    using assms(1) by (simp add: deps_ok_def comp_def case_prod_unfold)
  have step: "obj_elem e (List PKG_DEPS) (Some (dep_name d), [?ov d]) p = Ret (p\<lparr>pk_deps := pk_deps p @ [(k, d)]\<rparr>)"
    if "(k, d) \<in> set (pk_deps src)" "k \<notin> fst ` set (pk_deps p)" for k d p
  proof -
    have d: "k = dep_origin d" "d = new_dep (dep_name d) (dep_origin d) (dep_version d) False" "dep_name d \<noteq> []" "dep_origin d \<noteq> []" "dep_version d \<noteq> []"
      using assms(1) that(1) by (auto simp: deps_ok_def)
    have ov: "ucl_of_entries [(''origin'', UCL_STRING (dep_origin d)), (''version'', UCL_STRING (dep_version d))]
        = [(''origin'', [UCL_STRING (dep_origin d)]), (''version'', [UCL_STRING (dep_version d)])]" by (subst ucl_of_entries_distinct) simp_all
    have attrs: "foldl dep_attr (None, None) [(Some ''origin'', [UCL_STRING x]), (Some ''version'', [UCL_STRING y])] = (Some x, Some y)" for x y
      by (simp add: dep_attr_def head_of_def strcaseeq_def tolower_def isupper_def byte_def)
    have "hash_find (dep_origin d) (pk_deps p) = None" using that(2) d(1) by (simp add: uh.find_None)
    then have "pkg_adddep (me_developer_mode e) p (dep_name d) (dep_origin d) (dep_version d) False = Ret (EPKG_OK, p\<lparr>pk_deps := pk_deps p @ [(k, d)]\<rparr>)"
      using d by (simp add: pkg_adddep_def hash_add_def)
    then show ?thesis
      by (simp add: obj_elem_def head_of_def ov pkg_set_deps_from_object_def ucl_iterate_object_def ucl_linear_def add_dep_object_def attrs ignore_code_def Let_def del: foldl.simps)
  qed
  have "run_fold (\<lambda>x. case x of (_, dep) \<Rightarrow> obj_elem e (List PKG_DEPS) (Some (dep_name dep), [?ov dep])) (pk_deps src) pkg
      = Ret (pkg\<lparr>pk_deps := pk_deps pkg @ map id (pk_deps src)\<rparr>)"
    by (rule run_fold_grow [where put = "\<lambda>h p. p\<lparr>pk_deps := h\<rparr>" and key = fst])
      (use assms step in \<open>auto simp: deps_ok_def hash_wf_def\<close>)
  then show "run_fold (\<lambda>(k, v). obj_elem e (List PKG_DEPS) (Some k, [v])) (map (\<lambda>(_, dep). (dep_name dep, ?ov dep)) (pk_deps src)) pkg
      = Ret (pkg\<lparr>pk_deps := pk_deps src\<rparr>)"
    using assms(2) unfolding run_fold_map by (simp add: case_prod_unfold)
qed (use assms(2) in simp)

lemma read_options:
  assumes "options_ok (pk_options src)" "pk_options pkg = []"
  shows "read_entry e (''options'', emit_options src) pkg = Ret (pkg\<lparr>pk_options := pk_options src\<rparr>)"
  unfolding emit_options_def
proof (rule read_map(2))
  let ?v = "\<lambda>o1. UCL_STRING (opt_string (so_value o1))"
  show "(''options'', List PKG_OPTIONS, T_OBJECT, pkg_obj_p) \<in> set manifest_keys" by (simp add: manifest_keys_def)
  have "map (\<lambda>(_, o1). so_key o1) (pk_options src) = map fst (pk_options src)" using assms(1) by (auto simp: options_ok_def)
  then have "map fst (map (\<lambda>(_, o1). (so_key o1, ?v o1)) (pk_options src)) = map fst (pk_options src)" by (simp add: comp_def case_prod_unfold)
  then show "distinct (map fst (map (\<lambda>(_, o1). (so_key o1, ?v o1)) (pk_options src)))"
    using assms(1) unfolding options_ok_def hash_wf_def by metis
  have step: "obj_elem e (List PKG_OPTIONS) (Some (so_key o1), [?v o1]) p = Ret (p\<lparr>pk_options := pk_options p @ [(k, o1)]\<rparr>)"
    if "(k, o1) \<in> set (pk_options src)" "k \<notin> fst ` set (pk_options p)" for k o1 p
  proof -
    have d: "k = so_key o1" "k \<noteq> []" "opt_string (so_value o1) \<noteq> []" "so_default_value o1 = None" "so_description o1 = None"
      using assms(1) that(1) by (auto simp: options_ok_def)
    have "(no_option (so_key o1))\<lparr>so_value := Some (opt_string (so_value o1))\<rparr> = o1"
      using d(3,4,5) by (cases o1) (auto simp: no_option_def opt_string_def split: option.splits)
    moreover have "hash_find (so_key o1) (pk_options p) = None" using that(2) d(1) by (simp add: uh.find_None)
    ultimately have "pkg_addoption (me_developer_mode e) p (so_key o1) (opt_string (so_value o1)) = Ret (EPKG_OK, p\<lparr>pk_options := pk_options p @ [(k, o1)]\<rparr>)"
      using d by (simp add: pkg_addoption_def add_option_def hash_add_def)
    then show ?thesis by (simp add: obj_elem_def head_of_def ignore_code_def Let_def)
  qed
  have "run_fold (\<lambda>x. case x of (_, o1) \<Rightarrow> obj_elem e (List PKG_OPTIONS) (Some (so_key o1), [?v o1])) (pk_options src) pkg
      = Ret (pkg\<lparr>pk_options := pk_options pkg @ map id (pk_options src)\<rparr>)"
    by (rule run_fold_grow [where put = "\<lambda>h p. p\<lparr>pk_options := h\<rparr>" and key = fst])
      (use assms step in \<open>auto simp: options_ok_def hash_wf_def\<close>)
  then show "run_fold (\<lambda>(k, v). obj_elem e (List PKG_OPTIONS) (Some k, [v])) (map (\<lambda>(_, o1). (so_key o1, ?v o1)) (pk_options src)) pkg
      = Ret (pkg\<lparr>pk_options := pk_options src\<rparr>)"
    using assms(2) unfolding run_fold_map by (simp add: case_prod_unfold)
qed (use assms(2) in simp)

definition annotations_ok :: "ucl option \<Rightarrow> bool" where
  "annotations_ok o1 \<longleftrightarrow> (case o1 of None \<Rightarrow> True
     | Some (UCL_OBJECT h) \<Rightarrow> hash_wf h \<and> (\<forall>(k, c) \<in> set h. case c of [UCL_STRING _] \<Rightarrow> True | _ \<Rightarrow> False)
     | Some _ \<Rightarrow> False)"

definition kept_annotations :: "ucl option \<Rightarrow> ucl option" where
  \<comment> \<open>an object that is empty is not made\<close>
  "kept_annotations o1 = (case o1 of
     Some (UCL_OBJECT h) \<Rightarrow> (let h' = filter (\<lambda>(k, c). \<not> internal_annotation k) h in if h' = [] then None else Some (UCL_OBJECT h'))
   | _ \<Rightarrow> None)"

definition files_ok :: "(string, struct_file) uthash \<Rightarrow> bool" where
  "files_ok fs \<longleftrightarrow> hash_wf fs \<and> (\<forall>(k, f) \<in> set fs. k = sf_path f \<and> k \<noteq> [] \<and> length k < MAXPATHLEN \<and> c_string k
     \<and> (sf_sum f = [] \<or> length (sf_sum f) = 64) \<and> sf_uname f = [] \<and> sf_gname f = [] \<and> sf_perm f = 0)"

definition dirs_ok :: "(string, struct_dir) uthash \<Rightarrow> bool" where
  "dirs_ok ds \<longleftrightarrow> hash_wf ds \<and> (\<forall>(k, d) \<in> set ds. k = sd_path d \<and> k \<noteq> [] \<and> length k < MAXPATHLEN \<and> c_string k
     \<and> sd_uname d = [] \<and> sd_gname d = [] \<and> sd_perm d = 0)"

lemma add_annotations:
  assumes "distinct (map fst (ns @ ms))"
  shows "run_fold (\<lambda>(k, s) p. ignore_code (pkg_addannotation p k s)) ms (set_field PKG_ANNOTATIONS (UCL_OBJECT (map (\<lambda>(k, s). (k, [UCL_STRING s])) ns)) pkg) =
    Ret (set_field PKG_ANNOTATIONS (UCL_OBJECT (map (\<lambda>(k, s). (k, [UCL_STRING s])) (ns @ ms))) pkg)"
  using assms
proof (induction ms arbitrary: ns)
  case (Cons m ms)
  obtain k s where m: "m = (k, s)" by fastforce
  let ?obj = "\<lambda>ns. UCL_OBJECT (map (\<lambda>(k, s). (k, [UCL_STRING s])) ns)"
  let ?p = "set_field PKG_ANNOTATIONS (?obj ns) pkg"
  have n: "hash_find k (map (\<lambda>(k, s). (k, [UCL_STRING s])) ns) = None"
  proof -
    have "fst ` set (map (\<lambda>(k, s). (k, [UCL_STRING s])) ns) = fst ` set ns" by force
    moreover have "k \<notin> fst ` set ns" using Cons.prems m by auto
    ultimately show ?thesis unfolding uh.find_None by blast
  qed
  have "pkg_addannotation ?p k s = Ret (EPKG_OK, set_field PKG_ANNOTATIONS (?obj (ns @ [(k, s)])) pkg)"
    using n upd_set_field [where a = PKG_ANNOTATIONS and v = "?obj ns" and w = "?obj (ns @ [(k, s)])" and pkg = pkg]
    by (simp add: pkg_addannotation_def pkg_get_set_field insert_absent)
  then show ?case using Cons.IH [of "ns @ [(k, s)]"] Cons.prems m by (simp add: ignore_code_def)
qed simp

lemma read_annotations:
  assumes "annotations_ok (pkg_get src PKG_ANNOTATIONS)" "pkg_get pkg PKG_ANNOTATIONS = None"
  shows "read_entry e (''annotations'', emit_annotations src) pkg = Ret (opt_field PKG_ANNOTATIONS (kept_annotations (pkg_get src PKG_ANNOTATIONS)) pkg)"
proof (cases "pkg_get src PKG_ANNOTATIONS")
  case None
  then show ?thesis by (simp add: emit_annotations_def read_entry_simps kept_annotations_def opt_field_def)
next
  case (Some v)
  then obtain h where h: "v = UCL_OBJECT h" "hash_wf h" "\<forall>(k, c) \<in> set h. case c of [UCL_STRING _] \<Rightarrow> True | _ \<Rightarrow> False"
    using assms(1) by (cases v) (auto simp: annotations_ok_def)
  let ?keep = "filter (\<lambda>(k, c). \<not> internal_annotation k) h"
  define kss where "kss = map (\<lambda>(k, c). (k, ucl_object_tostring_forced (hd c))) ?keep"
  have c: "c = [UCL_STRING (ucl_object_tostring_forced (hd c))]" if "(k, c) \<in> set h" for k c
  proof -
    have "case c of [UCL_STRING _] \<Rightarrow> True | _ \<Rightarrow> False" using bspec [OF h(3) that] by simp
    then show ?thesis by (auto simp: ucl_object_tostring_forced_def split: list.splits ucl.splits)
  qed
  have keep: "?keep = map (\<lambda>(k, s). (k, [UCL_STRING s])) kss"
  proof -
    have "(\<lambda>(k, s). (k, [UCL_STRING s])) ((\<lambda>(k, c). (k, ucl_object_tostring_forced (hd c))) x) = x" if "x \<in> set ?keep" for x
    proof -
      obtain k c where x: "x = (k, c)" by fastforce
      then have "(k, c) \<in> set h" using that by simp
      from c [OF this] show ?thesis unfolding x prod.case by simp
    qed
    then show ?thesis unfolding kss_def map_map comp_def by (intro map_idI [symmetric]) simp
  qed
  have "concat (map (\<lambda>n. case fst n of None \<Rightarrow> [] | Some key \<Rightarrow> if internal_annotation key then [] else [(key, head_of n)])
      (map (\<lambda>(k, c). (Some k, c)) g)) = map (\<lambda>(k, c). (k, hd c)) (filter (\<lambda>(k, c). \<not> internal_annotation k) g)" for g :: ucl_object
    by (induction g) (auto simp: head_of_def)
  then have em: "emit_annotations src = Some (UCL_OBJECT (ucl_of_entries (map (\<lambda>(k, s). (k, UCL_STRING s)) kss)))"
    using Some h(1) keep by (simp add: emit_annotations_def ucl_iterate_object_def comp_def case_prod_unfold)
  have d: "distinct (map fst kss)"
  proof -
    have "map fst kss = map fst ?keep" unfolding keep by (simp add: comp_def case_prod_unfold)
    then show ?thesis using h(2) by (metis hash_wf_def distinct_map_filter)
  qed
  let ?q = "opt_field PKG_ANNOTATIONS (kept_annotations (pkg_get src PKG_ANNOTATIONS)) pkg"
  have "run_fold (\<lambda>(k, s) p. ignore_code (pkg_addannotation p k s)) kss pkg = Ret ?q"
  proof (cases kss)
    case Nil
    then show ?thesis using keep Some h(1) by (simp add: kept_annotations_def opt_field_def)
  next
    case (Cons m ms)
    then show ?thesis using add_annotations [of "[m]" ms pkg] d keep Some h(1) assms(2)
      by (cases m) (simp add: kept_annotations_def opt_field_def pkg_addannotation_def ignore_code_def)
  qed
  moreover have "(\<lambda>x. obj_elem e (Attr PKG_ANNOTATIONS) (Some (fst x), [UCL_STRING (snd x)])) = (\<lambda>(k, s) p. ignore_code (pkg_addannotation p k s))"
    by (simp add: fun_eq_iff obj_elem_def head_of_def Let_def case_prod_unfold)
  ultimately have "run_fold (\<lambda>(k, v). obj_elem e (Attr PKG_ANNOTATIONS) (Some k, [v])) (map (\<lambda>(k, s). (k, UCL_STRING s)) kss) pkg = Ret ?q"
    unfolding run_fold_map by (simp add: case_prod_unfold)
  moreover have "distinct (map fst (map (\<lambda>(k, s). (k, UCL_STRING s)) kss))" using d by (simp add: comp_def case_prod_unfold)
  ultimately show ?thesis unfolding em by (intro read_map(1)) (simp_all add: manifest_keys_def)
qed

lemma read_files:
  assumes "files_ok (pk_files src)" "pk_files pkg = []"
  shows "read_entry e (''files'', emit_files src) pkg = Ret (pkg\<lparr>pk_files := pk_files src\<rparr>)"
  unfolding emit_files_def
proof (rule read_map(2))
  let ?v = "\<lambda>f. UCL_STRING (file_sum f)"
  show "(''files'', List PKG_FILES, T_OBJECT, pkg_obj_p) \<in> set manifest_keys" by (simp add: manifest_keys_def)
  have "map fst (map (\<lambda>(_, f). (urlencode (sf_path f), ?v f)) (pk_files src)) = map urlencode (map fst (pk_files src))"
    using assms(1) by (auto simp: files_ok_def)
  moreover have "distinct (map urlencode (map fst (pk_files src)))"
    using assms(1) by (simp add: files_ok_def hash_wf_def distinct_map [of urlencode] inj_on_def urlencode_inject del: map_map)
  ultimately show "distinct (map fst (map (\<lambda>(_, f). (urlencode (sf_path f), ?v f)) (pk_files src)))" by metis
  have step: "obj_elem e (List PKG_FILES) (Some (urlencode (sf_path f)), [?v f]) p = Ret (p\<lparr>pk_files := pk_files p @ [(k, f)]\<rparr>)"
    if "(k, f) \<in> set (pk_files src)" for k f p
  proof -
    have d: "k = sf_path f" "k \<noteq> []" "length k < MAXPATHLEN" "c_string k" "sf_sum f = [] \<or> length (sf_sum f) = 64" "sf_uname f = []" "sf_gname f = []" "sf_perm f = 0"
      using assms(1) that by (auto simp: files_ok_def)
    have "\<lparr>sf_path = path_buf k, sf_sum = strlcpy 65 (opt_string (if length (file_sum f) = 64 then Some (file_sum f) else None)),
        sf_uname = strlcpy MAXLOGNAME [], sf_gname = strlcpy MAXLOGNAME [], sf_perm = 0\<rparr> = f"
      using d by (intro struct_file.equality) (auto simp: path_buf_def strlcpy_def file_sum_def opt_string_def)
    then have "pkg_addfile (me_developer_mode e) p k (if length (file_sum f) = 64 then Some (file_sum f) else None) False
        = Ret (EPKG_OK, p\<lparr>pk_files := pk_files p @ [(k, f)]\<rparr>)"
      using d by (simp add: pkg_addfile_def pkg_addfile_attr_def opt_string_def hash_add_def Let_def path_buf_def)
    then show ?thesis using d by (simp add: obj_elem_def head_of_def ignore_code_def Let_def urldecode_urlencode)
  qed
  have "run_fold (\<lambda>x. case x of (_, f) \<Rightarrow> obj_elem e (List PKG_FILES) (Some (urlencode (sf_path f)), [?v f])) (pk_files src) pkg
      = Ret (pkg\<lparr>pk_files := pk_files pkg @ map id (pk_files src)\<rparr>)"
    by (rule run_fold_grow [where put = "\<lambda>h p. p\<lparr>pk_files := h\<rparr>" and key = fst])
      (use assms step in \<open>auto simp: files_ok_def hash_wf_def\<close>)
  then show "run_fold (\<lambda>(k, v). obj_elem e (List PKG_FILES) (Some k, [v])) (map (\<lambda>(_, f). (urlencode (sf_path f), ?v f)) (pk_files src)) pkg
      = Ret (pkg\<lparr>pk_files := pk_files src\<rparr>)"
    using assms(2) unfolding run_fold_map by (simp add: case_prod_unfold)
qed (use assms(2) in simp)

lemma read_directories:
  assumes "dirs_ok (pk_dirs src)" "pk_dirs pkg = []"
  shows "read_entry e (''directories'', emit_directories src) pkg = Ret (pkg\<lparr>pk_dirs := pk_dirs src\<rparr>)"
  unfolding emit_directories_def
proof (rule read_map(2))
  let ?v = "\<lambda>d. UCL_STRING (if sd_try d then ''y'' else ''n'')"
  show "(''directories'', MDirectories, T_OBJECT, pkg_obj_p) \<in> set manifest_keys" by (simp add: manifest_keys_def)
  have "map fst (map (\<lambda>(_, d). (urlencode (sd_path d), ?v d)) (pk_dirs src)) = map urlencode (map fst (pk_dirs src))"
    using assms(1) by (auto simp: dirs_ok_def)
  moreover have "distinct (map urlencode (map fst (pk_dirs src)))"
    using assms(1) by (simp add: dirs_ok_def hash_wf_def distinct_map [of urlencode] inj_on_def urlencode_inject del: map_map)
  ultimately show "distinct (map fst (map (\<lambda>(_, d). (urlencode (sd_path d), ?v d)) (pk_dirs src)))" by metis
  have step: "obj_elem e MDirectories (Some (urlencode (sd_path d)), [?v d]) p = Ret (p\<lparr>pk_dirs := pk_dirs p @ [(k, d)]\<rparr>)"
    if "(k, d) \<in> set (pk_dirs src)" for k d p
  proof -
    have d: "k = sd_path d" "k \<noteq> []" "length k < MAXPATHLEN" "c_string k" "sd_uname d = []" "sd_gname d = []" "sd_perm d = 0"
      using assms(1) that by (auto simp: dirs_ok_def)
    have "\<lparr>sd_path = path_buf k, sd_uname = strlcpy MAXLOGNAME [], sd_gname = strlcpy MAXLOGNAME [], sd_perm = 0, sd_try = sd_try d\<rparr> = d"
      using d by (intro struct_dir.equality) (auto simp: path_buf_def strlcpy_def)
    then have "pkg_adddir (me_developer_mode e) p k (sd_try d) False = Ret (EPKG_OK, p\<lparr>pk_dirs := pk_dirs p @ [(k, d)]\<rparr>)"
      using d by (simp add: pkg_adddir_def pkg_adddir_attr_def opt_string_def hash_add_def Let_def path_buf_def)
    then show ?thesis using d by (cases "sd_try d") (simp_all add: obj_elem_def head_of_def ignore_code_def Let_def decode_urlencode)
  qed
  have "run_fold (\<lambda>x. case x of (_, d) \<Rightarrow> obj_elem e MDirectories (Some (urlencode (sd_path d)), [?v d])) (pk_dirs src) pkg
      = Ret (pkg\<lparr>pk_dirs := pk_dirs pkg @ map id (pk_dirs src)\<rparr>)"
    by (rule run_fold_grow [where put = "\<lambda>h p. p\<lparr>pk_dirs := h\<rparr>" and key = fst])
      (use assms step in \<open>auto simp: dirs_ok_def hash_wf_def\<close>)
  then show "run_fold (\<lambda>(k, v). obj_elem e MDirectories (Some k, [v])) (map (\<lambda>(_, d). (urlencode (sd_path d), ?v d)) (pk_dirs src)) pkg
      = Ret (pkg\<lparr>pk_dirs := pk_dirs src\<rparr>)"
    using assms(2) unfolding run_fold_map by (simp add: case_prod_unfold)
qed (use assms(2) in simp)

definition scripts_ok :: "(pkg_script \<Rightarrow> string option) \<Rightarrow> bool" where
  "scripts_ok f \<longleftrightarrow> (\<forall>i \<in> set all_scripts. case f i of None \<Rightarrow> True | Some s \<Rightarrow> c_string s)"

lemma script_name_type: "script_type_str (script_name i) = Some i"
  by (cases i) (simp_all add: script_type_str_def script_name_def)

lemma script_name_inject: "script_name i = script_name j \<longleftrightarrow> i = j"
  by (metis script_name_type option.inject)

lemma all_scripts: "distinct all_scripts" "i \<in> set all_scripts"
  by (simp add: all_scripts_def) (cases i; simp add: all_scripts_def)

definition written_scripts :: "(pkg_script \<Rightarrow> string option) \<Rightarrow> pkg_script list \<Rightarrow> (string \<times> ucl) list" where
  "written_scripts f is = concat (map (\<lambda>i. case f i of None \<Rightarrow> [] | Some s \<Rightarrow> [(script_name i, UCL_STRING (ucl_trim (urlencode s)))]) is)"

lemma written_scripts_keys: "fst ` set (written_scripts f is) \<subseteq> script_name ` set is"
  by (auto simp: written_scripts_def split: option.splits)

lemma written_scripts_distinct: "distinct is \<Longrightarrow> distinct (map fst (written_scripts f is))"
proof (induction "is")
  case (Cons i "is")
  have "script_name i \<notin> fst ` set (written_scripts f is)" using Cons.prems written_scripts_keys [of f "is"] script_name_inject by auto
  then show ?case using Cons by (cases "f i") (simp_all add: written_scripts_def)
qed (simp add: written_scripts_def)

lemma add_scripts:
  assumes "\<forall>i s. f i = Some s \<longrightarrow> c_string s"
  shows "run_fold (\<lambda>(k, v). obj_elem e MScripts (Some k, [v])) (written_scripts f is) pkg =
    Ret (pkg\<lparr>pk_scripts := (\<lambda>i. if i \<in> set is \<and> f i \<noteq> None then map_option ucl_trim (f i) else pk_scripts pkg i)\<rparr>)"
proof (induction "is" arbitrary: pkg)
  case (Cons i "is")
  show ?case
  proof (cases "f i")
    case None
    then show ?thesis using Cons [of pkg] by (auto simp: written_scripts_def fun_eq_iff intro!: arg_cong [of _ _ "\<lambda>g. pkg\<lparr>pk_scripts := g\<rparr>"])
  next
    case (Some s)
    let ?p = "pkg\<lparr>pk_scripts := (pk_scripts pkg)(i := Some (ucl_trim s))\<rparr>"
    have "c_string (ucl_trim s)" using assms Some c_string_trim by blast
    then have "obj_elem e MScripts (Some (script_name i), [UCL_STRING (ucl_trim (urlencode s))]) pkg = Ret ?p"
      by (simp add: obj_elem_def head_of_def script_name_type urlencode_trim decode_urlencode pkg_addscript_def Let_def)
    then show ?thesis using Cons [of ?p] Some
      by (auto simp: written_scripts_def fun_eq_iff intro!: arg_cong [of _ _ "\<lambda>g. pkg\<lparr>pk_scripts := g\<rparr>"])
  qed
qed (simp add: written_scripts_def)

lemma read_scripts:
  assumes "scripts_ok (pk_scripts src)" "pk_scripts pkg = (\<lambda>_. None)"
  shows "read_entry e (''scripts'', emit_scripts src) pkg = Ret (pkg\<lparr>pk_scripts := (\<lambda>i. map_option ucl_trim (pk_scripts src i))\<rparr>)"
proof -
  have em: "emit_scripts src = ucl_map (written_scripts (pk_scripts src) all_scripts)"
    by (simp add: emit_scripts_def written_scripts_def pkg_script_get_def)
  have c: "\<forall>i s. pk_scripts src i = Some s \<longrightarrow> c_string s"
  proof (intro allI impI)
    fix i s assume "pk_scripts src i = Some s"
    then show "c_string s" using bspec [OF assms(1) [unfolded scripts_ok_def] all_scripts(2) [of i]] by simp
  qed
  have q: "(\<lambda>i. if i \<in> set all_scripts \<and> pk_scripts src i \<noteq> None then map_option ucl_trim (pk_scripts src i) else pk_scripts pkg i)
      = (\<lambda>i. map_option ucl_trim (pk_scripts src i))" using assms(2) all_scripts(2) by (auto simp: fun_eq_iff)
  note r = add_scripts [OF c, of e all_scripts pkg, unfolded q]
  show ?thesis unfolding em
  proof (rule read_map(2))
    show "written_scripts (pk_scripts src) all_scripts = [] \<Longrightarrow> pkg\<lparr>pk_scripts := \<lambda>i. map_option ucl_trim (pk_scripts src i)\<rparr> = pkg" using r by simp
  qed (use r in \<open>simp_all add: manifest_keys_def written_scripts_distinct all_scripts(1)\<close>)
qed

section \<open>The round trip\<close>

definition logic_ok :: "ucl option \<Rightarrow> bool" where
  "logic_ok o1 \<longleftrightarrow> o1 \<in> {None, Some (UCL_INT LICENSE_SINGLE), Some (UCL_INT LICENSE_AND), Some (UCL_INT LICENSE_OR)}"

text \<open>
  A package that a manifest can hold: the types of the attributes are those of the table, names are not empty and fit their buffers,
  dependencies have different names, and what a manifest has no place for (owners and modes of files, numbers of users) is not
  there. There are neither conflicts nor provides.
\<close>

definition manifest_ok :: "struct_pkg \<Rightarrow> bool" where
  "manifest_ok pkg \<longleftrightarrow>
     (\<forall>attr \<in> set all_attrs. case pkg_get pkg attr of None \<Rightarrow> True | Some v \<Rightarrow> ucl_type_of v = key_type attr)
     \<and> logic_ok (pkg_get pkg PKG_LICENSE_LOGIC) \<and> array_ok (pkg_get pkg PKG_LICENSES) \<and> array_ok (pkg_get pkg PKG_CATEGORIES)
     \<and> annotations_ok (pkg_get pkg PKG_ANNOTATIONS)
     \<and> (case pkg_get_string pkg PKG_DESC of None \<Rightarrow> True | Some s \<Rightarrow> c_string s)
     \<and> deps_ok (pk_deps pkg) \<and> options_ok (pk_options pkg) \<and> users_ok (pk_users pkg) \<and> groups_ok (pk_groups pkg)
     \<and> names_ok (pk_shlibs_required pkg) \<and> names_ok (pk_shlibs_provided pkg)
     \<and> files_ok (pk_files pkg) \<and> dirs_ok (pk_dirs pkg) \<and> scripts_ok (pk_scripts pkg)
     \<and> pk_conflicts pkg = [] \<and> pk_provides pkg = []"

text \<open>What is left of the attributes: white space around the comment and the description is lost, and the message comes back encoded.\<close>

definition trimmed :: "ucl option \<Rightarrow> ucl option" where
  "trimmed o1 = map_option (\<lambda>v. UCL_STRING (ucl_trim (ucl_object_tostring_forced v))) o1"

definition message_read :: "ucl option \<Rightarrow> ucl option" where
  "message_read o1 = (case o1 of None \<Rightarrow> None
     | Some v \<Rightarrow> let s = ucl_object_tostring_forced v in if s = [] then None else Some (UCL_STRING (urlencode (ucl_trim s))))"

definition positive :: "ucl option \<Rightarrow> ucl option" where
  "positive o1 = (case o1 of Some (UCL_INT n) \<Rightarrow> if n > 0 then Some (UCL_INT n) else None | _ \<Rightarrow> None)"

definition attribute_read :: "struct_pkg \<Rightarrow> pkg_attr \<Rightarrow> ucl option" where
  "attribute_read pkg attr =
     (if attr \<in> {PKG_COMMENT, PKG_DESC} then trimmed (pkg_get pkg attr)
      else if attr = PKG_MESSAGE then message_read (pkg_get pkg attr)
      else if attr = PKG_PKGSIZE then positive (pkg_get pkg attr)
      else if attr = PKG_ANNOTATIONS then kept_annotations (pkg_get pkg attr)
      else if attr \<in> set recopies \<union> {PKG_REPOPATH, PKG_LICENSE_LOGIC, PKG_LICENSES, PKG_CATEGORIES} then pkg_get pkg attr
      else None)"

definition survives :: "bool \<Rightarrow> bool \<Rightarrow> struct_pkg \<Rightarrow> struct_pkg \<Rightarrow> bool" where
  "survives compact nofiles pkg pkg' \<longleftrightarrow> (\<forall>attr. pkg_get pkg' attr = attribute_read pkg attr)
     \<and> pk_deps pkg' = pk_deps pkg \<and> pk_options pkg' = pk_options pkg \<and> pk_users pkg' = pk_users pkg \<and> pk_groups pkg' = pk_groups pkg
     \<and> pk_shlibs_required pkg' = pk_shlibs_required pkg \<and> pk_shlibs_provided pkg' = pk_shlibs_provided pkg
     \<and> pk_files pkg' = (if compact \<or> nofiles then [] else pk_files pkg) \<and> pk_dirs pkg' = (if compact \<or> nofiles then [] else pk_dirs pkg)
     \<and> pk_scripts pkg' = (\<lambda>i. if compact then None else map_option ucl_trim (pk_scripts pkg i))
     \<and> pk_conflicts pkg' = [] \<and> pk_provides pkg' = [] \<and> pk_rdeps pkg' = []"

definition typed :: "ucl_type \<Rightarrow> ucl option \<Rightarrow> bool" where
  "typed t o1 \<longleftrightarrow> (\<forall>v. o1 = Some v \<longrightarrow> ucl_type_of v = t)"

lemma read_attribute:
  "typed T_STRING o1 \<Longrightarrow> read_entry e (key_name PKG_NAME, o1) pkg = Ret (opt_field PKG_NAME o1 pkg)"
  "typed T_STRING o1 \<Longrightarrow> read_entry e (key_name PKG_ORIGIN, o1) pkg = Ret (opt_field PKG_ORIGIN o1 pkg)"
  "typed T_STRING o1 \<Longrightarrow> read_entry e (key_name PKG_VERSION, o1) pkg = Ret (opt_field PKG_VERSION o1 pkg)"
  "typed T_STRING o1 \<Longrightarrow> read_entry e (key_name PKG_ARCH, o1) pkg = Ret (opt_field PKG_ARCH o1 pkg)"
  "typed T_STRING o1 \<Longrightarrow> read_entry e (key_name PKG_MAINTAINER, o1) pkg = Ret (opt_field PKG_MAINTAINER o1 pkg)"
  "typed T_STRING o1 \<Longrightarrow> read_entry e (key_name PKG_PREFIX, o1) pkg = Ret (opt_field PKG_PREFIX o1 pkg)"
  "typed T_STRING o1 \<Longrightarrow> read_entry e (key_name PKG_WWW, o1) pkg = Ret (opt_field PKG_WWW o1 pkg)"
  "typed T_STRING o1 \<Longrightarrow> read_entry e (key_name PKG_CKSUM, o1) pkg = Ret (opt_field PKG_CKSUM o1 pkg)"
  "typed T_INT o1 \<Longrightarrow> read_entry e (key_name PKG_FLATSIZE, o1) pkg = Ret (opt_field PKG_FLATSIZE o1 pkg)"
  "typed T_STRING o1 \<Longrightarrow> read_entry e (''comment'', o1) pkg = Ret (opt_field PKG_COMMENT o1 pkg)"
  "typed T_STRING o1 \<Longrightarrow> read_entry e (''path'', o1) pkg = Ret (opt_field PKG_REPOPATH o1 pkg)"
  "typed T_STRING o1 \<Longrightarrow> read_entry e (''repopath'', o1) pkg = Ret (opt_field PKG_REPOPATH o1 pkg)"
  "typed T_STRING o1 \<Longrightarrow> read_entry e (''message'', o1) pkg = Ret (opt_field PKG_MESSAGE o1 pkg)"
  "typed T_INT o1 \<Longrightarrow> read_entry e (''pkgsize'', o1) pkg = Ret (opt_field PKG_PKGSIZE o1 pkg)"
  by (rule read_string read_int; simp add: typed_def manifest_keys_def key_name_def key_type_def pkg_keys_def)+

lemma opt_field_lists [simp]:
  "pk_deps (opt_field a v pkg) = pk_deps pkg" "pk_rdeps (opt_field a v pkg) = pk_rdeps pkg" "pk_files (opt_field a v pkg) = pk_files pkg"
  "pk_dirs (opt_field a v pkg) = pk_dirs pkg" "pk_options (opt_field a v pkg) = pk_options pkg" "pk_users (opt_field a v pkg) = pk_users pkg"
  "pk_groups (opt_field a v pkg) = pk_groups pkg" "pk_shlibs_required (opt_field a v pkg) = pk_shlibs_required pkg"
  "pk_shlibs_provided (opt_field a v pkg) = pk_shlibs_provided pkg" "pk_conflicts (opt_field a v pkg) = pk_conflicts pkg"
  "pk_provides (opt_field a v pkg) = pk_provides pkg" "pk_scripts (opt_field a v pkg) = pk_scripts pkg"
  by (cases v; simp add: opt_field_def set_field_def)+

lemma pkg_get_lists [simp]:
  "pkg_get (pkg\<lparr>pk_deps := x1\<rparr>) = pkg_get pkg" "pkg_get (pkg\<lparr>pk_users := x2\<rparr>) = pkg_get pkg" "pkg_get (pkg\<lparr>pk_groups := x3\<rparr>) = pkg_get pkg"
  "pkg_get (pkg\<lparr>pk_shlibs_required := x4\<rparr>) = pkg_get pkg" "pkg_get (pkg\<lparr>pk_shlibs_provided := x5\<rparr>) = pkg_get pkg"
  "pkg_get (pkg\<lparr>pk_options := x6\<rparr>) = pkg_get pkg" "pkg_get (pkg\<lparr>pk_files := x7\<rparr>) = pkg_get pkg" "pkg_get (pkg\<lparr>pk_dirs := x8\<rparr>) = pkg_get pkg"
  "pkg_get (pkg\<lparr>pk_scripts := x9\<rparr>) = pkg_get pkg"
  by (simp_all add: fun_eq_iff pkg_get_def)

lemma pkg_new_facts: "pkg_get (pkg_new t) attr = None" "pk_deps (pkg_new t) = []" "pk_users (pkg_new t) = []" "pk_groups (pkg_new t) = []"
  "pk_shlibs_required (pkg_new t) = []" "pk_shlibs_provided (pkg_new t) = []" "pk_options (pkg_new t) = []" "pk_files (pkg_new t) = []"
  "pk_dirs (pkg_new t) = []" "pk_scripts (pkg_new t) = (\<lambda>_. None)" "pk_conflicts (pkg_new t) = []" "pk_provides (pkg_new t) = []"
  "pk_rdeps (pkg_new t) = []" "pk_fields (pkg_new t) = []"
  by (simp_all add: pkg_new_def pkg_get_def ucl_object_find_key_def hash_find_def)

lemma manifest_okD:
  assumes "manifest_ok pkg"
  shows "typed (key_type attr) (pkg_get pkg attr)"
    and "map_option (\<lambda>s. UCL_STRING (ucl_trim s)) (pkg_get_string pkg PKG_COMMENT) = trimmed (pkg_get pkg PKG_COMMENT)"
    and "map_option UCL_STRING (pkg_get_string pkg PKG_REPOPATH) = pkg_get pkg PKG_REPOPATH"
    and "(if pkg_get_int pkg PKG_PKGSIZE > 0 then Some (UCL_INT (pkg_get_int pkg PKG_PKGSIZE)) else None) = positive (pkg_get pkg PKG_PKGSIZE)"
    and "(case pkg_get_string pkg PKG_MESSAGE of None \<Rightarrow> None | Some s \<Rightarrow> if s = [] then None else Some (emit_text s))
      = message_read (pkg_get pkg PKG_MESSAGE)"
proof -
  show t: "typed (key_type attr) (pkg_get pkg attr)" for attr
    using assms all_attrs [of attr] by (auto simp: manifest_ok_def typed_def split: option.splits)
  have ty: "key_type PKG_REPOPATH = T_STRING" "key_type PKG_PKGSIZE = T_INT" by (simp_all add: key_type_def pkg_keys_def)
  show "map_option (\<lambda>s. UCL_STRING (ucl_trim s)) (pkg_get_string pkg PKG_COMMENT) = trimmed (pkg_get pkg PKG_COMMENT)"
    by (cases "pkg_get pkg PKG_COMMENT") (simp_all add: pkg_get_string_def trimmed_def)
  show "map_option UCL_STRING (pkg_get_string pkg PKG_REPOPATH) = pkg_get pkg PKG_REPOPATH"
  proof (cases "pkg_get pkg PKG_REPOPATH")
    case (Some v)
    then show ?thesis using t [of PKG_REPOPATH] ty(1) by (cases v) (simp_all add: typed_def pkg_get_string_def ucl_object_tostring_forced_def)
  qed (simp add: pkg_get_string_def)
  show "(if pkg_get_int pkg PKG_PKGSIZE > 0 then Some (UCL_INT (pkg_get_int pkg PKG_PKGSIZE)) else None) = positive (pkg_get pkg PKG_PKGSIZE)"
  proof (cases "pkg_get pkg PKG_PKGSIZE")
    case (Some v)
    then show ?thesis using t [of PKG_PKGSIZE] ty(2) by (cases v) (simp_all add: typed_def pkg_get_int_def positive_def ucl_object_toint_def)
  qed (simp add: pkg_get_int_def positive_def)
  show "(case pkg_get_string pkg PKG_MESSAGE of None \<Rightarrow> None | Some s \<Rightarrow> if s = [] then None else Some (emit_text s))
      = message_read (pkg_get pkg PKG_MESSAGE)"
    by (cases "pkg_get pkg PKG_MESSAGE") (simp_all add: pkg_get_string_def message_read_def emit_text_def urlencode_trim Let_def)
qed

lemma read_logic_attr:
  assumes "logic_ok (pkg_get pkg PKG_LICENSE_LOGIC)"
  shows "read_entry e (''licenselogic'', map_option UCL_STRING (logic_name (pkg_get_int pkg PKG_LICENSE_LOGIC))) q
    = Ret (opt_field PKG_LICENSE_LOGIC (pkg_get pkg PKG_LICENSE_LOGIC) q)"
proof -
  have "(if pkg_get_int pkg PKG_LICENSE_LOGIC \<in> {LICENSE_SINGLE, LICENSE_AND, LICENSE_OR} then Some (UCL_INT (pkg_get_int pkg PKG_LICENSE_LOGIC)) else None)
      = pkg_get pkg PKG_LICENSE_LOGIC"
    using assms by (auto simp: logic_ok_def pkg_get_int_def ucl_object_toint_def LICENSE_SINGLE_def LICENSE_AND_def LICENSE_OR_def)
  then show ?thesis using read_logic [of e "pkg_get_int pkg PKG_LICENSE_LOGIC" q] by simp
qed

lemma get_opt_other: "a \<noteq> b \<Longrightarrow> pkg_get (opt_field a v pkg) b = pkg_get pkg b"
  by (simp add: pkg_get_opt_field)

lemma get_opt_same: "pkg_get pkg a = None \<or> pkg_get pkg a = v \<Longrightarrow> pkg_get (opt_field a v pkg) a = v"
  by (cases v) (simp_all add: pkg_get_opt_field)

lemma all_attributes: "(\<forall>attr. P attr) \<longleftrightarrow> (\<forall>attr \<in> set all_attrs. P attr)"
  using all_attrs by blast

lemma desc_read: "map_option (\<lambda>s. UCL_STRING (ucl_trim s)) (pkg_get_string pkg PKG_DESC) = trimmed (pkg_get pkg PKG_DESC)"
  by (cases "pkg_get pkg PKG_DESC") (simp_all add: pkg_get_string_def trimmed_def)

lemma typed_others [simp]: "typed T_STRING (trimmed o1)" "typed T_INT (positive o1)" "typed T_STRING (message_read o1)" "typed t None"
  by (auto simp: typed_def trimmed_def positive_def message_read_def Let_def split: option.splits ucl.splits if_splits)

lemma read_manifest:
  assumes "manifest_ok pkg"
  shows "\<exists>pkg'. run_fold (read_entry e) (manifest_entries pkg compact nofiles) (pkg_new t) = Ret pkg' \<and> survives compact nofiles pkg pkg'"
proof -
  note t = manifest_okD(1) [OF assms]
  have ts: "typed T_STRING (pkg_get pkg PKG_NAME)" "typed T_STRING (pkg_get pkg PKG_ORIGIN)" "typed T_STRING (pkg_get pkg PKG_VERSION)"
    "typed T_STRING (pkg_get pkg PKG_ARCH)" "typed T_STRING (pkg_get pkg PKG_MAINTAINER)" "typed T_STRING (pkg_get pkg PKG_PREFIX)"
    "typed T_STRING (pkg_get pkg PKG_WWW)" "typed T_STRING (pkg_get pkg PKG_CKSUM)" "typed T_INT (pkg_get pkg PKG_FLATSIZE)"
    "typed T_STRING (pkg_get pkg PKG_REPOPATH)"
    using t [of PKG_NAME] t [of PKG_ORIGIN] t [of PKG_VERSION] t [of PKG_ARCH] t [of PKG_MAINTAINER] t [of PKG_PREFIX] t [of PKG_WWW]
      t [of PKG_CKSUM] t [of PKG_FLATSIZE] t [of PKG_REPOPATH] by (simp_all add: key_type_def pkg_keys_def)
  have ok: "logic_ok (pkg_get pkg PKG_LICENSE_LOGIC)" "array_ok (pkg_get pkg PKG_LICENSES)" "array_ok (pkg_get pkg PKG_CATEGORIES)"
    "annotations_ok (pkg_get pkg PKG_ANNOTATIONS)" "deps_ok (pk_deps pkg)" "options_ok (pk_options pkg)" "users_ok (pk_users pkg)"
    "groups_ok (pk_groups pkg)" "names_ok (pk_shlibs_required pkg)" "names_ok (pk_shlibs_provided pkg)" "files_ok (pk_files pkg)"
    "dirs_ok (pk_dirs pkg)" "scripts_ok (pk_scripts pkg)" "pk_conflicts pkg = []" "pk_provides pkg = []"
    using assms by (simp_all add: manifest_ok_def)
  have d: "\<forall>s. pkg_get_string pkg PKG_DESC = Some s \<longrightarrow> c_string s" using assms by (auto simp: manifest_ok_def)
  have none: "read_entry e (k, if b then None else o1) q = (if b then Ret q else read_entry e (k, o1) q)" for b k o1 q
    by (simp add: read_entry_simps)
  have run: "\<exists>q. run_fold (read_entry e) (manifest_entries pkg compact nofiles) (pkg_new t) = Ret q \<and> survives compact nofiles pkg q"
    if "compact = c" "nofiles = n" for c n
    unfolding manifest_entries_def recopies_def list.map append.simps manifest_okD(2-5) [OF assms] that
    using ts ok
    apply (cases c; cases n)
    apply (simp_all add: read_attribute read_logic_attr read_licenses read_categories read_desc [OF d] desc_read read_deps
      read_users read_groups read_shlibs_required read_shlibs_provided read_options read_annotations read_entry_simps read_files
      read_directories read_scripts pkg_new_facts get_opt_other)
    apply (simp_all add: survives_def all_attributes all_attrs_def pkg_keys_def attribute_read_def recopies_def
      get_opt_other get_opt_same pkg_new_facts)
    done
  then show ?thesis by blast
qed

text \<open>No entry sends the text to the YAML parser.\<close>

definition entry_known :: "string \<times> ucl option \<Rightarrow> bool" where
  "entry_known en \<longleftrightarrow> (\<forall>v. snd en = Some v \<longrightarrow> \<not> type_unknown manifest_table (Some (fst en), [v]))"

definition known_key :: "string \<Rightarrow> ucl_type \<Rightarrow> bool" where
  "known_key k t \<longleftrightarrow> list_ex (\<lambda>(k', attr, t', p). k' = k \<and> t' = t) manifest_keys"

lemma known_entry:
  assumes "typed t o1" "known_key k t"
  shows "entry_known (k, o1)"
proof -
  obtain attr p where "(k, attr, t, p) \<in> set manifest_keys" using assms(2) by (auto simp: known_key_def list_ex_iff)
  then show ?thesis using assms(1) read_known(2) [of k attr _ p "[]"] by (auto simp: entry_known_def typed_def)
qed

lemma known_keys:
  "\<forall>attr \<in> set recopies. known_key (key_name attr) (key_type attr)"
  "\<forall>k \<in> set [''comment'', ''path'', ''repopath'', ''licenselogic'', ''desc'', ''message'']. known_key k T_STRING"
  "\<forall>k \<in> set [''licenses'', ''categories'', ''users'', ''groups'', ''shlibs_required'', ''shlibs_provided'']. known_key k T_ARRAY"
  "\<forall>k \<in> set [''deps'', ''options'', ''annotations'', ''files'', ''directories'', ''scripts'']. known_key k T_OBJECT"
  "known_key ''pkgsize'' T_INT"
  by code_simp+

lemma typed_map: "typed T_OBJECT (ucl_map kvs)" "typed T_ARRAY (ucl_seq ns)" "typed T_STRING (map_option UCL_STRING s)"
  "typed T_STRING (map_option emit_text s)" "typed T_OBJECT (emit_annotations pkg)" "typed t (if b then None else o1) \<longleftrightarrow> b \<or> typed t o1"
  by (auto simp: typed_def ucl_map_def ucl_seq_def emit_text_def emit_annotations_def)

lemma array_ok_typed: "array_ok o1 \<Longrightarrow> typed T_ARRAY o1"
  by (auto simp: array_ok_def typed_def split: option.splits ucl.splits)

lemma entries_known:
  assumes "manifest_ok pkg"
  shows "\<forall>en \<in> set (manifest_entries pkg compact nofiles). entry_known en"
proof -
  note t = manifest_okD(1) [OF assms]
  have r: "entry_known (key_name attr, pkg_get pkg attr)" if "attr \<in> set recopies" for attr
    using known_entry [OF t] known_keys(1) that by blast
  have ok: "array_ok (pkg_get pkg PKG_LICENSES)" "array_ok (pkg_get pkg PKG_CATEGORIES)" using assms by (simp_all add: manifest_ok_def)
  have rp: "typed T_STRING (pkg_get pkg PKG_REPOPATH)" using t [of PKG_REPOPATH] by (simp add: key_type_def pkg_keys_def)
  have o: "typed T_OBJECT (emit_deps pkg)" "typed T_OBJECT (emit_options pkg)" "typed T_OBJECT (emit_files pkg)"
    "typed T_OBJECT (emit_directories pkg)" "typed T_OBJECT (emit_scripts pkg)"
    by (simp_all add: emit_deps_def emit_options_def emit_files_def emit_directories_def emit_scripts_def typed_map)
  have n: "entry_known (k, None)" for k by (simp add: entry_known_def)
  show ?thesis
    unfolding manifest_entries_def manifest_okD(2-5) [OF assms]
    using known_keys(2-5) by (simp add: r n known_entry [OF typed_others(1)] known_entry [OF typed_others(2)] known_entry [OF typed_others(3)]
      known_entry [OF rp] known_entry [OF typed_map(3)] known_entry [OF array_ok_typed [OF ok(1)]] known_entry [OF array_ok_typed [OF ok(2)]]
      known_entry [OF typed_map(4)] known_entry [OF o(1)] known_entry [OF typed_map(2)] known_entry [OF o(2)]
      known_entry [OF typed_map(5)] known_entry [OF o(3)] known_entry [OF o(4)] known_entry [OF o(5)])
qed

lemma emitted_object:
  "foldl insert_some [] (manifest_entries pkg compact nofiles) = map (\<lambda>(k, v). (k, [v])) (present (manifest_entries pkg compact nofiles))"
  using foldl_insert_distinct [OF present_distinct [OF manifest_keys_distinct], where h = "[]"]
  by (simp add: insert_some_present hash_find_def)

lemma present_entry: "(k, v) \<in> set (present entries) \<longleftrightarrow> (k, Some v) \<in> set entries"
  by (force simp: present_def split: option.splits)


text \<open>A package that has something of everything.\<close>

definition full_pkg :: struct_pkg where
  "full_pkg = (pkg_new PKG_FILE)\<lparr>
     pk_fields := [(''name'', [UCL_STRING ''zsh'']), (''origin'', [UCL_STRING ''shells/zsh'']), (''version'', [UCL_STRING ''5.0'']),
       (''comment'', [UCL_STRING '' The Z shell '']), (''desc'', [UCL_STRING ''100% shell'']), (''flatsize'', [UCL_INT 12]),
       (''licenselogic'', [UCL_INT 1]), (''licenses'', [UCL_ARRAY [UCL_STRING ''ZSH'']]), (''categories'', [UCL_ARRAY [UCL_STRING ''shells'']]),
       (''annotations'', [UCL_OBJECT [(''repository'', [UCL_STRING ''r'']), (''built'', [UCL_STRING ''now''])]]),
       (''message'', [UCL_STRING ''50%''])],
     pk_deps := [(''devel/pcre'', new_dep ''pcre'' ''devel/pcre'' ''8.3'' False)],
     pk_options := [(''DOCS'', (no_option ''DOCS'')\<lparr>so_value := Some ''on''\<rparr>)],
     pk_users := [(''z'', \<lparr>su_name = ''z'', su_uidstr = []\<rparr>)],
     pk_shlibs_required := [''libc.so.7'', ''libpcre.so.3''],
     pk_files := [(''/bin/z%sh'', \<lparr>sf_path = ''/bin/z%sh'', sf_sum = [], sf_uname = [], sf_gname = [], sf_perm = 0\<rparr>)],
     pk_dirs := [(''/etc/z'', \<lparr>sd_path = ''/etc/z'', sd_uname = [], sd_gname = [], sd_perm = 0, sd_try = True\<rparr>)],
     pk_scripts := (\<lambda>_. None)(PKG_SCRIPT_POST_INSTALL := Some ''echo'')\<rparr>"

definition manifest_env_of :: "ucl \<Rightarrow> manifest_env" where
  "manifest_env_of obj = \<lparr>me_developer_mode = False, me_setmode = (\<lambda>_. None), me_ucl_parse = (\<lambda>_. Some (Some obj)),
     me_yaml_to_ucl = (\<lambda>_. None), me_ucl_emit = (\<lambda>_ _ _. ''manifest''), me_sha256 = (\<lambda>_. [])\<rparr>"


end
