(* ===== verification/Manifest_reading.thy ===== *)
theory Manifest_reading
  imports Manifests
begin

text \<open>
  What the parser of manifests (theory Manifests, \<open>libpkg/pkg_manifest.c\<close>) makes of any object: the package that is read is
  well formed, a manifest without empty names is read without a failing assertion, and one that has conflicts gives a package
  that cannot be written.
\<close>

section \<open>What the parser keeps\<close>

text \<open>
  The parser fills a package through the functions of \<open>pkg.c\<close> only. An invariant that each of them keeps is kept by the parser, whatever
  it reads.
\<close>

lemma run_fold_all:
  "(\<And>x s. x \<in> set xs \<Longrightarrow> P s \<Longrightarrow> run_all P (f x s)) \<Longrightarrow> P s \<Longrightarrow> run_all P (run_fold f xs s)"
proof (induction xs arbitrary: s)
  case (Cons x xs)
  then show ?case by (auto intro!: run_all_bind [where P = P])
qed simp

text \<open>The parsers of texts and numbers are given plain attributes only.\<close>

definition plain_attr :: "parse_data \<Rightarrow> manifest_attr \<Rightarrow> bool" where
  "plain_attr p type \<longleftrightarrow> (p = pkg_string_p \<or> p = pkg_int_p) \<longrightarrow> type \<notin> {Attr PKG_LICENSES, Attr PKG_CATEGORIES, Attr PKG_ANNOTATIONS}"

lemma manifest_table_plain:
  "list_all (\<lambda>(k, sk). list_all (\<lambda>(t, p). plain_attr p (mk_type sk)) (mk_parser sk)) manifest_table"
  by code_simp

locale package_filling =
  fixes inv :: "struct_pkg \<Rightarrow> bool"
  assumes set_plain: "inv pkg \<Longrightarrow> ucl_type_of v = key_type attr \<Longrightarrow> attr \<notin> {PKG_LICENSES, PKG_CATEGORIES, PKG_ANNOTATIONS}
      \<Longrightarrow> inv (set_field attr v pkg)"
    and add_array: "inv pkg \<Longrightarrow> attr \<in> {PKG_LICENSES, PKG_CATEGORIES} \<Longrightarrow> run_all (\<lambda>(rc, p). inv p) (append_to_array dev pkg attr name)"
    and add_annotation: "inv pkg \<Longrightarrow> run_all (\<lambda>(rc, p). inv p) (pkg_addannotation pkg name value)"
    and add_uid: "inv pkg \<Longrightarrow> run_all (\<lambda>(rc, p). inv p) (pkg_adduid dev pkg name uid)"
    and add_gid: "inv pkg \<Longrightarrow> run_all (\<lambda>(rc, p). inv p) (pkg_addgid dev pkg name gid)"
    and add_opt: "inv pkg \<Longrightarrow> run_all (\<lambda>(rc, p). inv p) (add_option field upd hkey dev pkg name value)"
    and add_dep: "inv pkg \<Longrightarrow> run_all (\<lambda>(rc, p). inv p) (pkg_adddep dev pkg name origin version False)"
    and add_file: "inv pkg \<Longrightarrow> run_all (\<lambda>(rc, p). inv p) (pkg_addfile_attr dev pkg name sha uname gname perm dup)"
    and add_dir: "inv pkg \<Longrightarrow> run_all (\<lambda>(rc, p). inv p) (pkg_adddir_attr dev pkg name uname gname perm try dup)"
    and add_required: "inv pkg \<Longrightarrow> run_all (\<lambda>(rc, p). inv p) (pkg_addshlib_required pkg name)"
    and add_provided: "inv pkg \<Longrightarrow> run_all (\<lambda>(rc, p). inv p) (pkg_addshlib_provided pkg name)"
    and add_provide: "inv pkg \<Longrightarrow> run_all (\<lambda>(rc, p). inv p) (pkg_addprovide pkg name)"
    and add_conflict: "inv pkg \<Longrightarrow> run_all (\<lambda>(rc, p). inv p) (pkg_addconflict pkg name)"
    and add_script: "inv pkg \<Longrightarrow> inv (snd (pkg_addscript pkg name type))"
begin

abbreviation kept :: "(epkg \<times> struct_pkg) run \<Rightarrow> bool" where
  "kept m \<equiv> run_all (\<lambda>(rc, p). inv p) m"

lemma kept_names:
  assumes "inv pkg"
  shows "kept (pkg_adduid dev pkg n uid)" "kept (pkg_addgid dev pkg n gid)" "kept (pkg_adduser dev pkg n)" "kept (pkg_addgroup dev pkg n)"
    "kept (pkg_addoption dev pkg n v)" "kept (pkg_addoption_default dev pkg n v)" "kept (pkg_addoption_description dev pkg n v)"
    "kept (pkg_addlicense dev pkg n)" "kept (pkg_addcategory dev pkg n)" "kept (pkg_addfile dev pkg n sha dup)" "kept (pkg_adddir dev pkg n try dup)"
  using assms by (simp_all add: add_uid add_gid add_opt add_array add_file add_dir pkg_adduser_def pkg_addgroup_def pkg_addoption_def
    pkg_addoption_default_def pkg_addoption_description_def pkg_addlicense_def pkg_addcategory_def pkg_addfile_def pkg_adddir_def)

lemma kept_string:
  assumes "inv pkg" "attr \<notin> {PKG_LICENSES, PKG_CATEGORIES, PKG_ANNOTATIONS}"
  shows "kept (pkg_string pkg obj attr)" "kept (pkg_int pkg obj attr)"
proof -
  have s: "inv (set_field attr v pkg)" if "ucl_type_of v = key_type attr" for v
    by (rule set_plain [OF assms(1) that assms(2)])
  have l: "key_type PKG_LICENSE_LOGIC = T_INT" by (simp add: key_type_def pkg_keys_def)
  have p: "run_all inv (pkg_set pkg attr a)" if "\<forall>o1. a \<noteq> SetObj o1" "a \<noteq> SetStr None" for a
    using s that by (auto simp: pkg_set_def Let_def split: set_arg.split ucl_type.split option.split)
  show "kept (pkg_string pkg obj attr)"
    using p assms(1) by (auto simp: pkg_string_def Let_def split: option.split intro!: run_all_bind [where P = inv])
  show "kept (pkg_int pkg obj attr)"
    using p by (auto simp: pkg_int_def intro!: run_all_bind [where P = inv])
qed

lemma kept_ignore: "kept m \<Longrightarrow> run_all inv (ignore_code m)"
  unfolding ignore_code_def by (rule run_all_bind [where P = "\<lambda>(rc, pkg). inv pkg"]) auto

lemma kept_objects:
  assumes "inv pkg"
  shows "kept (pkg_set_files_from_object e pkg cur)" "kept (pkg_set_dirs_from_object e pkg cur)" "kept (pkg_set_deps_from_object e pkg cur)"
proof -
  have d: "run_all (\<lambda>_. True) (decode_key k)" for k by (cases "decode_key k") simp_all
  show "kept (pkg_set_files_from_object e pkg cur)"
    using assms add_file [OF assms] unfolding pkg_set_files_from_object_def
    by (auto split: option.split intro!: run_all_bind [OF d] run_all_bind [where P = "\<lambda>(rc, pkg). inv pkg"] simp: Let_def)
  show "kept (pkg_set_dirs_from_object e pkg cur)"
    using assms add_dir [OF assms] unfolding pkg_set_dirs_from_object_def
    by (auto split: option.split intro!: run_all_bind [OF d] run_all_bind [where P = "\<lambda>(rc, pkg). inv pkg"] simp: Let_def)
  have step: "run_all (\<lambda>st. inv (snd st)) (add_dep_object e okey self st)" if "inv (snd st)" for okey self st
    using that kept_ignore [OF add_dep] unfolding add_dep_object_def
    by (auto simp: Let_def split: prod.split option.split intro!: run_all_bind [where P = inv])
  show "kept (pkg_set_deps_from_object e pkg cur)"
    using assms step unfolding pkg_set_deps_from_object_def
    by (auto split: option.split intro!: run_all_bind [where P = "\<lambda>st. inv (snd st)"] run_fold_all)
qed

lemma kept_decode: "(\<And>s. run_all inv (f s)) \<Longrightarrow> run_all inv (run_bind (decode_key k) f)"
  by (cases "decode_key k") simp_all

lemma inv_obj_elem:
  assumes "inv pkg"
  shows "run_all inv (obj_elem e attr cur pkg)"
proof (cases "fst cur")
  case (Some key)
  have s: "run_all inv (Ret (snd (pkg_addscript pkg data type)))" for data type
    using add_script [OF assms] by simp
  note k = kept_objects [OF assms] kept_names [OF assms] add_annotation [OF assms]
  note i = k [THEN kept_ignore]
  show ?thesis
  proof (cases attr)
    case (List l)
    show ?thesis unfolding obj_elem_def Some Let_def List
      by (cases l; cases "head_of cur"; simp add: assms i kept_decode)
  next
    case (Attr a)
    show ?thesis unfolding obj_elem_def Some Let_def Attr
      by (cases a; cases "head_of cur"; simp add: assms i kept_decode)
  qed (cases "head_of cur"; auto simp: obj_elem_def Some assms i intro!: kept_decode s split: option.split; fail)+
qed (simp add: obj_elem_def assms)

lemma kept_pkg_obj: "inv pkg \<Longrightarrow> kept (pkg_obj e pkg obj attr)"
  unfolding pkg_obj_def by (rule run_all_bind [where P = inv], rule run_fold_all) (simp_all add: inv_obj_elem)

lemma inv_array_elem:
  assumes "inv pkg"
  shows "run_all inv (array_elem e attr cur pkg)"
proof -
  note k = kept_names [OF assms] add_required [OF assms] add_provided [OF assms] add_provide [OF assms] add_conflict [OF assms]
    kept_pkg_obj [OF assms]
  note i = k [THEN kept_ignore]
  show ?thesis
  proof (cases attr)
    case (List l)
    show ?thesis unfolding array_elem_def Let_def List
      by (cases l; cases "head_of cur"; simp add: assms i)
  next
    case (Attr a)
    show ?thesis unfolding array_elem_def Let_def Attr
      by (cases a; cases "head_of cur"; simp add: assms i)
  qed (simp_all add: array_elem_def assms)
qed

lemma kept_pkg_array: "inv pkg \<Longrightarrow> kept (pkg_array e pkg obj attr)"
  unfolding pkg_array_def by (rule run_all_bind [where P = inv], rule run_fold_all) (simp_all add: inv_array_elem)

lemma inv_manifest_elem:
  assumes "inv pkg"
  shows "run_all inv (manifest_elem e manifest_table cur pkg)"
proof (cases "Option.bind (fst cur) (\<lambda>key. hash_find key manifest_table)")
  case (Some sk)
  then obtain key where sk: "(key, sk) \<in> set manifest_table" by (auto simp: bind_eq_Some_conv hash_find_def dest: map_of_SomeD)
  show ?thesis
  proof (cases "hash_find (ucl_type_of (head_of cur)) (mk_parser sk)")
    case dp: (Some dp)
    then have "(ucl_type_of (head_of cur), dp) \<in> set (mk_parser sk)" by (auto simp: hash_find_def dest: map_of_SomeD)
    then have "plain_attr dp (mk_type sk)" using sk manifest_table_plain by (fastforce simp: list_all_iff)
    then have "kept (run_parse_data e dp pkg cur (mk_type sk))"
      using kept_pkg_obj [OF assms] kept_pkg_array [OF assms] kept_string [OF assms]
      by (auto simp: run_parse_data_def plain_attr_def split: parse_data.split manifest_attr.split)
    then show ?thesis using Some dp kept_ignore by (simp add: manifest_elem_def)
  qed (simp add: manifest_elem_def assms Some)
qed (simp add: manifest_elem_def assms)

lemma kept_parse_manifest:
  assumes "inv pkg"
  shows "run_all (\<lambda>(rc, pkg). rc = EPKG_OK \<and> inv pkg) (parse_manifest e pkg manifest_table obj)"
  unfolding parse_manifest_def
  by (rule run_all_bind [where P = inv], rule run_fold_all) (simp_all add: inv_manifest_elem assms)

end

section \<open>Any manifest gives a well-formed package\<close>

definition field_ok :: "string \<times> ucl list \<Rightarrow> bool" where
  "field_ok kc \<longleftrightarrow> (\<exists>attr. fst kc = key_name attr \<and> (\<exists>v. snd kc = [v] \<and> ucl_type_of v = key_type attr))"

definition deps_wf :: "(string, pkg_dep) uthash \<Rightarrow> bool" where
  "deps_wf ds \<longleftrightarrow> hash_wf ds \<and> (\<forall>(k, d) \<in> set ds. d = new_dep (dep_name d) k (dep_version d) False \<and> dep_name d \<noteq> [] \<and> k \<noteq> [] \<and> dep_version d \<noteq> [])"

definition files_wf :: "(string, struct_file) uthash \<Rightarrow> bool" where
  "files_wf fs \<longleftrightarrow> (\<forall>(k, f) \<in> set fs. k = sf_path f \<and> k \<noteq> [] \<and> length k < MAXPATHLEN \<and> length (sf_sum f) \<le> 64)"

definition dirs_wf :: "(string, struct_dir) uthash \<Rightarrow> bool" where
  "dirs_wf ds \<longleftrightarrow> (\<forall>(k, d) \<in> set ds. k = sd_path d \<and> k \<noteq> [] \<and> length k < MAXPATHLEN)"

text \<open>
  Attributes have the types of the table; licenses and categories are arrays of different names, annotations an object of strings;
  dependencies are different and complete; names of libraries, conflicts and provides are different and not empty; paths fit
  their buffers.
\<close>

definition pkg_wf :: "struct_pkg \<Rightarrow> bool" where
  "pkg_wf pkg \<longleftrightarrow> hash_wf (pk_fields pkg) \<and> (\<forall>kc \<in> set (pk_fields pkg). field_ok kc)
     \<and> array_ok (pkg_get pkg PKG_LICENSES) \<and> array_ok (pkg_get pkg PKG_CATEGORIES) \<and> annotations_ok (pkg_get pkg PKG_ANNOTATIONS)
     \<and> deps_wf (pk_deps pkg) \<and> names_ok (pk_shlibs_required pkg) \<and> names_ok (pk_shlibs_provided pkg) \<and> names_ok (pk_provides pkg)
     \<and> names_ok (map conf_uniqueid (pk_conflicts pkg)) \<and> files_wf (pk_files pkg) \<and> dirs_wf (pk_dirs pkg)"

text \<open>Together with: the conflicts with these names are registered.\<close>

definition reads_inv :: "string set \<Rightarrow> struct_pkg \<Rightarrow> bool" where
  "reads_inv C pkg \<longleftrightarrow> pkg_wf pkg \<and> C \<subseteq> conf_uniqueid ` set (pk_conflicts pkg)"

definition special :: "pkg_attr \<Rightarrow> ucl option \<Rightarrow> bool" where
  \<comment> \<open>what a value of the three structured attributes must fulfil\<close>
  "special attr o1 \<longleftrightarrow> (attr \<in> {PKG_LICENSES, PKG_CATEGORIES} \<longrightarrow> array_ok o1) \<and> (attr = PKG_ANNOTATIONS \<longrightarrow> annotations_ok o1)"

lemma inv_fields:
  assumes "reads_inv C pkg" "hash_wf h" "\<forall>kc \<in> set h. field_ok kc" "\<And>b. pkg_get (pkg\<lparr>pk_fields := h\<rparr>) b = pkg_get pkg b \<or> special b (pkg_get (pkg\<lparr>pk_fields := h\<rparr>) b)"
  shows "reads_inv C (pkg\<lparr>pk_fields := h\<rparr>)"
  using assms(1,2,3) assms(4) [of PKG_LICENSES] assms(4) [of PKG_CATEGORIES] assms(4) [of PKG_ANNOTATIONS]
  by (auto simp: reads_inv_def pkg_wf_def special_def)

lemma hash_wf_replace: "hash_wf h \<Longrightarrow> hash_wf (ucl_object_replace_key k v h)"
proof -
  assume "hash_wf h"
  then have "hash_wf (hash_del k h)" using uh.wf_del [of h k] by simp
  then show ?thesis using uh.wf_add [of "hash_del k h" k "[v]"] by (simp add: ucl_object_replace_key_def uh.find_del_same)
qed

lemma inv_set_field:
  assumes "reads_inv C pkg" "ucl_type_of v = key_type attr" "special attr (Some v)"
  shows "reads_inv C (set_field attr v pkg)"
  unfolding set_field_def
proof (rule inv_fields [OF assms(1)])
  let ?h = "ucl_object_replace_key (key_name attr) v (pk_fields pkg)"
  show "hash_wf ?h" using assms(1) by (simp add: reads_inv_def pkg_wf_def hash_wf_replace)
  show "\<forall>kc \<in> set ?h. field_ok kc" using assms(1,2)
    by (auto simp: reads_inv_def pkg_wf_def ucl_object_replace_key_def hash_add_def hash_del_def field_ok_def)
  show "pkg_get (pkg\<lparr>pk_fields := ?h\<rparr>) b = pkg_get pkg b \<or> special b (pkg_get (pkg\<lparr>pk_fields := ?h\<rparr>) b)" for b
    using pkg_get_set_field [of attr v pkg b] assms(3) by (auto simp: set_field_def)
qed

lemma pkg_get_upd_field:
  "pkg_get (pkg\<lparr>pk_fields := hash_upd (key_name a) (\<lambda>c. w # tl c) (pk_fields pkg)\<rparr>) b
    = (if a = b \<and> pkg_get pkg a \<noteq> None then Some w else pkg_get pkg b)"
  by (auto simp: pkg_get_def ucl_object_find_key_def hash_find_upd key_name_inject)

lemma inv_upd_field:
  assumes "reads_inv C pkg" "ucl_type_of w = key_type attr" "special attr (Some w)"
  shows "reads_inv C (pkg\<lparr>pk_fields := hash_upd (key_name attr) (\<lambda>c. w # tl c) (pk_fields pkg)\<rparr>)"
proof (rule inv_fields [OF assms(1)])
  let ?h = "hash_upd (key_name attr) (\<lambda>c. w # tl c) (pk_fields pkg)"
  show "hash_wf ?h" using assms(1) by (simp add: reads_inv_def pkg_wf_def)
  show "\<forall>kc \<in> set ?h. field_ok kc"
  proof
    fix kc assume "kc \<in> set ?h"
    then obtain k c where kc: "(k, c) \<in> set (pk_fields pkg)" "kc = (k, if k = key_name attr then w # tl c else c)"
      by (auto simp: hash_upd_def)
    then have "field_ok (k, c)" using assms(1) by (auto simp: reads_inv_def pkg_wf_def)
    then show "field_ok kc" using kc(2) assms(2) by (auto simp: field_ok_def key_name_inject)
  qed
  show "pkg_get (pkg\<lparr>pk_fields := ?h\<rparr>) b = pkg_get pkg b \<or> special b (pkg_get (pkg\<lparr>pk_fields := ?h\<rparr>) b)" for b
    using assms(3) by (auto simp: pkg_get_upd_field)
qed

lemma inv_pkg_new: "reads_inv {} (pkg_new t)"
  by (simp add: reads_inv_def pkg_wf_def pkg_new_facts array_ok_def annotations_ok_def deps_wf_def names_ok_def files_wf_def dirs_wf_def
    hash_wf_def)

abbreviation keeps :: "string set \<Rightarrow> (epkg \<times> struct_pkg) run \<Rightarrow> bool" where
  "keeps C m \<equiv> run_all (\<lambda>(rc, pkg). reads_inv C pkg) m"

lemma keeps_duplicate: "reads_inv C pkg \<Longrightarrow> keeps C (duplicate dev pkg)"
  by (simp add: duplicate_def)

lemma keeps_append:
  assumes "reads_inv C pkg" "attr \<in> {PKG_LICENSES, PKG_CATEGORIES}"
  shows "keeps C (append_to_array dev pkg attr name)"
proof -
  have ty: "key_type attr = T_ARRAY" using assms(2) by (auto simp: key_type_def pkg_keys_def)
  have ok: "array_ok (pkg_get pkg attr)" using assms by (auto simp: reads_inv_def pkg_wf_def)
  show ?thesis
  proof (cases "pkg_get pkg attr")
    case None
    then show ?thesis using inv_set_field [OF assms(1), of "UCL_ARRAY [UCL_STRING name]" attr] ty assms(2)
      by (auto simp: append_to_array_def special_def array_ok_def)
  next
    case (Some v)
    then obtain xs where v: "v = UCL_ARRAY xs" using ok by (cases v) (auto simp: array_ok_def)
    show ?thesis
    proof (cases "\<exists>x \<in> set xs. ucl_object_tostring_forced x = [] \<or> ucl_object_tostring_forced x = name")
      case True
      then show ?thesis using Some v keeps_duplicate [OF assms(1)] by (auto simp: append_to_array_def)
    next
      case False
      then have "UCL_STRING name \<notin> set xs" by (auto simp: ucl_object_tostring_forced_def)
      then have "special attr (Some (UCL_ARRAY (xs @ [UCL_STRING name])))" if "name \<noteq> []"
        using ok Some v that assms(2) by (auto simp: special_def array_ok_def)
      then show ?thesis using False Some v inv_upd_field [OF assms(1), of "UCL_ARRAY (xs @ [UCL_STRING name])" attr] ty
        by (auto simp: append_to_array_def)
    qed
  qed
qed

lemma keeps_annotation:
  assumes "reads_inv C pkg"
  shows "keeps C (pkg_addannotation pkg tag value)"
proof -
  have ty: "key_type PKG_ANNOTATIONS = T_OBJECT" by (simp add: key_type_def pkg_keys_def)
  have ok: "annotations_ok (pkg_get pkg PKG_ANNOTATIONS)" using assms by (simp add: reads_inv_def pkg_wf_def)
  show ?thesis
  proof (cases "pkg_get pkg PKG_ANNOTATIONS")
    case None
    then show ?thesis using inv_set_field [OF assms, of "UCL_OBJECT [(tag, [UCL_STRING value])]" PKG_ANNOTATIONS] ty
      by (simp add: pkg_addannotation_def special_def annotations_ok_def hash_wf_def)
  next
    case (Some v)
    then obtain h where v: "v = UCL_OBJECT h" using ok by (cases v) (auto simp: annotations_ok_def)
    show ?thesis
    proof (cases "hash_find tag h = None")
      case True
      then have "hash_wf (hash_add tag [UCL_STRING value] h)" using ok Some v uh.wf_add [of h tag "[UCL_STRING value]"] by (simp add: annotations_ok_def)
      then have "special PKG_ANNOTATIONS (Some (UCL_OBJECT (ucl_object_insert_key tag (UCL_STRING value) h)))"
        using ok Some v True by (simp add: special_def annotations_ok_def insert_absent hash_add_def)
      then show ?thesis
        using True Some v inv_upd_field [OF assms, of "UCL_OBJECT (ucl_object_insert_key tag (UCL_STRING value) h)" PKG_ANNOTATIONS] ty
        by (simp add: pkg_addannotation_def)
    next
      case False
      then show ?thesis using Some v assms by (simp add: pkg_addannotation_def)
    qed
  qed
qed

lemma pkg_get_others [simp]:
  "pkg_get (pkg\<lparr>pk_provides := x1\<rparr>) a = pkg_get pkg a" "pkg_get (pkg\<lparr>pk_conflicts := x2\<rparr>) a = pkg_get pkg a"
  by (simp_all add: pkg_get_def)

lemma inv_irrelevant [simp]:
  "reads_inv C (pkg\<lparr>pk_users := x1\<rparr>) = reads_inv C pkg" "reads_inv C (pkg\<lparr>pk_groups := x2\<rparr>) = reads_inv C pkg"
  "reads_inv C (pkg\<lparr>pk_options := x3\<rparr>) = reads_inv C pkg" "reads_inv C (pkg\<lparr>pk_scripts := x4\<rparr>) = reads_inv C pkg"
  by (simp_all add: reads_inv_def pkg_wf_def)

lemma keeps_irrelevant:
  assumes "reads_inv C pkg"
  shows "keeps C (pkg_adduid dev pkg n uid)" "keeps C (pkg_addgid dev pkg n gid)" "keeps C (add_option field upd hkey dev pkg k v)"
  using assms keeps_duplicate by (simp_all add: pkg_adduid_def pkg_addgid_def add_option_def Let_def split: option.split)

lemma keeps_dep:
  assumes "reads_inv C pkg"
  shows "keeps C (pkg_adddep dev pkg name origin version False)"
proof (cases "hash_find origin (pk_deps pkg) = None \<and> name \<noteq> [] \<and> origin \<noteq> [] \<and> version \<noteq> []")
  case True
  then have "hash_wf (hash_add origin (new_dep name origin version False) (pk_deps pkg))"
    using assms uh.wf_add [of "pk_deps pkg" origin] by (simp add: reads_inv_def pkg_wf_def deps_wf_def)
  then have "deps_wf (hash_add origin (new_dep name origin version False) (pk_deps pkg))"
    using assms True by (auto simp: reads_inv_def pkg_wf_def deps_wf_def hash_add_def new_dep_def)
  then show ?thesis using assms True by (simp add: pkg_adddep_def reads_inv_def pkg_wf_def)
next
  case False
  then show ?thesis using keeps_duplicate [OF assms] by (auto simp: pkg_adddep_def)
qed

lemma path_buf_ok: "path \<noteq> [] \<Longrightarrow> path_buf path \<noteq> [] \<and> length (path_buf path) < MAXPATHLEN"
  by (simp add: path_buf_def MAXPATHLEN_def)

lemma keeps_paths:
  assumes "reads_inv C pkg"
  shows "keeps C (pkg_addfile_attr dev pkg path sha uname gname perm dup)" "keeps C (pkg_adddir_attr dev pkg path uname gname perm try dup)"
  using assms path_buf_ok [of path] keeps_duplicate [OF assms]
  by (auto simp: pkg_addfile_attr_def pkg_adddir_attr_def Let_def hash_add_def reads_inv_def pkg_wf_def files_wf_def dirs_wf_def strlcpy_def)

lemma keeps_names:
  assumes "reads_inv C pkg"
  shows "keeps C (pkg_addshlib_required pkg name)" "keeps C (pkg_addshlib_provided pkg name)" "keeps C (pkg_addprovide pkg name)"
    "keeps (insert name C) (pkg_addconflict pkg name)"
  using assms by (auto simp: pkg_addshlib_required_def pkg_addshlib_provided_def pkg_addprovide_def pkg_addconflict_def add_name_def
    reads_inv_def pkg_wf_def names_ok_def)

lemma reads_inv_mono: "reads_inv D pkg \<Longrightarrow> C \<subseteq> D \<Longrightarrow> reads_inv C pkg"
  by (auto simp: reads_inv_def)

lemma keeps_conflict: "reads_inv C pkg \<Longrightarrow> keeps C (pkg_addconflict pkg name)"
  using keeps_names(4) [of C pkg name] reads_inv_mono by (auto elim!: run_all_mono)

interpretation reading: package_filling "reads_inv C" for C
proof
  show "reads_inv C (set_field attr v pkg)"
    if "reads_inv C pkg" "ucl_type_of v = key_type attr" "attr \<notin> {PKG_LICENSES, PKG_CATEGORIES, PKG_ANNOTATIONS}" for pkg attr v
    using inv_set_field [OF that(1,2)] that(3) by (simp add: special_def)
qed (simp_all add: keeps_append keeps_annotation keeps_irrelevant keeps_dep keeps_paths keeps_names keeps_conflict pkg_addscript_def)

text \<open>
  C15: Whatever the objects a manifest is made of (values of other types, unknown and repeated keys, empty names and so on), the package read from it into
  a new package is well formed: each attribute has the type of the table of attributes; licenses and categories are arrays of
  different texts and annotations an object of texts, the dependencies have different origins and no empty part, the names
  of libraries, provides and conflicts are not repeated, and each path fits its buffer of \<open>MAXPATHLEN\<close> bytes.
\<close>

theorem manifest_wf:
  "run_all (\<lambda>(rc, pkg). rc = EPKG_OK \<and> pkg_wf pkg) (parse_manifest e (pkg_new t) pkg_manifest_keys_new obj)"
  using reading.kept_parse_manifest [OF inv_pkg_new] by (rule run_all_mono) (auto simp: reads_inv_def)

section \<open>Which manifests are read\<close>

text \<open>A text that the assertions accept as a name, encoded or not.\<close>

definition clean_text :: "string \<Rightarrow> bool" where
  "clean_text s \<longleftrightarrow> s \<noteq> [] \<and> fst (urldecode s) = EPKG_OK \<and> snd (urldecode s) \<noteq> []"

fun clean_ucl :: "ucl \<Rightarrow> bool" where
  "clean_ucl (UCL_OBJECT h) = list_all (\<lambda>(k, c). clean_text k \<and> c \<noteq> [] \<and> list_all clean_ucl c) h"
| "clean_ucl (UCL_ARRAY xs) = list_all clean_ucl xs"
| "clean_ucl (UCL_STRING s) = clean_text s"
| "clean_ucl _ = True"

definition clean_node :: "ucl_node \<Rightarrow> bool" where
  "clean_node n \<longleftrightarrow> (\<forall>k. fst n = Some k \<longrightarrow> clean_text k) \<and> snd n \<noteq> [] \<and> list_all clean_ucl (snd n)"

lemma suffixes_clean: "s \<in> set (suffixes_of xs) \<Longrightarrow> list_all P xs \<Longrightarrow> s \<noteq> [] \<and> list_all P s"
  by (induction xs) auto

lemma iterate_clean:
  assumes "clean_node n" "n' \<in> set (ucl_iterate_object n b)"
  shows "clean_node n'"
proof -
  have lin: "clean_node n'" if "n' \<in> set (ucl_linear n)"
    using assms(1) that suffixes_clean by (fastforce simp: ucl_linear_def clean_node_def)
  obtain v c where v: "snd n = v # c" using assms(1) by (cases "snd n") (auto simp: clean_node_def)
  have cv: "clean_ucl v" using assms(1) v by (simp add: clean_node_def)
  show ?thesis
  proof (cases "n' \<in> set (ucl_linear n)")
    case False
    then consider h where "v = UCL_OBJECT h" "n' \<in> set (map (\<lambda>(k, c). (Some k, c)) h)"
      | xs where "v = UCL_ARRAY xs" "n' \<in> set (map (\<lambda>s. (None, s)) (suffixes_of xs))"
      using assms(2) v by (cases v) (auto simp: ucl_iterate_object_def split: if_splits)
    then show ?thesis
    proof cases
      case 1
      then show ?thesis using cv by (auto simp: clean_node_def list_all_iff)
    next
      case 2
      then show ?thesis using cv suffixes_clean [of _ xs clean_ucl] by (auto simp: clean_node_def)
    qed
  qed (rule lin)
qed

text \<open>A function that returns and leaves the options alone.\<close>

abbreviation adds :: "struct_pkg \<Rightarrow> (epkg \<times> struct_pkg) run \<Rightarrow> bool" where
  "adds pkg m \<equiv> run_returns (\<lambda>(rc, p). pk_options p = pk_options pkg) m"

lemma adds_duplicate [simp]: "adds pkg (duplicate dev pkg)"
  by (simp add: duplicate_def)

lemma adds_names:
  assumes "name \<noteq> []"
  shows "adds pkg (pkg_adduid dev pkg name uid)" "adds pkg (pkg_addgid dev pkg name gid)" "adds pkg (pkg_adduser dev pkg name)"
    "adds pkg (pkg_addgroup dev pkg name)" "adds pkg (pkg_addshlib_required pkg name)" "adds pkg (pkg_addshlib_provided pkg name)"
    "adds pkg (pkg_addprovide pkg name)" "adds pkg (pkg_addconflict pkg name)" "adds pkg (pkg_addfile_attr dev pkg name sha uname gname perm dup)"
    "adds pkg (pkg_adddir_attr dev pkg name uname gname perm try dup)" "adds pkg (pkg_addfile dev pkg name sha dup)"
    "adds pkg (pkg_adddir dev pkg name try dup)"
  using assms by (simp_all add: pkg_adduid_def pkg_addgid_def pkg_adduser_def pkg_addgroup_def pkg_addshlib_required_def
    pkg_addshlib_provided_def pkg_addprovide_def pkg_addconflict_def pkg_addfile_attr_def pkg_adddir_attr_def pkg_addfile_def pkg_adddir_def Let_def)

lemma options_set_field [simp]: "pk_options (set_field attr v pkg) = pk_options pkg"
  by (simp add: set_field_def)

lemma adds_array:
  assumes "reads_inv C pkg" "name \<noteq> []"
  shows "adds pkg (pkg_addlicense dev pkg name)" "adds pkg (pkg_addcategory dev pkg name)"
proof -
  have "adds pkg (append_to_array dev pkg attr name)" if ok: "array_ok (pkg_get pkg attr)" for attr
  proof (cases "pkg_get pkg attr")
    case (Some v)
    then obtain xs where "v = UCL_ARRAY xs" "\<forall>x \<in> set xs. ucl_object_tostring_forced x \<noteq> []"
      using ok by (cases v) (fastforce simp: array_ok_def ucl_object_tostring_forced_def split: ucl.splits)+
    then show ?thesis using Some assms(2) by (auto simp: append_to_array_def)
  qed (simp add: append_to_array_def assms(2))
  then show "adds pkg (pkg_addlicense dev pkg name)" "adds pkg (pkg_addcategory dev pkg name)"
    using assms(1) by (simp_all add: pkg_addlicense_def pkg_addcategory_def reads_inv_def pkg_wf_def)
qed

lemma adds_annotation:
  assumes "reads_inv C pkg"
  shows "adds pkg (pkg_addannotation pkg tag value)"
  using assms by (auto simp: pkg_addannotation_def reads_inv_def pkg_wf_def annotations_ok_def split: option.split ucl.splits)

lemma adds_dep: "name \<noteq> [] \<Longrightarrow> origin \<noteq> [] \<Longrightarrow> version \<noteq> [] \<Longrightarrow> adds pkg (pkg_adddep dev pkg name origin version l)"
  by (simp add: pkg_adddep_def)

lemma run_returns_ignore: "run_returns (\<lambda>(rc, p). Q p) m \<Longrightarrow> run_returns Q (ignore_code m)"
  unfolding ignore_code_def by (rule run_returns_bind [where P = "\<lambda>(rc, p). Q p"]) auto

lemma returns_all: "run_returns P m \<Longrightarrow> run_all Q m \<Longrightarrow> run_returns (\<lambda>x. P x \<and> Q x) m"
  by (cases m) simp_all

lemma decode_clean: "clean_text k \<Longrightarrow> (\<And>s. s \<noteq> [] \<Longrightarrow> run_returns Q (f s)) \<Longrightarrow> run_returns Q (run_bind (decode_key k) f)"
  by (auto simp: clean_text_def decode_key_def split: prod.split)

lemma adds_objects:
  assumes "clean_node cur"
  shows "adds pkg (pkg_set_files_from_object e pkg cur)" "adds pkg (pkg_set_dirs_from_object e pkg cur)"
  using assms unfolding pkg_set_files_from_object_def pkg_set_dirs_from_object_def
  by (auto split: option.split simp: clean_node_def Let_def intro!: decode_clean
      intro: run_returns_bind [OF adds_names(9)] run_returns_bind [OF adds_names(10)])

lemma show_int_nonempty: "show_int i \<noteq> []"
  using show_nat_digits by (simp add: show_int_def)

lemma dep_attr_clean:
  assumes "clean_node n" "\<forall>s. fst ov = Some s \<longrightarrow> s \<noteq> []" "\<forall>s. snd ov = Some s \<longrightarrow> s \<noteq> []"
  shows "(\<forall>s. fst (dep_attr ov n) = Some s \<longrightarrow> s \<noteq> []) \<and> (\<forall>s. snd (dep_attr ov n) = Some s \<longrightarrow> s \<noteq> [])"
proof -
  obtain v c where v: "snd n = v # c" using assms(1) by (cases "snd n") (auto simp: clean_node_def)
  have "clean_ucl v" using assms(1) v by (simp add: clean_node_def)
  then show ?thesis using assms(2,3) v show_int_nonempty
    by (cases n; cases "fst n"; cases v) (auto simp: dep_attr_def head_of_def clean_text_def split: prod.split)
qed

lemma dep_attrs_clean:
  assumes "\<forall>n \<in> set ns. clean_node n" "\<forall>s. fst ov = Some s \<longrightarrow> s \<noteq> []" "\<forall>s. snd ov = Some s \<longrightarrow> s \<noteq> []"
  shows "(\<forall>s. fst (foldl dep_attr ov ns) = Some s \<longrightarrow> s \<noteq> []) \<and> (\<forall>s. snd (foldl dep_attr ov ns) = Some s \<longrightarrow> s \<noteq> [])"
  using assms
proof (induction ns arbitrary: ov)
  case (Cons n ns)
  have d: "(\<forall>s. fst (dep_attr ov n) = Some s \<longrightarrow> s \<noteq> []) \<and> (\<forall>s. snd (dep_attr ov n) = Some s \<longrightarrow> s \<noteq> [])"
    by (rule dep_attr_clean) (use Cons.prems in auto)
  show ?case unfolding foldl_Cons by (rule Cons.IH) (use Cons.prems d in auto)
qed simp

lemma run_fold_inv:
  "(\<And>x s. x \<in> set xs \<Longrightarrow> P s \<Longrightarrow> run_returns P (f x s)) \<Longrightarrow> P s \<Longrightarrow> run_returns P (run_fold f xs s)"
proof (induction xs arbitrary: s)
  case (Cons x xs)
  show ?case unfolding run_fold.simps by (rule run_returns_bind [where P = P]) (use Cons in auto)
qed simp

lemma adds_deps:
  assumes "clean_node cur"
  shows "adds pkg (pkg_set_deps_from_object e pkg cur)"
proof (cases "fst cur")
  case (Some okey)
  let ?ok = "\<lambda>(ov, p). (\<forall>s. fst ov = Some s \<longrightarrow> s \<noteq> []) \<and> (\<forall>s. snd ov = Some s \<longrightarrow> s \<noteq> []) \<and> pk_options p = pk_options pkg"
  let ?ns = "ucl_iterate_object cur (ucl_type_of (head_of cur) = T_ARRAY)"
  have key: "okey \<noteq> []" using assms Some by (simp add: clean_node_def clean_text_def)
  have step: "run_returns ?ok (add_dep_object e okey self st)" if self: "clean_node self" and st: "?ok st" for self st
  proof -
    obtain ov p where ov: "st = (ov, p)" by (cases st)
    define ov' where "ov' = foldl dep_attr ov (ucl_iterate_object self True)"
    have ok: "(\<forall>s. fst ov' = Some s \<longrightarrow> s \<noteq> []) \<and> (\<forall>s. snd ov' = Some s \<longrightarrow> s \<noteq> [])"
      unfolding ov'_def using iterate_clean [OF self] st ov by (intro dep_attrs_clean) auto
    show ?thesis
    proof (cases "\<exists>o1 v1. ov' = (Some o1, Some v1)")
      case True
      then obtain o1 v1 where o1: "ov' = (Some o1, Some v1)" by blast
      have a: "run_returns (\<lambda>q. pk_options q = pk_options p) (ignore_code (pkg_adddep (me_developer_mode e) p okey o1 v1 False))"
        by (rule run_returns_ignore, rule adds_dep) (use ok o1 key in auto)
      show ?thesis using ok o1 st ov a
        by (auto simp: add_dep_object_def ov'_def [symmetric] intro!: run_returns_bind [OF a])
    next
      case False
      then have "add_dep_object e okey self st = Ret (ov', p)"
        by (auto simp: add_dep_object_def ov ov'_def [symmetric] split: prod.split option.split)
      then show ?thesis using ok st ov by simp
    qed
  qed
  have "run_returns ?ok (run_fold (add_dep_object e okey) ?ns ((None, None), pkg))"
    by (rule run_fold_inv, rule step) (use iterate_clean [OF assms] in auto)
  then show ?thesis unfolding pkg_set_deps_from_object_def Some option.case
    by (rule run_returns_bind) auto
qed (simp add: pkg_set_deps_from_object_def)

definition opts_valued :: "struct_pkg \<Rightarrow> bool" where
  \<comment> \<open>every option has a value\<close>
  "opts_valued pkg \<longleftrightarrow> (\<forall>(k, opt) \<in> set (pk_options pkg). so_value opt \<noteq> None)"

lemma valued_adds: "opts_valued pkg \<Longrightarrow> adds pkg m \<Longrightarrow> run_returns opts_valued (ignore_code m)"
  by (rule run_returns_ignore, erule run_returns_mono) (auto simp: opts_valued_def)

lemma valued_option:
  assumes "opts_valued pkg" "key \<noteq> []" "value \<noteq> []"
  shows "run_returns opts_valued (ignore_code (pkg_addoption dev pkg key value))"
proof (rule run_returns_ignore, cases "hash_find key (pk_options pkg)")
  case (Some o1)
  then have "so_value o1 \<noteq> None" using assms(1) by (auto simp: opts_valued_def hash_find_def dest!: map_of_SomeD)
  then show "run_returns (\<lambda>(rc, p). opts_valued p) (pkg_addoption dev pkg key value)"
    using Some assms by (simp add: pkg_addoption_def add_option_def duplicate_def)
qed (use assms in \<open>auto simp: pkg_addoption_def add_option_def opts_valued_def hash_add_def\<close>)

lemma returns_obj_elem:
  assumes "reads_inv C pkg" "opts_valued pkg" "attr \<noteq> MOption_defaults" "attr \<noteq> MOption_descriptions"
    and "attr = Attr PKG_ANNOTATIONS \<or> clean_node cur"
  shows "run_returns opts_valued (obj_elem e attr cur pkg)"
proof (cases "fst cur")
  case (Some key)
  show ?thesis
  proof (cases "attr = Attr PKG_ANNOTATIONS")
    case True
    show ?thesis unfolding obj_elem_def Some Let_def True
      by (cases "head_of cur"; simp add: assms(2) valued_adds [OF assms(2) adds_annotation [OF assms(1)]])
  next
    case False
    then have cur: "clean_node cur" using assms(5) by simp
    then have key: "clean_text key" "key \<noteq> []" using Some by (auto simp: clean_node_def clean_text_def)
    have str: "clean_text s" if "head_of cur = UCL_STRING s" for s
      using cur that by (cases "snd cur") (auto simp: clean_node_def head_of_def)
    have opt: "run_returns opts_valued (ignore_code (pkg_addoption dev pkg key s))" if "s \<noteq> []" for dev s
      by (rule valued_option) (use assms(2) key that in auto)
    have scr: "run_returns opts_valued (Ret (snd (pkg_addscript pkg data type)))" for data type
      using assms(2) by (simp add: pkg_addscript_def opts_valued_def)
    note a = valued_adds [OF assms(2) adds_names(1) [OF key(2)]] valued_adds [OF assms(2) adds_names(2) [OF key(2)]]
      valued_adds [OF assms(2) adds_objects(1) [OF cur]] valued_adds [OF assms(2) adds_objects(2) [OF cur]] valued_adds [OF assms(2) adds_deps [OF cur]]
    note f = decode_clean [OF key(1)] valued_adds [OF assms(2) adds_names(11)] valued_adds [OF assms(2) adds_names(12)]
    show ?thesis
    proof (cases attr)
      case (List l)
      show ?thesis unfolding obj_elem_def Some Let_def List
        by (cases l; cases "head_of cur"; use str key(1) in \<open>auto simp: assms(2) a clean_text_def intro!: f opt\<close>)
    next
      case (Attr a1)
      show ?thesis unfolding obj_elem_def Some Let_def Attr
        by (cases a1; cases "head_of cur"; use False Attr assms(2) in simp)
    next
      case MDirectories
      show ?thesis unfolding obj_elem_def Some Let_def MDirectories
        by (cases "head_of cur"; auto simp: assms(2) a intro!: f)
    next
      case MScripts
      show ?thesis unfolding obj_elem_def Some Let_def MScripts
        by (cases "head_of cur"; use str in \<open>auto simp: assms(2) intro!: decode_clean scr split: option.split\<close>)
    qed (use assms in simp_all)
  qed
qed (simp add: obj_elem_def assms)

abbreviation good :: "struct_pkg \<Rightarrow> bool" where
  "good pkg \<equiv> reads_inv {} pkg \<and> opts_valued pkg"

lemma good_returns: "run_returns opts_valued m \<Longrightarrow> run_all (reads_inv {}) m \<Longrightarrow> run_returns good m"
  by (drule (1) returns_all) (auto elim: run_returns_mono)

lemma returns_pkg_obj:
  assumes "good pkg" "attr \<noteq> MOption_defaults" "attr \<noteq> MOption_descriptions"
    and "attr = Attr PKG_ANNOTATIONS \<or> (\<forall>cur \<in> set (ucl_iterate_object obj True). clean_node cur)"
  shows "run_returns good (ignore_code (pkg_obj e pkg obj attr))"
proof -
  have "run_returns good (run_fold (obj_elem e attr) (ucl_iterate_object obj True) pkg)"
    by (rule run_fold_inv, rule good_returns, rule returns_obj_elem [where C = "{}"], use assms in \<open>auto intro: reading.inv_obj_elem\<close>)
  then show ?thesis unfolding pkg_obj_def ignore_code_def by (auto dest!: run_returnsD)
qed

lemma returns_array_elem:
  assumes "good pkg" "clean_node cur" "attr \<noteq> MOption_defaults" "attr \<noteq> MOption_descriptions"
  shows "run_returns opts_valued (array_elem e attr cur pkg)"
proof -
  have str: "s \<noteq> []" if "head_of cur = UCL_STRING s" for s
    using assms(2) that by (cases "snd cur") (auto simp: clean_node_def head_of_def clean_text_def)
  have obj: "run_returns opts_valued (ignore_code (pkg_obj e pkg cur attr))"
    by (rule run_returns_mono, rule returns_pkg_obj [OF assms(1,3,4)]) (use iterate_clean [OF assms(2)] in auto)
  have inv: "reads_inv {} pkg" and val: "opts_valued pkg" using assms(1) by auto
  note a = valued_adds [OF val adds_names(3)] valued_adds [OF val adds_names(4)] valued_adds [OF val adds_names(5)] valued_adds [OF val adds_names(6)]
    valued_adds [OF val adds_names(7)] valued_adds [OF val adds_names(8)] valued_adds [OF val adds_names(12)]
    valued_adds [OF val adds_array(1) [OF inv]] valued_adds [OF val adds_array(2) [OF inv]]
  show ?thesis
  proof (cases attr)
    case (List l)
    show ?thesis unfolding array_elem_def Let_def List
      by (cases l; cases "head_of cur"; use str obj List in \<open>simp add: val a\<close>)
  next
    case (Attr a1)
    show ?thesis unfolding array_elem_def Let_def Attr
      by (cases a1; cases "head_of cur"; use str in \<open>simp add: val a\<close>)
  qed (simp_all add: array_elem_def val)
qed

lemma returns_pkg_array:
  assumes "good pkg" "attr \<noteq> MOption_defaults" "attr \<noteq> MOption_descriptions" "\<forall>cur \<in> set (ucl_iterate_object obj True). clean_node cur"
  shows "run_returns good (ignore_code (pkg_array e pkg obj attr))"
proof -
  have "run_returns good (run_fold (array_elem e attr) (ucl_iterate_object obj True) pkg)"
    by (rule run_fold_inv, rule good_returns, rule returns_array_elem, use assms in \<open>auto intro: reading.inv_array_elem\<close>)
  then show ?thesis unfolding pkg_array_def ignore_code_def by (auto dest!: run_returnsD)
qed

text \<open>Every parser of the table gets values of its type, for an attribute of its type.\<close>

definition typed_parser :: "string \<Rightarrow> manifest_attr \<Rightarrow> ucl_type \<Rightarrow> parse_data \<Rightarrow> bool" where
  "typed_parser key type t p \<longleftrightarrow>
     (case p of
        pkg_obj_p \<Rightarrow> t = T_OBJECT \<and> (type = Attr PKG_ANNOTATIONS \<longleftrightarrow> key = ''annotations'')
          \<and> (type = MOption_defaults \<longrightarrow> key = ''option_defaults'') \<and> (type = MOption_descriptions \<longrightarrow> key = ''option_descriptions'')
      | pkg_array_p \<Rightarrow> t = T_ARRAY \<and> key \<noteq> ''annotations'' \<and> type \<noteq> MOption_defaults \<and> type \<noteq> MOption_descriptions
      | pkg_string_p \<Rightarrow> (case type of Attr a \<Rightarrow> a = PKG_LICENSE_LOGIC \<or> key_type a = T_STRING | _ \<Rightarrow> False)
      | pkg_int_p \<Rightarrow> (case type of Attr a \<Rightarrow> key_type a = T_INT | _ \<Rightarrow> False))"

lemma manifest_table_typed:
  "list_all (\<lambda>(k, sk). list_all (\<lambda>(t, p). typed_parser k (mk_type sk) t p) (mk_parser sk)) manifest_table"
  by code_simp

text \<open>
  A manifest that is read: the names in it are not empty and have no incomplete escape, except those of annotations; texts at the
  first level are arbitrary; and there are no defaults or descriptions of options.
\<close>

definition clean_entry :: "string \<times> ucl list \<Rightarrow> bool" where
  "clean_entry kc \<longleftrightarrow> fst kc \<noteq> ''option_defaults'' \<and> fst kc \<noteq> ''option_descriptions''
     \<and> (fst kc = ''annotations'' \<or> snd kc \<noteq> [] \<and> (case hd (snd kc) of UCL_OBJECT h \<Rightarrow> clean_ucl (UCL_OBJECT h) | UCL_ARRAY xs \<Rightarrow> clean_ucl (UCL_ARRAY xs) | _ \<Rightarrow> True))"

definition clean_manifest :: "ucl_object \<Rightarrow> bool" where
  "clean_manifest h \<longleftrightarrow> list_all clean_entry h"

lemma returns_attr:
  assumes "typed_parser key type t p" "p = pkg_string_p \<or> p = pkg_int_p" "opts_valued pkg"
  shows "run_returns opts_valued (ignore_code (run_parse_data e p pkg cur type))"
proof -
  have s: "opts_valued (set_field a v pkg)" for a v using assms(3) by (simp add: opts_valued_def)
  have l: "key_type PKG_LICENSE_LOGIC = T_INT" by (simp add: key_type_def pkg_keys_def)
  obtain a where a: "type = Attr a" using assms(1,2) by (auto simp: typed_parser_def split: manifest_attr.splits)
  show ?thesis using assms s l
    by (auto simp: a typed_parser_def run_parse_data_def pkg_string_def pkg_int_def pkg_set_def ignore_code_def Let_def split: option.split)
qed

lemma returns_manifest_elem:
  assumes "good pkg" "clean_entry kc"
  shows "run_returns good (manifest_elem e manifest_table (Some (fst kc), snd kc) pkg)"
proof (rule good_returns)
  let ?n = "(Some (fst kc), snd kc)"
  have val: "opts_valued pkg" using assms(1) by simp
  show "run_returns opts_valued (manifest_elem e manifest_table ?n pkg)"
  proof (cases "hash_find (fst kc) manifest_table")
    case (Some sk)
    then have sk: "(fst kc, sk) \<in> set manifest_table" by (auto simp: hash_find_def dest: map_of_SomeD)
    show ?thesis
    proof (cases "hash_find (ucl_type_of (head_of ?n)) (mk_parser sk)")
      case dp: (Some dp)
      then have "(ucl_type_of (head_of ?n), dp) \<in> set (mk_parser sk)" by (auto simp: hash_find_def dest: map_of_SomeD)
      then have ty: "typed_parser (fst kc) (mk_type sk) (ucl_type_of (head_of ?n)) dp"
        using sk manifest_table_typed by (fastforce simp: list_all_iff)
      have nodes: "\<forall>cur \<in> set (ucl_iterate_object ?n True). clean_node cur"
        if wanted: "fst kc \<noteq> ''annotations''" "ucl_type_of (head_of ?n) = T_OBJECT \<or> ucl_type_of (head_of ?n) = T_ARRAY"
      proof
        fix cur assume cur: "cur \<in> set (ucl_iterate_object ?n True)"
        obtain v c where v: "snd kc = v # c" "clean_ucl v" "ucl_type_of v = T_OBJECT \<or> ucl_type_of v = T_ARRAY"
          using assms(2) wanted by (cases "snd kc"; cases "hd (snd kc)") (auto simp: clean_entry_def head_of_def)
        then have "cur \<in> set (ucl_iterate_object (None, [v]) True)" using cur
          by (cases v) (auto simp: ucl_iterate_object_def)
        moreover have "clean_node (None, [v])" using v by (simp add: clean_node_def)
        ultimately show "clean_node cur" using iterate_clean by blast
      qed
      have no: "fst kc \<noteq> ''option_defaults''" "fst kc \<noteq> ''option_descriptions''" using assms(2) by (simp_all add: clean_entry_def)
      have "run_returns opts_valued (ignore_code (run_parse_data e dp pkg ?n (mk_type sk)))"
      proof (cases dp)
        case pkg_obj_p
        then have "run_returns good (ignore_code (pkg_obj e pkg ?n (mk_type sk)))"
          using ty no nodes by (intro returns_pkg_obj [OF assms(1)]) (auto simp: typed_parser_def)
        then show ?thesis unfolding run_parse_data_def pkg_obj_p by (auto elim: run_returns_mono)
      next
        case pkg_array_p
        then have "run_returns good (ignore_code (pkg_array e pkg ?n (mk_type sk)))"
          using ty nodes by (intro returns_pkg_array [OF assms(1)]) (auto simp: typed_parser_def)
        then show ?thesis unfolding run_parse_data_def pkg_array_p by (auto elim: run_returns_mono)
      qed (use returns_attr [OF ty _ val] in auto)
      then show ?thesis using Some dp by (simp add: manifest_elem_def)
    qed (simp add: manifest_elem_def val Some)
  qed (simp add: manifest_elem_def val)
qed (rule reading.inv_manifest_elem, use assms in simp)

lemma parse_clean:
  assumes "clean_manifest h"
  shows "run_returns (\<lambda>(rc, pkg). rc = EPKG_OK \<and> pkg_wf pkg) (parse_manifest e (pkg_new t) manifest_table (Some (UCL_OBJECT h)))"
proof -
  have ns: "ucl_iterate_object (None, [UCL_OBJECT h]) True = map (\<lambda>kc. (Some (fst kc), snd kc)) h"
    by (auto simp: ucl_iterate_object_def)
  have "run_returns good (run_fold (manifest_elem e manifest_table) (map (\<lambda>kc. (Some (fst kc), snd kc)) h) (pkg_new t))"
  proof (rule run_fold_inv)
    fix x s assume "x \<in> set (map (\<lambda>kc. (Some (fst kc), snd kc)) h)" "good s"
    then show "run_returns good (manifest_elem e manifest_table x s)"
      using returns_manifest_elem [of s] assms by (auto simp: clean_manifest_def list_all_iff)
  qed (simp add: inv_pkg_new opts_valued_def pkg_new_facts)
  then show ?thesis unfolding parse_manifest_def option.case ns
    by (rule run_returns_bind) (auto simp: reads_inv_def)
qed

text \<open>
  C16: A manifest without \<open>option_defaults\<close> and \<open>option_descriptions\<close> in whose lists and objects no key and no text is empty, also when it is
  decoded, and none ends in an incomplete escape is read: no assertion of the functions that fill the package fails. Texts of the first level and annotations
  are arbitrary. The excluded keys add an option that has a value to its table a second time.
\<close>

theorem manifest_returns:
  assumes "clean_manifest h"
  shows "\<exists>pkg. parse_manifest e (pkg_new t) pkg_manifest_keys_new (Some (UCL_OBJECT h)) = Ret (EPKG_OK, pkg)"
  using parse_clean [OF assms] by (auto dest!: run_returnsD)

definition odd_manifest :: ucl_object where
  \<comment> \<open>unknown and repeated keys, values of other types, a license twice\<close>
  "odd_manifest = [(''name'', [UCL_STRING []]), (''comment'', [UCL_STRING ''100%'']), (''version'', [UCL_INT (-3), UCL_STRING ''4'']),
     (''unknown'', [UCL_NULL]), (''licenses'', [UCL_ARRAY [UCL_STRING ''BSD'', UCL_INT 2, UCL_STRING ''BSD'']]),
     (''users'', [UCL_OBJECT [(''www'', [UCL_BOOLEAN True])]]), (''conflicts'', [UCL_ARRAY [UCL_STRING ''apache'']]),
     (''deps'', [UCL_OBJECT [(''perl'', [UCL_OBJECT [(''origin'', [UCL_STRING ''lang/perl5'']), (''version'', [UCL_INT 5])]])]]),
     (''files'', [UCL_OBJECT [(''/a%20b'', [UCL_STRING ''-'']), (''/a%20b'', [UCL_OBJECT []])]]),
     (''annotations'', [UCL_OBJECT [([], [UCL_STRING []])]])]"

theorem manifest_returns_witness:
  "\<exists>pkg. parse_manifest (manifest_env_of UCL_NULL) (pkg_new PKG_FILE) pkg_manifest_keys_new (Some (UCL_OBJECT odd_manifest)) = Ret (EPKG_OK, pkg)"
  by (rule manifest_returns) code_simp

section \<open>Packages with conflicts\<close>

lemma run_fold_hit:
  assumes "y \<in> set xs" "\<And>x s. P s \<Longrightarrow> run_all P (f x s)" "\<And>x s. Q s \<Longrightarrow> run_all Q (f x s)" "\<And>s. P s \<Longrightarrow> run_all Q (f y s)" "P s"
  shows "run_all Q (run_fold f xs s)"
  using assms(1,5)
proof (induction xs arbitrary: s)
  case (Cons x xs)
  show ?case
  proof (cases "x = y")
    case True
    show ?thesis unfolding run_fold.simps True
      by (rule run_all_bind [OF assms(4) [OF Cons.prems(2)]]) (rule run_fold_all [OF assms(3)])
  next
    case False
    show ?thesis unfolding run_fold.simps
      by (rule run_all_bind [OF assms(2)]) (use Cons False in auto)
  qed
qed simp

lemma conflict_read:
  assumes "(''conflicts'', UCL_ARRAY xs # c) \<in> set h" "UCL_STRING n \<in> set xs"
  shows "run_all (\<lambda>(rc, pkg). reads_inv {n} pkg) (parse_manifest e (pkg_new t) manifest_table (Some (UCL_OBJECT h)))"
proof -
  have "\<exists>ys. UCL_STRING n # ys \<in> set (suffixes_of xs)" using assms(2) by (induction xs) auto
  then obtain ys where ys: "UCL_STRING n # ys \<in> set (suffixes_of xs)" by blast
  have el: "run_all (reads_inv {n}) (array_elem e (List PKG_CONFLICTS) (None, UCL_STRING n # ys) pkg)" if "reads_inv {} pkg" for pkg
    using keeps_names(4) [OF that, of n] reading.kept_ignore by (simp add: array_elem_def head_of_def)
  have "keeps {n} (pkg_array e pkg (Some ''conflicts'', UCL_ARRAY xs # c) (List PKG_CONFLICTS))" if "reads_inv {} pkg" for pkg
    unfolding pkg_array_def
  proof (rule run_all_bind [where P = "reads_inv {n}"])
    show "run_all (reads_inv {n}) (run_fold (array_elem e (List PKG_CONFLICTS)) (ucl_iterate_object (Some ''conflicts'', UCL_ARRAY xs # c) True) pkg)"
      by (rule run_fold_hit [where P = "reads_inv {}" and y = "(None, UCL_STRING n # ys)"])
        (use ys that el reading.inv_array_elem in \<open>auto simp: ucl_iterate_object_def\<close>)
  qed simp
  moreover have "(''conflicts'', List PKG_CONFLICTS, T_ARRAY, pkg_array_p) \<in> set manifest_keys" by (simp add: manifest_keys_def)
  ultimately have m: "run_all (reads_inv {n}) (manifest_elem e manifest_table (Some ''conflicts'', UCL_ARRAY xs # c) pkg)" if "reads_inv {} pkg" for pkg
    using that reading.kept_ignore read_known(1) [of "''conflicts''" "List PKG_CONFLICTS" "UCL_ARRAY xs" pkg_array_p] by (simp add: run_parse_data_def)
  show ?thesis unfolding parse_manifest_def option.case
  proof (rule run_all_bind [where P = "reads_inv {n}"])
    show "run_all (reads_inv {n}) (run_fold (manifest_elem e manifest_table) (ucl_iterate_object (None, [UCL_OBJECT h]) True) (pkg_new t))"
      by (rule run_fold_hit [where P = "reads_inv {}" and y = "(Some ''conflicts'', UCL_ARRAY xs # c)"])
        (use assms(1) m inv_pkg_new reading.inv_manifest_elem in \<open>force simp: ucl_iterate_object_def\<close>)+
  qed simp
qed

text \<open>
  C39: A package with a conflict is read from its manifest but cannot be written again: the loop over the conflicts in
  \<open>pkg_emit_object\<close> takes the value of the option that the loop over the options has left at \<open>NULL\<close>.
\<close>

theorem conflicts_crash:
  assumes "clean_manifest h" "(''conflicts'', UCL_ARRAY xs # c) \<in> set h" "UCL_STRING n \<in> set xs"
  shows "\<exists>pkg. parse_manifest e (pkg_new t) pkg_manifest_keys_new (Some (UCL_OBJECT h)) = Ret (EPKG_OK, pkg)
    \<and> n \<in> conf_uniqueid ` set (pk_conflicts pkg) \<and> pkg_emit_object pkg compact nofiles = Crash"
proof -
  obtain pkg where r: "parse_manifest e (pkg_new t) manifest_table (Some (UCL_OBJECT h)) = Ret (EPKG_OK, pkg)"
    using parse_clean [OF assms(1)] by (auto dest!: run_returnsD)
  then have "n \<in> conf_uniqueid ` set (pk_conflicts pkg)"
    using conflict_read [OF assms(2,3), of e t] by (simp add: reads_inv_def)
  then show ?thesis using r by (auto simp: pkg_emit_object_def)
qed

theorem conflicts_crash_witness:
  "\<exists>pkg. parse_manifest (manifest_env_of UCL_NULL) (pkg_new PKG_FILE) pkg_manifest_keys_new (Some (UCL_OBJECT odd_manifest)) = Ret (EPKG_OK, pkg)
    \<and> ''apache'' \<in> conf_uniqueid ` set (pk_conflicts pkg) \<and> pkg_emit_object pkg False False = Crash"
proof (rule conflicts_crash)
  show "clean_manifest odd_manifest" by code_simp
  show "(''conflicts'', [UCL_ARRAY [UCL_STRING ''apache'']]) \<in> set odd_manifest" by (simp add: odd_manifest_def)
qed simp

end
