(* ===== verification/Install.thy ===== *)
theory Install
  imports Manifest_reading Fetch
begin

text \<open>
  Installing and removing packages, \<open>libpkg/pkg_add.c\<close>, \<open>libpkg/pkg_delete.c\<close>, \<open>libpkg/scripts.c\<close>,
  \<open>libpkg/rcscripts.c\<close> and what they use of \<open>libpkg/pkg.c\<close> and \<open>libpkg/utils.c\<close>, on the file systems of theory Fetch. Parameters:
  the database, \<open>libarchive\<close>, the shell, \<open>service\<close>, SHA-256, \<open>fnmatch\<close> and the configuration.
\<close>

section \<open>The system\<close>

record 'd system =
  sy_fs :: fsys
  sy_db :: 'd

text \<open>An entry of an archive; and an archive with the code of the call behind the last entry: the end, or an error.\<close>

record entry =
  ae_pathname :: string
  ae_node :: node
  ae_data :: string
  ae_corrupt :: bool

record archive =
  ar_entries :: "entry list"
  ar_eof :: bool

text \<open>What comes of a script: it cannot be run, the pipe to the shell fails, waiting for it fails, or it ends.\<close>

datatype sh_result = Spawn_error | Pipe_error | Wait_error | Exit nat

text \<open>
  \<open>in_random n i\<close> is the random number for character \<open>i\<close> of the suffix of entry \<open>n\<close>. The second extraction of one entry is told from the first,
  and \<open>in_stack\<close> is what an uninitialised buffer holds.
\<close>

record 'd install_env =
  in_manifest :: manifest_env
  in_handle_rc :: bool
  in_run_scripts :: bool
  in_debug_scripts :: bool
  in_disable_mtree :: bool
  in_abi :: string
  in_fnmatch :: "string \<Rightarrow> string \<Rightarrow> bool"
  in_sha256 :: "string \<Rightarrow> string"
  in_stack :: "nat \<Rightarrow> char"
  in_random :: "nat \<Rightarrow> nat \<Rightarrow> nat"
  in_sh :: "string \<Rightarrow> string \<Rightarrow> fsys \<Rightarrow> sh_result \<times> fsys"
  in_service :: "string \<Rightarrow> string \<Rightarrow> fsys \<Rightarrow> nat option \<times> fsys"
  in_archive :: "string \<Rightarrow> fsys \<Rightarrow> archive option"
  in_extract :: "bool \<Rightarrow> entry \<Rightarrow> string \<Rightarrow> fsys \<Rightarrow> bool \<times> fsys"
  in_mtree :: "string \<Rightarrow> entry list option"
  in_rename :: "string \<Rightarrow> string \<Rightarrow> bool"
  in_ensure_loaded :: "pkg_load list \<Rightarrow> struct_pkg \<Rightarrow> 'd \<Rightarrow> epkg \<times> struct_pkg"
  in_query :: "string \<Rightarrow> 'd \<Rightarrow> epkg \<times> struct_pkg"
  in_register :: "struct_pkg \<Rightarrow> bool \<Rightarrow> bool \<Rightarrow> 'd \<Rightarrow> epkg \<times> 'd"
  in_finale :: "epkg \<Rightarrow> 'd \<Rightarrow> 'd"
  in_unregister :: "int \<Rightarrow> 'd \<Rightarrow> epkg \<times> 'd"

section \<open>Files of a package\<close>

text \<open>The directory under which the package was installed, \<open>pkg_open_root_fd\<close>; and a path under it, without its first character.\<close>

definition pkg_object_string :: "ucl option \<Rightarrow> string option" where
  "pkg_object_string o1 =
     (case o1 of None \<Rightarrow> None | Some v \<Rightarrow> let s = ucl_object_tostring_forced v in if s = [] then None else Some s)"

definition pkg_object_find :: "ucl option \<Rightarrow> string \<Rightarrow> ucl option" where
  "pkg_object_find o1 key = (case o1 of Some (UCL_OBJECT h) \<Rightarrow> ucl_object_find_key key h | _ \<Rightarrow> None)"

definition pkg_open_root_fd :: "struct_pkg \<Rightarrow> fsys \<Rightarrow> string option" where
  "pkg_open_root_fd pkg f =
     (case pkg_object_find (pkg_get pkg PKG_ANNOTATIONS) ''relocated'' of
        None \<Rightarrow> Some ''/''
      | Some obj \<Rightarrow>
          (case pkg_object_string (Some obj) of
             None \<Rightarrow> None
           | Some dir \<Rightarrow>
               (case resolve MAXSYMLINKS f dir of
                  None \<Rightarrow> None
                | Some q \<Rightarrow> if q = ''/'' then Some q else (case hash_find q f of Some (Dir _) \<Rightarrow> Some q | _ \<Rightarrow> None))))"

definition at_root :: "struct_pkg \<Rightarrow> string \<Rightarrow> fsys \<Rightarrow> string option" where
  "at_root pkg path f =
     (case tl path of
        [] \<Rightarrow> None
      | c # r \<Rightarrow> if c = CHR ''/'' then Some (c # r)
                else map_option (\<lambda>dir. strip_slashes dir @ ''/'' @ c # r) (pkg_open_root_fd pkg f))"

text \<open>
  The checksum of a link is that of its target without leading slashes, but of as many bytes as the whole target has: it runs over the
  end of the string into the buffer.
\<close>

definition pkg_symlink_cksum :: "'d install_env \<Rightarrow> string \<Rightarrow> string" where
  "pkg_symlink_cksum e target =
     (let linkbuf = path_buf target; lnk = dropWhile (\<lambda>c. c = CHR ''/'') linkbuf
      in in_sha256 e (take (length linkbuf) (lnk @ CHR 0x00 # map (in_stack e) [0..<length linkbuf])))"

definition node_sum :: "'d install_env \<Rightarrow> node option \<Rightarrow> string option" where
  \<comment> \<open>a directory cannot be read\<close>
  "node_sum e n = (case n of Some (Reg c) \<Rightarrow> Some (in_sha256 e c) | Some (Sym t) \<Rightarrow> Some (pkg_symlink_cksum e t) | _ \<Rightarrow> None)"

definition pkg_test_filesum :: "'d install_env \<Rightarrow> struct_pkg \<Rightarrow> fsys \<Rightarrow> epkg" where
  \<comment> \<open>a mismatch is reported for every file, an error ends the loop; the code is the same\<close>
  "pkg_test_filesum e pkg f =
     (if \<forall>(_, file) \<in> set (pk_files pkg). sf_sum file = [] \<or> node_sum e (hash_find (sf_path file) f) = Some (sf_sum file)
      then EPKG_OK else EPKG_FATAL)"

section \<open>Removing\<close>

text \<open>The flags are bits of a word; those of \<open>pkg_delete\<close> and \<open>pkg_add\<close> have the same values.\<close>

type_synonym flags = "32 word"

definition has :: "flags \<Rightarrow> flags \<Rightarrow> bool" where
  "has fl m \<longleftrightarrow> and fl m \<noteq> 0"

definition PKG_DELETE_FORCE :: flags where "PKG_DELETE_FORCE = 1"

definition PKG_DELETE_UPGRADE :: flags where "PKG_DELETE_UPGRADE = 2"

definition PKG_DELETE_NOSCRIPT :: flags where "PKG_DELETE_NOSCRIPT = 4"

definition PKG_ADD_UPGRADE :: flags where "PKG_ADD_UPGRADE = 1"

definition PKG_ADD_USE_UPGRADE_SCRIPTS :: flags where "PKG_ADD_USE_UPGRADE_SCRIPTS = 2"

definition PKG_ADD_AUTOMATIC :: flags where "PKG_ADD_AUTOMATIC = 4"

definition PKG_ADD_FORCE :: flags where "PKG_ADD_FORCE = 8"

definition PKG_ADD_NOSCRIPT :: flags where "PKG_ADD_NOSCRIPT = 16"

definition PKG_ADD_FORCE_MISSING :: flags where "PKG_ADD_FORCE_MISSING = 32"

text \<open>Nothing is returned, and no error stops the loops; the field \<open>keep\<close> of a file or directory is 0 everywhere.\<close>

definition pkg_delete_file :: "'d install_env \<Rightarrow> struct_pkg \<Rightarrow> struct_file \<Rightarrow> nat \<Rightarrow> fsys \<Rightarrow> fsys" where
  "pkg_delete_file e pkg file force f =
     (case at_root pkg (sf_path file) f of
        None \<Rightarrow> f
      | Some path \<Rightarrow>
          if force = 0 \<and> sf_sum file \<noteq> [] \<and> node_sum e (hash_find path f) \<noteq> Some (sf_sum file) then f
          else unlink path f)"

definition pkg_delete_files :: "'d install_env \<Rightarrow> struct_pkg \<Rightarrow> nat \<Rightarrow> fsys \<Rightarrow> fsys" where
  "pkg_delete_files e pkg force f = foldl (\<lambda>f (_, file). pkg_delete_file e pkg file force f) f (pk_files pkg)"

text \<open>\<open>rmdir\<close> of a directory that is not empty fails; slashes at its end do not matter.\<close>

definition rmdir :: "string \<Rightarrow> fsys \<Rightarrow> fsys" where
  "rmdir path f =
     (let dir = strip_slashes path
      in case hash_find dir f of
           Some (Dir _) \<Rightarrow> if \<exists>(q, _) \<in> set f. take (Suc (length dir)) q = dir @ ''/'' then f else hash_del dir f
         | _ \<Rightarrow> f)"

definition pkg_delete_dir :: "struct_pkg \<Rightarrow> struct_dir \<Rightarrow> fsys \<Rightarrow> fsys" where
  "pkg_delete_dir pkg dir f = (case at_root pkg (sd_path dir) f of None \<Rightarrow> f | Some path \<Rightarrow> rmdir path f)"

definition pkg_delete_dirs :: "struct_pkg \<Rightarrow> fsys \<Rightarrow> fsys" where
  "pkg_delete_dirs pkg f = foldl (\<lambda>f (_, dir). pkg_delete_dir pkg dir f) f (pk_dirs pkg)"

section \<open>Scripts and services\<close>

definition null_string :: "string option \<Rightarrow> string" where
  \<comment> \<open>a string as \<open>%s\<close> prints it\<close>
  "null_string s = (case s of None \<Rightarrow> ''(null)'' | Some s \<Rightarrow> s)"

definition script_map :: "(string \<times> pkg_script \<times> pkg_script) list" where
  "script_map = [
     (''PRE-INSTALL'', PKG_SCRIPT_INSTALL, PKG_SCRIPT_PRE_INSTALL), (''POST-INSTALL'', PKG_SCRIPT_INSTALL, PKG_SCRIPT_POST_INSTALL),
     (''PRE-UPGRADE'', PKG_SCRIPT_UPGRADE, PKG_SCRIPT_PRE_UPGRADE), (''POST-UPGRADE'', PKG_SCRIPT_UPGRADE, PKG_SCRIPT_POST_UPGRADE),
     (''DEINSTALL'', PKG_SCRIPT_DEINSTALL, PKG_SCRIPT_PRE_DEINSTALL),
     (''POST-DEINSTALL'', PKG_SCRIPT_DEINSTALL, PKG_SCRIPT_POST_DEINSTALL)]"

definition script_cmd :: "'d install_env \<Rightarrow> struct_pkg \<Rightarrow> string \<Rightarrow> string" where
  "script_cmd e pkg arg =
     (if in_debug_scripts e then ''set -x'' @ [CHR 0x0A] else [])
     @ ''set -- '' @ null_string (pkg_get_string pkg PKG_NAME) @ ''-'' @ null_string (pkg_get_string pkg PKG_VERSION)
     @ arg @ [CHR 0x0A]"

text \<open>A script that fails ends the loop, but only a pipe that fails is an error.\<close>

fun run_scripts :: "'d install_env \<Rightarrow> struct_pkg \<Rightarrow> string \<times> pkg_script \<times> pkg_script \<Rightarrow> pkg_script list \<Rightarrow> fsys \<Rightarrow> (epkg \<times> fsys) run" where
  "run_scripts e pkg m [] f = Ret (EPKG_OK, f)"
| "run_scripts e pkg (arg, b, a) (j # js) f =
     (case pkg_script_get pkg j of
        None \<Rightarrow> run_scripts e pkg (arg, b, a) js f
      | Some script \<Rightarrow>
          if j \<noteq> a \<and> j \<noteq> b then run_scripts e pkg (arg, b, a) js f
          else (case pkg_get_string pkg PKG_PREFIX of
              None \<Rightarrow> Crash
            | Some prefix \<Rightarrow>
                (case in_sh e prefix (script_cmd e pkg (if j = b then '' '' @ arg else []) @ script) f of
                   (Exit 0, f) \<Rightarrow> run_scripts e pkg (arg, b, a) js f
                 | (Pipe_error, f) \<Rightarrow> Ret (EPKG_FATAL, f)
                 | (_, f) \<Rightarrow> Ret (EPKG_OK, f))))"

definition pkg_script_run :: "'d install_env \<Rightarrow> struct_pkg \<Rightarrow> pkg_script \<Rightarrow> fsys \<Rightarrow> (epkg \<times> fsys) run" where
  "pkg_script_run e pkg type f =
     (if \<not> in_run_scripts e then Ret (EPKG_OK, f)
      else case find (\<lambda>(arg, b, a). a = type) script_map of
        None \<Rightarrow> Crash
      | Some m \<Rightarrow> run_scripts e pkg m all_scripts f)"

text \<open>The result of \<open>pkg_start_stop_rc_scripts\<close> is never used.\<close>

datatype pkg_rc_attr = PKG_RC_START | PKG_RC_STOP

definition rc_stop :: "'d install_env \<Rightarrow> string \<Rightarrow> fsys \<Rightarrow> fsys" where
  "rc_stop e rc_file f =
     (case in_service e rc_file ''onestatus'' f of
        (Some 0, f) \<Rightarrow> snd (in_service e rc_file ''stop'' f)
      | (_, f) \<Rightarrow> f)"

definition rc_start :: "'d install_env \<Rightarrow> string \<Rightarrow> fsys \<Rightarrow> fsys" where
  "rc_start e rc_file f = snd (in_service e rc_file ''quietstart'' f)"

definition pkg_start_stop_rc_scripts :: "'d install_env \<Rightarrow> struct_pkg \<Rightarrow> pkg_rc_attr \<Rightarrow> fsys \<Rightarrow> fsys" where
  "pkg_start_stop_rc_scripts e pkg attr f =
     (let rc_d_path = path_buf (null_string (pkg_get_string pkg PKG_PREFIX) @ ''/etc/rc.d/'');
          len = length rc_d_path
      in foldl (\<lambda>f (_, file). if take len (sf_path file) \<noteq> rc_d_path then f
             else (case attr of PKG_RC_START \<Rightarrow> rc_start e (drop len (sf_path file)) f | PKG_RC_STOP \<Rightarrow> rc_stop e (drop len (sf_path file)) f))
           f (pk_files pkg))"

definition handle_rc :: "'d install_env \<Rightarrow> struct_pkg \<Rightarrow> pkg_rc_attr \<Rightarrow> fsys \<Rightarrow> fsys" where
  "handle_rc e pkg attr f = (if in_handle_rc e then pkg_start_stop_rc_scripts e pkg attr f else f)"

definition pkg_locked :: "struct_pkg \<Rightarrow> bool" where
  "pkg_locked pkg = pkg_get_bool pkg PKG_LOCKED"

text \<open>A step that may end the function with its code.\<close>

definition when_ok :: "(epkg \<times> fsys) run \<Rightarrow> (epkg \<times> fsys \<Rightarrow> 'r run) \<Rightarrow> (fsys \<Rightarrow> 'r run) \<Rightarrow> 'r run" where
  "when_ok m bad go = run_bind m (\<lambda>(rc, f). if rc \<noteq> EPKG_OK then bad (rc, f) else go f)"

definition delete_load :: "pkg_load list" where
  "delete_load = [PKG_LOAD_RDEPS, PKG_LOAD_FILES, PKG_LOAD_DIRS, PKG_LOAD_SCRIPTS, PKG_LOAD_MTREE, PKG_LOAD_ANNOTATIONS]"

definition pkg_delete :: "'d install_env \<Rightarrow> struct_pkg \<Rightarrow> flags \<Rightarrow> 'd system \<Rightarrow> (epkg \<times> 'd system) run" where
  "pkg_delete e pkg fl s =
     (let (rc, pkg) = in_ensure_loaded e delete_load pkg (sy_db s);
          back = (\<lambda>(rc, f). Ret (rc, s\<lparr>sy_fs := f\<rparr>))
      in if rc \<noteq> EPKG_OK then Ret (EPKG_FATAL, s)
         else if pkg_locked pkg then Ret (EPKG_LOCKED, s)
         else when_ok
           (if has fl PKG_DELETE_NOSCRIPT then Ret (EPKG_OK, handle_rc e pkg PKG_RC_STOP (sy_fs s))
            else pkg_script_run e pkg (if has fl PKG_DELETE_UPGRADE then PKG_SCRIPT_PRE_UPGRADE else PKG_SCRIPT_PRE_DEINSTALL)
              (handle_rc e pkg PKG_RC_STOP (sy_fs s))) back
           (\<lambda>f. let f = pkg_delete_files e pkg (if has fl PKG_DELETE_FORCE then 1 else 0) f
            in when_ok (if has fl PKG_DELETE_NOSCRIPT \<or> has fl PKG_DELETE_UPGRADE then Ret (EPKG_OK, f)
                 else pkg_script_run e pkg PKG_SCRIPT_POST_DEINSTALL f) back
                 (\<lambda>f. let f = pkg_delete_dirs pkg f; (rc, db) = in_unregister e (pkg_get_int pkg PKG_ROWID) (sy_db s)
                      in Ret (rc, s\<lparr>sy_fs := f, sy_db := db\<rparr>))))"

section \<open>Opening a package\<close>

text \<open>\<open>ucl_object_validate\<close> with the schema of \<open>manifest_schema_open\<close>.\<close>

definition schema_types :: "(string \<times> ucl_type) list" where
  "schema_types = map (\<lambda>k. (k, T_STRING)) [''origin'', ''name'', ''comment'', ''desc'', ''mtree'', ''message'', ''maintainer'', ''arch'', ''www'',
       ''prefix'', ''digest'', ''repopath'', ''sum'', ''oldversion'', ''reponame'', ''repourl'', ''reason'']
     @ map (\<lambda>k. (k, T_INT)) [''flatsize'', ''oldflatsize'', ''pkgsize'']
     @ [(''locked'', T_BOOLEAN), (''rowid'', T_INT), (''time'', T_INT), (''annotations'', T_OBJECT), (''licenses'', T_ARRAY), (''categories'', T_ARRAY)]"

definition schema_required :: "string list" where
  "schema_required = [''origin'', ''name'', ''comment'', ''desc'', ''maintainer'', ''arch'', ''www'', ''prefix'']"

definition valid_item :: "string \<Rightarrow> ucl \<Rightarrow> bool" where
  "valid_item key v \<longleftrightarrow>
     (case map_of schema_types key of
        None \<Rightarrow> True
      | Some t \<Rightarrow> ucl_type_of v = t \<and> (case v of UCL_ARRAY xs \<Rightarrow> distinct xs \<and> (\<forall>x \<in> set xs. ucl_type_of x = T_STRING) | _ \<Rightarrow> True))"

definition pkg_is_valid :: "struct_pkg \<Rightarrow> epkg" where
  "pkg_is_valid pkg =
     (if (\<forall>(key, c) \<in> set (pk_fields pkg). \<forall>v \<in> set c. valid_item key v)
        \<and> (\<forall>key \<in> set schema_required. ucl_object_find_key key (pk_fields pkg) \<noteq> None) then EPKG_OK else EPKG_FATAL)"

text \<open>
  The entries whose names begin with a plus sign are read until there is another entry; what is left is that entry and those behind it.
\<close>

datatype open_end = Stop | Error | At_end

fun read_meta ::
  "'d install_env \<Rightarrow> bool \<Rightarrow> bool \<Rightarrow> (string, pkg_manifest_key) uthash \<Rightarrow> bool \<Rightarrow> bool \<Rightarrow> struct_pkg \<Rightarrow> entry list
    \<Rightarrow> (open_end \<times> bool \<times> struct_pkg \<times> entry list) run" where
  "read_meta e compact only keys eof manifest pkg [] = Ret (if eof then At_end else Error, manifest, pkg, [])"
| "read_meta e compact only keys eof manifest pkg (ae # aes) =
     (if take 1 (ae_pathname ae) \<noteq> ''+'' then Ret (Stop, manifest, pkg, ae # aes)
      else if \<not> manifest \<and> compact \<and> ae_pathname ae = ''+COMPACT_MANIFEST'' then
        run_bind (pkg_parse_manifest (in_manifest e) pkg (ae_data ae) keys) (\<lambda>(ret, pkg).
          Ret (if ret \<noteq> EPKG_OK then Error else Stop, True, pkg, ae # aes))
      else if \<not> manifest \<and> ae_pathname ae = ''+MANIFEST'' then
        run_bind (pkg_parse_manifest (in_manifest e) pkg (ae_data ae) keys) (\<lambda>(ret, pkg).
          if ret \<noteq> EPKG_OK then Ret (Error, True, pkg, ae # aes)
          else if only then Ret (Stop, True, pkg, ae # aes)
          else read_meta e compact only keys eof True pkg aes)
      else if ae_pathname ae = ''+MTREE_DIRS'' then
        (if ae_corrupt ae then Ret (Error, manifest, pkg, ae # aes)
         else run_bind (pkg_set pkg PKG_MTREE (SetStr (Some (ae_data ae)))) (\<lambda>pkg. read_meta e compact only keys eof manifest pkg aes))
      else read_meta e compact only keys eof manifest pkg aes)"

definition pkg_open2 ::
  "'d install_env \<Rightarrow> bool \<Rightarrow> bool \<Rightarrow> struct_pkg option \<Rightarrow> string \<Rightarrow> (string, pkg_manifest_key) uthash \<Rightarrow> fsys
    \<Rightarrow> (epkg \<times> struct_pkg option \<times> entry list \<times> bool) run" where
  \<comment> \<open>the code, the package, the entry that was read last with those behind it, and whether the archive ends well\<close>
  "pkg_open2 e compact only pkg_p path keys f =
     (case in_archive e path f of
        None \<Rightarrow> Ret (EPKG_FATAL, pkg_p, [], True)
      | Some a \<Rightarrow>
          run_bind (read_meta e compact only keys (ar_eof a) False
              (case pkg_p of None \<Rightarrow> pkg_new PKG_FILE | Some pkg \<Rightarrow> pkg_reset pkg PKG_FILE) (ar_entries a))
            (\<lambda>(oe, manifest, pkg, rest).
              Ret (case oe of Error \<Rightarrow> EPKG_FATAL | Stop \<Rightarrow> if manifest then EPKG_OK else EPKG_FATAL
                     | At_end \<Rightarrow> if manifest then EPKG_END else EPKG_FATAL,
                   Some pkg, rest, ar_eof a)))"

definition pkg_open ::
  "'d install_env \<Rightarrow> bool \<Rightarrow> bool \<Rightarrow> struct_pkg option \<Rightarrow> string \<Rightarrow> (string, pkg_manifest_key) uthash \<Rightarrow> fsys
    \<Rightarrow> (epkg \<times> struct_pkg option) run" where
  "pkg_open e compact only pkg_p path keys f =
     run_bind (pkg_open2 e compact only pkg_p path keys f) (\<lambda>(ret, pkg, _).
       Ret (if ret \<noteq> EPKG_OK \<and> ret \<noteq> EPKG_END then EPKG_FATAL else EPKG_OK, pkg))"

section \<open>Extracting\<close>

definition litchar :: string where
  "litchar = ''0123456789ABCDEFGHIJKLMNOPQRSTUVWXYZabcdefghijklmnopqrstuvwxyz''"

definition pkg_add_file_random_suffix :: "(nat \<Rightarrow> nat) \<Rightarrow> string \<Rightarrow> nat \<Rightarrow> nat \<Rightarrow> string" where
  "pkg_add_file_random_suffix random buf buflen suflen =
     (let suflen = (if length buf + suflen > buflen - 1 then buflen - length buf - 1 else suflen)
      in buf @ map (\<lambda>i. litchar ! (random i mod length litchar)) [0..<suflen])"

definition is_conf_file :: "string \<Rightarrow> string option" where
  \<comment> \<open>the name without \<open>.pkgconf\<close>\<close>
  "is_conf_file path =
     (if length path < 8 \<or> drop (length path - 8) path \<noteq> ''.pkgconf'' then None else Some (take (length path - 8) path))"

definition is_dir :: "string \<Rightarrow> fsys \<Rightarrow> bool" where
  "is_dir path f = (case node_at f path of Some (Dir _) \<Rightarrow> True | _ \<Rightarrow> False)"

text \<open>\<open>rename\<close> of something that is not a directory; it replaces anything but a directory.\<close>

definition rename_file :: "'d install_env \<Rightarrow> string \<Rightarrow> string \<Rightarrow> fsys \<Rightarrow> fsys option" where
  "rename_file e from to f =
     (case hash_find from f of
        None \<Rightarrow> None
      | Some n \<Rightarrow>
          (case hash_find to f of
             Some (Dir _) \<Rightarrow> None
           | _ \<Rightarrow> if in_rename e from to then Some (fs_put to n (hash_del from f)) else None))"

definition extract_entry :: "'d install_env \<Rightarrow> string option \<Rightarrow> nat \<Rightarrow> entry \<Rightarrow> fsys \<Rightarrow> bool \<times> fsys" where
  \<comment> \<open>one round of the loop of \<open>do_extract\<close> with the cleanup after an error\<close>
  "extract_entry e location cur_file ae f =
     (let pathname = path_buf (opt_string location @ ''/'' @ ae_pathname ae);
          renamed = (case hash_find pathname f of None \<Rightarrow> False | Some (Dir _) \<Rightarrow> False | Some _ \<Rightarrow> True);
          rpath = (if renamed then pkg_add_file_random_suffix (in_random e cur_file) pathname MAXPATHLEN 12 else pathname);
          failed = (\<lambda>f. (False, if renamed then unlink rpath f else f));
          (ok, f) = in_extract e False ae rpath f
      in if \<not> ok \<and> ((case ae_node ae of Dir _ \<Rightarrow> False | _ \<Rightarrow> True) \<or> \<not> is_dir pathname f) then failed f
         else let (ok, f) = (case is_conf_file pathname of
                 Some path \<Rightarrow> if hash_find path f = None then in_extract e True ae path f else (True, f)
               | None \<Rightarrow> (True, f))
              in if \<not> ok then failed f
                 else if renamed then (case rename_file e rpath pathname f of None \<Rightarrow> failed f | Some f \<Rightarrow> (True, f))
                 else (True, f))"

fun extract_entries :: "'d install_env \<Rightarrow> string option \<Rightarrow> bool \<Rightarrow> nat \<Rightarrow> entry list \<Rightarrow> fsys \<Rightarrow> epkg \<times> fsys" where
  "extract_entries e location eof n [] f = (if eof then EPKG_OK else EPKG_FATAL, f)"
| "extract_entries e location eof n (ae # aes) f =
     (let (ok, f) = extract_entry e location n ae f
      in if ok then extract_entries e location eof (Suc n) aes f else (EPKG_FATAL, f))"

definition do_extract :: "'d install_env \<Rightarrow> string option \<Rightarrow> bool \<Rightarrow> entry list \<Rightarrow> nat \<Rightarrow> fsys \<Rightarrow> epkg \<times> fsys" where
  "do_extract e location eof aes nfiles f = (if nfiles = 0 then (EPKG_OK, f) else extract_entries e location eof 0 aes f)"

text \<open>The entries of an mtree that can be read; errors of their extraction are ignored.\<close>

definition do_extract_mtree :: "'d install_env \<Rightarrow> string option \<Rightarrow> string option \<Rightarrow> fsys \<Rightarrow> epkg \<times> fsys" where
  "do_extract_mtree e mtree prefix f =
     (if opt_string mtree = [] then (EPKG_OK, f)
      else case in_mtree e (opt_string mtree) of
        None \<Rightarrow> (EPKG_FATAL, f)
      | Some aes \<Rightarrow> (EPKG_OK, foldl (\<lambda>f ae.
          snd (in_extract e False ae
            (if take 1 (ae_pathname ae) = ''/'' then ae_pathname ae
             else path_buf (null_string prefix @ ''/'' @ ae_pathname ae)) f)) f aes))"

section \<open>Installing\<close>

definition is_valid_abi :: "'d install_env \<Rightarrow> string \<Rightarrow> bool" where
  "is_valid_abi e arch \<longleftrightarrow> in_fnmatch e arch (in_abi e) \<or> take (length (in_abi e)) arch = in_abi e"

text \<open>A package of the universe with the name and type of its repository.\<close>

type_synonym remote = "struct_pkg \<times> (string \<times> string) option"

definition pkg_is_installed :: "'d install_env \<Rightarrow> string \<Rightarrow> 'd \<Rightarrow> bool" where
  "pkg_is_installed e origin db \<longleftrightarrow> fst (in_query e origin db) = EPKG_OK"

definition dep_path :: "string \<Rightarrow> pkg_dep \<Rightarrow> string option" where
  \<comment> \<open>the archive of a dependency beside the archive \<open>path\<close>; \<open>None\<close> when that has no extension\<close>
  "dep_path path dep =
     map_option (\<lambda>ext. path_buf (dirname (path_buf path) @ ''/'' @ dep_name dep @ ''-'' @ dep_version dep @ ext)) (strrchr CHR ''.'' path)"

text \<open>The loop over the dependencies; \<open>rec\<close> is \<open>pkg_add\<close>.\<close>

fun add_deps ::
  "'d install_env \<Rightarrow> (string \<Rightarrow> 'd system \<Rightarrow> (epkg \<times> 'd system) run) \<Rightarrow> string \<Rightarrow> flags \<Rightarrow> pkg_dep list \<Rightarrow> 'd system
    \<Rightarrow> (epkg \<times> 'd system) run" where
  "add_deps e rec path fl [] s = Ret (EPKG_OK, s)"
| "add_deps e rec path fl (dep # deps) s =
     (if pkg_is_installed e (dep_origin dep) (sy_db s) then add_deps e rec path fl deps s
      else if path = ''-'' then Ret (EPKG_FATAL, s)
      else case dep_path path dep of
        None \<Rightarrow> Ret (EPKG_FATAL, s)
      | Some dpath \<Rightarrow>
          if \<not> has fl PKG_ADD_UPGRADE \<and> node_at (sy_fs s) dpath \<noteq> None then
            run_bind (rec dpath s) (\<lambda>(ret, s). if ret \<noteq> EPKG_OK then Ret (EPKG_FATAL, s) else add_deps e rec path fl deps s)
          else if has fl PKG_ADD_FORCE_MISSING then add_deps e rec path fl deps s
          else Ret (EPKG_FATAL, s))"

definition pkg_add_check_pkg_archive ::
  "'d install_env \<Rightarrow> (string \<Rightarrow> 'd system \<Rightarrow> (epkg \<times> 'd system) run) \<Rightarrow> struct_pkg \<Rightarrow> string \<Rightarrow> flags \<Rightarrow> 'd system
    \<Rightarrow> (epkg \<times> 'd system) run" where
  "pkg_add_check_pkg_archive e rec pkg path fl s =
     (let (ret, inst) = in_query e (opt_string (pkg_get_string pkg PKG_ORIGIN)) (sy_db s);
          checked = (if path \<noteq> ''-'' \<and> strrchr CHR ''.'' path = None then Ret (EPKG_FATAL, s)
                     else add_deps e rec path fl (map snd (pk_deps pkg)) s)
      in if \<not> is_valid_abi e (opt_string (pkg_get_string pkg PKG_ARCH)) \<and> \<not> has fl PKG_ADD_FORCE then Ret (EPKG_FATAL, s)
         else if ret = EPKG_OK then
           (if \<not> has fl PKG_ADD_FORCE then Ret (EPKG_INSTALLED, s)
            else if pkg_locked inst then Ret (EPKG_INSTALLED, s)
            else checked)
         else if ret \<noteq> EPKG_END then Ret (ret, s)
         else checked)"

definition pkg_add_cleanup_old :: "'d install_env \<Rightarrow> struct_pkg \<Rightarrow> struct_pkg option \<Rightarrow> flags \<Rightarrow> fsys \<Rightarrow> (epkg \<times> fsys) run" where
  \<comment> \<open>the flags are those of \<open>pkg_add\<close>\<close>
  "pkg_add_cleanup_old e old new fl f =
     (let f = handle_rc e old PKG_RC_STOP f
      in when_ok
        (if has fl PKG_ADD_NOSCRIPT then Ret (EPKG_OK, f)
         else pkg_script_run e old (if has fl PKG_ADD_USE_UPGRADE_SCRIPTS then PKG_SCRIPT_PRE_UPGRADE else PKG_SCRIPT_PRE_DEINSTALL) f)
        Ret
        (\<lambda>f. Ret (EPKG_OK,
          (case new of
             None \<Rightarrow> f
           | Some new \<Rightarrow>
               (let f = foldl (\<lambda>f (_, file). if hash_find (sf_path file) (pk_files new) = None
                      then pkg_delete_file e old file (if has fl PKG_DELETE_FORCE then 1 else 0) f else f) f (pk_files old)
                in foldl (\<lambda>f (_, dir). if hash_find (sd_path dir) (pk_dirs new) = None then pkg_delete_dir old dir f else f)
                     f (pk_dirs old))))))"

definition merge_remote :: "flags \<Rightarrow> remote \<Rightarrow> struct_pkg \<Rightarrow> struct_pkg run" where
  \<comment> \<open>what a package of a repository adds to the one of the archive\<close>
  "merge_remote fl remote pkg =
     run_bind (case snd remote of
         None \<Rightarrow> Ret pkg
       | Some (name, type) \<Rightarrow>
           run_bind (ignore_code (pkg_addannotation pkg ''repository'' name)) (\<lambda>pkg. ignore_code (pkg_addannotation pkg ''repo_type'' type)))
       (\<lambda>pkg. run_bind (pkg_set pkg PKG_DIGEST (SetStr (pkg_get_string (fst remote) PKG_DIGEST))) (\<lambda>pkg.
         if has fl PKG_ADD_AUTOMATIC then Ret pkg
         else pkg_set pkg PKG_AUTOMATIC (SetBool (pkg_get_bool (fst remote) PKG_AUTOMATIC))))"

text \<open>From the registration on; the registration is finished unless it fails itself, or the old package cannot be cleaned up.\<close>

definition pkg_add_registered ::
  "'d install_env \<Rightarrow> flags \<Rightarrow> string option \<Rightarrow> struct_pkg option \<Rightarrow> struct_pkg option \<Rightarrow> bool \<Rightarrow> bool \<Rightarrow> entry list \<Rightarrow> struct_pkg
    \<Rightarrow> 'd system \<Rightarrow> (epkg \<times> 'd system) run" where
  "pkg_add_registered e fl location remote local extract eof aes pkg s =
     (let (rc, db) = in_register e pkg (has fl PKG_ADD_UPGRADE) (has fl PKG_ADD_FORCE) (sy_db s);
          s = s\<lparr>sy_db := db\<rparr>;
          finish = (\<lambda>(rc, f). Ret (rc, s\<lparr>sy_fs := f, sy_db := if has fl PKG_ADD_UPGRADE then db else in_finale e rc db\<rparr>));
          script = (\<lambda>type f. run_bind (pkg_script_run e pkg type f) (\<lambda>(_, f). Ret f))
      in if rc \<noteq> EPKG_OK then Ret (rc, s)
         else when_ok
           (Ret (if in_disable_mtree e then (EPKG_OK, sy_fs s)
             else do_extract_mtree e (pkg_get_string pkg PKG_MTREE) (pkg_get_string pkg PKG_PREFIX) (sy_fs s))) finish
           (\<lambda>f. when_ok (case local of None \<Rightarrow> Ret (EPKG_OK, f) | Some old \<Rightarrow> pkg_add_cleanup_old e old remote fl f)
             (\<lambda>(_, f). Ret (EPKG_FATAL, s\<lparr>sy_fs := f\<rparr>))
             (\<lambda>f. run_bind (if has fl PKG_ADD_NOSCRIPT \<or> has fl PKG_ADD_USE_UPGRADE_SCRIPTS then Ret f else script PKG_SCRIPT_PRE_INSTALL f)
               (\<lambda>f. when_ok (Ret (if extract then do_extract e location eof aes (length (pk_files pkg)) f else (EPKG_OK, f)))
                 (\<lambda>(rc, f). finish (rc, pkg_delete_dirs pkg (pkg_delete_files e pkg 2 f)))
                 (\<lambda>f. run_bind (if has fl PKG_ADD_NOSCRIPT then Ret f
                     else script (if has fl PKG_ADD_USE_UPGRADE_SCRIPTS then PKG_SCRIPT_POST_UPGRADE else PKG_SCRIPT_POST_INSTALL) f)
                   (\<lambda>f. finish (EPKG_OK, handle_rc e pkg PKG_RC_START f)))))))"

text \<open>\<open>pkg_add_common\<close>; the fuel bounds the depth of the dependencies.\<close>

fun pkg_add_common ::
  "nat \<Rightarrow> 'd install_env \<Rightarrow> string \<Rightarrow> flags \<Rightarrow> (string, pkg_manifest_key) uthash \<Rightarrow> string option \<Rightarrow> remote option \<Rightarrow> struct_pkg option
    \<Rightarrow> 'd system \<Rightarrow> (epkg \<times> 'd system) run" where
  "pkg_add_common 0 e path fl keys location remote local s = NoFuel"
| "pkg_add_common (Suc n) e path fl keys location remote local s =
     (let fl = (if local \<noteq> None then or fl PKG_ADD_UPGRADE else fl)
      in run_bind (pkg_open2 e False False None path keys (sy_fs s)) (\<lambda>(opened, pkg_p, aes, eof).
        case pkg_p of
          None \<Rightarrow> Ret (opened, s)
        | Some pkg \<Rightarrow>
            if opened \<noteq> EPKG_OK \<and> opened \<noteq> EPKG_END then Ret (opened, s)
            else if pkg_is_valid pkg \<noteq> EPKG_OK then Ret (EPKG_FATAL, s)
            else
              run_bind (if has fl PKG_ADD_AUTOMATIC then pkg_set pkg PKG_AUTOMATIC (SetBool True) else Ret pkg) (\<lambda>pkg.
              run_bind (case remote of
                  None \<Rightarrow> run_bind (pkg_add_check_pkg_archive e
                      (\<lambda>dpath. pkg_add_common n e dpath PKG_ADD_AUTOMATIC keys location None None) pkg path fl s) (\<lambda>(ret, s). Ret (ret, s, pkg))
                | Some r \<Rightarrow> run_bind (merge_remote fl r pkg) (\<lambda>pkg. Ret (EPKG_OK, s, pkg)))
                (\<lambda>(ret, s, pkg).
                  if ret \<noteq> EPKG_OK then Ret (ret, s)
                  else run_bind (case location of None \<Rightarrow> Ret pkg | Some l \<Rightarrow> ignore_code (pkg_addannotation pkg ''relocated'' l))
                    (\<lambda>pkg. pkg_add_registered e fl location (map_option fst remote) local (opened \<noteq> EPKG_END) eof aes pkg s)))))"

definition pkg_add ::
  "nat \<Rightarrow> 'd install_env \<Rightarrow> string \<Rightarrow> flags \<Rightarrow> (string, pkg_manifest_key) uthash \<Rightarrow> string option \<Rightarrow> 'd system \<Rightarrow> (epkg \<times> 'd system) run" where
  "pkg_add n e path fl keys location = pkg_add_common n e path fl keys location None None"

definition pkg_add_from_remote ::
  "nat \<Rightarrow> 'd install_env \<Rightarrow> string \<Rightarrow> flags \<Rightarrow> (string, pkg_manifest_key) uthash \<Rightarrow> string option \<Rightarrow> remote \<Rightarrow> 'd system
    \<Rightarrow> (epkg \<times> 'd system) run" where
  "pkg_add_from_remote n e path fl keys location rp = pkg_add_common n e path fl keys location (Some rp) None"

definition pkg_add_upgrade ::
  "nat \<Rightarrow> 'd install_env \<Rightarrow> string \<Rightarrow> flags \<Rightarrow> (string, pkg_manifest_key) uthash \<Rightarrow> string option \<Rightarrow> remote \<Rightarrow> struct_pkg \<Rightarrow> 'd system
    \<Rightarrow> (epkg \<times> 'd system) run" where
  "pkg_add_upgrade n e path fl keys location rp lp s =
     (let (rc, lp) = in_ensure_loaded e [PKG_LOAD_FILES, PKG_LOAD_SCRIPTS, PKG_LOAD_DIRS] lp (sy_db s)
      in if rc \<noteq> EPKG_OK then Ret (EPKG_FATAL, s) else pkg_add_common n e path fl keys location (Some rp) (Some lp) s)"

section \<open>Removing a package\<close>

text \<open>A package in the root directory, with absolute paths, that runs no script and has no services.\<close>

definition plain_path :: "string \<Rightarrow> bool" where
  "plain_path p \<longleftrightarrow> (\<exists>c r. p = CHR ''/'' # c # r \<and> c \<noteq> CHR ''/'')"

definition in_place :: "struct_pkg \<Rightarrow> bool" where
  "in_place pkg \<longleftrightarrow> pkg_object_find (pkg_get pkg PKG_ANNOTATIONS) ''relocated'' = None
     \<and> (\<forall>(k, file) \<in> set (pk_files pkg). plain_path (sf_path file)) \<and> (\<forall>(k, dir) \<in> set (pk_dirs pkg). plain_path (sd_path dir))"

definition quiet :: "'d install_env \<Rightarrow> struct_pkg \<Rightarrow> bool" where
  "quiet e pkg \<longleftrightarrow> \<not> in_handle_rc e \<and> (\<not> in_run_scripts e \<or> (\<forall>i. pk_scripts pkg i = None))"

lemma at_root_plain:
  assumes "pkg_object_find (pkg_get pkg PKG_ANNOTATIONS) ''relocated'' = None" "plain_path p"
  shows "at_root pkg p f = Some p"
  using assms by (auto simp: at_root_def plain_path_def pkg_open_root_fd_def strip_slashes_def)

lemma run_scripts_none: "\<forall>i. pk_scripts pkg i = None \<Longrightarrow> run_scripts e pkg m js f = Ret (EPKG_OK, f)"
  by (induction js) (cases m; simp add: pkg_script_get_def)+

lemma script_map_all:
  "type \<in> {PKG_SCRIPT_PRE_INSTALL, PKG_SCRIPT_POST_INSTALL, PKG_SCRIPT_PRE_UPGRADE, PKG_SCRIPT_POST_UPGRADE, PKG_SCRIPT_PRE_DEINSTALL,
    PKG_SCRIPT_POST_DEINSTALL} \<Longrightarrow> find (\<lambda>(arg, b, a). a = type) script_map \<noteq> None"
  by (auto simp: script_map_def)

lemma quiet_script:
  assumes "quiet e pkg" "type \<in> {PKG_SCRIPT_PRE_INSTALL, PKG_SCRIPT_POST_INSTALL, PKG_SCRIPT_PRE_UPGRADE, PKG_SCRIPT_POST_UPGRADE,
      PKG_SCRIPT_PRE_DEINSTALL, PKG_SCRIPT_POST_DEINSTALL}"
  shows "pkg_script_run e pkg type f = Ret (EPKG_OK, f)"
  using assms(1) script_map_all [OF assms(2)] run_scripts_none by (auto simp: pkg_script_run_def quiet_def)

lemma quiet_rc: "quiet e pkg \<Longrightarrow> handle_rc e pkg attr f = f"
  by (simp add: quiet_def handle_rc_def)

text \<open>Whether a file is removed: it is forced, has no checksum, or still has the checksum.\<close>

definition removable :: "'d install_env \<Rightarrow> nat \<Rightarrow> fsys \<Rightarrow> struct_file \<Rightarrow> bool" where
  "removable e force f file \<longleftrightarrow>
     (case hash_find (sf_path file) f of Some (Dir _) \<Rightarrow> False | _ \<Rightarrow> True)
     \<and> (force > 0 \<or> sf_sum file = [] \<or> node_sum e (hash_find (sf_path file) f) = Some (sf_sum file))"

lemma delete_file_find:
  assumes "at_root pkg (sf_path file) f = Some (sf_path file)"
  shows "hash_find q (pkg_delete_file e pkg file force f) = (if q = sf_path file \<and> removable e force f file then None else hash_find q f)"
  using assms by (auto simp: pkg_delete_file_def removable_def unlink_find split: option.splits node.splits)

lemma removable_cong: "hash_find (sf_path sf) f = hash_find (sf_path sf) g \<Longrightarrow> removable e force f sf = removable e force g sf"
  by (simp add: removable_def)

lemma delete_files_find:
  assumes "\<forall>(k, sf) \<in> set files. \<forall>f. at_root pkg (sf_path sf) f = Some (sf_path sf)"
  shows "hash_find q (foldl (\<lambda>f (_, sf). pkg_delete_file e pkg sf force f) f files)
    = (if \<exists>(k, sf) \<in> set files. sf_path sf = q \<and> removable e force f sf then None else hash_find q f)"
  using assms
proof (induction files arbitrary: f)
  case (Cons kf files)
  obtain k sf where kf: "kf = (k, sf)" by (cases kf)
  let ?g = "pkg_delete_file e pkg sf force f"
  have g: "hash_find r ?g = (if r = sf_path sf \<and> removable e force f sf then None else hash_find r f)" for r
    using Cons.prems kf by (intro delete_file_find) auto
  have ih: "hash_find q (foldl (\<lambda>f (_, sf). pkg_delete_file e pkg sf force f) ?g files)
    = (if \<exists>(k, sf) \<in> set files. sf_path sf = q \<and> removable e force ?g sf then None else hash_find q ?g)"
    by (rule Cons.IH) (use Cons.prems in auto)
  show ?case
  proof (cases "q = sf_path sf \<and> removable e force f sf")
    case True
    then show ?thesis using ih g [of q] by (auto simp: kf)
  next
    case False
    then have "removable e force ?g sg = removable e force f sg" if "sf_path sg = q" for sg
      using that g [of q] by (intro removable_cong) auto
    then show ?thesis using ih g [of q] False by (auto simp: kf)
  qed
qed simp

text \<open>
  Which of the listed directories go when they are removed in their order: the one with number \<open>i\<close> when it is a directory and everything
  in it has gone before it.
\<close>

definition inside :: "string \<Rightarrow> string \<Rightarrow> bool" where
  "inside d r \<longleftrightarrow> take (Suc (length d)) r = d @ ''/''"

inductive emptied :: "fsys \<Rightarrow> string list \<Rightarrow> nat \<Rightarrow> bool" for f ds where
  emptiedI: "i < length ds \<Longrightarrow> hash_find (ds ! i) f = Some (Dir n)
    \<Longrightarrow> \<forall>r. inside (ds ! i) r \<longrightarrow> hash_find r f \<noteq> None \<longrightarrow> (\<exists>j < i. ds ! j = r \<and> emptied f ds j)
    \<Longrightarrow> emptied f ds i"

lemma emptied_iff:
  "emptied f ds i \<longleftrightarrow> i < length ds \<and> (\<exists>n. hash_find (ds ! i) f = Some (Dir n))
    \<and> (\<forall>r. inside (ds ! i) r \<longrightarrow> hash_find r f \<noteq> None \<longrightarrow> (\<exists>j < i. ds ! j = r \<and> emptied f ds j))"
  by (subst emptied.simps) blast

definition dirs_gone :: "string list \<Rightarrow> fsys \<Rightarrow> fsys \<Rightarrow> bool" where
  "dirs_gone ds f g \<longleftrightarrow> (\<forall>q. hash_find q g = (if \<exists>i. emptied f ds i \<and> ds ! i = q then None else hash_find q f))"

lemma emptied_less: "emptied f ds i \<Longrightarrow> i < length ds"
  by (erule emptied.cases) simp

lemma emptied_append:
  assumes "i < length ds"
  shows "emptied f (ds @ [d]) i \<longleftrightarrow> emptied f ds i"
  using assms
proof (induction i rule: less_induct)
  case (less i)
  have "(ds @ [d]) ! j = ds ! j" "emptied f (ds @ [d]) j \<longleftrightarrow> emptied f ds j" if "j < i" for j
    using less.IH [OF that] less.prems that by (simp_all add: nth_append)
  then have j: "(\<exists>j < i. (ds @ [d]) ! j = r \<and> emptied f (ds @ [d]) j) \<longleftrightarrow> (\<exists>j < i. ds ! j = r \<and> emptied f ds j)" for r
    by (intro ex_cong1 conj_cong) simp_all
  show ?case unfolding emptied_iff [of f "ds @ [d]" i] emptied_iff [of f ds i] j
    using less.prems by (simp add: nth_append)
qed

lemma hash_find_bex: "(\<exists>(r, n) \<in> set f. P r) \<longleftrightarrow> (\<exists>r. hash_find r f \<noteq> None \<and> P r)"
proof -
  have "hash_find r f \<noteq> None \<longleftrightarrow> r \<in> fst ` set f" for r by (simp add: hash_find_def map_of_eq_None_iff)
  then show ?thesis by force
qed

lemma rmdir_find:
  "hash_find q (rmdir p f) = (if q = strip_slashes p \<and> (\<exists>n. hash_find q f = Some (Dir n)) \<and> (\<forall>r. inside q r \<longrightarrow> hash_find r f = None)
    then None else hash_find q f)"
proof -
  let ?d = "strip_slashes p"
  have m: "(\<exists>(r, _) \<in> set f. take (Suc (length ?d)) r = ?d @ ''/'') \<longleftrightarrow> \<not> (\<forall>r. inside ?d r \<longrightarrow> hash_find r f = None)"
    unfolding case_prod_unfold by (subst hash_find_bex [unfolded case_prod_unfold]) (simp add: inside_def conj_commute)
  show ?thesis
  proof (cases "\<exists>n. hash_find ?d f = Some (Dir n)")
    case True
    then obtain n where "hash_find ?d f = Some (Dir n)" by blast
    then show ?thesis unfolding rmdir_def Let_def m by (cases "q = ?d") auto
  next
    case False
    then have "rmdir p f = f" by (auto simp: rmdir_def Let_def split: option.split node.split)
    then show ?thesis using False by auto
  qed
qed

lemma dirs_gone_snoc:
  assumes "dirs_gone ds f g"
  shows "dirs_gone (ds @ [strip_slashes p]) f (rmdir p g)"
  unfolding dirs_gone_def
proof
  fix q
  let ?d = "strip_slashes p" let ?es = "ds @ [?d]"
  have g: "hash_find r g = (if \<exists>i. emptied f ds i \<and> ds ! i = r then None else hash_find r f)" for r
    using assms unfolding dirs_gone_def by blast
  have old: "(\<exists>i < length ds. emptied f ?es i \<and> ?es ! i = r) \<longleftrightarrow> (\<exists>i. emptied f ds i \<and> ds ! i = r)" for r
    by (metis emptied_append emptied_less nth_append)
  have last: "emptied f ?es (length ds) \<longleftrightarrow> (\<exists>n. hash_find ?d f = Some (Dir n))
      \<and> (\<forall>r. inside ?d r \<longrightarrow> hash_find r f \<noteq> None \<longrightarrow> (\<exists>i. emptied f ds i \<and> ds ! i = r))"
    unfolding emptied_iff [of f ?es "length ds"] using old by (simp add: conj_commute)
  have "(\<exists>i. emptied f ?es i \<and> ?es ! i = q) \<longleftrightarrow> (\<exists>i. emptied f ds i \<and> ds ! i = q) \<or> emptied f ?es (length ds) \<and> ?d = q"
    using old [of q] emptied_less [of f ?es] by (metis length_append_singleton less_Suc_eq nth_append_length)
  moreover have "hash_find r g = None \<longleftrightarrow> hash_find r f = None \<or> (\<exists>i. emptied f ds i \<and> ds ! i = r)" for r
    by (simp only: g [of r] split: if_split) blast
  ultimately show "hash_find q (rmdir p g) = (if \<exists>i. emptied f ?es i \<and> ?es ! i = q then None else hash_find q f)"
    unfolding rmdir_find last using g [of q] by auto
qed

lemma delete_dirs_find:
  assumes "\<forall>(k, dir) \<in> set dirs. \<forall>f. at_root pkg (sd_path dir) f = Some (sd_path dir)"
  shows "dirs_gone (map (\<lambda>(_, dir). strip_slashes (sd_path dir)) dirs) f (foldl (\<lambda>f (_, dir). pkg_delete_dir pkg dir f) f dirs)"
  using assms
proof (induction dirs rule: rev_induct)
  case Nil
  have "\<not> emptied f [] i" for i using emptied_less [of f "[]" i] by auto
  then show ?case by (simp add: dirs_gone_def)
next
  case (snoc kd dirs)
  obtain k dir where kd: "kd = (k, dir)" by (cases kd)
  have "pkg_delete_dir pkg dir g = rmdir (sd_path dir) g" for g using snoc.prems kd by (simp add: pkg_delete_dir_def)
  then show ?case using dirs_gone_snoc [OF snoc.IH, of "sd_path dir"] snoc.prems kd by simp
qed

text \<open>Of the directories of the package that have the property, in their order, those go that are empty then; nothing else changes.\<close>

definition dirs_removed :: "(struct_dir \<Rightarrow> bool) \<Rightarrow> struct_pkg \<Rightarrow> fsys \<Rightarrow> fsys \<Rightarrow> bool" where
  "dirs_removed P pkg = dirs_gone (map (strip_slashes \<circ> sd_path) (filter P (map snd (pk_dirs pkg))))"

definition files_removed :: "(struct_file \<Rightarrow> bool) \<Rightarrow> struct_pkg \<Rightarrow> fsys \<Rightarrow> fsys \<Rightarrow> bool" where
  \<comment> \<open>of the files of the package those with the property are gone, and nothing else changed\<close>
  "files_removed P pkg f g \<longleftrightarrow>
     (\<forall>q. hash_find q g = (if \<exists>(k, sf) \<in> set (pk_files pkg). sf_path sf = q \<and> P sf then None else hash_find q f))"

lemma in_place_at_root:
  assumes "in_place pkg"
  shows "\<forall>(k, sf) \<in> set (pk_files pkg). \<forall>f. at_root pkg (sf_path sf) f = Some (sf_path sf)"
    "\<forall>(k, dir) \<in> set (pk_dirs pkg). \<forall>f. at_root pkg (sd_path dir) f = Some (sd_path dir)"
  using assms by (auto simp: in_place_def intro!: at_root_plain)

lemma delete_files_removed: "in_place pkg \<Longrightarrow> files_removed (removable e force f) pkg f (pkg_delete_files e pkg force f)"
  unfolding files_removed_def pkg_delete_files_def by (intro allI delete_files_find in_place_at_root(1))

lemma delete_some_dirs:
  assumes "in_place pkg"
  shows "dirs_removed P pkg f (foldl (\<lambda>f (_, dir). pkg_delete_dir pkg dir f) f (filter (\<lambda>(_, dir). P dir) (pk_dirs pkg)))"
proof -
  have "map (\<lambda>(_, dir). strip_slashes (sd_path dir)) (filter (\<lambda>(_, dir). P dir) ds) = map (strip_slashes \<circ> sd_path) (filter P (map snd ds))"
    for ds :: "(string \<times> struct_dir) list" by (induction ds) auto
  then show ?thesis unfolding dirs_removed_def
    using delete_dirs_find [of "filter (\<lambda>(_, dir). P dir) (pk_dirs pkg)" pkg f] in_place_at_root(2) [OF assms] by auto
qed

lemma delete_dirs_removed: "in_place pkg \<Longrightarrow> dirs_removed (\<lambda>_. True) pkg f (pkg_delete_dirs pkg f)"
  using delete_some_dirs [of pkg "\<lambda>_. True" f] by (simp add: pkg_delete_dirs_def case_prod_unfold)

lemma dirs_removed_find: "dirs_removed P pkg f g \<Longrightarrow> hash_find q g = hash_find q f \<or> hash_find q g = None"
  by (simp add: dirs_removed_def dirs_gone_def)

lemma when_ok_Ret [simp]: "when_ok (Ret (rc, f)) bad go = (if rc \<noteq> EPKG_OK then bad (rc, f) else go f)"
  by (simp add: when_ok_def)

lemma delete_quiet:
  assumes "in_ensure_loaded e delete_load pkg (sy_db s) = (EPKG_OK, lp)" "quiet e lp" "\<not> pkg_locked lp"
  shows "pkg_delete e pkg fl s = Ret (fst (in_unregister e (pkg_get_int lp PKG_ROWID) (sy_db s)),
    s\<lparr>sy_fs := pkg_delete_dirs lp (pkg_delete_files e lp (if has fl PKG_DELETE_FORCE then 1 else 0) (sy_fs s)),
      sy_db := snd (in_unregister e (pkg_get_int lp PKG_ROWID) (sy_db s))\<rparr>)"
  using assms quiet_script [OF assms(2)] by (simp add: pkg_delete_def Let_def quiet_rc case_prod_unfold)

text \<open>
  C11: Removing a package that is not locked, was installed under \<open>/\<close> and whose scripts and services are not run: of its files exactly those go that
  are forced, have no checksum or still have the recorded checksum, and that are no directories; of its directories, in the order of the list,
  exactly those go that are empty at their turn, because all that was in them has gone; nothing else in the file system changes; and the package is
  unregistered. A locked package is left as it is.
\<close>

theorem delete_exact:
  assumes "in_ensure_loaded e delete_load pkg (sy_db s) = (EPKG_OK, lp)" "in_place lp" "quiet e lp"
  shows "if pkg_locked lp then pkg_delete e pkg fl s = Ret (EPKG_LOCKED, s)
    else \<exists>f g. files_removed (removable e (if has fl PKG_DELETE_FORCE then 1 else 0) (sy_fs s)) lp (sy_fs s) f \<and> dirs_removed (\<lambda>_. True) lp f g
      \<and> pkg_delete e pkg fl s = (let (rc, db) = in_unregister e (pkg_get_int lp PKG_ROWID) (sy_db s) in Ret (rc, \<lparr>sy_fs = g, sy_db = db\<rparr>))"
proof (cases "pkg_locked lp")
  case True
  then show ?thesis using assms(1) by (simp add: pkg_delete_def)
next
  case False
  let ?f = "pkg_delete_files e lp (if has fl PKG_DELETE_FORCE then 1 else 0) (sy_fs s)"
  have "pkg_delete e pkg fl s
    = (let (rc, db) = in_unregister e (pkg_get_int lp PKG_ROWID) (sy_db s) in Ret (rc, \<lparr>sy_fs = pkg_delete_dirs lp ?f, sy_db = db\<rparr>))"
    using delete_quiet [OF assms(1,3) False] by (cases s) (simp add: Let_def case_prod_unfold)
  moreover note delete_files_removed [OF assms(2), of e "if has fl PKG_DELETE_FORCE then 1 else 0" "sy_fs s"] delete_dirs_removed [OF assms(2), of ?f]
  ultimately show ?thesis using False by (simp only: if_False not_False_eq_True) blast
qed

text \<open>
  When the check of the checksums finds no mismatch, removing the package without force leaves none of its files behind.
\<close>

theorem verified_removed:
  assumes "in_ensure_loaded e delete_load pkg (sy_db s) = (EPKG_OK, lp)" "in_place lp" "quiet e lp" "\<not> pkg_locked lp"
    and "pkg_test_filesum e lp (sy_fs s) = EPKG_OK" "(k, sf) \<in> set (pk_files lp)"
  shows "\<exists>rc s'. pkg_delete e pkg fl s = Ret (rc, s') \<and> (\<forall>c. hash_find (sf_path sf) (sy_fs s') \<noteq> Some (Reg c)) \<and> (\<forall>t. hash_find (sf_path sf) (sy_fs s') \<noteq> Some (Sym t))"
proof -
  define force :: nat where "force = (if has fl PKG_DELETE_FORCE then 1 else 0)"
  let ?f = "pkg_delete_files e lp force (sy_fs s)"
  have "sf_sum sf = [] \<or> node_sum e (hash_find (sf_path sf) (sy_fs s)) = Some (sf_sum sf)"
    using assms(5,6) by (auto simp: pkg_test_filesum_def split: if_splits)
  then have "removable e force (sy_fs s) sf \<or> (\<exists>n. hash_find (sf_path sf) (sy_fs s) = Some (Dir n))"
    by (auto simp: removable_def split: option.split node.split)
  then have "hash_find (sf_path sf) ?f = None \<or> (\<exists>n. hash_find (sf_path sf) ?f = Some (Dir n))"
  proof
    assume r: "removable e force (sy_fs s) sf"
    have "hash_find (sf_path sf) ?f = (if \<exists>(k, sf') \<in> set (pk_files lp). sf_path sf' = sf_path sf \<and> removable e force (sy_fs s) sf'
        then None else hash_find (sf_path sf) (sy_fs s))"
      using delete_files_removed [OF assms(2), of e force "sy_fs s"] unfolding files_removed_def by blast
    moreover have "\<exists>(k, sf') \<in> set (pk_files lp). sf_path sf' = sf_path sf \<and> removable e force (sy_fs s) sf'" using assms(6) r by blast
    ultimately show ?thesis by simp
  next
    assume "\<exists>n. hash_find (sf_path sf) (sy_fs s) = Some (Dir n)"
    then show ?thesis using delete_files_removed [OF assms(2), of e force "sy_fs s"] unfolding files_removed_def by presburger
  qed
  moreover have "hash_find q (pkg_delete_dirs lp ?f) = hash_find q ?f \<or> hash_find q (pkg_delete_dirs lp ?f) = None" for q
    by (rule dirs_removed_find [OF delete_dirs_removed [OF assms(2)]])
  from this [of "sf_path sf"] calculation
  have "hash_find (sf_path sf) (pkg_delete_dirs lp ?f) \<noteq> Some (Reg c)" "hash_find (sf_path sf) (pkg_delete_dirs lp ?f) \<noteq> Some (Sym t)" for c t
    by auto
  then show ?thesis using delete_quiet [OF assms(1,3,4), of fl] unfolding force_def [symmetric] by simp
qed

section \<open>Upgrades\<close>

lemma foldl_guard: "foldl (\<lambda>f x. if P x then h f x else f) f xs = foldl h f (filter P xs)"
  by (induction xs arbitrary: f) simp_all

definition not_dir :: "fsys \<Rightarrow> string \<Rightarrow> bool" where
  "not_dir f q \<longleftrightarrow> (case hash_find q f of Some (Dir _) \<Rightarrow> False | _ \<Rightarrow> True)"

lemma upgrade_flag_forces: "has (or fl PKG_ADD_UPGRADE) PKG_DELETE_FORCE"
proof -
  have "bit (and (or fl PKG_ADD_UPGRADE) PKG_DELETE_FORCE) 0"
    by (simp add: PKG_ADD_UPGRADE_def PKG_DELETE_FORCE_def bit_and_iff bit_or_iff)
  then show ?thesis by (auto simp: has_def)
qed

lemma cleanup_eq:
  assumes "quiet e old" "has fl PKG_DELETE_FORCE"
  shows "pkg_add_cleanup_old e old (Some new) fl f = Ret (EPKG_OK,
    foldl (\<lambda>f (_, dir). pkg_delete_dir old dir f)
      (foldl (\<lambda>f (_, sf). pkg_delete_file e old sf 1 f) f (filter (\<lambda>(_, sf). hash_find (sf_path sf) (pk_files new) = None) (pk_files old)))
      (filter (\<lambda>(_, dir). hash_find (sd_path dir) (pk_dirs new) = None) (pk_dirs old)))"
  using assms quiet_script [OF assms(1)] foldl_guard [where P = "\<lambda>p :: string \<times> struct_file. hash_find (sf_path (snd p)) (pk_files new) = None" and h = "\<lambda>f p. pkg_delete_file e old (snd p) 1 f"]
    foldl_guard [where P = "\<lambda>p :: string \<times> struct_dir. hash_find (sd_path (snd p)) (pk_dirs new) = None" and h = "\<lambda>f p. pkg_delete_dir old (snd p) f"]
  by (simp add: pkg_add_cleanup_old_def quiet_rc case_prod_unfold del: One_nat_def)

text \<open>
  C37: An upgrade removes every file of the old package that the new one has not, whether or not it was changed after it was installed: the flag of an upgrade
  has the value of the flag that forces a removal, so no checksum is looked at. Of the directories that the new package has not, in their order, those go that
  are empty then.
\<close>

theorem upgrade_cleanup_exact:
  assumes "in_place old" "quiet e old"
  shows "\<exists>g f'. pkg_add_cleanup_old e old (Some new) (or fl PKG_ADD_UPGRADE) f = Ret (EPKG_OK, f')
    \<and> files_removed (\<lambda>sf. hash_find (sf_path sf) (pk_files new) = None \<and> not_dir f (sf_path sf)) old f g \<and> dirs_removed (\<lambda>dir. hash_find (sd_path dir) (pk_dirs new) = None) old g f'"
proof -
  let ?fs = "filter (\<lambda>(_, sf). hash_find (sf_path sf) (pk_files new) = None) (pk_files old)"
  let ?ds = "filter (\<lambda>(_, dir). hash_find (sd_path dir) (pk_dirs new) = None) (pk_dirs old)"
  let ?g = "foldl (\<lambda>f (_, sf). pkg_delete_file e old sf 1 f) f ?fs"
  have "hash_find q ?g = (if \<exists>(k, sf) \<in> set ?fs. sf_path sf = q \<and> removable e 1 f sf then None else hash_find q f)" for q
    using in_place_at_root(1) [OF assms(1)] by (intro delete_files_find) auto
  then have "files_removed (\<lambda>sf. hash_find (sf_path sf) (pk_files new) = None \<and> not_dir f (sf_path sf)) old f ?g"
    unfolding files_removed_def by (auto simp: removable_def not_dir_def split: if_splits)
  moreover note delete_some_dirs [OF assms(1), of "\<lambda>dir. hash_find (sd_path dir) (pk_dirs new) = None" ?g]
  ultimately show ?thesis unfolding cleanup_eq [OF assms(2) upgrade_flag_forces] by blast
qed

section \<open>A failed installation\<close>

lemma removable_forced: "removable e 2 f sf \<longleftrightarrow> not_dir f (sf_path sf)"
  by (simp add: removable_def not_dir_def)

text \<open>
  C13: When the extraction of a new package fails, the registration is finished with the code of the failure, and every path of the package's list of
  files is removed, whether or not the extraction had come to it; its directories go when they are empty at their turn, and nothing else changes.
  This is for a package under \<open>/\<close> that replaces none, with no mtree and scripts that are not run.
\<close>

theorem failed_install_undone:
  assumes "in_place pkg" "quiet e pkg" "in_disable_mtree e" "\<not> has fl PKG_ADD_UPGRADE"
    and "in_register e pkg False (has fl PKG_ADD_FORCE) (sy_db s) = (EPKG_OK, db)"
    and "do_extract e location eof aes (length (pk_files pkg)) (sy_fs s) = (rc, f)" "rc \<noteq> EPKG_OK"
  shows "\<exists>g h. pkg_add_registered e fl location remote None True eof aes pkg s = Ret (rc, \<lparr>sy_fs = h, sy_db = in_finale e rc db\<rparr>)
    \<and> files_removed (\<lambda>sf. not_dir f (sf_path sf)) pkg f g \<and> dirs_removed (\<lambda>_. True) pkg g h"
proof -
  let ?g = "pkg_delete_files e pkg 2 f"
  have "pkg_add_registered e fl location remote None True eof aes pkg s = Ret (rc, s\<lparr>sy_fs := pkg_delete_dirs pkg ?g, sy_db := in_finale e rc db\<rparr>)"
    using assms(3-7) quiet_script [OF assms(2)] by (simp add: pkg_add_registered_def Let_def)
  then have "pkg_add_registered e fl location remote None True eof aes pkg s = Ret (rc, \<lparr>sy_fs = pkg_delete_dirs pkg ?g, sy_db = in_finale e rc db\<rparr>)"
    by (cases s) simp
  then show ?thesis using delete_files_removed [OF assms(1), of e 2 f] delete_dirs_removed [OF assms(1), of ?g] unfolding removable_forced by blast
qed

section \<open>Extraction\<close>

text \<open>
  What \<open>libarchive\<close> promises: nothing that exists is touched beside the path, parents that are missing are made, and after a success
  the entry is at the path; a directory is there without the slashes of its name, and its extraction makes nothing else at the path.
\<close>

definition is_dir_entry :: "entry \<Rightarrow> bool" where
  "is_dir_entry ae \<longleftrightarrow> (case ae_node ae of Dir _ \<Rightarrow> True | _ \<Rightarrow> False)"

definition dir_or_none :: "node option \<Rightarrow> bool" where
  "dir_or_none n \<longleftrightarrow> (case n of None \<Rightarrow> True | Some (Dir _) \<Rightarrow> True | _ \<Rightarrow> False)"

definition extracts_well :: "'d install_env \<Rightarrow> bool" where
  "extracts_well e \<longleftrightarrow> (\<forall>again ae path f.
     let (ok, g) = in_extract e again ae path f
     in (\<forall>q. q \<noteq> path \<longrightarrow> (is_dir_entry ae \<and> \<not> again \<longrightarrow> q \<noteq> strip_slashes path) \<longrightarrow> hash_find q f \<noteq> None \<longrightarrow> hash_find q g = hash_find q f)
        \<and> (\<forall>q. q \<noteq> path \<longrightarrow> hash_find q f = None \<longrightarrow> dir_or_none (hash_find q g))
        \<and> (is_dir_entry ae \<longrightarrow> \<not> again \<longrightarrow> dir_or_none (hash_find path f) \<longrightarrow> dir_or_none (hash_find path g))
        \<and> (ok \<longrightarrow> \<not> again \<longrightarrow> (if is_dir_entry ae then \<exists>n. hash_find (strip_slashes path) g = Some (Dir n)
             else hash_find path g = Some (ae_node ae))))"

definition target :: "string option \<Rightarrow> entry \<Rightarrow> string" where
  "target location ae = path_buf (opt_string location @ ''/'' @ ae_pathname ae)"

definition place :: "string option \<Rightarrow> entry \<Rightarrow> string" where
  "place location ae = strip_slashes (target location ae)"

definition temp :: "'d install_env \<Rightarrow> string option \<Rightarrow> nat \<Rightarrow> entry \<Rightarrow> string" where
  \<comment> \<open>the name beside an existing file\<close>
  "temp e location n ae = pkg_add_file_random_suffix (in_random e n) (target location ae) MAXPATHLEN 12"

lemma extracts_wellD:
  assumes "extracts_well e" "in_extract e again ae path f = (ok, g)"
  shows "q \<noteq> path \<Longrightarrow> (is_dir_entry ae \<and> \<not> again \<longrightarrow> q \<noteq> strip_slashes path) \<Longrightarrow> hash_find q f \<noteq> None \<Longrightarrow> hash_find q g = hash_find q f"
    "q \<noteq> path \<Longrightarrow> hash_find q f = None \<Longrightarrow> dir_or_none (hash_find q g)"
    "is_dir_entry ae \<Longrightarrow> \<not> again \<Longrightarrow> dir_or_none (hash_find path f) \<Longrightarrow> dir_or_none (hash_find path g)"
    "ok \<Longrightarrow> \<not> again \<Longrightarrow> is_dir_entry ae \<Longrightarrow> \<exists>n. hash_find (strip_slashes path) g = Some (Dir n)"
    "ok \<Longrightarrow> \<not> again \<Longrightarrow> \<not> is_dir_entry ae \<Longrightarrow> hash_find path g = Some (ae_node ae)"
  using assms(1) [unfolded extracts_well_def, THEN spec, of again, THEN spec, of ae, THEN spec, of path, THEN spec, of f]
  unfolding assms(2) Let_def prod.case by simp_all

lemma rename_find:
  assumes "rename_file e a b f = Some g"
  shows "\<exists>n. hash_find a f = Some n \<and> (\<forall>q. hash_find q g = (if q = b then Some n else if q = a then None else hash_find q f))"
  using assms by (auto simp: rename_file_def split: option.splits node.splits if_splits)

text \<open>The names that an entry may change.\<close>

definition own_names :: "'d install_env \<Rightarrow> string option \<Rightarrow> nat \<Rightarrow> entry \<Rightarrow> string set" where
  "own_names e location n ae = {target location ae, place location ae, temp e location n ae, strip_slashes (temp e location n ae)}"

definition dir_at :: "string \<Rightarrow> fsys \<Rightarrow> bool" where
  \<comment> \<open>a directory, under the name with or without the slashes at its end\<close>
  "dir_at path f \<longleftrightarrow> (\<exists>q n. (q = path \<or> q = strip_slashes path) \<and> hash_find q f = Some (Dir n))"

lemma is_dir_find:
  assumes "dir_or_none (hash_find p f)" "is_dir p f"
  shows "\<exists>n. hash_find p f = Some (Dir n)"
proof -
  have "node_at f p = hash_find p f"
    by (rule node_at_direct(2)) (use assms(1) in \<open>auto simp: not_link_def dir_or_none_def split: option.splits\<close>)
  then show ?thesis using assms(2) by (auto simp: is_dir_def split: option.splits node.splits)
qed

lemma extract_entry_ok:
  assumes "extracts_well e" "extract_entry e location n ae f = (True, g)"
  shows "q \<notin> own_names e location n ae \<Longrightarrow> hash_find q f \<noteq> None \<Longrightarrow> hash_find q g = hash_find q f"
    "q \<notin> own_names e location n ae \<Longrightarrow> is_conf_file (target location ae) \<noteq> Some q \<Longrightarrow> hash_find q f = None \<Longrightarrow> dir_or_none (hash_find q g)"
    "\<not> is_dir_entry ae \<Longrightarrow> hash_find (target location ae) g = Some (ae_node ae)"
    "is_dir_entry ae \<Longrightarrow> dir_or_none (hash_find (target location ae) f) \<Longrightarrow> dir_at (target location ae) g"
proof -
  let ?t = "target location ae" let ?r = "temp e location n ae"
  define renamed where "renamed = (case hash_find ?t f of None \<Rightarrow> False | Some (Dir _) \<Rightarrow> False | Some _ \<Rightarrow> True)"
  define r where "r = (if renamed then ?r else ?t)"
  obtain ok f1 where x1: "in_extract e False ae r f = (ok, f1)" by fastforce
  define m where "m = (case is_conf_file ?t of
                 Some path \<Rightarrow> if hash_find path f1 = None then in_extract e True ae path f1 else (True, f1)
               | None \<Rightarrow> (True, f1))"
  obtain ok2 f2 where x2: "m = (ok2, f2)" by fastforce
  define failed where "failed = (\<lambda>f. (False, if renamed then unlink r f else f))"
  have eq: "extract_entry e location n ae f =
    (if \<not> ok \<and> ((case ae_node ae of Dir _ \<Rightarrow> False | _ \<Rightarrow> True) \<or> \<not> is_dir ?t f1) then failed f1
     else if \<not> ok2 then failed f2
     else if renamed then (case rename_file e r ?t f2 of None \<Rightarrow> failed f2 | Some f \<Rightarrow> (True, f)) else (True, f2))"
    unfolding extract_entry_def Let_def target_def [symmetric] renamed_def [symmetric] temp_def [symmetric] r_def [symmetric] x1
      prod.case m_def [symmetric] x2 by (simp add: failed_def split: option.split)
  have ok: "ok \<or> is_dir_entry ae \<and> is_dir ?t f1" "ok2" "renamed \<longrightarrow> rename_file e r ?t f2 = Some g" "\<not> renamed \<longrightarrow> f2 = g"
    using assms(2) unfolding eq by (auto simp: failed_def is_dir_entry_def split: if_splits option.splits node.splits)
  have f2: "hash_find q f2 = hash_find q f1" if "hash_find q f1 \<noteq> None" for q
  proof (cases "m = (True, f1)")
    case False
    then obtain path where p: "hash_find path f1 = None" "in_extract e True ae path f1 = (ok2, f2)"
      using x2 by (auto simp: m_def split: option.splits if_splits)
    show ?thesis by (rule extracts_wellD(1) [OF assms(1) p(2)]) (use p(1) that in auto)
  qed (use x2 in simp)
  have f2_new: "dir_or_none (hash_find q f2)" if "hash_find q f1 = None" "is_conf_file ?t \<noteq> Some q" for q
  proof (cases "m = (True, f1)")
    case True
    then show ?thesis using x2 that(1) by (simp add: dir_or_none_def)
  next
    case False
    then obtain path where p: "is_conf_file ?t = Some path" "in_extract e True ae path f1 = (ok2, f2)"
      using x2 by (auto simp: m_def split: option.splits if_splits)
    show ?thesis by (rule extracts_wellD(2) [OF assms(1) p(2)]) (use p(1) that in auto)
  qed
  have r_own: "{r, strip_slashes r} \<subseteq> own_names e location n ae" by (simp add: r_def own_names_def place_def)
  have g: "hash_find q g = hash_find q f2" if "q \<notin> own_names e location n ae" for q
  proof -
    have "q \<noteq> ?t" "q \<noteq> r" using that r_own by (auto simp: own_names_def)
    then show ?thesis using ok(3,4) rename_find [of e r ?t f2 g] by (cases renamed) auto
  qed
  have f1: "hash_find q f1 = hash_find q f" if "q \<notin> own_names e location n ae" "hash_find q f \<noteq> None" for q
    by (rule extracts_wellD(1) [OF assms(1) x1 _ _ that(2)]) (use that(1) r_own in auto)
  show "hash_find q g = hash_find q f" if q: "q \<notin> own_names e location n ae" "hash_find q f \<noteq> None" for q
    using g [OF q(1)] f1 [OF q] f2 [of q] q(2) by simp
  show "dir_or_none (hash_find q g)" if q: "q \<notin> own_names e location n ae" "is_conf_file ?t \<noteq> Some q" "hash_find q f = None" for q
  proof -
    have d: "dir_or_none (hash_find q f1)" by (rule extracts_wellD(2) [OF assms(1) x1 _ q(3)]) (use q(1) r_own in auto)
    show ?thesis using g [OF q(1)] f2 [of q] f2_new [OF _ q(2)] d by (cases "hash_find q f1") simp_all
  qed
  show "hash_find ?t g = Some (ae_node ae)" if nd: "\<not> is_dir_entry ae"
  proof -
    have "hash_find r f1 = Some (ae_node ae)" using extracts_wellD(5) [OF assms(1) x1] ok(1) nd by simp
    then have "hash_find r f2 = Some (ae_node ae)" using f2 by simp
    then show ?thesis using ok(3,4) rename_find [of e r ?t f2 g] by (cases renamed) (auto simp: r_def)
  qed
  show "dir_at ?t g" if d: "is_dir_entry ae" "dir_or_none (hash_find ?t f)"
  proof -
    have nr: "\<not> renamed" "r = ?t" using d(2) by (auto simp: renamed_def r_def dir_or_none_def split: option.splits node.splits)
    have "dir_or_none (hash_find ?t f1)" using extracts_wellD(3) [OF assms(1) x1 d(1)] d(2) nr(2) by simp
    then have "dir_at ?t f1"
      using ok(1) extracts_wellD(4) [OF assms(1) x1 _ _ d(1)] is_dir_find [of ?t f1] nr(2) unfolding dir_at_def by blast
    then show ?thesis using f2 ok(4) nr(1) unfolding dir_at_def by (metis option.distinct(1))
  qed
qed

lemma extract_entries_keep:
  assumes "extracts_well e" "extract_entries e location eof n aes f = (EPKG_OK, f')" "hash_find q f \<noteq> None"
    and "\<forall>i < length aes. q \<notin> own_names e location (n + i) (aes ! i)"
  shows "hash_find q f' = hash_find q f"
  using assms(2-4)
proof (induction aes arbitrary: n f)
  case (Cons ae aes)
  obtain ok g where x: "extract_entry e location n ae f = (ok, g)" by fastforce
  have ok: "ok" "extract_entries e location eof (Suc n) aes g = (EPKG_OK, f')" using Cons.prems(1) x by (auto split: if_splits)
  have g: "hash_find q g = hash_find q f"
    using extract_entry_ok(1) [OF assms(1), of location n ae f g q] x ok(1) Cons.prems(2) Cons.prems(3) [rule_format, of 0] by simp
  have "\<forall>i < length aes. q \<notin> own_names e location (Suc n + i) (aes ! i)"
    using Cons.prems(3) by (auto dest: spec [of _ "Suc _"])
  then show ?case using Cons.IH [OF ok(2)] g Cons.prems(2) by simp
qed (simp split: if_splits)

lemma extract_entries_vacant:
  assumes "extracts_well e" "extract_entries e location eof n aes f = (EPKG_OK, f')" "dir_or_none (hash_find q f)"
    and "\<forall>i < length aes. q \<notin> own_names e location (n + i) (aes ! i) \<and> is_conf_file (target location (aes ! i)) \<noteq> Some q"
  shows "dir_or_none (hash_find q f')"
  using assms(2-4)
proof (induction aes arbitrary: n f)
  case (Cons ae aes)
  obtain ok g where x: "extract_entry e location n ae f = (ok, g)" by fastforce
  have ok: "ok" "extract_entries e location eof (Suc n) aes g = (EPKG_OK, f')" using Cons.prems(1) x by (auto split: if_splits)
  have q: "q \<notin> own_names e location n ae" "is_conf_file (target location ae) \<noteq> Some q" using Cons.prems(3) [rule_format, of 0] by simp_all
  have x': "extract_entry e location n ae f = (True, g)" using x ok(1) by simp
  have g: "dir_or_none (hash_find q g)"
    using extract_entry_ok(1) [OF assms(1) x' q(1)] extract_entry_ok(2) [OF assms(1) x' q] Cons.prems(2) by (cases "hash_find q f") simp_all
  have "\<forall>i < length aes. q \<notin> own_names e location (Suc n + i) (aes ! i) \<and> is_conf_file (target location (aes ! i)) \<noteq> Some q"
    using Cons.prems(3) by (auto dest: spec [of _ "Suc _"])
  then show ?case using Cons.IH [OF ok(2) g] by simp
qed (simp split: if_splits)

lemma extract_entries_at:
  "extract_entries e location eof n aes f = (EPKG_OK, f') \<Longrightarrow> k < length aes
    \<Longrightarrow> \<exists>g h. extract_entries e location True n (take k aes) f = (EPKG_OK, g) \<and> extract_entry e location (n + k) (aes ! k) g = (True, h)
      \<and> extract_entries e location eof (Suc (n + k)) (drop (Suc k) aes) h = (EPKG_OK, f')"
proof (induction k arbitrary: n aes f)
  case 0
  then show ?case by (cases aes) (auto split: prod.splits if_splits)
next
  case (Suc k)
  obtain ae r where aes: "aes = ae # r" using Suc.prems(2) by (cases aes) auto
  obtain ok g where x: "extract_entry e location n ae f = (ok, g)" by fastforce
  have "extract_entries e location eof (Suc n) r g = (EPKG_OK, f')" "ok" using Suc.prems(1) x aes by (auto split: if_splits)
  then show ?case using Suc.IH [of "Suc n" r g] Suc.prems(2) x aes by simp
qed

text \<open>
  The entries go to different places, the names beside existing files are new, and the place of a directory is not taken by something else,
  which no configuration file makes either.
\<close>

definition extract_ready :: "'d install_env \<Rightarrow> string option \<Rightarrow> entry list \<Rightarrow> fsys \<Rightarrow> bool" where
  "extract_ready e location aes f \<longleftrightarrow>
     distinct (map (place location) aes)
     \<and> (\<forall>i < length aes. \<forall>q. q \<in> target location ` set aes \<union> place location ` set aes \<or> hash_find q f \<noteq> None
         \<longrightarrow> q \<notin> {target location (aes ! i), place location (aes ! i)} \<longrightarrow> q \<notin> {temp e location i (aes ! i), strip_slashes (temp e location i (aes ! i))})
     \<and> (\<forall>ae \<in> set aes. is_dir_entry ae \<longrightarrow> dir_or_none (hash_find (target location ae) f)
         \<and> (\<forall>be \<in> set aes. is_conf_file (target location be) \<noteq> Some (target location ae)))"

lemma strip_strip: "strip_slashes (strip_slashes s) = strip_slashes s"
  by (simp add: strip_slashes_def dropWhile_idem)

lemma ready_apart:
  assumes "extract_ready e location aes f" "i < length aes" "k < length aes" "i \<noteq> k" "q \<in> {target location (aes ! k), place location (aes ! k)}"
  shows "q \<notin> own_names e location i (aes ! i)"
proof -
  have "place location (aes ! i) \<noteq> place location (aes ! k)"
    using assms(1-4) by (auto simp: extract_ready_def distinct_conv_nth)
  then have "q \<notin> {target location (aes ! i), place location (aes ! i)}"
    using assms(5) strip_strip unfolding place_def by (metis insertE singletonD)
  moreover have "q \<in> target location ` set aes \<union> place location ` set aes" using assms(3,5) by auto
  ultimately show ?thesis using assms(1,2) unfolding extract_ready_def own_names_def by blast
qed

lemma extract_entries_placed:
  assumes "extracts_well e" "extract_entries e location eof 0 aes f = (EPKG_OK, f')" "extract_ready e location aes f" "k < length aes"
  shows "if is_dir_entry (aes ! k) then dir_at (target location (aes ! k)) f' else hash_find (target location (aes ! k)) f' = Some (ae_node (aes ! k))"
proof -
  let ?ae = "aes ! k"
  obtain g h where x: "extract_entries e location True 0 (take k aes) f = (EPKG_OK, g)" "extract_entry e location k ?ae g = (True, h)"
    "extract_entries e location eof (Suc k) (drop (Suc k) aes) h = (EPKG_OK, f')"
    using extract_entries_at [OF assms(2,4)] by auto
  have keep: "hash_find q f' = hash_find q h" if q: "q \<in> {target location ?ae, place location ?ae}" "hash_find q h \<noteq> None" for q
  proof (rule extract_entries_keep [OF assms(1) x(3) q(2)], intro allI impI)
    fix i assume "i < length (drop (Suc k) aes)"
    then show "q \<notin> own_names e location (Suc k + i) (drop (Suc k) aes ! i)"
      using ready_apart [OF assms(3) _ assms(4) _ q(1), of "Suc k + i"] by simp
  qed
  show ?thesis
  proof (cases "is_dir_entry ?ae")
    case True
    have d: "dir_or_none (hash_find (target location ?ae) f)" "\<forall>be \<in> set aes. is_conf_file (target location be) \<noteq> Some (target location ?ae)"
      using assms(3,4) True unfolding extract_ready_def by simp_all
    have "dir_or_none (hash_find (target location ?ae) g)"
    proof (rule extract_entries_vacant [OF assms(1) x(1) d(1)], intro allI impI conjI)
      fix i assume i: "i < length (take k aes)"
      then show "target location ?ae \<notin> own_names e location (0 + i) (take k aes ! i)"
        using ready_apart [OF assms(3) _ assms(4), of i] by simp
      show "is_conf_file (target location (take k aes ! i)) \<noteq> Some (target location ?ae)" using d(2) i by simp
    qed
    then have "dir_at (target location ?ae) h" by (rule extract_entry_ok(4) [OF assms(1) x(2) True])
    then show ?thesis using True keep unfolding dir_at_def place_def [symmetric] by (metis insertCI option.distinct(1))
  next
    case False
    then have "hash_find (target location ?ae) h = Some (ae_node ?ae)" by (rule extract_entry_ok(3) [OF assms(1) x(2)])
    then show ?thesis using False keep [of "target location ?ae"] by simp
  qed
qed

text \<open>
  C12: A successful extraction of a package that has files puts every entry of the archive in its place: a file or link also over one that exists, a
  directory unless something else is there; and it leaves everything else that exists as it was, so a configuration file that exists
  keeps its content when its sample \<open>.pkgconf\<close> is installed. The entries have different places, and the random names beside existing
  files are new.
\<close>

theorem extract_installs:
  assumes "extracts_well e" "do_extract e location eof aes nfiles f = (EPKG_OK, f')" "nfiles \<noteq> 0" "extract_ready e location aes f"
  shows "(\<forall>ae \<in> set aes. if is_dir_entry ae then dir_at (target location ae) f' else hash_find (target location ae) f' = Some (ae_node ae))
    \<and> (\<forall>q. hash_find q f \<noteq> None \<longrightarrow> q \<notin> target location ` set aes \<union> place location ` set aes \<longrightarrow> hash_find q f' = hash_find q f)"
proof (intro conjI ballI allI impI)
  have x: "extract_entries e location eof 0 aes f = (EPKG_OK, f')" using assms(2,3) by (simp add: do_extract_def)
  show "if is_dir_entry ae then dir_at (target location ae) f' else hash_find (target location ae) f' = Some (ae_node ae)" if "ae \<in> set aes" for ae
    using that extract_entries_placed [OF assms(1) x assms(4)] by (metis in_set_conv_nth)
  show "hash_find q f' = hash_find q f" if "hash_find q f \<noteq> None" "q \<notin> target location ` set aes \<union> place location ` set aes" for q
  proof (rule extract_entries_keep [OF assms(1) x that(1)], intro allI impI)
    fix i assume i: "i < length aes"
    then have "q \<notin> {target location (aes ! i), place location (aes ! i)}" using that(2) by (metis Un_iff image_eqI insertE nth_mem singletonD)
    then show "q \<notin> own_names e location (0 + i) (aes ! i)"
      using assms(4) i that(1) unfolding extract_ready_def own_names_def by auto
  qed
qed

section \<open>Which packages are valid\<close>

lemma schema_attrs:
  "\<forall>attr \<in> set all_attrs. (map_of schema_types (key_name attr) = None \<or> map_of schema_types (key_name attr) = Some (key_type attr))
    \<and> (map_of schema_types (key_name attr) = Some T_ARRAY \<longrightarrow> attr = PKG_LICENSES \<or> attr = PKG_CATEGORIES)"
  by code_simp

definition required_attrs :: "pkg_attr list" where
  "required_attrs = [PKG_ORIGIN, PKG_NAME, PKG_COMMENT, PKG_DESC, PKG_MAINTAINER, PKG_ARCH, PKG_WWW, PKG_PREFIX]"

lemma required_names: "schema_required = map key_name required_attrs"
  by code_simp

lemma wf_field_get:
  assumes "pkg_wf pkg" "(key_name attr, c) \<in> set (pk_fields pkg)"
  shows "pkg_get pkg attr = Some (hd c)"
proof -
  have "hash_wf (pk_fields pkg)" "field_ok (key_name attr, c)" using assms by (auto simp: pkg_wf_def)
  then have "hash_find (key_name attr) (pk_fields pkg) = Some c" "c \<noteq> []" using assms(2) hash_find_wf by (auto simp: field_ok_def)
  then show ?thesis by (simp add: pkg_get_def ucl_object_find_key_def split: list.split)
qed

lemma wf_valid_item:
  assumes "pkg_wf pkg" "(key, c) \<in> set (pk_fields pkg)" "v \<in> set c"
  shows "valid_item key v"
proof -
  have "field_ok (key, c)" using assms by (auto simp: pkg_wf_def)
  then obtain attr where a: "key = key_name attr" "c = [v]" "ucl_type_of v = key_type attr" using assms(3) by (auto simp: field_ok_def)
  have s: "map_of schema_types key = None \<or> map_of schema_types key = Some (key_type attr)"
    "map_of schema_types key = Some T_ARRAY \<Longrightarrow> attr = PKG_LICENSES \<or> attr = PKG_CATEGORIES"
    using schema_attrs [rule_format, OF all_attrs, of attr] a(1) by simp_all
  show ?thesis
  proof (cases "map_of schema_types key")
    case (Some t)
    then have t: "ucl_type_of v = t" using s(1) a(3) by simp
    show ?thesis
    proof (cases v)
      case (UCL_ARRAY xs)
      then have "t = T_ARRAY" using t by simp
      then have "attr = PKG_LICENSES \<or> attr = PKG_CATEGORIES" using s(2) Some by simp
      moreover have "pkg_get pkg attr = Some v" using wf_field_get [OF assms(1), of attr c] assms(2) a by simp
      ultimately have "array_ok (Some v)" using assms(1) by (auto simp: pkg_wf_def)
      then have xs: "distinct xs" "\<forall>x \<in> set xs. case x of UCL_STRING s \<Rightarrow> s \<noteq> [] | _ \<Rightarrow> False"
        by (simp_all add: UCL_ARRAY array_ok_def)
      then have "ucl_type_of x = T_STRING" if "x \<in> set xs" for x using that by (cases x) auto
      then have "distinct xs \<and> (\<forall>x \<in> set xs. ucl_type_of x = T_STRING)" using xs(1) by blast
      then show ?thesis using Some t by (simp add: valid_item_def UCL_ARRAY)
    qed (use Some t in \<open>simp_all add: valid_item_def\<close>)
  qed (simp add: valid_item_def)
qed

text \<open>
  C14: For a package that was read from a manifest the check against the schema says exactly that the eight required attributes are there: types and
  repetitions are right whatever the manifest contained.
\<close>

theorem read_package_valid:
  "run_all (\<lambda>(rc, pkg). pkg_is_valid pkg = EPKG_OK \<longleftrightarrow> list_all (\<lambda>attr. pkg_get pkg attr \<noteq> None) required_attrs)
    (parse_manifest e (pkg_new t) pkg_manifest_keys_new obj)"
proof (rule run_all_mono [OF reading.kept_parse_manifest [OF inv_pkg_new]], clarify)
  fix rc pkg assume "reads_inv {} pkg"
  then have "\<forall>(key, c) \<in> set (pk_fields pkg). \<forall>v \<in> set c. valid_item key v"
    using wf_valid_item [of pkg] by (auto simp: reads_inv_def)
  then show "pkg_is_valid pkg = EPKG_OK \<longleftrightarrow> list_all (\<lambda>attr. pkg_get pkg attr \<noteq> None) required_attrs"
    unfolding pkg_is_valid_def required_names by (simp add: list_all_iff pkg_get_def)
qed

section \<open>Dependencies that wait for each other\<close>

definition waits_for :: "'d install_env \<Rightarrow> (string, pkg_manifest_key) uthash \<Rightarrow> 'd system \<Rightarrow> string \<Rightarrow> string \<Rightarrow> bool" where
  \<comment> \<open>the first dependency of the valid package in one archive is not installed and lies in the other, beside it\<close>
  "waits_for e keys s path dpath \<longleftrightarrow>
     (case pkg_open2 e False False None path keys (sy_fs s) of
        Ret (opened, Some pkg, aes, eof) \<Rightarrow>
          (opened = EPKG_OK \<or> opened = EPKG_END)
          \<and> pkg_is_valid pkg = EPKG_OK \<and> is_valid_abi e (opt_string (pkg_get_string pkg PKG_ARCH))
          \<and> fst (in_query e (opt_string (pkg_get_string pkg PKG_ORIGIN)) (sy_db s)) = EPKG_END
          \<and> (case map snd (pk_deps pkg) of
                dep # deps \<Rightarrow> \<not> pkg_is_installed e (dep_origin dep) (sy_db s)
                  \<and> path \<noteq> ''-'' \<and> dep_path path dep = Some dpath \<and> node_at (sy_fs s) dpath \<noteq> None
              | [] \<Rightarrow> False)
      | _ \<Rightarrow> False)"

lemma automatic_irrelevant:
  "\<exists>q. (if b then pkg_set pkg PKG_AUTOMATIC (SetBool True) else Ret pkg) = Ret q \<and> pk_deps q = pk_deps pkg
    \<and> pkg_get_string q PKG_ARCH = pkg_get_string pkg PKG_ARCH \<and> pkg_get_string q PKG_ORIGIN = pkg_get_string pkg PKG_ORIGIN"
proof -
  have "key_type PKG_AUTOMATIC = T_BOOLEAN" by (simp add: key_type_def pkg_keys_def)
  then show ?thesis by (auto simp: pkg_set_def set_field_def [symmetric] pkg_get_string_def pkg_get_set_field) (simp add: set_field_def)
qed

lemma waiting_step:
  assumes "waits_for e keys s path dpath" "\<not> has fl PKG_ADD_UPGRADE"
    and "pkg_add_common n e dpath PKG_ADD_AUTOMATIC keys location None None s = NoFuel"
  shows "pkg_add_common (Suc n) e path fl keys location None None s = NoFuel"
proof -
  obtain opened pkg aes eof where w1: "pkg_open2 e False False None path keys (sy_fs s) = Ret (opened, Some pkg, aes, eof)"
    using assms(1) by (auto simp: waits_for_def split: run.splits option.splits prod.splits)
  have waits: "(opened = EPKG_OK \<or> opened = EPKG_END) \<and> pkg_is_valid pkg = EPKG_OK \<and> is_valid_abi e (opt_string (pkg_get_string pkg PKG_ARCH))
    \<and> fst (in_query e (opt_string (pkg_get_string pkg PKG_ORIGIN)) (sy_db s)) = EPKG_END"
    and first: "case map snd (pk_deps pkg) of
                dep # deps \<Rightarrow> \<not> pkg_is_installed e (dep_origin dep) (sy_db s)
                  \<and> path \<noteq> ''-'' \<and> dep_path path dep = Some dpath \<and> node_at (sy_fs s) dpath \<noteq> None
              | [] \<Rightarrow> False"
    using assms(1) unfolding waits_for_def w1 by simp_all
  obtain dep deps where dep: "map snd (pk_deps pkg) = dep # deps" using first by (cases "map snd (pk_deps pkg)") auto
  have dep_waits: "\<not> pkg_is_installed e (dep_origin dep) (sy_db s)" "path \<noteq> ''-''" "dep_path path dep = Some dpath" "node_at (sy_fs s) dpath \<noteq> None"
    using first unfolding dep by simp_all
  obtain q where q: "(if has fl PKG_ADD_AUTOMATIC then pkg_set pkg PKG_AUTOMATIC (SetBool True) else Ret pkg) = Ret q" "pk_deps q = pk_deps pkg"
    "pkg_get_string q PKG_ARCH = pkg_get_string pkg PKG_ARCH" "pkg_get_string q PKG_ORIGIN = pkg_get_string pkg PKG_ORIGIN"
    using automatic_irrelevant [of "has fl PKG_ADD_AUTOMATIC" pkg] by blast
  have ext: "strrchr CHR ''.'' path \<noteq> None" using dep_waits(3) by (auto simp: dep_path_def)
  have "pkg_add_check_pkg_archive e (\<lambda>dpath. pkg_add_common n e dpath PKG_ADD_AUTOMATIC keys location None None) q path fl s = NoFuel"
    using waits dep dep_waits ext assms(2,3) q(2-4) by (simp add: pkg_add_check_pkg_archive_def Let_def case_prod_unfold)
  then show ?thesis using w1 waits q(1) by (auto simp: Let_def)
qed

text \<open>
  C38: When the archives of packages that are not installed lie in one directory and each first needs another of them, \<open>pkg_add\<close> of one of them
  never returns: every package is looked for in the database before it is registered, so no round of the cycle is noticed. With any fuel
  the depth of the recursion is reached.
\<close>

theorem add_cycle_diverges:
  assumes "\<forall>path \<in> P. \<exists>dpath \<in> P. waits_for e keys s path dpath" "path \<in> P" "\<not> has fl PKG_ADD_UPGRADE"
  shows "pkg_add n e path fl keys location s = NoFuel"
  unfolding pkg_add_def using assms(2,3)
proof (induction n arbitrary: path fl)
  case (Suc n)
  have a: "\<not> has PKG_ADD_AUTOMATIC PKG_ADD_UPGRADE" by (simp add: has_def PKG_ADD_AUTOMATIC_def PKG_ADD_UPGRADE_def)
  obtain dpath where d: "dpath \<in> P" "waits_for e keys s path dpath" using assms(1) Suc.prems(1) by blast
  show ?case by (rule waiting_step [OF d(2) Suc.prems(2) Suc.IH [OF d(1) a]])
qed simp

section \<open>Examples\<close>

text \<open>The two archives of \<open>/r\<close> need each other.\<close>

definition two_manifests :: "string \<Rightarrow> string \<Rightarrow> ucl" where
  "two_manifests name dep = UCL_OBJECT (map (\<lambda>k. (k, [UCL_STRING name])) [''name'', ''origin'', ''comment'', ''desc'', ''maintainer'', ''arch'', ''www'', ''prefix'']
     @ [(''deps'', [UCL_OBJECT [(dep, [UCL_OBJECT [(''origin'', [UCL_STRING dep]), (''version'', [UCL_STRING ''1''])]])]])])"

definition two_archives :: "string \<Rightarrow> archive option" where
  "two_archives path = map_option (\<lambda>text. \<lparr>ar_entries = [\<lparr>ae_pathname = ''+MANIFEST'', ae_node = Reg text, ae_data = text, ae_corrupt = False\<rparr>], ar_eof = True\<rparr>)
     (map_of [(''/r/a-1.txz'', ''a''), (''/r/b-1.txz'', ''b'')] path)"

definition demo_install :: "nat install_env" where
  "demo_install = \<lparr>
     in_manifest = \<lparr>me_developer_mode = False, me_setmode = (\<lambda>_. None),
       me_ucl_parse = (\<lambda>text. Some (Some (two_manifests text (if text = ''a'' then ''b'' else ''a'')))),
       me_yaml_to_ucl = (\<lambda>_. None), me_ucl_emit = (\<lambda>_ _ _. []), me_sha256 = (\<lambda>_. [])\<rparr>,
     in_handle_rc = False, in_run_scripts = False, in_debug_scripts = False, in_disable_mtree = True, in_abi = [],
     in_fnmatch = (\<lambda>a b. a = b), in_sha256 = (\<lambda>c. c), in_stack = (\<lambda>_. CHR 0x00), in_random = (\<lambda>_ i. i),
     in_sh = (\<lambda>_ _ f. (Exit 0, f)), in_service = (\<lambda>_ _ f. (None, f)), in_archive = (\<lambda>path f. two_archives path),
     in_extract = (\<lambda>again ae path f. if ae_corrupt ae then (False, f)
       else if \<not> is_dir_entry ae then (True, fs_put path (ae_node ae) f) else if again then (False, f) else (True, fs_put (strip_slashes path) (ae_node ae) f)),
     in_mtree = (\<lambda>_. None), in_rename = (\<lambda>_ _. True), in_ensure_loaded = (\<lambda>_ pkg _. (EPKG_OK, pkg)),
     in_query = (\<lambda>_ _. (EPKG_END, pkg_new PKG_FILE)), in_register = (\<lambda>_ _ _ db. (EPKG_OK, Suc db)), in_finale = (\<lambda>rc db. if rc = EPKG_OK then db else 0),
     in_unregister = (\<lambda>_ db. (EPKG_OK, db - 1))\<rparr>"

definition demo_system :: "nat system" where
  "demo_system = \<lparr>sy_fs = [(''/bin/z%sh'', Reg ''changed''), (''/etc/z'', Dir 0), (''/r/a-1.txz'', Reg ''a''), (''/r/b-1.txz'', Reg ''b'')], sy_db = 1\<rparr>"

theorem add_cycle_diverges_witness:
  "pkg_add 100 demo_install ''/r/a-1.txz'' 0 pkg_manifest_keys_new None demo_system = NoFuel"
proof (rule add_cycle_diverges [where P = "{''/r/a-1.txz'', ''/r/b-1.txz''}"])
  have "waits_for demo_install pkg_manifest_keys_new demo_system ''/r/a-1.txz'' ''/r/b-1.txz''"
    "waits_for demo_install pkg_manifest_keys_new demo_system ''/r/b-1.txz'' ''/r/a-1.txz''"
    by code_simp+
  then show "\<forall>path \<in> {''/r/a-1.txz'', ''/r/b-1.txz''}. \<exists>dpath \<in> {''/r/a-1.txz'', ''/r/b-1.txz''}. waits_for demo_install pkg_manifest_keys_new demo_system path dpath"
    by blast
qed (simp_all add: has_def)

lemma demo_facts:
  "in_place full_pkg" "quiet demo_install full_pkg" "\<not> pkg_locked full_pkg"
proof -
  have "pkg_object_find (pkg_get full_pkg PKG_ANNOTATIONS) ''relocated'' = None" by code_simp
  then show "in_place full_pkg" by (simp add: in_place_def full_pkg_def plain_path_def)
  show "quiet demo_install full_pkg" by (simp add: quiet_def demo_install_def)
  show "\<not> pkg_locked full_pkg" by code_simp
qed

lemma demo_loaded: "in_ensure_loaded demo_install delete_load full_pkg (sy_db s) = (EPKG_OK, full_pkg)"
  by (simp add: demo_install_def)

theorem delete_exact_witness:
  "\<exists>f g. files_removed (removable demo_install 0 (sy_fs demo_system)) full_pkg (sy_fs demo_system) f \<and> dirs_removed (\<lambda>_. True) full_pkg f g
    \<and> pkg_delete demo_install full_pkg 0 demo_system = Ret (EPKG_OK, \<lparr>sy_fs = g, sy_db = 0\<rparr>)"
proof -
  have "in_unregister demo_install (pkg_get_int full_pkg PKG_ROWID) (sy_db demo_system) = (EPKG_OK, 0)"
    by (simp add: demo_install_def demo_system_def)
  moreover have "\<not> has 0 PKG_DELETE_FORCE" by (simp add: has_def)
  ultimately show ?thesis using delete_exact [OF demo_loaded demo_facts(1,2), where s = demo_system and fl = 0] demo_facts(3) by simp
qed

theorem verified_removed_witness:
  "\<exists>rc s'. pkg_delete demo_install full_pkg 0 demo_system = Ret (rc, s')
    \<and> (\<forall>c. hash_find ''/bin/z%sh'' (sy_fs s') \<noteq> Some (Reg c)) \<and> (\<forall>t. hash_find ''/bin/z%sh'' (sy_fs s') \<noteq> Some (Sym t))"
proof -
  have t: "pkg_test_filesum demo_install full_pkg (sy_fs demo_system) = EPKG_OK" by (simp add: pkg_test_filesum_def full_pkg_def)
  obtain k sf where "(k, sf) \<in> set (pk_files full_pkg)" "sf_path sf = ''/bin/z%sh''" by (auto simp: full_pkg_def)
  then show ?thesis using verified_removed [OF demo_loaded demo_facts t, of k sf 0] by simp
qed

theorem upgrade_cleanup_exact_witness:
  "\<exists>g f'. pkg_add_cleanup_old demo_install full_pkg (Some (pkg_new PKG_FILE)) (or 0 PKG_ADD_UPGRADE) (sy_fs demo_system) = Ret (EPKG_OK, f')
    \<and> files_removed (\<lambda>sf. hash_find (sf_path sf) (pk_files (pkg_new PKG_FILE)) = None \<and> not_dir (sy_fs demo_system) (sf_path sf)) full_pkg (sy_fs demo_system) g
    \<and> dirs_removed (\<lambda>dir. hash_find (sd_path dir) (pk_dirs (pkg_new PKG_FILE)) = None) full_pkg g f'"
  by (rule upgrade_cleanup_exact [OF demo_facts(1,2)])

definition bad_entry :: entry where
  "bad_entry = \<lparr>ae_pathname = ''bin/z%sh'', ae_node = Reg ''new'', ae_data = ''new'', ae_corrupt = True\<rparr>"

theorem failed_install_undone_witness:
  "\<exists>f g h. pkg_add_registered demo_install 0 None None None True True [bad_entry] full_pkg demo_system = Ret (EPKG_FATAL, \<lparr>sy_fs = h, sy_db = 0\<rparr>)
    \<and> files_removed (\<lambda>sf. not_dir f (sf_path sf)) full_pkg f g \<and> dirs_removed (\<lambda>_. True) full_pkg g h"
proof -
  obtain f where f: "do_extract demo_install None True [bad_entry] (length (pk_files full_pkg)) (sy_fs demo_system) = (EPKG_FATAL, f)"
  proof -
    have "fst (do_extract demo_install None True [bad_entry] (length (pk_files full_pkg)) (sy_fs demo_system)) = EPKG_FATAL" by code_simp
    then show thesis using that by (metis prod.collapse)
  qed
  have reg: "in_register demo_install full_pkg (has 0 PKG_ADD_UPGRADE) (has 0 PKG_ADD_FORCE) (sy_db demo_system) = (EPKG_OK, 2)"
    "in_finale demo_install EPKG_FATAL 2 = 0" "in_disable_mtree demo_install" "\<not> has 0 PKG_ADD_UPGRADE" "EPKG_FATAL \<noteq> EPKG_OK"
    by (simp_all add: demo_install_def demo_system_def has_def)
  have "\<exists>g h. pkg_add_registered demo_install 0 None None None True True [bad_entry] full_pkg demo_system
      = Ret (EPKG_FATAL, \<lparr>sy_fs = h, sy_db = in_finale demo_install EPKG_FATAL 2\<rparr>)
    \<and> files_removed (\<lambda>sf. not_dir f (sf_path sf)) full_pkg f g \<and> dirs_removed (\<lambda>_. True) full_pkg g h"
    by (rule failed_install_undone [OF demo_facts(1,2) reg(3,4) _ f reg(5)]) (use reg(1,4) in simp)
  then show ?thesis unfolding reg(2) by (rule exI [of _ f])
qed

definition demo_entries :: "entry list" where
  "demo_entries = [\<lparr>ae_pathname = ''bin/z%sh'', ae_node = Reg ''new'', ae_data = ''new'', ae_corrupt = False\<rparr>,
     \<lparr>ae_pathname = ''doc/'', ae_node = Dir 2, ae_data = [], ae_corrupt = False\<rparr>,
     \<lparr>ae_pathname = ''etc/c.pkgconf'', ae_node = Reg ''sample'', ae_data = ''sample'', ae_corrupt = False\<rparr>]"

definition demo_files :: fsys where
  "demo_files = [(''/bin/z%sh'', Reg ''changed''), (''/etc/c'', Reg ''mine'')]"

lemma demo_extracts_well: "extracts_well demo_install"
  by (auto simp: extracts_well_def demo_install_def dir_or_none_def is_dir_entry_def split: node.splits)

theorem extract_installs_witness:
  "let f' = snd (do_extract demo_install None True demo_entries 2 demo_files)
   in hash_find ''/bin/z%sh'' f' = Some (Reg ''new'') \<and> dir_at ''/doc/'' f' \<and> hash_find ''/etc/c'' f' = Some (Reg ''mine'')"
proof -
  let ?t = "[''/bin/z%sh'', ''/doc/'', ''/etc/c.pkgconf'']" let ?p = "[''/bin/z%sh'', ''/doc'', ''/etc/c.pkgconf'']"
  obtain f where f: "do_extract demo_install None True demo_entries 2 demo_files = (EPKG_OK, f)"
  proof -
    have "fst (do_extract demo_install None True demo_entries 2 demo_files) = EPKG_OK" by code_simp
    then show thesis using that by (metis prod.collapse)
  qed
  have t: "map (target None) demo_entries = ?t" "map (place None) demo_entries = ?p" by code_simp+
  then have st: "target None ` set demo_entries \<union> place None ` set demo_entries = set (?t @ ?p)" unfolding set_append by (metis list.set_map)
  have l: "length demo_entries = 3" by (simp add: demo_entries_def)
  have tmp: "list_all (\<lambda>i. \<forall>q \<in> {temp demo_install None i (demo_entries ! i), strip_slashes (temp demo_install None i (demo_entries ! i))}.
    q \<notin> set (?t @ ?p @ map fst demo_files)) [0, 1, 2]" by code_simp
  have in_files: "hash_find q f \<noteq> None \<longleftrightarrow> q \<in> set (map fst f)" for q and f :: fsys by (simp add: hash_find_def map_of_eq_None_iff)
  have "extract_ready demo_install None demo_entries demo_files"
    unfolding extract_ready_def t(2) st in_files
  proof (intro conjI allI impI)
    fix i q assume i: "i < length demo_entries" "q \<in> set (?t @ ?p) \<or> q \<in> set (map fst demo_files)"
    then have "i \<in> {0, 1, 2}" using l by auto
    then have "\<forall>q \<in> {temp demo_install None i (demo_entries ! i), strip_slashes (temp demo_install None i (demo_entries ! i))}.
      q \<notin> set (?t @ ?p @ map fst demo_files)" using tmp by auto
    moreover have "q \<in> set (?t @ ?p @ map fst demo_files)" using i(2) by (simp only: set_append) blast
    ultimately show "q \<notin> {temp demo_install None i (demo_entries ! i), strip_slashes (temp demo_install None i (demo_entries ! i))}" by blast
  qed (simp, code_simp)
  then have inst: "(\<forall>ae \<in> set demo_entries. if is_dir_entry ae then dir_at (target None ae) f else hash_find (target None ae) f = Some (ae_node ae))
    \<and> (\<forall>q. hash_find q demo_files \<noteq> None \<longrightarrow> q \<notin> target None ` set demo_entries \<union> place None ` set demo_entries \<longrightarrow> hash_find q f = hash_find q demo_files)"
    by (intro extract_installs [OF demo_extracts_well f]) simp
  have entries: "target None (demo_entries ! 0) = ''/bin/z%sh''" "demo_entries ! 0 \<in> set demo_entries" "\<not> is_dir_entry (demo_entries ! 0)"
    "ae_node (demo_entries ! 0) = Reg ''new''" "target None (demo_entries ! 1) = ''/doc/''" "demo_entries ! 1 \<in> set demo_entries" "is_dir_entry (demo_entries ! 1)"
    using t(1) by (simp_all add: demo_entries_def is_dir_entry_def)
  have kept: "hash_find ''/etc/c'' demo_files = Some (Reg ''mine'')" "''/etc/c'' \<notin> target None ` set demo_entries \<union> place None ` set demo_entries"
    unfolding st by (simp_all add: demo_files_def hash_find_def)
  have "hash_find ''/bin/z%sh'' f = Some (Reg ''new'')" using conjunct1 [OF inst, THEN bspec, OF entries(2)] entries by simp
  moreover have "dir_at ''/doc/'' f" using conjunct1 [OF inst, THEN bspec, OF entries(6)] entries by simp
  moreover have "hash_find ''/etc/c'' f = Some (Reg ''mine'')" using conjunct2 [OF inst, THEN spec, of "''/etc/c''"] kept by simp
  ultimately show ?thesis unfolding f snd_conv Let_def by blast
qed

end
