(* ===== verification/Printf.thy ===== *)
theory Printf
  imports Install Complex_Main
begin

text \<open>
  The formatted output of packages, \<open>libpkg/pkg_printf.c\<close>: the language of escapes that \<open>pkg_printf\<close> and its kin interpret. The buffers that
  are appended to (\<open>sbuf\<close>) are the strings that are returned; running out of memory is not modelled. Parameters: the grouping of digits of the
  locale, \<open>strmode\<close> and \<open>strftime\<close>.
\<close>

section \<open>Numbers and \<open>printf\<close>\<close>

text \<open>
  A \<open>double\<close> is a fraction; the result of an operation is rounded to 53 bits, to even when halfway. The definition is for
  0 and the numbers from 1 on, others do not occur.
\<close>

definition round_half_even :: "rat \<Rightarrow> int" where
  "round_half_even q =
     (let n = \<lfloor>q\<rfloor>; r = q - of_int n in if r < 1 / 2 \<or> r = 1 / 2 \<and> even n then n else n + 1)"

fun bits :: "int \<Rightarrow> nat" where
  "bits n = (if n \<le> 0 then 0 else Suc (bits (n div 2)))"

declare bits.simps [simp del]

definition double :: "rat \<Rightarrow> rat" where
  "double x = (let b = bits \<lfloor>x\<rfloor> in of_int (round_half_even (x * 2 ^ 53 / 2 ^ b)) * 2 ^ b / 2 ^ 53)"

record printf_env =
  pf_zero_strings :: bool
  pf_group :: "string \<Rightarrow> string"
  pf_strmode :: "nat \<Rightarrow> string"
  pf_strftime :: "string \<Rightarrow> int \<Rightarrow> string"

text \<open>
  \<open>sbuf_printf\<close> with a format of \<open>gen_format\<close>: the flags behind the percent sign, the width as an argument (a negative one is a flag and a
  width), and the conversion. Whether zeros pad strings too differs between systems.
\<close>

definition printf_flags :: "string \<Rightarrow> string" where
  "printf_flags format = takeWhile (\<lambda>c. c \<in> set (CHR 0x27 # ''#-0+ '')) (tl format)"

definition pad :: "string \<Rightarrow> 32 word \<Rightarrow> bool \<Rightarrow> string \<Rightarrow> string \<Rightarrow> string" where
  "pad fs width zeros sign body =
     (let w = sint width; left = CHR ''-'' \<in> set fs \<or> w < 0; n = nat \<bar>w\<bar> - length (sign @ body)
      in if left then sign @ body @ replicate n CHR '' ''
         else if zeros \<and> CHR ''0'' \<in> set fs then sign @ replicate n CHR ''0'' @ body
         else replicate n CHR '' '' @ sign @ body)"

definition sign_text :: "string \<Rightarrow> bool \<Rightarrow> string" where
  "sign_text fs negative = (if negative then ''-'' else if CHR ''+'' \<in> set fs then ''+'' else if CHR '' '' \<in> set fs then '' '' else [])"

definition printf_s :: "printf_env \<Rightarrow> string \<Rightarrow> 32 word \<Rightarrow> string option \<Rightarrow> string" where
  "printf_s e format width str = pad (printf_flags format) width (pf_zero_strings e) [] (null_string str)"

definition printf_d :: "printf_env \<Rightarrow> string \<Rightarrow> 32 word \<Rightarrow> int \<Rightarrow> string" where
  "printf_d e format width value =
     (let fs = printf_flags format; digits = show_nat (nat \<bar>value\<bar>)
      in pad fs width True (sign_text fs (value < 0)) (if CHR 0x27 \<in> set fs then pf_group e digits else digits))"

fun show_oct :: "nat \<Rightarrow> string" where
  "show_oct n = (if n < 8 then [char_of (48 + n)] else show_oct (n div 8) @ [char_of (48 + n mod 8)])"

declare show_oct.simps [simp del]

definition printf_o :: "string \<Rightarrow> 32 word \<Rightarrow> nat \<Rightarrow> string" where
  "printf_o format width value =
     (let fs = printf_flags format; digits = show_oct value
      in pad fs width True [] (if CHR ''#'' \<in> set fs \<and> value \<noteq> 0 then ''0'' @ digits else digits))"

definition fixed :: "nat \<Rightarrow> rat \<Rightarrow> string \<times> string" where
  \<comment> \<open>the digits before and behind the point\<close>
  "fixed precision q =
     (let n = nat (round_half_even (q * 10 ^ precision)); d = show_nat (n mod 10 ^ precision)
      in (show_nat (n div 10 ^ precision), if precision = 0 then [] else replicate (precision - length d) CHR ''0'' @ d))"

definition printf_f :: "printf_env \<Rightarrow> string \<Rightarrow> 32 word \<Rightarrow> nat \<Rightarrow> rat \<Rightarrow> string" where
  "printf_f e format width precision value =
     (let fs = printf_flags format; (d, r) = fixed precision \<bar>value\<bar>; d = (if CHR 0x27 \<in> set fs then pf_group e d else d)
      in pad fs width True (sign_text fs (value < 0)) (d @ (if r = [] \<and> CHR ''#'' \<notin> set fs then [] else CHR ''.'' # r)))"

section \<open>Values\<close>

definition PP_ALTERNATE_FORM1 :: flags where "PP_ALTERNATE_FORM1 = 1"

definition PP_ALTERNATE_FORM2 :: flags where "PP_ALTERNATE_FORM2 = 2"

definition PP_LEFT_ALIGN :: flags where "PP_LEFT_ALIGN = 4"

definition PP_EXPLICIT_PLUS :: flags where "PP_EXPLICIT_PLUS = 8"

definition PP_SPACE_FOR_PLUS :: flags where "PP_SPACE_FOR_PLUS = 16"

definition PP_ZERO_PAD :: flags where "PP_ZERO_PAD = 32"

definition PP_THOUSANDS_SEP :: flags where "PP_THOUSANDS_SEP = 64"

definition without :: "flags \<Rightarrow> flags list \<Rightarrow> flags" where
  "without fl ms = foldl (\<lambda>fl m. and fl (not m)) fl ms"

text \<open>The parsed form of an escape. The two texts are what is in the buffers for the item and the separator.\<close>

record percent_esc =
  pe_flags :: flags
  pe_width :: "32 word"
  pe_item_set :: bool
  pe_sep_set :: bool
  pe_item_fmt :: string
  pe_sep_fmt :: string
  pe_fmt_code :: nat

definition new_percent_esc :: percent_esc where
  "new_percent_esc = \<lparr>pe_flags = 0, pe_width = 0, pe_item_set = False, pe_sep_set = False, pe_item_fmt = [], pe_sep_fmt = [], pe_fmt_code = 0\<rparr>"

definition gen_format :: "nat \<Rightarrow> flags \<Rightarrow> string \<Rightarrow> string option" where
  "gen_format buflen fl tail =
     (let fl = (if has fl PP_EXPLICIT_PLUS \<and> has fl PP_SPACE_FOR_PLUS then without fl [PP_SPACE_FOR_PLUS] else fl);
          fl = (if has fl PP_LEFT_ALIGN \<and> has fl PP_ZERO_PAD then without fl [PP_ZERO_PAD] else fl);
          put = (\<lambda>m c. if has fl m then [c] else []);
          buf1 = ''%'' @ put PP_ALTERNATE_FORM2 CHR ''#'' @ put PP_LEFT_ALIGN CHR ''-'' @ put PP_ZERO_PAD CHR ''0'';
          buf2 = buf1 @ put PP_EXPLICIT_PLUS CHR ''+'' @ put PP_SPACE_FOR_PLUS CHR '' '' @ put PP_THOUSANDS_SEP CHR 0x27
      in if buflen < length tail + 3 \<or> buflen - length buf1 < length tail + 2 \<or> buflen - length buf2 < length tail + 2 then None
         else Some (take (buflen - 1) (buf2 @ ''*'' @ tail)))"

text \<open>What a handler returns: whether it is not \<open>NULL\<close>, and what it appended.\<close>

type_synonym printed = "bool \<times> string"

definition with_format :: "flags \<Rightarrow> string \<Rightarrow> (string \<Rightarrow> string) \<Rightarrow> printed" where
  "with_format fl tail print = (case gen_format 16 fl tail of None \<Rightarrow> (False, []) | Some format \<Rightarrow> (True, print format))"

fun scale_number :: "int \<Rightarrow> nat \<Rightarrow> nat \<Rightarrow> rat \<Rightarrow> nat \<times> rat" where
  \<comment> \<open>the loop over the scales; the first argument after the divisor counts what is left of \<open>MAXSCALE\<close>\<close>
  "scale_number divisor 0 scale num = (scale, num)"
| "scale_number divisor (Suc n) scale num =
     (if num < of_int divisor then (scale, num) else scale_number divisor n (Suc scale) (double (num / of_int divisor)))"

definition magnitude :: "int \<Rightarrow> rat" where
  "magnitude number = (if number \<ge> 0 then double (of_int number) else double (of_int (sint (of_int (- number) :: 64 word))))"

definition human_number :: "printf_env \<Rightarrow> int \<Rightarrow> percent_esc \<Rightarrow> printed" where
  \<comment> \<open>the number is one of 64 bits\<close>
  "human_number e number p =
     (let bin_scale = has (pe_flags p) PP_ALTERNATE_FORM2;
          fl = without (pe_flags p) [PP_ALTERNATE_FORM1, PP_ALTERNATE_FORM2];
          sign = (if number \<ge> 0 then 1 else - 1);
          (scale, num) = scale_number (if bin_scale then 1024 else 1000) 7 0 (magnitude number);
          scale_width = (if scale = 0 then 0 else if bin_scale then 2 else 1);
          width = (if pe_width p = 0 then 0 else if sint (pe_width p) \<le> scale_width then 1 else sint (pe_width p) - scale_width);
          precision = (if num \<ge> 100 then 0 else if num \<ge> 10 then (if width = 0 \<or> width > 3 then 1 else 0)
            else if width = 0 \<or> width > 3 then 2 else if width = 3 then 1 else 0);
          pfx = (if bin_scale then [[], ''Ki'', ''Mi'', ''Gi'', ''Ti'', ''Pi'', ''Ei''] else [[], ''k'', ''M'', ''G'', ''T'', ''P'', ''E''])
      in with_format fl ''.*f'' (\<lambda>format. printf_f e format (of_int width) precision (num * sign) @ (if scale > 0 then pfx ! scale else [])))"

definition string_val :: "printf_env \<Rightarrow> string option \<Rightarrow> percent_esc \<Rightarrow> printed" where
  "string_val e str p =
     with_format (without (pe_flags p) [PP_ALTERNATE_FORM1, PP_ALTERNATE_FORM2, PP_EXPLICIT_PLUS, PP_SPACE_FOR_PLUS, PP_THOUSANDS_SEP]) ''s''
       (\<lambda>format. printf_s e format (pe_width p) str)"

definition int_val :: "printf_env \<Rightarrow> int \<Rightarrow> percent_esc \<Rightarrow> printed" where
  "int_val e value p =
     (if has (pe_flags p) (or PP_ALTERNATE_FORM1 PP_ALTERNATE_FORM2) then human_number e value p
      else with_format (pe_flags p) ''ld'' (\<lambda>format. printf_d e format (pe_width p) value))"

definition alternate :: "percent_esc \<Rightarrow> nat" where
  "alternate p = (if has (pe_flags p) PP_ALTERNATE_FORM2 then 2 else if has (pe_flags p) PP_ALTERNATE_FORM1 then 1 else 0)"

definition bool_val :: "printf_env \<Rightarrow> bool \<Rightarrow> percent_esc \<Rightarrow> printed" where
  "bool_val e value p = string_val e (Some ((if value then [''true'', ''yes'', ''(*)''] else [''false'', ''no'', []]) ! alternate p)) p"

definition mode_val :: "printf_env \<Rightarrow> nat \<Rightarrow> percent_esc \<Rightarrow> printed" where
  "mode_val e mode p =
     (if has (pe_flags p) PP_ALTERNATE_FORM1 then string_val e (Some (pf_strmode e mode)) p
      else with_format (without (pe_flags p) [PP_ALTERNATE_FORM1, PP_EXPLICIT_PLUS]) ''o''
        (\<lambda>format. printf_o format (pe_width p) (if has (pe_flags p) PP_EXPLICIT_PLUS then mode else mode mod 4096)))"

definition liclog_val :: "printf_env \<Rightarrow> int \<Rightarrow> percent_esc \<Rightarrow> printed" where
  "liclog_val e licenselogic p =
     string_val e (Some ((if licenselogic = LICENSE_OR then [''or'', ''|'', ''||''] else if licenselogic = LICENSE_AND then [''and'', ''&'', ''&&'']
       else [''single'', [], ''=='']) ! alternate p)) p"

definition list_count :: "printf_env \<Rightarrow> nat \<Rightarrow> percent_esc \<Rightarrow> printed" where
  "list_count e cnt p =
     int_val e (if has (pe_flags p) PP_ALTERNATE_FORM1 then (if cnt > 0 then 1 else 0) else int cnt)
       (p\<lparr>pe_flags := without (pe_flags p) [PP_ALTERNATE_FORM1, PP_ALTERNATE_FORM2]\<rparr>)"

definition set_list_defaults :: "percent_esc \<Rightarrow> string \<Rightarrow> string \<Rightarrow> percent_esc" where
  "set_list_defaults p item_fmt sep_fmt =
     (let p = (if pe_item_set p then p else p\<lparr>pe_item_fmt := pe_item_fmt p @ item_fmt, pe_item_set := True\<rparr>)
      in if pe_sep_set p then p else p\<lparr>pe_sep_fmt := pe_sep_fmt p @ sep_fmt, pe_sep_set := True\<rparr>)"


section \<open>Handlers\<close>

text \<open>What an argument may point to; a handler that is given another one has no defined behaviour.\<close>

datatype arg =
    A_null | A_pkg struct_pkg | A_object ucl_node | A_shlib string | A_dir struct_dir | A_file struct_file | A_group struct_group
  | A_user struct_user | A_option struct_option | A_dep pkg_dep | A_count int | A_string "string option"

definition with_pkg :: "arg \<Rightarrow> (struct_pkg \<Rightarrow> printed) \<Rightarrow> printed run" where
  "with_pkg data h = (case data of A_pkg pkg \<Rightarrow> Ret (h pkg) | _ \<Rightarrow> Crash)"

definition with_object :: "arg \<Rightarrow> (ucl_node \<Rightarrow> printed) \<Rightarrow> printed run" where
  "with_object data h = (case data of A_object node \<Rightarrow> Ret (h node) | _ \<Rightarrow> Crash)"

definition with_dir :: "arg \<Rightarrow> (struct_dir \<Rightarrow> printed) \<Rightarrow> printed run" where
  "with_dir data h = (case data of A_dir dir \<Rightarrow> Ret (h dir) | _ \<Rightarrow> Crash)"

definition with_file :: "arg \<Rightarrow> (struct_file \<Rightarrow> printed) \<Rightarrow> printed run" where
  "with_file data h = (case data of A_file sf \<Rightarrow> Ret (h sf) | _ \<Rightarrow> Crash)"

definition with_option :: "arg \<Rightarrow> (struct_option \<Rightarrow> printed) \<Rightarrow> printed run" where
  "with_option data h = (case data of A_option opt \<Rightarrow> Ret (h opt) | _ \<Rightarrow> Crash)"

definition with_dep :: "arg \<Rightarrow> (pkg_dep \<Rightarrow> printed) \<Rightarrow> printed run" where
  "with_dep data h = (case data of A_dep dep \<Rightarrow> Ret (h dep) | _ \<Rightarrow> Crash)"

definition pkg_object_key :: "ucl_node \<Rightarrow> string option" where
  "pkg_object_key node = fst node"

definition pkg_object_count :: "ucl option \<Rightarrow> nat" where
  "pkg_object_count o1 =
     (case o1 of Some (UCL_OBJECT h) \<Rightarrow> length h | Some (UCL_ARRAY xs) \<Rightarrow> length xs | Some (UCL_STRING s) \<Rightarrow> length s | _ \<Rightarrow> 0)"

definition pkg_object_iterate :: "ucl option \<Rightarrow> ucl_node list" where
  \<comment> \<open>what the iteration yields\<close>
  "pkg_object_iterate o1 = (case o1 of None \<Rightarrow> [] | Some v \<Rightarrow> ucl_iterate_object (None, [v]) True)"

definition node_string :: "ucl_node \<Rightarrow> string option" where
  "node_string node = (case snd node of [] \<Rightarrow> None | v # _ \<Rightarrow> pkg_object_string (Some v))"

text \<open>
  A handler has the environment, the function that prints an item with a format (\<open>iterate_item\<close>), its argument and the escape. The
  functions of the lists share their body.
\<close>

type_synonym item_printer = "struct_pkg \<Rightarrow> string \<Rightarrow> arg \<Rightarrow> int \<Rightarrow> flags \<Rightarrow> string run"

type_synonym handler = "printf_env \<Rightarrow> item_printer \<Rightarrow> arg \<Rightarrow> percent_esc \<Rightarrow> printed run"

definition PP_PKG :: flags where "PP_PKG = 1"

definition PP_A :: flags where "PP_A = 2"

definition PP_B :: flags where "PP_B = 4"

definition PP_C :: flags where "PP_C = 8"

definition PP_D :: flags where "PP_D = 16"

definition PP_F :: flags where "PP_F = 32"

definition PP_G :: flags where "PP_G = 64"

definition PP_L :: flags where "PP_L = 128"

definition PP_O :: flags where "PP_O = 256"

definition PP_U :: flags where "PP_U = 512"

definition PP_b :: flags where "PP_b = 1024"

definition PP_d :: flags where "PP_d = 2048"

definition PP_r :: flags where "PP_r = 4096"

definition PP_ALL :: flags where "PP_ALL = 8191"

definition PP_TRAILER :: flags where "PP_TRAILER = 8190"

fun iterate_list :: "item_printer \<Rightarrow> struct_pkg \<Rightarrow> percent_esc \<Rightarrow> flags \<Rightarrow> int \<Rightarrow> arg list \<Rightarrow> string run" where
  "iterate_list it pkg p ctx cnt [] = Ret []"
| "iterate_list it pkg p ctx cnt (x # xs) =
     run_bind (if cnt > 1 then it pkg (pe_sep_fmt p) x cnt ctx else Ret []) (\<lambda>s.
     run_bind (it pkg (pe_item_fmt p) x cnt ctx) (\<lambda>t.
     run_bind (iterate_list it pkg p ctx (cnt + 1) xs) (\<lambda>r. Ret (s @ t @ r))))"

definition format_list ::
  "printf_env \<Rightarrow> item_printer \<Rightarrow> arg \<Rightarrow> percent_esc \<Rightarrow> (struct_pkg \<Rightarrow> nat) \<Rightarrow> (struct_pkg \<Rightarrow> arg list) \<Rightarrow> string \<Rightarrow> string \<Rightarrow> flags
    \<Rightarrow> printed run" where
  "format_list e it data p cnt items item_fmt sep_fmt ctx =
     (case data of
        A_pkg pkg \<Rightarrow>
          (if has (pe_flags p) (or PP_ALTERNATE_FORM1 PP_ALTERNATE_FORM2) then Ret (list_count e (cnt pkg) p)
           else run_bind (iterate_list it pkg (set_list_defaults p item_fmt sep_fmt) ctx 1 (items pkg)) (\<lambda>s. Ret (True, s)))
      | _ \<Rightarrow> Crash)"

text \<open>In the order of the source.\<close>

definition format_annotations :: handler where
  "format_annotations e it data p = 
     format_list e it data p (\<lambda>pkg. pkg_object_count (pkg_get pkg PKG_ANNOTATIONS))
       (\<lambda>pkg. map A_object (pkg_object_iterate (pkg_get pkg PKG_ANNOTATIONS))) (''%An: %Av'' @ [CHR 0x0A]) [] PP_A"

definition format_annotation_name :: handler where
  "format_annotation_name e it data p = with_object data (\<lambda>node. string_val e (pkg_object_key node) p)"

definition format_annotation_value :: handler where
  "format_annotation_value e it data p = with_object data (\<lambda>node. string_val e (node_string node) p)"

definition format_shlibs_required :: handler where
  "format_shlibs_required e it data p = 
     format_list e it data p (pkg_list_count PKG_SHLIBS_REQUIRED)
       (\<lambda>pkg. map A_shlib (pk_shlibs_required pkg)) (''%Bn'' @ [CHR 0x0A]) [] PP_B"

definition format_shlib_name :: handler where
  "format_shlib_name e it data p = (case data of A_shlib name \<Rightarrow> Ret (string_val e (Some name) p) | _ \<Rightarrow> Crash)"

definition format_categories :: handler where
  "format_categories e it data p = 
     format_list e it data p (\<lambda>pkg. pkg_object_count (pkg_get pkg PKG_CATEGORIES))
       (\<lambda>pkg. map A_object (pkg_object_iterate (pkg_get pkg PKG_CATEGORIES))) ''%Cn'' '', '' PP_C"

definition format_category_name :: handler where
  "format_category_name e it data p = with_object data (\<lambda>node. string_val e (node_string node) p)"

definition format_directories :: handler where
  "format_directories e it data p = 
     format_list e it data p (pkg_list_count PKG_DIRS)
       (\<lambda>pkg. map (A_dir \<circ> snd) (pk_dirs pkg)) (''%Dn'' @ [CHR 0x0A]) [] PP_D"

definition format_directory_group :: handler where
  "format_directory_group e it data p = with_dir data (\<lambda>dir. string_val e (Some (sd_gname dir)) p)"

definition format_directory_keepflag :: handler where
  "format_directory_keepflag e it data p = with_dir data (\<lambda>dir. bool_val e False p)"

definition format_directory_path :: handler where
  "format_directory_path e it data p = with_dir data (\<lambda>dir. string_val e (Some (sd_path dir)) p)"

definition format_directory_perms :: handler where
  "format_directory_perms e it data p = with_dir data (\<lambda>dir. mode_val e (sd_perm dir) p)"

definition format_directory_tryflag :: handler where
  "format_directory_tryflag e it data p = with_dir data (\<lambda>dir. bool_val e (sd_try dir) p)"

definition format_directory_user :: handler where
  "format_directory_user e it data p = with_dir data (\<lambda>dir. string_val e (Some (sd_uname dir)) p)"

definition format_files :: handler where
  "format_files e it data p = 
     format_list e it data p (pkg_list_count PKG_FILES)
       (\<lambda>pkg. map (A_file \<circ> snd) (pk_files pkg)) (''%Fn'' @ [CHR 0x0A]) [] PP_F"

definition format_file_group :: handler where
  "format_file_group e it data p = with_file data (\<lambda>sf. string_val e (Some (sf_gname sf)) p)"

definition format_file_keepflag :: handler where
  "format_file_keepflag e it data p = with_file data (\<lambda>sf. bool_val e False p)"

definition format_file_path :: handler where
  "format_file_path e it data p = with_file data (\<lambda>sf. string_val e (Some (sf_path sf)) p)"

definition format_file_perms :: handler where
  "format_file_perms e it data p = with_file data (\<lambda>sf. mode_val e (sf_perm sf) p)"

definition format_file_sha256 :: handler where
  "format_file_sha256 e it data p = with_file data (\<lambda>sf. string_val e (Some (sf_sum sf)) p)"

definition format_file_user :: handler where
  "format_file_user e it data p = with_file data (\<lambda>sf. string_val e (Some (sf_uname sf)) p)"

definition format_groups :: handler where
  "format_groups e it data p = 
     format_list e it data p (pkg_list_count PKG_GROUPS)
       (\<lambda>pkg. map (A_group \<circ> snd) (pk_groups pkg)) (''%Gn'' @ [CHR 0x0A]) [] PP_G"

definition format_group_gidstr :: handler where
  "format_group_gidstr e it data p = (case data of A_group g \<Rightarrow> Ret (string_val e (Some (sg_gidstr g)) p) | _ \<Rightarrow> Crash)"

definition format_group_name :: handler where
  "format_group_name e it data p = (case data of A_group g \<Rightarrow> Ret (string_val e (Some (sg_name g)) p) | _ \<Rightarrow> Crash)"

definition format_row_counter :: handler where
  "format_row_counter e it data p = (case data of A_count n \<Rightarrow> Ret (int_val e n p) | _ \<Rightarrow> Crash)"

definition format_licenses :: handler where
  "format_licenses e it data p = 
     format_list e it data p (\<lambda>pkg. pkg_object_count (pkg_get pkg PKG_LICENSES))
       (\<lambda>pkg. map A_object (pkg_object_iterate (pkg_get pkg PKG_LICENSES))) ''%Ln'' '' %l '' PP_L"

definition format_license_name :: handler where
  "format_license_name e it data p = with_object data (\<lambda>node. string_val e (node_string node) p)"

definition format_message :: handler where
  "format_message e it data p = with_pkg data (\<lambda>pkg. string_val e (pkg_get_string pkg PKG_MESSAGE) p)"

definition format_repo_ident :: handler where
  "format_repo_ident e it data p = with_pkg data (\<lambda>pkg.
     string_val e (Some (case pkg_get_string pkg PKG_REPONAME of
         Some reponame \<Rightarrow> reponame
       | None \<Rightarrow> (case pkg_object_find (pkg_get pkg PKG_ANNOTATIONS) ''repository'' of
           Some rn \<Rightarrow> (case rn of UCL_STRING s \<Rightarrow> s | _ \<Rightarrow> ''(null)'')
         | None \<Rightarrow> ''unknown-repository''))) p)"

definition format_options :: handler where
  "format_options e it data p = 
     format_list e it data p (pkg_list_count PKG_OPTIONS)
       (\<lambda>pkg. map (A_option \<circ> snd) (pk_options pkg)) (''%On %Ov'' @ [CHR 0x0A]) [] PP_O"

definition format_option_name :: handler where
  "format_option_name e it data p = with_option data (\<lambda>opt. string_val e (Some (so_key opt)) p)"

definition format_option_value :: handler where
  "format_option_value e it data p = with_option data (\<lambda>opt. string_val e (Some (opt_string (so_value opt))) p)"

definition format_option_default :: handler where
  "format_option_default e it data p = with_option data (\<lambda>opt. string_val e (Some (opt_string (so_default_value opt))) p)"

definition format_option_description :: handler where
  "format_option_description e it data p = with_option data (\<lambda>opt. string_val e (Some (opt_string (so_description opt))) p)"

definition format_repo_path :: handler where
  "format_repo_path e it data p = with_pkg data (\<lambda>pkg. string_val e (pkg_get_string pkg PKG_REPOPATH) p)"

definition format_char_string :: handler where
  "format_char_string e it data p = (case data of A_string s \<Rightarrow> Ret (string_val e s p) | _ \<Rightarrow> Crash)"

definition format_users :: handler where
  "format_users e it data p = 
     format_list e it data p (pkg_list_count PKG_USERS)
       (\<lambda>pkg. map (A_user \<circ> snd) (pk_users pkg)) (''%Un'' @ [CHR 0x0A]) [] PP_U"

definition format_user_name :: handler where
  "format_user_name e it data p = (case data of A_user u \<Rightarrow> Ret (string_val e (Some (su_name u)) p) | _ \<Rightarrow> Crash)"

definition format_user_uidstr :: handler where
  "format_user_uidstr e it data p = (case data of A_user u \<Rightarrow> Ret (string_val e (Some (su_uidstr u)) p) | _ \<Rightarrow> Crash)"

definition format_old_version :: handler where
  "format_old_version e it data p = with_pkg data (\<lambda>pkg. string_val e (pkg_get_string pkg PKG_OLD_VERSION) p)"

definition format_autoremove :: handler where
  "format_autoremove e it data p = with_pkg data (\<lambda>pkg. bool_val e (pkg_get_bool pkg PKG_AUTOMATIC) p)"

definition format_shlibs_provided :: handler where
  "format_shlibs_provided e it data p = 
     format_list e it data p (pkg_list_count PKG_SHLIBS_PROVIDED)
       (\<lambda>pkg. map A_shlib (pk_shlibs_provided pkg)) (''%bn'' @ [CHR 0x0A]) [] PP_b"

definition format_comment :: handler where
  "format_comment e it data p = with_pkg data (\<lambda>pkg. string_val e (pkg_get_string pkg PKG_COMMENT) p)"

definition format_dependencies :: handler where
  "format_dependencies e it data p = 
     format_list e it data p (pkg_list_count PKG_DEPS)
       (\<lambda>pkg. map (A_dep \<circ> snd) (pk_deps pkg)) (''%dn-%dv'' @ [CHR 0x0A]) [] PP_d"

definition format_dependency_lock :: handler where
  "format_dependency_lock e it data p = with_dep data (\<lambda>dep. bool_val e (dep_locked dep) p)"

definition format_dependency_name :: handler where
  "format_dependency_name e it data p = with_dep data (\<lambda>dep. string_val e (Some (dep_name dep)) p)"

definition format_dependency_origin :: handler where
  "format_dependency_origin e it data p = with_dep data (\<lambda>dep. string_val e (Some (dep_origin dep)) p)"

definition format_dependency_version :: handler where
  "format_dependency_version e it data p = with_dep data (\<lambda>dep. string_val e (Some (dep_version dep)) p)"

definition format_description :: handler where
  "format_description e it data p = with_pkg data (\<lambda>pkg. string_val e (pkg_get_string pkg PKG_DESC) p)"

definition format_lock_status :: handler where
  "format_lock_status e it data p = with_pkg data (\<lambda>pkg. bool_val e (pkg_locked pkg) p)"

definition format_license_logic :: handler where
  "format_license_logic e it data p = with_pkg data (\<lambda>pkg. liclog_val e (pkg_get_int pkg PKG_LICENSE_LOGIC) p)"

definition format_maintainer :: handler where
  "format_maintainer e it data p = with_pkg data (\<lambda>pkg. string_val e (pkg_get_string pkg PKG_MAINTAINER) p)"

definition format_name :: handler where
  "format_name e it data p = with_pkg data (\<lambda>pkg. string_val e (pkg_get_string pkg PKG_NAME) p)"

definition format_origin :: handler where
  "format_origin e it data p = with_pkg data (\<lambda>pkg. string_val e (pkg_get_string pkg PKG_ORIGIN) p)"

definition format_prefix :: handler where
  "format_prefix e it data p = with_pkg data (\<lambda>pkg. string_val e (pkg_get_string pkg PKG_PREFIX) p)"

definition format_architecture :: handler where
  "format_architecture e it data p = with_pkg data (\<lambda>pkg. string_val e (pkg_get_string pkg PKG_ARCH) p)"

definition format_requirements :: handler where
  "format_requirements e it data p = 
     format_list e it data p (pkg_list_count PKG_RDEPS)
       (\<lambda>pkg. map (A_dep \<circ> snd) (pk_rdeps pkg)) (''%rn-%rv'' @ [CHR 0x0A]) [] PP_r"

definition format_flatsize :: handler where
  "format_flatsize e it data p = with_pkg data (\<lambda>pkg. int_val e (pkg_get_int pkg PKG_FLATSIZE) p)"

definition format_install_tstamp :: handler where
  "format_install_tstamp e it data p = with_pkg data (\<lambda>pkg.
     if pe_item_fmt p = [] then int_val e (pkg_get_int pkg PKG_TIME) p
     else (True, pf_strftime e (pe_item_fmt p) (pkg_get_int pkg PKG_TIME)))"

definition format_version :: handler where
  "format_version e it data p = with_pkg data (\<lambda>pkg. string_val e (pkg_get_string pkg PKG_VERSION) p)"

definition format_checksum :: handler where
  "format_checksum e it data p = with_pkg data (\<lambda>pkg. string_val e (pkg_get_string pkg PKG_CKSUM) p)"

definition format_short_checksum :: handler where
  "format_short_checksum e it data p = with_pkg data (\<lambda>pkg. string_val e (Some (take 10 (opt_string (pkg_get_string pkg PKG_CKSUM)))) p)"

definition format_home_url :: handler where
  "format_home_url e it data p = with_pkg data (\<lambda>pkg. string_val e (pkg_get_string pkg PKG_WWW) p)"

definition format_literal_percent :: handler where
  "format_literal_percent e it data p = Ret (True, ''%'')"

definition format_unknown :: handler where
  "format_unknown e it data p = Ret (False, ''%'')"

record pkg_printf_fmt =
  fmt_main :: char
  fmt_sub :: char
  fmt_has_trailer :: bool
  fmt_struct_pkg :: bool
  fmt_context :: flags
  fmt_handler :: handler

text \<open>The table, in the order of the codes, without its end marker. A sub-code of 0 means that there is none.\<close>

definition row :: "char \<Rightarrow> char \<Rightarrow> bool \<Rightarrow> bool \<Rightarrow> flags \<Rightarrow> handler \<Rightarrow> pkg_printf_fmt" where
  "row main sub trailer pkg ctx h =
     \<lparr>fmt_main = main, fmt_sub = sub, fmt_has_trailer = trailer, fmt_struct_pkg = pkg, fmt_context = ctx, fmt_handler = h\<rparr>"

definition fmt :: "pkg_printf_fmt list" where
  "fmt = [
     row (CHR ''A'') (CHR ''n'') False False (or PP_PKG PP_A) format_annotation_name,
     row (CHR ''A'') (CHR ''v'') False False (or PP_PKG PP_A) format_annotation_value,
     row (CHR ''A'') (CHR 0x00) True True PP_PKG format_annotations,
     row (CHR ''B'') (CHR ''n'') False False (or PP_PKG PP_B) format_shlib_name,
     row (CHR ''B'') (CHR 0x00) True True PP_PKG format_shlibs_required,
     row (CHR ''C'') (CHR ''n'') False False (or PP_PKG PP_C) format_category_name,
     row (CHR ''C'') (CHR 0x00) True True PP_PKG format_categories,
     row (CHR ''D'') (CHR ''g'') False False (or PP_PKG PP_D) format_directory_group,
     row (CHR ''D'') (CHR ''k'') False False (or PP_PKG PP_D) format_directory_keepflag,
     row (CHR ''D'') (CHR ''n'') False False (or PP_PKG PP_D) format_directory_path,
     row (CHR ''D'') (CHR ''p'') False False (or PP_PKG PP_D) format_directory_perms,
     row (CHR ''D'') (CHR ''t'') False False (or PP_PKG PP_D) format_directory_tryflag,
     row (CHR ''D'') (CHR ''u'') False False (or PP_PKG PP_D) format_directory_user,
     row (CHR ''D'') (CHR 0x00) True True PP_PKG format_directories,
     row (CHR ''F'') (CHR ''g'') False False (or PP_PKG PP_F) format_file_group,
     row (CHR ''F'') (CHR ''k'') False False (or PP_PKG PP_F) format_file_keepflag,
     row (CHR ''F'') (CHR ''n'') False False (or PP_PKG PP_F) format_file_path,
     row (CHR ''F'') (CHR ''p'') False False (or PP_PKG PP_F) format_file_perms,
     row (CHR ''F'') (CHR ''s'') False False (or PP_PKG PP_F) format_file_sha256,
     row (CHR ''F'') (CHR ''u'') False False (or PP_PKG PP_F) format_file_user,
     row (CHR ''F'') (CHR 0x00) True True PP_PKG format_files,
     row (CHR ''G'') (CHR ''g'') False False (or PP_PKG PP_G) format_group_gidstr,
     row (CHR ''G'') (CHR ''n'') False False (or PP_PKG PP_G) format_group_name,
     row (CHR ''G'') (CHR 0x00) True True PP_PKG format_groups,
     row (CHR ''I'') (CHR 0x00) False False PP_TRAILER format_row_counter,
     row (CHR ''L'') (CHR ''n'') False False (or PP_PKG PP_L) format_license_name,
     row (CHR ''L'') (CHR 0x00) True True PP_PKG format_licenses,
     row (CHR ''M'') (CHR 0x00) False True PP_ALL format_message,
     row (CHR ''N'') (CHR 0x00) False True PP_ALL format_repo_ident,
     row (CHR ''O'') (CHR ''n'') False False (or PP_PKG PP_O) format_option_name,
     row (CHR ''O'') (CHR ''v'') False False (or PP_PKG PP_O) format_option_value,
     row (CHR ''O'') (CHR ''d'') False False (or PP_PKG PP_O) format_option_default,
     row (CHR ''O'') (CHR ''D'') False False (or PP_PKG PP_O) format_option_description,
     row (CHR ''O'') (CHR 0x00) True True PP_PKG format_options,
     row (CHR ''R'') (CHR 0x00) False True PP_ALL format_repo_path,
     row (CHR ''S'') (CHR 0x00) False False PP_PKG format_char_string,
     row (CHR ''U'') (CHR ''n'') False False (or PP_PKG PP_U) format_user_name,
     row (CHR ''U'') (CHR ''u'') False False (or PP_PKG PP_U) format_user_uidstr,
     row (CHR ''U'') (CHR 0x00) True True PP_PKG format_users,
     row (CHR ''V'') (CHR 0x00) False True PP_ALL format_old_version,
     row (CHR ''a'') (CHR 0x00) False True PP_ALL format_autoremove,
     row (CHR ''b'') (CHR ''n'') False False (or PP_PKG PP_b) format_shlib_name,
     row (CHR ''b'') (CHR 0x00) True True PP_PKG format_shlibs_provided,
     row (CHR ''c'') (CHR 0x00) False True PP_ALL format_comment,
     row (CHR ''d'') (CHR ''k'') False False (or PP_PKG PP_d) format_dependency_lock,
     row (CHR ''d'') (CHR ''n'') False False (or PP_PKG PP_d) format_dependency_name,
     row (CHR ''d'') (CHR ''o'') False False (or PP_PKG PP_d) format_dependency_origin,
     row (CHR ''d'') (CHR ''v'') False False (or PP_PKG PP_d) format_dependency_version,
     row (CHR ''d'') (CHR 0x00) True True PP_PKG format_dependencies,
     row (CHR ''e'') (CHR 0x00) False True PP_ALL format_description,
     row (CHR ''k'') (CHR 0x00) False True PP_ALL format_lock_status,
     row (CHR ''l'') (CHR 0x00) False True PP_ALL format_license_logic,
     row (CHR ''m'') (CHR 0x00) False True PP_ALL format_maintainer,
     row (CHR ''n'') (CHR 0x00) False True PP_ALL format_name,
     row (CHR ''o'') (CHR 0x00) False True PP_ALL format_origin,
     row (CHR ''p'') (CHR 0x00) False True PP_ALL format_prefix,
     row (CHR ''q'') (CHR 0x00) False True PP_ALL format_architecture,
     row (CHR ''r'') (CHR ''k'') False False (or PP_PKG PP_r) format_dependency_lock,
     row (CHR ''r'') (CHR ''n'') False False (or PP_PKG PP_r) format_dependency_name,
     row (CHR ''r'') (CHR ''o'') False False (or PP_PKG PP_r) format_dependency_origin,
     row (CHR ''r'') (CHR ''v'') False False (or PP_PKG PP_r) format_dependency_version,
     row (CHR ''r'') (CHR 0x00) True True PP_PKG format_requirements,
     row (CHR ''s'') (CHR 0x00) False True PP_ALL format_flatsize,
     row (CHR ''t'') (CHR 0x00) True True PP_ALL format_install_tstamp,
     row (CHR ''u'') (CHR 0x00) False True PP_ALL format_checksum,
     row (CHR ''v'') (CHR 0x00) False True PP_ALL format_version,
     row (CHR ''w'') (CHR 0x00) False True PP_ALL format_home_url,
     row (CHR ''z'') (CHR 0x00) False True PP_ALL format_short_checksum,
     row (CHR ''%'') (CHR 0x00) False False PP_ALL format_literal_percent,
     row (CHR 0x00) (CHR 0x00) False False PP_ALL format_unknown]"

definition PP_ROW_COUNTER :: nat where "PP_ROW_COUNTER = 24"

definition PP_LAST_FORMAT :: nat where "PP_LAST_FORMAT = 67"

definition PP_UNKNOWN :: nat where "PP_UNKNOWN = 69"

section \<open>Reading a format\<close>

text \<open>A pointer into the format is the rest of it. What lies behind its end is not looked at.\<close>

definition modifier :: "char \<Rightarrow> flags option" where
  "modifier c =
     (if c = CHR ''?'' then Some PP_ALTERNATE_FORM1 else if c = CHR ''#'' then Some PP_ALTERNATE_FORM2
      else if c = CHR ''-'' then Some PP_LEFT_ALIGN else if c = CHR ''+'' then Some PP_EXPLICIT_PLUS
      else if c = CHR '' '' then Some PP_SPACE_FOR_PLUS else if c = CHR ''0'' then Some PP_ZERO_PAD
      else if c = CHR 0x27 then Some PP_THOUSANDS_SEP else None)"

fun field_modifier :: "string \<Rightarrow> percent_esc \<Rightarrow> string \<times> percent_esc" where
  "field_modifier [] p = ([], p)"
| "field_modifier (c # f) p =
     (case modifier c of None \<Rightarrow> (c # f, p) | Some m \<Rightarrow> field_modifier f (p\<lparr>pe_flags := or (pe_flags p) m\<rparr>))"

fun field_width :: "string \<Rightarrow> percent_esc \<Rightarrow> string \<times> percent_esc" where
  "field_width [] p = ([], p)"
| "field_width (c # f) p =
     (if isdigit c then field_width f (p\<lparr>pe_width := pe_width p * 10 + of_int (digit_val c)\<rparr>) else (c # f, p))"

text \<open>The text up to an escape that ends it: what is before, the second character of the end, and the rest; \<open>None\<close> when there is none.\<close>

fun until_end :: "string \<Rightarrow> string \<Rightarrow> (string \<times> char \<times> string) option" where
  "until_end ends [] = None"
| "until_end ends [c] = None"
| "until_end ends (c # d # f) =
     (if c = CHR ''%'' \<and> d \<in> set ends then Some ([], d, f)
      else map_option (\<lambda>(t, x, r). (c # t, x, r)) (until_end ends (d # f)))"

definition format_trailer :: "string \<Rightarrow> percent_esc \<Rightarrow> string \<times> percent_esc" where
  "format_trailer f p =
     (if take 2 f \<noteq> ''%{'' then (f, p)
      else
        (let p = p\<lparr>pe_item_set := True\<rparr>; cleared = (\<lambda>p. p\<lparr>pe_item_fmt := [], pe_sep_fmt := []\<rparr>)
         in case until_end ''}|'' (drop 2 f) of
              None \<Rightarrow> (f, cleared p)
            | Some (item, x, rest) \<Rightarrow>
                (let p = p\<lparr>pe_item_fmt := pe_item_fmt p @ item\<rparr>
                 in if x = CHR ''}'' then (rest, p)
                    else
                      (let p = p\<lparr>pe_sep_set := True\<rparr>
                       in case until_end ''}'' rest of
                            None \<Rightarrow> (f, cleared p)
                          | Some (sep, _, rest) \<Rightarrow> (rest, p\<lparr>pe_sep_fmt := pe_sep_fmt p @ sep\<rparr>)))))"

text \<open>The search in the table, from a code on.\<close>

fun find_code :: "flags \<Rightarrow> string \<Rightarrow> pkg_printf_fmt list \<Rightarrow> nat \<Rightarrow> (nat \<times> string) option" where
  "find_code ctx f [] code = None"
| "find_code ctx f (r # rs) code =
     (if and (fmt_context r) ctx \<noteq> ctx then find_code ctx f rs (Suc code)
      else if fmt_main r \<noteq> (case f of [] \<Rightarrow> CHR 0x00 | c # _ \<Rightarrow> c) then find_code ctx f rs (Suc code)
      else if drop 1 f \<noteq> [] \<and> fmt_sub r = f ! 1 then Some (code, drop 2 f)
      else if fmt_sub r = CHR 0x00 then Some (code, drop 1 f)
      else find_code ctx f rs (Suc code))"

definition format_code :: "string \<Rightarrow> flags \<Rightarrow> percent_esc \<Rightarrow> string \<times> percent_esc" where
  "format_code f ctx p =
     (case find_code ctx f fmt 0 of
        None \<Rightarrow> (f, p\<lparr>pe_fmt_code := PP_UNKNOWN\<rparr>)
      | Some (code, f) \<Rightarrow> (f, p\<lparr>pe_fmt_code := code\<rparr>))"

definition parse_format :: "string \<Rightarrow> flags \<Rightarrow> percent_esc \<Rightarrow> string \<times> percent_esc" where
  "parse_format f ctx p =
     (let (f, p) = field_modifier (tl f) p; (f, p) = field_width f p; (f, p) = format_code f ctx p
      in if and ctx PP_PKG = PP_PKG \<and> fmt_has_trailer (fmt ! pe_fmt_code p)
           \<and> \<not> has (pe_flags p) (or PP_ALTERNATE_FORM1 PP_ALTERNATE_FORM2)
         then format_trailer f p else (f, p))"

section \<open>Escapes\<close>

definition xdigit_value :: "char \<Rightarrow> nat option" where
  "xdigit_value c =
     (if isdigit c then Some (nat (byte c - 48))
      else if 97 \<le> byte c \<and> byte c \<le> 102 then Some (nat (byte c - 87))
      else if 65 \<le> byte c \<and> byte c \<le> 70 then Some (nat (byte c - 55)) else None)"

definition maybe_read_hex_byte :: "string \<Rightarrow> string \<times> string" where
  \<comment> \<open>what is appended, and the rest; \<open>f\<close> starts with \<open>x\<close>\<close>
  "maybe_read_hex_byte f =
     (case tl f of
        c # d # r \<Rightarrow>
          (case (xdigit_value c, xdigit_value d) of
             (Some x, Some y) \<Rightarrow> ([char_of (16 * x + y)], r)
           | _ \<Rightarrow> ([CHR 0x5C, CHR ''x''], c # d # r))
      | r \<Rightarrow> ([CHR 0x5C, CHR ''x''], r))"

definition oct_digit :: "char \<Rightarrow> bool" where
  "oct_digit c \<longleftrightarrow> 48 \<le> byte c \<and> byte c \<le> 55"

fun read_oct :: "nat \<Rightarrow> nat \<Rightarrow> string \<Rightarrow> nat \<times> string" where
  "read_oct n val [] = (val, [])"
| "read_oct n val (c # f) =
     (if val < 32 \<and> n < 3 \<and> oct_digit c then read_oct (Suc n) (val * 8 + nat (digit_val c)) f else (val, c # f))"

definition read_oct_byte :: "string \<Rightarrow> string \<times> string" where
  "read_oct_byte f = (let (val, f) = read_oct 0 0 f in ([char_of val], f))"

definition simple_escapes :: "(char \<times> char) list" where
  "simple_escapes = [(CHR ''a'', CHR 0x07), (CHR ''b'', CHR 0x08), (CHR ''f'', CHR 0x0C), (CHR ''n'', CHR 0x0A), (CHR ''t'', CHR 0x09),
     (CHR ''v'', CHR 0x0B), (CHR 0x27, CHR 0x27), (CHR 0x22, CHR 0x22), (CHR 0x5C, CHR 0x5C)]"

definition process_escape :: "string \<Rightarrow> string \<times> string" where
  "process_escape f =
     (case tl f of
        [] \<Rightarrow> ([CHR 0x5C], [])
      | c # r \<Rightarrow>
          (case map_of simple_escapes c of
             Some x \<Rightarrow> ([x], r)
           | None \<Rightarrow> if c = CHR ''x'' then maybe_read_hex_byte (c # r)
               else if oct_digit c then read_oct_byte (c # r)
               else ([CHR 0x5C], c # r)))"

lemma field_modifier_length: "length (fst (field_modifier f p)) \<le> length f"
  by (induction f p rule: field_modifier.induct) (auto split: option.splits simp: le_SucI)

lemma field_width_length: "length (fst (field_width f p)) \<le> length f"
  by (induction f p rule: field_width.induct) (auto simp: le_SucI)

lemma until_end_length: "until_end ends f = Some (t, x, r) \<Longrightarrow> length r < length f"
  by (induction ends f arbitrary: t x r rule: until_end.induct) (auto split: if_splits)

lemma format_trailer_length: "length (fst (format_trailer f p)) \<le> length f"
proof -
  have d: "until_end ends (drop 2 f) = Some (t, x, r) \<Longrightarrow> length r \<le> length f" for ends t x r
    using until_end_length [of ends "drop 2 f" t x r] by simp
  show ?thesis unfolding format_trailer_def Let_def
    by (auto split: option.splits dest!: d until_end_length)
qed

lemma find_code_length: "find_code ctx f rs code = Some (c, g) \<Longrightarrow> length g \<le> length f"
  by (induction ctx f rs code rule: find_code.induct) (auto split: if_splits)

lemma format_code_length: "length (fst (format_code f ctx p)) \<le> length f"
  by (auto simp: format_code_def split: option.splits dest: find_code_length)

lemma parse_format_length: "f \<noteq> [] \<Longrightarrow> length (fst (parse_format f ctx p)) < length f"
proof -
  assume f: "f \<noteq> []"
  define a where "a = field_modifier (tl f) p"
  define b where "b = field_width (fst a) (snd a)"
  define c where "c = format_code (fst b) ctx (snd b)"
  have "length (fst c) \<le> length (tl f)"
    unfolding c_def b_def a_def
    by (meson field_modifier_length field_width_length format_code_length le_trans)
  moreover have "parse_format f ctx p
    = (if and ctx PP_PKG = PP_PKG \<and> fmt_has_trailer (fmt ! pe_fmt_code (snd c)) \<and> \<not> has (pe_flags (snd c)) (or PP_ALTERNATE_FORM1 PP_ALTERNATE_FORM2)
       then format_trailer (fst c) (snd c) else c)"
    by (simp add: parse_format_def a_def b_def c_def Let_def case_prod_unfold)
  ultimately show ?thesis using f format_trailer_length [of "fst c" "snd c"] by (cases f) auto
qed

lemma read_oct_length: "length (snd (read_oct n val f)) \<le> length f"
  by (induction n val f rule: read_oct.induct) (auto simp: le_SucI)

lemma process_escape_length: "f \<noteq> [] \<Longrightarrow> length (snd (process_escape f)) < length f"
proof (cases f)
  case (Cons b g)
  have h: "length (snd (maybe_read_hex_byte (c # r))) \<le> length r" for c r
    by (auto simp: maybe_read_hex_byte_def split: list.splits option.splits)
  have o1: "length (snd (read_oct_byte r)) \<le> length r" for r
    using read_oct_length [of 0 0 r] by (simp add: read_oct_byte_def case_prod_unfold Let_def)
  show ?thesis
  proof (cases g)
    case (Cons c r)
    have "length (snd (read_oct_byte (c # r))) < length (c # c # r)" using o1 [of "c # r"] by simp
    moreover have "length (snd (maybe_read_hex_byte (c # r))) < length (c # c # r)" using h [of c r] by simp
    ultimately show ?thesis using \<open>f = b # g\<close> Cons by (cases "map_of simple_escapes c") (auto simp: process_escape_def)
  qed (simp add: process_escape_def \<open>f = b # g\<close>)
qed simp

section \<open>Printing\<close>

text \<open>
  The handler of an item of a list; the escape is cleared behind every use, so each starts with a new one. After an error only the percent
  sign is skipped.
\<close>

definition trailer_data :: "struct_pkg \<Rightarrow> arg \<Rightarrow> int \<Rightarrow> nat \<Rightarrow> arg" where
  "trailer_data pkg data cnt code =
     (if code = PP_ROW_COUNTER then A_count cnt else if code > PP_LAST_FORMAT then A_null
      else if fmt_struct_pkg (fmt ! code) then A_pkg pkg else data)"

definition process_format_trailer ::
  "printf_env \<Rightarrow> item_printer \<Rightarrow> string \<Rightarrow> struct_pkg \<Rightarrow> arg \<Rightarrow> int \<Rightarrow> flags \<Rightarrow> (string \<times> string) run" where
  "process_format_trailer e it f pkg data cnt ctx =
     (let (rest, p) = parse_format f ctx new_percent_esc; code = pe_fmt_code p
      in run_bind (fmt_handler (fmt ! code) e it (trailer_data pkg data cnt code) p)
           (\<lambda>(ok, t). Ret (t, if ok then rest else tl f)))"

text \<open>\<open>items it\<close> prints with the handlers that print the items of their lists by \<open>it\<close>.\<close>

function items :: "printf_env \<Rightarrow> item_printer \<Rightarrow> struct_pkg \<Rightarrow> string \<Rightarrow> arg \<Rightarrow> int \<Rightarrow> flags \<Rightarrow> string run" where
  "items e it pkg [] data cnt ctx = Ret []"
| "items e it pkg (c # f) data cnt ctx =
     (if c = CHR ''%'' then
        (case process_format_trailer e it (c # f) pkg data cnt ctx of
           Ret (t, rest) \<Rightarrow> run_bind (items e it pkg rest data cnt ctx) (\<lambda>s. Ret (t @ s))
         | Crash \<Rightarrow> Crash | NoFuel \<Rightarrow> NoFuel)
      else if c = CHR 0x5C then
        (let (t, rest) = process_escape (c # f) in run_bind (items e it pkg rest data cnt ctx) (\<lambda>s. Ret (t @ s)))
      else run_bind (items e it pkg f data cnt ctx) (\<lambda>s. Ret (c # s)))"
  by pat_completeness auto

lemma process_format_trailer_length:
  "process_format_trailer e it (c # f) pkg data cnt ctx = Ret (t, rest) \<Longrightarrow> length rest \<le> length f"
  using parse_format_length [of "c # f" ctx new_percent_esc]
  by (cases "fmt_handler (fmt ! pe_fmt_code (snd (parse_format (c # f) ctx new_percent_esc))) e it
      (trailer_data pkg data cnt (pe_fmt_code (snd (parse_format (c # f) ctx new_percent_esc)))) (snd (parse_format (c # f) ctx new_percent_esc))")
    (auto simp: process_format_trailer_def Let_def case_prod_unfold split: if_splits)

termination items
proof (relation "measure (\<lambda>(e, it, pkg, f, data, cnt, ctx). length f)", goal_cases)
  case (2 e it pkg c f data cnt ctx x t rest)
  then show ?case using process_format_trailer_length [of e it c f pkg data cnt ctx t rest] by simp
next
  case (3 e it pkg c f data cnt ctx x t rest)
  then have "rest = snd (process_escape (c # f))" by (metis snd_conv)
  then show ?case using process_escape_length [of "c # f"] by simp
qed simp_all

text \<open>
  The nesting is bounded by \<open>n\<close>. The texts of the items cannot contain lists, so 1 is enough for them.
\<close>

primrec iterate_item :: "nat \<Rightarrow> printf_env \<Rightarrow> item_printer" where
  "iterate_item 0 e = (\<lambda>_ _ _ _ _. NoFuel)"
| "iterate_item (Suc n) e = items e (iterate_item n e)"

definition process_format_main ::
  "printf_env \<Rightarrow> percent_esc \<Rightarrow> string \<Rightarrow> string \<Rightarrow> arg \<Rightarrow> (string \<times> string) run" where
  "process_format_main e p fstart fend data =
     run_bind (fmt_handler (fmt ! pe_fmt_code p) e (iterate_item 1 e) data p) (\<lambda>(ok, t). Ret (t, if ok then fend else fstart))"

text \<open>
  The fuel bounds the rounds of the loop. An escape takes the next argument unless its code is behind the last format.
\<close>

fun pkg_sbuf_vprintf :: "nat \<Rightarrow> printf_env \<Rightarrow> string \<Rightarrow> arg list \<Rightarrow> string run" where
  "pkg_sbuf_vprintf 0 e f args = NoFuel"
| "pkg_sbuf_vprintf (Suc n) e [] args = Ret []"
| "pkg_sbuf_vprintf (Suc n) e (c # f) args =
     (if c = CHR ''%'' then
        (let (fend, p) = parse_format (c # f) PP_PKG new_percent_esc;
             next = (\<lambda>data args. run_bind (process_format_main e p (c # f) fend data) (\<lambda>(t, rest).
               run_bind (pkg_sbuf_vprintf n e rest args) (\<lambda>s. Ret (t @ s))))
         in if pe_fmt_code p \<le> PP_LAST_FORMAT then (case args of [] \<Rightarrow> Crash | data # args \<Rightarrow> next data args) else next A_null args)
      else if c = CHR 0x5C then
        (let (t, rest) = process_escape (c # f) in run_bind (pkg_sbuf_vprintf n e rest args) (\<lambda>s. Ret (t @ s)))
      else run_bind (pkg_sbuf_vprintf n e f args) (\<lambda>s. Ret (c # s)))"

definition pkg_sbuf_printf :: "nat \<Rightarrow> printf_env \<Rightarrow> string \<Rightarrow> arg list \<Rightarrow> string run" where
  "pkg_sbuf_printf = pkg_sbuf_vprintf"

text \<open>The data of a buffer as a string ends at its first zero byte. What is printed, and its length.\<close>

definition sbuf_data :: "string \<Rightarrow> string" where
  "sbuf_data s = takeWhile (\<lambda>c. c \<noteq> CHR 0x00) s"

definition pkg_vprintf :: "nat \<Rightarrow> printf_env \<Rightarrow> string \<Rightarrow> arg list \<Rightarrow> (nat \<times> string) run" where
  "pkg_vprintf n e format ap = run_bind (pkg_sbuf_vprintf n e format ap) (\<lambda>s. Ret (length (sbuf_data s), sbuf_data s))"

definition pkg_vfprintf :: "nat \<Rightarrow> printf_env \<Rightarrow> string \<Rightarrow> arg list \<Rightarrow> (nat \<times> string) run" where
  "pkg_vfprintf n e format ap = run_bind (pkg_sbuf_vprintf n e format ap) (\<lambda>s. Ret (length (sbuf_data s), sbuf_data s))"

definition pkg_vdprintf :: "nat \<Rightarrow> printf_env \<Rightarrow> string \<Rightarrow> arg list \<Rightarrow> (nat \<times> string) run" where
  "pkg_vdprintf n e format ap = run_bind (pkg_sbuf_vprintf n e format ap) (\<lambda>s. Ret (length (sbuf_data s), sbuf_data s))"

definition pkg_vsnprintf :: "nat \<Rightarrow> printf_env \<Rightarrow> nat \<Rightarrow> string \<Rightarrow> arg list \<Rightarrow> (nat \<times> string) run" where
  "pkg_vsnprintf n e sz format ap =
     run_bind (pkg_sbuf_vprintf n e format ap) (\<lambda>s. Ret (length (sbuf_data s), take (sz - 1) (sbuf_data s)))"

definition pkg_vasprintf :: "nat \<Rightarrow> printf_env \<Rightarrow> string \<Rightarrow> arg list \<Rightarrow> (nat \<times> string) run" where
  "pkg_vasprintf n e format ap = run_bind (pkg_sbuf_vprintf n e format ap) (\<lambda>s. Ret (length (sbuf_data s), sbuf_data s))"

definition pkg_printf :: "nat \<Rightarrow> printf_env \<Rightarrow> string \<Rightarrow> arg list \<Rightarrow> (nat \<times> string) run" where
  "pkg_printf = pkg_vprintf"

definition pkg_fprintf :: "nat \<Rightarrow> printf_env \<Rightarrow> string \<Rightarrow> arg list \<Rightarrow> (nat \<times> string) run" where
  "pkg_fprintf = pkg_vfprintf"

definition pkg_dprintf :: "nat \<Rightarrow> printf_env \<Rightarrow> string \<Rightarrow> arg list \<Rightarrow> (nat \<times> string) run" where
  "pkg_dprintf = pkg_vdprintf"

definition pkg_snprintf :: "nat \<Rightarrow> printf_env \<Rightarrow> nat \<Rightarrow> string \<Rightarrow> arg list \<Rightarrow> (nat \<times> string) run" where
  "pkg_snprintf = pkg_vsnprintf"

definition pkg_asprintf :: "nat \<Rightarrow> printf_env \<Rightarrow> string \<Rightarrow> arg list \<Rightarrow> (nat \<times> string) run" where
  "pkg_asprintf = pkg_vasprintf"

section \<open>The loop ends\<close>

lemma with_ends:
  "with_pkg data h \<noteq> NoFuel" "with_object data h2 \<noteq> NoFuel" "with_dir data h3 \<noteq> NoFuel" "with_file data h4 \<noteq> NoFuel"
  "with_option data h5 \<noteq> NoFuel" "with_dep data h6 \<noteq> NoFuel"
  by (simp_all add: with_pkg_def with_object_def with_dir_def with_file_def with_option_def with_dep_def split: arg.splits)

lemma run_bind_NoFuel: "run_bind m f = NoFuel \<longleftrightarrow> m = NoFuel \<or> (\<exists>x. m = Ret x \<and> f x = NoFuel)"
  by (cases m) auto

lemma run_bind_eq_Ret: "run_bind m f = Ret y \<longleftrightarrow> (\<exists>x. m = Ret x \<and> f x = Ret y)"
  by (cases m) auto

definition item_contexts :: "flags set" where
  "item_contexts = {PP_A, PP_B, PP_C, PP_D, PP_F, PP_G, PP_L, PP_O, PP_U, PP_b, PP_d, PP_r}"

lemma iterate_list_ends:
  "(\<And>f x n. it pkg f x n ctx \<noteq> NoFuel) \<Longrightarrow> iterate_list it pkg p ctx cnt xs \<noteq> NoFuel"
  by (induction xs arbitrary: cnt) (auto simp: run_bind_NoFuel split: if_splits)

lemma format_list_ends:
  "(\<And>pkg f x n. it pkg f x n ctx \<noteq> NoFuel) \<Longrightarrow> format_list e it data p cnt xs item sep ctx \<noteq> NoFuel"
  using iterate_list_ends [of it _ ctx] by (auto simp: format_list_def run_bind_NoFuel split: arg.splits if_splits)

named_theorems handler_defs

lemmas [handler_defs] = format_annotations_def format_annotation_name_def format_annotation_value_def format_shlibs_required_def
  format_shlib_name_def format_categories_def format_category_name_def format_directories_def format_directory_group_def
  format_directory_keepflag_def format_directory_path_def format_directory_perms_def format_directory_tryflag_def
  format_directory_user_def format_files_def format_file_group_def format_file_keepflag_def format_file_path_def
  format_file_perms_def format_file_sha256_def format_file_user_def format_groups_def format_group_gidstr_def
  format_group_name_def format_row_counter_def format_licenses_def format_license_name_def format_message_def
  format_repo_ident_def format_options_def format_option_name_def format_option_value_def format_option_default_def
  format_option_description_def format_repo_path_def format_char_string_def format_users_def format_user_name_def
  format_user_uidstr_def format_old_version_def format_autoremove_def format_shlibs_provided_def format_comment_def
  format_dependencies_def format_dependency_lock_def format_dependency_name_def format_dependency_origin_def
  format_dependency_version_def format_description_def format_lock_status_def format_license_logic_def
  format_maintainer_def format_name_def format_origin_def format_prefix_def format_architecture_def
  format_requirements_def format_flatsize_def format_install_tstamp_def format_version_def format_checksum_def
  format_short_checksum_def format_home_url_def format_literal_percent_def format_unknown_def

text \<open>The handlers of scalars do not print items; those of lists are only found at the top level.\<close>

definition scalar_row :: "pkg_printf_fmt \<Rightarrow> bool" where
  "scalar_row r \<longleftrightarrow> (\<forall>e it data p. fmt_handler r e it data p \<noteq> NoFuel)"

definition list_row :: "pkg_printf_fmt \<Rightarrow> bool" where
  "list_row r \<longleftrightarrow> fmt_context r = PP_PKG
     \<and> (\<forall>e it data p. (\<forall>pkg f x n. \<forall>ctx \<in> item_contexts. it pkg f x n ctx \<noteq> NoFuel) \<longrightarrow> fmt_handler r e it data p \<noteq> NoFuel)"

lemma scalar_rows:
  "(\<And>e it data p. h e it data p \<noteq> NoFuel) \<Longrightarrow> scalar_row (row a b t k c h)"
  by (simp add: scalar_row_def row_def)

lemma list_rows:
  assumes "ctx \<in> item_contexts" "\<And>e it data p. h e it data p = format_list e it data p (cnt e) (xs e) item sep ctx"
  shows "list_row (row a b t k PP_PKG h)"
  using assms by (auto simp: list_row_def row_def intro!: format_list_ends)

lemma fmt_rows: "\<forall>r \<in> set fmt. scalar_row r \<or> list_row r"
  unfolding fmt_def list.set ball_simps
  apply (intro conjI)
  apply (rule disjI1; rule scalar_rows; simp add: handler_defs with_ends split: arg.splits; fail | rule disjI2; rule list_rows [rotated], (simp only: handler_defs; fail)?; simp add: item_contexts_def)+
  apply (rule TrueI)
  done

text \<open>A format for \<open>printf\<close> always fits its buffer of 16 bytes, and the handlers of the known codes succeed.\<close>

lemma flag_pow:
  "PP_ALTERNATE_FORM1 = 2 ^ 0" "PP_ALTERNATE_FORM2 = 2 ^ 1" "PP_LEFT_ALIGN = 2 ^ 2" "PP_EXPLICIT_PLUS = 2 ^ 3" "PP_SPACE_FOR_PLUS = 2 ^ 4"
  "PP_ZERO_PAD = 2 ^ 5" "PP_THOUSANDS_SEP = 2 ^ 6"
  by (simp_all add: PP_ALTERNATE_FORM1_def PP_ALTERNATE_FORM2_def PP_LEFT_ALIGN_def PP_EXPLICIT_PLUS_def PP_SPACE_FOR_PLUS_def
    PP_ZERO_PAD_def PP_THOUSANDS_SEP_def)

lemma has_pow: "has fl (2 ^ n) \<longleftrightarrow> bit fl n"
  by (simp add: has_def and_exp_eq_0_iff_not_bit)

lemmas has_flag = has_pow [where n = 0, folded flag_pow] has_pow [where n = 1, folded flag_pow] has_pow [where n = 2, folded flag_pow]
  has_pow [where n = 3, folded flag_pow] has_pow [where n = 4, folded flag_pow] has_pow [where n = 5, folded flag_pow]
  has_pow [where n = 6, folded flag_pow]

lemma bit_flag:
  "bit PP_ALTERNATE_FORM1 n \<longleftrightarrow> n = 0" "bit PP_ALTERNATE_FORM2 n \<longleftrightarrow> n = 1" "bit PP_LEFT_ALIGN n \<longleftrightarrow> n = 2"
  "bit PP_EXPLICIT_PLUS n \<longleftrightarrow> n = 3" "bit PP_SPACE_FOR_PLUS n \<longleftrightarrow> n = 4" "bit PP_ZERO_PAD n \<longleftrightarrow> n = 5" "bit PP_THOUSANDS_SEP n \<longleftrightarrow> n = 6"
  unfolding flag_pow bit_exp_iff by auto

lemma has_or: "has fl (or a b) \<longleftrightarrow> has fl a \<or> has fl b"
proof -
  have "and fl (or a b) = or (and fl a) (and fl b)" by (simp add: bit.conj_disj_distrib)
  then show ?thesis by (simp add: has_def or_eq_0_iff)
qed

lemma bit_without: "bit (without fl ms) n \<longleftrightarrow> bit fl n \<and> (\<forall>m \<in> set ms. \<not> bit m n)"
proof (induction ms arbitrary: fl)
  case (Cons m ms)
  show ?case using Cons [of "and fl (not m)"] by (auto simp: without_def bit_and_iff bit_not_iff dest: bit_imp_le_length)
qed (simp add: without_def)

lemmas flag_simps = has_flag has_or bit_without bit_flag

text \<open>The flags in the text, with the two rules of precedence.\<close>

definition flag_text :: "flags \<Rightarrow> string" where
  "flag_text fl = (if bit fl 1 then ''#'' else []) @ (if bit fl 2 then ''-'' else []) @ (if bit fl 5 \<and> \<not> bit fl 2 then ''0'' else [])
     @ (if bit fl 3 then ''+'' else []) @ (if bit fl 4 \<and> \<not> bit fl 3 then '' '' else []) @ (if bit fl 6 then [CHR 0x27] else [])"

lemma flag_text_length: "length (flag_text fl) \<le> 4"
  by (simp add: flag_text_def)

lemma gen_format_text:
  assumes "length tail \<le> 8"
  shows "gen_format 16 fl tail = Some (CHR ''%'' # flag_text fl @ CHR ''*'' # tail)"
proof -
  define fl1 where "fl1 = (if has fl PP_EXPLICIT_PLUS \<and> has fl PP_SPACE_FOR_PLUS then without fl [PP_SPACE_FOR_PLUS] else fl)"
  define fl2 where "fl2 = (if has fl1 PP_LEFT_ALIGN \<and> has fl1 PP_ZERO_PAD then without fl1 [PP_ZERO_PAD] else fl1)"
  have b: "bit fl2 1 = bit fl 1" "bit fl2 2 = bit fl 2" "bit fl2 3 = bit fl 3" "bit fl2 6 = bit fl 6"
    "bit fl2 4 = (bit fl 4 \<and> \<not> bit fl 3)" "bit fl2 5 = (bit fl 5 \<and> \<not> bit fl 2)"
    by (auto simp: fl1_def fl2_def flag_simps)
  have t: "take 15 (CHR ''%'' # flag_text fl @ CHR ''*'' # tail) = CHR ''%'' # flag_text fl @ CHR ''*'' # tail"
    using assms flag_text_length [of fl] by simp
  have "gen_format 16 fl tail = Some (take 15 (CHR ''%'' # flag_text fl @ CHR ''*'' # tail))"
    unfolding gen_format_def Let_def fl1_def [symmetric] fl2_def [symmetric] using assms b by (simp add: flag_simps flag_text_def)
  then show ?thesis unfolding t .
qed

lemma gen_format_some: "length tail \<le> 8 \<Longrightarrow> gen_format 16 fl tail \<noteq> None"
  by (simp add: gen_format_text)

lemma vals_ok:
  "fst (with_format fl ''s'' g)" "fst (with_format fl ''ld'' g)" "fst (with_format fl ''o'' g)" "fst (with_format fl ''.*f'' g)"
  using gen_format_some [of "''s''" fl] gen_format_some [of "''ld''" fl] gen_format_some [of "''o''" fl] gen_format_some [of "''.*f''" fl]
  by (auto simp: with_format_def split: option.splits)

lemma vals_succeed:
  "fst (string_val e str p)" "fst (int_val e n p)" "fst (bool_val e b p)" "fst (mode_val e m p)" "fst (liclog_val e l p)" "fst (list_count e k p)"
proof -
  show s: "fst (string_val e str p)" for str by (simp add: string_val_def vals_ok)
  show i: "fst (int_val e n p)" for n p by (simp add: int_val_def human_number_def vals_ok Let_def case_prod_unfold)
  show "fst (bool_val e b p)" "fst (mode_val e m p)" "fst (liclog_val e l p)" "fst (list_count e k p)"
    by (simp_all add: bool_val_def mode_val_def liclog_val_def list_count_def s i vals_ok)
qed

definition ok_row :: "pkg_printf_fmt \<Rightarrow> bool" where
  "ok_row r \<longleftrightarrow> (\<forall>e it data p x. fmt_handler r e it data p = Ret x \<longrightarrow> fst x)"

lemma ok_rowI: "(\<And>e it data p x. h e it data p = Ret x \<Longrightarrow> fst x) \<Longrightarrow> ok_row (row a b t k c h)"
  by (simp add: ok_row_def row_def)

lemma with_ok:
  "with_pkg data h = Ret x \<Longrightarrow> (\<And>a. fst (h a)) \<Longrightarrow> fst x" "with_object data h2 = Ret x \<Longrightarrow> (\<And>a. fst (h2 a)) \<Longrightarrow> fst x"
  "with_dir data h3 = Ret x \<Longrightarrow> (\<And>a. fst (h3 a)) \<Longrightarrow> fst x" "with_file data h4 = Ret x \<Longrightarrow> (\<And>a. fst (h4 a)) \<Longrightarrow> fst x"
  "with_option data h5 = Ret x \<Longrightarrow> (\<And>a. fst (h5 a)) \<Longrightarrow> fst x" "with_dep data h6 = Ret x \<Longrightarrow> (\<And>a. fst (h6 a)) \<Longrightarrow> fst x"
  by (auto simp: with_pkg_def with_object_def with_dir_def with_file_def with_option_def with_dep_def split: arg.splits)

lemma format_list_ok: "format_list e it data p cnt xs item sep ctx = Ret x \<Longrightarrow> fst x"
  by (auto simp: format_list_def vals_succeed run_bind_eq_Ret split: arg.splits if_splits)

lemma fmt_rows_ok: "\<forall>r \<in> set (take 69 fmt). ok_row r"
  unfolding fmt_def take_Cons_numeral
  apply simp
  apply (intro conjI; rule ok_rowI)
  apply (auto simp: handler_defs vals_succeed dest!: with_ok format_list_ok split: arg.splits if_splits)
  apply (metis fst_conv vals_succeed)+
  done

lemma find_code_some:
  "find_code ctx f rs k = Some (c, g) \<Longrightarrow> k \<le> c \<and> c - k < length rs \<and> and (fmt_context (rs ! (c - k))) ctx = ctx"
proof (induction rs arbitrary: k)
  case (Cons r rs)
  have "find_code ctx f rs (Suc k) = Some (c, g) \<or> c = k \<and> and (fmt_context r) ctx = ctx"
    using Cons.prems by (auto split: if_splits)
  then show ?case
  proof
    assume "find_code ctx f rs (Suc k) = Some (c, g)"
    then have "Suc k \<le> c \<and> c - Suc k < length rs \<and> and (fmt_context (rs ! (c - Suc k))) ctx = ctx" by (rule Cons.IH)
    moreover from this [THEN conjunct1] have "c - k = Suc (c - Suc k)" by arith
    ultimately show ?thesis by simp
  qed simp
qed simp

lemma fmt_length: "length fmt = 70"
  by (simp add: fmt_def)

lemma unknown_row: "fmt ! PP_UNKNOWN = row CHR 0x00 CHR 0x00 False False PP_ALL format_unknown"
  by (simp add: fmt_def PP_UNKNOWN_def)

lemma parse_format_code:
  "\<exists>g. pe_fmt_code (snd (parse_format f ctx p)) = (case find_code ctx g fmt 0 of None \<Rightarrow> PP_UNKNOWN | Some (code, _) \<Rightarrow> code)"
proof -
  define a where "a = field_modifier (tl f) p"
  define b where "b = field_width (fst a) (snd a)"
  define c where "c = format_code (fst b) ctx (snd b)"
  have t: "pe_fmt_code (snd (format_trailer f p)) = pe_fmt_code p" for f p
    by (simp add: format_trailer_def Let_def split: option.splits)
  have "pe_fmt_code (snd (parse_format f ctx p)) = pe_fmt_code (snd c)"
    by (simp add: parse_format_def a_def b_def c_def Let_def case_prod_unfold t)
  also have "\<dots> = (case find_code ctx (fst b) fmt 0 of None \<Rightarrow> PP_UNKNOWN | Some (code, _) \<Rightarrow> code)"
    by (simp add: c_def format_code_def split: option.splits prod.splits)
  finally show ?thesis by blast
qed

lemma parse_format_row: "pe_fmt_code (snd (parse_format f ctx p)) < 70"
proof -
  obtain g where "pe_fmt_code (snd (parse_format f ctx p)) = (case find_code ctx g fmt 0 of None \<Rightarrow> PP_UNKNOWN | Some (code, _) \<Rightarrow> code)"
    using parse_format_code by blast
  then show ?thesis using find_code_some [of ctx g fmt 0] by (auto simp: fmt_length PP_UNKNOWN_def split: option.splits prod.splits)
qed

lemma item_context_alone: "ctx \<in> item_contexts \<Longrightarrow> and PP_PKG ctx \<noteq> ctx"
  by (auto simp: item_contexts_def PP_PKG_def PP_A_def PP_B_def PP_C_def PP_D_def PP_F_def PP_G_def PP_L_def PP_O_def PP_U_def
    PP_b_def PP_d_def PP_r_def)

lemma item_row_scalar: "ctx \<in> item_contexts \<Longrightarrow> scalar_row (fmt ! pe_fmt_code (snd (parse_format f ctx p)))"
proof -
  assume ctx: "ctx \<in> item_contexts"
  let ?c = "pe_fmt_code (snd (parse_format f ctx p))"
  obtain g where g: "?c = (case find_code ctx g fmt 0 of None \<Rightarrow> PP_UNKNOWN | Some (code, _) \<Rightarrow> code)"
    using parse_format_code by blast
  show ?thesis
  proof (cases "find_code ctx g fmt 0")
    case None
    then show ?thesis using g unknown_row by (simp add: scalar_row_def row_def format_unknown_def)
  next
    case (Some cg)
    then have c: "?c < length fmt" "and (fmt_context (fmt ! ?c)) ctx = ctx" using find_code_some [of ctx g fmt 0 ?c "snd cg"] g by (auto split: prod.splits)
    then have "\<not> list_row (fmt ! ?c)" using item_context_alone [OF ctx] by (auto simp: list_row_def)
    then show ?thesis using fmt_rows c(1) by (meson nth_mem)
  qed
qed

lemma items_end: "ctx \<in> item_contexts \<Longrightarrow> items e it pkg f data cnt ctx \<noteq> NoFuel"
proof (induction e it pkg f data cnt ctx rule: items.induct)
  case (2 e it pkg c f data cnt ctx)
  have "process_format_trailer e it (c # f) pkg data cnt ctx \<noteq> NoFuel"
    using item_row_scalar [OF 2(4), of "c # f" new_percent_esc]
    by (auto simp: process_format_trailer_def Let_def case_prod_unfold scalar_row_def run_bind_NoFuel)
  then show ?case using 2 by (auto simp: run_bind_NoFuel Let_def split: run.splits prod.splits)
qed simp

lemma handler_ends: "code < 70 \<Longrightarrow> fmt_handler (fmt ! code) e (iterate_item 1 e) data p \<noteq> NoFuel"
  using fmt_rows items_end fmt_length by (auto simp: scalar_row_def list_row_def) (metis nth_mem)

section \<open>The escapes of a format\<close>

text \<open>Whether every escape at the top level has a known code.\<close>

function known_format :: "string \<Rightarrow> bool" where
  "known_format [] = True"
| "known_format (c # f) =
     (if c = CHR ''%'' then
        (let (rest, p) = parse_format (c # f) PP_PKG new_percent_esc in pe_fmt_code p \<noteq> PP_UNKNOWN \<and> known_format rest)
      else if c = CHR 0x5C then known_format (snd (process_escape (c # f)))
      else known_format f)"
  by pat_completeness auto

termination known_format
proof (relation "measure length", goal_cases)
  case (2 c f x rest p)
  then have "rest = fst (parse_format (c # f) PP_PKG new_percent_esc)" by (metis fst_conv)
  then show ?case using parse_format_length [of "c # f"] by simp
next
  case (3 c f)
  then show ?case using process_escape_length [of "c # f"] by simp
qed simp_all

lemma handler_ok: "code < 69 \<Longrightarrow> fmt_handler (fmt ! code) e it data p = Ret (ok, t) \<Longrightarrow> ok"
proof -
  assume c: "code < 69" "fmt_handler (fmt ! code) e it data p = Ret (ok, t)"
  have "length (take 69 fmt) = 69" by (simp add: fmt_length)
  then have "take 69 fmt ! code \<in> set (take 69 fmt)" using c(1) by (intro nth_mem) simp
  then have "fmt ! code \<in> set (take 69 fmt)" using c(1) by (simp only: nth_take)
  then have "ok_row (fmt ! code)" by (rule bspec [OF fmt_rows_ok])
  then show ok using c(2) unfolding ok_row_def by (metis fst_conv)
qed

lemma known_main:
  assumes "c = CHR ''%''" "known_format (c # f)"
  shows "\<exists>fend p. parse_format (c # f) PP_PKG new_percent_esc = (fend, p) \<and> pe_fmt_code p < 69 \<and> known_format fend \<and> length fend \<le> length f"
proof -
  obtain fend p where pf: "parse_format (c # f) PP_PKG new_percent_esc = (fend, p)" by fastforce
  have "pe_fmt_code p < 70" using parse_format_row [of "c # f" PP_PKG new_percent_esc] pf by simp
  moreover have "pe_fmt_code p \<noteq> PP_UNKNOWN" "known_format fend" using assms pf by (simp_all add: known_format.simps(2) [of c f])
  moreover have "length fend \<le> length f" using parse_format_length [of "c # f" PP_PKG new_percent_esc] pf by simp
  ultimately show ?thesis using pf by (auto simp: PP_UNKNOWN_def)
qed

lemma main_ends:
  assumes "code = pe_fmt_code p" "code < 70"
  shows "process_format_main e p fstart fend data \<noteq> NoFuel"
  using handler_ends [OF assms(2)] assms(1) by (auto simp: process_format_main_def run_bind_NoFuel)

lemma main_rest:
  assumes "process_format_main e p fstart fend data = Ret (t, rest)" "pe_fmt_code p < 69"
  shows "rest = fend"
  using assms(1) by (auto simp: process_format_main_def run_bind_eq_Ret dest: handler_ok [OF assms(2)] split: if_splits)

lemma known_ends: "known_format f \<Longrightarrow> length f < n \<Longrightarrow> pkg_sbuf_vprintf n e f args \<noteq> NoFuel"
proof (induction n arbitrary: f args)
  case (Suc n)
  show ?case
  proof (cases f)
    case (Cons c g)
    consider "c = CHR ''%''" | "c = CHR 0x5C" | "c \<noteq> CHR ''%''" "c \<noteq> CHR 0x5C" by blast
    then show ?thesis
    proof cases
      case 1
      obtain fend p where p: "parse_format (c # g) PP_PKG new_percent_esc = (fend, p)" "pe_fmt_code p < 69" "known_format fend"
        "length fend \<le> length g" using known_main [OF 1] Suc.prems(1) Cons by blast
      have ih: "pkg_sbuf_vprintf n e fend as \<noteq> NoFuel" for as using Suc.IH [OF p(3)] p(4) Suc.prems(2) Cons by simp
      have m: "process_format_main e p (c # g) fend data \<noteq> NoFuel" for data using main_ends [OF refl] p(2) by simp
      have "run_bind (process_format_main e p (c # g) fend data) (\<lambda>(t, rest). run_bind (pkg_sbuf_vprintf n e rest as) (\<lambda>s. Ret (t @ s))) \<noteq> NoFuel"
        for data as using m [of data] main_rest [OF _ p(2), of e "c # g" fend data] ih by (auto simp: run_bind_NoFuel)
      then show ?thesis using 1 p(1) Cons by (simp split: list.splits)
    next
      case 2
      have "length (snd (process_escape f)) < n" using process_escape_length [of f] Suc.prems(2) Cons by simp
      moreover have "known_format (snd (process_escape f))" using Suc.prems(1) 2 Cons by (simp add: known_format.simps(2) [of c g])
      ultimately show ?thesis using Suc.IH 2 Cons by (simp add: run_bind_NoFuel case_prod_unfold Let_def)
    next
      case 3
      then show ?thesis using Suc.IH [of g] Suc.prems Cons by (simp add: run_bind_NoFuel known_format.simps(2) [of c g])
    qed
  qed simp
qed simp

lemma unknown_never_returns: "\<not> known_format f \<Longrightarrow> pkg_sbuf_vprintf n e f args \<noteq> Ret s"
proof (induction n arbitrary: f args s)
  case (Suc n)
  show ?case
  proof (cases f)
    case (Cons c g)
    consider "c = CHR ''%''" | "c = CHR 0x5C" | "c \<noteq> CHR ''%''" "c \<noteq> CHR 0x5C" by blast
    then show ?thesis
    proof cases
      case 1
      obtain fend p where pf: "parse_format (c # g) PP_PKG new_percent_esc = (fend, p)" by fastforce
      have rest: "\<not> known_format rest" if "process_format_main e p (c # g) fend data = Ret (t, rest)" for data t rest
      proof (cases "pe_fmt_code p = PP_UNKNOWN")
        case True
        then have "rest = c # g" using that unknown_row by (simp add: process_format_main_def row_def format_unknown_def)
        then show ?thesis using Suc.prems Cons by simp
      next
        case False
        then have l: "pe_fmt_code p < 69" using parse_format_row [of "c # g" PP_PKG new_percent_esc] pf by (simp add: PP_UNKNOWN_def)
        show ?thesis using main_rest [OF that l] False Suc.prems 1 pf Cons by (simp add: known_format.simps(2) [of c g])
      qed
      have "run_bind (process_format_main e p (c # g) fend data) (\<lambda>(t, rest). run_bind (pkg_sbuf_vprintf n e rest as) (\<lambda>s. Ret (t @ s))) \<noteq> Ret s"
        for data as using rest Suc.IH by (auto simp: run_bind_eq_Ret)
      then show ?thesis using 1 pf Cons by (simp split: list.splits)
    next
      case 2
      then have "\<not> known_format (snd (process_escape f))" using Suc.prems Cons by (simp add: known_format.simps(2) [of c g])
      then show ?thesis using Suc.IH 2 Cons by (simp add: run_bind_eq_Ret case_prod_unfold Let_def)
    next
      case 3
      then show ?thesis using Suc.IH [of g] Suc.prems Cons by (simp add: run_bind_eq_Ret known_format.simps(2) [of c g])
    qed
  qed (use Suc.prems in simp)
qed simp

text \<open>
  C30: Printing ends, in at most as many rounds as the format has characters and one, when every escape at the top level of the format is known. Otherwise it never returns:
  the percent sign of an unknown escape is appended and read again, for ever, where the text of an item only skips it.
\<close>

theorem printf_ends:
  "if known_format f then pkg_sbuf_vprintf (Suc (length f)) e f args \<noteq> NoFuel else \<forall>n s. pkg_sbuf_vprintf n e f args \<noteq> Ret s"
  using known_ends unknown_never_returns by simp

section \<open>Texts\<close>

text \<open>A format that spells a text: plain characters, the escapes of single characters, and bytes in base 16 or 8.\<close>

inductive spells :: "string \<Rightarrow> string \<Rightarrow> bool" where
  "spells [] []"
| "spells f s \<Longrightarrow> c \<noteq> CHR ''%'' \<Longrightarrow> c \<noteq> CHR 0x5C \<Longrightarrow> spells (c # f) (c # s)"
| "spells f s \<Longrightarrow> (d, c) \<in> set simple_escapes \<Longrightarrow> spells (CHR 0x5C # d # f) (c # s)"
| "spells f s \<Longrightarrow> xdigit_value a = Some x \<Longrightarrow> xdigit_value b = Some y \<Longrightarrow> spells (CHR 0x5C # CHR ''x'' # a # b # f) (char_of (16 * x + y) # s)"
| "spells f s \<Longrightarrow> oct_digit a \<Longrightarrow> oct_digit b \<Longrightarrow> oct_digit c \<Longrightarrow> digit_val a < 4
    \<Longrightarrow> spells (CHR 0x5C # a # b # c # f) (char_of (nat (64 * digit_val a + 8 * digit_val b + digit_val c)) # s)"

lemma simple_escape: "(d, c) \<in> set simple_escapes \<Longrightarrow> process_escape (CHR 0x5C # d # f) = ([c], f)"
  by (auto simp: process_escape_def simple_escapes_def)

lemma simple_escape_fst: "d \<notin> fst ` set simple_escapes \<Longrightarrow> map_of simple_escapes d = None"
  by (simp add: map_of_eq_None_iff)

lemma hex_escape:
  "xdigit_value a = Some x \<Longrightarrow> xdigit_value b = Some y \<Longrightarrow> process_escape (CHR 0x5C # CHR ''x'' # a # b # f) = ([char_of (16 * x + y)], f)"
  by (simp add: process_escape_def simple_escapes_def maybe_read_hex_byte_def)

lemma oct_digit_bounds: "oct_digit c \<Longrightarrow> 0 \<le> digit_val c \<and> digit_val c \<le> 7"
  by (simp add: oct_digit_def digit_val_def)

lemma oct_not_simple: "oct_digit c \<Longrightarrow> map_of simple_escapes c = None \<and> c \<noteq> CHR ''x''"
proof -
  have "list_all (\<lambda>(d, _). \<not> oct_digit d) simple_escapes" "\<not> oct_digit CHR ''x''" by code_simp+
  then show "oct_digit c \<Longrightarrow> ?thesis" by (auto simp: map_of_eq_None_iff list_all_iff)
qed

lemma oct_escape:
  assumes "oct_digit a" "oct_digit b" "oct_digit c" "digit_val a < 4"
  shows "process_escape (CHR 0x5C # a # b # c # f) = ([char_of (nat (64 * digit_val a + 8 * digit_val b + digit_val c))], f)"
proof -
  note bounds = oct_digit_bounds [OF assms(1)] oct_digit_bounds [OF assms(2)] oct_digit_bounds [OF assms(3)]
  have a: "nat (digit_val a) < 4" using assms(4) by simp
  moreover have "nat (digit_val b) \<le> 7" using bounds by (simp add: nat_le_iff)
  ultimately have b: "nat (digit_val a) * 8 + nat (digit_val b) < 32" by linarith
  have stop: "read_oct 3 v f = (v, f)" for v by (cases f) simp_all
  have "read_oct 0 0 (a # b # c # f) = ((nat (digit_val a) * 8 + nat (digit_val b)) * 8 + nat (digit_val c), f)"
    using assms(1-3) a b stop by (simp add: numeral_3_eq_3)
  moreover have "(nat (digit_val a) * 8 + nat (digit_val b)) * 8 + nat (digit_val c) = nat (64 * digit_val a + 8 * digit_val b + digit_val c)"
    using bounds by (simp add: nat_add_distrib nat_mult_distrib)
  ultimately show ?thesis using oct_not_simple [OF assms(1)] assms(1) by (simp add: process_escape_def read_oct_byte_def)
qed

lemma vprintf_escape:
  "process_escape (CHR 0x5C # f) = (t, rest) \<Longrightarrow> pkg_sbuf_vprintf (Suc n) e (CHR 0x5C # f) args = run_bind (pkg_sbuf_vprintf n e rest args) (\<lambda>s. Ret (t @ s))"
  by simp

lemma spelled_vprintf: "spells f s \<Longrightarrow> length f < n \<Longrightarrow> pkg_sbuf_vprintf n e f args = Ret s"
proof (induction f s arbitrary: n rule: spells.induct)
  case 1
  then show ?case by (cases n) simp_all
next
  case (2 f s c)
  then show ?case by (cases n) simp_all
next
  case (3 f s d c)
  then show ?case by (cases n) (simp_all add: vprintf_escape [OF simple_escape [OF 3(2)]] del: pkg_sbuf_vprintf.simps(3))
next
  case (4 f s a x b y)
  then show ?case by (cases n) (simp_all add: vprintf_escape [OF hex_escape [OF 4(2,3)]] del: pkg_sbuf_vprintf.simps(3))
next
  case (5 f s a b c)
  then show ?case by (cases n) (simp_all add: vprintf_escape [OF oct_escape [OF 5(2-5)]] del: pkg_sbuf_vprintf.simps(3))
qed

lemma items_escape:
  "process_escape (CHR 0x5C # f) = (t, rest) \<Longrightarrow> items e it pkg (CHR 0x5C # f) data cnt ctx = run_bind (items e it pkg rest data cnt ctx) (\<lambda>s. Ret (t @ s))"
  by simp

lemma spelled_items: "spells f s \<Longrightarrow> items e it pkg f data cnt ctx = Ret s"
proof (induction f s rule: spells.induct)
  case (3 f s d c)
  then show ?case by (simp add: items_escape [OF simple_escape [OF 3(2)]] del: items.simps(2))
next
  case (4 f s a x b y)
  then show ?case by (simp add: items_escape [OF hex_escape [OF 4(2,3)]] del: items.simps(2))
next
  case (5 f s a b c)
  then show ?case by (simp add: items_escape [OF oct_escape [OF 5(2-5)]] del: items.simps(2))
qed simp_all

fun spell :: "string \<Rightarrow> string" where
  "spell [] = []"
| "spell (c # s) = (if c = CHR 0x5C then [CHR 0x5C, CHR 0x5C] else if c = CHR ''%'' then CHR 0x5C # ''x25'' else [c]) @ spell s"

lemma spells_spell: "spells (spell s) s"
proof (induction s)
  case (Cons c s)
  have p: "xdigit_value CHR ''2'' = Some 2" "xdigit_value CHR ''5'' = Some 5" "char_of (16 * 2 + 5 :: nat) = CHR ''%''" by code_simp+
  have "spells (CHR 0x5C # ''x25'' @ spell s) (CHR ''%'' # s)" using spells.intros(4) [OF Cons p(1,2)] p(3) by simp
  moreover have "spells (CHR 0x5C # CHR 0x5C # spell s) (CHR 0x5C # s)" using spells.intros(3) [OF Cons] by (simp add: simple_escapes_def)
  ultimately show ?case using spells.intros(2) [OF Cons] by simp
qed (simp add: spells.intros)

text \<open>
  C32: Every text can be printed: the format that writes its backslashes and percent signs as escapes is known, takes no argument and gives the text back.
\<close>

theorem text_roundtrip: "pkg_sbuf_vprintf (Suc (length (spell s))) e (spell s) args = Ret s"
  by (rule spelled_vprintf [OF spells_spell]) simp

section \<open>Lists\<close>

fun join :: "string \<Rightarrow> string list \<Rightarrow> string" where
  "join sep [] = []"
| "join sep [x] = x"
| "join sep (x # y # xs) = x @ sep @ join sep (y # xs)"

lemma join_cons: "join sep (x # xs) = x @ concat (map (\<lambda>y. sep @ y) xs)"
  by (induction xs arbitrary: x) simp_all

lemma until_end_append:
  "until_end ends t = None \<Longrightarrow> d \<in> set ends \<Longrightarrow> CHR ''%'' \<notin> set ends \<Longrightarrow> until_end ends (t @ CHR ''%'' # d # r) = Some (t, d, r)"
  by (induction ends t rule: until_end.induct) (auto split: if_splits)

lemma iterate_list_join:
  assumes "\<And>x n. it pkg (pe_item_fmt p) (a x) n ctx = Ret (t x)" "\<And>x n. it pkg (pe_sep_fmt p) (a x) n ctx = Ret s"
  shows "iterate_list it pkg p ctx 1 (map a xs) = Ret (join s (map t xs))"
proof -
  have more: "iterate_list it pkg p ctx n (map a xs) = Ret (concat (map (\<lambda>x. s @ t x) xs))" if "n > 1" for n xs
    using that assms by (induction xs arbitrary: n) simp_all
  show ?thesis by (cases xs) (simp_all add: assms more join_cons comp_def)
qed

lemma plain_string: "string_val e (Some s) new_percent_esc = (True, s)"
  by (simp add: string_val_def with_format_def gen_format_text printf_s_def pad_def new_percent_esc_def null_string_def without_def flag_text_def
    printf_flags_def Let_def)

lemma plain_code: "pe_flags p = 0 \<Longrightarrow> pe_width p = 0 \<Longrightarrow> string_val e (Some s) p = (True, s)"
  using plain_string [of e s] by (simp add: string_val_def new_percent_esc_def)

lemma item_parse:
  "parse_format (''%Fn'' @ r) PP_F new_percent_esc = (r, new_percent_esc\<lparr>pe_fmt_code := 16\<rparr>)"
  "parse_format (''%dn'' @ r) PP_d new_percent_esc = (r, new_percent_esc\<lparr>pe_fmt_code := 45\<rparr>)"
  "parse_format (''%dv'' @ r) PP_d new_percent_esc = (r, new_percent_esc\<lparr>pe_fmt_code := 47\<rparr>)"
  by (simp_all add: parse_format_def format_code_def fmt_def row_def modifier_def isdigit_def byte_def PP_PKG_def PP_A_def PP_B_def PP_C_def PP_D_def
    PP_F_def PP_G_def PP_L_def PP_O_def PP_U_def PP_b_def PP_d_def PP_r_def PP_ALL_def PP_TRAILER_def)

lemma list_parse:
  "find_code PP_PKG (''F%'' @ r) fmt 0 = Some (20, ''%'' @ r)"
  by (simp_all add: fmt_def row_def PP_PKG_def PP_A_def PP_B_def PP_C_def PP_D_def
    PP_F_def PP_G_def PP_L_def PP_O_def PP_U_def PP_b_def PP_d_def PP_r_def PP_ALL_def PP_TRAILER_def)

lemma fmt_nth:
  "fmt_handler (fmt ! 16) = format_file_path" "fmt_handler (fmt ! 20) = format_files" "fmt_handler (fmt ! 45) = format_dependency_name"
  "fmt_handler (fmt ! 47) = format_dependency_version" "fmt_handler (fmt ! 48) = format_dependencies"
  "fmt_has_trailer (fmt ! 20)" "fmt_has_trailer (fmt ! 48)" "\<not> fmt_struct_pkg (fmt ! 16)" "\<not> fmt_struct_pkg (fmt ! 45)" "\<not> fmt_struct_pkg (fmt ! 47)"
  by (simp_all add: fmt_def row_def)

lemma item_texts:
  "items e it pkg ''%Fn'' (A_file sf) n PP_F = Ret (sf_path sf)"
  "items e it pkg (''%dn-%dv'' @ [CHR 0x0A]) (A_dep dep) n PP_d = Ret (dep_name dep @ ''-'' @ dep_version dep @ [CHR 0x0A])"
proof -
  have c: "trailer_data pkg (A_file sf) n 16 = A_file sf" "trailer_data pkg (A_dep dep) n 45 = A_dep dep" "trailer_data pkg (A_dep dep) n 47 = A_dep dep"
    by (simp_all add: trailer_data_def PP_ROW_COUNTER_def PP_LAST_FORMAT_def fmt_nth)
  have s: "string_val e (Some s) (new_percent_esc\<lparr>pe_fmt_code := k\<rparr>) = (True, s)" for s k by (rule plain_code) (simp_all add: new_percent_esc_def)
  show "items e it pkg ''%Fn'' (A_file sf) n PP_F = Ret (sf_path sf)"
    using item_parse(1) [of "[]"] by (simp add: process_format_trailer_def fmt_nth c format_file_path_def with_file_def s)
  have n: "process_format_trailer e it (''%dn-%dv'' @ [CHR 0x0A]) pkg (A_dep dep) n PP_d = Ret (dep_name dep, ''-%dv'' @ [CHR 0x0A])"
    using item_parse(2) [of "''-%dv'' @ [CHR 0x0A]"] by (simp add: process_format_trailer_def fmt_nth c format_dependency_name_def with_dep_def s)
  have v: "process_format_trailer e it (''%dv'' @ [CHR 0x0A]) pkg (A_dep dep) n PP_d = Ret (dep_version dep, [CHR 0x0A])"
    using item_parse(3) [of "[CHR 0x0A]"] by (simp add: process_format_trailer_def fmt_nth c format_dependency_version_def with_dep_def s)
  show "items e it pkg (''%dn-%dv'' @ [CHR 0x0A]) (A_dep dep) n PP_d = Ret (dep_name dep @ ''-'' @ dep_version dep @ [CHR 0x0A])"
    using n v by simp
qed

lemma files_parse:
  assumes "until_end ''}'' sep = None"
  shows "parse_format (''%F%{%Fn%|'' @ sep @ ''%}'') PP_PKG new_percent_esc
    = ([], new_percent_esc\<lparr>pe_item_set := True, pe_sep_set := True, pe_item_fmt := ''%Fn'', pe_sep_fmt := sep, pe_fmt_code := 20\<rparr>)"
proof -
  let ?r = "''%{%Fn%|'' @ sep @ ''%}''"
  have f: "find_code PP_PKG (''F'' @ ?r) fmt 0 = Some (20, ?r)" using list_parse [of "''{%Fn%|'' @ sep @ ''%}''"] by simp
  have i: "until_end ''}|'' (drop 2 ?r) = Some (''%Fn'', CHR ''|'', sep @ ''%}'')" by simp
  have s: "until_end ''}'' (sep @ ''%}'') = Some (sep, CHR ''}'', [])" using until_end_append [OF assms, of "CHR ''}''" "[]"] by simp
  have t: "format_trailer ?r (new_percent_esc\<lparr>pe_fmt_code := 20\<rparr>)
      = ([], new_percent_esc\<lparr>pe_item_set := True, pe_sep_set := True, pe_item_fmt := ''%Fn'', pe_sep_fmt := sep, pe_fmt_code := 20\<rparr>)"
    unfolding format_trailer_def i Let_def by (simp add: s new_percent_esc_def)
  have "format_code (''F'' @ ?r) PP_PKG new_percent_esc = (?r, new_percent_esc\<lparr>pe_fmt_code := 20\<rparr>)"
    unfolding format_code_def f by simp
  then have "parse_format (''%F'' @ ?r) PP_PKG new_percent_esc = format_trailer ?r (new_percent_esc\<lparr>pe_fmt_code := 20\<rparr>)"
    by (simp add: parse_format_def modifier_def isdigit_def byte_def fmt_nth has_def PP_PKG_def) (simp add: new_percent_esc_def)
  then show ?thesis unfolding t by simp
qed

text \<open>
  A list of files with the path as text of the item and a separator prints the paths in the order of the package with the separator between them.
\<close>

theorem files_joined:
  assumes "spells sep t" "until_end ''}'' sep = None"
  shows "pkg_sbuf_vprintf 2 e (''%F%{%Fn%|'' @ sep @ ''%}'') [A_pkg pkg] = Ret (join t (map (\<lambda>(_, sf). sf_path sf) (pk_files pkg)))"
proof -
  let ?p = "new_percent_esc\<lparr>pe_item_set := True, pe_sep_set := True, pe_item_fmt := ''%Fn'', pe_sep_fmt := sep, pe_fmt_code := 20\<rparr>"
  have "iterate_list (iterate_item 1 e) pkg ?p PP_F 1 (map (A_file \<circ> snd) (pk_files pkg)) = Ret (join t (map (sf_path \<circ> snd) (pk_files pkg)))"
    by (rule iterate_list_join [where p = ?p and s = t]) (simp_all add: item_texts spelled_items [OF assms(1)] del: items.simps)
  then have "fmt_handler (fmt ! 20) e (iterate_item 1 e) (A_pkg pkg) ?p = Ret (True, join t (map (sf_path \<circ> snd) (pk_files pkg)))"
    unfolding fmt_nth by (simp add: format_files_def format_list_def set_list_defaults_def has_def new_percent_esc_def)
  then have "process_format_main e ?p fs [] (A_pkg pkg) = Ret (join t (map (sf_path \<circ> snd) (pk_files pkg)), [])" for fs
    by (simp add: process_format_main_def)
  then show ?thesis using files_parse [OF assms(2)] by (simp add: PP_LAST_FORMAT_def numeral_2_eq_2 comp_def case_prod_unfold)
qed

section \<open>Values\<close>

lemma flags_parse: "printf_flags (CHR ''%'' # flag_text fl @ CHR ''*'' # tail) = flag_text fl"
proof -
  have "set (flag_text fl) \<subseteq> set (CHR 0x27 # ''#-0+ '')" by (auto simp: flag_text_def)
  then have "takeWhile (\<lambda>c. c \<in> set (CHR 0x27 # ''#-0+ '')) (flag_text fl @ CHR ''*'' # tail) = flag_text fl"
    by (subst takeWhile_append2) auto
  then show ?thesis by (simp add: printf_flags_def)
qed

lemma flag_text_set:
  "CHR ''-'' \<in> set (flag_text fl) \<longleftrightarrow> bit fl 2" "CHR ''0'' \<in> set (flag_text fl) \<longleftrightarrow> bit fl 5 \<and> \<not> bit fl 2"
  "CHR ''+'' \<in> set (flag_text fl) \<longleftrightarrow> bit fl 3" "CHR '' '' \<in> set (flag_text fl) \<longleftrightarrow> bit fl 4 \<and> \<not> bit fl 3"
  "CHR 0x27 \<in> set (flag_text fl) \<longleftrightarrow> bit fl 6" "CHR ''#'' \<in> set (flag_text fl) \<longleftrightarrow> bit fl 1"
  by (auto simp: flag_text_def)

text \<open>A text in a field: the flags decide on which side and with what it is filled.\<close>

definition field :: "flags \<Rightarrow> 32 word \<Rightarrow> bool \<Rightarrow> string \<Rightarrow> string \<Rightarrow> string" where
  "field fl width zeros sign body =
     (let fill = replicate (nat \<bar>sint width\<bar> - length sign - length body)
      in if bit fl 2 \<or> sint width < 0 then sign @ body @ fill CHR '' ''
         else if zeros \<and> bit fl 5 then sign @ fill CHR ''0'' @ body
         else fill CHR '' '' @ sign @ body)"

lemma pad_field: "pad (flag_text fl) width zeros sign body = field fl width zeros sign body"
  by (auto simp: pad_def field_def Let_def flag_text_set)

lemma bit_without_string:
  "bit (without fl [PP_ALTERNATE_FORM1, PP_ALTERNATE_FORM2, PP_EXPLICIT_PLUS, PP_SPACE_FOR_PLUS, PP_THOUSANDS_SEP]) n
    \<longleftrightarrow> bit fl n \<and> n \<notin> {0, 1, 3, 4, 6}"
  by (auto simp: flag_simps)

lemma field_cong: "bit fl 2 = bit fm 2 \<Longrightarrow> bit fl 5 = bit fm 5 \<Longrightarrow> field fl w z s b = field fm w z s b"
  by (simp add: field_def Let_def)

text \<open>
  C31: Strings and plain numbers are printed as the flags of the escape say, through a format for \<open>printf\<close> that is generated and parsed again: it fits
  its buffer whatever the flags, left alignment overrides the zeros, an explicit plus overrides the space, and the signs, scales and
  separators have no effect on strings.
\<close>

theorem values_printed:
  "string_val e str p = (True, field (pe_flags p) (pe_width p) (pf_zero_strings e) [] (null_string str))
   \<and> int_val e n p =
      (if bit (pe_flags p) 0 \<or> bit (pe_flags p) 1 then human_number e n p
       else (True, field (pe_flags p) (pe_width p) True
         (if n < 0 then ''-'' else if bit (pe_flags p) 3 then ''+'' else if bit (pe_flags p) 4 then '' '' else [])
         ((if bit (pe_flags p) 6 then pf_group e else id) (show_nat (nat \<bar>n\<bar>)))))"
proof
  show "string_val e str p = (True, field (pe_flags p) (pe_width p) (pf_zero_strings e) [] (null_string str))"
    by (simp add: string_val_def with_format_def gen_format_text printf_s_def flags_parse pad_field)
      (rule field_cong; simp add: bit_without_string)
  show "int_val e n p =
      (if bit (pe_flags p) 0 \<or> bit (pe_flags p) 1 then human_number e n p
       else (True, field (pe_flags p) (pe_width p) True
         (if n < 0 then ''-'' else if bit (pe_flags p) 3 then ''+'' else if bit (pe_flags p) 4 then '' '' else [])
         ((if bit (pe_flags p) 6 then pf_group e else id) (show_nat (nat \<bar>n\<bar>)))))"
    by (auto simp: int_val_def flag_simps with_format_def gen_format_text printf_d_def flags_parse pad_field sign_text_def flag_text_set Let_def)
qed

section \<open>Human numbers\<close>

lemma round_half_even_bounds: "\<lfloor>q\<rfloor> \<le> round_half_even q" "round_half_even q \<le> \<lfloor>q\<rfloor> + 1"
  by (simp_all add: round_half_even_def Let_def)

lemma round_half_even_int [simp]: "round_half_even (of_int n) = n"
  by (simp add: round_half_even_def)

lemma round_half_even_mono: "q \<le> r \<Longrightarrow> round_half_even q \<le> round_half_even r"
proof (cases "\<lfloor>q\<rfloor> = \<lfloor>r\<rfloor>")
  case True
  then show "q \<le> r \<Longrightarrow> ?thesis" by (auto simp: round_half_even_def Let_def)
next
  case False
  assume "q \<le> r"
  then have "\<lfloor>q\<rfloor> + 1 \<le> \<lfloor>r\<rfloor>" using False floor_mono [of q r] by linarith
  then show ?thesis using round_half_even_bounds [of q] round_half_even_bounds [of r] by linarith
qed

lemma bits_bounds: "0 \<le> n \<Longrightarrow> n < 2 ^ bits n \<and> (0 < n \<longrightarrow> 2 ^ bits n \<le> 2 * n)"
proof (induction n rule: bits.induct)
  case (1 n)
  show ?case
  proof (cases "n = 0")
    case False
    then have "n div 2 < 2 ^ bits (n div 2) \<and> (0 < n div 2 \<longrightarrow> 2 ^ bits (n div 2) \<le> 2 * (n div 2))" using 1 by simp
    moreover have "bits (n div 2) = 0" if "n div 2 = 0" using that by (simp add: bits.simps)
    moreover have "bits n = Suc (bits (n div 2))" using False 1 by (subst bits.simps) simp
    ultimately show ?thesis using False 1(2) by auto
  qed (simp add: bits.simps)
qed

lemma bits_mono: "0 \<le> m \<Longrightarrow> m \<le> n \<Longrightarrow> bits m \<le> bits n"
proof (induction m arbitrary: n rule: bits.induct)
  case (1 m)
  show ?case
  proof (cases "m = 0")
    case False
    then have "bits (m div 2) \<le> bits (n div 2)" using 1 by (intro 1(1)) (auto simp: zdiv_mono1)
    then show ?thesis using False 1(2,3) by (subst (1 2) bits.simps) simp
  qed (simp add: bits.simps)
qed

lemma bits_pow: "bits (2 ^ k) = Suc k"
  by (induction k) (simp_all add: bits.simps)

lemma double_pow: "double (2 ^ k) = 2 ^ k"
proof -
  have f: "\<lfloor>2 ^ k :: rat\<rfloor> = 2 ^ k" using floor_of_int [of "2 ^ k", where 'a = rat] by simp
  have "(2 ^ k * 2 ^ 53 / 2 ^ Suc k :: rat) = of_int (2 ^ 52)" by (simp add: field_simps)
  then have "round_half_even (2 ^ k * 2 ^ 53 / 2 ^ Suc k) = 2 ^ 52" by (metis round_half_even_int)
  then show ?thesis by (simp add: double_def f bits_pow Let_def field_simps)
qed

lemma double_scaled: "double x = of_int (round_half_even (x * 2 ^ 53 / 2 ^ bits \<lfloor>x\<rfloor>)) * 2 ^ bits \<lfloor>x\<rfloor> / 2 ^ 53"
  by (simp add: double_def Let_def)

lemma double_upper:
  assumes "0 \<le> x"
  shows "double x \<le> 2 ^ bits \<lfloor>x\<rfloor>"
proof -
  let ?b = "bits \<lfloor>x\<rfloor>"
  have "\<lfloor>x\<rfloor> < 2 ^ ?b" using bits_bounds [of "\<lfloor>x\<rfloor>"] assms by simp
  then have "x < 2 ^ ?b" by (simp add: floor_less_iff)
  then have "x * 2 ^ 53 / 2 ^ ?b \<le> of_int (2 ^ 53)" by (simp add: field_simps)
  then have "round_half_even (x * 2 ^ 53 / 2 ^ ?b) \<le> 2 ^ 53" by (metis round_half_even_int round_half_even_mono)
  then have "(of_int (round_half_even (x * 2 ^ 53 / 2 ^ ?b)) :: rat) \<le> of_int (2 ^ 53)" by (simp only: of_int_le_iff)
  then have "of_int (round_half_even (x * 2 ^ 53 / 2 ^ ?b)) * 2 ^ ?b / 2 ^ 53 \<le> (of_int (2 ^ 53) * 2 ^ ?b / 2 ^ 53 :: rat)"
    by (intro divide_right_mono mult_right_mono) simp_all
  then show ?thesis unfolding double_scaled [of x] by simp
qed

lemma double_lower:
  assumes "1 \<le> x"
  shows "2 ^ bits \<lfloor>x\<rfloor> \<le> 2 * double x"
proof -
  let ?b = "bits \<lfloor>x\<rfloor>"
  have "2 ^ ?b \<le> 2 * \<lfloor>x\<rfloor>" using bits_bounds [of "\<lfloor>x\<rfloor>"] assms by simp
  then have "(of_int (2 ^ ?b) :: rat) \<le> of_int (2 * \<lfloor>x\<rfloor>)" by (simp only: of_int_le_iff)
  also have "\<dots> \<le> 2 * x" using of_int_floor_le [of x] by simp
  finally have "2 ^ ?b \<le> 2 * x" by simp
  then have "of_int (2 ^ 52) \<le> x * 2 ^ 53 / 2 ^ ?b" by (simp add: field_simps)
  then have "2 ^ 52 \<le> round_half_even (x * 2 ^ 53 / 2 ^ ?b)" by (metis round_half_even_int round_half_even_mono)
  then have "(of_int (2 ^ 52) :: rat) \<le> of_int (round_half_even (x * 2 ^ 53 / 2 ^ ?b))" by (simp only: of_int_le_iff)
  then have "of_int (2 ^ 52) * 2 ^ ?b / 2 ^ 53 \<le> (of_int (round_half_even (x * 2 ^ 53 / 2 ^ ?b)) * 2 ^ ?b / 2 ^ 53 :: rat)"
    by (intro divide_right_mono mult_right_mono) simp_all
  then show ?thesis unfolding double_scaled [of x] by simp
qed

lemma double_mono:
  assumes "0 \<le> x" "x \<le> y"
  shows "double x \<le> double y"
proof (cases "bits \<lfloor>x\<rfloor> = bits \<lfloor>y\<rfloor>")
  case True
  have "x * 2 ^ 53 / 2 ^ bits \<lfloor>y\<rfloor> \<le> y * 2 ^ 53 / 2 ^ bits \<lfloor>y\<rfloor>" using assms(2) by (intro divide_right_mono mult_right_mono) simp_all
  then have "round_half_even (x * 2 ^ 53 / 2 ^ bits \<lfloor>y\<rfloor>) \<le> round_half_even (y * 2 ^ 53 / 2 ^ bits \<lfloor>y\<rfloor>)" by (rule round_half_even_mono)
  then show ?thesis unfolding double_scaled [of x] double_scaled [of y] True
    by (intro divide_right_mono mult_right_mono) (simp_all only: of_int_le_iff, simp_all)
next
  case False
  have "bits \<lfloor>x\<rfloor> \<le> bits \<lfloor>y\<rfloor>" using assms by (intro bits_mono) (simp_all add: floor_mono)
  then have less: "Suc (bits \<lfloor>x\<rfloor>) \<le> bits \<lfloor>y\<rfloor>" using False by simp
  then have "\<lfloor>y\<rfloor> \<noteq> 0" by (auto simp: bits.simps [of 0])
  then have y: "1 \<le> y" using assms by (metis floor_less_one linorder_not_le order.trans zero_le_floor zle_iff_zadd zless_add1_eq add_0 order_le_less)
  have "2 * double x \<le> 2 ^ Suc (bits \<lfloor>x\<rfloor>)" using double_upper [OF assms(1)] by simp
  also have "\<dots> \<le> (2 :: rat) ^ bits \<lfloor>y\<rfloor>" by (rule power_increasing [OF less]) simp
  also have "\<dots> \<le> 2 * double y" by (rule double_lower [OF y])
  finally show ?thesis by simp
qed

lemma scale_step:
  assumes "num \<le> 2 ^ (n + 9)" "512 \<le> d" "of_int d \<le> num"
  shows "double (num / of_int d) \<le> 2 ^ n" "1 \<le> double (num / of_int d)"
proof -
  have d: "(512 :: rat) \<le> of_int d" using assms(2) by linarith
  have "num / of_int d \<le> 2 ^ (n + 9) / 512" using assms(1) d assms(3) by (intro frac_le) simp_all
  then have "num / of_int d \<le> 2 ^ n" by (simp add: power_add)
  moreover have "0 \<le> num / of_int d" using assms(3) d by simp
  ultimately show "double (num / of_int d) \<le> 2 ^ n" using double_mono double_pow [of n] by metis
  have "1 \<le> num / of_int d" using assms(3) d by simp
  then show "1 \<le> double (num / of_int d)" using double_mono [of 1 "num / of_int d"] double_pow [of 0] by simp
qed

lemma scale_bounds:
  assumes "num \<le> 2 ^ (9 * Suc m)" "512 < d" "scale_number d (Suc m) k num = (s, x)"
  shows "s \<le> k + m \<and> x < of_int d \<and> (1 \<le> num \<or> k < s \<longrightarrow> 1 \<le> x)"
  using assms(1,3)
proof (induction m arbitrary: k num)
  case 0
  have "(512 :: rat) < of_int d" using assms(2) by linarith
  then show ?case using 0 by simp
next
  case (Suc m)
  show ?case
  proof (cases "num < of_int d")
    case True
    then show ?thesis using Suc.prems(2) by auto
  next
    case False
    have "num \<le> 2 ^ (9 * Suc m + 9)" using Suc.prems(1) by (simp add: algebra_simps)
    then have y: "double (num / of_int d) \<le> 2 ^ (9 * Suc m)" "1 \<le> double (num / of_int d)"
      using scale_step [of num "9 * Suc m" d] False assms(2) by simp_all
    have "scale_number d (Suc m) (Suc k) (double (num / of_int d)) = (s, x)"
      using Suc.prems(2) False by (subst (asm) scale_number.simps(2)) (simp only: if_False)
    then have "s \<le> Suc k + m \<and> x < of_int d \<and> (1 \<le> double (num / of_int d) \<or> Suc k < s \<longrightarrow> 1 \<le> x)" by (rule Suc.IH [OF y(1)])
    then show ?thesis using y(2) by auto
  qed
qed

lemma magnitude_bound:
  assumes "- (2 ^ 63) \<le> number" "number < 2 ^ 63"
  shows "magnitude number \<le> 2 ^ 63"
proof -
  have pos: "double (of_int n) \<le> 2 ^ 63" if "0 \<le> n" "n < 2 ^ 63" for n
  proof -
    have "(of_int n :: rat) \<le> of_int (2 ^ 63)" using that(2) by (simp only: of_int_le_iff)
    then show ?thesis using double_mono [of "of_int n" "2 ^ 63"] double_pow [of 63] that(1) by simp
  qed
  show ?thesis
  proof (cases "0 \<le> number")
    case True
    then show ?thesis using pos [OF True assms(2)] by (simp add: magnitude_def)
  next
    case False
    show ?thesis
    proof (cases "number = - (2 ^ 63)")
      case True
      have "magnitude (- (2 ^ 63)) \<le> 2 ^ 63" by code_simp
      then show ?thesis using True by simp
    next
      case no: False
      have "sint (of_int (- number) :: 64 word) = signed_take_bit 63 (- number)" by (simp only: signed_of_int) simp
      also have "\<dots> = - number" using False no assms by (intro signed_take_bit_int_eq_self) simp_all
      finally have "sint (of_int (- number) :: 64 word) = - number" .
      then show ?thesis using pos [of "- number"] False no assms by (simp add: magnitude_def)
    qed
  qed
qed

text \<open>
  Every number of 64 bits is scaled, in both systems, to one of the seven prefixes, so the tables of prefixes are not left. The scaled number, before it is
  rounded for the output, is below one step of the scale, and at least 1 when there is a prefix. This is with every division rounded to
  a \<open>double\<close>. What is printed can be the step itself, as in 1000k for 999999; and the magnitude of the smallest number of 64 bits is
  negative, so that one is not scaled.
\<close>

theorem human_scale:
  assumes "- (2 ^ 63) \<le> number" "number < 2 ^ 63" "divisor = 1000 \<or> divisor = 1024" "scale_number divisor 7 0 (magnitude number) = (scale, num)"
  shows "scale < 7 \<and> num < of_int divisor \<and> (scale > 0 \<longrightarrow> 1 \<le> num)"
  using scale_bounds [of "magnitude number" 6 divisor 0 scale num] magnitude_bound [OF assms(1,2)] assms(3,4) by auto

theorem human_scale_witness: "scale_number 1024 7 0 (magnitude 2048) = (1, 2) \<and> (1 :: nat) < 7 \<and> (2 :: rat) < of_int 1024"
proof -
  have s: "scale_number 1024 7 0 (magnitude 2048) = (1, 2)" by code_simp
  then show ?thesis using human_scale [of 2048 1024 1 2] by simp
qed

section \<open>The header of a script\<close>

lemma name_parse:
  assumes "take 1 r \<noteq> [CHR 0x00]"
  shows "parse_format (''%n'' @ r) PP_PKG new_percent_esc = (r, new_percent_esc\<lparr>pe_fmt_code := 53\<rparr>)"
  "parse_format (''%v'' @ r) PP_PKG new_percent_esc = (r, new_percent_esc\<lparr>pe_fmt_code := 65\<rparr>)"
  using assms by - (cases r; simp add: parse_format_def format_code_def fmt_def row_def modifier_def isdigit_def byte_def PP_PKG_def PP_A_def PP_B_def PP_C_def PP_D_def
    PP_F_def PP_G_def PP_L_def PP_O_def PP_U_def PP_b_def PP_d_def PP_r_def PP_ALL_def PP_TRAILER_def)+

lemma name_handlers: "fmt_handler (fmt ! 53) = format_name" "fmt_handler (fmt ! 65) = format_version"
  by (simp_all add: fmt_def row_def)

lemma string_val_plain: "pe_flags p = 0 \<Longrightarrow> pe_width p = 0 \<Longrightarrow> string_val e str p = (True, null_string str)"
  using plain_code [of p e "null_string str"] by (simp add: string_val_def printf_s_def null_string_def)

lemma vprintf_name:
  assumes "take 1 r \<noteq> [CHR 0x00]"
  shows "pkg_sbuf_vprintf (Suc n) e (''%n'' @ r) (A_pkg pkg # args)
    = run_bind (pkg_sbuf_vprintf n e r args) (\<lambda>s. Ret (null_string (pkg_get_string pkg PKG_NAME) @ s))"
  "pkg_sbuf_vprintf (Suc n) e (''%v'' @ r) (A_pkg pkg # args)
    = run_bind (pkg_sbuf_vprintf n e r args) (\<lambda>s. Ret (null_string (pkg_get_string pkg PKG_VERSION) @ s))"
  using name_parse [OF assms]
  by (simp_all add: process_format_main_def name_handlers format_name_def format_version_def with_pkg_def PP_LAST_FORMAT_def)
    (simp_all add: string_val_plain new_percent_esc_def)

text \<open>
  What theory Install puts in front of a script is what \<open>pkg_sbuf_printf\<close> prints for the format of the source.
\<close>

theorem script_header_printed:
  "run_bind (pkg_sbuf_printf 12 pe ''set -- %n-%v'' [A_pkg pkg, A_pkg pkg])
     (\<lambda>s. Ret ((if in_debug_scripts e then ''set -x'' @ [CHR 0x0A] else []) @ s @ arg @ [CHR 0x0A])) = Ret (script_cmd e pkg arg)"
proof -
  have "pkg_sbuf_vprintf 12 pe ''set -- %n-%v'' [A_pkg pkg, A_pkg pkg]
    = Ret (''set -- '' @ null_string (pkg_get_string pkg PKG_NAME) @ ''-'' @ null_string (pkg_get_string pkg PKG_VERSION))"
    using vprintf_name(1) [where n = 4 and e = pe and r = "''-%v''" and pkg = pkg and args = "[A_pkg pkg]"] vprintf_name(2) [where n = 2 and e = pe and r = "[]" and pkg = pkg and args = "[]"]
    by (simp add: eval_nat_numeral del: pkg_sbuf_vprintf.simps(3)) (simp add: pkg_sbuf_vprintf.simps(3))
  then show ?thesis by (simp add: pkg_sbuf_printf_def script_cmd_def)
qed

definition demo_printf :: printf_env where
  "demo_printf = \<lparr>pf_zero_strings = False, pf_group = (\<lambda>s. s), pf_strmode = (\<lambda>_. ''?''), pf_strftime = (\<lambda>f _. f)\<rparr>"

theorem files_joined_witness:
  "pkg_sbuf_vprintf 2 demo_printf (''%F%{%Fn%|'' @ '', '' @ ''%}'') [A_pkg full_pkg]
    = Ret (join '', '' (map (\<lambda>(_, sf). sf_path sf) (pk_files full_pkg)))"
  by (rule files_joined) (simp_all add: spells.intros)

end
