(* ===== verification/Query.thy ===== *)
theory Query
  imports Printf
begin

text \<open>
  Queries, \<open>src/query.c\<close> and the table of \<open>src/rquery.c\<close>: the check of a query, the lines it prints of a package with the formats of theory
  Printf, and the translation of a condition to SQL. Messages are not modelled; the database is a parameter.
\<close>

section \<open>Printing\<close>

text \<open>A pointer to the text is the rest of it. \<open>Crash\<close> is a pointer behind the end.\<close>

definition query_printf :: "printf_env \<Rightarrow> string \<Rightarrow> arg \<Rightarrow> string run" where
  "query_printf e format data = pkg_sbuf_printf (Suc (length format)) e format [data]"

text \<open>The letters that print of the package, those that print of the item of the line, and those that take a second letter.\<close>

definition pkg_letters :: "(char \<times> string) list" where
  "pkg_letters = [(CHR ''n'', ''%n''), (CHR ''v'', ''%v''), (CHR ''o'', ''%o''), (CHR ''R'', ''%N''), (CHR ''p'', ''%p''), (CHR ''m'', ''%m''),
     (CHR ''c'', ''%c''), (CHR ''w'', ''%w''), (CHR ''t'', ''%t''), (CHR ''e'', ''%e''), (CHR ''q'', ''%q''), (CHR ''l'', ''%l'')]"

definition item_letters :: "(char \<times> string) list" where
  "item_letters = [(CHR ''C'', ''%Cn''), (CHR ''D'', ''%Dn''), (CHR ''L'', ''%Ln''), (CHR ''U'', ''%Un''), (CHR ''G'', ''%Gn''),
     (CHR ''B'', ''%Bn''), (CHR ''b'', ''%bn'')]"

definition count_letters :: string where
  "count_letters = ''drCFODLUGBbA''"

definition pkg_pairs :: "(char \<times> (char \<times> string) list) list" where
  "pkg_pairs = [(CHR ''s'', [(CHR ''h'', ''%?sB''), (CHR ''b'', ''%s'')]),
     (CHR ''?'', map (\<lambda>c. (c, ''%?'' @ [c])) count_letters), (CHR ''#'', map (\<lambda>c. (c, ''%#'' @ [c])) count_letters)]"

definition item_pairs :: "(char \<times> (char \<times> string) list) list" where
  "item_pairs = [(CHR ''d'', [(CHR ''n'', ''%dn''), (CHR ''o'', ''%do''), (CHR ''v'', ''%dv'')]),
     (CHR ''r'', [(CHR ''n'', ''%rn''), (CHR ''o'', ''%ro''), (CHR ''v'', ''%rv'')]),
     (CHR ''F'', [(CHR ''p'', ''%Fn''), (CHR ''s'', ''%Fs'')]),
     (CHR ''O'', [(CHR ''k'', ''%On''), (CHR ''v'', ''%Ov''), (CHR ''d'', ''%Od''), (CHR ''D'', ''%OD'')]),
     (CHR ''A'', [(CHR ''t'', ''%An''), (CHR ''v'', ''%Av'')])]"

definition query_escapes :: "(char \<times> char) list" where
  "query_escapes = [(CHR ''n'', CHR 0x0A), (CHR ''a'', CHR 0x07), (CHR ''b'', CHR 0x08), (CHR ''f'', CHR 0x0C), (CHR ''r'', CHR 0x0D),
     (CHR 0x5C, CHR 0x5C), (CHR ''t'', CHR 0x09)]"

definition pkg_has_message :: "struct_pkg \<Rightarrow> bool" where
  "pkg_has_message pkg \<longleftrightarrow> pkg_get_string pkg PKG_MESSAGE \<noteq> None"

definition bit_text :: "bool \<Rightarrow> string" where
  "bit_text b = (if b then ''1'' else ''0'')"

definition one_letter :: "printf_env \<Rightarrow> struct_pkg \<Rightarrow> arg \<Rightarrow> char \<Rightarrow> string run" where
  "one_letter e pkg data d =
     (case map_of pkg_letters d of
        Some format \<Rightarrow> query_printf e format (A_pkg pkg)
      | None \<Rightarrow>
          (case map_of item_letters d of
             Some format \<Rightarrow> query_printf e format data
           | None \<Rightarrow>
               if d = CHR ''a'' then Ret (bit_text (pkg_get_bool pkg PKG_AUTOMATIC))
               else if d = CHR ''k'' then Ret (bit_text (pkg_get_bool pkg PKG_LOCKED))
               else if d = CHR ''M'' then (if pkg_has_message pkg then query_printf e ''%M'' (A_pkg pkg) else Ret [])
               else if d = CHR ''%'' then Ret ''%'' else Ret []))"

definition two_letters :: "printf_env \<Rightarrow> struct_pkg \<Rightarrow> arg \<Rightarrow> char \<Rightarrow> char \<Rightarrow> string run" where
  "two_letters e pkg data d x =
     (case map_of pkg_pairs d of
        Some fs \<Rightarrow> (case map_of fs x of None \<Rightarrow> Ret [] | Some format \<Rightarrow> query_printf e format (A_pkg pkg))
      | None \<Rightarrow>
          (case map_of item_pairs d of
             None \<Rightarrow> Ret []
           | Some fs \<Rightarrow> (case map_of fs x of None \<Rightarrow> Ret [] | Some format \<Rightarrow> query_printf e format data)))"

definition has_pair :: "char \<Rightarrow> bool" where
  "has_pair d \<longleftrightarrow> d \<in> fst ` set pkg_pairs \<or> d \<in> fst ` set item_pairs"

fun format_str :: "printf_env \<Rightarrow> struct_pkg \<Rightarrow> arg \<Rightarrow> string \<Rightarrow> string run" where
  "format_str e pkg data [] = Ret []"
| "format_str e pkg data [c] = (if c = CHR ''%'' \<or> c = CHR 0x5C then Crash else Ret [c])"
| "format_str e pkg data (c # d # q) =
     (if c = CHR ''%'' then
        (if has_pair d then
           (case q of
              [] \<Rightarrow> Crash
            | x # q \<Rightarrow> run_bind (two_letters e pkg data d x) (\<lambda>t. run_bind (format_str e pkg data q) (\<lambda>s. Ret (t @ s))))
         else run_bind (one_letter e pkg data d) (\<lambda>t. run_bind (format_str e pkg data q) (\<lambda>s. Ret (t @ s))))
      else if c = CHR 0x5C then
        run_bind (format_str e pkg data q) (\<lambda>s. Ret ((case map_of query_escapes d of None \<Rightarrow> [] | Some x \<Rightarrow> [x]) @ s))
      else run_bind (format_str e pkg data (d # q)) (\<lambda>s. Ret (c # s)))"

text \<open>The items of the lines; without a letter for a list there is one line without an item. The letter is 0 when there is none.\<close>

definition query_items :: "struct_pkg \<Rightarrow> char \<Rightarrow> arg list" where
  "query_items pkg multiline =
     (if multiline = CHR ''d'' then map (A_dep \<circ> snd) (pk_deps pkg)
      else if multiline = CHR ''r'' then map (A_dep \<circ> snd) (pk_rdeps pkg)
      else if multiline = CHR ''C'' then map A_object (pkg_object_iterate (pkg_get pkg PKG_CATEGORIES))
      else if multiline = CHR ''O'' then map (A_option \<circ> snd) (pk_options pkg)
      else if multiline = CHR ''F'' then map (A_file \<circ> snd) (pk_files pkg)
      else if multiline = CHR ''D'' then map (A_dir \<circ> snd) (pk_dirs pkg)
      else if multiline = CHR ''L'' then map A_object (pkg_object_iterate (pkg_get pkg PKG_LICENSES))
      else if multiline = CHR ''U'' then map (A_user \<circ> snd) (pk_users pkg)
      else if multiline = CHR ''G'' then map (A_group \<circ> snd) (pk_groups pkg)
      else if multiline = CHR ''B'' then map A_shlib (pk_shlibs_required pkg)
      else if multiline = CHR ''b'' then map A_shlib (pk_shlibs_provided pkg)
      else if multiline = CHR ''A'' then map A_object (pkg_object_iterate (pkg_get pkg PKG_ANNOTATIONS))
      else [A_null])"

fun print_items :: "printf_env \<Rightarrow> struct_pkg \<Rightarrow> string \<Rightarrow> arg list \<Rightarrow> string list run" where
  "print_items e pkg qstr [] = Ret []"
| "print_items e pkg qstr (x # xs) =
     run_bind (format_str e pkg x qstr) (\<lambda>s. run_bind (print_items e pkg qstr xs) (\<lambda>r. Ret (sbuf_data s # r)))"

definition print_query :: "printf_env \<Rightarrow> struct_pkg \<Rightarrow> string \<Rightarrow> char \<Rightarrow> string list run" where
  "print_query e pkg qstr multiline = print_items e pkg qstr (query_items pkg multiline)"

section \<open>Checking a query\<close>

record query_flags =
  qf_flag :: char
  qf_options :: string
  qf_multiline :: bool
  qf_dbflags :: pkg_load

definition qf :: "char \<Rightarrow> string \<Rightarrow> bool \<Rightarrow> pkg_load \<Rightarrow> query_flags" where
  "qf c opts m l = \<lparr>qf_flag = c, qf_options = opts, qf_multiline = m, qf_dbflags = l\<rparr>"

definition accepted_query_flags :: "query_flags list" where
  "accepted_query_flags = [
     qf (CHR ''d'') ''nov'' True PKG_LOAD_DEPS, qf (CHR ''r'') ''nov'' True PKG_LOAD_RDEPS, qf (CHR ''C'') [] True PKG_LOAD_CATEGORIES,
     qf (CHR ''F'') ''ps'' True PKG_LOAD_FILES, qf (CHR ''O'') ''kvdD'' True PKG_LOAD_OPTIONS, qf (CHR ''D'') [] True PKG_LOAD_DIRS,
     qf (CHR ''L'') [] True PKG_LOAD_LICENSES, qf (CHR ''U'') [] True PKG_LOAD_USERS, qf (CHR ''G'') [] True PKG_LOAD_GROUPS,
     qf (CHR ''B'') [] True PKG_LOAD_SHLIBS_REQUIRED, qf (CHR ''b'') [] True PKG_LOAD_SHLIBS_PROVIDED,
     qf (CHR ''A'') ''tv'' True PKG_LOAD_ANNOTATIONS, qf (CHR ''?'') ''drCFODLUGBbA'' True PKG_LOAD_BASIC,
     qf (CHR ''#'') ''drCFODLUGBbA'' True PKG_LOAD_BASIC, qf (CHR ''s'') ''hb'' False PKG_LOAD_BASIC, qf (CHR ''n'') [] False PKG_LOAD_BASIC,
     qf (CHR ''v'') [] False PKG_LOAD_BASIC, qf (CHR ''o'') [] False PKG_LOAD_BASIC, qf (CHR ''p'') [] False PKG_LOAD_BASIC,
     qf (CHR ''m'') [] False PKG_LOAD_BASIC, qf (CHR ''c'') [] False PKG_LOAD_BASIC, qf (CHR ''e'') [] False PKG_LOAD_BASIC,
     qf (CHR ''w'') [] False PKG_LOAD_BASIC, qf (CHR ''l'') [] False PKG_LOAD_BASIC, qf (CHR ''q'') [] False PKG_LOAD_BASIC,
     qf (CHR ''a'') [] False PKG_LOAD_BASIC, qf (CHR ''k'') [] False PKG_LOAD_BASIC, qf (CHR ''M'') [] False PKG_LOAD_BASIC,
     qf (CHR ''t'') [] False PKG_LOAD_BASIC, qf (CHR ''R'') [] False PKG_LOAD_ANNOTATIONS]"

definition accepted_rquery_flags :: "query_flags list" where
  "accepted_rquery_flags = [
     qf (CHR ''d'') ''nov'' True PKG_LOAD_DEPS, qf (CHR ''r'') ''nov'' True PKG_LOAD_RDEPS, qf (CHR ''C'') [] True PKG_LOAD_CATEGORIES,
     qf (CHR ''O'') ''kvdD'' True PKG_LOAD_OPTIONS, qf (CHR ''L'') [] True PKG_LOAD_LICENSES, qf (CHR ''B'') [] True PKG_LOAD_SHLIBS_REQUIRED,
     qf (CHR ''b'') [] True PKG_LOAD_SHLIBS_PROVIDED, qf (CHR ''A'') ''tv'' True PKG_LOAD_ANNOTATIONS,
     qf (CHR ''?'') ''drCOLBbA'' True PKG_LOAD_BASIC, qf (CHR ''#'') ''drCOLBbA'' True PKG_LOAD_BASIC, qf (CHR ''s'') ''hb'' False PKG_LOAD_BASIC,
     qf (CHR ''n'') [] False PKG_LOAD_BASIC, qf (CHR ''e'') [] False PKG_LOAD_BASIC, qf (CHR ''v'') [] False PKG_LOAD_BASIC,
     qf (CHR ''o'') [] False PKG_LOAD_BASIC, qf (CHR ''R'') [] False PKG_LOAD_BASIC, qf (CHR ''p'') [] False PKG_LOAD_BASIC,
     qf (CHR ''m'') [] False PKG_LOAD_BASIC, qf (CHR ''c'') [] False PKG_LOAD_BASIC, qf (CHR ''w'') [] False PKG_LOAD_BASIC,
     qf (CHR ''l'') [] False PKG_LOAD_BASIC, qf (CHR ''q'') [] False PKG_LOAD_BASIC, qf (CHR ''M'') [] False PKG_LOAD_BASIC]"

definition flag_row :: "query_flags list \<Rightarrow> char \<Rightarrow> query_flags option" where
  "flag_row rows c = find (\<lambda>r. qf_flag r = c) rows"

definition dbflags_of :: "query_flags list \<Rightarrow> query_flags \<Rightarrow> char \<Rightarrow> pkg_load list" where
  \<comment> \<open>\<open>x\<close> is the second letter\<close>
  "dbflags_of rows r x =
     (if qf_flag r = CHR ''?'' \<or> qf_flag r = CHR ''#'' then (case flag_row rows x of None \<Rightarrow> [] | Some k \<Rightarrow> [qf_dbflags k]) else [qf_dbflags r])"

definition next_multiline :: "query_flags \<Rightarrow> char \<Rightarrow> char option" where
  "next_multiline r multiline =
     (if \<not> qf_multiline r then Some multiline
      else if multiline \<noteq> CHR 0x00 \<and> multiline \<noteq> qf_flag r then None else Some (qf_flag r))"

text \<open>The loop; the flags are collected in a list.\<close>

fun analyse_loop :: "query_flags list \<Rightarrow> pkg_load list \<Rightarrow> char \<Rightarrow> string \<Rightarrow> (pkg_load list \<times> char) option" where
  "analyse_loop rows fl m [] = Some (fl, m)"
| "analyse_loop rows fl m [c] = (if c = CHR ''%'' then None else Some (fl, m))"
| "analyse_loop rows fl m (c # d # q) =
     (if c \<noteq> CHR ''%'' then analyse_loop rows fl m (d # q)
      else case flag_row rows d of
        None \<Rightarrow> None
      | Some r \<Rightarrow>
          if qf_options r = [] then
            (case next_multiline r m of None \<Rightarrow> None | Some m \<Rightarrow> analyse_loop rows (fl @ dbflags_of rows r (CHR 0x00)) m q)
          else
            (case q of
               [] \<Rightarrow> None
             | x # q \<Rightarrow>
                 if x \<notin> set (qf_options r) then None
                 else case next_multiline r m of None \<Rightarrow> None | Some m \<Rightarrow> analyse_loop rows (fl @ dbflags_of rows r x) m q))"

definition analyse_query_string :: "string \<Rightarrow> query_flags list \<Rightarrow> pkg_load list \<Rightarrow> char \<Rightarrow> epkg \<times> pkg_load list \<times> char" where
  "analyse_query_string qstr rows fl m =
     (if CHR ''%'' \<notin> set qstr then (EPKG_FATAL, fl, m)
      else case analyse_loop rows fl m qstr of None \<Rightarrow> (EPKG_FATAL, fl, m) | Some (fl, m) \<Rightarrow> (EPKG_OK, fl, m))"

section \<open>Conditions\<close>

datatype state_t =
    ST_NONE | NEXT_IS_INT | OPERATOR_INT | ST_INT | NEXT_IS_STRING | OPERATOR_STRING | ST_STRING | QUOTEDSTRING | SQUOTEDSTRING | POST_EXPR

text \<open>The letters of the columns, and whether they are for the local database only.\<close>

definition sql_columns :: "(char \<times> string \<times> state_t \<times> bool) list" where
  "sql_columns = [(CHR ''n'', ''name'', OPERATOR_STRING, False), (CHR ''o'', ''origin'', OPERATOR_STRING, False),
     (CHR ''p'', ''prefix'', OPERATOR_STRING, False), (CHR ''m'', ''maintainer'', OPERATOR_STRING, False),
     (CHR ''c'', ''comment'', OPERATOR_STRING, False), (CHR ''w'', ''www'', OPERATOR_STRING, False),
     (CHR ''s'', ''flatsize'', OPERATOR_INT, False), (CHR ''a'', ''automatic'', OPERATOR_INT, True),
     (CHR ''q'', ''arch'', OPERATOR_STRING, False), (CHR ''k'', ''locked'', OPERATOR_INT, True),
     (CHR ''M'', ''message'', OPERATOR_STRING, True), (CHR ''t'', ''time'', OPERATOR_INT, True), (CHR ''e'', ''desc'', OPERATOR_STRING, False)]"

definition sql_tables :: "(char \<times> string \<times> bool) list" where
  "sql_tables = [(CHR ''d'', ''deps AS d WHERE d.package_id=p.id'', False), (CHR ''r'', ''deps AS d WHERE d.origin=p.origin'', False),
     (CHR ''C'', ''pkg_categories AS d WHERE d.package_id=p.id'', False), (CHR ''F'', ''files AS d WHERE d.package_id=p.id'', True),
     (CHR ''O'', ''option JOIN pkg_option USING(option_id) AS d WHERE d.package_id=p.id'', False),
     (CHR ''D'', ''pkg_directories AS d WHERE d.package_id=p.id'', True), (CHR ''L'', ''pkg_licenses AS d WHERE d.package_id=p.id'', False),
     (CHR ''U'', ''pkg_users AS d WHERE d.package_id=p.id'', True), (CHR ''G'', ''pkg_groups AS d WHERE d.package_id=p.id'', True),
     (CHR ''B'', ''pkg_shlibs_required AS d WHERE d.package_id=p.id'', False),
     (CHR ''b'', ''pkg_shlibs_provided AS d WHERE d.package_id=p.id'', False),
     (CHR ''A'', ''pkg_annotation AS d WHERE d.package_id=p.id'', False)]"

definition sql_column :: "bool \<Rightarrow> string \<Rightarrow> (state_t \<times> string \<times> string) option" where
  \<comment> \<open>behind the percent sign: the next state, what is appended, and the rest\<close>
  "sql_column for_remote f =
     (case f of
        [] \<Rightarrow> None
      | d # f \<Rightarrow>
          (case map_of sql_columns d of
             Some (column, st, local) \<Rightarrow> if local \<and> for_remote then None else Some (st, column, f)
           | None \<Rightarrow>
               if d \<noteq> CHR ''#'' \<and> d \<noteq> CHR ''?'' then None
               else case f of
                 [] \<Rightarrow> None
               | k # f \<Rightarrow>
                   (let sqlop = (if k = CHR ''#'' then ''COUNT(*)'' else ''COUNT(*) > 0'')
                    in case map_of sql_tables k of
                         None \<Rightarrow> None
                       | Some (table, local) \<Rightarrow>
                           if local \<and> for_remote then None
                           else Some (OPERATOR_INT, ''(SELECT '' @ sqlop @ '' FROM '' @ table @ '')'', f))))"

definition is_blank :: "char \<Rightarrow> bool" where
  "is_blank c \<longleftrightarrow> c = CHR '' '' \<or> c = CHR 0x09"

text \<open>One round of the loop: the next state and level of brackets, what is appended, and the rest.\<close>

definition sql_step :: "bool \<Rightarrow> state_t \<Rightarrow> nat \<Rightarrow> char \<Rightarrow> string \<Rightarrow> (state_t \<times> nat \<times> string \<times> string) option" where
  "sql_step for_remote st lvl c f =
     (case st of
        ST_NONE \<Rightarrow>
          if c = CHR ''%'' then map_option (\<lambda>(st, t, f). (st, lvl, t, f)) (sql_column for_remote f)
          else if c = CHR ''('' then Some (ST_NONE, Suc lvl, [c], f)
          else if is_blank c then Some (ST_NONE, lvl, [], f) else None
      | POST_EXPR \<Rightarrow>
          if c = CHR '')'' then (if lvl = 0 then None else Some (POST_EXPR, lvl - 1, [c], f))
          else if is_blank c then Some (POST_EXPR, lvl, [], f)
          else if c = CHR ''|'' then (if take 1 f = ''|'' then Some (ST_NONE, lvl, '' OR '', tl f) else None)
          else if c = CHR ''&'' then (if take 1 f = ''&'' then Some (ST_NONE, lvl, '' AND '', tl f) else None)
          else None
      | ST_INT \<Rightarrow> if isdigit c then Some (ST_INT, lvl, [c], f) else Some (POST_EXPR, lvl, [], c # f)
      | NEXT_IS_INT \<Rightarrow> if isspace c then Some (st, lvl, [], f) else if isdigit c then Some (ST_INT, lvl, [c], f) else None
      | NEXT_IS_STRING \<Rightarrow>
          if isspace c then Some (st, lvl, [], f)
          else if c = CHR 0x22 then Some (QUOTEDSTRING, lvl, [CHR 0x27], f)
          else if c = CHR 0x27 then Some (SQUOTEDSTRING, lvl, [CHR 0x27], f)
          else Some (ST_STRING, lvl, [CHR 0x27], c # f)
      | _ \<Rightarrow>
          if st = OPERATOR_STRING \<or> st = OPERATOR_INT then
            (let next = (if st = OPERATOR_STRING then NEXT_IS_STRING else NEXT_IS_INT);
                 equals = (if take 1 f = ''='' then ([c, CHR ''=''], tl f) else ([c], f))
             in if isspace c then Some (st, lvl, [], f)
                else if c = CHR ''~'' then (if st \<noteq> OPERATOR_STRING then None else Some (NEXT_IS_STRING, lvl, '' GLOB '', f))
                else if c = CHR ''>'' \<or> c = CHR ''<'' then (if st \<noteq> OPERATOR_INT then None else Some (NEXT_IS_INT, lvl, equals))
                else if c = CHR ''='' then Some (next, lvl, equals)
                else if c = CHR ''!'' then (if take 1 f \<noteq> ''='' then None else Some (next, lvl, equals))
                else None)
          else if st = ST_STRING \<and> isspace c \<or> st = QUOTEDSTRING \<and> c = CHR 0x22 \<or> st = SQUOTEDSTRING \<and> c = CHR 0x27
          then Some (POST_EXPR, lvl, [CHR 0x27], f)
          else Some (st, lvl, c # (if c = CHR 0x27 \<or> c = CHR ''%'' \<and> for_remote then [c] else []), f))"

lemma sql_step_length:
  assumes "sql_step for_remote st lvl c f = Some (st', lvl', t, g)"
  shows "length g \<le> length f \<or> g = c # f \<and> (st = NEXT_IS_STRING \<and> st' = ST_STRING \<or> st = ST_INT \<and> st' = POST_EXPR)"
proof -
  have "length g \<le> length f" if "sql_column for_remote f = Some (x, y, g)" for x y g
    using that by (auto simp: sql_column_def Let_def split: list.splits option.splits if_splits)
  then show ?thesis using assms by (cases st) (auto simp: sql_step_def Let_def split: if_splits)
qed

function sql_loop :: "bool \<Rightarrow> state_t \<Rightarrow> nat \<Rightarrow> string \<Rightarrow> string \<Rightarrow> (state_t \<times> nat \<times> string) option" where
  "sql_loop for_remote st lvl sqlcond [] = Some (st, lvl, sqlcond)"
| "sql_loop for_remote st lvl sqlcond (c # f) =
     (case sql_step for_remote st lvl c f of
        None \<Rightarrow> None
      | Some (st, lvl, t, f) \<Rightarrow> sql_loop for_remote st lvl (sqlcond @ t) f)"
  by pat_completeness auto

termination
proof (relation "measure (\<lambda>(r, st, lvl, s, f). 2 * length f + (if st = NEXT_IS_STRING \<or> st = ST_INT then 1 else 0))", goal_cases)
  case (2 r st lvl s c f x st' y lvl' z t g)
  then show ?case using sql_step_length [of r st lvl c f st' lvl' t g] by auto
qed simp

definition format_sql_condition :: "string \<Rightarrow> bool \<Rightarrow> epkg \<times> string" where
  "format_sql_condition str for_remote =
     (case sql_loop for_remote ST_NONE 0 '' WHERE '' str of
        None \<Rightarrow> (EPKG_FATAL, [])
      | Some (st, lvl, sqlcond) \<Rightarrow>
          (let (st, sqlcond) = (if st = ST_STRING then (POST_EXPR, sqlcond @ [CHR 0x27]) else (st, sqlcond))
           in if st \<noteq> POST_EXPR \<and> st \<noteq> ST_INT \<or> lvl > 0 then (EPKG_FATAL, sqlcond) else (EPKG_OK, sqlcond)))"

section \<open>The SQL of a condition\<close>

text \<open>
  The grammar: a column is compared with a number or a text in quotes, in which every quote is doubled (and every percent sign, for a remote query);
  such terms are joined by \<open>OR\<close> and \<open>AND\<close> and put in brackets.
\<close>

definition column :: "bool \<Rightarrow> state_t \<Rightarrow> string \<Rightarrow> bool" where
  "column for_remote st t \<longleftrightarrow>
     (\<exists>k local. (k, t, st, local) \<in> set sql_columns \<and> \<not> (local \<and> for_remote))
     \<or> st = OPERATOR_INT \<and> (\<exists>k table local. (k, table, local) \<in> set sql_tables \<and> \<not> (local \<and> for_remote)
         \<and> t = ''(SELECT COUNT(*) > 0 FROM '' @ table @ '')'')"

definition doubled :: "bool \<Rightarrow> string \<Rightarrow> string" where
  "doubled for_remote s = concat (map (\<lambda>c. c # (if c = CHR 0x27 \<or> c = CHR ''%'' \<and> for_remote then [c] else [])) s)"

definition string_operators :: "string set" where
  "string_operators = {'' GLOB '', ''='', ''=='', ''!=''}"

definition int_operators :: "string set" where
  "int_operators = {''<'', ''<='', ''>'', ''>='', ''='', ''=='', ''!=''}"

inductive sql_expr :: "bool \<Rightarrow> string \<Rightarrow> bool" for for_remote where
  sql_text: "column for_remote OPERATOR_STRING col \<Longrightarrow> op \<in> string_operators
    \<Longrightarrow> sql_expr for_remote (col @ op @ CHR 0x27 # doubled for_remote s @ [CHR 0x27])"
| sql_number: "column for_remote OPERATOR_INT col \<Longrightarrow> op \<in> int_operators \<Longrightarrow> n \<noteq> [] \<Longrightarrow> list_all isdigit n
    \<Longrightarrow> sql_expr for_remote (col @ op @ n)"
| sql_brackets: "sql_expr for_remote a \<Longrightarrow> sql_expr for_remote (''('' @ a @ '')'')"
| sql_join: "sql_expr for_remote a \<Longrightarrow> sql_expr for_remote b \<Longrightarrow> op \<in> {'' OR '', '' AND ''} \<Longrightarrow> sql_expr for_remote (a @ op @ b)"

text \<open>What stands left of an operand, and the open brackets.\<close>

definition sql_left :: "bool \<Rightarrow> string \<Rightarrow> bool" where
  "sql_left r q \<longleftrightarrow> q = [] \<or> (\<exists>a op. sql_expr r a \<and> op \<in> {'' OR '', '' AND ''} \<and> q = a @ op)"

inductive sql_ctx :: "bool \<Rightarrow> nat \<Rightarrow> string \<Rightarrow> bool" for r where
  "sql_ctx r 0 []"
| "sql_ctx r n c \<Longrightarrow> sql_left r q \<Longrightarrow> sql_ctx r (Suc n) (c @ q @ ''('')"

inductive_cases sql_ctx_0: "sql_ctx r 0 c"

inductive_cases sql_ctx_Suc: "sql_ctx r (Suc n) c"

definition sql_open :: "bool \<Rightarrow> nat \<Rightarrow> string \<Rightarrow> bool" where
  "sql_open r n t \<longleftrightarrow> (\<exists>c q. sql_ctx r n c \<and> sql_left r q \<and> t = c @ q)"

definition sql_closed :: "bool \<Rightarrow> nat \<Rightarrow> string \<Rightarrow> bool" where
  "sql_closed r n t \<longleftrightarrow> (\<exists>c a. sql_ctx r n c \<and> sql_expr r a \<and> t = c @ a)"

lemma open_bracket: "sql_open r n t \<Longrightarrow> sql_open r (Suc n) (t @ ''('')"
proof -
  assume "sql_open r n t"
  then obtain c q where "sql_ctx r n c" "sql_left r q" "t = c @ q" unfolding sql_open_def by blast
  then have "sql_ctx r (Suc n) (t @ ''('')" using sql_ctx.intros(2) by fastforce
  then show ?thesis unfolding sql_open_def sql_left_def by fastforce
qed

lemma left_expr: "sql_left r q \<Longrightarrow> sql_expr r a \<Longrightarrow> sql_expr r (q @ a)"
  unfolding sql_left_def by (metis append.assoc append_Nil sql_join)

lemma open_operand: "sql_open r n t \<Longrightarrow> sql_expr r a \<Longrightarrow> sql_closed r n (t @ a)"
  unfolding sql_open_def sql_closed_def using left_expr by fastforce

lemma closed_join: "sql_closed r n t \<Longrightarrow> op \<in> {'' OR '', '' AND ''} \<Longrightarrow> sql_open r n (t @ op)"
  unfolding sql_open_def sql_closed_def sql_left_def by (metis append.assoc)

lemma closed_bracket: "sql_closed r (Suc n) t \<Longrightarrow> sql_closed r n (t @ '')'')"
proof -
  assume "sql_closed r (Suc n) t"
  then obtain c q a where c: "sql_ctx r n c" "sql_left r q" "sql_expr r a" "t = c @ q @ ''('' @ a"
    unfolding sql_closed_def by (auto elim: sql_ctx_Suc)
  then have "sql_expr r (q @ ''('' @ a @ '')'')" by (intro left_expr sql_brackets)
  then show ?thesis using c unfolding sql_closed_def by fastforce
qed

text \<open>The invariant of the loop, for what is appended behind \<open>WHERE\<close>.\<close>

definition sql_inv :: "bool \<Rightarrow> state_t \<Rightarrow> nat \<Rightarrow> string \<Rightarrow> bool" where
  "sql_inv r st n t =
     (case st of
        ST_NONE \<Rightarrow> sql_open r n t
      | POST_EXPR \<Rightarrow> sql_closed r n t
      | OPERATOR_STRING \<Rightarrow> \<exists>u col. sql_open r n u \<and> column r OPERATOR_STRING col \<and> t = u @ col
      | OPERATOR_INT \<Rightarrow> \<exists>u col. sql_open r n u \<and> column r OPERATOR_INT col \<and> t = u @ col
      | NEXT_IS_STRING \<Rightarrow> \<exists>u col op. sql_open r n u \<and> column r OPERATOR_STRING col \<and> op \<in> string_operators \<and> t = u @ col @ op
      | NEXT_IS_INT \<Rightarrow> \<exists>u col op. sql_open r n u \<and> column r OPERATOR_INT col \<and> op \<in> int_operators \<and> t = u @ col @ op
      | ST_INT \<Rightarrow> \<exists>u col op d. sql_open r n u \<and> column r OPERATOR_INT col \<and> op \<in> int_operators \<and> d \<noteq> [] \<and> list_all isdigit d
          \<and> t = u @ col @ op @ d
      | _ \<Rightarrow> \<exists>u col op s. sql_open r n u \<and> column r OPERATOR_STRING col \<and> op \<in> string_operators
          \<and> t = u @ col @ op @ CHR 0x27 # doubled r s)"

lemma sql_column_column: "sql_column r f = Some (st, t, g) \<Longrightarrow> column r st t \<and> (st = OPERATOR_STRING \<or> st = OPERATOR_INT)"
proof -
  assume a: "sql_column r f = Some (st, t, g)"
  have tab: "map_of sql_tables CHR ''#'' = None" by (simp add: sql_tables_def)
  have col: "map_of sql_columns d = Some (x, y, z) \<Longrightarrow> y = OPERATOR_STRING \<or> y = OPERATOR_INT" for d x y z
    by (drule map_of_SomeD) (auto simp: sql_columns_def)
  obtain d h where f: "f = d # h" using a by (cases f) (auto simp: sql_column_def)
  show ?thesis
  proof (cases "map_of sql_columns d")
    case (Some x)
    obtain c y l where x: "x = (c, y, l)" by (cases x)
    then show ?thesis using a f Some col map_of_SomeD [OF Some [unfolded x]] by (auto simp: sql_column_def column_def split: if_splits)
  next
    case None
    then obtain k m where h: "h = k # m" using a f by (cases h) (auto simp: sql_column_def split: if_splits)
    then obtain tb l where m: "map_of sql_tables k = Some (tb, l)" using a f None by (auto simp: sql_column_def Let_def split: option.splits if_splits)
    then have "k \<noteq> CHR ''#''" using tab by auto
    then have l: "\<not> (l \<and> r)" "st = OPERATOR_INT" "t = ''(SELECT COUNT(*) > 0 FROM '' @ tb @ '')''" using a f h m None
      by (auto simp: sql_column_def Let_def split: if_splits)
    then show ?thesis using map_of_SomeD [OF m] unfolding column_def by blast
  qed
qed

lemma doubled_snoc: "doubled r (s @ [c]) = doubled r s @ c # (if c = CHR 0x27 \<or> c = CHR ''%'' \<and> r then [c] else [])"
  by (simp add: doubled_def)

lemma sql_text_step:
  assumes "st \<in> {ST_STRING, QUOTEDSTRING, SQUOTEDSTRING}" "sql_inv r st n t" "sql_step r st n c f = Some (st', n', x, g)"
  shows "sql_inv r st' n' (t @ x)"
proof -
  obtain u col op s where i: "sql_open r n u" "column r OPERATOR_STRING col" "op \<in> string_operators" "t = u @ col @ op @ CHR 0x27 # doubled r s"
    using assms(1,2) by (auto simp: sql_inv_def)
  have "sql_step r st n c f = (if st = ST_STRING \<and> isspace c \<or> st = QUOTEDSTRING \<and> c = CHR 0x22 \<or> st = SQUOTEDSTRING \<and> c = CHR 0x27
      then Some (POST_EXPR, n, [CHR 0x27], f) else Some (st, n, c # (if c = CHR 0x27 \<or> c = CHR ''%'' \<and> r then [c] else []), f))"
    using assms(1) by (elim insertE) (simp_all add: sql_step_def)
  then have "st' = POST_EXPR \<and> n' = n \<and> x = [CHR 0x27] \<or> st' = st \<and> n' = n \<and> x = c # (if c = CHR 0x27 \<or> c = CHR ''%'' \<and> r then [c] else [])"
    unfolding assms(3) by (simp only: option.inject prod.inject split: if_split_asm) blast+
  then consider "st' = POST_EXPR" "n' = n" "x = [CHR 0x27]" | "st' = st" "n' = n" "x = c # (if c = CHR 0x27 \<or> c = CHR ''%'' \<and> r then [c] else [])"
    by blast
  then show ?thesis
  proof cases
    case 1
    have "sql_closed r n (u @ col @ op @ CHR 0x27 # doubled r s @ [CHR 0x27])" by (rule open_operand [OF i(1) sql_text [OF i(2,3)]])
    then show ?thesis using 1 i(4) by (simp add: sql_inv_def)
  next
    case 2
    have "t @ x = u @ col @ op @ CHR 0x27 # doubled r (s @ [c])" unfolding doubled_snoc 2(3) i(4) by simp
    then show ?thesis using i(1-3) 2(1,2) assms(1) unfolding sql_inv_def by (elim insertE; simp; blast)
  qed
qed

lemma sql_inv_step:
  assumes "sql_inv r st n t" "sql_step r st n c f = Some (st', n', x, g)"
  shows "sql_inv r st' n' (t @ x)"
proof (cases st)
  case ST_NONE
  then have o1: "sql_open r n t" using assms(1) by (simp add: sql_inv_def)
  consider h where "c = CHR ''%''" "sql_column r f = Some (st', x, h)" "n' = n" | "st' = ST_NONE" "n' = Suc n" "x = ''(''" | "st' = ST_NONE" "n' = n" "x = []"
    using assms(2) ST_NONE by (auto simp: sql_step_def split: if_splits)
  then show ?thesis
  proof cases
    case 1
    then have "column r st' x" "st' = OPERATOR_STRING \<or> st' = OPERATOR_INT" using sql_column_column [OF 1(2)] by blast+
    then show ?thesis using o1 1(3) unfolding sql_inv_def by (elim disjE; simp; blast)
  next
    case 2
    then show ?thesis using open_bracket [OF o1] by (simp add: sql_inv_def)
  next
    case 3
    then show ?thesis using o1 by (simp add: sql_inv_def)
  qed
next
  case POST_EXPR
  then have o1: "sql_closed r n t" using assms(1) by (simp add: sql_inv_def)
  consider m where "st' = POST_EXPR" "n = Suc m" "n' = m" "x = '')''" | "st' = POST_EXPR" "n' = n" "x = []" | "st' = ST_NONE" "n' = n" "x \<in> {'' OR '', '' AND ''}"
    using assms(2) POST_EXPR by (cases n) (auto simp: sql_step_def split: if_splits)
  then show ?thesis
  proof cases
    case 1
    then show ?thesis using closed_bracket o1 by (simp add: sql_inv_def)
  next
    case 2
    then show ?thesis using o1 by (simp add: sql_inv_def)
  next
    case 3
    then show ?thesis using closed_join [OF o1] by (auto simp: sql_inv_def)
  qed
next
  case ST_INT
  then obtain u col op d where i: "sql_open r n u" "column r OPERATOR_INT col" "op \<in> int_operators" "d \<noteq> []" "list_all isdigit d" "t = u @ col @ op @ d"
    using assms(1) by (auto simp: sql_inv_def)
  show ?thesis
  proof (cases "isdigit c")
    case True
    then have "st' = ST_INT" "n' = n" "x = [c]" using assms(2) ST_INT by (simp_all add: sql_step_def)
    moreover have d: "d @ [c] \<noteq> []" "list_all isdigit (d @ [c])" "t @ [c] = u @ col @ op @ (d @ [c])" using i(5,6) True by simp_all
    moreover have "sql_inv r ST_INT n (t @ [c])" unfolding sql_inv_def state_t.case using i(1-3) d by blast
    ultimately show ?thesis by simp
  next
    case False
    then have "st' = POST_EXPR" "n' = n" "x = []" using assms(2) ST_INT by (simp_all add: sql_step_def)
    then show ?thesis using open_operand [OF i(1) sql_number [OF i(2-5)]] i(6) by (simp add: sql_inv_def)
  qed
next
  case OPERATOR_STRING
  then obtain u col where i: "sql_open r n u" "column r OPERATOR_STRING col" "t = u @ col" using assms(1) by (auto simp: sql_inv_def)
  consider "st' = OPERATOR_STRING" "n' = n" "x = []" | "st' = NEXT_IS_STRING" "n' = n" "x \<in> string_operators"
    using assms(2) OPERATOR_STRING by (auto simp: sql_step_def string_operators_def Let_def split: if_splits)
  then show ?thesis by cases (use i in \<open>auto simp: sql_inv_def\<close>)
next
  case OPERATOR_INT
  then obtain u col where i: "sql_open r n u" "column r OPERATOR_INT col" "t = u @ col" using assms(1) by (auto simp: sql_inv_def)
  consider "st' = OPERATOR_INT" "n' = n" "x = []" | "st' = NEXT_IS_INT" "n' = n" "x \<in> int_operators"
    using assms(2) OPERATOR_INT by (auto simp: sql_step_def int_operators_def Let_def split: if_splits)
  then show ?thesis by cases (use i in \<open>auto simp: sql_inv_def\<close>)
next
  case NEXT_IS_STRING
  then obtain u col op where i: "sql_open r n u" "column r OPERATOR_STRING col" "op \<in> string_operators" "t = u @ col @ op"
    using assms(1) by (auto simp: sql_inv_def)
  consider "st' = NEXT_IS_STRING" "n' = n" "x = []" | "st' \<in> {ST_STRING, QUOTEDSTRING, SQUOTEDSTRING}" "n' = n" "x = [CHR 0x27]"
    using assms(2) NEXT_IS_STRING by (auto simp: sql_step_def split: if_splits)
  then show ?thesis
  proof cases
    case 2
    have "t @ x = u @ col @ op @ CHR 0x27 # doubled r []" using i(4) 2(3) by (simp add: doubled_def)
    then show ?thesis using i(1-3) 2(1,2) unfolding sql_inv_def by (elim insertE; simp; blast)
  qed (use i in \<open>auto simp: sql_inv_def\<close>)
next
  case NEXT_IS_INT
  then obtain u col op where i: "sql_open r n u" "column r OPERATOR_INT col" "op \<in> int_operators" "t = u @ col @ op"
    using assms(1) by (auto simp: sql_inv_def)
  consider "st' = NEXT_IS_INT" "n' = n" "x = []" | "st' = ST_INT" "n' = n" "x = [c]" "isdigit c"
    using assms(2) NEXT_IS_INT by (auto simp: sql_step_def split: if_splits)
  then show ?thesis
  proof cases
    case 2
    then have d: "[c] \<noteq> []" "list_all isdigit [c]" "t @ [c] = u @ col @ op @ [c]" using i(4) by simp_all
    then have "sql_inv r ST_INT n (t @ [c])" unfolding sql_inv_def state_t.case using i(1-3) by blast
    then show ?thesis using 2 by simp
  qed (use i in \<open>auto simp: sql_inv_def\<close>)
qed (use sql_text_step assms in blast)+

lemma sql_inv_loop:
  "sql_loop r st n w f = Some (st', n', w') \<Longrightarrow> w = '' WHERE '' @ t \<Longrightarrow> sql_inv r st n t
    \<Longrightarrow> \<exists>t'. w' = '' WHERE '' @ t' \<and> sql_inv r st' n' t'"
proof (induction r st n w f arbitrary: t rule: sql_loop.induct)
  case (2 r st n w c f)
  obtain st1 n1 x g where s: "sql_step r st n c f = Some (st1, n1, x, g)" "sql_loop r st1 n1 (w @ x) g = Some (st', n', w')"
    using 2(2) by (auto split: option.splits)
  show ?case
  proof (rule 2(1) [OF s(1) _ _ _ s(2)])
    show "w @ x = '' WHERE '' @ (t @ x)" using 2(3) by simp
    show "sql_inv r st1 n1 (t @ x)" using sql_inv_step [OF 2(4) s(1)] .
  qed simp_all
next
  case (1 r st n w)
  then show ?case by (metis option.inject prod.inject sql_loop.simps(1))
qed

lemma condition_sql_expression:
  assumes "format_sql_condition str for_remote = (EPKG_OK, sql)"
  shows "\<exists>t. sql = '' WHERE '' @ t \<and> sql_expr for_remote t"
proof -
  obtain st n w where l: "sql_loop for_remote ST_NONE 0 '' WHERE '' str = Some (st, n, w)"
    using assms by (auto simp: format_sql_condition_def split: option.splits)
  have "sql_inv for_remote ST_NONE 0 []" by (auto simp: sql_inv_def sql_open_def sql_left_def intro: sql_ctx.intros)
  then obtain t where t: "w = '' WHERE '' @ t" "sql_inv for_remote st n t" using sql_inv_loop [OF l, of "[]"] by auto
  have closed: "\<exists>u. sql = '' WHERE '' @ u \<and> sql_closed for_remote 0 u"
  proof (cases "st = ST_STRING")
    case True
    then obtain u col op s where i: "sql_open for_remote n u" "column for_remote OPERATOR_STRING col" "op \<in> string_operators"
      "t = u @ col @ op @ CHR 0x27 # doubled for_remote s" using t(2) by (auto simp: sql_inv_def)
    have "n = 0 \<and> sql = '' WHERE '' @ t @ [CHR 0x27]"
      using assms l True t(1) by (auto simp: format_sql_condition_def split: if_splits)
    moreover have "sql_closed for_remote n (t @ [CHR 0x27])" using open_operand [OF i(1) sql_text [OF i(2,3)]] i(4) by simp
    ultimately show ?thesis by blast
  next
    case False
    then have f: "(st = POST_EXPR \<or> st = ST_INT) \<and> n = 0 \<and> sql = '' WHERE '' @ t"
      using assms l t(1) by (auto simp: format_sql_condition_def split: if_splits)
    show ?thesis
    proof (cases "st = POST_EXPR")
      case True
      then show ?thesis using f t(2) by (auto simp: sql_inv_def)
    next
      case no: False
      then obtain u col op d where "sql_open for_remote n u" "column for_remote OPERATOR_INT col" "op \<in> int_operators" "d \<noteq> []" "list_all isdigit d"
        "t = u @ col @ op @ d" using f t(2) by (auto simp: sql_inv_def)
      then have "sql_closed for_remote n t" using open_operand sql_number by simp
      then show ?thesis using f by blast
    qed
  qed
  then show ?thesis unfolding sql_closed_def by (auto elim: sql_ctx_0)
qed

text \<open>
  C33: Whatever the condition, the SQL that is generated for it is one expression of the grammar behind \<open>WHERE\<close>: the brackets match, every comparison has
  its column, operator and value, and a text of the user stays inside its quotes.
\<close>

theorem condition_well_formed:
  assumes "format_sql_condition str for_remote = (EPKG_OK, sql)"
  shows "\<exists>t. sql = '' WHERE '' @ t \<and> sql_expr for_remote t"
  by (rule condition_sql_expression [OF assms])

theorem condition_well_formed_witness:
  "\<exists>t. '' WHERE (name GLOB '' @ [CHR 0x27] @ ''z*'' @ [CHR 0x27] @ '') OR flatsize>=10'' = '' WHERE '' @ t \<and> sql_expr False t"
  by (rule condition_well_formed [where str = "''(%n ~ z* ) || %s >= 10''"]) code_simp

text \<open>
  The numbers of items cannot be compared: a condition on \<open>%#\<close> gives the SQL of \<open>%?\<close>, which is 0 or 1, because the letter that is tested is the one behind.
\<close>

theorem count_is_test: "format_sql_condition (''%#'' @ f) for_remote = format_sql_condition (''%?'' @ f) for_remote"
proof -
  have "map_of sql_columns CHR ''#'' = None" "map_of sql_columns CHR ''?'' = None" by (simp_all add: sql_columns_def)
  then have "sql_column for_remote (CHR ''#'' # f) = sql_column for_remote (CHR ''?'' # f)" by (simp add: sql_column_def)
  then show ?thesis by (simp add: format_sql_condition_def sql_step_def)
qed

section \<open>Accepted queries are printed\<close>

named_theorems parse_eval

lemmas [parse_eval] = parse_format_def format_code_def fmt_def row_def modifier_def isdigit_def byte_def PP_PKG_def PP_A_def PP_B_def
  PP_C_def PP_D_def PP_F_def PP_G_def PP_L_def PP_O_def PP_U_def PP_b_def PP_d_def PP_r_def PP_ALL_def PP_TRAILER_def

definition new_code :: "flags \<Rightarrow> nat \<Rightarrow> percent_esc" where
  "new_code fl n = new_percent_esc\<lparr>pe_flags := fl, pe_fmt_code := n\<rparr>"

lemma trailer_end [parse_eval]: "format_trailer [] p = ([], p)"
  by (simp add: format_trailer_def)

lemma list_flags [parse_eval]:
  "\<not> has 0 m" "has PP_ALTERNATE_FORM1 (or PP_ALTERNATE_FORM1 m)" "has PP_ALTERNATE_FORM2 (or m PP_ALTERNATE_FORM2)"
  by (simp_all add: flag_simps) (simp add: has_def)

lemma new_code_simps [simp]: "pe_flags (new_code fl n) = fl" "pe_fmt_code (new_code fl n) = n"
  by (simp_all add: new_code_def)

text \<open>The kind of the items of a list.\<close>

fun fits_list :: "char \<Rightarrow> arg \<Rightarrow> bool" where
  "fits_list c (A_dep _) \<longleftrightarrow> c \<in> set ''dr''"
| "fits_list c (A_object _) \<longleftrightarrow> c \<in> set ''CLA''"
| "fits_list c (A_option _) \<longleftrightarrow> c = CHR ''O''"
| "fits_list c (A_file _) \<longleftrightarrow> c = CHR ''F''"
| "fits_list c (A_dir _) \<longleftrightarrow> c = CHR ''D''"
| "fits_list c (A_user _) \<longleftrightarrow> c = CHR ''U''"
| "fits_list c (A_group _) \<longleftrightarrow> c = CHR ''G''"
| "fits_list c (A_shlib _) \<longleftrightarrow> c \<in> set ''Bb''"
| "fits_list c (A_pkg _) \<longleftrightarrow> c = CHR ''p''"
| "fits_list c _ \<longleftrightarrow> False"

text \<open>Every format is one escape; with its code, its flags and the kind of its argument.\<close>

definition format_codes :: "(string \<times> flags \<times> nat \<times> char) list" where
  "format_codes =
     [(''%M'', 0, 27, CHR ''p''), (''%s'', 0, 62, CHR ''p''), (''%n'', 0, 53, CHR ''p''), (''%v'', 0, 65, CHR ''p''), (''%o'', 0, 54, CHR ''p''),
      (''%N'', 0, 28, CHR ''p''), (''%p'', 0, 55, CHR ''p''), (''%m'', 0, 52, CHR ''p''), (''%c'', 0, 43, CHR ''p''), (''%w'', 0, 66, CHR ''p''),
      (''%t'', 0, 63, CHR ''p''), (''%e'', 0, 49, CHR ''p''), (''%q'', 0, 56, CHR ''p''), (''%l'', 0, 51, CHR ''p''),
      (''%Cn'', 0, 5, CHR ''C''), (''%Dn'', 0, 9, CHR ''D''), (''%Ln'', 0, 25, CHR ''L''), (''%Un'', 0, 36, CHR ''U''), (''%Gn'', 0, 22, CHR ''G''),
      (''%Bn'', 0, 3, CHR ''B''), (''%bn'', 0, 41, CHR ''b''), (''%dn'', 0, 45, CHR ''d''), (''%do'', 0, 46, CHR ''d''), (''%dv'', 0, 47, CHR ''d''),
      (''%rn'', 0, 58, CHR ''r''), (''%ro'', 0, 59, CHR ''r''), (''%rv'', 0, 60, CHR ''r''), (''%Fn'', 0, 16, CHR ''F''), (''%Fs'', 0, 18, CHR ''F''),
      (''%On'', 0, 29, CHR ''O''), (''%Ov'', 0, 30, CHR ''O''), (''%Od'', 0, 31, CHR ''O''), (''%OD'', 0, 32, CHR ''O''),
      (''%An'', 0, 0, CHR ''A''), (''%Av'', 0, 1, CHR ''A'')]
     @ concat (map (\<lambda>(c, n). [(''%?'' @ [c], PP_ALTERNATE_FORM1, n, CHR ''p''), (''%#'' @ [c], PP_ALTERNATE_FORM2, n, CHR ''p'')])
         [(CHR ''d'', 48), (CHR ''r'', 61), (CHR ''C'', 6), (CHR ''F'', 20), (CHR ''O'', 33), (CHR ''D'', 13), (CHR ''L'', 26), (CHR ''U'', 38),
          (CHR ''G'', 23), (CHR ''B'', 4), (CHR ''b'', 42), (CHR ''A'', 2)])"

lemma format_codes_parse: "\<forall>(f, fl, n, k) \<in> set format_codes. parse_format f PP_PKG new_percent_esc = ([], new_code fl n)"
  by (simp add: format_codes_def parse_eval new_code_def new_percent_esc_def)

lemma format_codes_print:
  "\<forall>(f, fl, n, k) \<in> set format_codes. n \<le> PP_LAST_FORMAT
     \<and> (\<forall>e it data. fits_list k data \<longrightarrow> (\<exists>x. fmt_handler (fmt ! n) e it data (new_code fl n) = Ret x))"
  apply (simp add: format_codes_def PP_LAST_FORMAT_def fmt_def row_def handler_defs with_pkg_def with_object_def with_file_def with_option_def with_dep_def with_dir_def
     format_list_def list_flags split: arg.splits)
 done

lemma escape_printed:
  assumes "parse_format (CHR ''%'' # f) PP_PKG new_percent_esc = (r, p)" "pe_fmt_code p \<le> PP_LAST_FORMAT" "spells r s"
    "fmt_handler (fmt ! pe_fmt_code p) e (iterate_item 1 e) data p = Ret x"
  shows "\<exists>s. query_printf e (CHR ''%'' # f) data = Ret s"
proof -
  have l: "length r < Suc (length f)" using parse_format_length [of "CHR ''%'' # f" PP_PKG new_percent_esc] assms(1) by simp
  have "fst x" using handler_ok [of "pe_fmt_code p" e "iterate_item 1 e" data p "fst x" "snd x"] assms(2,4) by (simp add: PP_LAST_FORMAT_def)
  then have "process_format_main e p (CHR ''%'' # f) r data = Ret (snd x, r)" using assms(4) by (cases x) (simp add: process_format_main_def)
  then show ?thesis using assms(1,2) spelled_vprintf [OF assms(3) l] by (simp add: query_printf_def pkg_sbuf_printf_def)
qed

lemma format_printed:
  assumes "(f, fl, n, k) \<in> set format_codes" "fits_list k data"
  shows "\<exists>s. query_printf e f data = Ret s"
proof -
  have p: "parse_format f PP_PKG new_percent_esc = ([], new_code fl n)" using format_codes_parse assms(1) by fast
  have h: "n \<le> PP_LAST_FORMAT" "\<exists>x. fmt_handler (fmt ! n) e (iterate_item 1 e) data (new_code fl n) = Ret x"
    using format_codes_print assms by fast+
  have "\<forall>(f, fl, n, k) \<in> set format_codes. \<exists>g. f = CHR ''%'' # g" by (simp add: format_codes_def)
  then obtain g where "f = CHR ''%'' # g" using assms(1) by fast
  then show ?thesis using escape_printed [of g "[]" "new_code fl n" "[]"] p h by (auto simp: spells.intros)
qed

lemma size_printed: "\<exists>s. query_printf e ''%?sB'' (A_pkg pkg) = Ret s"
proof (rule escape_printed)
  show "parse_format ''%?sB'' PP_PKG new_percent_esc = (''B'', new_code PP_ALTERNATE_FORM1 62)"
    by (simp add: parse_eval new_code_def new_percent_esc_def)
  show "spells ''B'' ''B''" by (intro spells.intros) simp_all
  have "fmt_handler (fmt ! 62) = format_flatsize" by (simp add: fmt_def row_def)
  then show "fmt_handler (fmt ! pe_fmt_code (new_code PP_ALTERNATE_FORM1 62)) e (iterate_item 1 e) (A_pkg pkg) (new_code PP_ALTERNATE_FORM1 62)
      = Ret (int_val e (pkg_get_int pkg PKG_FLATSIZE) (new_code PP_ALTERNATE_FORM1 62))"
    by (simp only: new_code_simps format_flatsize_def with_pkg_def arg.case)
qed (simp add: PP_LAST_FORMAT_def)

text \<open>What is known of an accepted query: behind every percent sign are valid letters, and the list is the one of the lines.\<close>

definition valid_letters :: "query_flags list \<Rightarrow> char \<Rightarrow> string \<Rightarrow> bool" where
  "valid_letters rows ml q \<longleftrightarrow> (\<exists>d w r. q = d # w \<and> flag_row rows d = Some r \<and> (qf_multiline r \<longrightarrow> ml = d)
     \<and> (qf_options r \<noteq> [] \<longrightarrow> (\<exists>x y. w = x # y \<and> x \<in> set (qf_options r))))"

primrec valid_query :: "query_flags list \<Rightarrow> char \<Rightarrow> string \<Rightarrow> bool" where
  "valid_query rows ml [] = True"
| "valid_query rows ml (c # q) \<longleftrightarrow> (c = CHR ''%'' \<longrightarrow> valid_letters rows ml q) \<and> valid_query rows ml q"

text \<open>Every backslash has a character behind it.\<close>

fun whole_escapes :: "string \<Rightarrow> bool" where
  "whole_escapes [] = True"
| "whole_escapes [c] \<longleftrightarrow> c \<noteq> CHR 0x5C"
| "whole_escapes (c # d # q) = (if c = CHR 0x5C then whole_escapes q else whole_escapes (d # q))"

lemma flag_row_flag: "flag_row rows d = Some r \<Longrightarrow> qf_flag r = d \<and> r \<in> set rows"
  by (auto simp: flag_row_def find_Some_iff)

lemma next_multiline_keeps: "next_multiline r m = Some m' \<Longrightarrow> (m = CHR 0x00 \<or> m' = m) \<and> (qf_multiline r \<longrightarrow> m' = qf_flag r)"
  by (auto simp: next_multiline_def split: if_splits)

lemma analyse_valid:
  assumes "analyse_loop rows fl m q = Some (fl', ml)" "\<forall>r \<in> set rows. qf_flag r \<noteq> CHR ''%'' \<and> qf_flag r \<noteq> CHR 0x00 \<and> CHR ''%'' \<notin> set (qf_options r)"
  shows "(m = CHR 0x00 \<or> ml = m) \<and> valid_query rows ml q"
  using assms
proof (induction rows fl m q rule: analyse_loop.induct)
  case (3 rows fl m c d q)
  show ?case
  proof (cases "c = CHR ''%''")
    case True
    then obtain r where r: "flag_row rows d = Some r" using 3(4) by (auto split: option.splits)
    note rf = flag_row_flag [OF r]
    have clean: "qf_flag r \<noteq> CHR ''%'' \<and> qf_flag r \<noteq> CHR 0x00 \<and> CHR ''%'' \<notin> set (qf_options r)"
      by (rule bspec [OF 3(5) conjunct2 [OF rf]])
    show ?thesis
    proof (cases "qf_options r = []")
      case o: True
      then obtain m' where m: "next_multiline r m = Some m'" "analyse_loop rows (fl @ dbflags_of rows r (CHR 0x00)) m' q = Some (fl', ml)"
        using 3(4) True r by (auto split: option.splits)
      have ih: "(m' = CHR 0x00 \<or> ml = m') \<and> valid_query rows ml q" using 3(2) True r o m 3(5) by simp
      have d: "d \<noteq> CHR ''%''" "d \<noteq> CHR 0x00" using clean rf by auto
      then have "qf_multiline r \<longrightarrow> ml = d" "m = CHR 0x00 \<or> ml = m" using ih rf next_multiline_keeps [OF m(1)] by auto
      then show ?thesis using True r o d ih by (simp add: valid_letters_def)
    next
      case o: False
      then obtain x y where q: "q = x # y" "x \<in> set (qf_options r)" using 3(4) True r by (auto split: list.splits option.splits if_splits)
      then obtain m' where m: "next_multiline r m = Some m'" "analyse_loop rows (fl @ dbflags_of rows r x) m' y = Some (fl', ml)"
        using 3(4) True r o by (auto split: option.splits)
      have ih: "(m' = CHR 0x00 \<or> ml = m') \<and> valid_query rows ml y" using 3(3) True r o m q 3(5) by simp
      have d: "d \<noteq> CHR ''%''" "d \<noteq> CHR 0x00" "x \<noteq> CHR ''%''" using clean rf q by auto
      then have "qf_multiline r \<longrightarrow> ml = d" "m = CHR 0x00 \<or> ml = m" using ih rf next_multiline_keeps [OF m(1)] by auto
      then show ?thesis using True r o d ih q by (simp add: valid_letters_def)
    qed
  next
    case False
    then show ?thesis using 3 by simp
  qed
qed (auto split: if_splits)

text \<open>The letters of a row are printed, on every line of the list of a row with several lines.\<close>

definition line_of :: "char \<Rightarrow> arg \<Rightarrow> bool" where
  "line_of ml data \<longleftrightarrow> ml \<in> set ''drCOFDLUGBbA'' \<longrightarrow> fits_list ml data"

lemma query_items_fit: "data \<in> set (query_items pkg ml) \<Longrightarrow> line_of ml data"
  by (auto simp: line_of_def query_items_def)

definition accepted_tables :: "query_flags list set" where
  "accepted_tables = {accepted_query_flags, accepted_rquery_flags}"

lemma tables_clean:
  "rows \<in> accepted_tables \<Longrightarrow> \<forall>r \<in> set rows. qf_flag r \<noteq> CHR ''%'' \<and> qf_flag r \<noteq> CHR 0x00 \<and> CHR ''%'' \<notin> set (qf_options r)
     \<and> qf_flag r \<noteq> CHR 0x5C \<and> CHR 0x5C \<notin> set (qf_options r)"
  unfolding accepted_tables_def by (auto simp: accepted_query_flags_def accepted_rquery_flags_def qf_def)

definition row_printed :: "query_flags \<Rightarrow> bool" where
  "row_printed r \<longleftrightarrow>
     (if has_pair (qf_flag r) then qf_options r \<noteq> [] \<and> (\<forall>x \<in> set (qf_options r). case map_of pkg_pairs (qf_flag r) of
          Some fs \<Rightarrow> (\<exists>f fl n. map_of fs x = Some f \<and> (f = ''%?sB'' \<or> (f, fl, n, CHR ''p'') \<in> set format_codes))
        | None \<Rightarrow> qf_multiline r \<and> qf_flag r \<in> set ''drCOFDLUGBbA''
            \<and> (\<exists>fs f fl n. map_of item_pairs (qf_flag r) = Some fs \<and> map_of fs x = Some f \<and> (f, fl, n, qf_flag r) \<in> set format_codes))
      else qf_options r = [] \<and>
        (case map_of pkg_letters (qf_flag r) of
           Some f \<Rightarrow> \<exists>fl n. (f, fl, n, CHR ''p'') \<in> set format_codes
         | None \<Rightarrow> map_of item_letters (qf_flag r) = None
             \<or> qf_multiline r \<and> qf_flag r \<in> set ''drCOFDLUGBbA'' \<and> (\<exists>f fl n. map_of item_letters (qf_flag r) = Some f \<and> (f, fl, n, qf_flag r) \<in> set format_codes)))"

lemma rows_printed: "\<forall>r \<in> set (accepted_query_flags @ accepted_rquery_flags). row_printed r" 
  by (simp add: accepted_query_flags_def accepted_rquery_flags_def qf_def row_printed_def has_pair_def pkg_pairs_def count_letters_def item_pairs_def pkg_letters_def item_letters_def
    format_codes_def)

lemma one_printed:
  assumes "row_printed r" "qf_options r = []" "qf_multiline r \<longrightarrow> ml = qf_flag r" "line_of ml data"
  shows "\<not> has_pair (qf_flag r) \<and> (\<exists>s. one_letter e pkg data (qf_flag r) = Ret s)"
proof -
  have h: "\<not> has_pair (qf_flag r)" using assms(1,2) by (auto simp: row_printed_def)
  have p: "\<exists>s. query_printf e f (A_pkg pkg) = Ret s" if "(f, fl, n, CHR ''p'') \<in> set format_codes" for f fl n
    using format_printed [OF that] by simp
  have m: "\<exists>s. query_printf e ''%M'' (A_pkg pkg) = Ret s" by (rule p [of _ 0 27]) (simp add: format_codes_def)
  show ?thesis
  proof (cases "map_of pkg_letters (qf_flag r)")
    case (Some f)
    then show ?thesis using assms(1) h p by (auto simp: row_printed_def one_letter_def)
  next
    case None
    show ?thesis
    proof (cases "map_of item_letters (qf_flag r)")
      case (Some f)
      then obtain fl n where "(f, fl, n, qf_flag r) \<in> set format_codes" "fits_list (qf_flag r) data"
        using None assms h by (auto simp: row_printed_def line_of_def)
      then show ?thesis using format_printed None Some h by (simp add: one_letter_def)
    qed (use None h m in \<open>simp add: one_letter_def\<close>)
  qed
qed

lemma two_printed:
  assumes "row_printed r" "x \<in> set (qf_options r)" "qf_multiline r \<longrightarrow> ml = qf_flag r" "line_of ml data"
  shows "has_pair (qf_flag r) \<and> (\<exists>s. two_letters e pkg data (qf_flag r) x = Ret s)"
proof -
  have h: "has_pair (qf_flag r)" using assms(1,2) by (auto simp: row_printed_def split: if_splits)
  show ?thesis
  proof (cases "map_of pkg_pairs (qf_flag r)")
    case (Some fs)
    then obtain f fl n where "map_of fs x = Some f" "f = ''%?sB'' \<or> (f, fl, n, CHR ''p'') \<in> set format_codes"
      using assms(1,2) h by (fastforce simp: row_printed_def)
    then show ?thesis using Some h format_printed [of f fl n "CHR ''p''" "A_pkg pkg" e] size_printed [of e pkg] by (auto simp: two_letters_def)
  next
    case None
    then obtain fs f fl n where "map_of item_pairs (qf_flag r) = Some fs" "map_of fs x = Some f" "(f, fl, n, qf_flag r) \<in> set format_codes"
      "fits_list (qf_flag r) data" using assms h by (fastforce simp: row_printed_def line_of_def)
    then show ?thesis using None h format_printed by (simp add: two_letters_def)
  qed
qed

lemma valid_printed:
  assumes "rows \<in> accepted_tables" "valid_query rows ml q" "whole_escapes q" "line_of ml data"
  shows "\<exists>s. format_str e pkg data q = Ret s"
  using assms(2-4)
proof (induction e pkg data q rule: format_str.induct)
  case (3 e pkg data c d q)
  show ?case
  proof (cases "c = CHR ''%''")
    case True
    then obtain r where r: "flag_row rows d = Some r" "qf_multiline r \<longrightarrow> ml = d" "qf_options r \<noteq> [] \<longrightarrow> (\<exists>x y. q = x # y \<and> x \<in> set (qf_options r))"
      using 3(5) by (auto simp: valid_letters_def)
    note rf = flag_row_flag [OF r(1)]
    have clean: "d \<noteq> CHR 0x5C" "CHR 0x5C \<notin> set (qf_options r)" using bspec [OF tables_clean [OF assms(1)] conjunct2 [OF rf]] rf by simp_all
    have p: "row_printed r" using rows_printed assms(1) rf by (auto simp: accepted_tables_def)
    show ?thesis
    proof (cases "qf_options r = []")
      case o: True
      then have "\<not> has_pair d" "\<exists>s. one_letter e pkg data d = Ret s" using one_printed [OF p o _ 3(7), of e pkg] r(2) rf by auto
      moreover have "\<exists>s. format_str e pkg data q = Ret s" using 3 True clean calculation by (cases q) simp_all
      ultimately show ?thesis using True by auto
    next
      case False
      then obtain x y where q: "q = x # y" "x \<in> set (qf_options r)" using r(3) by auto
      then have "has_pair d" "\<exists>s. two_letters e pkg data d x = Ret s" using two_printed [OF p q(2) _ 3(7), of e pkg] r(2) rf by auto
      moreover have "x \<noteq> CHR 0x5C" using clean q by auto
      moreover have "\<exists>s. format_str e pkg data y = Ret s" using 3 True clean calculation q by (cases y) (simp_all split: if_splits)
      ultimately show ?thesis using True q by auto
    qed
  next
    case False
    then show ?thesis using 3 by (cases "c = CHR 0x5C") auto
  qed
qed (auto simp: valid_letters_def)

lemma items_printed: "(\<And>x. x \<in> set xs \<Longrightarrow> \<exists>s. format_str e pkg x q = Ret s) \<Longrightarrow> \<exists>lines. print_items e pkg q xs = Ret lines \<and> length lines = length xs"
proof (induction xs)
  case (Cons x xs)
  then obtain s lines where "format_str e pkg x q = Ret s" "print_items e pkg q xs = Ret lines" "length lines = length xs"
    by (metis list.set_intros)
  then show ?case by simp
qed simp

lemma analysed_printed:
  assumes "rows \<in> accepted_tables" "analyse_query_string qstr rows fl (CHR 0x00) = (EPKG_OK, fl', ml)" "whole_escapes qstr"
  shows "\<exists>lines. print_query e pkg qstr ml = Ret lines \<and> length lines = length (query_items pkg ml)"
proof -
  have "analyse_loop rows fl (CHR 0x00) qstr = Some (fl', ml)" using assms(2)
    by (auto simp: analyse_query_string_def split: option.splits if_splits)
  then have "valid_query rows ml qstr" using analyse_valid [of rows fl "CHR 0x00" qstr fl' ml] tables_clean [OF assms(1)] by blast
  then show ?thesis unfolding print_query_def
    using items_printed [of "query_items pkg ml" e pkg qstr] valid_printed [OF assms(1) _ assms(3)] query_items_fit by blast
qed

end
