(* ===== verification/Query_exec.thy ===== *)
theory Query_exec
  imports Query Install
begin

text \<open>
  The commands query and rquery, \<open>exec_query\<close> of \<open>src/query.c\<close> and \<open>exec_rquery\<close> of \<open>src/rquery.c\<close>: from the options to the exit code and the text
  that is printed. The database, the update of the repositories and \<open>getopt_long\<close> are parameters.
\<close>

section \<open>The command query\<close>

text \<open>The codes of \<open>sysexits.h\<close>; \<open>Code\<close> is one of the library that is returned as it is.\<close>

datatype exit_code = EX_OK | EX_USAGE | EX_UNAVAILABLE | EX_SOFTWARE | EX_IOERR | EX_TEMPFAIL | EX_NOPERM | Code epkg

text \<open>
  What \<open>getopt_long\<close> returns is a list of letters with their arguments, and the operands. The database gives for a pattern or a condition its packages
  with what is loaded of them and the last code of the iterator, or no iterator.
\<close>

type_synonym db_query = "bool \<Rightarrow> string option \<Rightarrow> match_t \<Rightarrow> pkg_load list \<Rightarrow> (struct_pkg list \<times> epkg) option"

record 'd query_env =
  qe_printf :: printf_env
  qe_install :: "'d install_env"
  qe_fs :: fsys
  qe_access :: epkg
  qe_open :: epkg
  qe_lock :: epkg
  qe_query :: db_query

record query_opts =
  qo_match :: match_t
  qo_case :: bool
  qo_condition :: "string option"
  qo_pkgname :: "string option"

record query_result =
  qr_code :: exit_code
  qr_lines :: "string list"
  qr_locked :: bool

definition query_opts_new :: query_opts where
  "query_opts_new = \<lparr>qo_match = MATCH_EXACT, qo_case = False, qo_condition = None, qo_pkgname = None\<rparr>"

definition query_option :: "char \<Rightarrow> string \<Rightarrow> query_opts \<Rightarrow> query_opts option" where
  "query_option ch optarg opt =
     (if ch = CHR ''a'' then Some (opt\<lparr>qo_match := MATCH_ALL\<rparr>)
      else if ch = CHR ''C'' then Some (opt\<lparr>qo_case := True\<rparr>)
      else if ch = CHR ''e'' then Some (opt\<lparr>qo_match := MATCH_CONDITION, qo_condition := Some optarg\<rparr>)
      else if ch = CHR ''F'' then Some (opt\<lparr>qo_pkgname := Some optarg\<rparr>)
      else if ch = CHR ''g'' then Some (opt\<lparr>qo_match := MATCH_GLOB\<rparr>)
      else if ch = CHR ''i'' then Some (opt\<lparr>qo_case := False\<rparr>)
      else if ch = CHR ''x'' then Some (opt\<lparr>qo_match := MATCH_REGEX\<rparr>)
      else None)"

fun query_options :: "(char \<times> string) list \<Rightarrow> query_opts \<Rightarrow> query_opts option" where
  "query_options [] opt = Some opt"
| "query_options ((ch, optarg) # xs) opt = (case query_option ch optarg opt of None \<Rightarrow> None | Some opt \<Rightarrow> query_options xs opt)"

text \<open>The text of all packages of one iterator; then of all patterns, with the number of packages.\<close>

fun print_pkgs :: "(struct_pkg \<Rightarrow> string list run) \<Rightarrow> struct_pkg list \<Rightarrow> string list run" where
  "print_pkgs print [] = Ret []"
| "print_pkgs print (pkg # pkgs) = run_bind (print pkg) (\<lambda>s. run_bind (print_pkgs print pkgs) (\<lambda>r. Ret (s @ r)))"

fun query_patterns ::
  "(string \<Rightarrow> (struct_pkg list \<times> epkg) option) \<Rightarrow> (struct_pkg \<Rightarrow> string list run) \<Rightarrow> string list \<Rightarrow> (exit_code \<times> string list \<times> nat) run" where
  "query_patterns query print [] = Ret (EX_OK, [], 0)"
| "query_patterns query print (pkgname # argv) =
     (case query pkgname of
        None \<Rightarrow> Ret (EX_IOERR, [], 0)
      | Some (pkgs, ret) \<Rightarrow>
          run_bind (print_pkgs print pkgs) (\<lambda>s.
            if ret \<noteq> EPKG_END then Ret (EX_SOFTWARE, s, length pkgs)
            else run_bind (query_patterns query print argv) (\<lambda>(code, r, n). Ret (code, s @ r, length pkgs + n))))"

definition stop_with :: "exit_code \<Rightarrow> query_result run" where
  "stop_with code = Ret \<lparr>qr_code = code, qr_lines = [], qr_locked = False\<rparr>"

definition query_match :: "query_opts \<Rightarrow> string list \<Rightarrow> match_t option" where
  "query_match opt argv =
     (if length argv = 1 \<and> qo_pkgname opt = None \<and> qo_condition opt = None \<and> qo_match opt = MATCH_EXACT then Some MATCH_ALL
      else if (length argv = 1) \<noteq> (qo_match opt = MATCH_ALL) \<and> qo_pkgname opt = None \<and> qo_condition opt = None then None
      else Some (qo_match opt))"

definition condition_sql :: "bool \<Rightarrow> string option \<Rightarrow> epkg \<times> string option" where
  "condition_sql for_remote c = (case c of None \<Rightarrow> (EPKG_OK, None) | Some c \<Rightarrow> (let (rc, s) = format_sql_condition c for_remote in (rc, Some s)))"

definition query_packages :: "'d query_env \<Rightarrow> query_opts \<Rightarrow> match_t \<Rightarrow> string list \<Rightarrow> pkg_load list \<Rightarrow> char \<Rightarrow> string option \<Rightarrow> query_result run" where
  \<comment> \<open>with the lock\<close>
  "query_packages e opt match argv fl multiline sqlcond =
     (let print = (\<lambda>pkg. print_query (qe_printf e) pkg (hd argv) multiline)
      in if match = MATCH_ALL \<or> match = MATCH_CONDITION then
           (case qe_query e (qo_case opt) (if match = MATCH_CONDITION then sqlcond else None) match fl of
              None \<Rightarrow> Ret \<lparr>qr_code = EX_IOERR, qr_lines = [], qr_locked = True\<rparr>
            | Some (pkgs, ret) \<Rightarrow> run_bind (print_pkgs print pkgs) (\<lambda>s.
                Ret \<lparr>qr_code = (if ret \<noteq> EPKG_END then EX_SOFTWARE else EX_OK), qr_lines = s, qr_locked = False\<rparr>))
         else
           run_bind (query_patterns (\<lambda>pkgname. qe_query e (qo_case opt) (Some pkgname) match fl) print (tl argv)) (\<lambda>(code, s, nprinted).
             Ret \<lparr>qr_code = (if nprinted = 0 \<and> code = EX_OK then EX_UNAVAILABLE else code), qr_lines = s, qr_locked = False\<rparr>))"

definition exec_query :: "'d query_env \<Rightarrow> (char \<times> string) list \<Rightarrow> string list \<Rightarrow> query_result run" where
  "exec_query e opts argv =
     (case query_options opts query_opts_new of
        None \<Rightarrow> stop_with EX_USAGE
      | Some opt \<Rightarrow>
          if argv = [] then stop_with EX_USAGE
          else case query_match opt argv of
            None \<Rightarrow> stop_with EX_USAGE
          | Some match \<Rightarrow>
              (let (rc, fl, multiline) = analyse_query_string (hd argv) accepted_query_flags [PKG_LOAD_BASIC] (CHR 0x00)
               in if rc \<noteq> EPKG_OK then stop_with EX_USAGE
                  else case qo_pkgname opt of
                    Some pkgname \<Rightarrow>
                      run_bind (pkg_open (qe_install e) False False None pkgname pkg_manifest_keys_new (qe_fs e)) (\<lambda>(rc, pkg).
                        if rc \<noteq> EPKG_OK then stop_with EX_IOERR
                        else case pkg of
                          None \<Rightarrow> Crash
                        | Some pkg \<Rightarrow> run_bind (print_query (qe_printf e) pkg (hd argv) multiline) (\<lambda>s.
                            Ret \<lparr>qr_code = EX_OK, qr_lines = s, qr_locked = False\<rparr>))
                  | None \<Rightarrow>
                      (let (rc, sqlcond) = condition_sql False (qo_condition opt)
                       in if rc \<noteq> EPKG_OK then stop_with EX_USAGE
                          else if qe_access e = EPKG_ENOACCESS then stop_with EX_NOPERM
                          else if qe_access e = EPKG_ENODB then stop_with EX_OK
                          else if qe_access e \<noteq> EPKG_OK then stop_with EX_IOERR
                          else if qe_open e \<noteq> EPKG_OK then stop_with EX_IOERR
                          else if qe_lock e \<noteq> EPKG_OK then stop_with EX_TEMPFAIL
                          else query_packages e opt match argv fl multiline sqlcond)))"

section \<open>The command rquery\<close>

text \<open>
  \<open>rq_stack\<close> is what the variable \<open>auto_update\<close> holds, which only the option \<open>U\<close> sets. The update of the repositories and the databases behind the
  name of a repository are parameters.
\<close>

record rquery_env =
  rq_printf :: printf_env
  rq_portsdir :: "string option"
  rq_stack :: bool
  rq_access :: epkg
  rq_update :: "string option \<Rightarrow> epkg"
  rq_open :: "string option \<Rightarrow> epkg"
  rq_query :: "string option \<Rightarrow> db_query"

record rquery_opts = query_opts +
  ro_index_output :: bool
  ro_reponame :: "string option"
  ro_auto_update :: bool

definition rquery_opts_new :: "rquery_env \<Rightarrow> rquery_opts" where
  "rquery_opts_new e = query_opts.extend query_opts_new \<lparr>ro_index_output = False, ro_reponame = None, ro_auto_update = rq_stack e\<rparr>"

definition rquery_option :: "char \<Rightarrow> string \<Rightarrow> rquery_opts \<Rightarrow> rquery_opts option" where
  "rquery_option ch optarg opt =
     (if ch = CHR ''a'' then Some (opt\<lparr>qo_match := MATCH_ALL\<rparr>)
      else if ch = CHR ''C'' then Some (opt\<lparr>qo_case := True\<rparr>)
      else if ch = CHR ''e'' then Some (opt\<lparr>qo_match := MATCH_CONDITION, qo_condition := Some optarg\<rparr>)
      else if ch = CHR ''g'' then Some (opt\<lparr>qo_match := MATCH_GLOB\<rparr>)
      else if ch = CHR ''i'' then Some (opt\<lparr>qo_case := False\<rparr>)
      else if ch = CHR ''I'' then Some (opt\<lparr>ro_index_output := True\<rparr>)
      else if ch = CHR ''r'' then Some (opt\<lparr>ro_reponame := Some optarg\<rparr>)
      else if ch = CHR ''U'' then Some (opt\<lparr>ro_auto_update := False\<rparr>)
      else if ch = CHR ''x'' then Some (opt\<lparr>qo_match := MATCH_REGEX\<rparr>)
      else None)"

fun rquery_options :: "(char \<times> string) list \<Rightarrow> rquery_opts \<Rightarrow> rquery_opts option" where
  "rquery_options [] opt = Some opt"
| "rquery_options ((ch, optarg) # xs) opt = (case rquery_option ch optarg opt of None \<Rightarrow> None | Some opt \<Rightarrow> rquery_options xs opt)"

definition index_format :: string where
  "index_format = ''%n-%v|%S/%o|%p|%c|%S/%o/pkg-descr|%m|%C%{%Cn%| %}||%d%{%dn-%dv%| %}|%w|||'' @ [CHR 0x0A]"

definition print_index :: "printf_env \<Rightarrow> struct_pkg \<Rightarrow> string option \<Rightarrow> string list run" where
  "print_index e pkg portsdir =
     run_bind (pkg_printf (Suc (length index_format)) e index_format
       [A_pkg pkg, A_pkg pkg, A_string portsdir, A_pkg pkg, A_pkg pkg, A_pkg pkg, A_string portsdir, A_pkg pkg, A_pkg pkg, A_pkg pkg, A_pkg pkg, A_pkg pkg])
       (\<lambda>(_, s). Ret [s])"

text \<open>What is printed of a package; a line of \<open>print_query\<close> has its newline here.\<close>

definition rquery_print :: "rquery_env \<Rightarrow> rquery_opts \<Rightarrow> string list \<Rightarrow> char \<Rightarrow> struct_pkg \<Rightarrow> string list run" where
  "rquery_print e opt argv multiline pkg =
     (if ro_index_output opt then print_index (rq_printf e) pkg (rq_portsdir e)
      else run_bind (print_query (rq_printf e) pkg (hd argv) multiline) (\<lambda>lines. Ret (map (\<lambda>s. s @ [CHR 0x0A]) lines)))"

definition rquery_match :: "rquery_opts \<Rightarrow> string list \<Rightarrow> match_t option" where
  "rquery_match opt argv =
     (if \<not> ro_index_output opt then
        (if length argv = 1 \<and> qo_condition opt = None \<and> qo_match opt = MATCH_EXACT then Some MATCH_ALL
         else if (length argv = 1) \<noteq> (qo_match opt = MATCH_ALL) \<and> qo_condition opt = None then None
         else Some (qo_match opt))
      else Some (if argv = [] then MATCH_ALL else qo_match opt))"

definition rquery_packages ::
  "rquery_env \<Rightarrow> rquery_opts \<Rightarrow> match_t \<Rightarrow> string list \<Rightarrow> pkg_load list \<Rightarrow> char \<Rightarrow> string option \<Rightarrow> (exit_code \<times> string list) run" where
  "rquery_packages e opt match argv fl multiline sqlcond =
     (let print = rquery_print e opt argv multiline;
          query = (\<lambda>pattern. rq_query e (ro_reponame opt) (qo_case opt) pattern match fl)
      in if match = MATCH_ALL \<or> match = MATCH_CONDITION then
           (case query (if match = MATCH_CONDITION then sqlcond else None) of
              None \<Rightarrow> Ret (EX_IOERR, [])
            | Some (pkgs, ret) \<Rightarrow> run_bind (print_pkgs print pkgs) (\<lambda>s. Ret (if ret \<noteq> EPKG_END then EX_SOFTWARE else EX_OK, s)))
         else
           run_bind (query_patterns (\<lambda>pkgname. query (Some pkgname)) print (if ro_index_output opt then argv else tl argv)) (\<lambda>(code, s, n).
             Ret (if n = 0 \<and> code = EX_OK then EX_UNAVAILABLE else code, s)))"

definition exec_rquery :: "rquery_env \<Rightarrow> (char \<times> string) list \<Rightarrow> string list \<Rightarrow> (exit_code \<times> string list) run" where
  "exec_rquery e opts argv =
     (case rquery_options opts (rquery_opts_new e) of
        None \<Rightarrow> Ret (EX_USAGE, [])
      | Some opt \<Rightarrow>
          if argv = [] \<and> \<not> ro_index_output opt then Ret (EX_USAGE, [])
          else case rquery_match opt argv of
            None \<Rightarrow> Ret (EX_USAGE, [])
          | Some match \<Rightarrow>
              (let (rc, fl, multiline) = (if ro_index_output opt then (EPKG_OK, [PKG_LOAD_BASIC], CHR 0x00)
                     else analyse_query_string (hd argv) accepted_rquery_flags [PKG_LOAD_BASIC] (CHR 0x00));
                   (rc', sqlcond) = condition_sql True (qo_condition opt);
                   fl = (if ro_index_output opt then [PKG_LOAD_BASIC, PKG_LOAD_CATEGORIES, PKG_LOAD_DEPS] else fl)
               in if rc \<noteq> EPKG_OK \<or> rc' \<noteq> EPKG_OK then Ret (EX_USAGE, [])
                  else if rq_access e = EPKG_ENOACCESS then Ret (EX_NOPERM, [])
                  else if rq_access e \<noteq> EPKG_OK then Ret (EX_IOERR, [])
                  else if ro_auto_update opt \<and> rq_update e (ro_reponame opt) \<noteq> EPKG_OK then Ret (Code (rq_update e (ro_reponame opt)), [])
                  else if rq_open e (ro_reponame opt) \<noteq> EPKG_OK then Ret (EX_IOERR, [])
                  else rquery_packages e opt match argv fl multiline sqlcond))"

section \<open>The commands end\<close>

lemma pkgs_printed: "(\<And>pkg. \<exists>s. print pkg = Ret s) \<Longrightarrow> \<exists>s. print_pkgs print pkgs = Ret s"
proof (induction pkgs)
  case (Cons pkg pkgs)
  then obtain s r where "print pkg = Ret s" "print_pkgs print pkgs = Ret r" by metis
  then show ?case by simp
qed simp

lemma patterns_printed: "(\<And>pkg. \<exists>s. print pkg = Ret s) \<Longrightarrow> \<exists>x. query_patterns query print argv = Ret x"
proof (induction argv)
  case (Cons p argv)
  show ?case
  proof (cases "query p")
    case (Some y)
    obtain s where "print_pkgs print (fst y) = Ret s" using pkgs_printed Cons.prems by metis
    moreover obtain x where "query_patterns query print argv = Ret x" using Cons by metis
    ultimately show ?thesis using Some by (cases y; cases x) simp
  qed simp
qed simp

lemma packages_printed:
  assumes "\<And>pkg. \<exists>s. print_query (qe_printf e) pkg (hd argv) ml = Ret s"
  shows "\<exists>r. query_packages e opt match argv fl ml sqlcond = Ret r \<and> (qr_locked r \<longrightarrow> qr_code r = EX_IOERR \<and> qr_lines r = [])"
proof -
  let ?print = "\<lambda>pkg. print_query (qe_printf e) pkg (hd argv) ml"
  show ?thesis
  proof (cases "match = MATCH_ALL \<or> match = MATCH_CONDITION")
    case True
    show ?thesis
    proof (cases "qe_query e (qo_case opt) (if match = MATCH_CONDITION then sqlcond else None) match fl")
      case (Some y)
      obtain s where "print_pkgs ?print (fst y) = Ret s" using pkgs_printed [of ?print, OF assms] by metis
      then show ?thesis using True Some by (cases y) (simp add: query_packages_def)
    qed (use True in \<open>simp add: query_packages_def\<close>)
  next
    case False
    obtain code s n where "query_patterns (\<lambda>pkgname. qe_query e (qo_case opt) (Some pkgname) match fl) ?print (tl argv) = Ret (code, s, n)"
      using patterns_printed [of ?print, OF assms] by (metis prod.exhaust)
    then show ?thesis using False by (simp add: query_packages_def)
  qed
qed


section \<open>The line of an index\<close>

text \<open>The text that a format gives for its arguments, whatever the fuel above its length.\<close>

definition prints :: "printf_env \<Rightarrow> string \<Rightarrow> arg list \<Rightarrow> string \<Rightarrow> bool" where
  "prints e f args s \<longleftrightarrow> (\<forall>n > length f. pkg_sbuf_vprintf n e f args = Ret s)"

lemma prints_end: "prints e [] args []"
  unfolding prints_def by (metis Suc_pred length_greater_0_conv list.size(3) pkg_sbuf_vprintf.simps(2))

lemma prints_plain:
  assumes "list_all (\<lambda>c. c \<noteq> CHR ''%'' \<and> c \<noteq> CHR 0x5C) w" "prints e f args s"
  shows "prints e (w @ f) args (w @ s)"
  using assms(1)
proof (induction w)
  case (Cons c w)
  show ?case unfolding prints_def
  proof (intro allI impI)
    fix n assume n: "length ((c # w) @ f) < n"
    then obtain m where "n = Suc m" by (cases n) auto
    then show "pkg_sbuf_vprintf n e ((c # w) @ f) args = Ret ((c # w) @ s)" using n Cons by (simp add: prints_def)
  qed
qed (use assms(2) in simp)

lemma prints_escape:
  assumes "parse_format (CHR ''%'' # f) PP_PKG new_percent_esc = (r, p)" "pe_fmt_code p \<le> PP_LAST_FORMAT"
    "fmt_handler (fmt ! pe_fmt_code p) e (iterate_item 1 e) data p = Ret (True, t)" "prints e r args s"
  shows "prints e (CHR ''%'' # f) (data # args) (t @ s)"
  unfolding prints_def
proof (intro allI impI)
  fix n assume n: "length (CHR ''%'' # f) < n"
  then obtain m where m: "n = Suc m" "length f < m" by (cases n) auto
  have "length r < m" using parse_format_length [of "CHR ''%'' # f" PP_PKG new_percent_esc] assms(1) m by simp
  then have "pkg_sbuf_vprintf m e r args = Ret s" using assms(4) by (simp add: prints_def)
  moreover have "process_format_main e p (CHR ''%'' # f) r data = Ret (t, r)" using assms(3) by (simp add: process_format_main_def)
  ultimately show "pkg_sbuf_vprintf n e (CHR ''%'' # f) (data # args) = Ret (t @ s)" using assms(1,2) m by simp
qed

text \<open>The texts of the single letters.\<close>

definition letter_texts :: "struct_pkg \<Rightarrow> string option \<Rightarrow> (char \<times> nat \<times> arg \<times> string option) list" where
  "letter_texts pkg portsdir =
     [(CHR ''n'', 53, A_pkg pkg, pkg_get_string pkg PKG_NAME), (CHR ''v'', 65, A_pkg pkg, pkg_get_string pkg PKG_VERSION),
      (CHR ''S'', 35, A_string portsdir, portsdir), (CHR ''o'', 54, A_pkg pkg, pkg_get_string pkg PKG_ORIGIN),
      (CHR ''p'', 55, A_pkg pkg, pkg_get_string pkg PKG_PREFIX), (CHR ''c'', 43, A_pkg pkg, pkg_get_string pkg PKG_COMMENT),
      (CHR ''m'', 52, A_pkg pkg, pkg_get_string pkg PKG_MAINTAINER), (CHR ''w'', 66, A_pkg pkg, pkg_get_string pkg PKG_WWW)]"

lemma letters_parse:
  assumes "d \<noteq> CHR 0x00"
  shows "list_all (\<lambda>(c, n, x). parse_format (CHR ''%'' # c # d # r) PP_PKG new_percent_esc = (d # r, new_code 0 n)) (letter_texts pkg portsdir)"
  using assms by (simp add: letter_texts_def parse_eval new_code_def new_percent_esc_def)

lemma letter_parse:
  "d \<noteq> CHR 0x00 \<Longrightarrow> (c, n, x) \<in> set (letter_texts pkg portsdir)
    \<Longrightarrow> parse_format (CHR ''%'' # c # d # r) PP_PKG new_percent_esc = (d # r, new_code 0 n)"
  using letters_parse [of d r pkg portsdir] unfolding list_all_iff by fast

lemma letter_handlers:
  "list_all (\<lambda>(c, n, data, x). n \<le> PP_LAST_FORMAT \<and> (\<forall>p. fmt_handler (fmt ! n) e it data p = Ret (string_val e x p))) (letter_texts pkg portsdir)"
  by (simp add: letter_texts_def PP_LAST_FORMAT_def fmt_def row_def handler_defs with_pkg_def)

lemma letter_handler:
  "(c, n, data, x) \<in> set (letter_texts pkg portsdir) \<Longrightarrow> n \<le> PP_LAST_FORMAT \<and> fmt_handler (fmt ! n) e it data p = Ret (string_val e x p)"
  using letter_handlers [of e it pkg portsdir] unfolding list_all_iff by fast

lemma prints_letter:
  assumes "(c, n, data, x) \<in> set (letter_texts pkg portsdir)" "d \<noteq> CHR 0x00" "prints e (d # r) args s"
  shows "prints e (CHR ''%'' # c # d # r) (data # args) (null_string x @ s)"
proof (rule prints_escape [OF letter_parse [OF assms(2,1)]])
  have "string_val e x (new_code 0 n) = (True, null_string x)" by (rule string_val_plain) (simp_all add: new_code_def new_percent_esc_def)
  then show "fmt_handler (fmt ! pe_fmt_code (new_code 0 n)) e (iterate_item 1 e) data (new_code 0 n) = Ret (True, null_string x)"
    using letter_handler [OF assms(1)] by simp
qed (use assms letter_handler in \<open>auto\<close>)

lemma prints_letters:
  assumes "d \<noteq> CHR 0x00" "prints e (d # r) args s"
  shows "prints e (''%n'' @ d # r) (A_pkg pkg # args) (null_string (pkg_get_string pkg PKG_NAME) @ s)"
    "prints e (''%v'' @ d # r) (A_pkg pkg # args) (null_string (pkg_get_string pkg PKG_VERSION) @ s)"
    "prints e (''%S'' @ d # r) (A_string portsdir # args) (null_string portsdir @ s)"
    "prints e (''%o'' @ d # r) (A_pkg pkg # args) (null_string (pkg_get_string pkg PKG_ORIGIN) @ s)"
    "prints e (''%p'' @ d # r) (A_pkg pkg # args) (null_string (pkg_get_string pkg PKG_PREFIX) @ s)"
    "prints e (''%c'' @ d # r) (A_pkg pkg # args) (null_string (pkg_get_string pkg PKG_COMMENT) @ s)"
    "prints e (''%m'' @ d # r) (A_pkg pkg # args) (null_string (pkg_get_string pkg PKG_MAINTAINER) @ s)"
    "prints e (''%w'' @ d # r) (A_pkg pkg # args) (null_string (pkg_get_string pkg PKG_WWW) @ s)"
  by (simp, rule prints_letter [OF _ assms], simp add: letter_texts_def)+

definition list_code :: "string \<Rightarrow> nat \<Rightarrow> percent_esc" where
  "list_code item n = new_percent_esc\<lparr>pe_item_set := True, pe_sep_set := True, pe_item_fmt := item, pe_sep_fmt := '' '', pe_fmt_code := n\<rparr>"

lemma index_lists_parse:
  "parse_format (''%C%{%Cn%| %}'' @ r) PP_PKG new_percent_esc = (r, list_code ''%Cn'' 6)"
  "parse_format (''%d%{%dn-%dv%| %}'' @ r) PP_PKG new_percent_esc = (r, list_code ''%dn-%dv'' 48)"
  by (simp_all add: parse_eval format_trailer_def list_code_def new_percent_esc_def)

lemma index_items_parse:
  "parse_format ''%Cn'' PP_C new_percent_esc = ([], new_code 0 5)"
  "parse_format ''%dn-%dv'' PP_d new_percent_esc = (''-%dv'', new_code 0 45)"
  "parse_format ''%dv'' PP_d new_percent_esc = ([], new_code 0 47)"
  by (simp_all add: parse_eval new_code_def new_percent_esc_def)

lemma index_handlers:
  "fmt_handler (fmt ! 5) = format_category_name" "fmt_handler (fmt ! 6) = format_categories" "\<not> fmt_struct_pkg (fmt ! 5)"
  by (simp_all add: fmt_def row_def)

lemma index_items:
  "items e it pkg ''%Cn'' (A_object node) n PP_C = Ret (null_string (node_string node))"
  "items e it pkg ''%dn-%dv'' (A_dep dep) n PP_d = Ret (dep_name dep @ ''-'' @ dep_version dep)"
proof -
  have s: "string_val e x (new_code 0 k) = (True, null_string x)" for x k by (rule string_val_plain) (simp_all add: new_code_def new_percent_esc_def)
  show "items e it pkg ''%Cn'' (A_object node) n PP_C = Ret (null_string (node_string node))"
    by (simp add: process_format_trailer_def index_items_parse index_handlers trailer_data_def PP_ROW_COUNTER_def PP_LAST_FORMAT_def format_category_name_def
      with_object_def s)
  show "items e it pkg ''%dn-%dv'' (A_dep dep) n PP_d = Ret (dep_name dep @ ''-'' @ dep_version dep)"
    by (simp add: process_format_trailer_def index_items_parse fmt_nth trailer_data_def PP_ROW_COUNTER_def PP_LAST_FORMAT_def
      format_dependency_name_def format_dependency_version_def with_dep_def s null_string_def)
qed

definition category_texts :: "struct_pkg \<Rightarrow> string list" where
  "category_texts pkg = map (\<lambda>node. null_string (node_string node)) (pkg_object_iterate (pkg_get pkg PKG_CATEGORIES))"

definition dep_texts :: "struct_pkg \<Rightarrow> string list" where
  "dep_texts pkg = map (\<lambda>(_, dep). dep_name dep @ ''-'' @ dep_version dep) (pk_deps pkg)"

lemma prints_lists:
  assumes "prints e r args s"
  shows "prints e (''%C%{%Cn%| %}'' @ r) (A_pkg pkg # args) (join '' '' (category_texts pkg) @ s)"
    "prints e (''%d%{%dn-%dv%| %}'' @ r) (A_pkg pkg # args) (join '' '' (dep_texts pkg) @ s)"
proof -
  have sp: "spells '' '' '' ''" by (intro spells.intros) simp_all
  have c: "iterate_list (iterate_item 1 e) pkg (list_code ''%Cn'' 6) PP_C 1 (map A_object xs) = Ret (join '' '' (map (\<lambda>node. null_string (node_string node)) xs))" for xs
    by (rule iterate_list_join [where p = "list_code ''%Cn'' 6" and s = "'' ''"])
      (simp_all add: index_items spelled_items [OF sp] list_code_def del: items.simps)
  have d: "iterate_list (iterate_item 1 e) pkg (list_code ''%dn-%dv'' 48) PP_d 1 (map (A_dep \<circ> snd) xs)
      = Ret (join '' '' (map ((\<lambda>dep. dep_name dep @ ''-'' @ dep_version dep) \<circ> snd) xs))" for xs
    by (rule iterate_list_join [where p = "list_code ''%dn-%dv'' 48" and s = "'' ''"])
      (simp_all add: index_items spelled_items [OF sp] list_code_def del: items.simps)
  have l: "set_list_defaults (list_code i n) a b = list_code i n" "pe_flags (list_code i n) = 0" "pe_fmt_code (list_code i n) = n" for i n a b
    by (simp_all add: list_code_def set_list_defaults_def new_percent_esc_def)
  have "prints e (CHR ''%'' # (''C%{%Cn%| %}'' @ r)) (A_pkg pkg # args) (join '' '' (category_texts pkg) @ s)"
  proof (rule prints_escape)
    show "parse_format (CHR ''%'' # (''C%{%Cn%| %}'' @ r)) PP_PKG new_percent_esc = (r, list_code ''%Cn'' 6)" using index_lists_parse(1) [of r] by simp
    show "fmt_handler (fmt ! pe_fmt_code (list_code ''%Cn'' 6)) e (iterate_item 1 e) (A_pkg pkg) (list_code ''%Cn'' 6) = Ret (True, join '' '' (category_texts pkg))"
      using c unfolding l index_handlers by (simp add: format_categories_def format_list_def list_flags l category_texts_def)
  qed (use assms in \<open>simp_all add: l PP_LAST_FORMAT_def\<close>)
  then show "prints e (''%C%{%Cn%| %}'' @ r) (A_pkg pkg # args) (join '' '' (category_texts pkg) @ s)" by simp
  have "prints e (CHR ''%'' # (''d%{%dn-%dv%| %}'' @ r)) (A_pkg pkg # args) (join '' '' (dep_texts pkg) @ s)"
  proof (rule prints_escape)
    show "parse_format (CHR ''%'' # (''d%{%dn-%dv%| %}'' @ r)) PP_PKG new_percent_esc = (r, list_code ''%dn-%dv'' 48)"
      using index_lists_parse(2) [of r] by simp
    show "fmt_handler (fmt ! pe_fmt_code (list_code ''%dn-%dv'' 48)) e (iterate_item 1 e) (A_pkg pkg) (list_code ''%dn-%dv'' 48)
        = Ret (True, join '' '' (dep_texts pkg))"
      using d [of "pk_deps pkg"] unfolding l fmt_nth by (simp add: format_dependencies_def format_list_def list_flags l dep_texts_def comp_def case_prod_unfold)
  qed (use assms in \<open>simp_all add: l PP_LAST_FORMAT_def\<close>)
  then show "prints e (''%d%{%dn-%dv%| %}'' @ r) (A_pkg pkg # args) (join '' '' (dep_texts pkg) @ s)" by simp
qed

definition index_text :: "struct_pkg \<Rightarrow> string option \<Rightarrow> string" where
  "index_text pkg portsdir =
     (let get = (\<lambda>attr. null_string (pkg_get_string pkg attr)); dir = null_string portsdir @ ''/'' @ get PKG_ORIGIN
      in join ''|'' [get PKG_NAME @ ''-'' @ get PKG_VERSION, dir, get PKG_PREFIX, get PKG_COMMENT, dir @ ''/pkg-descr'', get PKG_MAINTAINER,
           join '' '' (category_texts pkg), [], join '' '' (dep_texts pkg), get PKG_WWW, [], [], [CHR 0x0A]])"

lemma prints_char: "prints e f args s \<Longrightarrow> c \<noteq> CHR ''%'' \<Longrightarrow> c \<noteq> CHR 0x5C \<Longrightarrow> prints e (c # f) args (c # s)"
  using prints_plain [of "[c]"] by simp

lemmas prints_intros = prints_letters [simplified append.simps] prints_lists [simplified append.simps]

lemma prints_index:
  "prints e index_format
     [A_pkg pkg, A_pkg pkg, A_string portsdir, A_pkg pkg, A_pkg pkg, A_pkg pkg, A_string portsdir, A_pkg pkg, A_pkg pkg, A_pkg pkg, A_pkg pkg, A_pkg pkg]
     (index_text pkg portsdir)"
  unfolding index_format_def index_text_def Let_def join.simps(2,3) append.simps append_assoc append_Nil
  by (rule prints_intros prints_end prints_char | simp; fail)+

lemma index_printed: "print_index e pkg portsdir = Ret [sbuf_data (index_text pkg portsdir)]"
  using prints_index [of e pkg portsdir] unfolding prints_def print_index_def pkg_printf_def pkg_vprintf_def by (simp del: pkg_sbuf_vprintf.simps)

text \<open>
  C36: The line of the index is the name with the version, the directory of the port, the prefix, the comment, the description file, the maintainer, the
  categories, an empty field, the dependencies, the address and two empty fields, with bars between them.
\<close>

theorem index_line: "print_index e pkg portsdir = Ret [sbuf_data (index_text pkg portsdir)]"
  by (rule index_printed)

lemma rquery_pkg_printed:
  assumes "ro_index_output opt \<or> (\<forall>pkg. \<exists>s. print_query (rq_printf e) pkg (hd argv) ml = Ret s)"
  shows "\<exists>s. rquery_print e opt argv ml pkg = Ret s"
proof (cases "ro_index_output opt")
  case False
  then obtain s where "print_query (rq_printf e) pkg (hd argv) ml = Ret s" using assms by metis
  then show ?thesis using False by (simp add: rquery_print_def)
qed (simp add: rquery_print_def index_printed)

lemma rquery_packages_printed:
  assumes "\<And>pkg. \<exists>s. rquery_print e opt argv ml pkg = Ret s"
  shows "\<exists>r. rquery_packages e opt match argv fl ml sqlcond = Ret r"
proof (cases "match = MATCH_ALL \<or> match = MATCH_CONDITION")
  case True
  show ?thesis
  proof (cases "rq_query e (ro_reponame opt) (qo_case opt) (if match = MATCH_CONDITION then sqlcond else None) match fl")
    case (Some y)
    obtain s where "print_pkgs (rquery_print e opt argv ml) (fst y) = Ret s" using pkgs_printed [of "rquery_print e opt argv ml", OF assms] by blast
    then show ?thesis using True Some by (cases y) (simp add: rquery_packages_def)
  qed (use True in \<open>simp add: rquery_packages_def\<close>)
next
  case False
  let ?query = "\<lambda>pkgname. rq_query e (ro_reponame opt) (qo_case opt) (Some pkgname) match fl"
  obtain code s n where "query_patterns ?query (rquery_print e opt argv ml) (if ro_index_output opt then argv else tl argv) = Ret (code, s, n)"
    using patterns_printed [of "rquery_print e opt argv ml", OF assms] by (metis prod.exhaust)
  then show ?thesis using False unfolding rquery_packages_def Let_def by simp
qed

lemma rquery_ends:
  assumes "argv \<noteq> [] \<longrightarrow> whole_escapes (hd argv)"
  shows "\<exists>r. exec_rquery e opts argv = Ret r"
proof (cases "rquery_options opts (rquery_opts_new e)")
  case (Some opt)
  obtain rc fl ml where a: "analyse_query_string (hd argv) accepted_rquery_flags [PKG_LOAD_BASIC] (CHR 0x00) = (rc, fl, ml)" by (metis prod.exhaust)
  have go: "\<exists>r. rquery_packages e opt match argv fl ml sqlcond = Ret r"
    if "ro_index_output opt \<or> argv \<noteq> [] \<and> analyse_query_string (hd argv) accepted_rquery_flags [PKG_LOAD_BASIC] (CHR 0x00) = (EPKG_OK, fl', ml)"
    for match fl fl' ml sqlcond
  proof (rule rquery_packages_printed [OF rquery_pkg_printed])
    show "ro_index_output opt \<or> (\<forall>pkg. \<exists>s. print_query (rq_printf e) pkg (hd argv) ml = Ret s)"
      using that analysed_printed [of accepted_rquery_flags "hd argv"] assms by (fastforce simp: accepted_tables_def)
  qed
  show ?thesis
  proof (cases "ro_index_output opt")
    case True
    note p = go [OF disjI1 [OF True]]
    show ?thesis unfolding exec_rquery_def Some Let_def option.case using True p by (simp split: option.split prod.split)
  next
    case False
    note p = go [OF disjI2]
    show ?thesis
      unfolding exec_rquery_def Some a Let_def option.case using False p a by (simp split: option.split prod.split)
  qed
qed (simp add: exec_rquery_def)

section \<open>What the database is asked\<close>

text \<open>Two databases that agree on patterns, and on the conditions that are one expression.\<close>

definition agree_on_expressions :: "bool \<Rightarrow> db_query \<Rightarrow> db_query \<Rightarrow> bool" where
  "agree_on_expressions for_remote q q' \<longleftrightarrow>
     (\<forall>c pattern match fl. match \<noteq> MATCH_CONDITION \<or> (\<exists>t. pattern = Some ('' WHERE '' @ t) \<and> sql_expr for_remote t)
        \<longrightarrow> q c pattern match fl = q' c pattern match fl)"

definition has_condition :: "'a query_opts_scheme \<Rightarrow> bool" where
  "has_condition opt \<longleftrightarrow> (qo_match opt = MATCH_CONDITION \<longrightarrow> qo_condition opt \<noteq> None)"

lemma options_condition: "query_options opts opt = Some opt' \<Longrightarrow> has_condition opt \<Longrightarrow> has_condition opt'"
proof (induction opts opt rule: query_options.induct)
  case (2 ch optarg xs opt)
  then obtain o1 where o1: "query_option ch optarg opt = Some o1" "query_options xs o1 = Some opt'" by (auto split: option.splits)
  then have "has_condition o1" using 2(3) by (auto simp: query_option_def has_condition_def split: if_splits)
  then show ?case using 2(1) o1 by simp
qed simp

lemma roptions_condition: "rquery_options opts opt = Some opt' \<Longrightarrow> has_condition opt \<Longrightarrow> has_condition opt'"
proof (induction opts opt rule: rquery_options.induct)
  case (2 ch optarg xs opt)
  then obtain o1 where o1: "rquery_option ch optarg opt = Some o1" "rquery_options xs o1 = Some opt'" by (auto split: option.splits)
  then have "has_condition o1" using 2(3) by (auto simp: rquery_option_def has_condition_def split: if_splits)
  then show ?case using 2(1) o1 by simp
qed simp

lemma match_condition: "query_match opt argv = Some MATCH_CONDITION \<Longrightarrow> has_condition opt \<Longrightarrow> qo_condition opt \<noteq> None"
  by (auto simp: query_match_def has_condition_def split: if_splits)

lemma rmatch_condition: "rquery_match opt argv = Some MATCH_CONDITION \<Longrightarrow> has_condition opt \<Longrightarrow> qo_condition opt \<noteq> None"
  by (auto simp: rquery_match_def has_condition_def split: if_splits)

lemma patterns_agree: "(\<And>p. query p = query' p) \<Longrightarrow> query_patterns query print argv = query_patterns query' print argv"
proof -
  assume "\<And>p. query p = query' p"
  then have "query = query'" by blast
  then show ?thesis by simp
qed

lemma packages_agree:
  assumes "agree_on_expressions False (qe_query e) q" "match = MATCH_CONDITION \<Longrightarrow> \<exists>t. sqlcond = Some ('' WHERE '' @ t) \<and> sql_expr False t"
  shows "query_packages (e\<lparr>qe_query := q\<rparr>) opt match argv fl ml sqlcond = query_packages e opt match argv fl ml sqlcond"
proof -
  have "qe_query e c (if match = MATCH_CONDITION then sqlcond else None) match fl = q c (if match = MATCH_CONDITION then sqlcond else None) match fl" for c
    using assms unfolding agree_on_expressions_def by (cases "match = MATCH_CONDITION") auto
  moreover have "qe_query e c (Some p) match fl = q c (Some p) match fl" if "match \<noteq> MATCH_CONDITION" for c p
    using assms(1) that unfolding agree_on_expressions_def by blast
  ultimately show ?thesis by (simp add: query_packages_def Let_def)
qed

lemma rpackages_agree:
  assumes "\<forall>r. agree_on_expressions True (rq_query e r) (q r)" "match = MATCH_CONDITION \<Longrightarrow> \<exists>t. sqlcond = Some ('' WHERE '' @ t) \<and> sql_expr True t"
  shows "rquery_packages (e\<lparr>rq_query := q\<rparr>) opt match argv fl ml sqlcond = rquery_packages e opt match argv fl ml sqlcond"
proof -
  have "rq_query e r c (if match = MATCH_CONDITION then sqlcond else None) match fl = q r c (if match = MATCH_CONDITION then sqlcond else None) match fl" for r c
    using assms unfolding agree_on_expressions_def by (cases "match = MATCH_CONDITION") auto
  moreover have "rq_query e r c (Some p) match fl = q r c (Some p) match fl" if "match \<noteq> MATCH_CONDITION" for r c p
    using assms(1) that unfolding agree_on_expressions_def by blast
  moreover have "rquery_print (e\<lparr>rq_query := q\<rparr>) = rquery_print e" by (intro ext) (simp add: rquery_print_def)
  ultimately show ?thesis by (simp add: rquery_packages_def Let_def)
qed

lemma condition_sql_expr: "condition_sql for_remote c = (EPKG_OK, sqlcond) \<Longrightarrow> c \<noteq> None \<Longrightarrow> \<exists>t. sqlcond = Some ('' WHERE '' @ t) \<and> sql_expr for_remote t"
  using condition_sql_expression [of "the c" for_remote] by (auto simp: condition_sql_def split: prod.splits)

lemma query_agrees:
  assumes "agree_on_expressions False (qe_query e) q"
  shows "exec_query (e\<lparr>qe_query := q\<rparr>) opts argv = exec_query e opts argv"
proof (cases "query_options opts query_opts_new")
  case (Some opt)
  have h: "has_condition opt" using options_condition [OF Some] by (simp add: has_condition_def query_opts_new_def)
  obtain rc sqlcond where c: "condition_sql False (qo_condition opt) = (rc, sqlcond)" by fastforce
  have p: "query_packages (e\<lparr>qe_query := q\<rparr>) opt match argv fl ml sqlcond = query_packages e opt match argv fl ml sqlcond"
    if "query_match opt argv = Some match" "rc = EPKG_OK" for match fl ml
  proof (rule packages_agree [OF assms])
    assume "match = MATCH_CONDITION"
    then have "qo_condition opt \<noteq> None" using match_condition [of opt argv] that(1) h by simp
    then show "\<exists>t. sqlcond = Some ('' WHERE '' @ t) \<and> sql_expr False t" using condition_sql_expr c that(2) by simp
  qed
  obtain rc' fl ml where a: "analyse_query_string (hd argv) accepted_query_flags [PKG_LOAD_BASIC] (CHR 0x00) = (rc', fl, ml)" by (metis prod.exhaust)
  show ?thesis
  proof (cases "query_match opt argv")
    case (Some match)
    have e: "qe_printf (e\<lparr>qe_query := q\<rparr>) = qe_printf e" "qe_install (e\<lparr>qe_query := q\<rparr>) = qe_install e" "qe_fs (e\<lparr>qe_query := q\<rparr>) = qe_fs e"
      by simp_all
    show ?thesis unfolding exec_query_def Some \<open>query_options opts query_opts_new = Some opt\<close> c a Let_def prod.case option.case e
      using p [OF Some] by (cases "qo_pkgname opt") simp_all
  qed (simp add: exec_query_def \<open>query_options opts query_opts_new = Some opt\<close>)
qed (simp add: exec_query_def)

lemma rquery_agrees:
  assumes "\<forall>r. agree_on_expressions True (rq_query e r) (q r)"
  shows "exec_rquery (e\<lparr>rq_query := q\<rparr>) opts argv = exec_rquery e opts argv"
proof (cases "rquery_options opts (rquery_opts_new e)")
  case None
  then show ?thesis by (simp add: exec_rquery_def rquery_opts_new_def)
next
  case (Some opt)
  have o: "rquery_options opts (rquery_opts_new (e\<lparr>rq_query := q\<rparr>)) = Some opt" using Some by (simp add: rquery_opts_new_def)
  have "has_condition (rquery_opts_new e)" by (simp add: has_condition_def rquery_opts_new_def query_opts_new_def query_opts.defs)
  then have h: "has_condition opt" using roptions_condition [OF Some] by simp
  obtain rc sqlcond where c: "condition_sql True (qo_condition opt) = (rc, sqlcond)" by fastforce
  have p: "rquery_packages (e\<lparr>rq_query := q\<rparr>) opt match argv fl ml sqlcond = rquery_packages e opt match argv fl ml sqlcond"
    if "rquery_match opt argv = Some match" "rc = EPKG_OK" for match fl ml
  proof (rule rpackages_agree [OF assms])
    assume "match = MATCH_CONDITION"
    then have "qo_condition opt \<noteq> None" using rmatch_condition [of opt argv] that(1) h by simp
    then show "\<exists>t. sqlcond = Some ('' WHERE '' @ t) \<and> sql_expr True t" using condition_sql_expr c that(2) by simp
  qed
  obtain rc' fl ml where a: "(if ro_index_output opt then (EPKG_OK, [PKG_LOAD_BASIC], CHR 0x00)
      else analyse_query_string (hd argv) accepted_rquery_flags [PKG_LOAD_BASIC] (CHR 0x00)) = (rc', fl, ml)" by (metis prod.exhaust)
  show ?thesis
  proof (cases "rquery_match opt argv")
    case (Some match)
    show ?thesis unfolding exec_rquery_def Some o \<open>rquery_options opts (rquery_opts_new e) = Some opt\<close> c a Let_def prod.case option.case
      using p [OF Some] by simp
  qed (simp add: exec_rquery_def o \<open>rquery_options opts (rquery_opts_new e) = Some opt\<close>)
qed

text \<open>
  C35: The database is never given anything but one expression as a condition: a database that behaves otherwise on other conditions makes no difference to
  the commands query and rquery, whatever the user gives them.
\<close>

theorem database_gets_expressions:
  assumes "agree_on_expressions False (qe_query e) q" "\<forall>r. agree_on_expressions True (rq_query e' r) (q' r)"
  shows "exec_query (e\<lparr>qe_query := q\<rparr>) opts argv = exec_query e opts argv \<and> exec_rquery (e'\<lparr>rq_query := q'\<rparr>) opts argv = exec_rquery e' opts argv"
  using query_agrees [OF assms(1)] rquery_agrees [OF assms(2)] by simp

text \<open>The lock stays when there is no iterator.\<close>

lemma lock_kept:
  assumes "qe_access e = EPKG_OK" "qe_open e = EPKG_OK" "qe_lock e = EPKG_OK" "qe_query e False None MATCH_ALL [PKG_LOAD_BASIC, PKG_LOAD_BASIC] = None"
  shows "exec_query e [] [''%n''] = Ret \<lparr>qr_code = EX_IOERR, qr_lines = [], qr_locked = True\<rparr>"
proof -
  have "analyse_query_string ''%n'' accepted_query_flags [PKG_LOAD_BASIC] (CHR 0x00) = (EPKG_OK, [PKG_LOAD_BASIC, PKG_LOAD_BASIC], CHR 0x00)" by code_simp
  then show ?thesis using assms by (simp add: exec_query_def query_opts_new_def query_match_def condition_sql_def query_packages_def)
qed

text \<open>
  Whether the repositories are updated without the option \<open>U\<close> depends on what was on the stack.
\<close>

lemma update_undefined:
  "\<exists>e. exec_rquery (e\<lparr>rq_stack := True\<rparr>) [] [''%n''] \<noteq> exec_rquery (e\<lparr>rq_stack := False\<rparr>) [] [''%n'']"
proof -
  have a: "analyse_query_string ''%n'' accepted_rquery_flags [PKG_LOAD_BASIC] (CHR 0x00) = (EPKG_OK, [PKG_LOAD_BASIC, PKG_LOAD_BASIC], CHR 0x00)" by code_simp
  let ?e = "\<lparr>rq_printf = demo_printf, rq_portsdir = None, rq_stack = True, rq_access = EPKG_OK, rq_update = (\<lambda>_. EPKG_FATAL), rq_open = (\<lambda>_. EPKG_FATAL),
    rq_query = (\<lambda>_ _ _ _ _. None)\<rparr>"
  have "exec_rquery (?e\<lparr>rq_stack := True\<rparr>) [] [''%n''] \<noteq> exec_rquery (?e\<lparr>rq_stack := False\<rparr>) [] [''%n'']"
    by (simp add: exec_rquery_def rquery_opts_new_def query_opts_new_def query_opts.defs rquery_match_def a condition_sql_def)
  then show ?thesis by blast
qed

section \<open>Concrete instances\<close>

definition demo_db :: db_query where
  "demo_db c pattern match fl = Some ([full_pkg], EPKG_END)"

definition strict_db :: db_query where
  "strict_db c pattern match fl =
     (if match = MATCH_CONDITION \<and> take 7 (case pattern of None \<Rightarrow> [] | Some s \<Rightarrow> s) \<noteq> '' WHERE '' then None else demo_db c pattern match fl)"

definition demo_query :: "nat query_env" where
  "demo_query = \<lparr>qe_printf = demo_printf, qe_install = demo_install, qe_fs = [], qe_access = EPKG_OK, qe_open = EPKG_OK, qe_lock = EPKG_OK,
     qe_query = demo_db\<rparr>"

definition demo_rquery :: rquery_env where
  "demo_rquery = \<lparr>rq_printf = demo_printf, rq_portsdir = Some ''/usr/ports'', rq_stack = False, rq_access = EPKG_OK, rq_update = (\<lambda>_. EPKG_OK),
     rq_open = (\<lambda>_. EPKG_OK), rq_query = (\<lambda>_. demo_db)\<rparr>"


theorem database_gets_expressions_witness:
  "exec_query (demo_query\<lparr>qe_query := strict_db\<rparr>) [(CHR ''e'', ''%s > 0'')] [''%n'']
     = exec_query demo_query [(CHR ''e'', ''%s > 0'')] [''%n'']
   \<and> exec_rquery (demo_rquery\<lparr>rq_query := (\<lambda>_. strict_db)\<rparr>) [(CHR ''e'', ''%s > 0'')] [''%n'']
     = exec_rquery demo_rquery [(CHR ''e'', ''%s > 0'')] [''%n'']"
proof (rule database_gets_expressions)
  show "agree_on_expressions False (qe_query demo_query) strict_db" by (auto simp: agree_on_expressions_def strict_db_def demo_query_def)
  show "\<forall>r. agree_on_expressions True (rq_query demo_rquery r) strict_db" by (auto simp: agree_on_expressions_def strict_db_def demo_rquery_def)
qed

end
