(* ===== verification/Spec2Isabelle.thy ===== *)
theory Spec2Isabelle
  imports Prelude Utlist Version Package Checksum Solver Universe Priorities Conflicts Jobs Fetch Execute Vulnerabilities Objects Manifests Manifest_reading Install Printf Query Query_exec
begin

text \<open>
  A verification library for \<open>pkg\<close>, the binary package manager for FreeBSD (\<open>libpkg/\<close> and \<open>src/\<close>).

  \<^bold>\<open>The program.\<close> A command such as \<open>pkg install\<close> makes a job (\<open>libpkg/pkg_jobs.c\<close>). The job turns its patterns
  into requests and collects a universe: the installed and remote packages that can bear on the requests, with their dependencies,
  reverse dependencies, conflicts and libraries (\<open>pkg_jobs_universe.c\<close>). One candidate is kept per package that can be
  upgraded (by version, \<open>pkg_version.c\<close>; packages are told apart by a digest, \<open>pkg_checksum.c\<close>). The solver translates
  the universe to clauses, asks PicoSAT and translates the answer back to a list of installations, upgrades and removals
  (\<open>pkg_solve.c\<close>). The packages are fetched into the cache and checked (\<open>repo/binary/fetch.c\<close>), their files are
  checked for conflicts (\<open>pkg_jobs_conflicts.c\<close>, \<open>pkgdb.c\<close>), the list is put in an order in which dependencies come
  first, and executed. Package files and repositories describe a package by a manifest (\<open>pkg_manifest.c\<close>), which is read into
  the object that the functions of \<open>pkg.c\<close> fill. Beside this, \<open>pkg audit\<close> looks for installed packages with known vulnerabilities
  (\<open>pkg_audit.c\<close>), and \<open>pkg query\<close> prints packages by a format (\<open>src/query.c\<close>, \<open>pkg_printf.c\<close>).

  \<^bold>\<open>The theories\<close>, in the order in which they build on each other; every definition has the name of the C function or type
  that it translates, or is a loop body or a branch of one, named by what it does.

  \<^item> \<open>Prelude\<close>: the error codes \<open>EPKG_*\<close>, C characters and strings (a string is the list of its bytes, a pointer into
    it is a suffix), the tables of \<open>uthash.h\<close> with the interface \<open>ordered_hash\<close>, and \<open>run\<close>, the results of functions
    that may fail an assertion (\<open>Crash\<close>) or run out of fuel (\<open>NoFuel\<close>).
  \<^item> \<open>Utlist\<close>: \<open>LL_SORT\<close> and \<open>DL_SORT\<close> of \<open>utlist.h\<close>; the interface \<open>three_way_cmp\<close> is what a
    comparison callback promises. The sort returns an ordered permutation for every callback that keeps the promise, and each
    callback of the program is shown to keep it.
  \<^item> \<open>Version\<close>: \<open>split_version\<close>, \<open>get_component\<close> and \<open>pkg_version_cmp\<close>. The comparison is the lexicographic order of
    an abstract version (epoch, blocks of components, revision) and so a total preorder.
  \<^item> \<open>Package\<close>: \<open>struct pkg\<close>, the items of a universe, requests, jobs. An item is shared by pointer, so items live in a
    store and are named by their address; the chain of the items of one uid is a list of addresses.
  \<^item> \<open>Checksum\<close>: the digest of a package. It does not depend on the order of the lists of the package, is recognised as
    valid, and different hashes give different texts.
  \<^item> \<open>Solver\<close>: variables, rules, the SAT instance and the jobs of an assignment. A success means that the packages the jobs
    leave behind satisfy all dependencies, conflicts and requests; it is reached when such a set exists; a repeated round has
    fewer requests.
  \<^item> \<open>Universe\<close>: how a package is added with everything that bears on it, and how the candidates of one uid are reduced to one.
    Adding keeps the universe in the form that the solver relies on and ends.
  \<^item> \<open>Priorities\<close>: the recursive update of the priorities, the split of conflicting upgrades, the sort of the jobs. What a
    package needs is installed before it.
  \<^item> \<open>Conflicts\<close>: conflicts between requests, the check of the files, the registration of what it finds. A check without a
    report means that no path is shared.
  \<^item> \<open>Jobs\<close>: patterns, candidates, upgrades, automatic packages, the reasons of removals, the requests of each kind of job.
  \<^item> \<open>Fetch\<close>: a file system as a table from paths to nodes, the names in the cache, the fetch with its checks and its
    single retry. The interface \<open>downloads\<close> is what the loop over the packages of a job relies on; the fetch into the cache and
    the copy to a mirror are its two instances.
  \<^item> \<open>Execute\<close>: the loop around the solver and the check of the files (\<open>pkg_jobs_solve\<close>), the fetches and the execution of the
    list (\<open>pkg_jobs_apply\<close>). The result of the loop realises a consistent set of packages; the execution performs a prefix of
    the plan and stops at the first failure.
  \<^item> \<open>Vulnerabilities\<close>: the handlers of the XML parser as a state machine, the sorted array and the search. What the document says is
    what is reported. The interface \<open>glob\<close> is what the search relies on in \<open>fnmatch\<close>.
  \<^item> \<open>Objects\<close>: the whole \<open>struct pkg\<close> with the functions of \<open>pkg.c\<close> that set, get and add, on the objects of
    \<open>libucl\<close> (\<open>ucl_util.c\<close>). The other theories use the smaller package of theory \<open>Package\<close>.
  \<^item> \<open>Manifests\<close>: the table of keys, the encoding of texts, the parser and the emitter of \<open>pkg_manifest.c\<close>. What is written and read
    again is the package that was written, but for what \<open>attribute_read\<close> says.
  \<^item> \<open>Manifest_reading\<close>: any manifest gives a well-formed package; which manifests are read without a failing assertion; a package
    with conflicts cannot be written. The interface \<open>package_filling\<close> is what the parser relies on in the functions of \<open>pkg.c\<close>.
  \<^item> \<open>Install\<close>: scripts and services, the removal of a package, opening and checking an archive, its extraction and the installation with
    the dependencies beside it. Removing takes exactly the unchanged files and the directories that are empty then; extracting puts every
    entry in its place and keeps configuration files; after a failed extraction every listed path is removed.
  \<^item> \<open>Printf\<close>: the table of the format codes of \<open>pkg_printf.c\<close> with all handlers, the parser of the formats and the loop that
    interprets them. It ends exactly on the formats whose escapes are known; what values, lists and texts print is stated
    without the generated formats of \<open>printf\<close>.
  \<^item> \<open>Query\<close>: the queries and conditions of the commands query and rquery (\<open>src/query.c\<close>): the tables of keys, the check of a query, the
    format of every key and the translation of a condition to SQL, a state machine over its characters. The SQL is one expression of
    a grammar, whatever the condition; what the check accepts can be printed.
  \<^item> \<open>Query_exec\<close>: the commands \<open>exec_query\<close> (\<open>src/query.c\<close>) and \<open>exec_rquery\<close> (\<open>src/rquery.c\<close>) with the line of an
    index: options, access, lock, the queries of the database and what is printed, as a result with the exit code, the lines and whether the lock
    is still held. They end, and the database only gets conditions that are expressions.

  \<^bold>\<open>Recursion and fuel.\<close> Loops that end are functions with a measure. The others take fuel, and a theorem says how
  much is enough: the update of the priorities \<open>RECURSION_LIMIT + 2\<close> (the code stops at that priority), adding a package
  more than the number of digests, the loop around the solver one round more than requests, the search for the reason of a removal 129
  levels (the code stops at 128), the loop that makes room in the cache two rounds. \<open>pkg_jobs_test_automatic\<close> has no such bound: on a cycle it
  does not return, and that is a theorem; likewise \<open>pkg_add\<close>, whose fuel is the depth of the dependencies, on archives that need each other.

  \<^bold>\<open>Parameters.\<close> The databases (\<open>env\<close>, \<open>files_env\<close>: a query is the list of what its iterator yields), PicoSAT with the
  documented meaning of its answers, SHA-256, the network, the permissions of files, the answers of the user, the XML parser, \<open>qsort\<close>,
  the texts of \<open>libucl\<close> objects and their parsers, \<open>setmode\<close>,
  \<open>libarchive\<close>, the shell and \<open>service\<close>, the options that \<open>getopt_long\<close> finds, the update of the repositories; in \<open>Execute\<close> also the functions that change the installed system (\<open>pkg_delete\<close>,
  \<open>pkg_add_upgrade\<close>, the transaction), of which \<open>Install\<close> models the first two with the registration in the database as a parameter. Every hypothesis
  about one of them has a witness with a concrete function.

  \<^bold>\<open>Not modelled.\<close> Failing allocations; the texts of errors and events; the SQL text and the SQLite statements of \<open>pkgdb.c\<close> and of the
  repositories; the making of packages (\<open>pkg_create.c\<close>) and packages of the old tools (\<open>pkg_old.c\<close>); external SAT and
  CUDF solvers; \<open>pkg_jobs_apply_replacements\<close>, one statement; plugins, configuration and the commands other than query and rquery; mirrors, SSH and DNS;
  ELF analysis; and the libraries under \<open>external/\<close> but for \<open>utlist.h\<close>, \<open>uthash.h\<close> and the functions of
  \<open>ucl_util.c\<close> that are named.
\<close>

end
